(* ===== verification/Ecphoria_Prelude.thy ===== *)
theory Ecphoria_Prelude
  imports Complex_Main "HOL-Library.Word" "HOL-Library.Char_ord" "HOL-Library.List_Lexorder"
    "HOL-Library.Sublist" "HOL-Library.Multiset"
begin

text \<open>
  The shared base of the development: identifiers, instants and JSON values, the fragment of the
  Rust string library the sources use, the SQL statement forms over keyed tables
  (\<open>INSERT OR REPLACE\<close>, \<open>INSERT OR IGNORE\<close>, \<open>UPDATE ... WHERE\<close>,
  \<open>DELETE ... WHERE\<close>, \<open>ORDER BY\<close>, \<open>LIMIT\<close>, \<open>LIKE\<close>), the interface of a
  keyed store as a locale, and the generic lemmas that the component theories use.

  Conventions. A \<open>Uuid\<close> is a 128-bit word. A \<open>DateTime<Utc>\<close> is an integer number of
  microseconds, the resolution of the database columns. An \<open>f32\<close>/\<open>f64\<close> that is only
  compared, clamped, added or divided is a rational. Strings are byte strings; case folding, white
  space and alphanumeric tests are those of the ASCII range, bytes above 127 are left alone.
  Time and fresh identifiers are arguments of the operations that read the clock or call
  \<open>Uuid::new_v4\<close>.
\<close>

named_theorems tbl_simps
named_theorems str_simps
named_theorems frame_simps

subsection \<open>Identifiers, instants, numbers\<close>

type_synonym uuid = "128 word"
type_synonym ts = int
type_synonym float32 = rat
type_synonym embedding = "rat list"

subsection \<open>JSON values (\<open>serde_json::Value\<close>)\<close>

datatype json = JNull | JBool bool | JInt int | JFloat rat | JStr string | JArr "json list"
  | JObj "(string \<times> json) list"

fun json_get :: "json \<Rightarrow> string \<Rightarrow> json option" where
  "json_get (JObj kvs) k = map_of kvs k"
| "json_get _ k = None"

fun json_as_str :: "json \<Rightarrow> string option" where
  "json_as_str (JStr s) = Some s"
| "json_as_str _ = None"

fun json_as_array :: "json \<Rightarrow> json list option" where
  "json_as_array (JArr xs) = Some xs"
| "json_as_array _ = None"

fun json_as_bool :: "json \<Rightarrow> bool option" where
  "json_as_bool (JBool b) = Some b"
| "json_as_bool _ = None"

fun json_as_u64 :: "json \<Rightarrow> nat option" where
  "json_as_u64 (JInt n) = (if 0 \<le> n \<and> n < 2 ^ 64 then Some (nat n) else None)"
| "json_as_u64 _ = None"

fun json_as_f64 :: "json \<Rightarrow> rat option" where
  "json_as_f64 (JInt n) = Some (of_int n)"
| "json_as_f64 (JFloat r) = Some r"
| "json_as_f64 _ = None"

fun json_is_object :: "json \<Rightarrow> bool" where
  "json_is_object (JObj _) = True"
| "json_is_object _ = False"

fun alist_put :: "'k \<Rightarrow> 'v \<Rightarrow> ('k \<times> 'v) list \<Rightarrow> ('k \<times> 'v) list" where
  "alist_put k v [] = [(k, v)]"
| "alist_put k v ((k', v') # kvs) = (if k' = k then (k, v) # kvs else (k', v') # alist_put k v kvs)"

fun json_insert :: "string \<Rightarrow> json \<Rightarrow> json \<Rightarrow> json" where
  "json_insert k v (JObj kvs) = JObj (alist_put k v kvs)"
| "json_insert k v j = j"

definition alist_del :: "'k \<Rightarrow> ('k \<times> 'v) list \<Rightarrow> ('k \<times> 'v) list" where
  "alist_del k kvs = filter (\<lambda>(k', _). k' \<noteq> k) kvs"

lemma map_of_alist_del [simp]: "map_of (alist_del k kvs) = (map_of kvs)(k := None)"
  by (induction kvs) (auto simp: alist_del_def)

lemma map_of_alist_put [simp]: "map_of (alist_put k v kvs) = (map_of kvs)(k \<mapsto> v)"
  by (induction k v kvs rule: alist_put.induct) auto

lemma keys_alist_put: "fst ` set (alist_put k v xs) = insert k (fst ` set xs)" "distinct (map fst xs) \<Longrightarrow> distinct (map fst (alist_put k v xs))"
proof -
  show keys: "fst ` set (alist_put k v xs) = insert k (fst ` set xs)" for xs by (induction k v xs rule: alist_put.induct) auto
  show "distinct (map fst xs) \<Longrightarrow> distinct (map fst (alist_put k v xs))"
    using keys by (induction k v xs rule: alist_put.induct) (auto simp flip: set_map simp del: map_map)
qed

lemma in_alist_put: "(k', g) \<in> set (alist_put k v xs) \<Longrightarrow> (k', g) = (k, v) \<or> (k', g) \<in> set xs"
  by (induction k v xs rule: alist_put.induct) (auto split: if_splits)

lemma json_get_insert [simp]:
  "json_is_object j \<Longrightarrow> json_get (json_insert k v j) k' = (if k' = k then Some v else json_get j k')"
  by (cases j) auto

lemma in_set_map_filter [simp]:
  "y \<in> set (List.map_filter f xs) \<longleftrightarrow> (\<exists>x \<in> set xs. f x = Some y)"
  by (force simp: List.map_filter_def)

lemma distinct_singleton: "distinct xs \<Longrightarrow> set xs = {x} \<Longrightarrow> xs = [x]"
  by (cases xs rule: remdups_adj.cases) auto

subsection \<open>Strings\<close>

definition is_ws :: "char \<Rightarrow> bool" where
  "is_ws c \<longleftrightarrow> of_char c \<in> {9::nat, 10, 11, 12, 13, 32}"

definition is_upper_ascii :: "char \<Rightarrow> bool" where
  "is_upper_ascii c \<longleftrightarrow> 65 \<le> (of_char c :: nat) \<and> (of_char c :: nat) \<le> 90"

definition is_lower_ascii :: "char \<Rightarrow> bool" where
  "is_lower_ascii c \<longleftrightarrow> 97 \<le> (of_char c :: nat) \<and> (of_char c :: nat) \<le> 122"

definition is_digit_ascii :: "char \<Rightarrow> bool" where
  "is_digit_ascii c \<longleftrightarrow> 48 \<le> (of_char c :: nat) \<and> (of_char c :: nat) \<le> 57"

definition is_alnum :: "char \<Rightarrow> bool" where
  "is_alnum c \<longleftrightarrow> is_upper_ascii c \<or> is_lower_ascii c \<or> is_digit_ascii c"

definition lower_char :: "char \<Rightarrow> char" where
  "lower_char c = (if is_upper_ascii c then char_of (of_char c + 32 :: nat) else c)"

definition to_lowercase :: "string \<Rightarrow> string" where
  "to_lowercase = map lower_char"

definition trim_start_matches :: "(char \<Rightarrow> bool) \<Rightarrow> string \<Rightarrow> string" where
  "trim_start_matches P s = dropWhile P s"

definition trim_end_matches :: "(char \<Rightarrow> bool) \<Rightarrow> string \<Rightarrow> string" where
  "trim_end_matches P s = rev (dropWhile P (rev s))"

definition trim_matches :: "(char \<Rightarrow> bool) \<Rightarrow> string \<Rightarrow> string" where
  "trim_matches P s = trim_end_matches P (trim_start_matches P s)"

definition str_trim :: "string \<Rightarrow> string" where
  "str_trim s = trim_matches is_ws s"

fun split_on :: "(char \<Rightarrow> bool) \<Rightarrow> string \<Rightarrow> string list" where
  "split_on P [] = [[]]"
| "split_on P (c # cs) =
     (if P c then [] # split_on P cs
      else (case split_on P cs of [] \<Rightarrow> [[c]] | w # ws \<Rightarrow> (c # w) # ws))"

definition split_whitespace :: "string \<Rightarrow> string list" where
  "split_whitespace s = filter (\<lambda>w. w \<noteq> []) (split_on is_ws s)"

fun str_join :: "string \<Rightarrow> string list \<Rightarrow> string" where
  "str_join sep [] = []"
| "str_join sep [w] = w"
| "str_join sep (w # v # ws) = w @ sep @ str_join sep (v # ws)"

fun strip_prefix_of :: "string \<Rightarrow> string \<Rightarrow> string option" where
  "strip_prefix_of [] s = Some s"
| "strip_prefix_of (p # ps) [] = None"
| "strip_prefix_of (p # ps) (c # cs) = (if p = c then strip_prefix_of ps cs else None)"

definition split_once_at :: "char \<Rightarrow> string \<Rightarrow> (string \<times> string) option" where
  "split_once_at sep s =
    (if sep \<in> set s then Some (takeWhile (\<lambda>c. c \<noteq> sep) s, tl (dropWhile (\<lambda>c. c \<noteq> sep) s)) else None)"

lemma strip_prefix_of_Some: "strip_prefix_of pat s = Some rest \<longleftrightarrow> s = pat @ rest"
  by (induction pat s rule: strip_prefix_of.induct) auto

lemma split_once_first: "sep \<notin> set a \<Longrightarrow> split_once_at sep (a @ sep # b) = Some (a, b)"
proof -
  assume "sep \<notin> set a"
  then have "takeWhile (\<lambda>c. c \<noteq> sep) (a @ sep # b) = a" "dropWhile (\<lambda>c. c \<noteq> sep) (a @ sep # b) = sep # b"
    by (induction a) auto
  then show ?thesis by (simp add: split_once_at_def)
qed

text \<open>\<open>chars().count()\<close> of a text in UTF-8: the bytes that do not continue a character.\<close>

definition char_count :: "string \<Rightarrow> nat" where
  "char_count s = length (filter (\<lambda>c. \<not> (128 \<le> (of_char c :: nat) \<and> (of_char c :: nat) < 192)) s)"

text \<open>The dash of the messages, in UTF-8.\<close>

abbreviation em_dash :: string where
  "em_dash \<equiv> [CHR 0xE2, CHR 0x80, CHR 0x94]"

text \<open>The decimal form of a number, as \<open>format!\<close> prints it.\<close>

fun show_nat :: "nat \<Rightarrow> string" where
  "show_nat n = (if n < 10 then [char_of (48 + n)] else show_nat (n div 10) @ [char_of (48 + n mod 10)])"

declare show_nat.simps [simp del]

text \<open>\<open>char::is_whitespace\<close> and lower-casing do not interfere.\<close>

lemma of_char_lower [simp]:
  "of_char (lower_char c) =
    (if is_upper_ascii c then of_char c + 32 else of_char c :: nat)"
  by (auto simp: lower_char_def is_upper_ascii_def)

lemma is_ws_lower [simp]: "is_ws (lower_char c) = is_ws c"
  by (auto simp: is_ws_def is_upper_ascii_def)

lemma lower_char_idem [simp]: "lower_char (lower_char c) = lower_char c"
proof -
  have "\<not> is_upper_ascii (lower_char c)" by (auto simp: is_upper_ascii_def)
  then show ?thesis by (simp add: lower_char_def)
qed

lemma is_ws_space [simp]: "is_ws CHR '' ''" by (simp add: is_ws_def)

lemma split_on_nonempty [simp]: "split_on P s \<noteq> []"
  by (cases s) (auto split: list.split)

lemma split_on_piece: "\<forall>c \<in> set w. \<not> P c \<Longrightarrow> split_on P w = [w]"
  by (induction w) auto

lemma split_on_pieces_free: "w \<in> set (split_on P s) \<Longrightarrow> \<forall>c \<in> set w. \<not> P c"
proof (induction s arbitrary: w)
  case (Cons c cs)
  obtain v vs where v: "split_on P cs = v # vs" by (cases "split_on P cs") auto
  show ?case
  proof (cases "P c")
    case True
    then have "w = [] \<or> w \<in> set (split_on P cs)" using Cons.prems by simp
    then show ?thesis using Cons.IH by auto
  next
    case False
    have "\<forall>x \<in> set v. \<not> P x" and "\<And>u. u \<in> set vs \<Longrightarrow> \<forall>x \<in> set u. \<not> P x"
      using Cons.IH [of v] Cons.IH v by auto
    then show ?thesis using Cons.prems False v by auto
  qed
qed simp

lemma split_on_append_sep:
  "\<forall>c \<in> set w. \<not> P c \<Longrightarrow> P sep \<Longrightarrow> split_on P (w @ sep # s) = w # split_on P s"
  by (induction w) auto

lemma split_on_join:
  assumes "P sep" and "ws \<noteq> []" and "\<forall>w \<in> set ws. \<forall>c \<in> set w. \<not> P c"
  shows "split_on P (str_join [sep] ws) = ws"
  using assms(2,3)
proof (induction "[sep]" ws rule: str_join.induct)
  case (2 w) then show ?case by (simp add: split_on_piece)
next
  case (3 w v ws) then show ?case using assms(1) by (simp add: split_on_append_sep)
qed simp

lemma split_whitespace_free:
  "w \<in> set (split_whitespace s) \<Longrightarrow> w \<noteq> [] \<and> (\<forall>c \<in> set w. \<not> is_ws c)"
  by (auto simp: split_whitespace_def dest: split_on_pieces_free)

lemma split_whitespace_join:
  assumes "\<forall>w \<in> set ws. w \<noteq> [] \<and> (\<forall>c \<in> set w. \<not> is_ws c)"
  shows "split_whitespace (str_join '' '' ws) = ws"
proof (cases "ws = []")
  case True then show ?thesis by (simp add: split_whitespace_def)
next
  case False
  have "split_on is_ws (str_join [CHR '' ''] ws) = ws"
    by (rule split_on_join) (use assms False in auto)
  then show ?thesis using assms by (simp add: split_whitespace_def filter_id_conv)
qed

lemma map_lower_join: "map lower_char (str_join sep ws) =
    str_join (map lower_char sep) (map (map lower_char) ws)"
  by (induction sep ws rule: str_join.induct) auto

subsection \<open>Errors\<close>

text \<open>\<open>crate::error::Error\<close> of the core, with the message kept as text.\<close>

datatype error = Storage string | Query string | Embedding string | Llm string | Ingest string
  | State string | Config string | Validation string | Internal string

type_synonym 'a result = "error + 'a"

definition res_bind :: "'e + 'a \<Rightarrow> ('a \<Rightarrow> 'e + 'b) \<Rightarrow> 'e + 'b" where
  "res_bind r k = (case r of Inl e \<Rightarrow> Inl e | Inr a \<Rightarrow> k a)"

lemma res_bind_simps [simp]: "res_bind (Inl e) k = Inl e" "res_bind (Inr a) k = k a"
  by (simp_all add: res_bind_def)

lemma res_bind_Inr_iff: "res_bind r k = Inr b \<longleftrightarrow> (\<exists>a. r = Inr a \<and> k a = Inr b)"
  by (cases r) auto

subsection \<open>ORDER BY and LIMIT\<close>

text \<open>\<open>ORDER BY e DESC\<close> as a stable sort: rows with equal keys keep the order of the table.\<close>

definition order_by_desc :: "('r \<Rightarrow> 'k::{linorder,ab_group_add}) \<Rightarrow> 'r list \<Rightarrow> 'r list" where
  "order_by_desc f rs = sort_key (\<lambda>r. - f r) rs"

lemma set_order_by_desc [simp]: "set (order_by_desc f rs) = set rs"
  by (simp add: order_by_desc_def)

lemma length_order_by_desc [simp]: "length (order_by_desc f rs) = length rs"
  by (simp add: order_by_desc_def)

lemma distinct_order_by_desc [simp]: "distinct (order_by_desc f rs) = distinct rs"
  by (simp add: order_by_desc_def)

lemma mset_order_by_desc [simp]: "mset (order_by_desc f rs) = mset rs"
  by (simp add: order_by_desc_def)

lemma order_by_desc_Nil [simp]: "order_by_desc f [] = []" "order_by_desc f rs = [] \<longleftrightarrow> rs = []"
  by (simp_all add: order_by_desc_def flip: set_empty)

lemma sort_key_map:
  "(\<And>x. x \<in> set xs \<Longrightarrow> k (g x) = k' x) \<Longrightarrow> sort_key k (map g xs) = map g (sort_key k' xs)"
proof (induction xs)
  case (Cons x xs)
  have ins: "insort_key k (g x) (map g ys) = map g (insort_key k' x ys)"
    if "\<And>y. y \<in> insert x (set ys) \<Longrightarrow> k (g y) = k' y" for ys
    using that by (induction ys) auto
  show ?case using Cons ins [of "sort_key k' xs"] by simp
qed simp

lemma sort_key_comp: "sort_key f (map g xs) = map g (sort_key (f \<circ> g) xs)"
  by (rule sort_key_map) simp

end
