(* ===== verification/Sql_Table.thy ===== *)
theory Sql_Table
  imports Ecphoria_Prelude "HOL-Library.Multiset"
begin

text \<open>
  Keyed database tables and the statement forms the stores issue on them. A table is the list of
  its rows in insertion order and \<open>key\<close> reads the primary key of a row.
  \<open>INSERT\<close> and \<open>INSERT OR REPLACE\<close> are \<open>tbl_put\<close>, \<open>INSERT ... ON CONFLICT DO NOTHING\<close>
  is \<open>tbl_insert_ignore\<close>, \<open>UPDATE ... WHERE\<close> is \<open>tbl_update\<close>,
  \<open>DELETE ... WHERE\<close> is \<open>tbl_delete\<close> and a point \<open>SELECT\<close> is \<open>tbl_find\<close>. The
  primary-key constraint is \<open>tbl_inv\<close>. The locale \<open>keyed_store\<close> is the contract the
  clients of such a table rely on; the locale's lemmas on replayed writes are proved from the
  contract alone and reach every keyed store of the program by interpretation.
\<close>

definition tbl_find :: "('r \<Rightarrow> 'k) \<Rightarrow> 'k \<Rightarrow> 'r list \<Rightarrow> 'r option" where
  "tbl_find key k rows = find (\<lambda>r. key r = k) rows"

fun tbl_put :: "('r \<Rightarrow> 'k) \<Rightarrow> 'r \<Rightarrow> 'r list \<Rightarrow> 'r list" where
  "tbl_put key r [] = [r]"
| "tbl_put key r (x # xs) = (if key x = key r then r # xs else x # tbl_put key r xs)"

definition tbl_insert_ignore :: "('r \<Rightarrow> 'k) \<Rightarrow> 'r \<Rightarrow> 'r list \<Rightarrow> 'r list" where
  "tbl_insert_ignore key r rows = (if key r \<in> key ` set rows then rows else rows @ [r])"

definition tbl_update :: "('r \<Rightarrow> bool) \<Rightarrow> ('r \<Rightarrow> 'r) \<Rightarrow> 'r list \<Rightarrow> 'r list" where
  "tbl_update P f rows = map (\<lambda>r. if P r then f r else r) rows"

definition tbl_delete :: "('r \<Rightarrow> bool) \<Rightarrow> 'r list \<Rightarrow> 'r list" where
  "tbl_delete P rows = filter (\<lambda>r. \<not> P r) rows"

definition tbl_inv :: "('r \<Rightarrow> 'k) \<Rightarrow> 'r list \<Rightarrow> bool" where
  "tbl_inv key rows \<longleftrightarrow> distinct (map key rows)"

lemma tbl_find_Nil [simp]: "tbl_find key k [] = None"
  by (simp add: tbl_find_def)

lemma tbl_find_Cons [simp]:
  "tbl_find key k (x # xs) = (if key x = k then Some x else tbl_find key k xs)"
  by (simp add: tbl_find_def)

lemma tbl_find_Some: "tbl_find key k rows = Some r \<Longrightarrow> r \<in> set rows \<and> key r = k"
  by (induction rows) (auto split: if_splits)

lemma tbl_find_None_iff [tbl_simps]: "tbl_find key k rows = None \<longleftrightarrow> k \<notin> key ` set rows"
  by (induction rows) auto

lemma tbl_find_append:
  "tbl_find key k (xs @ ys) = (case tbl_find key k xs of None \<Rightarrow> tbl_find key k ys | Some r \<Rightarrow> Some r)"
  by (induction xs) auto

lemma tbl_find_eq_iff:
  "tbl_inv key rows \<Longrightarrow> tbl_find key k rows = Some r \<longleftrightarrow> r \<in> set rows \<and> key r = k"
  by (induction rows) (auto simp: tbl_inv_def)

lemma tbl_inv_Nil [simp]: "tbl_inv key []"
  by (simp add: tbl_inv_def)

lemma tbl_inv_Cons [simp]:
  "tbl_inv key (x # xs) \<longleftrightarrow> key x \<notin> key ` set xs \<and> tbl_inv key xs"
  by (simp add: tbl_inv_def)

lemma tbl_inv_inj: "tbl_inv key rows \<Longrightarrow> r \<in> set rows \<Longrightarrow> s \<in> set rows \<Longrightarrow> key r = key s \<Longrightarrow> r = s"
  by (induction rows) (auto simp: rev_image_eqI)

lemma key_set_tbl_put [simp]: "key ` set (tbl_put key r rows) = insert (key r) (key ` set rows)"
  by (induction rows) auto

lemma tbl_inv_put [simp, intro]: "tbl_inv key rows \<Longrightarrow> tbl_inv key (tbl_put key r rows)"
  by (induction rows) auto

lemma tbl_find_put [simp]:
  "tbl_find key k (tbl_put key r rows) = (if k = key r then Some r else tbl_find key k rows)"
  by (induction rows) auto

lemma set_tbl_put: "tbl_inv key rows \<Longrightarrow>
    set (tbl_put key r rows) = insert r {x \<in> set rows. key x \<noteq> key r}"
  by (induction rows) (auto simp: rev_image_eqI)

lemma set_tbl_put_sub: "set (tbl_put key r rows) \<subseteq> insert r (set rows)"
  by (induction rows) auto

lemma in_tbl_put [simp]: "r \<in> set (tbl_put key r rows)"
  by (induction rows) auto

lemma tbl_put_fresh: "key r \<notin> key ` set rows \<Longrightarrow> tbl_put key r rows = rows @ [r]"
  by (induction rows) auto

lemma tbl_put_put [simp]:
  "key r = key s \<Longrightarrow> tbl_put key r (tbl_put key s rows) = tbl_put key r rows"
  by (induction rows) auto

lemma tbl_put_same: "tbl_inv key rows \<Longrightarrow> r \<in> set rows \<Longrightarrow> tbl_put key r rows = rows"
  by (induction rows) (auto simp: rev_image_eqI)

lemma tbl_update_Nil [simp]: "tbl_update P f [] = []"
  by (simp add: tbl_update_def)

lemma tbl_update_Cons [simp]:
  "tbl_update P f (x # xs) = (if P x then f x else x) # tbl_update P f xs"
  by (simp add: tbl_update_def)

lemma length_tbl_update [simp]: "length (tbl_update P f rows) = length rows"
  by (simp add: tbl_update_def)

lemma map_key_update: "(\<And>r. key (f r) = key r) \<Longrightarrow> map key (tbl_update P f rows) = map key rows"
  by (simp add: tbl_update_def)

lemma key_set_update: "(\<And>r. key (f r) = key r) \<Longrightarrow> key ` set (tbl_update P f rows) = key ` set rows"
  using map_key_update [of key f P rows] by (metis set_map)

lemma tbl_inv_update: "tbl_inv key rows \<Longrightarrow> (\<And>r. key (f r) = key r) \<Longrightarrow> tbl_inv key (tbl_update P f rows)"
  unfolding tbl_inv_def by (simp add: map_key_update)

lemma tbl_find_update:
  assumes "\<And>r. key (f r) = key r"
  shows "tbl_find key k (tbl_update P f rows) =
    map_option (\<lambda>r. if P r then f r else r) (tbl_find key k rows)"
  by (induction rows) (auto simp: assms)

lemma set_tbl_update: "set (tbl_update P f rows) = (\<lambda>r. if P r then f r else r) ` set rows"
  by (simp add: tbl_update_def)

lemma tbl_update_none: "(\<And>r. r \<in> set rows \<Longrightarrow> \<not> P r) \<Longrightarrow> tbl_update P f rows = rows"
  by (induction rows) auto

lemma tbl_delete_Nil [simp]: "tbl_delete P [] = []"
  by (simp add: tbl_delete_def)

lemma set_tbl_delete [simp]: "set (tbl_delete P rows) = {r \<in> set rows. \<not> P r}"
  by (auto simp: tbl_delete_def)

lemma tbl_inv_delete [simp, intro]: "tbl_inv key rows \<Longrightarrow> tbl_inv key (tbl_delete P rows)"
  unfolding tbl_inv_def tbl_delete_def by (rule distinct_map_filter)

lemma tbl_find_delete_key [simp]:
  "tbl_find key k (tbl_delete (\<lambda>r. key r = k') rows) = (if k = k' then None else tbl_find key k rows)"
  by (induction rows) (auto simp: tbl_delete_def)

lemma tbl_inv_insert_ignore [simp, intro]:
  "tbl_inv key rows \<Longrightarrow> tbl_inv key (tbl_insert_ignore key r rows)"
  by (auto simp: tbl_insert_ignore_def tbl_inv_def)

lemma tbl_find_insert_ignore:
  "tbl_find key k (tbl_insert_ignore key r rows) =
    (case tbl_find key k rows of Some x \<Rightarrow> Some x | None \<Rightarrow> if key r = k then Some r else None)"
  using tbl_find_None_iff [of key "key r" rows]
  by (auto simp: tbl_insert_ignore_def tbl_find_append split: option.split)

lemma tbl_insert_ignore_idem [simp]:
  "tbl_insert_ignore key r (tbl_insert_ignore key r rows) = tbl_insert_ignore key r rows"
  by (simp add: tbl_insert_ignore_def)

subsection \<open>LIKE\<close>

text \<open>
  \<open>LIKE\<close> with \<open>ESCAPE '\'\<close>: \<open>%\<close> matches any run, \<open>_\<close> any character, and the
  escape character makes the next one literal.
\<close>

fun like_escape_match :: "string \<Rightarrow> string \<Rightarrow> bool" where
  "like_escape_match [] s = (s = [])"
| "like_escape_match (p # ps) s =
     (if p = CHR 0x5C then
        (case (ps, s) of (q # qs, c # cs) \<Rightarrow> q = c \<and> like_escape_match qs cs | _ \<Rightarrow> False)
      else if p = CHR ''%'' then
        (like_escape_match ps s \<or> (case s of [] \<Rightarrow> False | c # cs \<Rightarrow> like_escape_match (p # ps) cs))
      else if p = CHR ''_'' then (case s of [] \<Rightarrow> False | c # cs \<Rightarrow> like_escape_match ps cs)
      else (case s of [] \<Rightarrow> False | c # cs \<Rightarrow> p = c \<and> like_escape_match ps cs))"

definition str_replace :: "char \<Rightarrow> string \<Rightarrow> string \<Rightarrow> string" where
  "str_replace c r s = concat (map (\<lambda>x. if x = c then r else [x]) s)"

definition like_escape :: "string \<Rightarrow> string" where
  "like_escape path =
    str_replace CHR ''_'' [CHR 0x5C, CHR ''_'']
      (str_replace CHR ''%'' [CHR 0x5C, CHR ''%'']
        (str_replace CHR 0x5C [CHR 0x5C, CHR 0x5C] path))"

lemma like_match_percent: "like_escape_match [CHR ''%''] s"
  by (induction s) auto

lemma like_match_escaped:
  "like_escape_match (like_escape p @ rest) s \<longleftrightarrow> (\<exists>u. s = p @ u \<and> like_escape_match rest u)"
proof (induction p arbitrary: s)
  case Nil then show ?case by (simp add: like_escape_def str_replace_def)
next
  case (Cons c p)
  have esc: "like_escape (c # p) = (if c \<in> {CHR 0x5C, CHR ''%'', CHR ''_''} then [CHR 0x5C, c] else [c]) @ like_escape p"
    by (simp add: like_escape_def str_replace_def)
  show ?case unfolding esc using Cons by (cases s) auto
qed

text \<open>Escaping the metacharacters of a prefix makes the pattern match that prefix literally.\<close>

lemma like_prefix_pattern: "like_escape_match (like_escape p @ ''%'') s \<longleftrightarrow> prefix p s"
  by (simp only: like_match_escaped like_match_percent simp_thms prefix_def)

subsection \<open>The interface of a keyed store\<close>

text \<open>
  What every keyed store of the program promises: a write is read back, leaves the other keys
  alone and keeps the store well formed, and so does a delete.
\<close>

locale keyed_store =
  fixes lookup :: "'s \<Rightarrow> 'k \<Rightarrow> 'v option"
    and key :: "'v \<Rightarrow> 'k"
    and put :: "'v \<Rightarrow> 's \<Rightarrow> 's"
    and del :: "'k \<Rightarrow> 's \<Rightarrow> 's"
    and inv :: "'s \<Rightarrow> bool"
  assumes lookup_put: "inv s \<Longrightarrow> lookup (put v s) k = (if k = key v then Some v else lookup s k)"
    and lookup_del: "inv s \<Longrightarrow> lookup (del k s) k' = (if k' = k then None else lookup s k')"
    and inv_put: "inv s \<Longrightarrow> inv (put v s)"
    and inv_del: "inv s \<Longrightarrow> inv (del k s)"
begin

lemma inv_put_all: "inv s \<Longrightarrow> inv (fold put vs s)"
  by (induction vs arbitrary: s) (auto simp: inv_put)

text \<open>After a batch of writes a reader sees the last write of each key.\<close>

lemma lookup_put_all:
  "inv s \<Longrightarrow> lookup (fold put vs s) k =
    (case find (\<lambda>v. key v = k) (rev vs) of Some v \<Rightarrow> Some v | None \<Rightarrow> lookup s k)"
proof (induction vs rule: rev_induct)
  case (snoc v vs)
  then show ?case using inv_put_all [of s vs] by (simp add: lookup_put eq_commute)
qed simp

text \<open>Writing the same batch a second time changes nothing a reader can see.\<close>

lemma replay_put_all: "inv s \<Longrightarrow> lookup (fold put vs (fold put vs s)) = lookup (fold put vs s)"
  by (rule ext) (simp add: lookup_put_all inv_put_all split: option.split)

text \<open>So does writing a prefix of it again before the whole of it.\<close>

lemma replay_prefix:
  assumes "inv s"
  shows "lookup (fold put (xs @ ys) (fold put xs s)) = lookup (fold put (xs @ ys) s)"
proof (rule ext)
  fix k
  have "find P (as @ bs) = (case find P as of Some v \<Rightarrow> Some v | None \<Rightarrow> find P bs)" for P :: "'v \<Rightarrow> bool" and as bs
    by (induction as) auto
  then show "lookup (fold put (xs @ ys) (fold put xs s)) k = lookup (fold put (xs @ ys) s) k"
    using assms inv_put_all [of s xs] lookup_put_all [of "fold put xs s" "xs @ ys" k]
      lookup_put_all [of s "xs @ ys" k] lookup_put_all [of s xs k]
    by (simp split: option.split)
qed

lemma put_put_other:
  "inv s \<Longrightarrow> key v \<noteq> key w \<Longrightarrow> lookup (put v (put w s)) = lookup (put w (put v s))"
  by (rule ext) (simp add: lookup_put inv_put)

lemma del_put: "inv s \<Longrightarrow> lookup s (key v) = None \<Longrightarrow> lookup (del (key v) (put v s)) = lookup s"
  by (rule ext) (simp add: lookup_put lookup_del inv_put)

end

text \<open>A table with a primary key is a keyed store.\<close>

interpretation tbl: keyed_store "\<lambda>rows k. tbl_find key k rows" key "tbl_put key"
    "\<lambda>k. tbl_delete (\<lambda>r. key r = k)" "tbl_inv key" for key :: "'r \<Rightarrow> 'k"
  by unfold_locales auto

subsection \<open>Replay gives the same table\<close>

lemma keys_put: "map key (tbl_put key r rows) = (if key r \<in> key ` set rows then map key rows else map key rows @ [key r])"
  by (induction rows) auto

lemma keys_fold_put_old: "key ` set rs \<subseteq> key ` set xs \<Longrightarrow> map key (fold (tbl_put key) rs xs) = map key xs"
proof (induction rs arbitrary: xs)
  case (Cons r rs)
  have keys: "map key (tbl_put key r xs) = map key xs" using Cons.prems by (simp add: keys_put)
  then have "key ` set (tbl_put key r xs) = key ` set xs" by (metis set_map)
  then show ?case using Cons keys by simp
qed simp

lemma tbl_eqI:
  assumes "map key xs = map key ys" and "tbl_inv key xs" and "\<And>k. tbl_find key k xs = tbl_find key k ys"
  shows "xs = ys"
  using assms
proof (induction xs arbitrary: ys)
  case (Cons x xs)
  then obtain y ys' where ys: "ys = y # ys'" "key y = key x" "map key xs = map key ys'" by (cases ys) auto
  have "x = y" using Cons.prems(3) [of "key x"] ys by simp
  moreover have "xs = ys'"
  proof (rule Cons.IH)
    have no: "key x \<notin> key ` set xs" "key x \<notin> key ` set ys'"
      using Cons.prems(2) ys(3) by (auto simp: tbl_inv_def simp flip: set_map)
    show "tbl_find key k xs = tbl_find key k ys'" for k
      using Cons.prems(3) [of k] ys no [THEN tbl_find_None_iff [THEN iffD2]] by (cases "key x = k") auto
  qed (use ys Cons.prems(2) in \<open>auto simp: tbl_inv_def\<close>)
  ultimately show ?case using ys by simp
qed simp

lemma keys_fold_put: "key ` set (fold (tbl_put key) rs xs) = key ` set xs \<union> key ` set rs"
proof (induction rs arbitrary: xs)
  case (Cons r rs)
  have "key ` set (tbl_put key r xs) = insert (key r) (key ` set xs)" by (induction xs) auto
  then show ?case using Cons by simp
qed simp

lemma fold_put_replay:
  assumes "tbl_inv key xs"
  shows "fold (tbl_put key) (as @ bs) (fold (tbl_put key) as xs) = fold (tbl_put key) (as @ bs) xs"
proof -
  let ?t = "fold (tbl_put key) as xs"
  have inv: "tbl_inv key (fold (tbl_put key) cs ys)" if "tbl_inv key ys" for cs ys
    using that by (rule tbl.inv_put_all)
  have "fold (tbl_put key) as ?t = ?t"
  proof (rule tbl_eqI)
    show "map key (fold (tbl_put key) as ?t) = map key ?t" by (rule keys_fold_put_old) (auto simp: keys_fold_put)
    show "tbl_inv key (fold (tbl_put key) as ?t)" using assms by (intro inv)
    show "tbl_find key k (fold (tbl_put key) as ?t) = tbl_find key k ?t" for k
      using tbl.replay_put_all [OF assms, of as] by metis
  qed
  then show ?thesis by simp
qed

lemma insert_ignore_old: "key r \<in> key ` set xs \<Longrightarrow> tbl_insert_ignore key r xs = xs"
  by (metis tbl_insert_ignore_def tbl_find_None_iff)

lemma insert_ignore_keys: "key ` set (fold (tbl_insert_ignore key) rs xs) = key ` set xs \<union> key ` set rs"
  by (induction rs arbitrary: xs) (auto simp: tbl_insert_ignore_def tbl_find_None_iff)

lemma fold_ignore_old: "key ` set rs \<subseteq> key ` set xs \<Longrightarrow> fold (tbl_insert_ignore key) rs xs = xs"
  by (induction rs) (simp_all add: insert_ignore_old)

lemma fold_ignore_replay:
  "fold (tbl_insert_ignore key) (as @ bs) (fold (tbl_insert_ignore key) as xs) =
    fold (tbl_insert_ignore key) (as @ bs) xs"
  using fold_ignore_old [of key as "fold (tbl_insert_ignore key) as xs"] by (simp add: insert_ignore_keys)

end
