(* ===== verification/Memory_Model.thy ===== *)
theory Memory_Model
  imports Sql_Table
begin

text \<open>
  The data model of agent memory and its pure functions, from
  \<open>src/crates/ecphoria-core/src/memory/cognition.rs\<close>: scopes, memories, edges and the inputs of
  the cognition pipeline as records, their lifecycle states as datatypes, and the functions on
  them that touch no store: subject canonicalisation, tokenising and stemming, triple extraction,
  BM25 ranking, reciprocal rank fusion, scope matching and the partition key of a scope.
\<close>

subsection \<open>Scopes, states, memories, edges\<close>

record memory_scope =
  sc_tenant_id :: string
  sc_user_id :: "string option"
  sc_agent_id :: "string option"
  sc_session_id :: "string option"

datatype memory_state = Active | Superseded | Expired | Pending

datatype edge_state = EdgeActive | EdgeSuperseded

datatype memory_outcome = Inserted | Confirmed | Merged | Outcome_Superseded | Conflict

record memory =
  m_id :: uuid
  m_scope :: memory_scope
  m_subject :: "string option"
  m_content :: string
  m_importance :: float32
  m_valid_from :: ts
  m_valid_to :: "ts option"
  m_state :: memory_state
  m_supersedes :: "uuid option"
  m_source_event_ids :: "uuid list"
  m_version :: nat
  m_created_at :: ts
  m_updated_at :: ts
  m_metadata :: json
  m_mem_type :: string
  m_project :: "string option"

record edge =
  e_id :: uuid
  e_src :: string
  e_relation :: string
  e_dst :: string
  e_weight :: float32
  e_source_memory_id :: "uuid option"
  e_valid_from :: "ts option"
  e_valid_to :: "ts option"
  e_state :: edge_state
  e_invalidated_by :: "uuid option"

record memory_input =
  i_scope :: memory_scope
  i_subject :: "string option"
  i_content :: string
  i_importance :: "float32 option"
  i_source_event_ids :: "uuid list"
  i_metadata :: json
  i_mem_type :: "string option"
  i_valid_from :: "ts option"
  i_project :: "string option"

record memory_patch =
  p_content :: "string option"
  p_importance :: "float32 option"
  p_mem_type :: "string option"
  p_metadata :: "json option"

record memory_filter =
  f_mem_type :: "string option"
  f_min_importance :: "float32 option"
  f_updated_after :: "ts option"
  f_updated_before :: "ts option"
  f_metadata :: "(string \<times> string) option"

record memory_add_result =
  ma_memory :: memory
  ma_outcome :: memory_outcome

record memory_row =
  mr_memory :: memory
  mr_embedding :: "embedding option"

record semantic_entry =
  se_id :: uuid
  se_content :: string
  se_embedding :: embedding
  se_metadata :: json

definition tenant_scope :: "string \<Rightarrow> memory_scope" where
  "tenant_scope t = \<lparr>sc_tenant_id = t, sc_user_id = None, sc_agent_id = None, sc_session_id = None\<rparr>"

definition user_scope :: "string \<Rightarrow> memory_scope" where
  "user_scope u =
    \<lparr>sc_tenant_id = ''default'', sc_user_id = Some u, sc_agent_id = None, sc_session_id = None\<rparr>"

text \<open>
  \<open>where_clause\<close>: the conjuncts of the exact scope match, column by column; \<open>Some v\<close> stands
  for \<open>col = v\<close> and \<open>None\<close> for \<open>col IS NULL\<close>.
\<close>

definition where_clause :: "memory_scope \<Rightarrow> (string \<times> string option) list" where
  "where_clause s =
    [(''tenant_id'', Some (if sc_tenant_id s = [] then ''default'' else sc_tenant_id s)),
     (''user_id'', sc_user_id s),
     (''agent_id'', sc_agent_id s),
     (''session_id'', sc_session_id s)]"

definition scope_column :: "string \<Rightarrow> memory_scope \<Rightarrow> string option" where
  "scope_column col s =
    (if col = ''tenant_id'' then Some (sc_tenant_id s)
     else if col = ''user_id'' then sc_user_id s
     else if col = ''agent_id'' then sc_agent_id s
     else if col = ''session_id'' then sc_session_id s
     else None)"

definition scope_where :: "memory_scope \<Rightarrow> memory \<Rightarrow> bool" where
  "scope_where s m \<longleftrightarrow> list_all (\<lambda>(col, v). scope_column col (m_scope m) = v) (where_clause s)"

definition norm_scope :: "memory_scope \<Rightarrow> memory_scope" where
  "norm_scope s = s\<lparr>sc_tenant_id := (if sc_tenant_id s = [] then ''default'' else sc_tenant_id s)\<rparr>"

fun memory_state_as_str :: "memory_state \<Rightarrow> string" where
  "memory_state_as_str Active = ''active''"
| "memory_state_as_str Superseded = ''superseded''"
| "memory_state_as_str Expired = ''expired''"
| "memory_state_as_str Pending = ''pending''"

definition memory_state_from_str :: "string \<Rightarrow> memory_state" where
  "memory_state_from_str s =
    (if s = ''superseded'' then Superseded
     else if s = ''expired'' then Expired
     else if s = ''pending'' then Pending
     else Active)"

fun edge_state_as_str :: "edge_state \<Rightarrow> string" where
  "edge_state_as_str EdgeActive = ''active''"
| "edge_state_as_str EdgeSuperseded = ''superseded''"

definition edge_state_from_str :: "string \<Rightarrow> edge_state" where
  "edge_state_from_str s = (if s = ''superseded'' then EdgeSuperseded else EdgeActive)"

text \<open>\<open>Memory::new\<close>: the fresh identifier and the clock reading are the arguments.\<close>

definition memory_new :: "uuid \<Rightarrow> ts \<Rightarrow> memory_scope \<Rightarrow> string \<Rightarrow> memory" where
  "memory_new uid now scope content =
    \<lparr>m_id = uid, m_scope = scope, m_subject = None, m_content = content, m_importance = 1/2,
     m_valid_from = now, m_valid_to = None, m_state = Active, m_supersedes = None,
     m_source_event_ids = [], m_version = 1, m_created_at = now, m_updated_at = now,
     m_metadata = JObj [], m_mem_type = ''semantic'', m_project = None\<rparr>"

fun json_opt_str :: "string option \<Rightarrow> json" where
  "json_opt_str None = JNull"
| "json_opt_str (Some s) = JStr s"

definition to_semantic_entry :: "memory \<Rightarrow> embedding \<Rightarrow> semantic_entry" where
  "to_semantic_entry m emb =
    \<lparr>se_id = m_id m, se_content = m_content m, se_embedding = emb,
     se_metadata = JObj
       [(''kind'', JStr ''memory''),
        (''tenant_id'', JStr (sc_tenant_id (m_scope m))),
        (''user_id'', json_opt_str (sc_user_id (m_scope m))),
        (''agent_id'', json_opt_str (sc_agent_id (m_scope m))),
        (''session_id'', json_opt_str (sc_session_id (m_scope m))),
        (''subject'', json_opt_str (m_subject m))]\<rparr>"

definition memory_input_new :: "memory_scope \<Rightarrow> string \<Rightarrow> memory_input" where
  "memory_input_new scope content =
    \<lparr>i_scope = scope, i_subject = None, i_content = content, i_importance = None,
     i_source_event_ids = [], i_metadata = JObj [], i_mem_type = None, i_valid_from = None,
     i_project = None\<rparr>"

definition with_project :: "string \<Rightarrow> memory_input \<Rightarrow> memory_input" where
  "with_project p i = i\<lparr>i_project := (if str_trim p \<noteq> [] then Some p else None)\<rparr>"

definition patch_is_empty :: "memory_patch \<Rightarrow> bool" where
  "patch_is_empty p \<longleftrightarrow>
    p_content p = None \<and> p_importance p = None \<and> p_mem_type p = None \<and> p_metadata p = None"

subsection \<open>Tokens and subjects\<close>

definition stop_words :: "string list" where
  "stop_words =
    [''a'', ''an'', ''and'', ''are'', ''as'', ''at'', ''be'', ''been'', ''being'', ''but'', ''by'',
     ''did'', ''do'', ''does'', ''for'', ''from'', ''had'', ''has'', ''have'', ''he'', ''her'',
     ''here'', ''him'', ''his'', ''how'', ''i'', ''if'', ''in'', ''into'', ''is'', ''it'', ''its'',
     ''me'', ''my'', ''of'', ''on'', ''or'', ''our'', ''she'', ''so'', ''than'', ''that'', ''the'',
     ''their'', ''them'', ''then'', ''there'', ''they'', ''this'', ''to'', ''up'', ''us'', ''was'',
     ''we'', ''were'', ''what'', ''when'', ''where'', ''which'', ''who'', ''why'', ''will'',
     ''with'', ''would'', ''you'', ''your'']"

definition is_stop_word :: "string \<Rightarrow> bool" where
  "is_stop_word w \<longleftrightarrow> w \<in> set stop_words"

definition is_ascii :: "string \<Rightarrow> bool" where
  "is_ascii w \<longleftrightarrow> list_all (\<lambda>c. (of_char c :: nat) < 128) w"

definition ends_with :: "string \<Rightarrow> string \<Rightarrow> bool" where
  "ends_with w e \<longleftrightarrow> suffix e w"

definition stem :: "string \<Rightarrow> string" where
  "stem w =
    (if \<not> is_ascii w then w
     else let n = length w in
       if n > 4 \<and> ends_with w ''ing'' then take (n - 3) w
       else if n > 3 \<and> ends_with w ''ies'' then take (n - 3) w @ ''y''
       else if n > 3 \<and> ends_with w ''ed'' then take (n - 2) w
       else if n > 3 \<and> ends_with w ''s'' \<and> \<not> ends_with w ''ss'' \<and> \<not> ends_with w ''us''
         then take (n - 1) w
       else w)"

definition normalize_subject :: "string \<Rightarrow> string" where
  "normalize_subject subject = to_lowercase (str_join '' '' (split_whitespace subject))"

definition fact_kind_of :: "memory \<Rightarrow> string option" where
  "fact_kind_of m =
    (case Option.bind (json_get (m_metadata m) ''kind'') json_as_str of
       None \<Rightarrow> None
     | Some s \<Rightarrow> if s \<noteq> [] then Some s else None)"

definition tokenize :: "string \<Rightarrow> string list" where
  "tokenize text =
    map stem (filter (\<lambda>s. \<not> is_stop_word s)
      (map to_lowercase (filter (\<lambda>s. s \<noteq> []) (split_on (\<lambda>c. \<not> is_alnum c) text))))"

subsection \<open>Triples\<close>

definition verb_relations :: "string list" where
  "verb_relations =
    [''likes'', ''is'', ''are'', ''has'', ''have'', ''uses'', ''knows'', ''owns'', ''prefers'',
     ''loves'', ''hates'', ''wants'', ''plays'', ''teaches'', ''visited'', ''met'', ''speaks'',
     ''joined'', ''manages'', ''leads'', ''drives'', ''founded'', ''created'', ''wrote'',
     ''enjoys'', ''dislikes'', ''needs'', ''avoids'']"

definition prep_verb_relations :: "string list" where
  "prep_verb_relations =
    [''works'', ''lives'', ''moved'', ''born'', ''based'', ''studied'', ''studies'', ''traveled'']"

definition eq_ignore_ascii_case :: "string \<Rightarrow> string \<Rightarrow> bool" where
  "eq_ignore_ascii_case a b \<longleftrightarrow> to_lowercase a = to_lowercase b"

definition relation_at :: "string list \<Rightarrow> nat \<Rightarrow> (string \<times> nat) option" where
  "relation_at words i =
    (let lw = to_lowercase (words ! i);
         next_in = (\<lambda>ps. i + 1 < length words \<and> list_ex (eq_ignore_ascii_case (words ! (i + 1))) ps)
     in if lw \<in> set verb_relations then Some (lw, i + 1)
        else if lw \<in> set prep_verb_relations \<and> next_in [''at'', ''in'', ''to'', ''from'']
          then Some (lw @ ''_'' @ to_lowercase (words ! (i + 1)), i + 2)
        else if lw = ''married'' \<and> next_in [''to''] then Some (''married_to'', i + 2)
        else None)"

definition triple_at :: "string list \<Rightarrow> nat \<Rightarrow> (string \<times> string \<times> string) option" where
  "triple_at words i =
    (if i = 0 \<or> i + 1 \<ge> length words then None
     else case relation_at words i of
         None \<Rightarrow> None
       | Some (rel, obj_start) \<Rightarrow>
           let subj = str_join '' '' (take i words);
               obj = (if obj_start \<le> length words then str_join '' '' (drop obj_start words) else [])
           in if subj \<noteq> [] \<and> obj \<noteq> [] then Some (subj, rel, obj) else None)"

definition is_sentence_end :: "char \<Rightarrow> bool" where
  "is_sentence_end c \<longleftrightarrow> c \<in> set [CHR ''.'', CHR 0x0A, CHR '';'', CHR ''!'', CHR ''?'']"

definition sentence_triples :: "string \<Rightarrow> (string \<times> string \<times> string) list" where
  "sentence_triples sentence =
    (let words = split_whitespace sentence
     in if length words < 3 then [] else List.map_filter (triple_at words) [0..<length words])"

definition extract_triples :: "string \<Rightarrow> (string \<times> string \<times> string) list" where
  "extract_triples text = concat (map sentence_triples (split_on is_sentence_end text))"

subsection \<open>Ranking\<close>

text \<open>
  \<open>lexical_rank\<close>: BM25 with the natural logarithm as a parameter (\<open>f32::ln\<close>). The sums run
  over the set of query terms, so their order does not matter in exact arithmetic.
\<close>

definition term_freq :: "string \<Rightarrow> string list \<Rightarrow> nat" where
  "term_freq t d = length (filter (\<lambda>w. w = t) d)"

definition doc_freq :: "string \<Rightarrow> string list list \<Rightarrow> nat" where
  "doc_freq t docs = length (filter (\<lambda>d. t \<in> set d) docs)"

definition bm25_term :: "(rat \<Rightarrow> rat) \<Rightarrow> nat \<Rightarrow> rat \<Rightarrow> nat \<Rightarrow> nat \<Rightarrow> nat \<Rightarrow> rat" where
  "bm25_term lnf n avgdl n_q dl f =
    (if f = 0 then 0
     else let idf = lnf ((of_nat n - of_nat n_q + 1/2) / (of_nat n_q + 1/2) + 1);
              denom = of_nat f + 12/10 * (1 - 3/4 + 3/4 * of_nat dl / avgdl)
          in idf * (of_nat f * (12/10 + 1)) / max denom (1/1000000))"

definition bm25_score :: "(rat \<Rightarrow> rat) \<Rightarrow> string list \<Rightarrow> string list list \<Rightarrow> string list \<Rightarrow> rat" where
  "bm25_score lnf q_terms docs d =
    (let n = length docs;
         avgdl = max (of_nat (sum_list (map length docs)) / of_nat n) 1
     in sum_list (map (\<lambda>t. bm25_term lnf n avgdl (doc_freq t docs) (length d) (term_freq t d)) q_terms))"

definition lexical_rank :: "(rat \<Rightarrow> rat) \<Rightarrow> string \<Rightarrow> memory list \<Rightarrow> (nat \<times> rat) list" where
  "lexical_rank lnf query candidates =
    (let q_terms = remdups (tokenize query)
     in if q_terms = [] \<or> candidates = [] then []
        else let docs = map (\<lambda>m. tokenize (m_content m)) candidates;
                 scored = filter (\<lambda>(i, score). score > 0)
                   (map (\<lambda>i. (i, bm25_score lnf q_terms docs (docs ! i))) [0..<length docs])
             in order_by_desc snd scored)"

text \<open>
  Reciprocal rank fusion. The scores live in a \<open>HashMap\<close>, whose iteration order the standard
  library leaves open: it is the parameter \<open>iter\<close>, some permutation of the entries.
\<close>

fun score_add :: "uuid \<Rightarrow> rat \<Rightarrow> (uuid \<times> rat) list \<Rightarrow> (uuid \<times> rat) list" where
  "score_add i x [] = [(i, 0 + x)]"
| "score_add i x ((j, y) # ss) = (if j = i then (j, y + x) # ss else (j, y) # score_add i x ss)"

definition rrf_add_ranking :: "rat \<Rightarrow> uuid list \<times> rat \<Rightarrow> (uuid \<times> rat) list \<Rightarrow> (uuid \<times> rat) list" where
  "rrf_add_ranking k_rrf rw scores =
    fold (\<lambda>(rank, i). score_add i (snd rw / (k_rrf + (of_nat rank + 1))))
      (List.enumerate 0 (fst rw)) scores"

definition rrf_scores :: "(uuid list \<times> rat) list \<Rightarrow> rat \<Rightarrow> (uuid \<times> rat) list" where
  "rrf_scores rankings k_rrf = fold (rrf_add_ranking k_rrf) rankings []"

definition rrf_fuse_weighted ::
  "((uuid \<times> rat) list \<Rightarrow> (uuid \<times> rat) list) \<Rightarrow> (uuid list \<times> rat) list \<Rightarrow> rat \<Rightarrow> nat \<Rightarrow> (uuid \<times> rat) list"
where
  "rrf_fuse_weighted iter rankings k_rrf top_k =
    take top_k (order_by_desc snd (iter (rrf_scores rankings k_rrf)))"

definition rrf_fuse ::
  "((uuid \<times> rat) list \<Rightarrow> (uuid \<times> rat) list) \<Rightarrow> uuid list list \<Rightarrow> rat \<Rightarrow> nat \<Rightarrow> (uuid \<times> rat) list"
where
  "rrf_fuse iter rankings k_rrf top_k =
    take top_k (order_by_desc snd (iter
      (fold (\<lambda>ranking. fold (\<lambda>(rank, i). score_add i (1 / (k_rrf + (of_nat rank + 1))))
        (List.enumerate 0 ranking)) rankings [])))"

subsection \<open>Scope matching and partition keys\<close>

definition scope_matches_metadata :: "memory_scope \<Rightarrow> json \<Rightarrow> bool" where
  "scope_matches_metadata scope metadata =
    (let want_tenant = (if sc_tenant_id scope = [] then ''default'' else sc_tenant_id scope);
         get = (\<lambda>k. Option.bind (json_get metadata k) json_as_str)
     in (case get ''tenant_id'' of None \<Rightarrow> ''default'' | Some t \<Rightarrow> t) = want_tenant \<and>
        list_all (\<lambda>(k, v). case (v, get k) of
            (Some want, Some got) \<Rightarrow> want = got
          | (None, None) \<Rightarrow> True
          | _ \<Rightarrow> False)
        [(''user_id'', sc_user_id scope), (''agent_id'', sc_agent_id scope),
         (''session_id'', sc_session_id scope)])"

definition opt_str :: "string option \<Rightarrow> string" where
  "opt_str v = (case v of None \<Rightarrow> [] | Some s \<Rightarrow> s)"

definition scope_partition_key :: "memory_scope \<Rightarrow> string" where
  "scope_partition_key scope =
    (let tenant = (if sc_tenant_id scope = [] then ''default'' else sc_tenant_id scope)
     in tenant @ [CHR 0x1F] @ opt_str (sc_user_id scope) @ [CHR 0x1F]
        @ opt_str (sc_agent_id scope) @ [CHR 0x1F] @ opt_str (sc_session_id scope))"

subsection \<open>Lemmas on scopes and subjects\<close>

lemma scope_where_iff: "scope_where s m \<longleftrightarrow> m_scope m = norm_scope s"
  by (auto simp: scope_where_def where_clause_def scope_column_def norm_scope_def)

lemma norm_scope_idem [simp]: "norm_scope (norm_scope s) = norm_scope s"
  by (simp add: norm_scope_def)

lemma sc_norm_scope [simp]:
  "sc_user_id (norm_scope s) = sc_user_id s" "sc_agent_id (norm_scope s) = sc_agent_id s"
  "sc_session_id (norm_scope s) = sc_session_id s"
  by (simp_all add: norm_scope_def)

lemma norm_scope_id: "sc_tenant_id s \<noteq> [] \<Longrightarrow> norm_scope s = s"
  by (simp add: norm_scope_def)

lemma memory_state_roundtrip: "memory_state_from_str (memory_state_as_str st) = st"
  by (cases st) (simp_all add: memory_state_from_str_def)

lemma edge_state_roundtrip: "edge_state_from_str (edge_state_as_str st) = st"
  by (cases st) (simp_all add: edge_state_from_str_def)

lemma normalize_subject_words:
  "split_whitespace (normalize_subject s) = map (map lower_char) (split_whitespace s)"
proof -
  have "normalize_subject s = str_join '' '' (map (map lower_char) (split_whitespace s))"
    by (simp add: normalize_subject_def to_lowercase_def map_lower_join lower_char_def
        is_upper_ascii_def)
  moreover have "\<forall>w \<in> set (map (map lower_char) (split_whitespace s)).
      w \<noteq> [] \<and> (\<forall>c \<in> set w. \<not> is_ws c)"
    using split_whitespace_free by fastforce
  ultimately show ?thesis by (simp add: split_whitespace_join)
qed

lemma normalize_subject_eq_iff:
  "normalize_subject s = normalize_subject t \<longleftrightarrow>
    map to_lowercase (split_whitespace s) = map to_lowercase (split_whitespace t)"
proof
  assume "normalize_subject s = normalize_subject t"
  then have "split_whitespace (normalize_subject s) = split_whitespace (normalize_subject t)" by simp
  then show "map to_lowercase (split_whitespace s) = map to_lowercase (split_whitespace t)"
    by (simp add: normalize_subject_words to_lowercase_def)
next
  assume "map to_lowercase (split_whitespace s) = map to_lowercase (split_whitespace t)"
  then have "map (map lower_char) (split_whitespace s) = map (map lower_char) (split_whitespace t)"
    by (simp add: to_lowercase_def)
  then show "normalize_subject s = normalize_subject t"
    by (simp add: normalize_subject_def to_lowercase_def map_lower_join)
qed

text \<open>Canonicalising is idempotent, so a stored key looked up again is itself.\<close>

lemma normalize_subject_idem [simp]:
  "normalize_subject (normalize_subject s) = normalize_subject s"
  by (subst normalize_subject_eq_iff)
    (simp add: normalize_subject_words to_lowercase_def comp_def)

lemma json_as_str_opt [simp]: "json_as_str (json_opt_str v) = v"
  by (cases v) simp_all

lemma scope_matches_metadata_iff:
  "scope_matches_metadata s (se_metadata (to_semantic_entry m emb)) \<longleftrightarrow> scope_where s m"
  by (auto simp: scope_matches_metadata_def to_semantic_entry_def scope_where_def where_clause_def
      scope_column_def split: option.splits)

lemma sep_append_inj:
  "x \<notin> set a \<Longrightarrow> x \<notin> set b \<Longrightarrow> a @ x # r = b @ x # q \<longleftrightarrow> a = b \<and> r = q"
proof (induction a arbitrary: b)
  case Nil then show ?case by (cases b) auto
next
  case (Cons y a) then show ?case by (cases b) auto
qed

definition scope_sep_free :: "memory_scope \<Rightarrow> bool" where
  "scope_sep_free s \<longleftrightarrow> list_all (\<lambda>v. CHR 0x1F \<notin> set v)
    [sc_tenant_id s, opt_str (sc_user_id s), opt_str (sc_agent_id s), opt_str (sc_session_id s)]"

lemma scope_partition_key_inj:
  assumes "scope_sep_free s" and "scope_sep_free t"
  shows "scope_partition_key s = scope_partition_key t \<longleftrightarrow>
    sc_tenant_id (norm_scope s) = sc_tenant_id (norm_scope t) \<and>
    opt_str (sc_user_id s) = opt_str (sc_user_id t) \<and>
    opt_str (sc_agent_id s) = opt_str (sc_agent_id t) \<and>
    opt_str (sc_session_id s) = opt_str (sc_session_id t)"
proof -
  have "CHR 0x1F \<notin> set (sc_tenant_id (norm_scope s))" "CHR 0x1F \<notin> set (sc_tenant_id (norm_scope t))"
    using assms by (simp_all add: scope_sep_free_def norm_scope_def)
  moreover have "scope_partition_key u = sc_tenant_id (norm_scope u) @ CHR 0x1F # opt_str (sc_user_id u)
      @ CHR 0x1F # opt_str (sc_agent_id u) @ CHR 0x1F # opt_str (sc_session_id u)" for u
    by (simp add: scope_partition_key_def norm_scope_def)
  ultimately show ?thesis using assms by (simp add: scope_sep_free_def sep_append_inj)
qed

subsection \<open>The interface of an index derived from the memory rows\<close>

abbreviation row_id :: "memory_row \<Rightarrow> uuid" where
  "row_id r \<equiv> m_id (mr_memory r)"

definition active_ids :: "memory_row list \<Rightarrow> uuid set" where
  "active_ids rows = {row_id r | r. r \<in> set rows \<and> m_state (mr_memory r) = Active}"

text \<open>
  The lexical and the vector index are advisory: they mirror the active rows of the store and are
  never the source of truth. The contract: indexing a row adds at most its own identifier,
  forgetting an identifier removes it.
\<close>

locale advisory_index =
  fixes ids :: "'x \<Rightarrow> uuid set"
    and index :: "memory_row \<Rightarrow> 'x \<Rightarrow> 'x"
    and forget :: "uuid \<Rightarrow> 'x \<Rightarrow> 'x"
    and inv :: "'x \<Rightarrow> bool"
  assumes ids_index: "inv x \<Longrightarrow> ids (index r x) \<subseteq> insert (row_id r) (ids x)"
    and ids_forget: "inv x \<Longrightarrow> ids (forget u x) = ids x - {u}"
    and inv_index: "inv x \<Longrightarrow> inv (index r x)"
    and inv_forget: "inv x \<Longrightarrow> inv (forget u x)"
begin

definition index_row :: "memory_row \<Rightarrow> 'x \<Rightarrow> 'x" where
  "index_row r x = (if m_state (mr_memory r) = Active then index r x else forget (row_id r) x)"

definition mirrors :: "memory_row list \<Rightarrow> 'x \<Rightarrow> bool" where
  "mirrors rows x \<longleftrightarrow> inv x \<and> ids x \<subseteq> active_ids rows"

lemma mirrors_put:
  assumes "tbl_inv row_id rows" and "mirrors rows x"
  shows "mirrors (tbl_put row_id r rows) (index_row r x)"
proof -
  have inv: "inv x" and sub: "ids x \<subseteq> active_ids rows" using assms(2) by (auto simp: mirrors_def)
  have rows: "active_ids (tbl_put row_id r rows) =
      (if m_state (mr_memory r) = Active then insert (row_id r) (active_ids rows)
       else active_ids rows - {row_id r})"
    using assms(1) by (auto simp: active_ids_def set_tbl_put)
  show ?thesis
  proof (cases "m_state (mr_memory r) = Active")
    case True
    then show ?thesis using inv sub rows ids_index [OF inv, of r] inv_index [OF inv]
      by (auto simp: mirrors_def index_row_def)
  next
    case False
    then show ?thesis using inv sub rows ids_forget [OF inv] inv_forget [OF inv]
      by (auto simp: mirrors_def index_row_def)
  qed
qed

lemma mirrors_forget:
  assumes "mirrors rows x" and "active_ids rows - {u} \<subseteq> active_ids rows'"
  shows "mirrors rows' (forget u x)"
  using assms by (auto simp: mirrors_def ids_forget inv_forget)

lemma mirrors_forget_all:
  assumes "mirrors rows x" and "active_ids rows - set us \<subseteq> active_ids rows'"
  shows "mirrors rows' (fold forget us x)"
proof -
  have "inv x \<Longrightarrow> inv (fold forget us x) \<and> ids (fold forget us x) = ids x - set us"
    by (induction us arbitrary: x) (auto simp: ids_forget inv_forget)
  then show ?thesis using assms by (auto simp: mirrors_def)
qed

lemma mirrors_mono: "mirrors rows x \<Longrightarrow> active_ids rows \<subseteq> active_ids rows' \<Longrightarrow> mirrors rows' x"
  by (auto simp: mirrors_def)

end

end
