(* ===== verification/Memory_Store.thy ===== *)
theory Memory_Store
  imports Memory_Model
begin

text \<open>
  The bi-temporal memory store, \<open>MemoryStore\<close> of
  \<open>src/crates/ecphoria-core/src/memory/cognition.rs\<close>: the four tables as the fields of a record
  and one definition per method. A method that only reads maps the store to its result; a method
  that writes returns the new store, with its result where it has one. \<open>Utc::now()\<close> and
  \<open>Uuid::new_v4()\<close> are arguments; \<open>power\<close> and \<open>json_extract_string\<close> of the database are
  parameters of the definitions that use them. Rows that tie under an \<open>ORDER BY\<close> keep the order
  of the table. Failures of the database itself are not modelled here, nor is the column \<open>created_at\<close> of
  the edges, which defaults to the local clock and which no query reads; versions are
  unbounded, where the column is a 64-bit integer.
\<close>

record edge_row =
  er_tenant :: string
  er_edge :: edge

record grant_row =
  g_id :: uuid
  g_tenant :: string
  g_grantee_user_id :: string
  g_grantor_user_id :: string
  g_access :: string
  g_created_at :: ts

record attachment_meta =
  a_id :: uuid
  a_tenant_id :: string
  a_memory_id :: "uuid option"
  a_content_type :: string
  a_filename :: "string option"
  a_size :: nat
  a_storage_key :: string
  a_created_at :: ts

record memory_scope_count =
  msc_user_id :: "string option"
  msc_agent_id :: "string option"
  msc_session_id :: "string option"
  msc_count :: nat

record memory_store =
  st_memories :: "memory_row list"
  st_edges :: "edge_row list"
  st_grants :: "grant_row list"
  st_attachments :: "attachment_meta list"

definition ms_new :: memory_store where
  "ms_new = \<lparr>st_memories = [], st_edges = [], st_grants = [], st_attachments = []\<rparr>"

abbreviation edge_row_id :: "edge_row \<Rightarrow> uuid" where
  "edge_row_id r \<equiv> e_id (er_edge r)"

definition ms_inv :: "memory_store \<Rightarrow> bool" where
  "ms_inv st \<longleftrightarrow> tbl_inv row_id (st_memories st) \<and> tbl_inv edge_row_id (st_edges st) \<and>
    tbl_inv g_id (st_grants st) \<and> tbl_inv a_id (st_attachments st)"

text \<open>The rows a \<open>SELECT ... FROM memories WHERE P\<close> reads, in table order.\<close>

definition ms_select :: "(memory \<Rightarrow> bool) \<Rightarrow> memory_store \<Rightarrow> memory list" where
  "ms_select P st = filter P (map mr_memory (st_memories st))"

definition clamp_limit :: "nat \<Rightarrow> nat \<Rightarrow> nat" where
  "clamp_limit hi limit = max 1 (min limit hi)"

subsection \<open>Writing rows\<close>

definition ms_insert :: "memory \<Rightarrow> embedding option \<Rightarrow> memory_store \<Rightarrow> memory_store" where
  "ms_insert m emb st = st\<lparr>st_memories :=
    tbl_insert_ignore row_id \<lparr>mr_memory = m, mr_embedding = emb\<rparr> (st_memories st)\<rparr>"

definition ms_upsert_raw :: "memory \<Rightarrow> embedding option \<Rightarrow> memory_store \<Rightarrow> memory_store" where
  "ms_upsert_raw m emb st = st\<lparr>st_memories :=
    tbl_put row_id \<lparr>mr_memory = m, mr_embedding = emb\<rparr> (st_memories st)\<rparr>"

fun chunks_of :: "nat \<Rightarrow> 'a list \<Rightarrow> 'a list list" where
  "chunks_of n [] = []"
| "chunks_of n (x # xs) = (if n = 0 then [x # xs] else take n (x # xs) # chunks_of n (drop n (x # xs)))"

definition existing_ids :: "memory_row list \<Rightarrow> memory_store \<Rightarrow> uuid set" where
  "existing_ids rows st =
    (let ids = map row_id rows
     in \<Union>(set (map (\<lambda>chunk. set (map row_id (filter (\<lambda>r. row_id r \<in> set chunk) (st_memories st))))
          (chunks_of 512 ids))))"

text \<open>
  The appender has no conflict handling: a batch that would break the primary key is refused and
  nothing of it is stored.
\<close>

definition append_new_batch :: "memory_row list \<Rightarrow> memory_store \<Rightarrow> error + memory_store" where
  "append_new_batch rows st =
    (if tbl_inv row_id (st_memories st @ rows)
     then Inr (st\<lparr>st_memories := st_memories st @ rows\<rparr>)
     else Inl (Ingest ''memories appender flush''))"

definition upsert_raw_batch :: "memory_row list \<Rightarrow> memory_store \<Rightarrow> error + memory_store" where
  "upsert_raw_batch rows st =
    (if rows = [] then Inr st
     else let existing = existing_ids rows st;
              updates = filter (\<lambda>r. row_id r \<in> existing) rows;
              inserts = filter (\<lambda>r. row_id r \<notin> existing) rows
          in res_bind (if inserts \<noteq> [] then append_new_batch inserts st else Inr st)
            (\<lambda>st1. if updates = [] then Inr st1
              else Inr (fold (\<lambda>r. ms_upsert_raw (mr_memory r) (mr_embedding r)) updates st1)))"

definition set_memory :: "(memory \<Rightarrow> bool) \<Rightarrow> (memory \<Rightarrow> memory) \<Rightarrow> memory_store \<Rightarrow> memory_store" where
  "set_memory P f st = st\<lparr>st_memories :=
    tbl_update (\<lambda>r. P (mr_memory r)) (\<lambda>r. r\<lparr>mr_memory := f (mr_memory r)\<rparr>) (st_memories st)\<rparr>"

definition ms_supersede :: "ts \<Rightarrow> uuid \<Rightarrow> ts \<Rightarrow> memory_store \<Rightarrow> memory_store" where
  "ms_supersede now uid valid_to st =
    set_memory (\<lambda>m. m_id m = uid)
      (\<lambda>m. m\<lparr>m_state := Superseded, m_valid_to := Some valid_to, m_updated_at := now\<rparr>) st"

definition ms_merge_into ::
  "ts \<Rightarrow> uuid \<Rightarrow> string \<Rightarrow> float32 \<Rightarrow> embedding option \<Rightarrow> memory_store \<Rightarrow> memory_store" where
  "ms_merge_into now uid content importance emb st = st\<lparr>st_memories :=
    tbl_update (\<lambda>r. row_id r = uid)
      (\<lambda>r. r\<lparr>mr_memory := (mr_memory r)\<lparr>m_content := content, m_importance := importance,
                m_version := m_version (mr_memory r) + 1, m_updated_at := now\<rparr>,
             mr_embedding := emb\<rparr>) (st_memories st)\<rparr>"

definition ms_touch :: "ts \<Rightarrow> uuid \<Rightarrow> float32 \<Rightarrow> memory_store \<Rightarrow> memory_store" where
  "ms_touch now uid importance st =
    set_memory (\<lambda>m. m_id m = uid)
      (\<lambda>m. m\<lparr>m_importance := max (m_importance m) importance, m_version := m_version m + 1,
             m_updated_at := now\<rparr>) st"

subsection \<open>Reading\<close>

definition ms_get :: "uuid \<Rightarrow> memory_store \<Rightarrow> memory option" where
  "ms_get uid st = map_option mr_memory (tbl_find row_id uid (st_memories st))"

definition ms_get_scoped :: "uuid \<Rightarrow> string \<Rightarrow> memory_store \<Rightarrow> memory option" where
  "ms_get_scoped uid tenant st =
    (case ms_select (\<lambda>m. m_id m = uid \<and> sc_tenant_id (m_scope m) = tenant) st of
       [] \<Rightarrow> None | m # _ \<Rightarrow> Some m)"

definition find_active_by_subject ::
  "memory_scope \<Rightarrow> string \<Rightarrow> string option \<Rightarrow> memory_store \<Rightarrow> memory list" where
  "find_active_by_subject scope subject project st =
    order_by_desc m_valid_from
      (ms_select (\<lambda>m. scope_where scope m \<and> m_subject m = Some subject \<and> m_project m = project \<and>
          m_state m = Active) st)"

definition list_pending :: "memory_scope \<Rightarrow> nat \<Rightarrow> memory_store \<Rightarrow> memory list" where
  "list_pending scope limit st =
    take (clamp_limit 10000 limit)
      (sort_key m_created_at (ms_select (\<lambda>m. scope_where scope m \<and> m_state m = Pending) st))"

definition list_active :: "memory_scope \<Rightarrow> nat \<Rightarrow> memory_store \<Rightarrow> memory list" where
  "list_active scope limit st =
    take (clamp_limit 10000 limit)
      (order_by_desc m_importance (order_by_desc m_valid_from
        (ms_select (\<lambda>m. scope_where scope m \<and> m_state m = Active) st)))"

definition find_active_by_document :: "memory_scope \<Rightarrow> string \<Rightarrow> memory_store \<Rightarrow> memory list" where
  "find_active_by_document scope doc_path st =
    (let path = normalize_subject doc_path;
         pat = like_escape path @ ''#%''
     in sort_key (\<lambda>m. the (m_subject m))
       (ms_select (\<lambda>m. scope_where scope m \<and> m_state m = Active \<and>
          (case m_subject m of None \<Rightarrow> False | Some s \<Rightarrow> s = path \<or> like_escape_match pat s)) st))"

definition list_project_chunks :: "memory_scope \<Rightarrow> string \<Rightarrow> memory_store \<Rightarrow> memory list" where
  "list_project_chunks scope project st =
    ms_select (\<lambda>m. scope_where scope m \<and> m_project m = Some project \<and>
      m_mem_type m = ''chunk'' \<and> m_state m = Active) st"

fun take_found :: "uuid list \<Rightarrow> (uuid \<Rightarrow> memory option) \<Rightarrow> memory list" where
  "take_found [] found = []"
| "take_found (i # is) found =
     (case found i of None \<Rightarrow> take_found is found | Some m \<Rightarrow> m # take_found is (found(i := None)))"

definition get_active_by_ids :: "uuid list \<Rightarrow> memory_scope \<Rightarrow> memory_store \<Rightarrow> memory list" where
  "get_active_by_ids ids scope st =
    (if ids = [] then []
     else let found = fold (\<lambda>chunk found.
                fold (\<lambda>m found. found(m_id m := Some m))
                  (ms_select (\<lambda>m. scope_where scope m \<and> m_state m = Active \<and> m_id m \<in> set chunk) st)
                  found)
              (chunks_of 512 ids) (\<lambda>_. None)
          in take_found ids found)"

definition lexical_page ::
  "nat \<Rightarrow> nat \<Rightarrow> memory_store \<Rightarrow> (uuid \<times> memory_scope \<times> string option \<times> string option \<times> string) list" where
  "lexical_page offset limit st =
    map (\<lambda>m. (m_id m, m_scope m, m_project m, m_subject m, m_content m))
      (take limit (drop offset (sort_key m_id (ms_select (\<lambda>m. m_state m = Active) st))))"

definition safe_metadata_key :: "string \<Rightarrow> bool" where
  "safe_metadata_key key \<longleftrightarrow>
    key \<noteq> [] \<and> list_all (\<lambda>c. is_alnum c \<or> c = CHR ''_'' \<or> c = CHR ''.'') key"

definition opt_holds :: "('a \<Rightarrow> bool) \<Rightarrow> 'a option \<Rightarrow> bool" where
  "opt_holds P v = (case v of None \<Rightarrow> True | Some x \<Rightarrow> P x)"

definition list_paged ::
  "(json \<Rightarrow> string \<Rightarrow> string option) \<Rightarrow> memory_scope \<Rightarrow> nat \<Rightarrow> nat \<Rightarrow> memory_filter \<Rightarrow> memory_store \<Rightarrow> memory list"
where
  "list_paged json_extract_string scope limit offset flt st =
    (if opt_holds (\<lambda>(key, _). safe_metadata_key key) (f_metadata flt)
     then take (clamp_limit 10000 limit) (drop (min offset 10000000)
       (order_by_desc m_importance (order_by_desc m_valid_from
         (ms_select (\<lambda>m. scope_where scope m \<and> m_state m = Active \<and>
            opt_holds (\<lambda>mt. m_mem_type m = mt) (f_mem_type flt) \<and>
            opt_holds (\<lambda>imp. m_importance m \<ge> max 0 (min imp 1)) (f_min_importance flt) \<and>
            opt_holds (\<lambda>t. m_updated_at m \<ge> t) (f_updated_after flt) \<and>
            opt_holds (\<lambda>t. m_updated_at m < t) (f_updated_before flt) \<and>
            opt_holds (\<lambda>(key, v). json_extract_string (m_metadata m) (''$.'' @ key) = Some v)
              (f_metadata flt)) st))))
     else [])"

definition list_by_tenant :: "string \<Rightarrow> nat \<Rightarrow> memory_store \<Rightarrow> memory list" where
  "list_by_tenant tenant limit st =
    take (clamp_limit 1000000 limit) (order_by_desc m_updated_at
      (ms_select (\<lambda>m. sc_tenant_id (m_scope m) = tenant \<and> m_state m = Active) st))"

definition list_published ::
  "(json \<Rightarrow> string \<Rightarrow> string option) \<Rightarrow> string \<Rightarrow> nat \<Rightarrow> memory_store \<Rightarrow> memory list" where
  "list_published json_extract_string tenant limit st =
    take (clamp_limit 100000 limit) (order_by_desc m_updated_at
      (ms_select (\<lambda>m. sc_tenant_id (m_scope m) = tenant \<and> m_state m = Active \<and>
         json_extract_string (m_metadata m) ''$.published'' = Some ''true'') st))"

definition history :: "memory_scope \<Rightarrow> string \<Rightarrow> memory_store \<Rightarrow> memory list" where
  "history scope subject st =
    sort_key m_valid_from (ms_select (\<lambda>m. scope_where scope m \<and> m_subject m = Some subject) st)"

definition valid_at :: "ts \<Rightarrow> memory \<Rightarrow> bool" where
  "valid_at t m \<longleftrightarrow> m_valid_from m \<le> t \<and> (case m_valid_to m of None \<Rightarrow> True | Some v \<Rightarrow> v > t)"

definition as_of :: "memory_scope \<Rightarrow> string \<Rightarrow> ts \<Rightarrow> memory_store \<Rightarrow> memory option" where
  "as_of scope subject t st =
    (case take 1 (order_by_desc m_valid_from
        (ms_select (\<lambda>m. scope_where scope m \<and> m_subject m = Some subject \<and> valid_at t m) st)) of
       [] \<Rightarrow> None | m # _ \<Rightarrow> Some m)"

definition ms_count :: "memory_store \<Rightarrow> nat" where
  "ms_count st = length (st_memories st)"

definition same_group :: "memory \<Rightarrow> memory \<Rightarrow> bool" where
  "same_group a b \<longleftrightarrow> sc_user_id (m_scope a) = sc_user_id (m_scope b) \<and>
    sc_agent_id (m_scope a) = sc_agent_id (m_scope b) \<and>
    sc_session_id (m_scope a) = sc_session_id (m_scope b)"

fun group_counts :: "memory list \<Rightarrow> memory_scope_count list" where
  "group_counts [] = []"
| "group_counts (m # ms) =
     \<lparr>msc_user_id = sc_user_id (m_scope m), msc_agent_id = sc_agent_id (m_scope m),
      msc_session_id = sc_session_id (m_scope m),
      msc_count = Suc (length (filter (same_group m) ms))\<rparr>
     # group_counts (filter (\<lambda>x. \<not> same_group m x) ms)"

definition ms_scopes :: "string option \<Rightarrow> memory_store \<Rightarrow> memory_scope_count list" where
  "ms_scopes tenant st =
    take 10000 (order_by_desc (\<lambda>g. int (msc_count g))
      (group_counts (ms_select (\<lambda>m. m_state m = Active \<and>
        opt_holds (\<lambda>t. sc_tenant_id (m_scope m) = t) tenant) st)))"

definition load_active_with_embeddings :: "memory_store \<Rightarrow> (memory \<times> embedding) list" where
  "load_active_with_embeddings st =
    filter (\<lambda>(_, e). e \<noteq> [])
      (map (\<lambda>r. (mr_memory r, the (mr_embedding r)))
        (filter (\<lambda>r. m_state (mr_memory r) = Active \<and> mr_embedding r \<noteq> None) (st_memories st)))"

definition all_active :: "nat \<Rightarrow> memory_store \<Rightarrow> memory list" where
  "all_active limit st =
    take limit (sort_key m_updated_at (ms_select (\<lambda>m. m_state m = Active) st))"

definition get_embedding :: "uuid \<Rightarrow> memory_store \<Rightarrow> embedding option" where
  "get_embedding uid st =
    (case tbl_find row_id uid (st_memories st) of
       None \<Rightarrow> None
     | Some r \<Rightarrow> (case mr_embedding r of
           None \<Rightarrow> None
         | Some e \<Rightarrow> if e = [] then None else Some e))"

subsection \<open>Deleting, forgetting\<close>

definition ms_delete :: "uuid \<Rightarrow> memory_store \<Rightarrow> memory_store" where
  "ms_delete uid st = st\<lparr>st_memories := tbl_delete (\<lambda>r. row_id r = uid) (st_memories st)\<rparr>"

definition delete_scoped :: "uuid \<Rightarrow> string \<Rightarrow> memory_store \<Rightarrow> bool \<times> memory_store" where
  "delete_scoped uid tenant st =
    (let hit = (\<lambda>r. row_id r = uid \<and> sc_tenant_id (m_scope (mr_memory r)) = tenant)
     in (list_ex hit (st_memories st), st\<lparr>st_memories := tbl_delete hit (st_memories st)\<rparr>))"

definition delete_by_tenant :: "string \<Rightarrow> memory_store \<Rightarrow> uuid list \<times> memory_store" where
  "delete_by_tenant tenant st =
    (let hit = (\<lambda>r. sc_tenant_id (m_scope (mr_memory r)) = tenant)
     in (map row_id (filter hit (st_memories st)),
         st\<lparr>st_memories := tbl_delete hit (st_memories st),
            st_edges := tbl_delete (\<lambda>e. er_tenant e = tenant) (st_edges st)\<rparr>))"

definition delete_by_user :: "string \<Rightarrow> string \<Rightarrow> memory_store \<Rightarrow> uuid list \<times> memory_store" where
  "delete_by_user tenant user_id st =
    (let hit = (\<lambda>r. sc_tenant_id (m_scope (mr_memory r)) = tenant \<and>
                    sc_user_id (m_scope (mr_memory r)) = Some user_id)
     in (map row_id (filter hit (st_memories st)),
         st\<lparr>st_memories := tbl_delete hit (st_memories st)\<rparr>))"

definition enforce_scope_cap :: "memory_scope \<Rightarrow> nat \<Rightarrow> memory_store \<Rightarrow> uuid list \<times> memory_store" where
  "enforce_scope_cap scope cap st =
    (if cap = 0 then ([], st)
     else let all_ids = map m_id (order_by_desc m_importance (order_by_desc m_updated_at
                (ms_select (\<lambda>m. scope_where scope m \<and> m_state m = Active) st)))
          in if length all_ids \<le> cap then ([], st)
             else let evict = drop cap all_ids in (evict, fold ms_delete evict st))"

text \<open>
  Time-decayed importance: \<open>power\<close> is the database's, and \<open>date_diff('second', ...)\<close> counts
  the second boundaries between two instants.
\<close>

definition date_diff_second :: "ts \<Rightarrow> ts \<Rightarrow> int" where
  "date_diff_second a b = b div 1000000 - a div 1000000"

definition decay_cond :: "(rat \<Rightarrow> rat \<Rightarrow> rat) \<Rightarrow> ts \<Rightarrow> rat \<Rightarrow> rat \<Rightarrow> memory \<Rightarrow> bool" where
  "decay_cond db_power now half_life threshold m \<longleftrightarrow>
    m_state m = Active \<and>
    m_importance m * db_power (1/2) (of_int (date_diff_second (m_updated_at m) now) / 86400 / half_life)
      < threshold"

definition decay_candidates ::
  "(rat \<Rightarrow> rat \<Rightarrow> rat) \<Rightarrow> ts \<Rightarrow> float32 \<Rightarrow> float32 \<Rightarrow> memory_store \<Rightarrow> uuid list" where
  "decay_candidates db_power now half_life_days forget_threshold st =
    (let half_life = max half_life_days (1/1000)
     in map m_id (ms_select (decay_cond db_power now half_life forget_threshold) st))"

definition decay ::
  "(rat \<Rightarrow> rat \<Rightarrow> rat) \<Rightarrow> ts \<Rightarrow> float32 \<Rightarrow> float32 \<Rightarrow> memory_store \<Rightarrow> uuid list \<times> memory_store" where
  "decay db_power now half_life_days forget_threshold st =
    (let half_life = max half_life_days (1/1000);
         cond = decay_cond db_power now half_life forget_threshold;
         ids = map m_id (ms_select cond st)
     in (ids, if ids \<noteq> []
              then set_memory cond
                (\<lambda>m. m\<lparr>m_state := Expired, m_valid_to := Some now, m_updated_at := now\<rparr>) st
              else st))"

definition ms_expire :: "ts \<Rightarrow> uuid \<Rightarrow> memory_store \<Rightarrow> bool \<times> memory_store" where
  "ms_expire now uid st =
    (let hit = (\<lambda>m. m_id m = uid \<and> m_state m = Active)
     in (ms_select hit st \<noteq> [],
         set_memory hit
           (\<lambda>m. m\<lparr>m_state := Expired, m_valid_to := Some now, m_updated_at := now\<rparr>) st))"

subsection \<open>Grants and attachments\<close>

definition add_grant ::
  "uuid \<Rightarrow> ts \<Rightarrow> string \<Rightarrow> string \<Rightarrow> string \<Rightarrow> memory_store \<Rightarrow> uuid \<times> memory_store" where
  "add_grant fresh now tenant grantee grantor st =
    (case find (\<lambda>g. g_tenant g = tenant \<and> g_grantee_user_id g = grantee \<and>
                    g_grantor_user_id g = grantor \<and> g_access g = ''read'') (st_grants st) of
       Some g \<Rightarrow> (g_id g, st)
     | None \<Rightarrow> (fresh, st\<lparr>st_grants := st_grants st @
         [\<lparr>g_id = fresh, g_tenant = tenant, g_grantee_user_id = grantee,
           g_grantor_user_id = grantor, g_access = ''read'', g_created_at = now\<rparr>]\<rparr>))"

definition list_grants :: "string \<Rightarrow> string \<Rightarrow> memory_store \<Rightarrow> grant_row list" where
  "list_grants tenant grantee st =
    sort_key g_created_at
      (filter (\<lambda>g. g_tenant g = tenant \<and> g_grantee_user_id g = grantee) (st_grants st))"

definition revoke_grant :: "string \<Rightarrow> uuid \<Rightarrow> memory_store \<Rightarrow> bool \<times> memory_store" where
  "revoke_grant tenant uid st =
    (let hit = (\<lambda>g. g_id g = uid \<and> g_tenant g = tenant)
     in (list_ex hit (st_grants st), st\<lparr>st_grants := tbl_delete hit (st_grants st)\<rparr>))"

definition attachment_insert :: "attachment_meta \<Rightarrow> memory_store \<Rightarrow> error + memory_store" where
  "attachment_insert a st =
    (if a_id a \<in> a_id ` set (st_attachments st) then Inl (State ''attachment insert'')
     else Inr (st\<lparr>st_attachments := st_attachments st @ [a]\<rparr>))"

definition attachment_get :: "string \<Rightarrow> uuid \<Rightarrow> memory_store \<Rightarrow> attachment_meta option" where
  "attachment_get tenant uid st =
    find (\<lambda>a. a_id a = uid \<and> a_tenant_id a = tenant) (st_attachments st)"

definition attachment_list ::
  "string \<Rightarrow> uuid option \<Rightarrow> nat \<Rightarrow> memory_store \<Rightarrow> attachment_meta list" where
  "attachment_list tenant memory_id limit st =
    take limit (order_by_desc a_created_at (filter (\<lambda>a. a_tenant_id a = tenant \<and>
      opt_holds (\<lambda>m. a_memory_id a = Some m) memory_id) (st_attachments st)))"

definition attachment_delete :: "string \<Rightarrow> uuid \<Rightarrow> memory_store \<Rightarrow> string option \<times> memory_store" where
  "attachment_delete tenant uid st =
    (case attachment_get tenant uid st of
       None \<Rightarrow> (None, st)
     | Some a \<Rightarrow> (Some (a_storage_key a),
         st\<lparr>st_attachments :=
           tbl_delete (\<lambda>a. a_id a = uid \<and> a_tenant_id a = tenant) (st_attachments st)\<rparr>))"

subsection \<open>The graph\<close>

definition add_edge :: "string \<Rightarrow> edge \<Rightarrow> memory_store \<Rightarrow> memory_store" where
  "add_edge tenant e st = st\<lparr>st_edges :=
    tbl_insert_ignore edge_row_id \<lparr>er_tenant = tenant, er_edge = e\<rparr> (st_edges st)\<rparr>"

definition select_edges :: "string \<Rightarrow> (edge \<Rightarrow> bool) \<Rightarrow> memory_store \<Rightarrow> edge list" where
  "select_edges tenant P st = filter P (map er_edge (filter (\<lambda>r. er_tenant r = tenant) (st_edges st)))"

definition neighbors :: "string \<Rightarrow> string \<Rightarrow> nat \<Rightarrow> memory_store \<Rightarrow> edge list" where
  "neighbors tenant entity limit st =
    take limit (order_by_desc e_weight (select_edges tenant (\<lambda>e. e_src e = entity \<or> e_dst e = entity) st))"

definition edge_valid_at :: "ts \<Rightarrow> edge \<Rightarrow> bool" where
  "edge_valid_at t e \<longleftrightarrow>
    opt_holds (\<lambda>v. v \<le> t) (e_valid_from e) \<and> opt_holds (\<lambda>v. v > t) (e_valid_to e)"

definition neighbors_as_of :: "string \<Rightarrow> string \<Rightarrow> ts \<Rightarrow> nat \<Rightarrow> memory_store \<Rightarrow> edge list" where
  "neighbors_as_of tenant entity t limit st =
    take limit (order_by_desc e_weight
      (select_edges tenant (\<lambda>e. (e_src e = entity \<or> e_dst e = entity) \<and> edge_valid_at t e) st))"

definition supersede_edges ::
  "string \<Rightarrow> string \<Rightarrow> string \<Rightarrow> ts \<Rightarrow> uuid option \<Rightarrow> memory_store \<Rightarrow> nat \<times> memory_store" where
  "supersede_edges tenant src relation t by_id st =
    (let hit = (\<lambda>r. er_tenant r = tenant \<and> e_src (er_edge r) = src \<and>
                    e_relation (er_edge r) = relation \<and> e_state (er_edge r) = EdgeActive)
     in (length (filter hit (st_edges st)),
         st\<lparr>st_edges := tbl_update hit
           (\<lambda>r. r\<lparr>er_edge := (er_edge r)\<lparr>e_valid_to := Some t, e_state := EdgeSuperseded,
                                          e_invalidated_by := by_id\<rparr>\<rparr>) (st_edges st)\<rparr>))"

definition list_edges :: "string \<Rightarrow> nat \<Rightarrow> memory_store \<Rightarrow> edge list" where
  "list_edges tenant limit st =
    take limit (order_by_desc e_weight (select_edges tenant (\<lambda>e. e_state e = EdgeActive) st))"

definition list_edges_all :: "string \<Rightarrow> nat \<Rightarrow> memory_store \<Rightarrow> edge list" where
  "list_edges_all tenant limit st =
    (let es = select_edges tenant (\<lambda>_. True) st
     in take limit (sort_key (\<lambda>e. the (e_valid_from e)) (filter (\<lambda>e. e_valid_from e \<noteq> None) es)
          @ filter (\<lambda>e. e_valid_from e = None) es))"

text \<open>
  The swap of \<open>restore_from_export\<close>: within one transaction the live rows are replaced by the
  snapshot's. The edge, grant and attachment tables are left as they are.
\<close>

definition restore_from_export :: "memory_row list \<Rightarrow> memory_store \<Rightarrow> memory_store" where
  "restore_from_export snap st = st\<lparr>st_memories := snap\<rparr>"

subsection \<open>The table of memories\<close>

text \<open>The memories a store holds, and their identifiers.\<close>

definition mems :: "memory_store \<Rightarrow> memory set" where
  "mems st = mr_memory ` set (st_memories st)"

definition store_ids :: "memory_store \<Rightarrow> uuid set" where
  "store_ids st = row_id ` set (st_memories st)"

lemma store_ids_mems: "store_ids st = m_id ` mems st"
  by (simp add: store_ids_def mems_def image_image)

lemma mems_cong: "st_memories st = st_memories st' \<Longrightarrow> mems st = mems st'"
  by (simp add: mems_def)

lemma in_ms_select [simp]: "m \<in> set (ms_select P st) \<longleftrightarrow> P m \<and> m \<in> mems st"
  by (auto simp: ms_select_def mems_def)

lemma concat_chunks_of [simp]: "concat (chunks_of n xs) = xs"
  by (induction n xs rule: chunks_of.induct) auto

lemma chunks_of_covers: "(\<Union>c \<in> set (chunks_of n xs). set c) = set xs"
  by (metis concat_chunks_of set_concat)

lemma in_image_restrict: "{f r | r. r \<in> A \<and> f r \<in> B} = B \<inter> f ` A"
  by auto

lemma existing_ids_eq: "existing_ids rows st = row_id ` set rows \<inter> row_id ` set (st_memories st)"
proof -
  have "existing_ids rows st =
      {row_id r | r. r \<in> set (st_memories st) \<and> row_id r \<in> (\<Union>c \<in> set (chunks_of 512 (map row_id rows)). set c)}"
    by (auto simp: existing_ids_def)
  also have "\<dots> = {row_id r | r. r \<in> set (st_memories st) \<and> row_id r \<in> row_id ` set rows}"
    by (simp add: chunks_of_covers)
  finally show ?thesis using in_image_restrict [of row_id] by simp
qed

text \<open>The memory rows are a keyed store under \<open>upsert_raw\<close> and \<open>delete\<close>.\<close>

definition ms_row :: "memory_store \<Rightarrow> uuid \<Rightarrow> memory_row option" where
  "ms_row st uid = tbl_find row_id uid (st_memories st)"

definition ms_put_row :: "memory_row \<Rightarrow> memory_store \<Rightarrow> memory_store" where
  "ms_put_row r st = ms_upsert_raw (mr_memory r) (mr_embedding r) st"

lemma row_eta [simp]: "\<lparr>mr_memory = mr_memory r, mr_embedding = mr_embedding r\<rparr> = (r :: memory_row)"
  by (cases r) simp

lemma ms_row_upsert: "ms_row (ms_upsert_raw m e st) k =
    (if k = m_id m then Some \<lparr>mr_memory = m, mr_embedding = e\<rparr> else ms_row st k)"
  by (simp add: ms_row_def ms_upsert_raw_def)

lemma ms_row_delete: "ms_row (ms_delete u st) k = (if k = u then None else ms_row st k)"
  by (simp add: ms_row_def ms_delete_def)

lemma ms_inv_upsert_raw [simp, intro]: "ms_inv st \<Longrightarrow> ms_inv (ms_upsert_raw m e st)"
  by (auto simp: ms_inv_def ms_upsert_raw_def)

lemma ms_inv_delete [simp, intro]: "ms_inv st \<Longrightarrow> ms_inv (ms_delete u st)"
  by (auto simp: ms_inv_def ms_delete_def)

interpretation msr: keyed_store ms_row row_id ms_put_row ms_delete ms_inv
  by unfold_locales (auto simp: ms_put_row_def ms_row_upsert ms_row_delete)

lemma ms_get_row: "ms_get uid st = map_option mr_memory (ms_row st uid)"
  by (simp add: ms_get_def ms_row_def)

lemma ms_get_upsert [simp]: "ms_get k (ms_upsert_raw m e st) = (if k = m_id m then Some m else ms_get k st)"
  by (simp add: ms_get_row ms_row_upsert)

lemma ms_get_iff: "ms_inv st \<Longrightarrow> ms_get uid st = Some m \<longleftrightarrow> m_id m = uid \<and> m \<in> mems st"
  by (auto simp: ms_get_def ms_inv_def mems_def tbl_find_eq_iff)

lemma ms_get_in: "ms_get uid st = Some m \<Longrightarrow> m_id m = uid \<and> m \<in> mems st"
  by (auto simp: ms_get_def mems_def dest: tbl_find_Some)

lemma ms_inv_inj:
  "ms_inv st \<Longrightarrow> a \<in> mems st \<Longrightarrow> b \<in> mems st \<Longrightarrow>
    m_id a = m_id b \<Longrightarrow> a = b"
  by (metis ms_get_iff option.inject)

lemma memories_upsert_raw:
  "ms_inv st \<Longrightarrow> mems (ms_upsert_raw m e st) =
    insert m {x \<in> mems st. m_id x \<noteq> m_id m}"
  by (auto simp: ms_inv_def mems_def ms_upsert_raw_def set_tbl_put)

lemma upsert_raw_frame [simp]:
  "st_edges (ms_upsert_raw m e st) = st_edges st" "st_grants (ms_upsert_raw m e st) = st_grants st"
  "st_attachments (ms_upsert_raw m e st) = st_attachments st"
  by (simp_all add: ms_upsert_raw_def)

lemma delete_frame [simp]:
  "st_edges (ms_delete u st) = st_edges st" "st_grants (ms_delete u st) = st_grants st"
  "st_attachments (ms_delete u st) = st_attachments st"
  by (simp_all add: ms_delete_def)

subsection \<open>Every statement keeps the primary keys\<close>

lemma ms_inv_insert: "ms_inv st \<Longrightarrow> ms_inv (ms_insert m e st)"
  by (auto simp: ms_inv_def ms_insert_def)

lemma ms_inv_set_memory: "ms_inv st \<Longrightarrow> (\<And>m. m_id (f m) = m_id m) \<Longrightarrow> ms_inv (set_memory P f st)"
  by (auto simp: ms_inv_def set_memory_def intro!: tbl_inv_update)

lemma ms_inv_merge_into: "ms_inv st \<Longrightarrow> ms_inv (ms_merge_into now u c i e st)"
  by (auto simp: ms_inv_def ms_merge_into_def intro!: tbl_inv_update)

lemma ms_inv_delete_by: 
  "ms_inv st \<Longrightarrow> ms_inv (snd (delete_scoped u t st))"
  "ms_inv st \<Longrightarrow> ms_inv (snd (delete_by_tenant t st))"
  "ms_inv st \<Longrightarrow> ms_inv (snd (delete_by_user t w st))"
  by (auto simp: ms_inv_def delete_scoped_def delete_by_tenant_def delete_by_user_def Let_def)

lemma ms_inv_fold_delete: "ms_inv st \<Longrightarrow> ms_inv (fold ms_delete us st)"
  by (induction us arbitrary: st) auto

lemma ms_inv_enforce_scope_cap: "ms_inv st \<Longrightarrow> ms_inv (snd (enforce_scope_cap sc cap st))"
  by (auto simp: enforce_scope_cap_def Let_def ms_inv_fold_delete)

lemma set_memory_none: "ms_select Q st = [] \<Longrightarrow> set_memory Q f st = st"
  unfolding set_memory_def ms_select_def filter_empty_conv by (subst tbl_update_none) auto

lemma decay_eq:
  "decay p now h t st = (let c = decay_cond p now (max h (1/1000)) t in
    (map m_id (ms_select c st),
     set_memory c (\<lambda>m. m\<lparr>m_state := Expired, m_valid_to := Some now, m_updated_at := now\<rparr>) st))"
  by (simp add: decay_def Let_def set_memory_none)

lemma ms_inv_decay: "ms_inv st \<Longrightarrow> ms_inv (snd (decay p now h t st))"
  by (auto simp: decay_def Let_def intro!: ms_inv_set_memory)

lemma ms_inv_expire: "ms_inv st \<Longrightarrow> ms_inv (snd (ms_expire now u st))"
  by (auto simp: ms_expire_def Let_def intro!: ms_inv_set_memory)

lemma ms_inv_add_edge: "ms_inv st \<Longrightarrow> ms_inv (add_edge t e st)"
  by (auto simp: ms_inv_def add_edge_def)

lemma ms_inv_supersede_edges: "ms_inv st \<Longrightarrow> ms_inv (snd (supersede_edges t s r w b st))"
  by (auto simp: ms_inv_def supersede_edges_def Let_def intro!: tbl_inv_update)

lemma ms_inv_add_grant:
  "ms_inv st \<Longrightarrow> fresh \<notin> g_id ` set (st_grants st) \<Longrightarrow> ms_inv (snd (add_grant fresh now t a b st))"
  by (auto simp: ms_inv_def add_grant_def tbl_inv_def split: option.split)

lemma ms_inv_revoke_grant: "ms_inv st \<Longrightarrow> ms_inv (snd (revoke_grant t u st))"
  by (auto simp: ms_inv_def revoke_grant_def Let_def)

lemma ms_inv_attachment:
  "ms_inv st \<Longrightarrow> attachment_insert a st = Inr st' \<Longrightarrow> ms_inv st'"
  "ms_inv st \<Longrightarrow> ms_inv (snd (attachment_delete t u st))"
  by (auto simp: ms_inv_def attachment_insert_def attachment_delete_def tbl_inv_def tbl_delete_def
      distinct_map_filter split: if_splits option.split)

subsection \<open>The bulk write is the row-by-row write\<close>

lemma tbl_put_append_existing:
  "key r \<in> key ` set xs \<Longrightarrow> tbl_put key r (xs @ ys) = tbl_put key r xs @ ys"
  by (induction xs) auto

lemma fold_put_append_existing:
  "key ` set us \<subseteq> key ` set xs \<Longrightarrow> fold (tbl_put key) us (xs @ ys) = fold (tbl_put key) us xs @ ys"
  by (induction us arbitrary: xs) (auto simp: tbl_put_append_existing)

lemma length_fold_put_existing: "key ` set us \<subseteq> key ` set xs \<Longrightarrow>
    key ` set (fold (tbl_put key) us xs) = key ` set xs"
  by (induction us arbitrary: xs) (simp_all add: insert_absorb subset_insertI2)

text \<open>
  Updating the rows that exist and appending the others, in two groups, gives the table that
  replacing row after row gives.
\<close>

lemma fold_put_partition:
  assumes "distinct (map key (filter (\<lambda>r. key r \<notin> K) rs))" and "K = key ` set xs"
  shows "fold (tbl_put key) rs xs =
    fold (tbl_put key) (filter (\<lambda>r. key r \<in> K) rs) xs @ filter (\<lambda>r. key r \<notin> K) rs"
  using assms(1)
proof (induction rs rule: rev_induct)
  case (snoc r rs)
  let ?u = "filter (\<lambda>r. key r \<in> K) rs" and ?i = "filter (\<lambda>r. key r \<notin> K) rs"
  have IH: "fold (tbl_put key) rs xs = fold (tbl_put key) ?u xs @ ?i"
    using snoc by auto
  have keys: "key ` set (fold (tbl_put key) ?u xs) = K"
    using length_fold_put_existing [of key ?u xs] assms(2) by auto
  show ?case
  proof (cases "key r \<in> K")
    case True
    then show ?thesis using IH keys tbl_put_append_existing [of key r] by simp
  next
    case False
    then have "key r \<notin> key ` set (fold (tbl_put key) ?u xs @ ?i)"
      using keys snoc.prems by auto
    then show ?thesis using IH False tbl_put_fresh [of key r "fold (tbl_put key) ?u xs @ ?i"] by simp
  qed
qed simp

lemma fold_put_row:
  "fold ms_put_row rs st = st\<lparr>st_memories := fold (tbl_put row_id) rs (st_memories st)\<rparr>"
  by (induction rs arbitrary: st) (simp_all add: ms_put_row_def ms_upsert_raw_def)

lemma fold_upsert_raw: "fold (\<lambda>r. ms_upsert_raw (mr_memory r) (mr_embedding r)) rs st = fold ms_put_row rs st"
  by (simp add: ms_put_row_def [abs_def])

lemma append_inv_iff:
  assumes "tbl_inv key xs" and "\<forall>r \<in> set ys. key r \<notin> key ` set xs"
  shows "tbl_inv key (xs @ ys) \<longleftrightarrow> distinct (map key ys)"
proof -
  have "key ` set xs \<inter> key ` set ys = {}" using assms(2) unfolding disjoint_iff by blast
  then show ?thesis using assms(1) by (simp add: tbl_inv_def)
qed

lemma upsert_raw_batch_eq:
  assumes "ms_inv st"
  shows "upsert_raw_batch rows st =
    (if distinct (map row_id (filter (\<lambda>r. row_id r \<notin> row_id ` set (st_memories st)) rows))
     then Inr (fold ms_put_row rows st)
     else Inl (Ingest ''memories appender flush''))"
proof -
  let ?K = "row_id ` set (st_memories st)"
  let ?u = "filter (\<lambda>r. row_id r \<in> ?K) rows" and ?i = "filter (\<lambda>r. row_id r \<notin> ?K) rows"
  have parts: "filter (\<lambda>r. row_id r \<in> existing_ids rows st) rows = ?u"
    "filter (\<lambda>r. row_id r \<notin> existing_ids rows st) rows = ?i"
    by (auto simp: existing_ids_eq intro!: filter_cong)
  have inv: "tbl_inv row_id (st_memories st @ ?i) \<longleftrightarrow> distinct (map row_id ?i)"
    by (rule append_inv_iff) (use assms in \<open>auto simp: ms_inv_def\<close>)
  have "fold (tbl_put row_id) ?u (st_memories st @ ?i) = fold (tbl_put row_id) ?u (st_memories st) @ ?i"
    by (rule fold_put_append_existing) auto
  then have both: "distinct (map row_id ?i) \<Longrightarrow>
      fold (tbl_put row_id) ?u (st_memories st @ ?i) = fold (tbl_put row_id) rows (st_memories st)"
    using fold_put_partition [of row_id ?K rows "st_memories st"] by simp
  show ?thesis
    unfolding upsert_raw_batch_def Let_def parts append_new_batch_def inv
    using both by (auto simp: fold_upsert_raw fold_put_row)
qed

end
