(* ===== verification/Lexical_Index.thy ===== *)
theory Lexical_Index
  imports Memory_Model
begin

text \<open>
  The inverted lexical index, \<open>src/crates/ecphoria-core/src/memory/lexical.rs\<close>. The two SQLite
  tables are modelled as they are: \<open>mem_docs\<close> gives every memory a row number, and the full-text
  table \<open>mem_fts\<close> holds the text under that number. Each method is one transaction. The
  full-text engine (\<open>MATCH\<close> and \<open>bm25\<close>) is the parameter \<open>fts5\<close>: it maps a match
  expression and the rows of the table to the row numbers that match, with their scores.
\<close>

record lexical_entry =
  le_id :: uuid
  le_scope_key :: string
  le_project :: "string option"
  le_subject :: "string option"
  le_content :: string

record mem_doc =
  d_rowid :: nat
  d_id :: uuid
  d_scope :: string
  d_project :: "string option"

record fts_row =
  ft_rowid :: nat
  ft_subject :: string
  ft_content :: string

record lexical_index =
  lx_docs :: "mem_doc list"
  lx_fts :: "fts_row list"
  lx_seq :: nat

definition lx_open :: lexical_index where
  "lx_open = \<lparr>lx_docs = [], lx_fts = [], lx_seq = 0\<rparr>"

definition fts_delete_for :: "uuid \<Rightarrow> lexical_index \<Rightarrow> lexical_index" where
  "fts_delete_for uid ix =
    (case tbl_find d_id uid (lx_docs ix) of
       None \<Rightarrow> ix
     | Some d \<Rightarrow> ix\<lparr>lx_fts := tbl_delete (\<lambda>r. ft_rowid r = d_rowid d) (lx_fts ix)\<rparr>)"

definition docs_upsert :: "uuid \<Rightarrow> string \<Rightarrow> string option \<Rightarrow> lexical_index \<Rightarrow> lexical_index" where
  "docs_upsert uid scope_key project ix =
    (case tbl_find d_id uid (lx_docs ix) of
       Some d \<Rightarrow> ix\<lparr>lx_docs := tbl_update (\<lambda>r. d_id r = uid)
                    (\<lambda>r. r\<lparr>d_scope := scope_key, d_project := project\<rparr>) (lx_docs ix)\<rparr>
     | None \<Rightarrow> ix\<lparr>lx_docs := lx_docs ix @
                   [\<lparr>d_rowid = lx_seq ix + 1, d_id = uid, d_scope = scope_key, d_project = project\<rparr>],
                 lx_seq := lx_seq ix + 1\<rparr>)"

definition lx_upsert ::
  "uuid \<Rightarrow> string \<Rightarrow> string option \<Rightarrow> string option \<Rightarrow> string \<Rightarrow> lexical_index \<Rightarrow> lexical_index" where
  "lx_upsert uid scope_key project subject content ix =
    (let ix1 = docs_upsert uid scope_key project (fts_delete_for uid ix)
     in case tbl_find d_id uid (lx_docs ix1) of
          None \<Rightarrow> ix
        | Some d \<Rightarrow> ix1\<lparr>lx_fts := lx_fts ix1 @
            [\<lparr>ft_rowid = d_rowid d, ft_subject = opt_str subject, ft_content = content\<rparr>]\<rparr>)"

definition lx_upsert_batch :: "lexical_entry list \<Rightarrow> lexical_index \<Rightarrow> lexical_index" where
  "lx_upsert_batch rows ix =
    (if rows = [] then ix
     else fold (\<lambda>e. lx_upsert (le_id e) (le_scope_key e) (le_project e) (le_subject e) (le_content e))
       rows ix)"

definition lx_remove :: "uuid \<Rightarrow> lexical_index \<Rightarrow> lexical_index" where
  "lx_remove uid ix =
    (let ix1 = fts_delete_for uid ix
     in ix1\<lparr>lx_docs := tbl_delete (\<lambda>r. d_id r = uid) (lx_docs ix1)\<rparr>)"

definition lx_clear :: "lexical_index \<Rightarrow> lexical_index" where
  "lx_clear ix = ix\<lparr>lx_fts := [], lx_docs := []\<rparr>"

definition lx_len :: "lexical_index \<Rightarrow> nat" where
  "lx_len ix = length (lx_docs ix)"

subsection \<open>Search\<close>

definition is_term_char :: "char \<Rightarrow> bool" where
  "is_term_char c \<longleftrightarrow> is_alnum c \<or> c = CHR ''-'' \<or> c = CHR ''_'' \<or> c = CHR ''.''"

definition match_terms :: "string \<Rightarrow> string list" where
  "match_terms query =
    filter (\<lambda>t. \<not> is_stop_word t)
      (map to_lowercase
        (filter (\<lambda>t. t \<noteq> [])
          (map (trim_matches (\<lambda>c. c = CHR ''.'' \<or> c = CHR ''-'' \<or> c = CHR ''_''))
            (filter (\<lambda>t. t \<noteq> []) (split_on (\<lambda>c. \<not> is_term_char c) query)))))"

definition quote_term :: "string \<Rightarrow> string" where
  "quote_term t =
    [CHR 0x22] @ concat (map (\<lambda>c. if c = CHR 0x22 then [CHR 0x22, CHR 0x22] else [c]) t) @ [CHR 0x22]"

definition build_match_expr :: "string \<Rightarrow> string option" where
  "build_match_expr query =
    (let terms = match_terms query
     in if terms = [] then None else Some (str_join '' OR '' (map quote_term terms)))"

definition lx_search ::
  "(string \<Rightarrow> fts_row list \<Rightarrow> (nat \<times> rat) list) \<Rightarrow> string \<Rightarrow> string option \<Rightarrow> string \<Rightarrow> nat \<Rightarrow>
   lexical_index \<Rightarrow> (uuid \<times> rat) list" where
  "lx_search fts5 scope_key project query limit ix =
    (case build_match_expr query of
       None \<Rightarrow> []
     | Some match_expr \<Rightarrow>
         map (\<lambda>(d, score). (d_id d, - score))
           (take limit (sort_key snd
             (filter (\<lambda>(d, _). d_scope d = scope_key \<and> (project = None \<or> d_project d = project))
               (concat (map (\<lambda>(rowid, score).
                   map (\<lambda>d. (d, score)) (filter (\<lambda>d. d_rowid d = rowid) (lx_docs ix)))
                 (fts5 match_expr (lx_fts ix))))))))"

subsection \<open>The index as a map\<close>

text \<open>
  Well-formedness: identifiers and row numbers are unique, no row number is ahead of the sequence,
  and the two tables hold the same row numbers.
\<close>

definition lx_inv :: "lexical_index \<Rightarrow> bool" where
  "lx_inv ix \<longleftrightarrow> tbl_inv d_id (lx_docs ix) \<and> tbl_inv d_rowid (lx_docs ix) \<and>
    tbl_inv ft_rowid (lx_fts ix) \<and> (\<forall>d \<in> set (lx_docs ix). d_rowid d \<le> lx_seq ix) \<and>
    ft_rowid ` set (lx_fts ix) = d_rowid ` set (lx_docs ix)"

text \<open>What the index holds for one memory: scope key, project, subject and content.\<close>

definition lx_entry ::
  "lexical_index \<Rightarrow> uuid \<Rightarrow> (uuid \<times> string \<times> string option \<times> string \<times> string) option" where
  "lx_entry ix uid =
    (case tbl_find d_id uid (lx_docs ix) of
       None \<Rightarrow> None
     | Some d \<Rightarrow> (case tbl_find ft_rowid (d_rowid d) (lx_fts ix) of
           None \<Rightarrow> None
         | Some r \<Rightarrow> Some (uid, d_scope d, d_project d, ft_subject r, ft_content r)))"

definition lx_ids :: "lexical_index \<Rightarrow> uuid set" where
  "lx_ids ix = d_id ` set (lx_docs ix)"

lemma lx_upsert_new:
  assumes "tbl_find d_id uid (lx_docs ix) = None"
  shows "lx_upsert uid sk pr su co ix =
    \<lparr>lx_docs = lx_docs ix @ [\<lparr>d_rowid = lx_seq ix + 1, d_id = uid, d_scope = sk, d_project = pr\<rparr>],
     lx_fts = lx_fts ix @ [\<lparr>ft_rowid = lx_seq ix + 1, ft_subject = opt_str su, ft_content = co\<rparr>],
     lx_seq = lx_seq ix + 1\<rparr>"
  using assms by (simp add: lx_upsert_def fts_delete_for_def docs_upsert_def tbl_find_append)

lemma lx_upsert_old:
  assumes "tbl_find d_id uid (lx_docs ix) = Some d"
  shows "lx_upsert uid sk pr su co ix =
    \<lparr>lx_docs = tbl_update (\<lambda>r. d_id r = uid) (\<lambda>r. r\<lparr>d_scope := sk, d_project := pr\<rparr>) (lx_docs ix),
     lx_fts = tbl_delete (\<lambda>r. ft_rowid r = d_rowid d) (lx_fts ix) @
       [\<lparr>ft_rowid = d_rowid d, ft_subject = opt_str su, ft_content = co\<rparr>],
     lx_seq = lx_seq ix\<rparr>"
  using assms tbl_find_Some [OF assms]
  by (simp add: lx_upsert_def fts_delete_for_def docs_upsert_def tbl_find_update)

lemma lx_seq_fresh:
  assumes "lx_inv ix"
  shows "Suc (lx_seq ix) \<notin> d_rowid ` set (lx_docs ix)" "Suc (lx_seq ix) \<notin> ft_rowid ` set (lx_fts ix)"
proof -
  show "Suc (lx_seq ix) \<notin> d_rowid ` set (lx_docs ix)" using assms by (fastforce simp: lx_inv_def)
  then show "Suc (lx_seq ix) \<notin> ft_rowid ` set (lx_fts ix)" using assms by (simp add: lx_inv_def)
qed

lemma lx_inv_upsert: assumes "lx_inv ix" shows "lx_inv (lx_upsert uid sk pr su co ix)"
proof (cases "tbl_find d_id uid (lx_docs ix)")
  case None
  then have "uid \<notin> d_id ` set (lx_docs ix)" by (simp add: tbl_find_None_iff)
  then show ?thesis using assms None lx_seq_fresh [OF assms]
    by (auto simp: lx_inv_def lx_upsert_new tbl_inv_def le_Suc_eq)
next
  case (Some d)
  let ?u = "tbl_update (\<lambda>r. d_id r = uid) (\<lambda>r. r\<lparr>d_scope := sk, d_project := pr\<rparr>) (lx_docs ix)"
  have rows: "d_rowid ` set ?u = d_rowid ` set (lx_docs ix)"
    by (rule key_set_update) simp
  have "d_rowid d \<in> d_rowid ` set (lx_docs ix)" using tbl_find_Some [OF Some] by simp
  moreover have "tbl_inv d_id ?u" "tbl_inv d_rowid ?u"
    using assms by (auto simp: lx_inv_def intro!: tbl_inv_update)
  moreover have "\<forall>x \<in> set ?u. d_rowid x \<le> lx_seq ix"
    using assms by (auto simp: lx_inv_def set_tbl_update)
  moreover have "tbl_inv ft_rowid (lx_fts (lx_upsert uid sk pr su co ix))"
    using assms Some
    by (auto simp: lx_inv_def lx_upsert_old tbl_inv_def tbl_delete_def distinct_map_filter)
  moreover have "ft_rowid ` set (lx_fts (lx_upsert uid sk pr su co ix)) =
      insert (d_rowid d) (ft_rowid ` set (lx_fts ix))"
    using Some by (auto simp: lx_upsert_old)
  ultimately show ?thesis using assms Some rows
    by (simp add: lx_inv_def lx_upsert_old insert_absorb)
qed

lemma lx_entry_upsert:
  assumes "lx_inv ix"
  shows "lx_entry (lx_upsert uid sk pr su co ix) k =
    (if k = uid then Some (uid, sk, pr, opt_str su, co) else lx_entry ix k)"
proof (cases "tbl_find d_id uid (lx_docs ix)")
  case None
  have "tbl_find ft_rowid (Suc (lx_seq ix)) (lx_fts ix) = None"
    using lx_seq_fresh [OF assms] by (simp add: tbl_find_None_iff)
  moreover have "d_rowid d \<noteq> Suc (lx_seq ix)" if "tbl_find d_id k (lx_docs ix) = Some d" for d
    using assms tbl_find_Some [OF that] by (fastforce simp: lx_inv_def)
  ultimately show ?thesis using None
    by (auto simp: lx_entry_def lx_upsert_new tbl_find_append split: option.splits)
next
  case (Some d)
  have *: "tbl_find ft_rowid n (tbl_delete (\<lambda>r. ft_rowid r = d_rowid d) (lx_fts ix) @
        [\<lparr>ft_rowid = d_rowid d, ft_subject = opt_str su, ft_content = co\<rparr>]) =
      (if n = d_rowid d then Some \<lparr>ft_rowid = d_rowid d, ft_subject = opt_str su, ft_content = co\<rparr>
       else tbl_find ft_rowid n (lx_fts ix))" for n
    by (auto simp: tbl_find_append split: option.splits)
  have "d_id e \<noteq> uid \<and> d_rowid e \<noteq> d_rowid d"
    if "tbl_find d_id k (lx_docs ix) = Some e" "k \<noteq> uid" for e
    using assms that tbl_find_Some [OF that(1)] tbl_find_Some [OF Some]
    by (metis lx_inv_def tbl_inv_inj)
  then show ?thesis using Some tbl_find_Some [OF Some]
    by (auto simp: lx_entry_def lx_upsert_old tbl_find_update * split: option.splits)
qed

lemma lx_inv_remove: assumes "lx_inv ix" shows "lx_inv (lx_remove uid ix)"
proof (cases "tbl_find d_id uid (lx_docs ix)")
  case None
  then have "tbl_delete (\<lambda>r. d_id r = uid) (lx_docs ix) = lx_docs ix"
    by (auto simp: tbl_find_None_iff tbl_delete_def filter_id_conv)
  then show ?thesis using assms None
    by (simp add: lx_remove_def fts_delete_for_def lx_inv_def)
next
  case (Some d)
  have "d_rowid ` {r \<in> set (lx_docs ix). d_id r \<noteq> uid} = d_rowid ` set (lx_docs ix) - {d_rowid d}"
    using assms tbl_find_Some [OF Some] unfolding lx_inv_def
    by (auto dest: tbl_inv_inj [of d_rowid] tbl_inv_inj [of d_id] intro!: imageI)
  moreover have "ft_rowid ` {r \<in> set (lx_fts ix). ft_rowid r \<noteq> d_rowid d} =
      ft_rowid ` set (lx_fts ix) - {d_rowid d}" by auto
  ultimately show ?thesis using assms Some
    by (auto simp: lx_remove_def fts_delete_for_def lx_inv_def)
qed

lemma lx_entry_remove:
  assumes "lx_inv ix"
  shows "lx_entry (lx_remove uid ix) k = (if k = uid then None else lx_entry ix k)"
proof (cases "tbl_find d_id uid (lx_docs ix)")
  case None
  then have "tbl_delete (\<lambda>r. d_id r = uid) (lx_docs ix) = lx_docs ix"
    by (auto simp: tbl_find_None_iff tbl_delete_def filter_id_conv)
  then show ?thesis using None by (simp add: lx_remove_def fts_delete_for_def lx_entry_def)
next
  case (Some d)
  have "d_rowid e \<noteq> d_rowid d" if "tbl_find d_id k (lx_docs ix) = Some e" "k \<noteq> uid" for e
    using assms that tbl_find_Some [OF that(1)] tbl_find_Some [OF Some]
    by (metis lx_inv_def tbl_inv_inj)
  then show ?thesis using Some
    by (auto simp: lx_remove_def fts_delete_for_def lx_entry_def split: option.splits)
qed

text \<open>The two tables implement a keyed store from identifiers to indexed texts.\<close>

definition lx_put ::
  "uuid \<times> string \<times> string option \<times> string \<times> string \<Rightarrow> lexical_index \<Rightarrow> lexical_index" where
  "lx_put v ix = (case v of (uid, sk, pr, su, co) \<Rightarrow> lx_upsert uid sk pr (Some su) co ix)"

interpretation lx: keyed_store lx_entry fst lx_put lx_remove lx_inv
  by unfold_locales
    (auto simp: lx_put_def lx_entry_upsert lx_entry_remove lx_inv_upsert lx_inv_remove opt_str_def
      split: prod.splits)

lemma lx_ids_upsert [simp]: "lx_ids (lx_upsert uid sk pr su co ix) = insert uid (lx_ids ix)"
proof (cases "tbl_find d_id uid (lx_docs ix)")
  case None then show ?thesis by (simp add: lx_ids_def lx_upsert_new)
next
  case (Some d)
  then show ?thesis using tbl_find_Some [OF Some]
    by (auto simp: lx_ids_def lx_upsert_old key_set_update)
qed

lemma lx_ids_remove [simp]: "lx_ids (lx_remove uid ix) = lx_ids ix - {uid}"
  by (auto simp: lx_ids_def lx_remove_def fts_delete_for_def split: option.split)

lemma lx_inv_open [simp]: "lx_inv lx_open" "lx_ids lx_open = {}"
  by (simp_all add: lx_inv_def lx_open_def lx_ids_def)

lemma lx_upsert_batch_simps [simp]:
  "lx_upsert_batch [] ix = ix"
  "lx_upsert_batch (e # es) ix = lx_upsert_batch es
    (lx_upsert (le_id e) (le_scope_key e) (le_project e) (le_subject e) (le_content e) ix)"
  by (simp_all add: lx_upsert_batch_def)

lemma lx_inv_upsert_batch: "lx_inv ix \<Longrightarrow> lx_inv (lx_upsert_batch es ix)"
  by (induction es arbitrary: ix) (auto simp: lx_inv_upsert)

lemma lx_ids_upsert_batch [simp]: "lx_ids (lx_upsert_batch es ix) = le_id ` set es \<union> lx_ids ix"
  by (induction es arbitrary: ix) auto

subsection \<open>The lexical index as an advisory index\<close>

text \<open>What \<open>memory_apply_rows\<close> writes for an active row.\<close>

definition lx_index_row :: "memory_row \<Rightarrow> lexical_index \<Rightarrow> lexical_index" where
  "lx_index_row r ix = (let m = mr_memory r in
    lx_upsert (m_id m) (scope_partition_key (m_scope m)) (m_project m) (m_subject m) (m_content m) ix)"

interpretation lxa: advisory_index lx_ids lx_index_row lx_remove lx_inv
  by unfold_locales (auto simp: lx_index_row_def Let_def lx_inv_upsert lx_inv_remove)

end
