(* ===== verification/Vector_Index.thy ===== *)
theory Vector_Index
  imports Memory_Model
begin

text \<open>
  The vector indexes, \<open>src/crates/ecphoria-core/src/memory/semantic.rs\<close>: \<open>SemanticStore\<close>,
  \<open>MultiModalStore\<close> and the scope-partitioned \<open>ScopedVectorIndex\<close> of the memory engine. The
  HNSW library is the parameter \<open>knn\<close>: it maps the stored vectors, a query and a count to keys
  with distances; its own failures are not modelled. The concurrent maps are association lists,
  and \<open>iter\<close> is the order a concurrent map is walked in.
\<close>

record entry_metadata =
  em_id :: uuid
  em_content :: string
  em_metadata :: json

record search_result =
  sr_entry :: entry_metadata
  sr_score :: rat

record semantic_store =
  ss_index :: "(nat \<times> embedding) list"
  ss_entries :: "(nat \<times> entry_metadata) list"
  ss_uuid_to_key :: "(uuid \<times> nat) list"
  ss_next_key :: nat
  ss_dimension :: nat

type_synonym knn = "(nat \<times> embedding) list \<Rightarrow> embedding \<Rightarrow> nat \<Rightarrow> (nat \<times> rat) list"

definition ss_with_dimension :: "nat \<Rightarrow> semantic_store" where
  "ss_with_dimension d =
    \<lparr>ss_index = [], ss_entries = [], ss_uuid_to_key = [], ss_next_key = 1, ss_dimension = d\<rparr>"

definition ss_len :: "semantic_store \<Rightarrow> nat" where
  "ss_len ss = length (ss_entries ss)"

definition ss_search_all ::
  "(entry_metadata list \<Rightarrow> entry_metadata list) \<Rightarrow> nat \<Rightarrow> semantic_store \<Rightarrow> entry_metadata list" where
  "ss_search_all iter limit ss = take limit (iter (map snd (ss_entries ss)))"

definition ss_delete :: "uuid \<Rightarrow> semantic_store \<Rightarrow> semantic_store" where
  "ss_delete uid ss =
    (case map_of (ss_uuid_to_key ss) uid of
       None \<Rightarrow> ss
     | Some key \<Rightarrow> ss\<lparr>ss_uuid_to_key := alist_del uid (ss_uuid_to_key ss),
                      ss_index := alist_del key (ss_index ss),
                      ss_entries := alist_del key (ss_entries ss)\<rparr>)"

definition ss_upsert :: "semantic_entry \<Rightarrow> semantic_store \<Rightarrow> error + semantic_store" where
  "ss_upsert entry ss =
    (if length (se_embedding entry) \<noteq> ss_dimension ss
     then Inl (Storage ''embedding dimension mismatch'')
     else let ss1 = (case map_of (ss_uuid_to_key ss) (se_id entry) of
                None \<Rightarrow> ss
              | Some old_key \<Rightarrow> ss\<lparr>ss_uuid_to_key := alist_del (se_id entry) (ss_uuid_to_key ss),
                                  ss_index := alist_del old_key (ss_index ss),
                                  ss_entries := alist_del old_key (ss_entries ss)\<rparr>);
              key = ss_next_key ss1
          in Inr (ss1\<lparr>ss_next_key := key + 1,
                      ss_index := alist_put key (se_embedding entry) (ss_index ss1),
                      ss_entries := alist_put key \<lparr>em_id = se_id entry, em_content = se_content entry,
                        em_metadata = se_metadata entry\<rparr> (ss_entries ss1),
                      ss_uuid_to_key := alist_put (se_id entry) key (ss_uuid_to_key ss1)\<rparr>))"

definition ss_hits :: "semantic_store \<Rightarrow> (nat \<times> rat) list \<Rightarrow> search_result list" where
  "ss_hits ss matches =
    List.map_filter (\<lambda>(key, distance).
      map_option (\<lambda>e. \<lparr>sr_entry = e, sr_score = 1 - distance\<rparr>) (map_of (ss_entries ss) key)) matches"

definition ss_search :: "knn \<Rightarrow> embedding \<Rightarrow> nat \<Rightarrow> semantic_store \<Rightarrow> error + search_result list" where
  "ss_search knn vector k ss =
    (if k = 0 \<or> ss_entries ss = [] then Inr []
     else if length vector \<noteq> ss_dimension ss then Inl (Query ''query dimension mismatch'')
     else Inr (ss_hits ss (knn (ss_index ss) vector k)))"

definition ss_search_filtered ::
  "knn \<Rightarrow> embedding \<Rightarrow> nat \<Rightarrow> (entry_metadata \<Rightarrow> bool) \<Rightarrow> semantic_store \<Rightarrow> error + search_result list" where
  "ss_search_filtered knn vector k flt ss =
    (if k = 0 \<or> ss_entries ss = [] then Inr []
     else if length vector \<noteq> ss_dimension ss then Inl (Query ''query dimension mismatch'')
     else let oversample = min (k * 4) (length (ss_entries ss))
          in Inr (take k (filter (\<lambda>r. flt (sr_entry r))
               (ss_hits ss (knn (ss_index ss) vector oversample)))))"

definition ss_delete_by_tenant :: "string \<Rightarrow> semantic_store \<Rightarrow> nat \<times> semantic_store" where
  "ss_delete_by_tenant tenant ss =
    (let ids = map em_id (filter (\<lambda>e. Option.bind (json_get (em_metadata e) ''tenant_id'') json_as_str
                                      = Some tenant) (map snd (ss_entries ss)))
     in (length ids, fold ss_delete ids ss))"

subsection \<open>One index per modality\<close>

type_synonym multi_modal_store = "(string \<times> semantic_store) list"

definition mm_index_for :: "string \<Rightarrow> nat \<Rightarrow> multi_modal_store \<Rightarrow> semantic_store" where
  "mm_index_for modality d mm =
    (case map_of mm modality of Some s \<Rightarrow> s | None \<Rightarrow> ss_with_dimension d)"

definition mm_upsert ::
  "string \<Rightarrow> semantic_entry \<Rightarrow> multi_modal_store \<Rightarrow> error option \<times> multi_modal_store" where
  "mm_upsert modality entry mm =
    (let idx = mm_index_for modality (length (se_embedding entry)) mm
     in case ss_upsert entry idx of
          Inl e \<Rightarrow> (Some e, alist_put modality idx mm)
        | Inr idx' \<Rightarrow> (None, alist_put modality idx' mm))"

definition mm_search ::
  "knn \<Rightarrow> string \<Rightarrow> embedding \<Rightarrow> nat \<Rightarrow> multi_modal_store \<Rightarrow> error + search_result list" where
  "mm_search knn modality vector k mm =
    (case map_of mm modality of Some idx \<Rightarrow> ss_search knn vector k idx | None \<Rightarrow> Inr [])"

definition mm_search_all :: "knn \<Rightarrow> (multi_modal_store \<Rightarrow> multi_modal_store) \<Rightarrow> embedding \<Rightarrow> nat \<Rightarrow>
    multi_modal_store \<Rightarrow> search_result list" where
  "mm_search_all knn iter vector k mm =
    take k (order_by_desc sr_score (concat (map (\<lambda>(_, s).
      if ss_dimension s = length vector
      then (case ss_search knn vector k s of Inl _ \<Rightarrow> [] | Inr hits \<Rightarrow> hits) else []) (iter mm))))"

subsection \<open>The scope-partitioned index\<close>

record scoped_vector_index =
  sv_dimension :: nat
  sv_partitions :: "(string \<times> semantic_store) list"
  sv_id_partition :: "(uuid \<times> string) list"

definition sv_with_dimension :: "nat \<Rightarrow> scoped_vector_index" where
  "sv_with_dimension d = \<lparr>sv_dimension = d, sv_partitions = [], sv_id_partition = []\<rparr>"

definition sv_partition :: "string \<Rightarrow> scoped_vector_index \<Rightarrow> semantic_store" where
  "sv_partition key sv =
    (case map_of (sv_partitions sv) key of
       Some s \<Rightarrow> s | None \<Rightarrow> ss_with_dimension (sv_dimension sv))"

definition sv_evict :: "uuid \<Rightarrow> string \<Rightarrow> scoped_vector_index \<Rightarrow> scoped_vector_index" where
  "sv_evict uid key sv =
    (case map_of (sv_partitions sv) key of
       None \<Rightarrow> sv
     | Some s \<Rightarrow> sv\<lparr>sv_partitions := alist_put key (ss_delete uid s) (sv_partitions sv)\<rparr>)"

definition sv_upsert ::
  "string \<Rightarrow> semantic_entry \<Rightarrow> scoped_vector_index \<Rightarrow> error option \<times> scoped_vector_index" where
  "sv_upsert key entry sv =
    (let sv1 = (case map_of (sv_id_partition sv) (se_id entry) of
           Some prev \<Rightarrow> if prev \<noteq> key then sv_evict (se_id entry) prev sv else sv
         | None \<Rightarrow> sv);
         s = sv_partition key sv1
     in case ss_upsert entry s of
          Inl e \<Rightarrow> (Some e, sv1\<lparr>sv_partitions := alist_put key s (sv_partitions sv1)\<rparr>)
        | Inr s' \<Rightarrow> (None, sv1\<lparr>sv_partitions := alist_put key s' (sv_partitions sv1),
                              sv_id_partition := alist_put (se_id entry) key (sv_id_partition sv1)\<rparr>))"

definition sv_search ::
  "knn \<Rightarrow> string \<Rightarrow> embedding \<Rightarrow> nat \<Rightarrow> scoped_vector_index \<Rightarrow> error + search_result list" where
  "sv_search knn key vector k sv =
    (case map_of (sv_partitions sv) key of Some s \<Rightarrow> ss_search knn vector k s | None \<Rightarrow> Inr [])"

definition sv_delete :: "uuid \<Rightarrow> scoped_vector_index \<Rightarrow> scoped_vector_index" where
  "sv_delete uid sv =
    (case map_of (sv_id_partition sv) uid of
       None \<Rightarrow> sv
     | Some key \<Rightarrow> sv_evict uid key (sv\<lparr>sv_id_partition := alist_del uid (sv_id_partition sv)\<rparr>))"

definition sv_len :: "scoped_vector_index \<Rightarrow> nat" where
  "sv_len sv = length (sv_id_partition sv)"

subsection \<open>Well-formedness\<close>

text \<open>
  The maps of one store agree: every identifier has one key, every key one entry, and no key is
  ahead of the counter.
\<close>

definition ss_inv :: "semantic_store \<Rightarrow> bool" where
  "ss_inv ss \<longleftrightarrow>
    (\<forall>u k. map_of (ss_uuid_to_key ss) u = Some k \<longleftrightarrow>
       (\<exists>e. map_of (ss_entries ss) k = Some e \<and> em_id e = u)) \<and>
    (\<forall>k. map_of (ss_index ss) k = None \<longleftrightarrow> map_of (ss_entries ss) k = None) \<and>
    (\<forall>k e. map_of (ss_entries ss) k = Some e \<longrightarrow> k < ss_next_key ss)"

definition ss_ids :: "semantic_store \<Rightarrow> uuid set" where
  "ss_ids ss = dom (map_of (ss_uuid_to_key ss))"

text \<open>Every stored identifier sits in the one partition the routing map names.\<close>

definition sv_inv :: "scoped_vector_index \<Rightarrow> bool" where
  "sv_inv sv \<longleftrightarrow>
    (\<forall>key s. map_of (sv_partitions sv) key = Some s \<longrightarrow>
       ss_inv s \<and> (\<forall>u \<in> ss_ids s. map_of (sv_id_partition sv) u = Some key))"

definition sv_ids :: "scoped_vector_index \<Rightarrow> uuid set" where
  "sv_ids sv = dom (map_of (sv_id_partition sv))"

lemma ss_inv_new [simp]: "ss_inv (ss_with_dimension d)" "ss_ids (ss_with_dimension d) = {}"
  by (simp_all add: ss_inv_def ss_with_dimension_def ss_ids_def)

lemma ss_inv_inj:
  "ss_inv ss \<Longrightarrow> map_of (ss_entries ss) k = Some a \<Longrightarrow> map_of (ss_entries ss) l = Some b \<Longrightarrow>
    em_id a = em_id b \<Longrightarrow> k = l"
  unfolding ss_inv_def by (metis option.inject)

lemma ss_inv_delete: assumes "ss_inv ss" shows "ss_inv (ss_delete u ss)"
proof (cases "map_of (ss_uuid_to_key ss) u")
  case (Some key)
  then obtain e where "map_of (ss_entries ss) key = Some e" "em_id e = u"
    using assms unfolding ss_inv_def by blast
  moreover have "ss_delete u ss = ss\<lparr>ss_uuid_to_key := alist_del u (ss_uuid_to_key ss),
      ss_index := alist_del key (ss_index ss), ss_entries := alist_del key (ss_entries ss)\<rparr>"
    using Some by (simp add: ss_delete_def)
  ultimately show ?thesis using assms ss_inv_inj [OF assms] by (auto simp: ss_inv_def)
qed (use assms in \<open>simp add: ss_delete_def\<close>)

lemma ss_ids_delete: "ss_ids (ss_delete u ss) = ss_ids ss - {u}"
  by (auto simp: ss_ids_def ss_delete_def split: option.split if_splits)

lemma ss_upsert_Inr_iff:
  "ss_upsert e ss = Inr ss' \<longleftrightarrow> length (se_embedding e) = ss_dimension ss \<and>
    (let ss1 = ss_delete (se_id e) ss; key = ss_next_key ss1 in
     ss' = ss1\<lparr>ss_next_key := key + 1,
               ss_index := alist_put key (se_embedding e) (ss_index ss1),
               ss_entries := alist_put key \<lparr>em_id = se_id e, em_content = se_content e,
                 em_metadata = se_metadata e\<rparr> (ss_entries ss1),
               ss_uuid_to_key := alist_put (se_id e) key (ss_uuid_to_key ss1)\<rparr>)"
  by (auto simp: ss_upsert_def ss_delete_def Let_def split: option.split)

lemma ss_inv_upsert: assumes "ss_inv ss" and "ss_upsert e ss = Inr ss'" shows "ss_inv ss'"
proof -
  let ?d = "ss_delete (se_id e) ss"
  have d: "ss_inv ?d" "se_id e \<notin> ss_ids ?d" using assms(1) by (auto simp: ss_inv_delete ss_ids_delete)
  then have "map_of (ss_entries ?d) (ss_next_key ?d) = None"
    unfolding ss_inv_def by (metis less_irrefl not_Some_eq)
  moreover have "em_id x \<noteq> se_id e" if "map_of (ss_entries ?d) k = Some x" for k x
    using d that unfolding ss_inv_def ss_ids_def by (metis domIff not_Some_eq)
  moreover have "k < ss_next_key ?d \<and> k < Suc (ss_next_key ?d)" if "map_of (ss_entries ?d) k = Some x" for k x
    using d(1) that unfolding ss_inv_def by (metis less_SucI)
  ultimately show ?thesis using d assms(2)
    unfolding ss_inv_def ss_ids_def ss_upsert_Inr_iff Let_def
    by auto
qed

lemma ss_ids_upsert: "ss_upsert e ss = Inr ss' \<Longrightarrow> ss_ids ss' = insert (se_id e) (ss_ids ss)"
  using ss_ids_delete [of "se_id e" ss] by (auto simp: ss_upsert_Inr_iff Let_def ss_ids_def)

lemma sv_inv_evict:
  assumes "\<forall>k s. map_of (sv_partitions sv) k = Some s \<longrightarrow>
      ss_inv s \<and> (\<forall>u \<in> ss_ids s. if u = uid then k = key else map_of (sv_id_partition sv) u = Some k)"
  shows "sv_inv (sv_evict uid key sv)"
proof (cases "map_of (sv_partitions sv) key")
  case None
  then show ?thesis using assms unfolding sv_inv_def sv_evict_def by (metis option.case(1) option.discI)
next
  case (Some s0)
  then show ?thesis using assms
    by (fastforce simp: sv_inv_def sv_evict_def ss_inv_delete ss_ids_delete split: if_splits)
qed

lemma sv_inv_partition:
  "sv_inv sv \<Longrightarrow> ss_inv (sv_partition key sv) \<and>
    (\<forall>u \<in> ss_ids (sv_partition key sv). map_of (sv_id_partition sv) u = Some key)"
  by (auto simp: sv_inv_def sv_partition_def split: option.split)

lemma sv_inv_evict_old: "sv_inv sv \<Longrightarrow> sv_inv (sv_evict u key sv)"
  by (auto simp: sv_inv_def sv_evict_def ss_inv_delete ss_ids_delete split: option.split if_splits)

lemma sv_evict_id_partition [simp]: "sv_id_partition (sv_evict u key sv) = sv_id_partition sv"
  by (simp add: sv_evict_def split: option.split)

lemma sv_evict_dimension [simp]: "sv_dimension (sv_evict u key sv) = sv_dimension sv"
  by (simp add: sv_evict_def split: option.split)

lemma sv_evicted:
  "map_of (sv_partitions (sv_evict u key sv)) k = Some s \<Longrightarrow> k = key \<Longrightarrow> u \<notin> ss_ids s"
  by (auto simp: sv_evict_def ss_ids_delete split: option.splits if_splits)

text \<open>After the eviction step of an upsert, the identifier is in no partition but its own.\<close>

lemma sv_upsert_evicted:
  assumes "sv_inv sv"
    and "sv1 = (case map_of (sv_id_partition sv) u of
           Some prev \<Rightarrow> if prev \<noteq> key then sv_evict u prev sv else sv | None \<Rightarrow> sv)"
  shows "sv_inv sv1 \<and> sv_id_partition sv1 = sv_id_partition sv \<and>
    (\<forall>k s. map_of (sv_partitions sv1) k = Some s \<longrightarrow> k \<noteq> key \<longrightarrow> u \<notin> ss_ids s)"
proof (cases "map_of (sv_id_partition sv) u")
  case None
  then show ?thesis using assms by (auto simp: sv_inv_def)
next
  case (Some prev)
  show ?thesis
  proof (cases "prev = key")
    case True
    then show ?thesis using assms Some unfolding sv_inv_def by (auto dest!: bspec)
  next
    case False
    have "k \<noteq> prev \<longrightarrow> u \<notin> ss_ids s" if "map_of (sv_partitions sv1) k = Some s" for k s
    proof
      assume "k \<noteq> prev"
      then have "map_of (sv_partitions sv) k = Some s"
        using that assms(2) Some False by (auto simp: sv_evict_def split: option.splits)
      then show "u \<notin> ss_ids s" using assms(1) Some \<open>k \<noteq> prev\<close> unfolding sv_inv_def by auto
    qed
    then show ?thesis using assms Some False sv_evicted [of u prev sv]
      by (auto simp: sv_inv_evict_old)
  qed
qed

lemma sv_inv_upsert: assumes "sv_inv sv" shows "sv_inv (snd (sv_upsert key e sv))"
proof -
  define sv1 where "sv1 = (case map_of (sv_id_partition sv) (se_id e) of
      Some prev \<Rightarrow> if prev \<noteq> key then sv_evict (se_id e) prev sv else sv | None \<Rightarrow> sv)"
  note ev = sv_upsert_evicted [OF assms sv1_def]
  let ?s = "sv_partition key sv1"
  have p: "ss_inv ?s" "\<forall>u \<in> ss_ids ?s. map_of (sv_id_partition sv1) u = Some key"
    using sv_inv_partition ev by blast+
  show ?thesis
  proof (cases "ss_upsert e ?s")
    case (Inl x)
    then have "sv_upsert key e sv =
        (Some x, sv1\<lparr>sv_partitions := alist_put key ?s (sv_partitions sv1)\<rparr>)"
      unfolding sv_upsert_def sv1_def by (simp add: Let_def)
    then show ?thesis using ev p by (auto simp: sv_inv_def)
  next
    case (Inr s')
    then have up: "sv_upsert key e sv =
        (None, sv1\<lparr>sv_partitions := alist_put key s' (sv_partitions sv1),
                   sv_id_partition := alist_put (se_id e) key (sv_id_partition sv1)\<rparr>)"
      unfolding sv_upsert_def sv1_def by (simp add: Let_def)
    show ?thesis using ev p ss_inv_upsert [OF p(1) Inr] ss_ids_upsert [OF Inr]
      unfolding up sv_inv_def by auto
  qed
qed

lemma sv_ids_upsert: "sv_ids (snd (sv_upsert key e sv)) \<subseteq> insert (se_id e) (sv_ids sv)"
  by (auto simp: sv_upsert_def sv_ids_def Let_def split: option.splits sum.splits if_splits)

lemma sv_ids_delete: "sv_ids (sv_delete u sv) = sv_ids sv - {u}"
  by (auto simp: sv_delete_def sv_ids_def split: option.split if_splits)

lemma sv_inv_delete: assumes "sv_inv sv" shows "sv_inv (sv_delete u sv)"
proof (cases "map_of (sv_id_partition sv) u")
  case (Some key)
  let ?sv = "sv\<lparr>sv_id_partition := alist_del u (sv_id_partition sv)\<rparr>"
  have "sv_inv (sv_evict u key ?sv)"
    by (rule sv_inv_evict) (use assms Some in \<open>auto simp: sv_inv_def\<close>)
  then show ?thesis using Some by (simp add: sv_delete_def)
qed (use assms in \<open>simp add: sv_delete_def\<close>)

text \<open>A search in one partition only returns identifiers routed to that partition.\<close>

lemma ss_hits_ids: "ss_inv ss \<Longrightarrow> r \<in> set (ss_hits ss ms) \<Longrightarrow> em_id (sr_entry r) \<in> ss_ids ss"
  by (auto simp: ss_hits_def ss_inv_def ss_ids_def) blast

lemma ss_search_ids:
  "ss_inv ss \<Longrightarrow> ss_search knn v k ss = Inr rs \<Longrightarrow> r \<in> set rs \<Longrightarrow> em_id (sr_entry r) \<in> ss_ids ss"
  by (auto simp: ss_search_def ss_hits_ids split: if_splits)

lemma sv_search_ids:
  assumes "sv_inv sv" and "sv_search knn key v k sv = Inr rs" and "r \<in> set rs"
  shows "map_of (sv_id_partition sv) (em_id (sr_entry r)) = Some key"
  using assms ss_search_ids by (fastforce simp: sv_search_def sv_inv_def split: option.splits)

lemma sv_inv_new [simp]: "sv_inv (sv_with_dimension d)" "sv_ids (sv_with_dimension d) = {}"
  by (simp_all add: sv_inv_def sv_with_dimension_def sv_ids_def)

subsection \<open>The partitioned index as an advisory index\<close>

text \<open>
  What \<open>memory_apply_rows\<close> does for an active row: a row that carries an embedding is upserted and
  a rejected vector is only logged.
\<close>

definition sv_index_row :: "memory_row \<Rightarrow> scoped_vector_index \<Rightarrow> scoped_vector_index" where
  "sv_index_row r sv =
    (case mr_embedding r of
       None \<Rightarrow> sv
     | Some emb \<Rightarrow> snd (sv_upsert (scope_partition_key (m_scope (mr_memory r)))
                     (to_semantic_entry (mr_memory r) emb) sv))"

lemma se_id_entry [simp]: "se_id (to_semantic_entry m emb) = m_id m"
  by (simp add: to_semantic_entry_def)

interpretation sva: advisory_index sv_ids sv_index_row sv_delete sv_inv
proof unfold_locales
  fix x r u
  assume inv: "sv_inv x"
  show "sv_ids (sv_index_row r x) \<subseteq> insert (row_id r) (sv_ids x)"
  proof (cases "mr_embedding r")
    case (Some emb)
    then show ?thesis
      using sv_ids_upsert [of _ "to_semantic_entry (mr_memory r) emb" x]
      by (simp add: sv_index_row_def)
  qed (auto simp: sv_index_row_def)
  show "sv_ids (sv_delete u x) = sv_ids x - {u}" by (rule sv_ids_delete)
  show "sv_inv (sv_index_row r x)"
    using inv by (simp add: sv_index_row_def sv_inv_upsert split: option.split)
  show "sv_inv (sv_delete u x)" using inv by (rule sv_inv_delete)
qed

end
