(* ===== verification/Memory_Engine.thy ===== *)
theory Memory_Engine
  imports Memory_Store Lexical_Index Vector_Index
begin

text \<open>
  The cognition pipeline of the engine, \<open>src/crates/ecphoria-core/src/engine/mod.rs\<close>, with the
  governance rules of \<open>config.rs\<close> and \<open>memory/facts.rs\<close>: planning a write against the current
  beliefs, applying the planned rows to the store and its two derived indexes, the bulk path, the
  propose/accept/reject cycle, contradiction review, feedback, document import and erasure.

  The engine state is the memory store, the two derived indexes and the change feed. What a call
  reads from outside is passed in: \<open>ports\<close> holds the embedding provider, the nearest-neighbour
  library and the name-based uuid function; \<open>tick\<close> holds the fresh identifier and the clock
  readings of one planning step. Writes to the indexes are best effort in the code: their failures
  are logged and dropped, as here.
\<close>

subsection \<open>Configuration and governance\<close>

datatype fact_validation = Off | Warn | Strict

record tenant_governance =
  tg_require_provenance :: "bool option"
  tg_fact_validation :: "fact_validation option"

record governance_config =
  gc_require_provenance :: bool
  gc_fact_validation :: fact_validation
  gc_tenants :: "(string \<times> tenant_governance) list"

record effective_governance =
  eg_require_provenance :: bool
  eg_fact_validation :: fact_validation

definition for_tenant :: "governance_config \<Rightarrow> string \<Rightarrow> effective_governance" where
  "for_tenant gc tenant =
    (let over = map_of (gc_tenants gc) tenant
     in \<lparr>eg_require_provenance =
           (case Option.bind over tg_require_provenance of
              Some b \<Rightarrow> b | None \<Rightarrow> gc_require_provenance gc),
         eg_fact_validation =
           (case Option.bind over tg_fact_validation of
              Some v \<Rightarrow> v | None \<Rightarrow> gc_fact_validation gc)\<rparr>)"

definition is_permissive :: "effective_governance \<Rightarrow> bool" where
  "is_permissive g \<longleftrightarrow> \<not> eg_require_provenance g \<and> eg_fact_validation g = Off"

definition has_provenance :: "json \<Rightarrow> uuid list \<Rightarrow> bool" where
  "has_provenance metadata source_event_ids =
    (if source_event_ids \<noteq> [] then True
     else case Option.bind (Option.bind (json_get metadata ''provenance'')
                 (\<lambda>p. json_get p ''source'')) json_as_str of
            Some s \<Rightarrow> str_trim s \<noteq> []
          | None \<Rightarrow> False)"

record cognition_config =
  cg_default_importance :: float32
  cg_contradiction_review :: bool
  cg_dedup_threshold :: float32
  cg_max_memories_per_scope :: nat
  cg_auto_graph :: bool
  cg_decay_half_life_days :: float32
  cg_forget_threshold :: float32
  cg_max_rows :: nat
  cg_embed_batch_size :: nat
  cg_governance :: governance_config

text \<open>
  \<open>pt_validate\<close> is the list of violations of one fact (\<open>memory::facts::validate\<close>, whose schema
  documents are data files); \<open>pt_rfc3339\<close> and \<open>pt_uuid_str\<close> print instants and identifiers,
  \<open>pt_power\<close> is the database's \<open>power\<close>.
\<close>

record ports =
  pt_embed :: "string \<Rightarrow> embedding option"
  pt_embed_batch :: "string list \<Rightarrow> embedding list option"
  pt_knn :: knn
  pt_new_v5 :: "uuid \<Rightarrow> string \<Rightarrow> uuid"
  pt_validate :: "string option \<Rightarrow> json \<Rightarrow> string list"
  pt_rfc3339 :: "ts \<Rightarrow> string"
  pt_uuid_str :: "uuid \<Rightarrow> string"
  pt_power :: "rat \<Rightarrow> rat \<Rightarrow> rat"

record tick =
  tk_id :: uuid
  tk_new_at :: ts
  tk_recorded_at :: ts

definition check_governance ::
  "ports \<Rightarrow> cognition_config \<Rightarrow> memory_scope \<Rightarrow> string option \<Rightarrow> json \<Rightarrow> uuid list \<Rightarrow> error + unit" where
  "check_governance P cfg scope subject metadata source_event_ids =
    (let rules = for_tenant (cg_governance cfg) (sc_tenant_id scope)
     in if is_permissive rules then Inr ()
        else if eg_require_provenance rules \<and> \<not> has_provenance metadata source_event_ids
          then Inl (Validation ''this tenant requires provenance'')
        else if eg_fact_validation rules = Off then Inr ()
        else let errors = pt_validate P subject metadata
             in if errors = [] then Inr ()
                else if eg_fact_validation rules = Strict
                  then Inl (Validation (str_join ''; '' errors)) else Inr ())"

subsection \<open>The engine state\<close>

record memory_change =
  mc_id :: uuid
  mc_tenant_id :: string
  mc_user_id :: "string option"
  mc_event :: string
  mc_subject :: "string option"

record engine =
  en_store :: memory_store
  en_lex :: lexical_index
  en_vec :: scoped_vector_index
  en_changes :: "memory_change list"

record memory_hit =
  h_memory :: memory
  h_score :: float32
  h_similarity :: "float32 option"
  h_lexical :: "float32 option"

fun change_event :: "memory_state \<Rightarrow> string" where
  "change_event Active = ''upserted''"
| "change_event Superseded = ''superseded''"
| "change_event Expired = ''expired''"
| "change_event Pending = ''proposed''"

definition publish_memory_change :: "memory \<Rightarrow> engine \<Rightarrow> engine" where
  "publish_memory_change m en = en\<lparr>en_changes := en_changes en @
    [\<lparr>mc_id = m_id m, mc_tenant_id = sc_tenant_id (m_scope m), mc_user_id = sc_user_id (m_scope m),
      mc_event = change_event (m_state m), mc_subject = m_subject m\<rparr>]\<rparr>"

text \<open>The indexes are advisory: the code logs and ignores their failures, which do not occur in the model.\<close>

definition forget_indexes :: "uuid \<Rightarrow> engine \<Rightarrow> engine" where
  "forget_indexes uid en =
    en\<lparr>en_vec := sv_delete uid (en_vec en), en_lex := lx_remove uid (en_lex en)\<rparr>"

subsection \<open>Planning a write\<close>

definition valid_boundary :: "ts option \<Rightarrow> ts option \<Rightarrow> ts \<Rightarrow> ts" where
  "valid_boundary requested previous recorded_at =
    (let candidate = (case requested of Some t \<Rightarrow> t | None \<Rightarrow> recorded_at)
     in case previous of
          Some prev \<Rightarrow> if candidate \<le> prev then max recorded_at (prev + 1) else candidate
        | None \<Rightarrow> candidate)"

definition memory_index_search ::
  "ports \<Rightarrow> embedding \<Rightarrow> memory_scope \<Rightarrow> nat \<Rightarrow> engine \<Rightarrow> error + memory_hit list" where
  "memory_index_search P vector scope k en =
    res_bind (sv_search (pt_knn P) (scope_partition_key scope) vector k (en_vec en))
      (\<lambda>results. Inr (List.map_filter (\<lambda>r.
         case ms_get (em_id (sr_entry r)) (en_store en) of
           None \<Rightarrow> None
         | Some m \<Rightarrow> if m_state m = Active
             then Some \<lparr>h_memory = m, h_score = sr_score r, h_similarity = Some (sr_score r),
                        h_lexical = None\<rparr>
             else None) results))"

definition opt_or :: "'a option \<Rightarrow> 'a \<Rightarrow> 'a" where
  "opt_or v d = (case v of Some x \<Rightarrow> x | None \<Rightarrow> d)"

text \<open>The default tenant filled in and the subject canonicalised, as every write path does first.\<close>

definition canonical_input :: "memory_input \<Rightarrow> memory_input" where
  "canonical_input i =
    i\<lparr>i_scope := (if sc_tenant_id (i_scope i) = []
                  then (i_scope i)\<lparr>sc_tenant_id := ''default''\<rparr> else i_scope i),
      i_subject := (case i_subject i of
          None \<Rightarrow> None
        | Some s \<Rightarrow> let n = normalize_subject s in if n = [] then None else Some n)\<rparr>"

definition superseded_row :: "ts \<Rightarrow> ts \<Rightarrow> memory \<Rightarrow> memory_row" where
  "superseded_row boundary recorded_at a =
    \<lparr>mr_memory = a\<lparr>m_state := Superseded, m_valid_to := Some boundary, m_updated_at := recorded_at\<rparr>,
     mr_embedding = None\<rparr>"

definition plan_confirmed ::
  "tick \<Rightarrow> float32 \<Rightarrow> memory \<Rightarrow> embedding option \<Rightarrow> engine \<Rightarrow> memory_add_result \<times> memory_row list" where
  "plan_confirmed tk importance existing emb en =
    (let m = existing\<lparr>m_importance := max importance (m_importance existing),
                      m_version := m_version existing + 1, m_updated_at := tk_recorded_at tk\<rparr>;
         emb' = (case emb of Some e \<Rightarrow> Some e | None \<Rightarrow> get_embedding (m_id existing) (en_store en))
     in (\<lparr>ma_memory = m, ma_outcome = Confirmed\<rparr>, [\<lparr>mr_memory = m, mr_embedding = emb'\<rparr>]))"

definition plan_conflict ::
  "tick \<Rightarrow> memory_input \<Rightarrow> string \<Rightarrow> float32 \<Rightarrow> embedding option \<Rightarrow> memory_add_result \<times> memory_row list" where
  "plan_conflict tk input subject importance emb =
    (let m0 = memory_new (tk_id tk) (tk_new_at tk) (i_scope input) (i_content input);
         m = m0\<lparr>m_subject := Some subject, m_importance := importance,
                m_source_event_ids := i_source_event_ids input, m_metadata := i_metadata input,
                m_mem_type := opt_or (i_mem_type input) (m_mem_type m0)\<rparr>
     in (\<lparr>ma_memory = m, ma_outcome = Conflict\<rparr>, [\<lparr>mr_memory = m, mr_embedding = emb\<rparr>]))"

definition plan_superseded ::
  "tick \<Rightarrow> memory_input \<Rightarrow> string \<Rightarrow> float32 \<Rightarrow> memory list \<Rightarrow> embedding option \<Rightarrow>
   memory_add_result \<times> memory_row list" where
  "plan_superseded tk input subject importance actives emb =
    (let valid_at = valid_boundary (i_valid_from input) (Some (Max (set (map m_valid_from actives))))
           (tk_recorded_at tk);
         olds = map (superseded_row valid_at (tk_recorded_at tk)) actives;
         m0 = memory_new (tk_id tk) (tk_new_at tk) (i_scope input) (i_content input);
         m = m0\<lparr>m_subject := Some subject, m_project := i_project input, m_importance := importance,
                m_supersedes := Some (m_id (hd actives)), m_valid_from := valid_at,
                m_source_event_ids := i_source_event_ids input, m_metadata := i_metadata input,
                m_mem_type := opt_or (i_mem_type input) (m_mem_type m0)\<rparr>
     in (\<lparr>ma_memory = m, ma_outcome = Outcome_Superseded\<rparr>, olds @ [\<lparr>mr_memory = m, mr_embedding = emb\<rparr>]))"

definition plan_merged ::
  "tick \<Rightarrow> memory_input \<Rightarrow> float32 \<Rightarrow> memory \<Rightarrow> embedding option \<Rightarrow> memory_add_result \<times> memory_row list" where
  "plan_merged tk input importance prior emb =
    (let valid_at = valid_boundary (i_valid_from input) (Some (m_valid_from prior)) (tk_recorded_at tk);
         m0 = memory_new (tk_id tk) (tk_new_at tk) (i_scope input) (i_content input);
         src = fold (\<lambda>i acc. if i \<in> set acc then acc else acc @ [i]) (i_source_event_ids input)
                 (m_source_event_ids prior);
         m = m0\<lparr>m_subject := m_subject prior,
                m_project := (case i_project input of Some p \<Rightarrow> Some p | None \<Rightarrow> m_project prior),
                m_importance := max importance (m_importance prior), m_supersedes := Some (m_id prior),
                m_valid_from := valid_at, m_source_event_ids := src, m_metadata := i_metadata input,
                m_mem_type := opt_or (i_mem_type input) (m_mem_type m0)\<rparr>
     in (\<lparr>ma_memory = m, ma_outcome = Merged\<rparr>,
         [superseded_row valid_at (tk_recorded_at tk) prior, \<lparr>mr_memory = m, mr_embedding = emb\<rparr>]))"

definition plan_inserted ::
  "tick \<Rightarrow> memory_input \<Rightarrow> float32 \<Rightarrow> embedding option \<Rightarrow> memory_add_result \<times> memory_row list" where
  "plan_inserted tk input importance emb =
    (let m0 = memory_new (tk_id tk) (tk_new_at tk) (i_scope input) (i_content input);
         m = m0\<lparr>m_subject := i_subject input, m_project := i_project input,
                m_importance := importance, m_valid_from := opt_or (i_valid_from input) (m_valid_from m0),
                m_source_event_ids := i_source_event_ids input, m_metadata := i_metadata input,
                m_mem_type := opt_or (i_mem_type input) (m_mem_type m0)\<rparr>
     in (\<lparr>ma_memory = m, ma_outcome = Inserted\<rparr>, [\<lparr>mr_memory = m, mr_embedding = emb\<rparr>]))"

definition memory_plan_with_embedding ::
  "ports \<Rightarrow> cognition_config \<Rightarrow> tick \<Rightarrow> memory_input \<Rightarrow> embedding option \<Rightarrow> engine \<Rightarrow>
   error + memory_add_result \<times> memory_row list" where
  "memory_plan_with_embedding P cfg tk input0 emb en =
    (let input = canonical_input input0
     in res_bind (check_governance P cfg (i_scope input) (i_subject input) (i_metadata input)
          (i_source_event_ids input))
     (\<lambda>_. let importance = opt_or (i_importance input) (cg_default_importance cfg)
      in case i_subject input of
           Some subject \<Rightarrow>
             (case find_active_by_subject (i_scope input) subject (i_project input) (en_store en) of
                [] \<Rightarrow> Inr (plan_inserted tk input importance emb)
              | existing # rest \<Rightarrow>
                  if str_trim (m_content existing) = str_trim (i_content input)
                  then Inr (plan_confirmed tk importance existing emb en)
                  else if cg_contradiction_review cfg
                  then Inr (plan_conflict tk input subject importance emb)
                  else Inr (plan_superseded tk input subject importance (existing # rest) emb))
         | None \<Rightarrow>
             (case emb of
                None \<Rightarrow> Inr (plan_inserted tk input importance emb)
              | Some e \<Rightarrow>
                  res_bind (memory_index_search P e (i_scope input) 1 en)
                    (\<lambda>hits. case hits of
                       [] \<Rightarrow> Inr (plan_inserted tk input importance emb)
                     | prior # _ \<Rightarrow>
                         if h_score prior \<ge> cg_dedup_threshold cfg
                         then Inr (plan_merged tk input importance (h_memory prior) emb)
                         else Inr (plan_inserted tk input importance emb)))))"

definition memory_plan ::
  "ports \<Rightarrow> cognition_config \<Rightarrow> tick \<Rightarrow> memory_input \<Rightarrow> engine \<Rightarrow>
   error + memory_add_result \<times> memory_row list" where
  "memory_plan P cfg tk input en =
    memory_plan_with_embedding P cfg tk input (pt_embed P (i_content input)) en"

subsection \<open>Applying rows\<close>

definition edge_of_triple :: "ports \<Rightarrow> memory \<Rightarrow> string \<times> string \<times> string \<Rightarrow> edge" where
  "edge_of_triple P mem t = (case t of (s, r, d) \<Rightarrow>
    \<lparr>e_id = pt_new_v5 P (m_id mem) (s @ ''|'' @ r @ ''|'' @ d), e_src = s, e_relation = r, e_dst = d,
     e_weight = 1, e_source_memory_id = Some (m_id mem), e_valid_from = Some (m_valid_from mem),
     e_valid_to = None, e_state = EdgeActive, e_invalidated_by = None\<rparr>)"

definition apply_auto_graph :: "ports \<Rightarrow> cognition_config \<Rightarrow> memory \<Rightarrow> memory_store \<Rightarrow> memory_store" where
  "apply_auto_graph P cfg mem st =
    (if cg_auto_graph cfg \<and> m_state mem = Active
     then let tenant = (if sc_tenant_id (m_scope mem) = [] then ''default''
                        else sc_tenant_id (m_scope mem))
          in fold (\<lambda>t. add_edge tenant (edge_of_triple P mem t)) (extract_triples (m_content mem)) st
     else st)"

definition apply_row :: "ports \<Rightarrow> cognition_config \<Rightarrow> memory_row \<Rightarrow> engine \<Rightarrow> engine" where
  "apply_row P cfg row en =
    (let m = mr_memory row;
         scope_key = scope_partition_key (m_scope m);
         en1 = en\<lparr>en_store := ms_upsert_raw m (mr_embedding row) (en_store en)\<rparr>;
         en2 = (case m_state m of
             Active \<Rightarrow>
               (let en' = (case mr_embedding row of
                       Some emb \<Rightarrow> en1\<lparr>en_vec :=
                         snd (sv_upsert scope_key (to_semantic_entry m emb) (en_vec en1))\<rparr>
                     | None \<Rightarrow> en1)
                in en'\<lparr>en_lex := lx_upsert (m_id m) scope_key (m_project m) (m_subject m)
                     (m_content m) (en_lex en')\<rparr>)
           | _ \<Rightarrow> forget_indexes (m_id m) en1);
         en3 = publish_memory_change m en2
     in en3\<lparr>en_store := apply_auto_graph P cfg m (en_store en3)\<rparr>)"

definition memory_apply_rows :: "ports \<Rightarrow> cognition_config \<Rightarrow> memory_row list \<Rightarrow> engine \<Rightarrow> nat \<times> engine" where
  "memory_apply_rows P cfg rows en = (length rows, fold (apply_row P cfg) rows en)"

definition enforce_cap :: "memory_scope \<Rightarrow> nat \<Rightarrow> engine \<Rightarrow> engine" where
  "enforce_cap scope cap en =
    (if cap > 0
     then case enforce_scope_cap scope cap (en_store en) of
            (evicted, st) \<Rightarrow> fold forget_indexes evicted (en\<lparr>en_store := st\<rparr>)
     else en)"

definition memory_add ::
  "ports \<Rightarrow> cognition_config \<Rightarrow> tick \<Rightarrow> memory_input \<Rightarrow> engine \<Rightarrow> error + memory_add_result \<times> engine" where
  "memory_add P cfg tk input en =
    res_bind (memory_plan P cfg tk input en)
      (\<lambda>(result, rows).
        let en1 = snd (memory_apply_rows P cfg rows en)
        in Inr (result, enforce_cap (m_scope (ma_memory result)) (cg_max_memories_per_scope cfg) en1))"

subsection \<open>The bulk path\<close>

definition batch_index_row :: "memory_row \<Rightarrow> engine \<Rightarrow> engine" where
  "batch_index_row row en =
    (let m = mr_memory row;
         en1 = (case m_state m of
             Active \<Rightarrow> (case mr_embedding row of
                 Some emb \<Rightarrow> en\<lparr>en_vec := snd (sv_upsert (scope_partition_key (m_scope m))
                               (to_semantic_entry m emb) (en_vec en))\<rparr>
               | None \<Rightarrow> en)
           | _ \<Rightarrow> forget_indexes (m_id m) en)
     in publish_memory_change m en1)"

definition lexical_entry_of :: "memory \<Rightarrow> lexical_entry" where
  "lexical_entry_of m = \<lparr>le_id = m_id m, le_scope_key = scope_partition_key (m_scope m),
    le_project = m_project m, le_subject = m_subject m, le_content = m_content m\<rparr>"

definition memory_apply_rows_batch :: "memory_row list \<Rightarrow> engine \<Rightarrow> error + nat \<times> engine" where
  "memory_apply_rows_batch rows en =
    (if rows = [] then Inr (0, en)
     else res_bind (upsert_raw_batch rows (en_store en))
       (\<lambda>st. let en1 = fold batch_index_row rows (en\<lparr>en_store := st\<rparr>);
                 lexical_upserts = map (\<lambda>r. lexical_entry_of (mr_memory r))
                   (filter (\<lambda>r. m_state (mr_memory r) = Active) rows)
             in Inr (length rows, en1\<lparr>en_lex := lx_upsert_batch lexical_upserts (en_lex en1)\<rparr>)))"

definition batch_embeddings :: "ports \<Rightarrow> cognition_config \<Rightarrow> memory_input list \<Rightarrow> embedding option list" where
  "batch_embeddings P cfg inputs =
    concat (map (\<lambda>chunk. case pt_embed_batch P (map i_content chunk) of
        Some vs \<Rightarrow> if length vs = length chunk then map Some vs else replicate (length chunk) None
      | None \<Rightarrow> replicate (length chunk) None)
    (chunks_of (max (cg_embed_batch_size cfg) 1) inputs))"

definition batch_key :: "memory_input \<Rightarrow> (string \<times> string) option" where
  "batch_key input = map_option (\<lambda>s.
     let scope = (if sc_tenant_id (i_scope input) = []
                  then (i_scope input)\<lparr>sc_tenant_id := ''default''\<rparr> else i_scope input)
     in (scope_partition_key scope, normalize_subject s)) (i_subject input)"

record batch_state =
  b_adds :: "memory_add_result list"
  b_pending :: "memory_row list"
  b_subjects :: "(string \<times> string) set"
  b_engine :: engine

definition batch_flush :: "(string \<times> string) option \<Rightarrow> batch_state \<Rightarrow> error + batch_state" where
  "batch_flush key b =
    (case key of
       Some k \<Rightarrow> if k \<in> b_subjects b
         then res_bind (memory_apply_rows_batch (b_pending b) (b_engine b))
           (\<lambda>(_, en). Inr (b\<lparr>b_pending := [], b_subjects := {}, b_engine := en\<rparr>))
         else Inr b
     | None \<Rightarrow> Inr b)"

definition batch_step ::
  "ports \<Rightarrow> cognition_config \<Rightarrow> tick \<times> memory_input \<times> embedding option \<Rightarrow> batch_state \<Rightarrow>
   error + batch_state" where
  "batch_step P cfg item b = (case item of (tk, input, emb) \<Rightarrow>
    let key = batch_key input
    in res_bind (batch_flush key b)
     (\<lambda>b1. res_bind (memory_plan_with_embedding P cfg tk input emb (b_engine b1))
      (\<lambda>(add, planned).
        Inr (b1\<lparr>b_subjects := (case key of Some k \<Rightarrow> insert k (b_subjects b1) | None \<Rightarrow> b_subjects b1),
                b_adds := b_adds b1 @ [add], b_pending := b_pending b1 @ planned\<rparr>))))"

fun batch_loop ::
  "ports \<Rightarrow> cognition_config \<Rightarrow> (tick \<times> memory_input \<times> embedding option) list \<Rightarrow> batch_state \<Rightarrow>
   error + batch_state" where
  "batch_loop P cfg [] b = Inr b"
| "batch_loop P cfg (x # xs) b = res_bind (batch_step P cfg x b) (batch_loop P cfg xs)"

definition memory_add_batch ::
  "ports \<Rightarrow> cognition_config \<Rightarrow> tick list \<Rightarrow> memory_input list \<Rightarrow> engine \<Rightarrow>
   error + memory_add_result list \<times> engine" where
  "memory_add_batch P cfg tks inputs en =
    (if inputs = [] then Inr ([], en)
     else res_bind (batch_loop P cfg (zip tks (zip inputs (batch_embeddings P cfg inputs)))
            \<lparr>b_adds = [], b_pending = [], b_subjects = {}, b_engine = en\<rparr>)
       (\<lambda>b. res_bind (memory_apply_rows_batch (b_pending b) (b_engine b))
         (\<lambda>(_, en'). Inr (b_adds b, en'))))"

subsection \<open>Reading back\<close>

definition memory_all :: "cognition_config \<Rightarrow> memory_scope \<Rightarrow> nat \<Rightarrow> engine \<Rightarrow> memory list" where
  "memory_all cfg scope limit en = list_active scope (min limit (cg_max_rows cfg)) (en_store en)"

definition memory_history :: "memory_scope \<Rightarrow> string \<Rightarrow> engine \<Rightarrow> memory list" where
  "memory_history scope subject en = history scope (normalize_subject subject) (en_store en)"

definition memory_as_of :: "memory_scope \<Rightarrow> string \<Rightarrow> ts \<Rightarrow> engine \<Rightarrow> memory option" where
  "memory_as_of scope subject t en = as_of scope (normalize_subject subject) t (en_store en)"

definition memory_pending :: "cognition_config \<Rightarrow> memory_scope \<Rightarrow> nat \<Rightarrow> engine \<Rightarrow> memory list" where
  "memory_pending cfg scope limit en = list_pending scope (min limit (cg_max_rows cfg)) (en_store en)"

definition get_for :: "uuid \<Rightarrow> string option \<Rightarrow> engine \<Rightarrow> memory option" where
  "get_for uid tenant en =
    (case tenant of Some t \<Rightarrow> ms_get_scoped uid t (en_store en) | None \<Rightarrow> ms_get uid (en_store en))"

subsection \<open>Contradiction review\<close>

definition subjects_of :: "memory list \<Rightarrow> string list" where
  "subjects_of ms = remdups (List.map_filter m_subject ms)"

definition memory_contradictions ::
  "cognition_config \<Rightarrow> memory_scope \<Rightarrow> engine \<Rightarrow> (string \<times> memory list) list" where
  "memory_contradictions cfg scope en =
    (let actives = list_active scope (cg_max_rows cfg) (en_store en)
     in sort_key fst (filter (\<lambda>(_, ms). length ms > 1)
          (map (\<lambda>s. (s, filter (\<lambda>m. m_subject m = Some s) actives)) (subjects_of actives))))"

definition loser_row :: "uuid \<Rightarrow> ts \<Rightarrow> memory \<Rightarrow> memory_row" where
  "loser_row keep_id now m =
    \<lparr>mr_memory = m\<lparr>m_state := Superseded, m_valid_to := Some now, m_updated_at := now,
                   m_supersedes := Some keep_id\<rparr>,
     mr_embedding = None\<rparr>"

definition memory_resolve_plan ::
  "ts \<Rightarrow> memory_scope \<Rightarrow> string \<Rightarrow> uuid \<Rightarrow> engine \<Rightarrow> error + memory_row list" where
  "memory_resolve_plan now scope subject0 keep_id en =
    (let subject = normalize_subject subject0;
         project = Option.bind (ms_get keep_id (en_store en)) m_project;
         actives = find_active_by_subject scope subject project (en_store en)
     in if \<not> list_ex (\<lambda>m. m_id m = keep_id) actives
        then Inl (State ''keep_id is not an active memory for this subject in this scope'')
        else Inr (map (loser_row keep_id now) (filter (\<lambda>m. m_id m \<noteq> keep_id) actives)))"

subsection \<open>Deleting and forgetting\<close>

definition memory_delete :: "uuid \<Rightarrow> engine \<Rightarrow> engine" where
  "memory_delete uid en =
    (let en1 = forget_indexes uid en in en1\<lparr>en_store := ms_delete uid (en_store en1)\<rparr>)"

definition memory_delete_scoped :: "uuid \<Rightarrow> string \<Rightarrow> engine \<Rightarrow> bool \<times> engine" where
  "memory_delete_scoped uid tenant en =
    (case delete_scoped uid tenant (en_store en) of
       (deleted, st) \<Rightarrow> (let en1 = en\<lparr>en_store := st\<rparr>
                        in (deleted, if deleted then forget_indexes uid en1 else en1)))"

definition expire_one :: "ts \<Rightarrow> uuid \<Rightarrow> engine \<Rightarrow> engine" where
  "expire_one now uid en =
    (let meta = ms_get uid (en_store en);
         en1 = forget_indexes uid (en\<lparr>en_store := snd (ms_expire now uid (en_store en))\<rparr>)
     in case meta of
          None \<Rightarrow> en1
        | Some m \<Rightarrow> en1\<lparr>en_changes := en_changes en1 @
            [\<lparr>mc_id = uid, mc_tenant_id = sc_tenant_id (m_scope m), mc_user_id = sc_user_id (m_scope m),
              mc_event = ''expired'', mc_subject = m_subject m\<rparr>]\<rparr>)"

text \<open>Every identifier is expired at its own reading of the clock.\<close>

definition memory_expire :: "(ts \<times> uuid) list \<Rightarrow> engine \<Rightarrow> engine" where
  "memory_expire ids en = fold (\<lambda>(now, uid). expire_one now uid) ids en"

definition memory_enforce_decay :: "ports \<Rightarrow> cognition_config \<Rightarrow> ts \<Rightarrow> engine \<Rightarrow> nat \<times> engine" where
  "memory_enforce_decay P cfg now en =
    (case decay (pt_power P) now (cg_decay_half_life_days cfg) (cg_forget_threshold cfg) (en_store en) of
       (forgotten, st) \<Rightarrow> (length forgotten, fold forget_indexes forgotten (en\<lparr>en_store := st\<rparr>)))"

definition memory_decay_plan :: "ports \<Rightarrow> cognition_config \<Rightarrow> ts \<Rightarrow> engine \<Rightarrow> uuid list" where
  "memory_decay_plan P cfg now en =
    decay_candidates (pt_power P) now (cg_decay_half_life_days cfg) (cg_forget_threshold cfg) (en_store en)"

definition delete_user :: "string \<Rightarrow> string \<Rightarrow> engine \<Rightarrow> nat \<times> engine" where
  "delete_user tenant user_id en =
    (case delete_by_user tenant user_id (en_store en) of
       (ids, st) \<Rightarrow> (length ids, fold forget_indexes ids (en\<lparr>en_store := st\<rparr>)))"

definition delete_tenant_memories :: "string \<Rightarrow> engine \<Rightarrow> nat \<times> engine" where
  "delete_tenant_memories tenant en =
    (case delete_by_tenant tenant (en_store en) of
       (ids, st) \<Rightarrow> (length ids, fold forget_indexes ids (en\<lparr>en_store := st\<rparr>)))"

subsection \<open>Feedback and correction\<close>

datatype memory_feedback = Helpful | Wrong | Obsolete

datatype feedback_action = Reinforce "memory_row list" | Retire "uuid list"

definition feedback_from_str_loose :: "string \<Rightarrow> memory_feedback option" where
  "feedback_from_str_loose s =
    (let l = to_lowercase s
     in if l \<in> set [''helpful'', ''useful'', ''up''] then Some Helpful
        else if l \<in> set [''wrong'', ''incorrect'', ''down''] then Some Wrong
        else if l \<in> set [''obsolete'', ''stale'', ''outdated''] then Some Obsolete
        else None)"

definition memory_feedback_plan ::
  "ts \<Rightarrow> uuid \<Rightarrow> string option \<Rightarrow> memory_feedback \<Rightarrow> engine \<Rightarrow> (memory \<times> feedback_action) option" where
  "memory_feedback_plan now uid tenant verdict en =
    (case get_for uid tenant en of
       None \<Rightarrow> None
     | Some m \<Rightarrow>
         (case verdict of
            Helpful \<Rightarrow>
              (let m' = m\<lparr>m_importance := min (m_importance m + 1/10) 1,
                          m_version := m_version m + 1, m_updated_at := now\<rparr>
               in Some (m', Reinforce [\<lparr>mr_memory = m',
                    mr_embedding = get_embedding (m_id m') (en_store en)\<rparr>]))
          | _ \<Rightarrow> Some (m, Retire [m_id m])))"

definition memory_feedback_apply ::
  "ports \<Rightarrow> cognition_config \<Rightarrow> ts \<Rightarrow> feedback_action \<Rightarrow> engine \<Rightarrow> engine" where
  "memory_feedback_apply P cfg now action en =
    (case action of
       Reinforce rows \<Rightarrow> snd (memory_apply_rows P cfg rows en)
     | Retire ids \<Rightarrow> memory_expire (map (Pair now) ids) en)"

text \<open>
  \<open>reembed\<close> is the outcome of re-embedding the new content: \<open>None\<close> when no provider is
  configured, \<open>Some None\<close> when the provider failed.
\<close>

definition memory_update_plan ::
  "embedding option option \<Rightarrow> ts \<Rightarrow> uuid \<Rightarrow> memory_patch \<Rightarrow> string option \<Rightarrow> engine \<Rightarrow>
   (memory \<times> memory_row list) option" where
  "memory_update_plan reembed now uid patch tenant en =
    (case get_for uid tenant en of
       None \<Rightarrow> None
     | Some m0 \<Rightarrow>
         if m_state m0 \<noteq> Active then None
         else let content_changed = (case p_content patch of
                    None \<Rightarrow> False | Some c \<Rightarrow> str_trim c \<noteq> str_trim (m_content m0));
                  m = m0\<lparr>m_content := opt_or (p_content patch) (m_content m0),
                         m_importance := (case p_importance patch of
                            None \<Rightarrow> m_importance m0 | Some i \<Rightarrow> max 0 (min i 1)),
                         m_mem_type := opt_or (p_mem_type patch) (m_mem_type m0),
                         m_metadata := opt_or (p_metadata patch) (m_metadata m0),
                         m_version := m_version m0 + 1, m_updated_at := now\<rparr>;
                  emb = (if content_changed
                         then (case reembed of
                                 None \<Rightarrow> None
                               | Some (Some v) \<Rightarrow> Some v
                               | Some None \<Rightarrow> get_embedding uid (en_store en))
                         else get_embedding uid (en_store en))
              in Some (m, [\<lparr>mr_memory = m, mr_embedding = emb\<rparr>]))"

definition memory_update ::
  "ports \<Rightarrow> cognition_config \<Rightarrow> embedding option option \<Rightarrow> ts \<Rightarrow> uuid \<Rightarrow> memory_patch \<Rightarrow>
   string option \<Rightarrow> engine \<Rightarrow> memory option \<times> engine" where
  "memory_update P cfg reembed now uid patch tenant en =
    (case memory_update_plan reembed now uid patch tenant en of
       None \<Rightarrow> (None, en)
     | Some (m, rows) \<Rightarrow> (Some m, snd (memory_apply_rows P cfg rows en)))"

subsection \<open>Governed writes: propose, accept, reject\<close>

definition proposal_of :: "tick \<Rightarrow> memory_input \<Rightarrow> memory" where
  "proposal_of tk input =
    (let now = tk_recorded_at tk in
     \<lparr>m_id = tk_id tk, m_scope = i_scope input, m_subject = i_subject input,
      m_content = i_content input, m_importance = max 0 (min (opt_or (i_importance input) (1/2)) 1),
      m_valid_from = opt_or (i_valid_from input) now, m_valid_to = None, m_state = Pending,
      m_supersedes = None, m_source_event_ids = i_source_event_ids input, m_version = 1,
      m_created_at = now, m_updated_at = now, m_metadata = i_metadata input,
      m_mem_type = opt_or (i_mem_type input) ''semantic'', m_project = i_project input\<rparr>)"

definition memory_propose ::
  "ports \<Rightarrow> cognition_config \<Rightarrow> tick \<Rightarrow> memory_input \<Rightarrow> engine \<Rightarrow> error + memory \<times> engine" where
  "memory_propose P cfg tk input0 en =
    (let input = canonical_input input0
     in res_bind (check_governance P cfg (i_scope input) (i_subject input) (i_metadata input)
          (i_source_event_ids input))
       (\<lambda>_. let m = proposal_of tk input
            in Inr (m, publish_memory_change m (en\<lparr>en_store := ms_upsert_raw m None (en_store en)\<rparr>))))"

definition pending_of :: "uuid \<Rightarrow> string \<Rightarrow> engine \<Rightarrow> memory option" where
  "pending_of uid tenant en =
    (case ms_get_scoped uid tenant (en_store en) of
       Some m \<Rightarrow> if m_state m = Pending then Some m else None
     | None \<Rightarrow> None)"

definition retired_proposal :: "ports \<Rightarrow> ts \<Rightarrow> memory \<Rightarrow> string \<Rightarrow> uuid option \<Rightarrow> memory" where
  "retired_proposal P now proposal decision accepted_as =
    (let md1 = json_insert ''review_decision'' (JStr decision) (m_metadata proposal);
         md2 = json_insert ''review_decided_at'' (JStr (pt_rfc3339 P now)) md1;
         md3 = (case accepted_as of
             Some a \<Rightarrow> json_insert ''review_accepted_as'' (JStr (pt_uuid_str P a)) md2
           | None \<Rightarrow> md2)
     in proposal\<lparr>m_state := Expired, m_valid_to := Some now, m_updated_at := now,
                 m_version := m_version proposal + 1, m_metadata := md3\<rparr>)"

definition retire_proposal ::
  "ports \<Rightarrow> ts \<Rightarrow> memory \<Rightarrow> string \<Rightarrow> uuid option \<Rightarrow> engine \<Rightarrow> engine" where
  "retire_proposal P now proposal decision accepted_as en =
    (let m = retired_proposal P now proposal decision accepted_as
     in publish_memory_change m (en\<lparr>en_store := ms_upsert_raw m None (en_store en)\<rparr>))"

definition input_of_proposal :: "memory \<Rightarrow> memory_input" where
  "input_of_proposal m =
    \<lparr>i_scope = m_scope m, i_subject = m_subject m, i_content = m_content m,
     i_importance = Some (m_importance m), i_source_event_ids = m_source_event_ids m,
     i_metadata = m_metadata m, i_mem_type = Some (m_mem_type m),
     i_valid_from = Some (m_valid_from m), i_project = m_project m\<rparr>"

definition memory_accept ::
  "ports \<Rightarrow> cognition_config \<Rightarrow> tick \<Rightarrow> ts \<Rightarrow> uuid \<Rightarrow> string \<Rightarrow> engine \<Rightarrow>
   error + memory_add_result option \<times> engine" where
  "memory_accept P cfg tk now uid tenant en =
    (case pending_of uid tenant en of
       None \<Rightarrow> Inr (None, en)
     | Some proposal \<Rightarrow>
         res_bind (memory_add P cfg tk (input_of_proposal proposal) en)
           (\<lambda>(added, en1). Inr (Some added,
              retire_proposal P now proposal ''accepted'' (Some (m_id (ma_memory added))) en1)))"

definition memory_reject :: "ports \<Rightarrow> ts \<Rightarrow> uuid \<Rightarrow> string \<Rightarrow> engine \<Rightarrow> bool \<times> engine" where
  "memory_reject P now uid tenant en =
    (case pending_of uid tenant en of
       None \<Rightarrow> (False, en)
     | Some proposal \<Rightarrow> (True, retire_proposal P now proposal ''rejected'' None en))"

subsection \<open>Moving a tenant\<close>

definition export_tenant_memories :: "cognition_config \<Rightarrow> string \<Rightarrow> engine \<Rightarrow> memory list" where
  "export_tenant_memories cfg tenant en = list_by_tenant tenant (cg_max_rows cfg) (en_store en)"

definition import_memories :: "memory list \<Rightarrow> engine \<Rightarrow> nat \<times> engine" where
  "import_memories ms en =
    (length ms, en\<lparr>en_store := fold (\<lambda>m. ms_upsert_raw m None) ms (en_store en)\<rparr>)"

definition migrate_tenant_memories_to ::
  "cognition_config \<Rightarrow> string \<Rightarrow> engine \<Rightarrow> engine \<Rightarrow> nat \<times> engine \<times> engine" where
  "migrate_tenant_memories_to cfg tenant src dest =
    (let memories = export_tenant_memories cfg tenant src;
         (n, dest') = import_memories memories dest;
         (removed, st) = delete_by_tenant tenant (en_store src)
     in (n, fold forget_indexes removed (src\<lparr>en_store := st\<rparr>), dest'))"

subsection \<open>A concrete engine\<close>

text \<open>
  A small instance on which the theorems are exercised: no embedding provider, no governance, an
  empty store, and two contradicting writes about one subject.
\<close>

definition demo_ports :: ports where
  "demo_ports = \<lparr>pt_embed = (\<lambda>_. None), pt_embed_batch = (\<lambda>_. None), pt_knn = (\<lambda>_ _ _. []),
    pt_new_v5 = (\<lambda>u s. u + of_nat (length s)), pt_validate = (\<lambda>_ _. []), pt_rfc3339 = (\<lambda>_. ''t''),
    pt_uuid_str = (\<lambda>_. ''u''), pt_power = (\<lambda>_ _. 1)\<rparr>"

definition demo_cfg :: cognition_config where
  "demo_cfg = \<lparr>cg_default_importance = 1/2, cg_contradiction_review = False, cg_dedup_threshold = 9/10,
    cg_max_memories_per_scope = 0, cg_auto_graph = False, cg_decay_half_life_days = 30,
    cg_forget_threshold = 1/20, cg_max_rows = 1000, cg_embed_batch_size = 16,
    cg_governance = \<lparr>gc_require_provenance = False, gc_fact_validation = Off, gc_tenants = []\<rparr>\<rparr>"

definition demo_engine :: engine where
  "demo_engine = \<lparr>en_store = ms_new, en_lex = lx_open, en_vec = sv_with_dimension 2, en_changes = []\<rparr>"

definition demo_tick :: "nat \<Rightarrow> tick" where
  "demo_tick n = \<lparr>tk_id = of_nat n, tk_new_at = int n * 10, tk_recorded_at = int n * 10\<rparr>"

definition demo_input :: "string \<Rightarrow> string \<Rightarrow> memory_input" where
  "demo_input subject content =
    (memory_input_new (tenant_scope ''acme'') content)\<lparr>i_subject := Some subject\<rparr>"

definition run_add :: "nat \<Rightarrow> memory_input \<Rightarrow> engine \<Rightarrow> engine" where
  "run_add n i en = (case memory_add demo_ports demo_cfg (demo_tick n) i en of
     Inl _ \<Rightarrow> en | Inr (_, en') \<Rightarrow> en')"

definition demo_engine1 :: engine where
  "demo_engine1 = run_add 1 (demo_input ''plan'' ''free'') demo_engine"

end
