(* ===== verification/Memory_Cognition.thy ===== *)
theory Memory_Cognition
  imports Memory_Engine
begin

text \<open>
  Correctness of the cognition pipeline: what one \<open>memory_add\<close> does to the beliefs of a scope,
  the bi-temporal timeline it leaves behind, the agreement of the derived indexes with the store,
  and the equivalence of the bulk path with the one-at-a-time path.
\<close>

subsection \<open>The memories of a store\<close>

lemma mems_put_row: "ms_inv st \<Longrightarrow>
    mems (ms_put_row r st) = insert (mr_memory r) {x \<in> mems st. m_id x \<noteq> row_id r}"
  by (simp add: ms_put_row_def memories_upsert_raw)

lemma ms_inv_put_row [simp, intro]: "ms_inv st \<Longrightarrow> ms_inv (ms_put_row r st)"
  by (simp add: ms_put_row_def)

lemma ms_inv_fold_put: "ms_inv st \<Longrightarrow> ms_inv (fold ms_put_row rs st)"
  by (rule msr.inv_put_all)

lemma mems_fold_put:
  assumes "ms_inv st" and "distinct (map row_id rs)"
  shows "mems (fold ms_put_row rs st) = mr_memory ` set rs \<union> {x \<in> mems st. m_id x \<notin> row_id ` set rs}"
  using assms
proof (induction rs arbitrary: st)
  case (Cons r rs)
  have "mems (fold ms_put_row (r # rs) st) =
      mr_memory ` set rs \<union> {x \<in> mems (ms_put_row r st). m_id x \<notin> row_id ` set rs}"
    using Cons by simp
  then show ?case using Cons.prems by (auto simp: mems_put_row)
qed simp

lemma add_edge_frame [simp]:
  "st_memories (add_edge t e st) = st_memories st" "st_grants (add_edge t e st) = st_grants st"
  "st_attachments (add_edge t e st) = st_attachments st"
  by (simp_all add: add_edge_def)

lemma fold_add_edge_frame [simp]:
  "st_memories (fold (\<lambda>t. add_edge te (f t)) ts st) = st_memories st"
  "st_grants (fold (\<lambda>t. add_edge te (f t)) ts st) = st_grants st"
  "st_attachments (fold (\<lambda>t. add_edge te (f t)) ts st) = st_attachments st"
  by (induction ts arbitrary: st) auto

lemma ms_inv_fold_add_edge: "ms_inv st \<Longrightarrow> ms_inv (fold (\<lambda>t. add_edge te (f t)) ts st)"
  by (induction ts arbitrary: st) (auto simp: ms_inv_add_edge)

lemma auto_graph_frame [simp]:
  "st_memories (apply_auto_graph P cfg m st) = st_memories st"
  "st_grants (apply_auto_graph P cfg m st) = st_grants st"
  "st_attachments (apply_auto_graph P cfg m st) = st_attachments st"
  by (simp_all add: apply_auto_graph_def Let_def)

lemma ms_inv_auto_graph [simp, intro]: "ms_inv st \<Longrightarrow> ms_inv (apply_auto_graph P cfg m st)"
  by (auto simp: apply_auto_graph_def Let_def intro!: ms_inv_fold_add_edge)

lemma publish_frame [simp]:
  "en_store (publish_memory_change m en) = en_store en" "en_lex (publish_memory_change m en) = en_lex en"
  "en_vec (publish_memory_change m en) = en_vec en"
  by (simp_all add: publish_memory_change_def)

lemma forget_frame [simp]:
  "en_store (forget_indexes u en) = en_store en" "en_lex (forget_indexes u en) = lx_remove u (en_lex en)"
  "en_vec (forget_indexes u en) = sv_delete u (en_vec en)" "en_changes (forget_indexes u en) = en_changes en"
  by (simp_all add: forget_indexes_def)

lemma fold_forget_frame [simp]:
  "en_store (fold forget_indexes us en) = en_store en"
  "en_lex (fold forget_indexes us en) = fold lx_remove us (en_lex en)"
  "en_vec (fold forget_indexes us en) = fold sv_delete us (en_vec en)"
  by (induction us arbitrary: en) simp_all

lemma apply_row_store:
  "en_store (apply_row P cfg r en) = apply_auto_graph P cfg (mr_memory r) (ms_put_row r (en_store en))"
  by (simp add: apply_row_def Let_def ms_put_row_def split: memory_state.split option.split)

lemma apply_row_lex: "en_lex (apply_row P cfg r en) = lxa.index_row r (en_lex en)"
  by (simp add: apply_row_def Let_def lxa.index_row_def lx_index_row_def
      split: memory_state.split option.split)

lemma apply_row_vec: "en_vec (apply_row P cfg r en) = sva.index_row r (en_vec en)"
  by (simp add: apply_row_def Let_def sva.index_row_def sv_index_row_def
      split: memory_state.split option.split)

lemma st_memories_put_row: "st_memories (ms_put_row r st) = tbl_put row_id r (st_memories st)"
  by (simp add: ms_put_row_def ms_upsert_raw_def)

lemma fold_apply_memories:
  "st_memories (en_store (fold (apply_row P cfg) rs en)) = fold (tbl_put row_id) rs (st_memories (en_store en))"
  by (induction rs arbitrary: en) (simp_all add: apply_row_store st_memories_put_row)

lemma ms_inv_fold_apply: "ms_inv (en_store en) \<Longrightarrow> ms_inv (en_store (fold (apply_row P cfg) rs en))"
  by (induction rs arbitrary: en) (auto simp: apply_row_store)

lemma fold_apply_mems:
  assumes "ms_inv (en_store en)" and "distinct (map row_id rs)"
  shows "mems (en_store (fold (apply_row P cfg) rs en)) =
    mr_memory ` set rs \<union> {x \<in> mems (en_store en). m_id x \<notin> row_id ` set rs}"
  using mems_fold_put [OF assms]
  by (simp add: fold_apply_memories fold_put_row mems_cong [of "en_store (fold (apply_row P cfg) rs en)"
        "(en_store en)\<lparr>st_memories := fold (tbl_put row_id) rs (st_memories (en_store en))\<rparr>"])

subsection \<open>The advisory contract of the two indexes\<close>

text \<open>
  Both indexes are well formed and refer to active rows only. Every operation of the engine keeps
  this, so no candidate an index proposes is a superseded, expired, pending or deleted memory.
\<close>

definition advisory :: "engine \<Rightarrow> bool" where
  "advisory en \<longleftrightarrow> ms_inv (en_store en) \<and> lxa.mirrors (st_memories (en_store en)) (en_lex en) \<and>
    sva.mirrors (st_memories (en_store en)) (en_vec en)"

lemma ms_inv_rows: "ms_inv st \<Longrightarrow> tbl_inv row_id (st_memories st)"
  by (simp add: ms_inv_def)

lemma advisory_apply_row: "advisory en \<Longrightarrow> advisory (apply_row P cfg r en)"
  by (auto simp: advisory_def apply_row_store apply_row_lex apply_row_vec st_memories_put_row
      intro!: lxa.mirrors_put sva.mirrors_put ms_inv_rows)

lemma advisory_apply_rows: "advisory en \<Longrightarrow> advisory (snd (memory_apply_rows P cfg rs en))"
  unfolding memory_apply_rows_def by (induction rs arbitrary: en) (auto simp: advisory_apply_row)

lemma advisory_forget_all:
  assumes "advisory en" and "ms_inv st"
    and "active_ids (st_memories (en_store en)) - set us \<subseteq> active_ids (st_memories st)"
  shows "advisory (fold forget_indexes us (en\<lparr>en_store := st\<rparr>))"
  using assms by (auto simp: advisory_def intro!: lxa.mirrors_forget_all sva.mirrors_forget_all)

lemma active_ids_delete:
  assumes "row_id ` {r \<in> set rows. Q r} \<subseteq> U"
  shows "active_ids rows - U \<subseteq> active_ids (tbl_delete Q rows)"
proof
  fix u assume "u \<in> active_ids rows - U"
  then obtain r where "r \<in> set rows" "m_state (mr_memory r) = Active" "u = row_id r" "\<not> Q r"
    using assms by (auto simp: active_ids_def)
  then show "u \<in> active_ids (tbl_delete Q rows)" by (auto simp: active_ids_def)
qed

lemma advisory_delete_rows:
  assumes "advisory en" and "ms_inv st" and "st_memories st = tbl_delete Q (st_memories (en_store en))"
    and "row_id ` {r \<in> set (st_memories (en_store en)). Q r} \<subseteq> set us"
  shows "advisory (fold forget_indexes us (en\<lparr>en_store := st\<rparr>))"
  using advisory_forget_all [OF assms(1,2)] active_ids_delete [OF assms(4)] assms(3) by simp

lemma active_ids_fold_delete:
  "active_ids (st_memories st) - set us \<subseteq> active_ids (st_memories (fold ms_delete us st))"
proof (induction us arbitrary: st)
  case (Cons u us)
  have "active_ids (st_memories st) - {u} \<subseteq> active_ids (st_memories (ms_delete u st))"
    unfolding ms_delete_def by (simp, rule active_ids_delete) auto
  then show ?case using Cons [of "ms_delete u st"] by auto
qed simp

lemma advisory_enforce_cap: assumes "advisory en" shows "advisory (enforce_cap sc cap en)"
proof (cases "cap > 0")
  case True
  obtain ev st where e: "enforce_scope_cap sc cap (en_store en) = (ev, st)" by fastforce
  have "ms_inv st" using ms_inv_enforce_scope_cap [of "en_store en" sc cap] assms e
    by (simp add: advisory_def)
  moreover have "active_ids (st_memories (en_store en)) - set ev \<subseteq> active_ids (st_memories st)"
    using e active_ids_fold_delete by (auto simp: enforce_scope_cap_def Let_def split: if_splits)
  ultimately show ?thesis using advisory_forget_all [OF assms] e True by (simp add: enforce_cap_def)
qed (use assms in \<open>simp add: enforce_cap_def\<close>)

lemma advisory_memory_add:
  assumes "advisory en" and "memory_add P cfg tk input en = Inr (res, en')"
  shows "advisory en'"
  using assms by (auto simp: memory_add_def Let_def res_bind_Inr_iff
      intro!: advisory_enforce_cap advisory_apply_rows split: prod.splits)

lemma advisory_memory_delete: assumes "advisory en" shows "advisory (memory_delete u en)"
proof -
  have "memory_delete u en = fold forget_indexes [u] (en\<lparr>en_store := ms_delete u (en_store en)\<rparr>)"
    by (simp add: memory_delete_def forget_indexes_def Let_def)
  then show ?thesis using advisory_forget_all [OF assms, of "ms_delete u (en_store en)" "[u]"] assms
      active_ids_fold_delete [of "en_store en" "[u]"] by (simp add: advisory_def)
qed

lemma advisory_delete_scoped:
  assumes "advisory en" shows "advisory (snd (memory_delete_scoped u t en))"
proof -
  obtain d st where e: "delete_scoped u t (en_store en) = (d, st)" by fastforce
  have "ms_inv st" using ms_inv_delete_by(1) [of "en_store en" u t] assms e
    by (simp add: advisory_def)
  then have "advisory (fold forget_indexes (if d then [u] else []) (en\<lparr>en_store := st\<rparr>))"
    by (rule advisory_delete_rows [OF assms]) (use e in \<open>auto simp: delete_scoped_def Let_def list_ex_iff\<close>)
  then show ?thesis using e by (auto simp: memory_delete_scoped_def Let_def split: if_splits)
qed

lemma advisory_delete_user:
  assumes "advisory en" shows "advisory (snd (delete_user t w en))"
proof -
  obtain ids st where e: "delete_by_user t w (en_store en) = (ids, st)" by fastforce
  have "ms_inv st" using ms_inv_delete_by(3) [of "en_store en" t w] assms e
    by (simp add: advisory_def)
  then have "advisory (fold forget_indexes ids (en\<lparr>en_store := st\<rparr>))"
    by (rule advisory_delete_rows [OF assms]) (use e in \<open>auto simp: delete_by_user_def Let_def\<close>)
  then show ?thesis using e by (simp add: delete_user_def)
qed

lemma advisory_delete_tenant:
  assumes "advisory en" shows "advisory (snd (delete_tenant_memories t en))"
proof -
  obtain ids st where e: "delete_by_tenant t (en_store en) = (ids, st)" by fastforce
  have "ms_inv st" using ms_inv_delete_by(2) [of "en_store en" t] assms e
    by (simp add: advisory_def)
  then have "advisory (fold forget_indexes ids (en\<lparr>en_store := st\<rparr>))"
    by (rule advisory_delete_rows [OF assms]) (use e in \<open>auto simp: delete_by_tenant_def Let_def\<close>)
  then show ?thesis using e by (simp add: delete_tenant_memories_def)
qed

lemma active_ids_set_memory:
  assumes "\<And>m. m_id (f m) = m_id m"
  shows "active_ids (st_memories st) - {m_id m | m. m \<in> mems st \<and> Q m} \<subseteq> active_ids (st_memories (set_memory Q f st))"
proof
  fix u assume "u \<in> active_ids (st_memories st) - {m_id m | m. m \<in> mems st \<and> Q m}"
  then obtain r where "r \<in> set (st_memories st)" "row_id r = u" "m_state (mr_memory r) = Active"
    "\<not> Q (mr_memory r)" by (auto simp: active_ids_def mems_def)
  then show "u \<in> active_ids (st_memories (set_memory Q f st))"
    unfolding active_ids_def set_memory_def by (force simp: set_tbl_update)
qed

lemma advisory_expire_one: assumes "advisory en" shows "advisory (expire_one now u en)"
proof -
  let ?st = "snd (ms_expire now u (en_store en))"
  have inv: "ms_inv ?st" using assms by (simp add: advisory_def ms_inv_expire)
  have "active_ids (st_memories (en_store en)) - {u} \<subseteq>
      active_ids (st_memories (en_store en)) - {m_id m | m. m \<in> mems (en_store en) \<and> m_id m = u \<and> m_state m = Active}"
    by auto
  also have "\<dots> \<subseteq> active_ids (st_memories ?st)"
    unfolding ms_expire_def Let_def snd_conv by (rule active_ids_set_memory) simp
  finally have "advisory (forget_indexes u (en\<lparr>en_store := ?st\<rparr>))"
    using advisory_forget_all [OF assms inv, of "[u]"] by simp
  then show ?thesis by (simp add: expire_one_def Let_def advisory_def split: option.split)
qed

lemma advisory_expire: "advisory en \<Longrightarrow> advisory (memory_expire ids en)"
  unfolding memory_expire_def by (induction ids arbitrary: en) (auto simp: advisory_expire_one)

lemma advisory_decay: assumes "advisory en" shows "advisory (snd (memory_enforce_decay P cfg now en))"
proof -
  let ?c = "decay_cond (pt_power P) now (max (cg_decay_half_life_days cfg) (1/1000)) (cg_forget_threshold cfg)"
  let ?f = "\<lambda>m::memory. m\<lparr>m_state := Expired, m_valid_to := Some now, m_updated_at := now\<rparr>"
  let ?ids = "map m_id (ms_select ?c (en_store en))"
  have inv: "ms_inv (set_memory ?c ?f (en_store en))"
    using assms by (intro ms_inv_set_memory) (simp_all add: advisory_def)
  have "set ?ids = {m_id m | m. m \<in> mems (en_store en) \<and> ?c m}" by auto
  then have "active_ids (st_memories (en_store en)) - set ?ids \<subseteq>
      active_ids (st_memories (set_memory ?c ?f (en_store en)))"
    using active_ids_set_memory [of ?f "en_store en" ?c] by simp
  then show ?thesis using advisory_forget_all [OF assms inv]
    by (simp add: memory_enforce_decay_def decay_eq Let_def)
qed

subsection \<open>The outcomes of a plan\<close>

lemma in_find_active: "m \<in> set (find_active_by_subject sc s p st) \<longleftrightarrow>
    m \<in> mems st \<and> m_scope m = norm_scope sc \<and> m_subject m = Some s \<and> m_project m = p \<and> m_state m = Active"
  by (auto simp: find_active_by_subject_def scope_where_iff)

lemma canonical_tenant [simp]: "sc_tenant_id (i_scope (canonical_input i)) \<noteq> []"
  by (simp add: canonical_input_def)

lemma norm_canonical [simp]: "norm_scope (i_scope (canonical_input i)) = i_scope (canonical_input i)"
  by (simp add: norm_scope_id)

lemma canonical_subject_norm:
  "i_subject (canonical_input i) = Some s \<Longrightarrow> normalize_subject s = s \<and> s \<noteq> []"
  by (auto simp: canonical_input_def Let_def split: option.splits if_splits)

text \<open>
  The shape of every successful plan: one of the five outcomes, with the beliefs that led to it.
\<close>

lemma plan_cases:
  assumes "memory_plan_with_embedding P cfg tk input0 emb en = Inr (res, rows)"
    and "input = canonical_input input0" and "imp = opt_or (i_importance input) (cg_default_importance cfg)"
  obtains
    (inserted) "(res, rows) = plan_inserted tk input imp emb"
      "\<And>s. i_subject input = Some s \<Longrightarrow>
        find_active_by_subject (i_scope input) s (i_project input) (en_store en) = []"
  | (confirmed) s existing rest where "i_subject input = Some s"
      "find_active_by_subject (i_scope input) s (i_project input) (en_store en) = existing # rest"
      "str_trim (m_content existing) = str_trim (i_content input)"
      "(res, rows) = plan_confirmed tk imp existing emb en"
  | (conflict) s existing rest where "i_subject input = Some s" "cg_contradiction_review cfg"
      "find_active_by_subject (i_scope input) s (i_project input) (en_store en) = existing # rest"
      "str_trim (m_content existing) \<noteq> str_trim (i_content input)"
      "(res, rows) = plan_conflict tk input s imp emb"
  | (superseded) s existing rest where "i_subject input = Some s" "\<not> cg_contradiction_review cfg"
      "find_active_by_subject (i_scope input) s (i_project input) (en_store en) = existing # rest"
      "str_trim (m_content existing) \<noteq> str_trim (i_content input)"
      "(res, rows) = plan_superseded tk input s imp (existing # rest) emb"
  | (merged) e hit hits where "i_subject input = None" "emb = Some e"
      "memory_index_search P e (i_scope input) 1 en = Inr (hit # hits)"
      "h_score hit \<ge> cg_dedup_threshold cfg"
      "(res, rows) = plan_merged tk input imp (h_memory hit) emb"
proof -
  have plan: "(case i_subject input of
        Some subject \<Rightarrow>
          (case find_active_by_subject (i_scope input) subject (i_project input) (en_store en) of
             [] \<Rightarrow> Inr (plan_inserted tk input imp emb)
           | existing # rest \<Rightarrow>
               if str_trim (m_content existing) = str_trim (i_content input)
               then Inr (plan_confirmed tk imp existing emb en)
               else if cg_contradiction_review cfg then Inr (plan_conflict tk input subject imp emb)
               else Inr (plan_superseded tk input subject imp (existing # rest) emb))
      | None \<Rightarrow>
          (case emb of
             None \<Rightarrow> Inr (plan_inserted tk input imp emb)
           | Some e \<Rightarrow>
               res_bind (memory_index_search P e (i_scope input) 1 en)
                 (\<lambda>hits. case hits of
                    [] \<Rightarrow> Inr (plan_inserted tk input imp emb)
                  | hit # _ \<Rightarrow>
                      if h_score hit \<ge> cg_dedup_threshold cfg
                      then Inr (plan_merged tk input imp (h_memory hit) emb)
                      else Inr (plan_inserted tk input imp emb)))) = Inr (res, rows)"
    using assms unfolding memory_plan_with_embedding_def Let_def res_bind_Inr_iff by blast
  show thesis
  proof (cases "i_subject input")
    case subject: (Some s)
    show thesis
    proof (cases "find_active_by_subject (i_scope input) s (i_project input) (en_store en)")
      case Nil
      then show thesis using plan subject inserted by simp
    next
      case (Cons existing rest)
      then show thesis using plan subject confirmed conflict superseded by (auto split: if_splits)
    qed
  next
    case subject: None
    show thesis
    proof (cases emb)
      case None
      then show thesis using plan subject inserted by simp
    next
      case (Some e)
      then obtain hits where hits: "memory_index_search P e (i_scope input) 1 en = Inr hits"
        "(case hits of [] \<Rightarrow> Inr (plan_inserted tk input imp emb)
          | hit # _ \<Rightarrow> if h_score hit \<ge> cg_dedup_threshold cfg
              then Inr (plan_merged tk input imp (h_memory hit) emb)
              else Inr (plan_inserted tk input imp emb)) =
            (Inr (res, rows) :: error + memory_add_result \<times> memory_row list)"
        using plan subject by (auto simp: res_bind_Inr_iff)
      then show thesis using subject Some inserted merged
        by (cases hits) (auto split: if_splits)
    qed
  qed
qed

subsection \<open>One belief per subject\<close>

definition same_key :: "memory \<Rightarrow> memory \<Rightarrow> bool" where
  "same_key a b \<longleftrightarrow> m_scope a = m_scope b \<and> m_project a = m_project b \<and>
    m_subject a = m_subject b \<and> \<not> Option.is_none (m_subject a)"

definition unique_active :: "memory_store \<Rightarrow> bool" where
  "unique_active st \<longleftrightarrow> (\<forall>a \<in> mems st. \<forall>b \<in> mems st.
    m_state a = Active \<longrightarrow> m_state b = Active \<longrightarrow> same_key a b \<longrightarrow> a = b)"

lemma unique_active_sub: "unique_active st \<Longrightarrow> mems st' \<subseteq> mems st \<Longrightarrow> unique_active st'"
  unfolding unique_active_def by (intro ballI impI) (meson subsetD)

lemma mems_fold_delete: "mems (fold ms_delete us st) \<subseteq> mems st"
proof (induction us arbitrary: st)
  case (Cons u us)
  have "mems (ms_delete u st) \<subseteq> mems st" by (auto simp: ms_delete_def mems_def)
  then show ?case using Cons [of "ms_delete u st"] by auto
qed simp

lemma enforce_cap_mems: "mems (en_store (enforce_cap sc cap en)) \<subseteq> mems (en_store en)"
  using mems_fold_delete
  by (auto simp: enforce_cap_def enforce_scope_cap_def Let_def split: if_splits)

lemma memory_addE:
  assumes "memory_add P cfg tk input en = Inr (res, en')"
  obtains rows where
    "memory_plan_with_embedding P cfg tk input (pt_embed P (i_content input)) en = Inr (res, rows)"
    "en' = enforce_cap (m_scope (ma_memory res)) (cg_max_memories_per_scope cfg)
      (fold (apply_row P cfg) rows en)"
  using assms by (auto simp: memory_add_def memory_plan_def memory_apply_rows_def Let_def res_bind_Inr_iff)

lemma superseded_row_simps [simp]:
  "row_id (superseded_row t u a) = m_id a" "m_state (mr_memory (superseded_row t u a)) = Superseded"
  "m_valid_to (mr_memory (superseded_row t u a)) = Some t"
  "m_valid_from (mr_memory (superseded_row t u a)) = m_valid_from a"
  "m_content (mr_memory (superseded_row t u a)) = m_content a"
  "m_subject (mr_memory (superseded_row t u a)) = m_subject a"
  "m_scope (mr_memory (superseded_row t u a)) = m_scope a"
  "m_project (mr_memory (superseded_row t u a)) = m_project a"
  "m_created_at (mr_memory (superseded_row t u a)) = m_created_at a"
  by (simp_all add: superseded_row_def)

lemma distinct_find_active:
  assumes "ms_inv st" shows "distinct (map m_id (find_active_by_subject sc s p st))"
proof -
  have "distinct (map m_id (ms_select Q st))" for Q
    using assms distinct_map_filter [of m_id "map mr_memory (st_memories st)" Q]
    by (simp add: ms_select_def ms_inv_def tbl_inv_def comp_def)
  then have "distinct (map m_id (order_by_desc m_valid_from (ms_select Q st)))" for Q
    unfolding order_by_desc_def distinct_map by simp
  then show ?thesis unfolding find_active_by_subject_def .
qed

text \<open>The new memory of a plan, and the rows around it.\<close>

lemma valid_boundary_after: "valid_boundary req (Some prev) now > prev"
  by (auto simp: valid_boundary_def Let_def)

lemma plan_superseded_rows:
  assumes "(res, rows) = plan_superseded tk i s imp A emb"
  obtains new where
    "rows = map (superseded_row (m_valid_from new) (tk_recorded_at tk)) A @ [\<lparr>mr_memory = new, mr_embedding = emb\<rparr>]"
    "ma_memory res = new" "ma_outcome res = Outcome_Superseded" "m_id new = tk_id tk" "m_state new = Active"
    "m_scope new = i_scope i" "m_subject new = Some s" "m_project new = i_project i"
    "m_content new = i_content i" "m_supersedes new = Some (m_id (hd A))" "m_valid_to new = None"
    "\<And>a. a \<in> set A \<Longrightarrow> m_valid_from a < m_valid_from new"
proof -
  have "m_valid_from a < valid_boundary (i_valid_from i) (Some (Max (set (map m_valid_from A)))) (tk_recorded_at tk)"
    if "a \<in> set A" for a
    using valid_boundary_after Max_ge [of "set (map m_valid_from A)" "m_valid_from a"] that
    by (metis List.finite_set image_eqI le_less_trans set_map)
  then show ?thesis using that assms unfolding plan_superseded_def Let_def memory_new_def by simp
qed

lemma plan_merged_rows:
  assumes "(res, rows) = plan_merged tk i imp prior emb"
  obtains new where
    "rows = [superseded_row (m_valid_from new) (tk_recorded_at tk) prior, \<lparr>mr_memory = new, mr_embedding = emb\<rparr>]"
    "ma_memory res = new" "ma_outcome res = Merged" "m_id new = tk_id tk" "m_state new = Active"
    "m_scope new = i_scope i" "m_subject new = m_subject prior" "m_content new = i_content i"
    "m_supersedes new = Some (m_id prior)" "m_valid_to new = None" "m_valid_from prior < m_valid_from new"
  using that assms valid_boundary_after unfolding plan_merged_def Let_def memory_new_def by simp

lemma plan_inserted_rows:
  assumes "(res, rows) = plan_inserted tk i imp emb"
  obtains new where
    "rows = [\<lparr>mr_memory = new, mr_embedding = emb\<rparr>]" "ma_memory res = new" "ma_outcome res = Inserted"
    "m_id new = tk_id tk" "m_state new = Active" "m_scope new = i_scope i" "m_subject new = i_subject i"
    "m_project new = i_project i" "m_content new = i_content i" "m_valid_to new = None"
  using that assms unfolding plan_inserted_def Let_def memory_new_def by simp

lemma plan_conflict_rows:
  assumes "(res, rows) = plan_conflict tk i s imp emb"
  obtains new where
    "rows = [\<lparr>mr_memory = new, mr_embedding = emb\<rparr>]" "ma_memory res = new" "ma_outcome res = Conflict"
    "m_id new = tk_id tk" "m_state new = Active" "m_scope new = i_scope i" "m_subject new = Some s"
    "m_project new = None" "m_content new = i_content i" "m_valid_to new = None"
  using that assms unfolding plan_conflict_def Let_def memory_new_def by simp

lemma plan_confirmed_rows:
  assumes "(res, rows) = plan_confirmed tk imp x emb en"
  obtains m e where
    "rows = [\<lparr>mr_memory = m, mr_embedding = e\<rparr>]" "ma_memory res = m" "ma_outcome res = Confirmed"
    "m = x\<lparr>m_importance := max imp (m_importance x), m_version := m_version x + 1,
            m_updated_at := tk_recorded_at tk\<rparr>"
    "e = (case emb of Some v \<Rightarrow> Some v | None \<Rightarrow> get_embedding (m_id x) (en_store en))"
  using that assms unfolding plan_confirmed_def Let_def by simp

lemma hits_active:
  assumes "ms_inv (en_store en)" and "memory_index_search P e sc k en = Inr hs" and "h \<in> set hs"
  shows "h_memory h \<in> mems (en_store en) \<and> m_state (h_memory h) = Active"
proof -
  let ?hit = "\<lambda>r :: search_result. case ms_get (em_id (sr_entry r)) (en_store en) of
      None \<Rightarrow> None
    | Some m \<Rightarrow> if m_state m = Active
        then Some \<lparr>h_memory = m, h_score = sr_score r, h_similarity = Some (sr_score r), h_lexical = None\<rparr>
        else None"
  obtain r where r: "?hit r = Some h"
    using assms(2,3) by (auto simp: memory_index_search_def res_bind_Inr_iff)
  then obtain m where m: "ms_get (em_id (sr_entry r)) (en_store en) = Some m"
    by (cases "ms_get (em_id (sr_entry r)) (en_store en)") auto
  then have "m_state m = Active \<and> h_memory h = m" using r by (auto split: if_splits)
  then show ?thesis using ms_get_in [OF m] by simp
qed

lemma plan_rows:
  assumes "memory_plan_with_embedding P cfg tk input emb en = Inr (res, rows)"
    and "ms_inv (en_store en)" and "tk_id tk \<notin> store_ids (en_store en)"
  shows "distinct (map row_id rows)" and "ma_memory res \<in> mr_memory ` set rows"
    and "m_state (ma_memory res) = Active"
    and "row_id ` set rows \<subseteq> insert (tk_id tk) (store_ids (en_store en))"
proof -
  let ?i = "canonical_input input"
  have fresh: "m_id m \<noteq> tk_id tk" if "m \<in> mems (en_store en)" for m
    using assms(3) that unfolding store_ids_mems by (metis image_eqI)
  have "distinct (map row_id rows) \<and> ma_memory res \<in> mr_memory ` set rows \<and>
      m_state (ma_memory res) = Active \<and> row_id ` set rows \<subseteq> insert (tk_id tk) (store_ids (en_store en))"
    using assms(1) refl refl
  proof (cases rule: plan_cases)
    case inserted
    from inserted(1) show ?thesis by (rule plan_inserted_rows) auto
  next
    case (confirmed s existing rest)
    then have "existing \<in> set (find_active_by_subject (i_scope ?i) s (i_project ?i) (en_store en))"
      by simp
    then have "existing \<in> mems (en_store en)" "m_state existing = Active"
      unfolding in_find_active by auto
    with confirmed(4) show ?thesis by (elim plan_confirmed_rows) (auto simp: store_ids_mems)
  next
    case (conflict s existing rest)
    from conflict(5) show ?thesis by (rule plan_conflict_rows) auto
  next
    case (superseded s existing rest)
    let ?A = "existing # rest"
    have "distinct (map m_id ?A)" using distinct_find_active [OF assms(2)] superseded(3) by metis
    moreover have "\<forall>m \<in> set ?A. m \<in> mems (en_store en)"
      unfolding superseded(3) [symmetric] by (simp add: in_find_active)
    moreover from this have "\<forall>m \<in> set ?A. m_id m \<noteq> tk_id tk" using fresh by blast
    ultimately show ?thesis using superseded(5)
      by (elim plan_superseded_rows) (auto simp: comp_def store_ids_mems)
  next
    case (merged e hit hits)
    then have "h_memory hit \<in> mems (en_store en) \<and> m_state (h_memory hit) = Active"
      using hits_active [OF assms(2)] by (metis list.set_intros(1))
    with merged(5) fresh show ?thesis by (elim plan_merged_rows) (auto simp: store_ids_mems)
  qed
  then show "distinct (map row_id rows)" "ma_memory res \<in> mr_memory ` set rows"
    "m_state (ma_memory res) = Active" "row_id ` set rows \<subseteq> insert (tk_id tk) (store_ids (en_store en))"
    by blast+
qed

lemma unique_active_insert:
  assumes "unique_active st"
    and "\<And>x. x \<in> mems st' \<Longrightarrow> m_state x = Active \<Longrightarrow> x = m \<or> x \<in> mems st"
    and "\<And>x. x \<in> mems st' \<Longrightarrow> x \<noteq> m \<Longrightarrow> m_state x = Active \<Longrightarrow> \<not> same_key m x"
  shows "unique_active st'"
  unfolding unique_active_def
proof (intro ballI impI)
  fix a b
  assume ab: "a \<in> mems st'" "b \<in> mems st'" "m_state a = Active" "m_state b = Active" "same_key a b"
  then have "same_key b a" by (auto simp: same_key_def)
  then have "a = m \<longleftrightarrow> b = m" using assms(3) [of a] assms(3) [of b] ab by blast
  moreover have "a = b" if "a \<noteq> m" "b \<noteq> m"
  proof -
    have "a \<in> mems st" "b \<in> mems st" using that ab(1-4) assms(2) by blast+
    then show ?thesis using assms(1) ab(3-5) unfolding unique_active_def by blast
  qed
  ultimately show "a = b" by blast
qed

lemma memory_add_store:
  assumes "memory_plan_with_embedding P cfg tk input emb en = Inr (res, rows)"
    and "ms_inv (en_store en)" and "tk_id tk \<notin> store_ids (en_store en)"
  shows "mems (en_store (fold (apply_row P cfg) rows en)) =
    mr_memory ` set rows \<union> {x \<in> mems (en_store en). m_id x \<notin> row_id ` set rows}"
  using fold_apply_mems [OF assms(2) plan_rows(1) [OF assms]] .

text \<open>Outside the merge path a write keeps one belief per scope, project and subject.\<close>

lemma plan_keeps_unique:
  assumes plan: "memory_plan_with_embedding P cfg tk input emb en = Inr (res, rows)"
    and inv: "ms_inv (en_store en)" and fresh: "tk_id tk \<notin> store_ids (en_store en)"
    and uniq: "unique_active (en_store en)"
    and off: "\<not> cg_contradiction_review cfg" and nomerge: "ma_outcome res \<noteq> Merged"
  shows "unique_active (en_store (fold (apply_row P cfg) rows en))"
proof -
  define st' where "st' = en_store (fold (apply_row P cfg) rows en)"
  let ?i = "canonical_input input"
  have st': "mems st' = mr_memory ` set rows \<union> {x \<in> mems (en_store en). m_id x \<notin> row_id ` set rows}"
    using memory_add_store [OF plan inv fresh] by (simp add: st'_def)
  have "unique_active st'"
    using plan refl refl
  proof (cases rule: plan_cases)
    case inserted
    from inserted(1) obtain new where rows: "rows = [\<lparr>mr_memory = new, mr_embedding = emb\<rparr>]"
      and new: "m_scope new = i_scope ?i" "m_subject new = i_subject ?i" "m_project new = i_project ?i"
      by (rule plan_inserted_rows) metis
    show ?thesis
    proof (rule unique_active_insert [OF uniq])
      fix x assume x: "x \<in> mems st'" "m_state x = Active"
      then show "x = new \<or> x \<in> mems (en_store en)" unfolding st' rows by auto
      assume "x \<noteq> new"
      then have "x \<in> mems (en_store en)" using x unfolding st' rows by auto
      show "\<not> same_key new x"
      proof
        assume key: "same_key new x"
        then obtain s where s: "i_subject ?i = Some s" using new
          by (cases "i_subject ?i") (auto simp: same_key_def)
        then have "x \<in> set (find_active_by_subject (i_scope ?i) s (i_project ?i) (en_store en))"
          unfolding in_find_active norm_canonical
          using x key new \<open>x \<in> mems (en_store en)\<close> by (simp add: same_key_def)
        then show False using inserted(2) [OF s] by simp
      qed
    qed
  next
    case (confirmed s existing rest)
    from confirmed(4) obtain m e where rows: "rows = [\<lparr>mr_memory = m, mr_embedding = e\<rparr>]"
      and m: "m_id m = m_id existing" "\<And>x. same_key m x \<longleftrightarrow> same_key existing x"
      by (rule plan_confirmed_rows) (simp add: same_key_def)
    have ex: "existing \<in> mems (en_store en)" "m_state existing = Active"
      using confirmed(2) in_find_active [of existing "i_scope ?i" s "i_project ?i" "en_store en"] by auto
    show ?thesis
    proof (rule unique_active_insert [OF uniq])
      fix x assume x: "x \<in> mems st'" "m_state x = Active"
      then show "x = m \<or> x \<in> mems (en_store en)" unfolding st' rows by auto
      assume "x \<noteq> m"
      then have "x \<in> mems (en_store en)" "m_id x \<noteq> m_id existing" using m x unfolding st' rows by auto
      then show "\<not> same_key m x" using uniq ex x(2) m(2) unfolding unique_active_def by blast
    qed
  next
    case (superseded s existing rest)
    from superseded(5) obtain new where
      rows: "rows = map (superseded_row (m_valid_from new) (tk_recorded_at tk)) (existing # rest) @
        [\<lparr>mr_memory = new, mr_embedding = emb\<rparr>]"
      and new: "m_scope new = i_scope ?i" "m_subject new = Some s" "m_project new = i_project ?i"
      by (rule plan_superseded_rows) metis
    show ?thesis
    proof (rule unique_active_insert [OF uniq])
      fix x assume x: "x \<in> mems st'" "m_state x = Active"
      have no: "m_state (mr_memory r) \<noteq> Active \<or> mr_memory r = new" if "r \<in> set rows" for r
        using that unfolding rows by auto
      then show old: "x = new \<or> x \<in> mems (en_store en)" using x unfolding st' by blast
      assume "x \<noteq> new"
      then have "x \<in> mems (en_store en)" "m_id x \<notin> row_id ` set rows"
        using x no unfolding st' by blast+
      then have "x \<notin> set (existing # rest)" unfolding rows by (auto simp: image_image)
      then show "\<not> same_key new x"
        using superseded(3) \<open>x \<in> mems (en_store en)\<close> x(2) new
          in_find_active [of x "i_scope ?i" s "i_project ?i" "en_store en"]
        by (auto simp: same_key_def)
    qed
  qed (use off nomerge in \<open>auto elim: plan_merged_rows\<close>)
  then show ?thesis by (simp add: st'_def)
qed

text \<open>C1: one belief per key. With contradiction review off, adding a memory under a fresh identifier to a
  store that holds at most one active memory per scope, project and subject leaves a store with the
  same property, on every outcome but the embedding-based merge; the quota eviction that follows keeps
  it. With review on, a contradiction is stored active beside the memory it contradicts, for a human to
  resolve (\<open>plan_conflict\<close>), which the statement does not cover.\<close>

theorem memory_add_unique_active:
  assumes "ms_inv (en_store en)" and "unique_active (en_store en)"
    and "tk_id tk \<notin> store_ids (en_store en)" and "\<not> cg_contradiction_review cfg"
    and "memory_add P cfg tk input en = Inr (res, en')" and "ma_outcome res \<noteq> Merged"
  shows "unique_active (en_store en')"
proof -
  from assms(5) obtain rows where
    "memory_plan_with_embedding P cfg tk input (pt_embed P (i_content input)) en = Inr (res, rows)"
    and en': "en' = enforce_cap (m_scope (ma_memory res)) (cg_max_memories_per_scope cfg)
      (fold (apply_row P cfg) rows en)" by (rule memory_addE)
  then have "unique_active (en_store (fold (apply_row P cfg) rows en))"
    using plan_keeps_unique assms by blast
  then show ?thesis unfolding en' using enforce_cap_mems by (rule unique_active_sub)
qed

theorem memory_add_unique_active_witness:
  "\<exists>res en'. memory_add demo_ports demo_cfg (demo_tick 2) (demo_input '' Plan'' ''pro'') demo_engine1 =
      Inr (res, en') \<and> ma_outcome res = Outcome_Superseded \<and> unique_active (en_store en')"
proof -
  have "case memory_add demo_ports demo_cfg (demo_tick 2) (demo_input '' Plan'' ''pro'') demo_engine1 of
      Inl _ \<Rightarrow> False | Inr (res, _) \<Rightarrow> ma_outcome res = Outcome_Superseded" by code_simp
  then obtain res en' where add: "memory_add demo_ports demo_cfg (demo_tick 2) (demo_input '' Plan'' ''pro'')
      demo_engine1 = Inr (res, en')" "ma_outcome res = Outcome_Superseded"
    by (auto split: sum.splits)
  have "ms_inv (en_store demo_engine1)" "unique_active (en_store demo_engine1)"
    "tk_id (demo_tick 2) \<notin> store_ids (en_store demo_engine1)" "\<not> cg_contradiction_review demo_cfg"
    by code_simp+
  from memory_add_unique_active [OF this add(1)] add show ?thesis by auto
qed

text \<open>C2: the added fact is the belief. With contradiction review off, no quota and a fresh identifier,
  after a write with a subject to a store that had at most one active memory per scope, project and
  subject, the active memories of the written scope, subject and project are exactly the returned one:
  what the write contradicted is no longer active, and a repeated assertion reinforces the memory it
  repeats. With review on both sides of a contradiction are active, and a quota may evict the new memory.\<close>

theorem memory_add_believed:
  assumes "ms_inv (en_store en)" and "unique_active (en_store en)"
    and "tk_id tk \<notin> store_ids (en_store en)" and "\<not> cg_contradiction_review cfg"
    and "cg_max_memories_per_scope cfg = 0"
    and "memory_add P cfg tk input en = Inr (res, en')"
    and "i_subject (canonical_input input) = Some s"
  shows "find_active_by_subject (i_scope input) s (i_project input) (en_store en') = [ma_memory res]"
proof -
  let ?i = "canonical_input input"
  from assms(6) obtain rows where
    plan: "memory_plan_with_embedding P cfg tk input (pt_embed P (i_content input)) en = Inr (res, rows)"
    and en': "en' = fold (apply_row P cfg) rows en"
    using assms(5) by (elim memory_addE) (simp add: enforce_cap_def)
  have key: "m_scope (ma_memory res) = i_scope ?i \<and> m_subject (ma_memory res) = Some s \<and>
      m_project (ma_memory res) = i_project ?i \<and> ma_outcome res \<noteq> Merged"
    using plan refl refl
  proof (cases rule: plan_cases)
    case inserted
    then show ?thesis using assms(7) by (elim plan_inserted_rows) simp
  next
    case (confirmed t existing rest)
    then have "existing \<in> set (find_active_by_subject (i_scope ?i) s (i_project ?i) (en_store en))"
      using assms(7) by simp
    then show ?thesis using confirmed(4) unfolding in_find_active norm_canonical
      by (elim plan_confirmed_rows) simp
  next
    case (superseded t existing rest)
    then show ?thesis using assms(7) by (elim plan_superseded_rows) simp
  qed (use assms(4,7) in simp_all)
  have uniq: "unique_active (en_store en')"
    using plan_keeps_unique [OF plan assms(1,3,2,4)] key by (simp add: en')
  have inv: "ms_inv (en_store en')" unfolding en' using assms(1) by (rule ms_inv_fold_apply)
  let ?A = "find_active_by_subject (i_scope input) s (i_project input) (en_store en')"
  have sc: "norm_scope (i_scope input) = i_scope ?i" "i_project input = i_project ?i"
    by (simp_all add: canonical_input_def norm_scope_def)
  have "ma_memory res \<in> mems (en_store en')"
    unfolding en' memory_add_store [OF plan assms(1,3)] using plan_rows(2) [OF plan assms(1,3)] by blast
  then have "ma_memory res \<in> set ?A"
    using key plan_rows(3) [OF plan assms(1,3)] by (simp add: in_find_active sc)
  moreover have "x = ma_memory res" if "x \<in> set ?A" for x
    using uniq calculation that unfolding unique_active_def in_find_active same_key_def by force
  ultimately have "set ?A = {ma_memory res}" by blast
  moreover have "distinct ?A" using distinct_find_active [OF inv] by (simp add: distinct_map)
  ultimately show ?thesis by (rule distinct_singleton [rotated])
qed

theorem memory_add_believed_witness:
  "\<exists>res en'. memory_add demo_ports demo_cfg (demo_tick 2) (demo_input '' Plan'' ''pro'') demo_engine1 =
      Inr (res, en') \<and> find_active_by_subject (tenant_scope ''acme'') ''plan'' None (en_store en') = [ma_memory res]"
proof -
  have "case memory_add demo_ports demo_cfg (demo_tick 2) (demo_input '' Plan'' ''pro'') demo_engine1 of
      Inl _ \<Rightarrow> False | Inr _ \<Rightarrow> True" by code_simp
  then obtain res en' where add: "memory_add demo_ports demo_cfg (demo_tick 2) (demo_input '' Plan'' ''pro'')
      demo_engine1 = Inr (res, en')" by (auto split: sum.splits)
  have "ms_inv (en_store demo_engine1)" "unique_active (en_store demo_engine1)"
    "tk_id (demo_tick 2) \<notin> store_ids (en_store demo_engine1)" "\<not> cg_contradiction_review demo_cfg"
    "cg_max_memories_per_scope demo_cfg = 0"
    by code_simp+
  moreover have "i_subject (canonical_input (demo_input '' Plan'' ''pro'')) = Some ''plan''" by code_simp
  ultimately have "find_active_by_subject (i_scope (demo_input '' Plan'' ''pro'')) ''plan''
      (i_project (demo_input '' Plan'' ''pro'')) (en_store en') = [ma_memory res]"
    using memory_add_believed [OF _ _ _ _ _ add] by blast
  then show ?thesis using add by (simp add: demo_input_def memory_input_new_def)
qed

end
