(* ===== verification/Memory_Timeline.thy ===== *)
theory Memory_Timeline
  imports Memory_Cognition
begin

text \<open>
  The bi-temporal guarantees of the write path: a write never loses a stored memory, closes what
  it replaces at the instant the new memory becomes valid, and leaves every answer about an earlier
  instant as it was.
\<close>

subsection \<open>How a row may change\<close>

text \<open>
  A row survives a write with its identity, content and validity start. Either its lifecycle state
  and validity end are as before, or it was active and is closed at the boundary \<open>b\<close>.
\<close>

definition evolves :: "ts \<Rightarrow> memory \<Rightarrow> memory \<Rightarrow> bool" where
  "evolves b m m' \<longleftrightarrow>
    m_id m' = m_id m \<and> m_scope m' = m_scope m \<and> m_subject m' = m_subject m \<and>
    m_content m' = m_content m \<and> m_valid_from m' = m_valid_from m \<and>
    m_source_event_ids m' = m_source_event_ids m \<and> m_created_at m' = m_created_at m \<and>
    m_metadata m' = m_metadata m \<and> m_mem_type m' = m_mem_type m \<and> m_project m' = m_project m \<and>
    m_supersedes m' = m_supersedes m \<and>
    (m_state m' = m_state m \<and> m_valid_to m' = m_valid_to m \<and> m_version m \<le> m_version m' \<or>
     m_state m = Active \<and> m_state m' = Superseded \<and> m_valid_to m' = Some b \<and> m_valid_from m < b)"

lemma evolves_refl [simp]: "evolves b m m"
  by (simp add: evolves_def)

lemma evolves_superseded:
  "m_state m = Active \<Longrightarrow> m_valid_from m < b \<Longrightarrow> evolves b m (mr_memory (superseded_row b t m))"
  by (simp add: evolves_def superseded_row_def)

lemma tbl_put_existing:
  "tbl_inv key rows \<Longrightarrow> key r \<in> key ` set rows \<Longrightarrow>
    tbl_put key r rows = map (\<lambda>x. if key x = key r then r else x) rows"
proof (induction rows)
  case (Cons x xs)
  show ?case
  proof (cases "key x = key r")
    case True
    then have "map (\<lambda>x. if key x = key r then r else x) xs = xs"
      using Cons.prems(1) by (intro map_idI) (auto simp: rev_image_eqI)
    then show ?thesis using True by simp
  next
    case False
    then show ?thesis using Cons by auto
  qed
qed simp

text \<open>Closing a list of stored memories rewrites their rows in place.\<close>

lemma fold_put_superseded:
  assumes "tbl_inv row_id rows" and "set A \<subseteq> mr_memory ` set rows" and "distinct (map m_id A)"
  shows "fold (tbl_put row_id) (map (superseded_row b t) A) rows =
    map (\<lambda>r. if mr_memory r \<in> set A then superseded_row b t (mr_memory r) else r) rows"
  using assms(2,3)
proof (induction A rule: rev_induct)
  case (snoc a A)
  let ?g = "\<lambda>r. if mr_memory r \<in> set A then superseded_row b t (mr_memory r) else r"
  have IH: "fold (tbl_put row_id) (map (superseded_row b t) A) rows = map ?g rows"
    using snoc by simp
  have ids: "row_id (?g r) = row_id r" for r by simp
  then have keys: "map row_id (map ?g rows) = map row_id rows" by (simp add: comp_def)
  have "m_id a \<in> row_id ` set rows" using snoc.prems(1) by auto
  moreover have "row_id ` set (map ?g rows) = row_id ` set rows"
    using arg_cong [OF keys, of set] by (simp only: set_map)
  ultimately have "m_id a \<in> row_id ` set (map ?g rows)" by simp
  moreover have "tbl_inv row_id (map ?g rows)" using assms(1) by (simp only: tbl_inv_def keys)
  ultimately have put: "tbl_put row_id (superseded_row b t a) (map ?g rows) =
      map (\<lambda>x. if row_id x = m_id a then superseded_row b t a else x) (map ?g rows)"
    using tbl_put_existing [of row_id "map ?g rows" "superseded_row b t a"] by simp
  have same: "row_id r = m_id a \<longleftrightarrow> mr_memory r = a" if "r \<in> set rows" for r
    using assms(1) snoc.prems(1) that tbl_inv_inj [of row_id rows] by auto
  have "a \<notin> set A" using snoc.prems(2) by auto
  then have "map (\<lambda>x. if row_id x = m_id a then superseded_row b t a else x) (map ?g rows) =
      map (\<lambda>r. if mr_memory r \<in> set (A @ [a]) then superseded_row b t (mr_memory r) else r) rows"
    using same by (auto simp: comp_def)
  then show ?case using IH put by simp
qed simp

text \<open>
  Every successful plan, once applied, rewrites the stored rows in place, each to an evolution of
  itself, and appends the new memory unless it only confirmed an old one.
\<close>

lemma plan_shape:
  assumes plan: "memory_plan_with_embedding P cfg tk input emb en = Inr (res, rows)"
    and inv: "ms_inv (en_store en)" and fresh: "tk_id tk \<notin> store_ids (en_store en)"
  obtains g news where
    "st_memories (en_store (fold (apply_row P cfg) rows en)) = map g (st_memories (en_store en)) @ news"
    "\<And>r. r \<in> set (st_memories (en_store en)) \<Longrightarrow>
      evolves (m_valid_from (ma_memory res)) (mr_memory r) (mr_memory (g r))"
    "ma_outcome res = Confirmed \<and> news = [] \<or>
     ma_outcome res \<noteq> Confirmed \<and> news = [\<lparr>mr_memory = ma_memory res, mr_embedding = emb\<rparr>]"
proof -
  note goal = that
  let ?R = "st_memories (en_store en)" and ?i = "canonical_input input"
  have R: "tbl_inv row_id ?R" using inv by (rule ms_inv_rows)
  have app: "fold (tbl_put row_id) (us @ [\<lparr>mr_memory = new, mr_embedding = emb\<rparr>]) ?R =
      fold (tbl_put row_id) us ?R @ [\<lparr>mr_memory = new, mr_embedding = emb\<rparr>]"
    if "m_id new = tk_id tk" "row_id ` set us \<subseteq> row_id ` set ?R" for us new
    using that fresh length_fold_put_existing [of row_id us ?R]
    by (simp add: store_ids_def tbl_put_fresh)
  have closing: thesis
    if A: "set A \<subseteq> mems (en_store en)" "distinct (map m_id A)"
      "\<And>a. a \<in> set A \<Longrightarrow> m_state a = Active \<and> m_valid_from a < m_valid_from (ma_memory res)"
    and rows: "rows = map (superseded_row (m_valid_from (ma_memory res)) t) A @
      [\<lparr>mr_memory = ma_memory res, mr_embedding = emb\<rparr>]"
    and out: "ma_outcome res \<noteq> Confirmed" "m_id (ma_memory res) = tk_id tk" for A t
  proof -
    let ?b = "m_valid_from (ma_memory res)"
    let ?g = "\<lambda>r. if mr_memory r \<in> set A then superseded_row ?b t (mr_memory r) else r"
    have "row_id ` set (map (superseded_row ?b t) A) \<subseteq> row_id ` set ?R"
      using A(1) by (auto simp: mems_def)
    from app [OF out(2) this] have "fold (tbl_put row_id) rows ?R =
        fold (tbl_put row_id) (map (superseded_row ?b t) A) ?R @ [\<lparr>mr_memory = ma_memory res, mr_embedding = emb\<rparr>]"
      unfolding rows .
    also have "fold (tbl_put row_id) (map (superseded_row ?b t) A) ?R = map ?g ?R"
      using fold_put_superseded [OF R _ A(2)] A(1) by (simp add: mems_def)
    finally have "fold (tbl_put row_id) rows ?R =
        map ?g ?R @ [\<lparr>mr_memory = ma_memory res, mr_embedding = emb\<rparr>]" .
    then show thesis using goal [of ?g] A(3) out(1)
      by (simp add: fold_apply_memories evolves_superseded)
  qed
  show thesis
    using plan refl refl
  proof (cases rule: plan_cases)
    case inserted
    from inserted(1) show thesis by (rule plan_inserted_rows) (use closing [of "[]"] in auto)
  next
    case (confirmed s existing rest)
    from confirmed(4) obtain e where
      m: "ma_memory res = existing\<lparr>m_importance := max (opt_or (i_importance ?i) (cg_default_importance cfg))
          (m_importance existing), m_version := m_version existing + 1, m_updated_at := tk_recorded_at tk\<rparr>"
      and rows: "rows = [\<lparr>mr_memory = ma_memory res, mr_embedding = e\<rparr>]" and out: "ma_outcome res = Confirmed"
      by (rule plan_confirmed_rows) metis
    have "existing \<in> mems (en_store en)"
      using confirmed(2) in_find_active [of existing "i_scope ?i" s "i_project ?i" "en_store en"] by simp
    then have mem: "m_id existing \<in> row_id ` set ?R" by (auto simp: mems_def)
    let ?g = "\<lambda>x. if row_id x = m_id existing then \<lparr>mr_memory = ma_memory res, mr_embedding = e\<rparr> else x"
    have ex: "mr_memory r = existing" if "r \<in> set ?R" "row_id r = m_id existing" for r
      using \<open>existing \<in> mems (en_store en)\<close> that ms_inv_inj [OF inv] by (auto simp: mems_def)
    have "evolves (m_valid_from (ma_memory res)) (mr_memory r) (mr_memory (?g r))" if "r \<in> set ?R" for r
    proof (cases "row_id r = m_id existing")
      case True
      from ex [OF that True] show ?thesis by (simp add: evolves_def m)
    qed simp
    moreover have "fold (tbl_put row_id) rows ?R = map ?g ?R"
      using tbl_put_existing [OF R, of "\<lparr>mr_memory = ma_memory res, mr_embedding = e\<rparr>"] mem by (simp add: rows m)
    ultimately show thesis using goal [of ?g "[]"] out by (simp add: fold_apply_memories)
  next
    case (conflict s existing rest)
    from conflict(5) show thesis by (rule plan_conflict_rows) (use closing [of "[]"] in auto)
  next
    case (superseded s existing rest)
    let ?A = "find_active_by_subject (i_scope ?i) s (i_project ?i) (en_store en)"
    have "set ?A \<subseteq> mems (en_store en)" "distinct (map m_id ?A)" "\<And>a. a \<in> set ?A \<Longrightarrow> m_state a = Active"
      using distinct_find_active [OF inv] by (auto simp: in_find_active)
    then show thesis using superseded(5) closing [of ?A] unfolding superseded(3)
      by (elim plan_superseded_rows) auto
  next
    case (merged e hit hits)
    have "h_memory hit \<in> mems (en_store en) \<and> m_state (h_memory hit) = Active"
      using hits_active [OF inv merged(3)] by simp
    then show thesis using merged(5) closing [of "[h_memory hit]"] by (elim plan_merged_rows) auto
  qed
qed

subsection \<open>Nothing is lost\<close>

text \<open>C4: nothing is silently deleted. Without a quota, every memory stored before a write is stored
  after it, under the same identifier, with the same content, provenance and validity start; a
  memory that changed state was active and is now superseded, closed at the instant the new memory
  becomes valid.\<close>

theorem memory_add_nothing_lost:
  assumes "ms_inv (en_store en)" and "tk_id tk \<notin> store_ids (en_store en)"
    and "cg_max_memories_per_scope cfg = 0"
    and "memory_add P cfg tk input en = Inr (res, en')" and "m \<in> mems (en_store en)"
  shows "\<exists>m' \<in> mems (en_store en'). evolves (m_valid_from (ma_memory res)) m m'"
proof -
  from assms(4) obtain rows where
    plan: "memory_plan_with_embedding P cfg tk input (pt_embed P (i_content input)) en = Inr (res, rows)"
    and en': "en' = fold (apply_row P cfg) rows en"
    using assms(3) by (elim memory_addE) (simp add: enforce_cap_def)
  from plan_shape [OF plan assms(1,2)] obtain g news where
    "st_memories (en_store en') = map g (st_memories (en_store en)) @ news"
    "\<And>r. r \<in> set (st_memories (en_store en)) \<Longrightarrow>
      evolves (m_valid_from (ma_memory res)) (mr_memory r) (mr_memory (g r))" unfolding en' by metis
  then show ?thesis using assms(5) by (auto simp: mems_def)
qed

theorem memory_add_nothing_lost_witness:
  "\<exists>res en'. memory_add demo_ports demo_cfg (demo_tick 2) (demo_input ''plan'' ''pro'') demo_engine1 =
      Inr (res, en') \<and>
    (\<exists>m' \<in> mems (en_store en'). evolves 20 (the (ms_get 1 (en_store demo_engine1))) m')"
proof -
  have "case memory_add demo_ports demo_cfg (demo_tick 2) (demo_input ''plan'' ''pro'') demo_engine1 of
      Inl _ \<Rightarrow> False | Inr (res, _) \<Rightarrow> m_valid_from (ma_memory res) = 20" by code_simp
  then obtain res en' where add: "memory_add demo_ports demo_cfg (demo_tick 2) (demo_input ''plan'' ''pro'')
      demo_engine1 = Inr (res, en')" and b: "m_valid_from (ma_memory res) = 20" by (auto split: sum.splits)
  have "ms_inv (en_store demo_engine1)" "tk_id (demo_tick 2) \<notin> store_ids (en_store demo_engine1)"
    "cg_max_memories_per_scope demo_cfg = 0" by code_simp+
  moreover have "the (ms_get 1 (en_store demo_engine1)) \<in> mems (en_store demo_engine1)" by code_simp
  ultimately show ?thesis using memory_add_nothing_lost [OF _ _ _ add] add b by metis
qed

subsection \<open>The past stays answerable\<close>

text \<open>An active memory has no validity end.\<close>

definition active_open :: "memory_store \<Rightarrow> bool" where
  "active_open st \<longleftrightarrow> (\<forall>m \<in> mems st. m_state m = Active \<longrightarrow> m_valid_to m = None)"

lemma evolves_valid_at:
  "evolves b m m' \<Longrightarrow> (m_state m = Active \<longrightarrow> m_valid_to m = None) \<Longrightarrow> t < b \<Longrightarrow> valid_at t m' = valid_at t m"
  by (auto simp: evolves_def valid_at_def)

text \<open>
  What a point-in-time answer says: the whole memory but its bookkeeping (importance, version and update
  time) and but the marks that a later supersession leaves on it (state and validity end).
\<close>

definition answer :: "memory \<Rightarrow> memory" where
  "answer m = m\<lparr>m_importance := 0, m_version := 0, m_updated_at := 0, m_state := Active, m_valid_to := None\<rparr>"

lemma answer_evolved: "evolves b m m' \<Longrightarrow> answer m' = answer m"
  by (cases m; cases m') (simp add: answer_def evolves_def)

lemma as_of_answer:
  "map_option answer (as_of sc s t st) =
    (case map answer (order_by_desc m_valid_from
        (ms_select (\<lambda>m. scope_where sc m \<and> m_subject m = Some s \<and> valid_at t m) st)) of
      [] \<Rightarrow> None | a # _ \<Rightarrow> Some a)"
  by (auto simp: as_of_def take_Suc split: list.split)

text \<open>
  A table whose rows evolved in place, with rows appended that are not yet valid at \<open>t\<close>, gives the
  same answer about \<open>t\<close>.
\<close>

lemma as_of_evolved:
  assumes "st_memories st' = map g (st_memories st) @ news"
    and ev: "\<And>r. r \<in> set (st_memories st) \<Longrightarrow> evolves b (mr_memory r) (mr_memory (g r))"
    and op: "active_open st" and "t < b"
    and "\<And>r. r \<in> set news \<Longrightarrow> \<not> valid_at t (mr_memory r)"
  shows "map_option answer (as_of sc s t st') = map_option answer (as_of sc s t st)"
proof -
  let ?P = "\<lambda>m. scope_where sc m \<and> m_subject m = Some s \<and> valid_at t m"
  let ?h = "\<lambda>r. mr_memory (g r)"
  have P: "?P (?h r) = ?P (mr_memory r)" and a: "answer (?h r) = answer (mr_memory r)"
    and f: "m_valid_from (?h r) = m_valid_from (mr_memory r)" if "r \<in> set (st_memories st)" for r
  proof -
    have "m_state (mr_memory r) = Active \<longrightarrow> m_valid_to (mr_memory r) = None"
      using op that by (simp add: active_open_def mems_def)
    then have "valid_at t (?h r) = valid_at t (mr_memory r)"
      using evolves_valid_at [OF ev [OF that] _ assms(4)] by blast
    then show "?P (?h r) = ?P (mr_memory r)" "answer (?h r) = answer (mr_memory r)"
      "m_valid_from (?h r) = m_valid_from (mr_memory r)"
      using ev [OF that] by (auto simp: evolves_def scope_where_def answer_evolved)
  qed
  let ?K = "filter (\<lambda>r. ?P (mr_memory r)) (st_memories st)"
  have "ms_select ?P st' = map ?h (filter (\<lambda>r. ?P (?h r)) (st_memories st))"
    using assms(5) by (simp add: ms_select_def assms(1) filter_map comp_def filter_empty_conv)
  also have "filter (\<lambda>r. ?P (?h r)) (st_memories st) = ?K" using P by (rule filter_cong [OF refl])
  finally have new: "ms_select ?P st' = map ?h ?K" .
  have old: "ms_select ?P st = map mr_memory ?K" by (simp add: ms_select_def filter_map comp_def)
  have "map answer (order_by_desc m_valid_from (map ?h ?K)) =
      map answer (order_by_desc m_valid_from (map mr_memory ?K))"
    using sort_key_map [of ?K "\<lambda>m. - m_valid_from m" ?h "\<lambda>r. - m_valid_from (mr_memory r)"]
      sort_key_map [of ?K "\<lambda>m. - m_valid_from m" mr_memory "\<lambda>r. - m_valid_from (mr_memory r)"] f a
    by (simp add: order_by_desc_def)
  then show ?thesis unfolding as_of_answer new old by simp
qed

text \<open>C3: the past stays answerable. Without a quota, in a store whose active memories are open-ended and
  which does not yet have the new identifier, a write leaves the answer to every question about an
  instant before the one its memory becomes valid at as it was, for every scope and subject: the same
  memory with the same scope, subject, project, text, kind, metadata, provenance, predecessor and
  validity start. A quota deletes rows, and with them past answers.\<close>

theorem memory_add_past_unchanged:
  assumes "ms_inv (en_store en)" and "tk_id tk \<notin> store_ids (en_store en)"
    and "active_open (en_store en)" and "cg_max_memories_per_scope cfg = 0"
    and "memory_add P cfg tk input en = Inr (res, en')" and "t < m_valid_from (ma_memory res)"
  shows "map_option answer (memory_as_of sc subj t en') = map_option answer (memory_as_of sc subj t en)"
proof -
  from assms(5) obtain rows where
    plan: "memory_plan_with_embedding P cfg tk input (pt_embed P (i_content input)) en = Inr (res, rows)"
    and en': "en' = fold (apply_row P cfg) rows en"
    using assms(4) by (elim memory_addE) (simp add: enforce_cap_def)
  from plan_shape [OF plan assms(1,2)] obtain g news where
    sh: "st_memories (en_store en') = map g (st_memories (en_store en)) @ news"
    and ev: "\<And>r. r \<in> set (st_memories (en_store en)) \<Longrightarrow>
      evolves (m_valid_from (ma_memory res)) (mr_memory r) (mr_memory (g r))"
    and nw: "news = [] \<or> (\<exists>e. news = [\<lparr>mr_memory = ma_memory res, mr_embedding = e\<rparr>])"
    unfolding en' by metis
  show ?thesis unfolding memory_as_of_def
    by (rule as_of_evolved [OF sh ev assms(3,6)]) (use nw assms(6) in \<open>auto simp: valid_at_def\<close>)
qed

theorem memory_add_past_unchanged_witness:
  "\<exists>res en'. memory_add demo_ports demo_cfg (demo_tick 2) (demo_input ''plan'' ''pro'') demo_engine1 =
      Inr (res, en') \<and>
    map_option (\<lambda>m. (m_id m, m_content m)) (map_option answer (memory_as_of (tenant_scope ''acme'') ''Plan'' 15 en')) = Some (1, ''free'')"
proof -
  have "case memory_add demo_ports demo_cfg (demo_tick 2) (demo_input ''plan'' ''pro'') demo_engine1 of
      Inl _ \<Rightarrow> False | Inr (res, _) \<Rightarrow> 15 < m_valid_from (ma_memory res)" by code_simp
  then obtain res en' where add: "memory_add demo_ports demo_cfg (demo_tick 2) (demo_input ''plan'' ''pro'')
      demo_engine1 = Inr (res, en')" and b: "15 < m_valid_from (ma_memory res)" by (auto split: sum.splits)
  have "ms_inv (en_store demo_engine1)" "tk_id (demo_tick 2) \<notin> store_ids (en_store demo_engine1)"
    "active_open (en_store demo_engine1)" "cg_max_memories_per_scope demo_cfg = 0" by code_simp+
  from memory_add_past_unchanged [OF this add b] have
    "map_option answer (memory_as_of (tenant_scope ''acme'') ''Plan'' 15 en') =
      map_option answer (memory_as_of (tenant_scope ''acme'') ''Plan'' 15 demo_engine1)" .
  moreover have "map_option (\<lambda>m. (m_id m, m_content m)) (map_option answer (memory_as_of (tenant_scope ''acme'') ''Plan'' 15 demo_engine1)) =
      Some (1, ''free'')" by code_simp
  ultimately show ?thesis using add by (intro exI [of _ res] exI [of _ en'] conjI) simp_all
qed

end
