(* ===== verification/Memory_Batch.thy ===== *)
theory Memory_Batch
  imports Memory_Timeline
begin

text \<open>
  The bulk write path: \<open>memory_add_batch\<close> buffers the planned rows and applies them in groups,
  flushing only before an input whose subject the buffer already wrote. Here it is compared with
  adding the inputs one at a time.
\<close>

subsection \<open>Two engines that answer alike\<close>

text \<open>
  The full-text tables of two engines may number their rows differently; what counts is the entry
  each identifier has.
\<close>

definition same_engine :: "engine \<Rightarrow> engine \<Rightarrow> bool" where
  "same_engine a b \<longleftrightarrow> en_store a = en_store b \<and> en_vec a = en_vec b \<and> en_changes a = en_changes b \<and>
    lx_inv (en_lex a) \<and> lx_inv (en_lex b) \<and> lx_entry (en_lex a) = lx_entry (en_lex b)"

definition lx_row_entry :: "memory_row \<Rightarrow> (uuid \<times> string \<times> string option \<times> string \<times> string) option" where
  "lx_row_entry r =
    (let m = mr_memory r in
     if m_state m = Active
     then Some (m_id m, scope_partition_key (m_scope m), m_project m, opt_str (m_subject m), m_content m)
     else None)"

lemma lx_inv_index_row: "lx_inv ix \<Longrightarrow> lx_inv (lxa.index_row r ix)"
  by (simp add: lxa.index_row_def lxa.inv_index lxa.inv_forget)

lemma lx_entry_index_row:
  "lx_inv ix \<Longrightarrow> lx_entry (lxa.index_row r ix) = (lx_entry ix)(row_id r := lx_row_entry r)"
  by (rule ext) (simp add: lxa.index_row_def lx_index_row_def lx_row_entry_def lx_entry_upsert lx_entry_remove Let_def)

lemma find_row_None: "k \<notin> row_id ` set rows \<Longrightarrow> find (\<lambda>r. row_id r = k) rows = None"
  by (induction rows) auto

lemma lx_fold_index_rows:
  assumes "lx_inv ix" and "distinct (map row_id rows)"
  shows "lx_inv (fold lxa.index_row rows ix) \<and> lx_entry (fold lxa.index_row rows ix) k =
    (case find (\<lambda>r. row_id r = k) rows of None \<Rightarrow> lx_entry ix k | Some r \<Rightarrow> lx_row_entry r)"
  using assms
proof (induction rows arbitrary: ix)
  case (Cons r rows)
  note IH = Cons.IH [of "lxa.index_row r ix"]
  have "find (\<lambda>x. row_id x = k) rows = None" if "row_id r = k"
    using Cons.prems(2) that by (intro find_row_None) auto
  then show ?case using IH Cons.prems
    by (auto simp: lx_inv_index_row lx_entry_index_row split: option.split)
qed simp

lemma change_of_publish:
  "en_changes (publish_memory_change m en) = en_changes en @ en_changes (publish_memory_change m demo_engine)"
  by (simp add: publish_memory_change_def demo_engine_def)

lemma apply_row_changes:
  "en_changes (apply_row P cfg r en) = en_changes en @ en_changes (publish_memory_change (mr_memory r) demo_engine)"
  by (simp add: apply_row_def Let_def publish_memory_change_def demo_engine_def forget_indexes_def
      split: memory_state.split option.split)

lemma batch_index_row_frame:
  "en_store (batch_index_row r en) = en_store en"
  "en_vec (batch_index_row r en) = sva.index_row r (en_vec en)"
  "en_lex (batch_index_row r en) = (if m_state (mr_memory r) = Active then en_lex en else lx_remove (row_id r) (en_lex en))"
  "en_changes (batch_index_row r en) = en_changes en @ en_changes (publish_memory_change (mr_memory r) demo_engine)"
  by (simp_all add: batch_index_row_def Let_def publish_memory_change_def demo_engine_def sva.index_row_def
      sv_index_row_def split: memory_state.split option.split)

lemma fold_batch_index:
  "en_store (fold batch_index_row rows en) = en_store en"
  "en_vec (fold batch_index_row rows en) = fold sva.index_row rows (en_vec en)"
  "en_changes (fold batch_index_row rows en) =
    en_changes en @ concat (map (\<lambda>r. en_changes (publish_memory_change (mr_memory r) demo_engine)) rows)"
  "en_lex (fold batch_index_row rows en) =
    fold lx_remove (map row_id (filter (\<lambda>r. m_state (mr_memory r) \<noteq> Active) rows)) (en_lex en)"
  by (induction rows arbitrary: en) (simp_all add: batch_index_row_frame)

lemma fold_apply_parts:
  "en_vec (fold (apply_row P cfg) rows en) = fold sva.index_row rows (en_vec en)"
  "en_lex (fold (apply_row P cfg) rows en) = fold lxa.index_row rows (en_lex en)"
  "en_changes (fold (apply_row P cfg) rows en) =
    en_changes en @ concat (map (\<lambda>r. en_changes (publish_memory_change (mr_memory r) demo_engine)) rows)"
  by (induction rows arbitrary: en) (simp_all add: apply_row_vec apply_row_lex apply_row_changes)

lemma fold_apply_no_graph:
  "\<not> cg_auto_graph cfg \<Longrightarrow> en_store (fold (apply_row P cfg) rows en) = fold ms_put_row rows (en_store en)"
  by (induction rows arbitrary: en) (simp_all add: apply_row_store apply_auto_graph_def)

text \<open>Removing the retired rows first and adding the active ones after gives the entries of the
  row-by-row order, when no row occurs twice.\<close>

lemma lx_fold_remove:
  assumes "lx_inv ix"
  shows "lx_inv (fold lx_remove us ix) \<and>
    lx_entry (fold lx_remove us ix) k = (if k \<in> set us then None else lx_entry ix k)"
  using assms by (induction us arbitrary: ix) (auto simp: lx_inv_remove lx_entry_remove)

lemma lx_fold_upserts:
  assumes "\<forall>r \<in> set rows. m_state (mr_memory r) = Active"
  shows "lx_upsert_batch (map (\<lambda>r. lexical_entry_of (mr_memory r)) rows) ix = fold lxa.index_row rows ix"
  using assms by (auto simp: lx_upsert_batch_def lexical_entry_of_def lxa.index_row_def lx_index_row_def
      fold_map comp_def Let_def intro!: fold_cong)

lemma find_active_part:
  "distinct (map row_id rows) \<Longrightarrow> find (\<lambda>r. row_id r = k) rows = Some r \<Longrightarrow>
    find (\<lambda>r. row_id r = k) (filter Q rows) = (if Q r then Some r else None)"
proof (induction rows)
  case (Cons x xs)
  show ?case
  proof (cases "row_id x = k")
    case True
    then have "find (\<lambda>r. row_id r = k) (filter Q xs) = None"
      using Cons.prems(1) by (intro find_row_None) auto
    then show ?thesis using Cons.prems True by auto
  next
    case False
    then show ?thesis using Cons by auto
  qed
qed simp

lemma apply_rows_batch_same:
  assumes "ms_inv (en_store en)" and "lx_inv (en_lex en)" and "distinct (map row_id rows)"
    and "\<not> cg_auto_graph cfg"
  shows "\<exists>en'. memory_apply_rows_batch rows en = Inr (length rows, en') \<and>
    same_engine en' (fold (apply_row P cfg) rows en)"
proof -
  let ?act = "\<lambda>r. m_state (mr_memory r) = Active"
  let ?A = "filter ?act rows" and ?R = "map row_id (filter (\<lambda>r. \<not> ?act r) rows)"
  have up: "upsert_raw_batch rows (en_store en) = Inr (fold ms_put_row rows (en_store en))"
    using upsert_raw_batch_eq [OF assms(1)] distinct_map_filter [OF assms(3)] by simp
  define ix where "ix = fold lx_remove ?R (en_lex en)"
  have ix: "lx_inv ix" "lx_entry ix k = (if k \<in> set ?R then None else lx_entry (en_lex en) k)" for k
    using lx_fold_remove [OF assms(2)] by (simp_all only: ix_def)
  have dA: "distinct (map row_id ?A)" using assms(3) by (rule distinct_map_filter)
  have lex: "lx_upsert_batch (map (\<lambda>r. lexical_entry_of (mr_memory r)) ?A) ix = fold lxa.index_row ?A ix"
    by (rule lx_fold_upserts) simp
  have entry: "lx_entry (fold lxa.index_row ?A ix) k = lx_entry (fold lxa.index_row rows (en_lex en)) k" for k
  proof (cases "find (\<lambda>r. row_id r = k) rows")
    case None
    then have "find (\<lambda>r. row_id r = k) ?A = None" "k \<notin> set ?R" by (auto simp: find_None_iff)
    then show ?thesis using None ix lx_fold_index_rows [OF ix(1) dA, of k]
        lx_fold_index_rows [OF assms(2,3), of k] by simp
  next
    case (Some r)
    then have r: "r \<in> set rows" "row_id r = k" by (auto simp: find_Some_iff)
    have "k \<in> set ?R" if "\<not> ?act r" using r that by force
    then show ?thesis using Some find_active_part [OF assms(3) Some, of ?act] ix
        lx_fold_index_rows [OF ix(1) dA, of k] lx_fold_index_rows [OF assms(2,3), of k]
      by (simp add: lx_row_entry_def Let_def)
  qed
  show ?thesis
  proof (cases "rows = []")
    case True
    then show ?thesis using assms(2) by (simp add: memory_apply_rows_batch_def same_engine_def)
  next
    case False
    define en1 where "en1 = fold batch_index_row rows (en\<lparr>en_store := fold ms_put_row rows (en_store en)\<rparr>)"
    let ?en' = "en1\<lparr>en_lex := lx_upsert_batch (map (\<lambda>r. lexical_entry_of (mr_memory r)) ?A) (en_lex en1)\<rparr>"
    have "memory_apply_rows_batch rows en = Inr (length rows, ?en')"
      using False up by (simp add: memory_apply_rows_batch_def en1_def Let_def)
    moreover have "en_lex en1 = ix" by (simp add: en1_def fold_batch_index ix_def)
    then have "same_engine ?en' (fold (apply_row P cfg) rows en)"
      using entry lex lx_fold_index_rows [OF ix(1) dA] lx_fold_index_rows [OF assms(2,3)]
      by (auto simp: same_engine_def en1_def fold_batch_index fold_apply_parts
          fold_apply_no_graph [OF assms(4)])
    ultimately show ?thesis by blast
  qed
qed

subsection \<open>Planning ahead of the buffer\<close>

lemma select_put_other:
  assumes "tbl_inv row_id (st_memories st)" and "\<not> Q (mr_memory r)"
    and "\<And>x. x \<in> set (st_memories st) \<Longrightarrow> row_id x = row_id r \<Longrightarrow> \<not> Q (mr_memory x)"
  shows "ms_select Q (ms_put_row r st) = ms_select Q st"
proof -
  have "filter Q (map mr_memory (tbl_put row_id r xs)) = filter Q (map mr_memory xs)"
    if "\<And>x. x \<in> set xs \<Longrightarrow> row_id x = row_id r \<Longrightarrow> \<not> Q (mr_memory x)" for xs
    using that assms(2) by (induction xs) auto
  then show ?thesis using assms(3) by (simp add: ms_select_def st_memories_put_row)
qed

text \<open>Rows about other keys leave the active memories of a key as they were.\<close>

lemma select_fold_put_other:
  assumes "ms_inv st" and "distinct (map row_id rows)"
    and "\<And>r. r \<in> set rows \<Longrightarrow> \<not> Q (mr_memory r)"
    and "\<And>r x. r \<in> set rows \<Longrightarrow> x \<in> set (st_memories st) \<Longrightarrow> row_id x = row_id r \<Longrightarrow> \<not> Q (mr_memory x)"
  shows "ms_select Q (fold ms_put_row rows st) = ms_select Q st"
  using assms
proof (induction rows arbitrary: st)
  case (Cons r rows)
  have "ms_select Q (fold ms_put_row rows (ms_put_row r st)) = ms_select Q (ms_put_row r st)"
  proof (rule Cons.IH)
    fix a x assume "a \<in> set rows" "x \<in> set (st_memories (ms_put_row r st))" "row_id x = row_id a"
    moreover have "row_id r \<notin> row_id ` set rows" using Cons.prems(2) by simp
    then have "row_id a \<noteq> row_id r" using imageI [OF \<open>a \<in> set rows\<close>, of row_id] by metis
    ultimately show "\<not> Q (mr_memory x)"
      using Cons.prems(1,4) by (auto simp: st_memories_put_row set_tbl_put ms_inv_rows)
  qed (use Cons.prems in auto)
  also have "\<dots> = ms_select Q st"
    using Cons.prems by (intro select_put_other) (auto simp: ms_inv_rows)
  finally show ?case by simp
qed simp

text \<open>The key of a memory: the pair under which the buffer remembers its subject.\<close>

definition mem_key :: "memory \<Rightarrow> (string \<times> string) option" where
  "mem_key m = map_option (Pair (scope_partition_key (m_scope m))) (m_subject m)"

text \<open>
  What the loop keeps of its buffer: the rows name distinct memories; the key of each row is
  remembered; and a buffered row that rewrites a stored memory keeps its scope and subject.
\<close>

definition buffered :: "batch_state \<Rightarrow> bool" where
  "buffered b \<longleftrightarrow> ms_inv (en_store (b_engine b)) \<and> lx_inv (en_lex (b_engine b)) \<and>
    distinct (map row_id (b_pending b)) \<and>
    (\<forall>r \<in> set (b_pending b). \<forall>k. mem_key (mr_memory r) = Some k \<longrightarrow> k \<in> b_subjects b) \<and>
    (\<forall>r \<in> set (b_pending b). \<forall>x \<in> set (st_memories (en_store (b_engine b))). row_id x = row_id r \<longrightarrow>
       mem_key (mr_memory x) = mem_key (mr_memory r) \<and> m_subject (mr_memory x) \<noteq> None)"

lemma find_active_buffered:
  assumes "buffered b" and "(scope_partition_key sc, s) \<notin> b_subjects b" and "norm_scope sc = sc"
  shows "find_active_by_subject sc s p (fold ms_put_row (b_pending b) (en_store (b_engine b))) =
    find_active_by_subject sc s p (en_store (b_engine b))"
proof -
  let ?Q = "\<lambda>m. scope_where sc m \<and> m_subject m = Some s \<and> m_project m = p \<and> m_state m = Active"
  have key: "mem_key m = Some (scope_partition_key sc, s)" if "?Q m" for m
    using that assms(3) by (simp add: mem_key_def scope_where_iff)
  have no: "\<not> ?Q (mr_memory r)" if "r \<in> set (b_pending b)" for r
    using key assms(1,2) that unfolding buffered_def by metis
  have "\<not> ?Q (mr_memory x)" if "r \<in> set (b_pending b)" "x \<in> set (st_memories (en_store (b_engine b)))"
    "row_id x = row_id r" for r x
  proof
    assume "?Q (mr_memory x)"
    then have "mem_key (mr_memory r) = Some (scope_partition_key sc, s)"
      using key assms(1) that unfolding buffered_def by metis
    then show False using assms(1,2) that(1) unfolding buffered_def by metis
  qed
  then have "ms_select ?Q (fold ms_put_row (b_pending b) (en_store (b_engine b))) = ms_select ?Q (en_store (b_engine b))"
    using no assms(1) by (intro select_fold_put_other) (auto simp: buffered_def)
  then show ?thesis by (simp add: find_active_by_subject_def)
qed

lemma ms_row_fold_put_other:
  assumes "u \<notin> row_id ` set rows"
  shows "ms_row (fold ms_put_row rows st) u = ms_row st u"
  using assms by (induction rows arbitrary: st) (auto simp: ms_put_row_def ms_row_upsert)

text \<open>What a plan without an embedding reads of the engine.\<close>

lemma plan_depends:
  assumes "\<And>s. i_subject (canonical_input input) = Some s \<Longrightarrow>
      find_active_by_subject (i_scope (canonical_input input)) s (i_project (canonical_input input)) (en_store a) =
      find_active_by_subject (i_scope (canonical_input input)) s (i_project (canonical_input input)) (en_store b)"
    and "\<And>s m. i_subject (canonical_input input) = Some s \<Longrightarrow>
      m \<in> set (find_active_by_subject (i_scope (canonical_input input)) s (i_project (canonical_input input)) (en_store b)) \<Longrightarrow>
      get_embedding (m_id m) (en_store a) = get_embedding (m_id m) (en_store b)"
  shows "memory_plan_with_embedding P cfg tk input None a = memory_plan_with_embedding P cfg tk input None b"
proof (cases "i_subject (canonical_input input)")
  case None
  then show ?thesis by (simp add: memory_plan_with_embedding_def)
next
  case (Some s)
  note eq = assms(1) [OF Some] assms(2) [OF Some]
  show ?thesis
  proof (cases "find_active_by_subject (i_scope (canonical_input input)) s (i_project (canonical_input input)) (en_store b)")
    case Nil
    then show ?thesis using Some eq(1) by (simp add: memory_plan_with_embedding_def)
  next
    case (Cons x xs)
    then have "plan_confirmed tk i x None a = plan_confirmed tk i x None b" for i
      using eq(2) [of x] by (simp add: plan_confirmed_def)
    then show ?thesis using Some eq(1) Cons by (simp add: memory_plan_with_embedding_def Let_def)
  qed
qed

lemma get_embedding_row: "get_embedding u st = (case ms_row st u of
    None \<Rightarrow> None | Some r \<Rightarrow> (case mr_embedding r of None \<Rightarrow> None | Some e \<Rightarrow> if e = [] then None else Some e))"
  by (simp add: get_embedding_def ms_row_def)

lemma buffered_active_id:
  assumes "buffered b" and "m \<in> mems (en_store (b_engine b))" and "mem_key m = Some k" and "k \<notin> b_subjects b"
  shows "m_id m \<notin> row_id ` set (b_pending b)"
proof
  assume "m_id m \<in> row_id ` set (b_pending b)"
  then obtain r where r: "r \<in> set (b_pending b)" "m_id m = row_id r" by blast
  obtain x where "x \<in> set (st_memories (en_store (b_engine b)))" "m = mr_memory x"
    using assms(2) by (auto simp: mems_def)
  then have "mem_key (mr_memory r) = Some k" using assms(1,3) r unfolding buffered_def by metis
  then show False using assms(1,4) r(1) unfolding buffered_def by blast
qed

lemma in_active_key:
  "m \<in> set (find_active_by_subject (i_scope (canonical_input i)) s p st) \<Longrightarrow>
    m \<in> mems st \<and> mem_key m = Some (scope_partition_key (i_scope (canonical_input i)), s)"
  by (simp add: in_find_active mem_key_def)

lemma plan_buffered:
  assumes "buffered b"
    and "\<And>s. i_subject (canonical_input input) = Some s \<Longrightarrow>
      (scope_partition_key (i_scope (canonical_input input)), s) \<notin> b_subjects b"
    and "en_store en = fold ms_put_row (b_pending b) (en_store (b_engine b))"
  shows "memory_plan_with_embedding P cfg tk input None en =
    memory_plan_with_embedding P cfg tk input None (b_engine b)"
proof (rule plan_depends)
  fix s assume s: "i_subject (canonical_input input) = Some s"
  show "find_active_by_subject (i_scope (canonical_input input)) s (i_project (canonical_input input)) (en_store en) =
      find_active_by_subject (i_scope (canonical_input input)) s (i_project (canonical_input input)) (en_store (b_engine b))"
    unfolding assms(3) using assms(1) assms(2) [OF s] norm_canonical by (rule find_active_buffered)
  fix m assume "m \<in> set (find_active_by_subject (i_scope (canonical_input input)) s
      (i_project (canonical_input input)) (en_store (b_engine b)))"
  then have "m_id m \<notin> row_id ` set (b_pending b)"
    using buffered_active_id [OF assms(1) _ _ assms(2) [OF s]] in_active_key by blast
  then show "get_embedding (m_id m) (en_store en) = get_embedding (m_id m) (en_store (b_engine b))"
    unfolding get_embedding_row assms(3) by (simp add: ms_row_fold_put_other)
qed

subsection \<open>The loop\<close>

fun add_each ::
  "ports \<Rightarrow> cognition_config \<Rightarrow> (tick \<times> memory_input) list \<Rightarrow> engine \<Rightarrow> error + memory_add_result list \<times> engine" where
  "add_each P cfg [] en = Inr ([], en)"
| "add_each P cfg ((tk, i) # xs) en =
     res_bind (memory_add P cfg tk i en)
       (\<lambda>(r, en1). res_bind (add_each P cfg xs en1) (\<lambda>(rs, en2). Inr (r # rs, en2)))"

lemma same_engine_apply_row: "same_engine a b \<Longrightarrow> same_engine (apply_row P cfg r a) (apply_row P cfg r b)"
  by (simp add: same_engine_def apply_row_store apply_row_vec apply_row_lex apply_row_changes
      lx_inv_index_row lx_entry_index_row)

lemma same_engine_apply: "same_engine a b \<Longrightarrow>
    same_engine (fold (apply_row P cfg) rows a) (fold (apply_row P cfg) rows b)"
  by (induction rows arbitrary: a b) (simp_all add: same_engine_apply_row)

lemma same_engine_trans: "same_engine a b \<Longrightarrow> same_engine c b \<Longrightarrow> same_engine a c"
  by (simp add: same_engine_def)

lemma batch_key_canonical:
  "i_subject (canonical_input i) = Some s \<Longrightarrow> batch_key i = Some (scope_partition_key (i_scope (canonical_input i)), s)"
  by (auto simp: canonical_input_def batch_key_def Let_def split: option.splits if_splits)

lemma plan_keyed_rows:
  assumes "memory_plan_with_embedding P cfg tk input emb en = Inr (res, rows)"
    and "emb = None \<or> i_subject (canonical_input input) \<noteq> None" and "r \<in> set rows"
  shows "m_scope (mr_memory r) = i_scope (canonical_input input)"
    and "m_subject (mr_memory r) = i_subject (canonical_input input)"
    and "row_id r = tk_id tk \<or> (\<exists>s m. i_subject (canonical_input input) = Some s \<and> m_id m = row_id r \<and>
      m \<in> set (find_active_by_subject (i_scope (canonical_input input)) s (i_project (canonical_input input)) (en_store en)))"
proof -
  let ?i = "canonical_input input"
  let ?ok = "\<lambda>r. m_scope (mr_memory r) = i_scope ?i \<and> m_subject (mr_memory r) = i_subject ?i \<and>
    (row_id r = tk_id tk \<or> (\<exists>s m. i_subject ?i = Some s \<and> m_id m = row_id r \<and>
      m \<in> set (find_active_by_subject (i_scope ?i) s (i_project ?i) (en_store en))))"
  have "?ok r" using assms(1) refl refl
  proof (cases rule: plan_cases)
    case inserted
    from inserted(1) show ?thesis using assms(3) by (elim plan_inserted_rows) auto
  next
    case (confirmed s existing rest)
    have "existing \<in> set (find_active_by_subject (i_scope ?i) s (i_project ?i) (en_store en))"
      using confirmed(2) by simp
    with confirmed(1,4) show ?thesis using assms(3) in_find_active [of existing "i_scope ?i" s "i_project ?i"]
      by (elim plan_confirmed_rows) auto
  next
    case (conflict s existing rest)
    then show ?thesis using assms(3) by (elim plan_conflict_rows) auto
  next
    case (superseded s existing rest)
    have mem: "m_scope m = i_scope ?i \<and> m_subject m = Some s" if "m \<in> set (existing # rest)" for m
      using that unfolding superseded(3) [symmetric] in_find_active by simp
    from superseded(5) obtain new where
      rows: "rows = map (superseded_row (m_valid_from new) (tk_recorded_at tk)) (existing # rest) @
        [\<lparr>mr_memory = new, mr_embedding = emb\<rparr>]"
      and new: "m_id new = tk_id tk" "m_scope new = i_scope ?i" "m_subject new = Some s"
      by (rule plan_superseded_rows) metis
    show ?thesis
    proof (cases "mr_memory r = new")
      case True then show ?thesis using new superseded(1) by simp
    next
      case False
      then obtain m where m: "m \<in> set (existing # rest)"
        "r = superseded_row (m_valid_from new) (tk_recorded_at tk) m" using assms(3) rows by auto
      from m(1) have "m \<in> set (find_active_by_subject (i_scope ?i) s (i_project ?i) (en_store en))"
        unfolding superseded(3) .
      then show ?thesis using m(2) mem [OF m(1)] superseded(1) by auto
    qed
  next
    case merged
    then show ?thesis using assms(2) by simp
  qed
  then show "m_scope (mr_memory r) = i_scope ?i" "m_subject (mr_memory r) = i_subject ?i"
    "row_id r = tk_id tk \<or> (\<exists>s m. i_subject ?i = Some s \<and> m_id m = row_id r \<and>
      m \<in> set (find_active_by_subject (i_scope ?i) s (i_project ?i) (en_store en)))" by blast+
qed

definition known_ids :: "batch_state \<Rightarrow> uuid set" where
  "known_ids b = store_ids (en_store (b_engine b)) \<union> row_id ` set (b_pending b)"

lemma store_ids_fold_put: "store_ids (fold ms_put_row rows st) = store_ids st \<union> row_id ` set rows"
  by (simp add: store_ids_def fold_put_row keys_fold_put)

definition keeps_up :: "ports \<Rightarrow> cognition_config \<Rightarrow> batch_state \<Rightarrow> engine \<Rightarrow> bool" where
  "keeps_up P cfg b en \<longleftrightarrow> buffered b \<and> same_engine en (fold (apply_row P cfg) (b_pending b) (b_engine b))"

lemma batch_flush_keeps_up:
  assumes "keeps_up P cfg b en" and "\<not> cg_auto_graph cfg"
  shows "\<exists>b1. batch_flush key b = Inr b1 \<and> keeps_up P cfg b1 en \<and> b_adds b1 = b_adds b \<and>
    known_ids b1 = known_ids b \<and> (\<forall>k. key = Some k \<longrightarrow> k \<notin> b_subjects b1)"
proof (cases "\<exists>k. key = Some k \<and> k \<in> b_subjects b")
  case True
  let ?seq = "fold (apply_row P cfg) (b_pending b) (b_engine b)"
  have B: "ms_inv (en_store (b_engine b))" "lx_inv (en_lex (b_engine b))" "distinct (map row_id (b_pending b))"
    using assms(1) by (auto simp: keeps_up_def buffered_def)
  obtain en' where en': "memory_apply_rows_batch (b_pending b) (b_engine b) = Inr (length (b_pending b), en')"
    "same_engine en' ?seq" using apply_rows_batch_same [OF B assms(2)] by blast
  let ?b1 = "b\<lparr>b_pending := [], b_subjects := {}, b_engine := en'\<rparr>"
  have flush: "batch_flush key b = Inr ?b1" using True en'(1) by (auto simp: batch_flush_def)
  have inv: "ms_inv (en_store en')" "lx_inv (en_lex en')"
    using en'(2) ms_inv_fold_apply [OF B(1)] by (simp_all add: same_engine_def)
  have "same_engine en en'" using assms(1) en'(2) by (auto simp: keeps_up_def intro: same_engine_trans)
  then have "keeps_up P cfg ?b1 en" using inv by (simp add: keeps_up_def buffered_def)
  moreover have "known_ids ?b1 = known_ids b"
    using en'(2) by (simp add: known_ids_def same_engine_def fold_apply_no_graph [OF assms(2)] store_ids_fold_put)
  ultimately show ?thesis using flush by auto
next
  case False
  then have "batch_flush key b = Inr b" by (auto simp: batch_flush_def split: option.split)
  then show ?thesis using False assms(1) by auto
qed

lemma image_disjoint: "(\<And>r. r \<in> set A \<Longrightarrow> f r \<notin> f ` set B) \<Longrightarrow> f ` set A \<inter> f ` set B = {}"
  by blast

lemma disjoint_insert_sub: "t \<notin> A \<Longrightarrow> A \<inter> K = {} \<Longrightarrow> K' \<subseteq> insert t K \<Longrightarrow> A \<inter> K' = {}"
  by blast

lemma buffered_planned:
  assumes b: "buffered b" and fresh: "tk_id tk \<notin> known_ids b"
    and plan: "memory_plan_with_embedding P cfg tk input emb (b_engine b) = Inr (res, rows)"
    and emb: "emb = None \<or> i_subject (canonical_input input) \<noteq> None"
    and key: "\<forall>k. batch_key input = Some k \<longrightarrow> k \<notin> b_subjects b"
  shows "buffered (b\<lparr>b_subjects := (case batch_key input of Some k \<Rightarrow> insert k (b_subjects b) | None \<Rightarrow> b_subjects b),
    b_adds := b_adds b @ [res], b_pending := b_pending b @ rows\<rparr>)"
proof -
  let ?i = "canonical_input input"
  have inv: "ms_inv (en_store (b_engine b))" using b by (simp add: buffered_def)
  have new: "tk_id tk \<notin> store_ids (en_store (b_engine b))" using fresh by (simp add: known_ids_def)
  note pr = plan_rows(1) [OF plan inv new] plan_keyed_rows [OF plan emb]
  have kr: "mem_key (mr_memory r) = batch_key input \<and> m_subject (mr_memory r) = i_subject ?i"
    if "r \<in> set rows" "mem_key (mr_memory r) \<noteq> None" for r
    using that pr(2,3) [OF that(1)] batch_key_canonical [of input]
    by (cases "i_subject ?i") (auto simp: mem_key_def)
  have old: "row_id r \<notin> row_id ` set (b_pending b)" if r: "r \<in> set rows" for r
    using pr(4) [OF r]
  proof
    assume "row_id r = tk_id tk" then show ?thesis using fresh by (simp add: known_ids_def)
  next
    assume "\<exists>s m. i_subject ?i = Some s \<and> m_id m = row_id r \<and>
      m \<in> set (find_active_by_subject (i_scope ?i) s (i_project ?i) (en_store (b_engine b)))"
    then show ?thesis using buffered_active_id [OF b] in_active_key key batch_key_canonical by metis
  qed
  have same: "mem_key (mr_memory x) = mem_key (mr_memory r) \<and> m_subject (mr_memory x) \<noteq> None"
    if r: "r \<in> set rows" and x: "x \<in> set (st_memories (en_store (b_engine b)))" "row_id x = row_id r" for r x
  proof -
    have "row_id r \<noteq> tk_id tk" using new x imageI [OF x(1), of row_id] by (auto simp: store_ids_def)
    then obtain s m where m: "i_subject ?i = Some s" "m_id m = row_id r"
      "m \<in> set (find_active_by_subject (i_scope ?i) s (i_project ?i) (en_store (b_engine b)))"
      using pr(4) [OF r] by blast
    have "mr_memory x \<in> mems (en_store (b_engine b))" using x(1) by (simp add: mems_def)
    then have "mr_memory x = m" using ms_inv_inj [OF inv] m x(2) in_active_key by metis
    then show ?thesis using m(1,3) pr(2,3) [OF r] by (simp add: in_find_active mem_key_def)
  qed
  have "set (map row_id (b_pending b)) \<inter> set (map row_id rows) = {}" using image_disjoint [of rows row_id "b_pending b"] old
    by (simp add: Int_commute)
  then have "distinct (map row_id (b_pending b @ rows))"
    using b pr(1) by (simp only: buffered_def map_append distinct_append)
  then show ?thesis using b kr same unfolding buffered_def by (fastforce split: option.split)
qed

lemma batch_step_keeps_up:
  assumes up: "keeps_up P cfg b en" and off: "\<not> cg_auto_graph cfg" "cg_max_memories_per_scope cfg = 0"
    and no: "pt_embed P = (\<lambda>_. None)" and fresh: "tk_id tk \<notin> known_ids b"
  shows "case memory_add P cfg tk input en of
      Inl e \<Rightarrow> batch_step P cfg (tk, input, None) b = Inl e
    | Inr (res, en') \<Rightarrow> \<exists>b'. batch_step P cfg (tk, input, None) b = Inr b' \<and> keeps_up P cfg b' en' \<and>
        b_adds b' = b_adds b @ [res] \<and> known_ids b' \<subseteq> insert (tk_id tk) (known_ids b)"
proof -
  obtain b1 where b1: "batch_flush (batch_key input) b = Inr b1" "keeps_up P cfg b1 en" "b_adds b1 = b_adds b"
    "known_ids b1 = known_ids b" "\<forall>k. batch_key input = Some k \<longrightarrow> k \<notin> b_subjects b1"
    using batch_flush_keeps_up [OF up off(1)] by blast
  have B: "buffered b1" "same_engine en (fold (apply_row P cfg) (b_pending b1) (b_engine b1))"
    using b1(2) by (auto simp: keeps_up_def)
  have plan: "memory_plan P cfg tk input en = memory_plan_with_embedding P cfg tk input None (b_engine b1)"
    unfolding memory_plan_def no
    by (rule plan_buffered [OF B(1)])
      (use b1(5) batch_key_canonical B(2) in \<open>auto simp: same_engine_def fold_apply_no_graph [OF off(1)]\<close>)
  show ?thesis
  proof (cases "memory_plan_with_embedding P cfg tk input None (b_engine b1)")
    case (Inl e)
    then show ?thesis using b1(1) plan by (simp add: memory_add_def batch_step_def)
  next
    case (Inr p)
    obtain res rows where p: "p = (res, rows)" by fastforce
    let ?en' = "fold (apply_row P cfg) rows en"
    define b' where "b' = b1\<lparr>b_subjects := (case batch_key input of Some k \<Rightarrow> insert k (b_subjects b1) | None \<Rightarrow> b_subjects b1),
      b_adds := b_adds b1 @ [res], b_pending := b_pending b1 @ rows\<rparr>"
    have add: "memory_add P cfg tk input en = Inr (res, ?en')"
      using plan Inr p off(2) by (simp add: memory_add_def memory_apply_rows_def enforce_cap_def)
    have stp: "batch_step P cfg (tk, input, None) b = Inr b'"
      using b1(1) Inr p by (simp add: batch_step_def b'_def Let_def)
    have plan': "memory_plan_with_embedding P cfg tk input None (b_engine b1) = Inr (res, rows)" using Inr p by simp
    have "buffered b'" unfolding b'_def
      using buffered_planned [OF B(1) _ plan' disjI1 [OF refl] b1(5)] fresh b1(4) by simp
    moreover have "same_engine ?en' (fold (apply_row P cfg) (b_pending b') (b_engine b'))"
      using same_engine_apply [OF B(2)] by (simp add: b'_def)
    moreover have "known_ids b' \<subseteq> insert (tk_id tk) (known_ids b)"
      using plan_rows(4) [OF plan'] B(1) fresh b1(4) by (auto simp: known_ids_def b'_def buffered_def)
    ultimately show ?thesis using add stp b1(3) by (simp add: keeps_up_def b'_def)
  qed
qed

lemma batch_loop_keeps_up:
  assumes "keeps_up P cfg b en" and off: "\<not> cg_auto_graph cfg" "cg_max_memories_per_scope cfg = 0"
    and no: "pt_embed P = (\<lambda>_. None)"
    and "distinct (map (tk_id \<circ> fst) xs)" and "tk_id ` fst ` set xs \<inter> known_ids b = {}"
  shows "case add_each P cfg xs en of
      Inl e \<Rightarrow> batch_loop P cfg (map (\<lambda>(tk, i). (tk, i, None)) xs) b = Inl e
    | Inr (rs, en') \<Rightarrow> \<exists>b'. batch_loop P cfg (map (\<lambda>(tk, i). (tk, i, None)) xs) b = Inr b' \<and>
        keeps_up P cfg b' en' \<and> b_adds b' = b_adds b @ rs"
  using assms(1,5,6)
proof (induction xs arbitrary: b en)
  case (Cons x xs)
  obtain tk i where x: "x = (tk, i)" by fastforce
  have fresh: "tk_id tk \<notin> known_ids b" using Cons.prems(3) x by simp
  note stp = batch_step_keeps_up [OF Cons.prems(1) off no fresh, of i]
  show ?case
  proof (cases "memory_add P cfg tk i en")
    case (Inl e)
    then show ?thesis using stp x by simp
  next
    case (Inr p)
    obtain res en1 where p: "p = (res, en1)" by fastforce
    obtain b' where b': "batch_step P cfg (tk, i, None) b = Inr b'" "keeps_up P cfg b' en1"
      "b_adds b' = b_adds b @ [res]" "known_ids b' \<subseteq> insert (tk_id tk) (known_ids b)"
      using stp Inr p by auto
    have "tk_id tk \<notin> tk_id ` fst ` set xs" using Cons.prems(2) x by (auto simp: image_image)
    moreover have "tk_id ` fst ` set xs \<inter> known_ids b = {}" using Cons.prems(3) by auto
    ultimately have "tk_id ` fst ` set xs \<inter> known_ids b' = {}" using b'(4) by (rule disjoint_insert_sub)
    from Cons.IH [OF b'(2) _ this] Cons.prems(2)
    show ?thesis using b' Inr p x by (auto split: sum.splits)
  qed
qed simp

lemma concat_replicate_None:
  "concat (map (\<lambda>c. replicate (length c) None) cs) = replicate (length (concat cs)) None"
  by (induction cs) (simp_all add: replicate_add)

lemma batch_embeddings_none:
  "pt_embed_batch P = (\<lambda>_. None) \<Longrightarrow> batch_embeddings P cfg inputs = replicate (length inputs) None"
  by (simp add: batch_embeddings_def concat_replicate_None)

lemma zip_none: "length tks = length is \<Longrightarrow>
    zip tks (zip is (replicate (length is) None)) = map (\<lambda>(tk, i). (tk, i, None)) (zip tks is)"
  by (induction tks "is" rule: list_induct2) simp_all

text \<open>C6: the bulk write is the loop it replaces. Without an embedding provider, automatic graph
  extraction and a scope quota, adding a list of inputs in bulk fails with the error the one-by-one
  loop fails with, or returns the same outcomes in the same order and leaves the same store, the
  same vector index, the same change feed and the same full-text entry for every memory.\<close>

theorem memory_add_batch_sequential:
  assumes "ms_inv (en_store en)" and "lx_inv (en_lex en)"
    and "pt_embed P = (\<lambda>_. None)" and "pt_embed_batch P = (\<lambda>_. None)"
    and "\<not> cg_auto_graph cfg" and "cg_max_memories_per_scope cfg = 0"
    and "length tks = length inputs" and "distinct (map tk_id tks)"
    and "tk_id ` set tks \<inter> store_ids (en_store en) = {}"
  shows "case add_each P cfg (zip tks inputs) en of
      Inl e \<Rightarrow> memory_add_batch P cfg tks inputs en = Inl e
    | Inr (rs, en1) \<Rightarrow> \<exists>en2. memory_add_batch P cfg tks inputs en = Inr (rs, en2) \<and> same_engine en2 en1"
proof (cases "inputs = []")
  case True
  then show ?thesis using assms(2) by (simp add: memory_add_batch_def same_engine_def)
next
  case False
  let ?b = "\<lparr>b_adds = [], b_pending = [], b_subjects = {}, b_engine = en\<rparr>"
  let ?xs = "zip tks inputs"
  have up: "keeps_up P cfg ?b en" using assms(1,2) by (simp add: keeps_up_def buffered_def same_engine_def)
  have fst: "map fst ?xs = tks" using assms(7) by simp
  have d: "distinct (map (tk_id \<circ> fst) ?xs)" using assms(8) fst by (metis map_map)
  have "fst ` set ?xs = set tks" using fst by (metis set_map)
  then have k: "tk_id ` fst ` set ?xs \<inter> known_ids ?b = {}" using assms(9) by (simp add: known_ids_def)
  note loop = batch_loop_keeps_up [OF up assms(5,6,3) d k]
  have bulk: "memory_add_batch P cfg tks inputs en =
      res_bind (batch_loop P cfg (map (\<lambda>(tk, i). (tk, i, None)) ?xs) ?b)
       (\<lambda>b. res_bind (memory_apply_rows_batch (b_pending b) (b_engine b)) (\<lambda>(_, en'). Inr (b_adds b, en')))"
    using False assms(4,7) by (simp add: memory_add_batch_def batch_embeddings_none zip_none)
  show ?thesis
  proof (cases "add_each P cfg ?xs en")
    case (Inl e) then show ?thesis using loop bulk by simp
  next
    case (Inr p)
    obtain rs en1 where p: "p = (rs, en1)" by fastforce
    obtain b' where b': "batch_loop P cfg (map (\<lambda>(tk, i). (tk, i, None)) ?xs) ?b = Inr b'"
      "keeps_up P cfg b' en1" "b_adds b' = rs" using loop Inr p by auto
    then obtain en2 where "memory_apply_rows_batch (b_pending b') (b_engine b') = Inr (length (b_pending b'), en2)"
      "same_engine en2 (fold (apply_row P cfg) (b_pending b') (b_engine b'))"
      using apply_rows_batch_same [of "b_engine b'" "b_pending b'" cfg P] assms(5)
      unfolding keeps_up_def buffered_def by blast
    then show ?thesis using b' bulk Inr p by (auto simp: keeps_up_def intro: same_engine_trans)
  qed
qed

theorem memory_add_batch_sequential_witness:
  "\<exists>rs en1 en2. add_each demo_ports demo_cfg (zip [demo_tick 2, demo_tick 3, demo_tick 4]
       [demo_input ''plan'' ''pro'', demo_input ''city'' ''Paris'', demo_input ''plan'' ''max'']) demo_engine1 = Inr (rs, en1) \<and>
     map ma_outcome rs = [Outcome_Superseded, Inserted, Outcome_Superseded] \<and>
     memory_add_batch demo_ports demo_cfg [demo_tick 2, demo_tick 3, demo_tick 4]
       [demo_input ''plan'' ''pro'', demo_input ''city'' ''Paris'', demo_input ''plan'' ''max''] demo_engine1 = Inr (rs, en2) \<and>
     same_engine en2 en1"
proof -
  let ?tks = "[demo_tick 2, demo_tick 3, demo_tick 4]"
  let ?is = "[demo_input ''plan'' ''pro'', demo_input ''city'' ''Paris'', demo_input ''plan'' ''max'']"
  have "case add_each demo_ports demo_cfg (zip ?tks ?is) demo_engine1 of
      Inl _ \<Rightarrow> False | Inr (rs, _) \<Rightarrow> map ma_outcome rs = [Outcome_Superseded, Inserted, Outcome_Superseded]"
    by code_simp
  then obtain rs en1 where seq: "add_each demo_ports demo_cfg (zip ?tks ?is) demo_engine1 = Inr (rs, en1)"
    "map ma_outcome rs = [Outcome_Superseded, Inserted, Outcome_Superseded]" by (auto split: sum.splits)
  have "ms_inv (en_store demo_engine1)" "lx_inv (en_lex demo_engine1)" by code_simp+
  moreover have "pt_embed demo_ports = (\<lambda>_. None)" "pt_embed_batch demo_ports = (\<lambda>_. None)"
    by (simp_all add: demo_ports_def)
  moreover have "\<not> cg_auto_graph demo_cfg" "cg_max_memories_per_scope demo_cfg = 0" by code_simp+
  moreover have "length ?tks = length ?is" by simp
  moreover have "distinct (map tk_id ?tks)" "tk_id ` set ?tks \<inter> store_ids (en_store demo_engine1) = {}" by code_simp+
  ultimately have "case add_each demo_ports demo_cfg (zip ?tks ?is) demo_engine1 of
      Inl e \<Rightarrow> memory_add_batch demo_ports demo_cfg ?tks ?is demo_engine1 = Inl e
    | Inr (rs, en1) \<Rightarrow> \<exists>en2. memory_add_batch demo_ports demo_cfg ?tks ?is demo_engine1 = Inr (rs, en2) \<and> same_engine en2 en1"
    by (rule memory_add_batch_sequential)
  then show ?thesis using seq by auto
qed

subsection \<open>Where the two paths differ\<close>

text \<open>
  With embeddings the buffer can hold two rows for one memory: a confirmation of it, found by its
  subject, and its retirement, found by similarity. The bulk path indexes the active rows of the
  group last, so the full-text index keeps the retired memory; the loop removes it.
\<close>

definition similar_ports :: ports where
  "similar_ports = demo_ports\<lparr>pt_embed := (\<lambda>_. Some [1, 0]), pt_embed_batch := (\<lambda>xs. Some (map (\<lambda>_. [1, 0]) xs)),
    pt_knn := (\<lambda>ix _ k. take k (map (\<lambda>(key, _). (key, 0)) ix))\<rparr>"

definition similar_engine :: engine where
  "similar_engine = (case memory_add similar_ports demo_cfg (demo_tick 1) (demo_input ''plan'' ''free'') demo_engine of
     Inl _ \<Rightarrow> demo_engine | Inr (_, en) \<Rightarrow> en)"

definition similar_inputs :: "memory_input list" where
  "similar_inputs = [demo_input ''plan'' ''free'', memory_input_new (tenant_scope ''acme'') ''free tier'']"

theorem memory_add_batch_stale_lexical:
  "(case memory_add_batch similar_ports demo_cfg [demo_tick 2, demo_tick 3] similar_inputs similar_engine of
      Inl _ \<Rightarrow> False
    | Inr (rs, en) \<Rightarrow> map ma_outcome rs = [Confirmed, Merged] \<and>
        map_option m_state (ms_get 1 (en_store en)) = Some Superseded \<and> 1 \<in> lx_ids (en_lex en)) \<and>
   (case add_each similar_ports demo_cfg (zip [demo_tick 2, demo_tick 3] similar_inputs) similar_engine of
      Inl _ \<Rightarrow> False
    | Inr (rs, en) \<Rightarrow> map ma_outcome rs = [Confirmed, Merged] \<and>
        map_option m_state (ms_get 1 (en_store en)) = Some Superseded \<and> 1 \<notin> lx_ids (en_lex en))"
  by code_simp

end
