(* ===== verification/Memory_Lifecycle.thy ===== *)
theory Memory_Lifecycle
  imports Memory_Batch
begin

text \<open>
  The engine as a state machine: one step per operation of \<open>engine/mod.rs\<close> that changes the
  memories one by one or in a group of distinct rows, and the invariant that holds in every state these
  steps lead to. The propose, accept and reject
  cycle, contradiction resolution and replay of applied rows are treated after it.
\<close>

subsection \<open>Writes outside the plan\<close>

lemma active_ids_put: "tbl_inv row_id rows \<Longrightarrow> active_ids (tbl_put row_id r rows) =
    (if m_state (mr_memory r) = Active then insert (row_id r) (active_ids rows)
     else active_ids rows - {row_id r})"
  by (auto simp: active_ids_def set_tbl_put)

lemma st_memories_upsert:
  "st_memories (ms_upsert_raw m e st) = tbl_put row_id \<lparr>mr_memory = m, mr_embedding = e\<rparr> (st_memories st)"
  by (simp add: ms_upsert_raw_def)

lemma advisory_store:
  assumes "advisory en" and "ms_inv st"
    and "active_ids (st_memories (en_store en)) \<subseteq> active_ids (st_memories st)"
  shows "advisory (en\<lparr>en_store := st\<rparr>)"
  using assms by (auto simp: advisory_def intro: lxa.mirrors_mono sva.mirrors_mono)

lemma advisory_publish [simp]: "advisory (publish_memory_change m en) = advisory en"
  by (simp add: advisory_def)

lemma advisory_upsert_raw:
  assumes "advisory en" and "m_state m = Active \<or> m_id m \<notin> active_ids (st_memories (en_store en))"
  shows "advisory (en\<lparr>en_store := ms_upsert_raw m e (en_store en)\<rparr>)"
proof (rule advisory_store [OF assms(1)])
  have inv: "ms_inv (en_store en)" using assms(1) by (simp add: advisory_def)
  then show "ms_inv (ms_upsert_raw m e (en_store en))" by simp
  show "active_ids (st_memories (en_store en)) \<subseteq> active_ids (st_memories (ms_upsert_raw m e (en_store en)))"
    using assms(2) ms_inv_rows [OF inv] by (auto simp: st_memories_upsert active_ids_put)
qed

lemma advisory_propose:
  assumes "advisory en" and "tk_id tk \<notin> store_ids (en_store en)"
    and "memory_propose P cfg tk input en = Inr (m, en')"
  shows "advisory en'"
proof -
  have "tk_id tk \<notin> active_ids (st_memories (en_store en))"
    using assms(2) by (auto simp: active_ids_def store_ids_def)
  moreover have "m = proposal_of tk (canonical_input input)"
    "en' = publish_memory_change m (en\<lparr>en_store := ms_upsert_raw m None (en_store en)\<rparr>)"
    using assms(3) by (auto simp: memory_propose_def Let_def res_bind_Inr_iff)
  ultimately show ?thesis using advisory_upsert_raw [OF assms(1), of m None]
    by (simp add: proposal_of_def Let_def)
qed

lemma get_scoped_iff:
  assumes "ms_inv st"
  shows "ms_get_scoped u t st = Some m \<longleftrightarrow> m \<in> mems st \<and> m_id m = u \<and> sc_tenant_id (m_scope m) = t"
proof -
  let ?Q = "\<lambda>m. m_id m = u \<and> sc_tenant_id (m_scope m) = t"
  have mem: "m \<in> set (ms_select ?Q st) \<longleftrightarrow> m \<in> mems st \<and> m_id m = u \<and> sc_tenant_id (m_scope m) = t"
    by auto
  show ?thesis
  proof (cases "ms_select ?Q st")
    case Nil
    then show ?thesis using mem by (simp add: ms_get_scoped_def)
  next
    case (Cons x xs)
    then have "x \<in> set (ms_select ?Q st)" by simp
    then have "?Q x" "x \<in> mems st" by (simp_all only: in_ms_select)
    moreover have "ms_get_scoped u t st = Some x" using Cons by (simp add: ms_get_scoped_def)
    ultimately show ?thesis using ms_inv_inj [OF assms, of x m] by (metis option.inject)
  qed
qed

lemma pending_of_iff:
  assumes "ms_inv (en_store en)"
  shows "pending_of u t en = Some m \<longleftrightarrow> m \<in> mems (en_store en) \<and> m_id m = u \<and>
    sc_tenant_id (m_scope m) = t \<and> m_state m = Pending"
proof (cases "ms_get_scoped u t (en_store en)")
  case None
  then show ?thesis using get_scoped_iff [OF assms, of u t m] by (auto simp: pending_of_def)
next
  case (Some x)
  then show ?thesis using get_scoped_iff [OF assms, of u t m] get_scoped_iff [OF assms, of u t x]
    by (auto simp: pending_of_def)
qed

lemma active_idsE:
  assumes "u \<in> active_ids (st_memories st)"
  obtains m where "m \<in> mems st" "m_id m = u" "m_state m = Active"
  using assms by (auto simp: active_ids_def mems_def)

lemma not_active_id:
  "ms_inv st \<Longrightarrow> m \<in> mems st \<Longrightarrow> m_state m \<noteq> Active \<Longrightarrow> m_id m \<notin> active_ids (st_memories st)"
  by (metis active_idsE ms_inv_inj)

lemma retired_proposal_simps [simp]:
  "m_id (retired_proposal P now m d a) = m_id m" "m_state (retired_proposal P now m d a) = Expired"
  "m_scope (retired_proposal P now m d a) = m_scope m"
  "m_content (retired_proposal P now m d a) = m_content m"
  "m_subject (retired_proposal P now m d a) = m_subject m"
  by (simp_all add: retired_proposal_def Let_def)

lemma advisory_retire:
  assumes "advisory en" and "m_id m \<notin> active_ids (st_memories (en_store en))"
  shows "advisory (retire_proposal P now m d a en)"
  using advisory_upsert_raw [OF assms(1)] assms(2) by (simp add: retire_proposal_def Let_def)

lemma advisory_reject: "advisory en \<Longrightarrow> advisory (snd (memory_reject P now u t en))"
  by (auto simp: memory_reject_def split: option.split)
    (metis advisory_def advisory_retire memory_state.distinct(5) not_active_id pending_of_iff)

text \<open>A memory that is not active is left alone by a write.\<close>

lemma memory_add_inactive_id:
  assumes "ms_inv (en_store en)" and "tk_id tk \<notin> store_ids (en_store en)"
    and "memory_add P cfg tk input en = Inr (res, en')"
    and "m \<in> mems (en_store en)" and "m_state m \<noteq> Active"
  shows "m_id m \<notin> active_ids (st_memories (en_store en'))"
proof -
  from assms(3) obtain rows where
    plan: "memory_plan_with_embedding P cfg tk input (pt_embed P (i_content input)) en = Inr (res, rows)"
    and en': "en' = enforce_cap (m_scope (ma_memory res)) (cg_max_memories_per_scope cfg)
      (fold (apply_row P cfg) rows en)" by (rule memory_addE)
  define en1 where "en1 = fold (apply_row P cfg) rows en"
  have inv1: "ms_inv (en_store en1)" unfolding en1_def using assms(1) by (rule ms_inv_fold_apply)
  from plan_shape [OF plan assms(1,2)] obtain g news where
    sh: "st_memories (en_store en1) = map g (st_memories (en_store en)) @ news"
    and ev: "\<And>r. r \<in> set (st_memories (en_store en)) \<Longrightarrow>
      evolves (m_valid_from (ma_memory res)) (mr_memory r) (mr_memory (g r))" unfolding en1_def by metis
  then obtain m' where m': "m' \<in> mems (en_store en1)" "evolves (m_valid_from (ma_memory res)) m m'"
    using assms(4) by (auto simp: mems_def)
  then have "m_id m' = m_id m" "m_state m' \<noteq> Active" using assms(5) by (auto simp: evolves_def)
  then have "m_id m \<notin> active_ids (st_memories (en_store en1))" using not_active_id [OF inv1 m'(1)] by simp
  moreover have "mems (en_store en') \<subseteq> mems (en_store en1)"
    unfolding en' en1_def by (rule enforce_cap_mems)
  ultimately show ?thesis by (auto simp: active_ids_def mems_def)
qed

lemma ms_inv_enforce_cap: "ms_inv (en_store en) \<Longrightarrow> ms_inv (en_store (enforce_cap sc cap en))"
  using ms_inv_enforce_scope_cap [of "en_store en" sc cap]
  by (auto simp: enforce_cap_def split: prod.split)

lemma ms_inv_memory_add:
  "ms_inv (en_store en) \<Longrightarrow> memory_add P cfg tk input en = Inr (res, en') \<Longrightarrow> ms_inv (en_store en')"
  by (elim memory_addE) (simp add: ms_inv_enforce_cap ms_inv_fold_apply)

lemma advisory_accept:
  assumes "advisory en" and "tk_id tk \<notin> store_ids (en_store en)"
    and "memory_accept P cfg tk now u t en = Inr (r, en')"
  shows "advisory en'"
proof (cases "pending_of u t en")
  case None
  then show ?thesis using assms(1,3) by (simp add: memory_accept_def)
next
  case (Some m)
  have inv: "ms_inv (en_store en)" using assms(1) by (simp add: advisory_def)
  have m: "m \<in> mems (en_store en)" "m_state m = Pending" using Some pending_of_iff [OF inv] by auto
  obtain add en1 where add: "memory_add P cfg tk (input_of_proposal m) en = Inr (add, en1)"
    and en': "en' = retire_proposal P now m ''accepted'' (Some (m_id (ma_memory add))) en1"
    using assms(3) Some by (auto simp: memory_accept_def res_bind_Inr_iff)
  have "m_id m \<notin> active_ids (st_memories (en_store en1))"
    using memory_add_inactive_id [OF inv assms(2) add m(1)] m(2) by simp
  then show ?thesis unfolding en' using advisory_retire advisory_memory_add [OF assms(1) add] by blast
qed

lemma advisory_update: "advisory en \<Longrightarrow> advisory (snd (memory_update P cfg re now u p t en))"
  by (auto simp: memory_update_def advisory_apply_rows split: option.split)

lemma advisory_feedback: "advisory en \<Longrightarrow> advisory (memory_feedback_apply P cfg now act en)"
  by (auto simp: memory_feedback_apply_def advisory_apply_rows advisory_expire split: feedback_action.split)

lemma advisory_import:
  assumes "advisory en" and "\<forall>m \<in> set ms. m_state m = Active"
  shows "advisory (snd (import_memories ms en))"
proof -
  have "advisory (en\<lparr>en_store := fold (\<lambda>m. ms_upsert_raw m None) ms (en_store en)\<rparr>)"
    using assms
  proof (induction ms arbitrary: en)
    case (Cons m ms)
    then show ?case using advisory_upsert_raw [OF Cons.prems(1), of m None] by fastforce
  qed simp
  then show ?thesis by (simp add: import_memories_def)
qed

subsection \<open>The engine as a state machine\<close>

text \<open>
  One rule per mutating operation. A rule that mints an identifier asks for a fresh one, as
  \<open>Uuid::new_v4\<close> gives; an import is of active memories, which is what an export produces; moving a tenant
  is an import at the target and a deletion of the tenant's memories at the source. A group of rows
  (\<open>memory_apply_rows_batch\<close>: pruning and sweeping documents, a flush of the bulk write) is a step when it
  names each memory once. A bulk write whose flush writes one memory twice, first active and then
  superseded, is not: it leaves the memory in the full-text index
  (\<open>Memory_Batch.memory_add_batch_stale_lexical\<close>).
\<close>

inductive engine_step :: "engine \<Rightarrow> engine \<Rightarrow> bool" where
  step_add: "tk_id tk \<notin> store_ids (en_store en) \<Longrightarrow> memory_add P cfg tk input en = Inr (res, en') \<Longrightarrow>
    engine_step en en'"
| step_rows: "engine_step en (snd (memory_apply_rows P cfg rows en))"
| step_update: "engine_step en (snd (memory_update P cfg reembed now u patch tenant en))"
| step_feedback: "engine_step en (memory_feedback_apply P cfg now act en)"
| step_propose: "tk_id tk \<notin> store_ids (en_store en) \<Longrightarrow> memory_propose P cfg tk input en = Inr (m, en') \<Longrightarrow>
    engine_step en en'"
| step_accept: "tk_id tk \<notin> store_ids (en_store en) \<Longrightarrow> memory_accept P cfg tk now u tenant en = Inr (r, en') \<Longrightarrow>
    engine_step en en'"
| step_reject: "engine_step en (snd (memory_reject P now u tenant en))"
| step_delete: "engine_step en (memory_delete u en)"
| step_delete_scoped: "engine_step en (snd (memory_delete_scoped u tenant en))"
| step_delete_user: "engine_step en (snd (delete_user tenant user_id en))"
| step_delete_tenant: "engine_step en (snd (delete_tenant_memories tenant en))"
| step_expire: "engine_step en (memory_expire ids en)"
| step_decay: "engine_step en (snd (memory_enforce_decay P cfg now en))"
| step_rows_batch: "distinct (map row_id rows) \<Longrightarrow> memory_apply_rows_batch rows en = Inr (n, en') \<Longrightarrow> engine_step en en'"
| step_import: "\<forall>m \<in> set ms. m_state m = Active \<Longrightarrow> engine_step en (snd (import_memories ms en))"

inductive engine_reachable :: "nat \<Rightarrow> engine \<Rightarrow> bool" for dims where
  reach_new: "engine_reachable dims
    \<lparr>en_store = ms_new, en_lex = lx_open, en_vec = sv_with_dimension dims, en_changes = []\<rparr>"
| reach_step: "engine_reachable dims en \<Longrightarrow> engine_step en en' \<Longrightarrow> engine_reachable dims en'"

lemma advisory_new: "advisory \<lparr>en_store = ms_new, en_lex = lx_open, en_vec = sv_with_dimension d, en_changes = []\<rparr>"
  by (simp add: advisory_def ms_inv_def ms_new_def lxa.mirrors_def sva.mirrors_def)

lemma lx_ids_entry: "lx_inv ix \<Longrightarrow> k \<in> lx_ids ix \<longleftrightarrow> lx_entry ix k \<noteq> None"
proof -
  assume inv: "lx_inv ix"
  have "tbl_find ft_rowid (d_rowid d) (lx_fts ix) \<noteq> None" if "d \<in> set (lx_docs ix)" for d
    using inv that by (auto simp: lx_inv_def tbl_find_None_iff)
  then have found: "tbl_find d_id k (lx_docs ix) = Some d \<Longrightarrow> lx_entry ix k \<noteq> None" for d
    using tbl_find_Some [of d_id k "lx_docs ix" d] by (auto simp: lx_entry_def split: option.split)
  show ?thesis
  proof (cases "tbl_find d_id k (lx_docs ix)")
    case None
    then have "lx_entry ix k = None" "k \<notin> lx_ids ix" using tbl_find_None_iff [of d_id k "lx_docs ix"] by (simp_all add: lx_entry_def lx_ids_def)
    then show ?thesis by simp
  next
    case (Some d)
    then show ?thesis using found [OF Some] tbl_find_Some [OF Some] by (auto simp: lx_ids_def)
  qed
qed

lemma advisory_rows_batch:
  assumes "advisory en" and "distinct (map row_id rows)" and "memory_apply_rows_batch rows en = Inr (n, en')"
  shows "advisory en'"
proof -
  have inv: "ms_inv (en_store en)" "lx_inv (en_lex en)" using assms(1) by (auto simp: advisory_def lxa.mirrors_def)
  have "\<not> cg_auto_graph demo_cfg" by (simp add: demo_cfg_def)
  from apply_rows_batch_same [OF inv assms(2) this, of demo_ports] assms(3)
  have same: "same_engine en' (fold (apply_row demo_ports demo_cfg) rows en)" by auto
  have "advisory (fold (apply_row demo_ports demo_cfg) rows en)"
    using advisory_apply_rows [OF assms(1), of demo_ports demo_cfg rows] by (simp add: memory_apply_rows_def)
  moreover have "lx_ids (en_lex en') = lx_ids (en_lex (fold (apply_row demo_ports demo_cfg) rows en))"
    using same lx_ids_entry by (auto simp: same_engine_def)
  ultimately show ?thesis using same by (simp add: same_engine_def advisory_def lxa.mirrors_def)
qed

lemma advisory_step: "engine_step en en' \<Longrightarrow> advisory en \<Longrightarrow> advisory en'"
  by (induction rule: engine_step.induct)
    (auto intro: advisory_memory_add advisory_apply_rows advisory_update advisory_feedback advisory_propose
      advisory_accept advisory_reject advisory_memory_delete advisory_delete_scoped advisory_delete_user
      advisory_delete_tenant advisory_expire advisory_decay advisory_rows_batch advisory_import simp del: split_paired_Ex)

lemma reachable_advisory: "engine_reachable d en \<Longrightarrow> advisory en"
  by (induction rule: engine_reachable.induct) (auto simp: advisory_new intro: advisory_step)

lemma active_row_get: "ms_inv st \<Longrightarrow> u \<in> active_ids (st_memories st) \<Longrightarrow>
    \<exists>m. ms_get u st = Some m \<and> m_state m = Active"
  by (metis active_idsE ms_get_iff)

text \<open>C7: the indexes only propose active memories. Start from an empty engine and apply any sequence of single
  writes, replicated row writes, updates, feedback, proposals and their review, deletions and erasures of
  users and tenants, expiries, decay passes, imports of active memories, and groups of rows that name
  each memory once (the pruning and the sweep of documents). Then the primary keys hold, and each
  identifier the full-text index or the vector index knows is the identifier of a stored, active memory:
  no superseded, expired, pending, deleted or erased memory is left in either index. A bulk write with
  embeddings can write one memory twice in a group and is left out: it breaks the property.\<close>

theorem engine_reachable_indexes:
  assumes "engine_reachable dims en"
  shows "ms_inv (en_store en) \<and> (\<forall>u \<in> lx_ids (en_lex en) \<union> sv_ids (en_vec en).
    \<exists>m. ms_get u (en_store en) = Some m \<and> m_state m = Active)"
  using reachable_advisory [OF assms] active_row_get
  unfolding advisory_def lxa.mirrors_def sva.mirrors_def by blast

theorem engine_reachable_indexes_witness:
  "lx_ids (en_lex demo_engine1) = {1} \<and>
    (\<exists>m. ms_get 1 (en_store demo_engine1) = Some m \<and> m_state m = Active)"
proof -
  obtain res where add: "memory_add demo_ports demo_cfg (demo_tick 1) (demo_input ''plan'' ''free'') demo_engine =
      Inr (res, demo_engine1)"
  proof -
    have "case memory_add demo_ports demo_cfg (demo_tick 1) (demo_input ''plan'' ''free'') demo_engine of
        Inl _ \<Rightarrow> False | Inr _ \<Rightarrow> True" by code_simp
    then show ?thesis using that by (auto simp: demo_engine1_def run_add_def split: sum.splits)
  qed
  have "engine_reachable 2 demo_engine" unfolding demo_engine_def by (rule reach_new)
  moreover have "tk_id (demo_tick 1) \<notin> store_ids (en_store demo_engine)" by code_simp
  ultimately have "engine_reachable 2 demo_engine1" using step_add [OF _ add] reach_step by blast
  then have "\<forall>u \<in> lx_ids (en_lex demo_engine1) \<union> sv_ids (en_vec demo_engine1).
      \<exists>m. ms_get u (en_store demo_engine1) = Some m \<and> m_state m = Active"
    using engine_reachable_indexes by blast
  moreover have "lx_ids (en_lex demo_engine1) = {1}" by code_simp
  ultimately show ?thesis by simp
qed

subsection \<open>Replaying committed rows\<close>

definition row_edges :: "ports \<Rightarrow> cognition_config \<Rightarrow> memory_row \<Rightarrow> edge_row list" where
  "row_edges P cfg r =
    (let m = mr_memory r in
     if cg_auto_graph cfg \<and> m_state m = Active
     then map (\<lambda>t. \<lparr>er_tenant = (if sc_tenant_id (m_scope m) = [] then ''default'' else sc_tenant_id (m_scope m)),
                    er_edge = edge_of_triple P m t\<rparr>) (extract_triples (m_content m))
     else [])"

lemma fold_add_edges: "fold (\<lambda>t. add_edge te (f t)) ts st =
    st\<lparr>st_edges := fold (tbl_insert_ignore edge_row_id) (map (\<lambda>t. \<lparr>er_tenant = te, er_edge = f t\<rparr>) ts) (st_edges st)\<rparr>"
  by (induction ts arbitrary: st) (simp_all add: add_edge_def)

lemma apply_row_store_eq: "en_store (apply_row P cfg r en) =
    (en_store en)\<lparr>st_memories := tbl_put row_id r (st_memories (en_store en)),
      st_edges := fold (tbl_insert_ignore edge_row_id) (row_edges P cfg r) (st_edges (en_store en))\<rparr>"
  by (simp add: apply_row_store ms_put_row_def ms_upsert_raw_def apply_auto_graph_def row_edges_def Let_def
      fold_add_edges)

lemma fold_apply_store: "en_store (fold (apply_row P cfg) rs en) =
    (en_store en)\<lparr>st_memories := fold (tbl_put row_id) rs (st_memories (en_store en)),
      st_edges := fold (tbl_insert_ignore edge_row_id) (concat (map (row_edges P cfg) rs)) (st_edges (en_store en))\<rparr>"
  by (induction rs arbitrary: en) (simp_all add: apply_row_store_eq)

lemma fold_apply_replay:
  assumes "ms_inv (en_store en)"
  shows "en_store (fold (apply_row P cfg) (as @ bs) (fold (apply_row P cfg) as en)) =
    en_store (fold (apply_row P cfg) (as @ bs) en)"
proof -
  have "fold (tbl_put row_id) (as @ bs) (fold (tbl_put row_id) as (st_memories (en_store en))) =
      fold (tbl_put row_id) (as @ bs) (st_memories (en_store en))"
    using fold_put_replay [OF ms_inv_rows [OF assms]] .
  moreover have "fold (tbl_insert_ignore edge_row_id) (concat (map (row_edges P cfg) (as @ bs)))
        (fold (tbl_insert_ignore edge_row_id) (concat (map (row_edges P cfg) as)) (st_edges (en_store en))) =
      fold (tbl_insert_ignore edge_row_id) (concat (map (row_edges P cfg) (as @ bs))) (st_edges (en_store en))"
    using fold_ignore_replay [of edge_row_id] by (simp only: map_append concat_append)
  ultimately show ?thesis by (simp add: fold_apply_store del: fold_append)
qed

text \<open>Applying committed rows is idempotent. A replica that applies a group of rows again, after a
  crash that left any prefix of the group applied, ends in exactly the store of a replica that
  applied it once: the same memories, embeddings and extracted graph edges, in the same order.\<close>

theorem memory_apply_rows_replay:
  assumes "ms_inv (en_store en)"
  shows "en_store (snd (memory_apply_rows P cfg rows (snd (memory_apply_rows P cfg (take n rows) en)))) =
    en_store (snd (memory_apply_rows P cfg rows en))"
  using fold_apply_replay [OF assms, of P cfg "take n rows" "drop n rows"]
  by (simp add: memory_apply_rows_def del: fold_append)

theorem memory_apply_rows_replay_witness:
  "let m = memory_new 7 5 (tenant_scope ''acme'') ''x'';
       rows = [\<lparr>mr_memory = m, mr_embedding = None\<rparr>, superseded_row 9 9 m]
   in en_store (snd (memory_apply_rows demo_ports demo_cfg rows
        (snd (memory_apply_rows demo_ports demo_cfg (take 1 rows) demo_engine1)))) =
      en_store (snd (memory_apply_rows demo_ports demo_cfg rows demo_engine1))"
proof -
  have "ms_inv (en_store demo_engine1)" by code_simp
  then show ?thesis unfolding Let_def by (rule memory_apply_rows_replay)
qed

end
