(* ===== verification/Memory_Review.thy ===== *)
theory Memory_Review
  imports Memory_Lifecycle
begin

text \<open>
  What the governed operations of the engine promise: a proposal is invisible until it is decided
  and is decided once, resolving a contradiction leaves the chosen belief, the quota keeps the most
  important memories of a scope, and erasing a tenant touches no other tenant.
\<close>

subsection \<open>Proposals\<close>

lemma ms_select_upsert_fresh:
  "m_id m \<notin> store_ids st \<Longrightarrow> ms_select Q (ms_upsert_raw m e st) = ms_select Q st @ (if Q m then [m] else [])"
  by (simp add: ms_select_def ms_upsert_raw_def store_ids_def tbl_put_fresh)

lemma proposal_simps [simp]:
  "m_id (proposal_of tk i) = tk_id tk" "m_state (proposal_of tk i) = Pending"
  "m_scope (proposal_of tk i) = i_scope i" "m_subject (proposal_of tk i) = i_subject i"
  "m_content (proposal_of tk i) = i_content i"
  by (simp_all add: proposal_of_def Let_def)

lemma memory_proposeE:
  assumes "memory_propose P cfg tk input en = Inr (m, en')"
  obtains "m = proposal_of tk (canonical_input input)"
    "en_store en' = ms_upsert_raw m None (en_store en)" "en_lex en' = en_lex en" "en_vec en' = en_vec en"
  using assms by (auto simp: memory_propose_def Let_def res_bind_Inr_iff)

text \<open>A proposal is not a belief. Proposing a fact changes no active list, no belief about any
  subject and neither index; the fact can be found only as a pending proposal of its own tenant.\<close>

theorem memory_propose_invisible:
  assumes "ms_inv (en_store en)" and "tk_id tk \<notin> store_ids (en_store en)"
    and "memory_propose P cfg tk input en = Inr (m, en')"
  shows "find_active_by_subject sc s p (en_store en') = find_active_by_subject sc s p (en_store en) \<and>
    list_active sc k (en_store en') = list_active sc k (en_store en) \<and>
    en_lex en' = en_lex en \<and> en_vec en' = en_vec en \<and>
    pending_of (tk_id tk) t en' = (if t = sc_tenant_id (m_scope m) then Some m else None)"
proof -
  from assms(3) have m: "m = proposal_of tk (canonical_input input)"
    and st: "en_store en' = ms_upsert_raw m None (en_store en)"
    and ix: "en_lex en' = en_lex en" "en_vec en' = en_vec en" by (rule memory_proposeE; simp)+
  have fresh: "m_id m \<notin> store_ids (en_store en)" using assms(2) m by simp
  have "ms_select Q (en_store en') = ms_select Q (en_store en)" if "\<not> Q m" for Q
    using ms_select_upsert_fresh [OF fresh] that by (simp add: st)
  then have "find_active_by_subject sc s p (en_store en') = find_active_by_subject sc s p (en_store en)"
    "list_active sc k (en_store en') = list_active sc k (en_store en)"
    using m by (simp_all add: find_active_by_subject_def list_active_def)
  moreover have "ms_select (\<lambda>x. m_id x = tk_id tk \<and> sc_tenant_id (m_scope x) = t) (en_store en) = []"
    using assms(2) by (force simp: ms_select_def filter_empty_conv store_ids_def)
  then have "pending_of (tk_id tk) t en' = (if t = sc_tenant_id (m_scope m) then Some m else None)"
    using ms_select_upsert_fresh [OF fresh] m by (simp add: pending_of_def ms_get_scoped_def st)
  ultimately show ?thesis using ix by blast
qed

theorem memory_propose_invisible_witness:
  "\<exists>m en'. memory_propose demo_ports demo_cfg (demo_tick 2) (demo_input ''plan'' ''pro'') demo_engine1 = Inr (m, en') \<and>
    map m_content (find_active_by_subject (tenant_scope ''acme'') ''plan'' None (en_store en')) = [''free''] \<and>
    pending_of 2 ''acme'' en' = Some m \<and> pending_of 2 ''other'' en' = None"
proof -
  have "case memory_propose demo_ports demo_cfg (demo_tick 2) (demo_input ''plan'' ''pro'') demo_engine1 of
      Inl _ \<Rightarrow> False | Inr (m, _) \<Rightarrow> sc_tenant_id (m_scope m) = ''acme''" by code_simp
  then obtain m en' where p: "memory_propose demo_ports demo_cfg (demo_tick 2) (demo_input ''plan'' ''pro'')
      demo_engine1 = Inr (m, en')" and t: "sc_tenant_id (m_scope m) = ''acme''" by (auto split: sum.splits)
  have "ms_inv (en_store demo_engine1)" "tk_id (demo_tick 2) \<notin> store_ids (en_store demo_engine1)" by code_simp+
  note inv = memory_propose_invisible [OF this p]
  have "tk_id (demo_tick 2) = 2" by code_simp
  then have "pending_of 2 ''acme'' en' = Some m" "pending_of 2 ''other'' en' = None"
    using inv [of _ _ _ _ "''acme''"] inv [of _ _ _ _ "''other''"] t by simp_all
  moreover have "map m_content (find_active_by_subject (tenant_scope ''acme'') ''plan'' None (en_store demo_engine1))
      = [''free'']" by code_simp
  ultimately show ?thesis using p inv [of "tenant_scope ''acme''" "''plan''" None] by auto
qed

lemma retire_effect:
  assumes "ms_inv (en_store en)"
  shows "pending_of (m_id m) t (retire_proposal P now m d a en) = None" and
    "retired_proposal P now m d a \<in> mems (en_store (retire_proposal P now m d a en))"
    and "mems (en_store (retire_proposal P now m d a en)) \<subseteq>
      insert (retired_proposal P now m d a) {x \<in> mems (en_store en). m_id x \<noteq> m_id m}"
proof -
  let ?m = "retired_proposal P now m d a" and ?en = "retire_proposal P now m d a en"
  have st: "en_store ?en = ms_upsert_raw ?m None (en_store en)" by (simp add: retire_proposal_def Let_def)
  have mems: "mems (en_store ?en) = insert ?m {x \<in> mems (en_store en). m_id x \<noteq> m_id m}"
    unfolding st using memories_upsert_raw [OF assms] by simp
  then show "?m \<in> mems (en_store ?en)" "mems (en_store ?en) \<subseteq>
      insert ?m {x \<in> mems (en_store en). m_id x \<noteq> m_id m}" by auto
  have inv: "ms_inv (en_store ?en)" using assms st by simp
  show "pending_of (m_id m) t ?en = None"
  proof (rule ccontr)
    assume "pending_of (m_id m) t ?en \<noteq> None"
    then obtain x where "x \<in> mems (en_store ?en)" "m_id x = m_id m" "m_state x = Pending"
      using pending_of_iff [OF inv] by auto
    then show False using mems by auto
  qed
qed

text \<open>A proposal is decided once. After an accept or a reject went through, the proposal is no
  longer pending for anybody, it stays stored as an expired memory with its text, and any further
  accept or reject of it, by any tenant, reports that there is nothing to decide and changes
  nothing.\<close>

theorem proposal_decided_once:
  assumes "ms_inv (en_store en)"
    and "memory_accept P cfg tk now u t en = Inr (Some added, en') \<or> memory_reject P now u t en = (True, en')"
  shows "memory_accept P cfg' tk' now' u t' en' = Inr (None, en') \<and>
    memory_reject P now' u t' en' = (False, en') \<and>
    (\<exists>m \<in> mems (en_store en). \<exists>m' \<in> mems (en_store en').
       m_id m = u \<and> m_state m = Pending \<and> m_id m' = u \<and> m_state m' = Expired \<and> m_content m' = m_content m)"
proof -
  obtain m where m: "pending_of u t en = Some m"
    using assms(2) by (cases "pending_of u t en") (auto simp: memory_accept_def memory_reject_def)
  then have old: "m \<in> mems (en_store en)" "m_id m = u" "m_state m = Pending"
    using pending_of_iff [OF assms(1)] by auto
  obtain d a en1 where en': "en' = retire_proposal P now m d a en1" and inv: "ms_inv (en_store en1)"
    using assms(2)
  proof
    assume "memory_accept P cfg tk now u t en = Inr (Some added, en')"
    then show thesis using m that ms_inv_memory_add [OF assms(1)]
      by (auto simp: memory_accept_def res_bind_Inr_iff)
  next
    assume "memory_reject P now u t en = (True, en')"
    then show thesis using m that assms(1) by (auto simp: memory_reject_def)
  qed
  have none: "pending_of u t' en' = None" unfolding en' using retire_effect(1) [OF inv, of m] old by simp
  have "retired_proposal P now m d a \<in> mems (en_store en')" unfolding en' using retire_effect(2) [OF inv] .
  then have "\<exists>m' \<in> mems (en_store en'). m_id m' = u \<and> m_state m' = Expired \<and> m_content m' = m_content m"
    using old by (metis retired_proposal_simps)
  then show ?thesis using none old by (auto simp: memory_accept_def memory_reject_def)
qed

definition demo_proposed :: engine where
  "demo_proposed =
    (case memory_propose demo_ports demo_cfg (demo_tick 2) (demo_input ''plan'' ''pro'') demo_engine1 of
       Inl _ \<Rightarrow> demo_engine1 | Inr (_, en) \<Rightarrow> en)"

theorem proposal_decided_once_witness:
  "\<exists>added en'. memory_accept demo_ports demo_cfg (demo_tick 3) 30 2 ''acme'' demo_proposed = Inr (Some added, en') \<and>
    ma_outcome added = Outcome_Superseded \<and>
    memory_accept demo_ports demo_cfg (demo_tick 4) 40 2 ''acme'' en' = Inr (None, en')"
proof -
  have "case memory_accept demo_ports demo_cfg (demo_tick 3) 30 2 ''acme'' demo_proposed of
      Inr (Some added, _) \<Rightarrow> ma_outcome added = Outcome_Superseded | _ \<Rightarrow> False" by code_simp
  then obtain added en' where acc: "memory_accept demo_ports demo_cfg (demo_tick 3) 30 2 ''acme'' demo_proposed =
      Inr (Some added, en')" "ma_outcome added = Outcome_Superseded" by (auto split: sum.splits option.splits)
  have "ms_inv (en_store demo_proposed)" by code_simp
  from proposal_decided_once [OF this disjI1 [OF acc(1)]] show ?thesis using acc by blast
qed

subsection \<open>Resolving a contradiction\<close>

lemma loser_row_simps [simp]:
  "row_id (loser_row k n m) = m_id m" "m_state (mr_memory (loser_row k n m)) = Superseded"
  by (simp_all add: loser_row_def)

text \<open>C9: Resolving a contradiction leaves the chosen memory as the only belief. When the plan is made,
  applying it makes the kept memory the one active memory of its scope, subject and project; the
  memories that compete with it stay stored with their scope, text and validity start, superseded and
  closed at the moment of the decision, with the kept memory in their \<open>supersedes\<close> field; every other
  memory, the kept one included, is as it was. The plan is refused exactly when the kept
  identifier is not an active memory of that subject in that scope.\<close>

theorem memory_resolve_keeps_one:
  assumes "ms_inv (en_store en)"
    and "project = Option.bind (ms_get keep (en_store en)) m_project"
    and "A = find_active_by_subject sc (normalize_subject subj) project (en_store en)"
  shows "case memory_resolve_plan now sc subj keep en of
      Inl _ \<Rightarrow> keep \<notin> m_id ` set A
    | Inr rows \<Rightarrow> keep \<in> m_id ` set A \<and>
        (let st' = en_store (snd (memory_apply_rows P cfg rows en))
         in map m_id (find_active_by_subject sc (normalize_subject subj) project st') = [keep] \<and>
            mems st' = {m \<in> mems (en_store en). m \<notin> set A \<or> m_id m = keep} \<union>
              (\<lambda>m. m\<lparr>m_state := Superseded, m_valid_to := Some now, m_updated_at := now, m_supersedes := Some keep\<rparr>) `
                {m \<in> set A. m_id m \<noteq> keep})"
proof (cases "keep \<in> m_id ` set A")
  case False
  then have "\<not> list_ex (\<lambda>m. m_id m = keep) A" by (auto simp: list_ex_iff)
  then show ?thesis using False assms(2,3) by (simp add: memory_resolve_plan_def Let_def)
next
  case True
  let ?L = "filter (\<lambda>m. m_id m \<noteq> keep) A"
  let ?rows = "map (loser_row keep now) ?L"
  define st' where "st' = en_store (fold (apply_row P cfg) ?rows en)"
  have plan: "memory_resolve_plan now sc subj keep en = Inr ?rows"
    using True assms(2,3) by (auto simp: memory_resolve_plan_def Let_def list_ex_iff)
  have dA: "distinct (map m_id A)" unfolding assms(3) by (rule distinct_find_active [OF assms(1)])
  have ids: "row_id ` set ?rows = m_id ` set ?L" by (simp add: image_image)
  have "distinct (map row_id ?rows)" using dA by (simp add: comp_def distinct_map_filter)
  from fold_apply_mems [OF assms(1) this, of P cfg]
  have mems: "mems st' = mr_memory ` set ?rows \<union> {x \<in> mems (en_store en). m_id x \<notin> m_id ` set ?L}"
    unfolding st'_def ids .
  have inv: "ms_inv st'" unfolding st'_def using assms(1) by (rule ms_inv_fold_apply)
  have AS: "set A \<subseteq> mems (en_store en)" unfolding assms(3) by (auto simp: in_find_active)
  have lost: "m_id x \<in> m_id ` set ?L \<longleftrightarrow> x \<in> set ?L" if "x \<in> mems (en_store en)" for x
  proof
    assume "m_id x \<in> m_id ` set ?L"
    then obtain y where "y \<in> set ?L" "m_id x = m_id y" by blast
    moreover from this have "y \<in> mems (en_store en)" using AS by auto
    ultimately show "x \<in> set ?L" using ms_inv_inj [OF assms(1) that] by metis
  qed blast
  obtain k where k: "k \<in> set A" "m_id k = keep" using True by blast
  let ?B = "find_active_by_subject sc (normalize_subject subj) project st'"
  have "x \<in> set ?B \<longleftrightarrow> x = k" for x
  proof -
    have "x \<in> set ?B \<longleftrightarrow> x \<in> mems (en_store en) \<and> m_id x \<notin> m_id ` set ?L \<and> x \<in> set A"
      unfolding in_find_active mems assms(3) by (auto simp: loser_row_def)
    also have "\<dots> \<longleftrightarrow> x \<in> set A \<and> m_id x = keep" using lost [of x] AS by auto
    also have "\<dots> \<longleftrightarrow> x = k" using k AS ms_inv_inj [OF assms(1)] by auto
    finally show ?thesis .
  qed
  then have "set ?B = {k}" by blast
  moreover have "distinct ?B" using distinct_find_active [OF inv] by (simp add: distinct_map)
  ultimately have "?B = [k]" by (rule distinct_singleton [rotated])
  moreover have "mems st' = {m \<in> mems (en_store en). m \<notin> set A \<or> m_id m = keep} \<union>
      (\<lambda>m. m\<lparr>m_state := Superseded, m_valid_to := Some now, m_updated_at := now, m_supersedes := Some keep\<rparr>) ` {m \<in> set A. m_id m \<noteq> keep}"
  proof -
    have "mr_memory ` set ?rows =
        (\<lambda>m. m\<lparr>m_state := Superseded, m_valid_to := Some now, m_updated_at := now, m_supersedes := Some keep\<rparr>) ` {m \<in> set A. m_id m \<noteq> keep}"
      by (simp add: image_image loser_row_def)
    moreover have "{x \<in> mems (en_store en). m_id x \<notin> m_id ` set ?L} = {m \<in> mems (en_store en). m \<notin> set A \<or> m_id m = keep}"
      using lost by auto
    ultimately show ?thesis unfolding mems by (simp only: Un_commute)
  qed
  ultimately show ?thesis using plan True k(2) by (simp add: memory_apply_rows_def st'_def Let_def)
qed

text \<open>Two contradicting memories under review, the older of which is kept.\<close>

definition demo_conflicted :: engine where
  "demo_conflicted =
    (case memory_add demo_ports (demo_cfg\<lparr>cg_contradiction_review := True\<rparr>) (demo_tick 2)
        (demo_input ''plan'' ''pro'') demo_engine1 of Inl _ \<Rightarrow> demo_engine1 | Inr (_, en) \<Rightarrow> en)"

theorem memory_resolve_keeps_one_witness:
  "\<exists>rows. memory_resolve_plan 50 (tenant_scope ''acme'') ''Plan'' 1 demo_conflicted = Inr rows \<and> length rows = 1 \<and>
    map m_id (find_active_by_subject (tenant_scope ''acme'') (normalize_subject ''Plan'') None
      (en_store (snd (memory_apply_rows demo_ports demo_cfg rows demo_conflicted)))) = [1]"
proof -
  have "case memory_resolve_plan 50 (tenant_scope ''acme'') ''Plan'' 1 demo_conflicted of
      Inl _ \<Rightarrow> False | Inr rows \<Rightarrow> length rows = 1" by code_simp
  then obtain rows where r: "memory_resolve_plan 50 (tenant_scope ''acme'') ''Plan'' 1 demo_conflicted = Inr rows"
    "length rows = 1" by (auto split: sum.splits)
  have inv: "ms_inv (en_store demo_conflicted)"
    and p: "None = Option.bind (ms_get 1 (en_store demo_conflicted)) m_project" by code_simp+
  from memory_resolve_keeps_one [where now = 50, OF inv p refl, of "tenant_scope ''acme''" "''Plan''" demo_ports demo_cfg] r
  show ?thesis by (simp add: Let_def)
qed

subsection \<open>The quota of a scope\<close>

definition scope_actives :: "memory_scope \<Rightarrow> memory_store \<Rightarrow> memory list" where
  "scope_actives sc st = order_by_desc m_importance (order_by_desc m_updated_at
    (ms_select (\<lambda>m. scope_where sc m \<and> m_state m = Active) st))"

lemma fold_delete_memories:
  "st_memories (fold ms_delete us st) = filter (\<lambda>r. row_id r \<notin> set us) (st_memories st)"
  by (induction us arbitrary: st) (auto simp: ms_delete_def tbl_delete_def conj_commute intro!: filter_cong)

lemma distinct_mems: "ms_inv st \<Longrightarrow> distinct (map m_id (map mr_memory (st_memories st)))"
  by (simp add: ms_inv_def tbl_inv_def comp_def)

lemma set_scope_actives:
  "m \<in> set (scope_actives sc st) \<longleftrightarrow> m \<in> mems st \<and> scope_where sc m \<and> m_state m = Active"
  by (auto simp: scope_actives_def)

lemma distinct_scope_actives: "ms_inv st \<Longrightarrow> distinct (map m_id (scope_actives sc st))"
proof -
  assume "ms_inv st"
  then have "distinct (map m_id (ms_select Q st))" for Q
    unfolding ms_select_def by (intro distinct_map_filter distinct_mems)
  then show ?thesis by (simp add: scope_actives_def order_by_desc_def distinct_map)
qed

lemma sorted_scope_actives: "sorted_wrt (\<lambda>a b. m_importance b \<le> m_importance a) (scope_actives sc st)"
proof -
  have "sorted (map (\<lambda>m. - m_importance m) (scope_actives sc st))"
    by (simp add: scope_actives_def order_by_desc_def)
  then show ?thesis by (simp add: sorted_map)
qed

text \<open>The quota keeps the most important. With a positive quota, the scope holds at most that many
  active memories afterwards; every memory it keeps is at least as important as every memory it
  drops; and whatever is not an active memory of that scope stays.\<close>

theorem enforce_scope_cap_keeps_best:
  assumes "ms_inv st" and "cap > 0" and "enforce_scope_cap sc cap st = (evicted, st')"
  shows "length (scope_actives sc st') \<le> cap \<and>
    (\<forall>kept \<in> set (scope_actives sc st'). \<forall>m \<in> mems st. m_id m \<in> set evicted \<longrightarrow>
       m_importance m \<le> m_importance kept) \<and>
    (\<forall>m \<in> mems st. m \<notin> set (scope_actives sc st) \<longrightarrow> m \<in> mems st') \<and> mems st' \<subseteq> mems st"
proof -
  let ?A = "scope_actives sc st"
  define ev where "ev = (if length ?A \<le> cap then [] else drop cap (map m_id ?A))"
  have ev: "evicted = ev" "st' = fold ms_delete ev st"
    using assms(2,3) by (auto simp: enforce_scope_cap_def scope_actives_def ev_def Let_def split: if_splits)
  have dA: "distinct (map m_id ?A)" using assms(1) by (rule distinct_scope_actives)
  have evs: "set ev = m_id ` set (drop cap ?A)" by (auto simp: ev_def drop_map)
  have mems: "mems st' = {m \<in> mems st. m_id m \<notin> set ev}"
    by (auto simp: mems_def ev fold_delete_memories)
  have inv: "ms_inv st'" using ev assms(1) by (simp add: ms_inv_fold_delete)
  have TD: "set ?A = set (take cap ?A) \<union> set (drop cap ?A)" by (metis append_take_drop_id set_append)
  have out: "m \<notin> set ?A \<Longrightarrow> m_id m \<notin> set ev" if "m \<in> mems st" for m
  proof
    assume "m \<notin> set ?A" "m_id m \<in> set ev"
    then obtain x where "x \<in> set ?A" "m_id m = m_id x" using evs TD by auto
    then show False using \<open>m \<notin> set ?A\<close> ms_inv_inj [OF assms(1) that] by (metis set_scope_actives)
  qed
  have kept: "set (scope_actives sc st') \<subseteq> set (take cap ?A)"
    using TD evs by (auto simp: set_scope_actives mems)
  have "distinct (map m_id (scope_actives sc st'))" using inv by (rule distinct_scope_actives)
  then have "length (scope_actives sc st') = card (set (scope_actives sc st'))"
    by (metis distinct_card distinct_map)
  also have "\<dots> \<le> card (set (take cap ?A))" using kept by (intro card_mono) auto
  also have "\<dots> \<le> cap" using card_length [of "take cap ?A"] by simp
  finally have len: "length (scope_actives sc st') \<le> cap" .
  have "sorted_wrt (\<lambda>a b. m_importance b \<le> m_importance a) (take cap ?A @ drop cap ?A)"
    using sorted_scope_actives by simp
  then have best: "m_importance x \<le> m_importance k" if "k \<in> set (take cap ?A)" "x \<in> set (drop cap ?A)" for k x
    using that by (simp only: sorted_wrt_append)
  have "m_importance m \<le> m_importance k"
    if k: "k \<in> set (scope_actives sc st')" and m: "m \<in> mems st" "m_id m \<in> set evicted" for k m
  proof -
    obtain x where x: "x \<in> set (drop cap ?A)" "m_id m = m_id x" using m(2) ev(1) evs by auto
    moreover have "x \<in> mems st" using x(1) TD set_scope_actives by blast
    ultimately have "m \<in> set (drop cap ?A)" using ms_inv_inj [OF assms(1) m(1)] by metis
    then show ?thesis using best k kept by blast
  qed
  then show ?thesis using len out mems by blast
qed

definition demo_full :: memory_store where
  "demo_full = fold (\<lambda>n. ms_upsert_raw ((memory_new (of_nat n) (int n) (tenant_scope ''acme'') ''fact'')
     \<lparr>m_importance := Fract (int n) 10\<rparr>) None) [3, 1, 2] ms_new"

theorem enforce_scope_cap_keeps_best_witness:
  "map m_id (scope_actives (tenant_scope ''acme'') (snd (enforce_scope_cap (tenant_scope ''acme'') 2 demo_full))) = [3, 2] \<and>
    length (scope_actives (tenant_scope ''acme'') (snd (enforce_scope_cap (tenant_scope ''acme'') 2 demo_full))) \<le> 2"
proof -
  have "ms_inv demo_full" by code_simp
  moreover have "map m_id (scope_actives (tenant_scope ''acme'')
      (snd (enforce_scope_cap (tenant_scope ''acme'') 2 demo_full))) = [3, 2]" by code_simp
  ultimately show ?thesis
    using enforce_scope_cap_keeps_best [of demo_full 2 "tenant_scope ''acme''"
      "fst (enforce_scope_cap (tenant_scope ''acme'') 2 demo_full)"] by simp
qed

subsection \<open>Tenants\<close>

text \<open>Erasing a tenant is complete and touches nobody else. Afterwards no memory and no graph edge of
  the tenant is stored and neither index knows an identifier of its memories; every memory and
  edge of every other tenant is as it was, and the count is the number of erased memories.\<close>

theorem delete_tenant_complete:
  assumes "advisory en" and "delete_tenant_memories t en = (n, en')"
  shows "mems (en_store en') = {m \<in> mems (en_store en). sc_tenant_id (m_scope m) \<noteq> t} \<and>
    st_edges (en_store en') = filter (\<lambda>e. er_tenant e \<noteq> t) (st_edges (en_store en)) \<and>
    (\<forall>m \<in> mems (en_store en). sc_tenant_id (m_scope m) = t \<longrightarrow>
       m_id m \<notin> lx_ids (en_lex en') \<and> m_id m \<notin> sv_ids (en_vec en')) \<and>
    n = card {m \<in> mems (en_store en). sc_tenant_id (m_scope m) = t}"
proof -
  let ?hit = "\<lambda>r. sc_tenant_id (m_scope (mr_memory r)) = t"
  have inv: "ms_inv (en_store en)" using assms(1) by (simp add: advisory_def)
  have en': "en' = snd (delete_tenant_memories t en)" using assms(2) by simp
  have adv: "advisory en'" unfolding en' by (rule advisory_delete_tenant [OF assms(1)])
  have st: "en_store en' = snd (delete_by_tenant t (en_store en))"
    unfolding en' by (simp add: delete_tenant_memories_def split: prod.split)
  have mems: "mems (en_store en') = {m \<in> mems (en_store en). sc_tenant_id (m_scope m) \<noteq> t}"
    by (auto simp: st delete_by_tenant_def Let_def mems_def)
  have gone: "m_id m \<notin> active_ids (st_memories (en_store en'))"
    if "m \<in> mems (en_store en)" "sc_tenant_id (m_scope m) = t" for m
  proof
    assume "m_id m \<in> active_ids (st_memories (en_store en'))"
    then obtain x where "x \<in> mems (en_store en')" "m_id x = m_id m" by (rule active_idsE)
    then show False using mems that ms_inv_inj [OF inv] by blast
  qed
  have "n = length (filter ?hit (st_memories (en_store en)))"
    using assms(2) by (simp add: delete_tenant_memories_def delete_by_tenant_def Let_def)
  also have "\<dots> = length (filter (\<lambda>m. sc_tenant_id (m_scope m) = t) (map mr_memory (st_memories (en_store en))))"
    by (simp add: filter_map comp_def)
  also have "\<dots> = card {m \<in> mems (en_store en). sc_tenant_id (m_scope m) = t}"
  proof -
    have "distinct (map mr_memory (st_memories (en_store en)))" using distinct_mems [OF inv] by (metis distinct_map)
    then have "distinct (filter (\<lambda>m. sc_tenant_id (m_scope m) = t) (map mr_memory (st_memories (en_store en))))"
      by (rule distinct_filter)
    from distinct_card [OF this] show ?thesis by (simp add: mems_def)
  qed
  finally have n: "n = card {m \<in> mems (en_store en). sc_tenant_id (m_scope m) = t}" .
  have "st_edges (en_store en') = filter (\<lambda>e. er_tenant e \<noteq> t) (st_edges (en_store en))"
    by (simp add: st delete_by_tenant_def Let_def tbl_delete_def)
  then show ?thesis using mems n gone adv unfolding advisory_def lxa.mirrors_def sva.mirrors_def by blast
qed

theorem delete_tenant_complete_witness:
  "en_store (snd (delete_tenant_memories ''acme'' demo_engine1)) = ms_new \<and>
    fst (delete_tenant_memories ''acme'' demo_engine1) = 1 \<and>
    mems (en_store (snd (delete_tenant_memories ''acme'' demo_engine1))) =
      {m \<in> mems (en_store demo_engine1). sc_tenant_id (m_scope m) \<noteq> ''acme''}"
proof -
  have "advisory demo_engine1"
  proof -
    have "advisory demo_engine" unfolding demo_engine_def by (rule advisory_new)
    moreover have "\<exists>res. memory_add demo_ports demo_cfg (demo_tick 1) (demo_input ''plan'' ''free'') demo_engine =
        Inr (res, demo_engine1) \<or> demo_engine1 = demo_engine"
      by (auto simp: demo_engine1_def run_add_def split: sum.split)
    ultimately show ?thesis using advisory_memory_add by metis
  qed
  moreover have "en_store (snd (delete_tenant_memories ''acme'' demo_engine1)) = ms_new"
    "fst (delete_tenant_memories ''acme'' demo_engine1) = 1" by code_simp+
  moreover have "delete_tenant_memories ''acme'' demo_engine1 = (fst (delete_tenant_memories ''acme'' demo_engine1),
      snd (delete_tenant_memories ''acme'' demo_engine1))" by simp
  ultimately show ?thesis using delete_tenant_complete by blast
qed

lemma get_scoped_foreign:
  assumes "ms_inv st" and "ms_get u st = Some m" and "sc_tenant_id (m_scope m) \<noteq> t"
  shows "ms_get_scoped u t st = None"
proof (rule ccontr)
  assume "ms_get_scoped u t st \<noteq> None"
  then obtain x where "ms_get_scoped u t st = Some x" by blast
  then have "x \<in> mems st" "m_id x = u" "sc_tenant_id (m_scope x) = t" using get_scoped_iff [OF assms(1)] by auto
  then show False using assms ms_get_iff [OF assms(1)] ms_inv_inj [OF assms(1)] by metis
qed

text \<open>A tenant cannot act on another tenant's memory. For an identifier that belongs to another
  tenant, reading it, correcting it, giving feedback on it, deleting it and deciding it as a
  proposal all answer that it does not exist, and change nothing.\<close>

theorem foreign_tenant_refused:
  assumes "ms_inv (en_store en)" and "ms_get u (en_store en) = Some m" and "sc_tenant_id (m_scope m) \<noteq> t"
  shows "get_for u (Some t) en = None \<and>
    memory_update P cfg re now u patch (Some t) en = (None, en) \<and>
    memory_feedback_plan now u (Some t) verdict en = None \<and>
    memory_delete_scoped u t en = (False, en) \<and>
    memory_accept P cfg tk now u t en = Inr (None, en) \<and>
    memory_reject P now u t en = (False, en)"
proof -
  have none: "ms_get_scoped u t (en_store en) = None" by (rule get_scoped_foreign [OF assms])
  have "\<not> (row_id r = u \<and> sc_tenant_id (m_scope (mr_memory r)) = t)" if "r \<in> set (st_memories (en_store en))" for r
    using that assms ms_get_iff [OF assms(1), of u "mr_memory r"] by (auto simp: mems_def)
  then have "delete_scoped u t (en_store en) = (False, en_store en)"
    by (auto simp: delete_scoped_def tbl_delete_def list_ex_iff Let_def filter_id_conv)
  then show ?thesis using none
    by (simp add: get_for_def memory_update_def memory_update_plan_def memory_feedback_plan_def
        memory_delete_scoped_def memory_accept_def memory_reject_def pending_of_def)
qed

theorem foreign_tenant_refused_witness:
  "memory_delete_scoped 1 ''other'' demo_engine1 = (False, demo_engine1) \<and>
    fst (memory_delete_scoped 1 ''acme'' demo_engine1)"
proof -
  have "ms_inv (en_store demo_engine1)"
    "case ms_get 1 (en_store demo_engine1) of None \<Rightarrow> False | Some m \<Rightarrow> sc_tenant_id (m_scope m) \<noteq> ''other''"
    by code_simp+
  then have "memory_delete_scoped 1 ''other'' demo_engine1 = (False, demo_engine1)"
    using foreign_tenant_refused by (auto split: option.splits)
  moreover have "fst (memory_delete_scoped 1 ''acme'' demo_engine1)" by code_simp
  ultimately show ?thesis by blast
qed

lemma memories_fold_upsert:
  assumes "ms_inv st" and "distinct (map m_id ms)"
  shows "mems (fold (\<lambda>m. ms_upsert_raw m None) ms st) = set ms \<union> {x \<in> mems st. m_id x \<notin> m_id ` set ms}"
proof -
  have "fold (\<lambda>m. ms_upsert_raw m None) ms st = fold ms_put_row (map (\<lambda>m. \<lparr>mr_memory = m, mr_embedding = None\<rparr>) ms) st"
    by (simp add: fold_map comp_def ms_put_row_def [abs_def])
  then show ?thesis
    using mems_fold_put [OF assms(1), of "map (\<lambda>m. \<lparr>mr_memory = m, mr_embedding = None\<rparr>) ms"] assms(2)
    by (simp add: comp_def image_image)
qed

lemma migrate_tenant_mems:
  assumes "ms_inv (en_store src)" and "ms_inv (en_store dest)"
    and "length (ms_select (\<lambda>m. sc_tenant_id (m_scope m) = t \<and> m_state m = Active) (en_store src))
      \<le> clamp_limit 1000000 (cg_max_rows cfg)"
    and "migrate_tenant_memories_to cfg t src dest = (n, src', dest')"
  shows "mems (en_store src') = {m \<in> mems (en_store src). sc_tenant_id (m_scope m) \<noteq> t} \<and>
    mems (en_store dest') =
      {m \<in> mems (en_store src). sc_tenant_id (m_scope m) = t \<and> m_state m = Active} \<union>
      {x \<in> mems (en_store dest). \<nexists>m. m \<in> mems (en_store src) \<and> sc_tenant_id (m_scope m) = t \<and>
         m_state m = Active \<and> m_id m = m_id x}"
proof -
  let ?Q = "\<lambda>m. sc_tenant_id (m_scope m) = t \<and> m_state m = Active"
  define ms where "ms = export_tenant_memories cfg t src"
  have ms: "ms = order_by_desc m_updated_at (ms_select ?Q (en_store src))"
    using assms(3) by (simp add: ms_def export_tenant_memories_def list_by_tenant_def order_by_desc_def)
  then have S: "set ms = {m \<in> mems (en_store src). ?Q m}" by auto
  have "distinct (map m_id (ms_select ?Q (en_store src)))"
    unfolding ms_select_def by (intro distinct_map_filter distinct_mems assms(1))
  then have "distinct (map m_id ms)" by (simp add: ms order_by_desc_def distinct_map)
  then have dest: "mems (fold (\<lambda>m. ms_upsert_raw m None) ms (en_store dest)) =
      set ms \<union> {x \<in> mems (en_store dest). m_id x \<notin> m_id ` set ms}"
    using memories_fold_upsert [OF assms(2)] by blast
  have en: "en_store dest' = fold (\<lambda>m. ms_upsert_raw m None) ms (en_store dest)"
    "en_store src' = snd (delete_by_tenant t (en_store src))"
    using assms(4) unfolding ms_def by (auto simp: migrate_tenant_memories_to_def import_memories_def Let_def
        split: prod.splits)
  have "mems (en_store src') = {m \<in> mems (en_store src). sc_tenant_id (m_scope m) \<noteq> t}"
    by (auto simp: en delete_by_tenant_def Let_def mems_def)
  moreover have "mems (en_store dest') = {m \<in> mems (en_store src). ?Q m} \<union>
      {x \<in> mems (en_store dest). m_id x \<notin> m_id ` {m \<in> mems (en_store src). ?Q m}}"
    unfolding en dest S ..
  ultimately show ?thesis by (auto simp: image_iff)
qed

text \<open>What a tenant move carries. When the tenant has no more active memories than the export limit,
  the destination holds all of them afterwards, and the source holds no memory of the tenant at all:
  superseded, expired and pending memories are removed from the source without being copied.\<close>

theorem migrate_tenant_moves_active:
  assumes "ms_inv (en_store src)" and "ms_inv (en_store dest)"
    and "length (ms_select (\<lambda>m. sc_tenant_id (m_scope m) = t \<and> m_state m = Active) (en_store src))
      \<le> clamp_limit 1000000 (cg_max_rows cfg)"
    and "migrate_tenant_memories_to cfg t src dest = (n, src', dest')"
  shows "mems (en_store src') = {m \<in> mems (en_store src). sc_tenant_id (m_scope m) \<noteq> t} \<and>
    mems (en_store dest') =
      {m \<in> mems (en_store src). sc_tenant_id (m_scope m) = t \<and> m_state m = Active} \<union>
      {x \<in> mems (en_store dest). \<nexists>m. m \<in> mems (en_store src) \<and> sc_tenant_id (m_scope m) = t \<and>
         m_state m = Active \<and> m_id m = m_id x}"
  using assms by (rule migrate_tenant_mems)

text \<open>A tenant with one superseded and one active memory: the move drops the superseded one.\<close>

theorem migrate_tenant_moves_active_witness:
  "let src = run_add 2 (demo_input ''plan'' ''pro'') demo_engine1;
       moved = migrate_tenant_memories_to demo_cfg ''acme'' src demo_engine
   in m_id ` mems (en_store src) = {1, 2} \<and> mems (en_store (fst (snd moved))) = {} \<and>
      m_id ` mems (en_store (snd (snd moved))) = {2}"
proof -
  let ?src = "run_add 2 (demo_input ''plan'' ''pro'') demo_engine1"
  let ?mv = "migrate_tenant_memories_to demo_cfg ''acme'' ?src demo_engine"
  let ?Q = "\<lambda>m. sc_tenant_id (m_scope m) = ''acme'' \<and> m_state m = Active"
  have inv: "ms_inv (en_store ?src)" "ms_inv (en_store demo_engine)" by code_simp+
  have sel: "map m_id (ms_select ?Q (en_store ?src)) = [2]" by code_simp
  from arg_cong [OF this, of length] have "length (ms_select ?Q (en_store ?src)) = 1" by simp
  then have len: "length (ms_select ?Q (en_store ?src)) \<le> clamp_limit 1000000 (cg_max_rows demo_cfg)"
    by (simp add: clamp_limit_def demo_cfg_def)
  have mv: "?mv = (fst ?mv, fst (snd ?mv), snd (snd ?mv))" by simp
  note moved = migrate_tenant_moves_active [OF inv len mv]
  have all: "\<forall>m \<in> mems (en_store ?src). sc_tenant_id (m_scope m) = ''acme''" by code_simp
  have none: "mems (en_store demo_engine) = {}" by code_simp
  have "{m \<in> mems (en_store ?src). ?Q m} = set (ms_select ?Q (en_store ?src))" by auto
  then have "m_id ` {m \<in> mems (en_store ?src). ?Q m} = {2}"
    using arg_cong [OF sel, of set] by (simp only: set_map) simp
  then have "m_id ` mems (en_store (snd (snd ?mv))) = {2}" using moved none by simp
  moreover have "mems (en_store (fst (snd ?mv))) = {}" using moved all by blast
  moreover have "m_id ` mems (en_store ?src) = {1, 2}" by code_simp
  ultimately show ?thesis by (simp add: Let_def)
qed

subsection \<open>Governance\<close>

text \<open>The rules of a tenant, as the engine applies them to a canonical input.\<close>

definition governed :: "ports \<Rightarrow> cognition_config \<Rightarrow> memory_input \<Rightarrow> bool" where
  "governed P cfg input \<longleftrightarrow>
    (let i = canonical_input input; rules = for_tenant (cg_governance cfg) (sc_tenant_id (i_scope i))
     in (eg_require_provenance rules \<longrightarrow> has_provenance (i_metadata i) (i_source_event_ids i)) \<and>
        (eg_fact_validation rules = Strict \<longrightarrow> pt_validate P (i_subject i) (i_metadata i) = []))"

lemma check_governance_iff:
  "check_governance P cfg (i_scope (canonical_input i)) (i_subject (canonical_input i))
      (i_metadata (canonical_input i)) (i_source_event_ids (canonical_input i)) = Inr () \<longleftrightarrow> governed P cfg i"
  by (auto simp: check_governance_def governed_def is_permissive_def Let_def)

lemma check_governance_cases:
  obtains "governed P cfg i" "check_governance P cfg (i_scope (canonical_input i)) (i_subject (canonical_input i))
      (i_metadata (canonical_input i)) (i_source_event_ids (canonical_input i)) = Inr ()"
  | e where "\<not> governed P cfg i" "check_governance P cfg (i_scope (canonical_input i)) (i_subject (canonical_input i))
      (i_metadata (canonical_input i)) (i_source_event_ids (canonical_input i)) = Inl (Validation e)"
proof (cases "governed P cfg i")
  case True then show ?thesis using that(1) check_governance_iff by blast
next
  case False
  then have "\<exists>e. check_governance P cfg (i_scope (canonical_input i)) (i_subject (canonical_input i))
      (i_metadata (canonical_input i)) (i_source_event_ids (canonical_input i)) = Inl (Validation e)"
    by (auto simp: check_governance_def governed_def is_permissive_def Let_def)
  then show ?thesis using that(2) False by blast
qed

text \<open>Governance gates every write. With no embedding for the text, a write succeeds exactly when the
  rules of its tenant are met: provenance where it is required and a valid fact where validation is
  strict; otherwise it fails as a validation error. A proposal is held to the same rules.\<close>

theorem memory_add_governed:
  assumes "pt_embed P (i_content input) = None"
  shows "(case memory_add P cfg tk input en of Inr _ \<Rightarrow> governed P cfg input
      | Inl e \<Rightarrow> \<not> governed P cfg input \<and> (\<exists>msg. e = Validation msg)) \<and>
    (case memory_propose P cfg tk input en of Inr _ \<Rightarrow> governed P cfg input
      | Inl e \<Rightarrow> \<not> governed P cfg input \<and> (\<exists>msg. e = Validation msg))"
proof (rule check_governance_cases [of P cfg input])
  assume "governed P cfg input" "check_governance P cfg (i_scope (canonical_input input))
    (i_subject (canonical_input input)) (i_metadata (canonical_input input))
    (i_source_event_ids (canonical_input input)) = Inr ()"
  then show ?thesis using assms
    by (auto simp: memory_add_def memory_plan_def memory_plan_with_embedding_def memory_propose_def Let_def
        split: option.splits list.splits prod.splits)
next
  fix e
  assume "\<not> governed P cfg input" "check_governance P cfg (i_scope (canonical_input input))
    (i_subject (canonical_input input)) (i_metadata (canonical_input input))
    (i_source_event_ids (canonical_input input)) = Inl (Validation e)"
  then show ?thesis
    by (simp add: memory_add_def memory_plan_def memory_plan_with_embedding_def memory_propose_def Let_def)
qed

theorem memory_add_governed_witness:
  "let cfg = demo_cfg\<lparr>cg_governance := \<lparr>gc_require_provenance = True, gc_fact_validation = Off,
         gc_tenants = [(''lab'', \<lparr>tg_require_provenance = Some False, tg_fact_validation = None\<rparr>)]\<rparr>\<rparr>
   in (case memory_add demo_ports cfg (demo_tick 2) (demo_input ''plan'' ''pro'') demo_engine1 of
         Inl e \<Rightarrow> \<exists>msg. e = Validation msg | Inr _ \<Rightarrow> False)"
proof -
  let ?cfg = "demo_cfg\<lparr>cg_governance := \<lparr>gc_require_provenance = True, gc_fact_validation = Off,
         gc_tenants = [(''lab'', \<lparr>tg_require_provenance = Some False, tg_fact_validation = None\<rparr>)]\<rparr>\<rparr>"
  have "\<not> governed demo_ports ?cfg (demo_input ''plan'' ''pro'')" by code_simp
  moreover have "pt_embed demo_ports (i_content (demo_input ''plan'' ''pro'')) = None" by code_simp
  note memory_add_governed [OF this, of ?cfg "demo_tick 2" demo_engine1]
  ultimately show ?thesis by (auto simp: Let_def split: sum.splits)
qed

end
