(* ===== verification/Memory_Reads.thy ===== *)
theory Memory_Reads
  imports Memory_Store Lexical_Index
begin

text \<open>
  What the read operations of \<open>cognition.rs\<close> and \<open>lexical.rs\<close> answer: the memory valid at an
  instant, the hydration of search candidates by identifier, the sections of a document, and the
  full-text expression built from a user's words.
\<close>

subsection \<open>The memory valid at an instant\<close>

lemma hd_order_by_desc:
  fixes f :: "'a \<Rightarrow> int"
  assumes "order_by_desc f xs = y # ys" shows "y \<in> set xs \<and> (\<forall>x \<in> set xs. f x \<le> f y)"
proof -
  have "set xs = insert y (set ys)" using arg_cong [OF assms, of set] by simp
  moreover have "sorted (map (\<lambda>r. - f r) (y # ys))"
    unfolding assms [symmetric] order_by_desc_def by simp
  ultimately show ?thesis by auto
qed

text \<open>A point-in-time read answers with a memory that was valid then. It is of the asked scope and
  subject, its validity interval contains the instant, and no other such memory became valid
  later; nothing is answered exactly when no memory of the scope and subject was valid then.\<close>

theorem as_of_latest_valid:
  "case as_of sc s t st of
     Some m \<Rightarrow> m \<in> mems st \<and> m_scope m = norm_scope sc \<and> m_subject m = Some s \<and> valid_at t m \<and>
       (\<forall>x \<in> mems st. m_scope x = norm_scope sc \<and> m_subject x = Some s \<and> valid_at t x \<longrightarrow>
          m_valid_from x \<le> m_valid_from m)
   | None \<Rightarrow> \<not> (\<exists>x \<in> mems st. m_scope x = norm_scope sc \<and> m_subject x = Some s \<and> valid_at t x)"
proof -
  let ?Q = "\<lambda>m. scope_where sc m \<and> m_subject m = Some s \<and> valid_at t m"
  have mem: "x \<in> set (ms_select ?Q st) \<longleftrightarrow> x \<in> mems st \<and> m_scope x = norm_scope sc \<and> m_subject x = Some s \<and> valid_at t x" for x
    by (auto simp: scope_where_iff)
  show ?thesis
  proof (cases "order_by_desc m_valid_from (ms_select ?Q st)")
    case Nil
    then have "set (ms_select ?Q st) = {}" by simp
    then show ?thesis using Nil mem by (auto simp: as_of_def)
  next
    case (Cons m ms)
    have "m_valid_from x \<le> m_valid_from m" if "x \<in> mems st" "m_scope x = norm_scope sc \<and> m_subject x = Some s \<and> valid_at t x" for x
      using hd_order_by_desc [OF Cons] mem [of x] that by blast
    moreover have "m \<in> set (ms_select ?Q st)" using hd_order_by_desc [OF Cons] by blast
    ultimately show ?thesis using Cons unfolding mem by (simp add: as_of_def)
  qed
qed

theorem as_of_latest_valid_witness:
  "\<not> (\<exists>x \<in> mems ms_new. m_scope x = norm_scope (tenant_scope ''acme'') \<and> m_subject x = Some ''plan'' \<and> valid_at 3 x)"
proof -
  have "as_of (tenant_scope ''acme'') ''plan'' 3 ms_new = None" by code_simp
  then show ?thesis using as_of_latest_valid [of ms_new "tenant_scope ''acme''" "''plan''" 3] by simp
qed

subsection \<open>Hydrating candidates\<close>

lemma take_found_spec:
  "set (take_found is found) = {m. \<exists>i \<in> set is. found i = Some m}"
proof (induction "is" found rule: take_found.induct)
  case (2 i "is" found)
  show ?case
  proof (cases "found i")
    case None then show ?thesis using 2(1) by auto
  next
    case (Some m)
    have "set (take_found is (found(i := None))) = {m. \<exists>j \<in> set is. (found(i := None)) j = Some m}"
      using 2(2) [OF Some] .
    then have "set (take_found (i # is) found) = insert m {n. \<exists>j \<in> set is. j \<noteq> i \<and> found j = Some n}"
      using Some by auto
    also have "\<dots> = {n. \<exists>j \<in> insert i (set is). found j = Some n}"
    proof (intro equalityI subsetI CollectI)
      fix n assume "n \<in> {n. \<exists>j \<in> insert i (set is). found j = Some n}"
      then obtain j where "j = i \<or> j \<in> set is" "found j = Some n" by blast
      then show "n \<in> insert m {n. \<exists>j \<in> set is. j \<noteq> i \<and> found j = Some n}" using Some by (cases "j = i") auto
    qed (use Some in auto)
    finally show ?thesis by simp
  qed
qed simp

lemma take_found_subseq:
  assumes "\<And>i m. found i = Some m \<Longrightarrow> m_id m = i"
  shows "subseq (map m_id (take_found is found)) is \<and> distinct (map m_id (take_found is found))"
  using assms
proof (induction "is" found rule: take_found.induct)
  case (2 i "is" found)
  show ?case
  proof (cases "found i")
    case None then show ?thesis using 2(1,3) by (simp add: list_emb_Cons)
  next
    case (Some m)
    define g where "g = found(i := None)"
    have f: "m_id n = j" "j \<noteq> i" if "g j = Some n" for j n using that 2(3) by (auto simp: g_def split: if_splits)
    have IH: "subseq (map m_id (take_found is g)) is \<and> distinct (map m_id (take_found is g))"
      using 2(2) [OF Some] f(1) unfolding g_def by blast
    have "i \<notin> m_id ` set (take_found is g)"
    proof
      assume "i \<in> m_id ` set (take_found is g)"
      then obtain n where "n \<in> set (take_found is g)" "m_id n = i" by auto
      then obtain j where "g j = Some n" unfolding take_found_spec by blast
      then show False using f [of j n] \<open>m_id n = i\<close> by simp
    qed
    moreover have "take_found (i # is) found = m # take_found is g" using Some by (simp add: g_def)
    ultimately show ?thesis using IH 2(3) [OF Some] by simp
  qed
qed simp

text \<open>Recording one row of the query in the map of found memories.\<close>

definition note_found :: "memory \<Rightarrow> (uuid \<Rightarrow> memory option) \<Rightarrow> uuid \<Rightarrow> memory option" where
  "note_found m found = found(m_id m := Some m)"

lemma note_found_apply: "note_found m found k = (if k = m_id m then Some m else found k)"
  by (simp add: note_found_def)

lemma get_active_by_ids_found:
  "get_active_by_ids ids sc st = (if ids = [] then [] else take_found ids
    (fold (\<lambda>chunk found. fold note_found (ms_select (\<lambda>m. scope_where sc m \<and> m_state m = Active \<and> m_id m \<in> set chunk) st) found)
      (chunks_of 512 ids) (\<lambda>_. None)))"
  by (simp add: get_active_by_ids_def note_found_def [abs_def])

lemma fold_found_other: "k \<notin> m_id ` set ms \<Longrightarrow> fold note_found ms f k = f k"
  by (induction ms arbitrary: f) (auto simp: note_found_apply)

lemma fold_found_snoc:
  "fold note_found (ys @ [y]) f k = (if k = m_id y then Some y else fold note_found ys f k)"
proof -
  have "fold note_found (ys @ [y]) f k = note_found y (fold note_found ys f) k" by simp
  then show ?thesis unfolding note_found_apply .
qed

lemma fold_found_in:
  assumes "x \<in> set ms" and "m_id x = k" and "\<And>y. y \<in> set ms \<Longrightarrow> m_id y = k \<Longrightarrow> y = x"
  shows "fold note_found ms f k = Some x"
  using assms
proof (induction ms rule: rev_induct)
  case (snoc y ys)
  show ?case
  proof (cases "m_id y = k")
    case True then show ?thesis using snoc.prems(3) [of y] unfolding fold_found_snoc by simp
  next
    case False
    then have "x \<in> set ys" using snoc.prems(1,2) by auto
    then have "fold note_found ys f k = Some x" using snoc.prems(2)
      by (rule snoc.IH) (rule snoc.prems(3), simp_all)
    then show ?thesis using False unfolding fold_found_snoc by simp
  qed
qed simp

definition hit_at :: "(memory \<Rightarrow> bool) \<Rightarrow> memory_store \<Rightarrow> uuid \<Rightarrow> memory option" where
  "hit_at Q st k = (case ms_get k st of None \<Rightarrow> None | Some m \<Rightarrow> if Q m then Some m else None)"

lemma hit_at_iff: "ms_inv st \<Longrightarrow> hit_at Q st k = Some m \<longleftrightarrow> m \<in> mems st \<and> Q m \<and> m_id m = k"
proof -
  assume inv: "ms_inv st"
  have "hit_at Q st k = Some m \<longleftrightarrow> ms_get k st = Some m \<and> Q m" by (auto simp: hit_at_def split: option.split)
  then show ?thesis using ms_get_iff [OF inv] by auto
qed

lemma found_chunk:
  assumes "ms_inv st"
  shows "fold note_found (ms_select (\<lambda>m. Q m \<and> m_id m \<in> set c) st) f k =
    (if k \<in> set c \<and> hit_at Q st k \<noteq> None then hit_at Q st k else f k)"
proof (cases "\<exists>x. k \<in> set c \<and> hit_at Q st k = Some x")
  case True
  then obtain x where x: "k \<in> set c" "hit_at Q st k = Some x" by blast
  then have m: "x \<in> mems st" "Q x" "m_id x = k" using hit_at_iff [OF assms] by auto
  have "fold note_found (ms_select (\<lambda>m. Q m \<and> m_id m \<in> set c) st) f k = Some x"
    by (rule fold_found_in) (use m x(1) ms_inv_inj [OF assms] in auto)
  then show ?thesis using x by simp
next
  case False
  have "k \<notin> m_id ` set (ms_select (\<lambda>m. Q m \<and> m_id m \<in> set c) st)"
    using False hit_at_iff [OF assms, of Q k] by auto
  then show ?thesis using False fold_found_other by auto
qed

lemma found_chunks:
  assumes "ms_inv st"
  shows "fold (\<lambda>chunk. fold note_found (ms_select (\<lambda>m. Q m \<and> m_id m \<in> set chunk) st)) cs f k =
    (if k \<in> set (concat cs) \<and> hit_at Q st k \<noteq> None then hit_at Q st k else f k)"
  by (induction cs arbitrary: f) (auto simp: found_chunk [OF assms])

lemma get_active_by_ids_taken:
  assumes "ms_inv st"
  shows "\<exists>found. get_active_by_ids ids sc st = take_found ids found \<and>
    (\<forall>k m. found k = Some m \<longleftrightarrow> m \<in> mems st \<and> m_scope m = norm_scope sc \<and> m_state m = Active \<and> m_id m = k \<and> k \<in> set ids)"
proof (cases "ids = []")
  case False
  let ?Q = "\<lambda>m. scope_where sc m \<and> m_state m = Active"
  define found where "found = fold (\<lambda>chunk. fold note_found (ms_select (\<lambda>m. ?Q m \<and> m_id m \<in> set chunk) st))
      (chunks_of 512 ids) (\<lambda>_. None)"
  have "found k = (if k \<in> set ids then hit_at ?Q st k else None)" for k
    unfolding found_def found_chunks [OF assms] concat_chunks_of by simp
  then have "found k = Some m \<longleftrightarrow> m \<in> mems st \<and> ?Q m \<and> m_id m = k \<and> k \<in> set ids" for k m
    using hit_at_iff [OF assms] by auto
  moreover have "get_active_by_ids ids sc st = take_found ids found"
    using False by (simp add: get_active_by_ids_found found_def)
  ultimately show ?thesis by (auto simp: scope_where_iff)
qed (auto simp: get_active_by_ids_def intro!: exI [of _ "\<lambda>_. None"])

lemma set_get_active_by_ids:
  assumes "ms_inv st"
  shows "set (get_active_by_ids ids sc st) = {m \<in> mems st. m_id m \<in> set ids \<and> m_scope m = norm_scope sc \<and> m_state m = Active}"
proof -
  obtain found where "get_active_by_ids ids sc st = take_found ids found"
    and f: "\<And>k m. found k = Some m \<longleftrightarrow> m \<in> mems st \<and> m_scope m = norm_scope sc \<and> m_state m = Active \<and> m_id m = k \<and> k \<in> set ids"
    using get_active_by_ids_taken [OF assms] by blast
  then show ?thesis by (auto simp: take_found_spec)
qed

text \<open>Hydration by identifier is exact. The answer lists, without repetition and in the order of the
  candidates, precisely the stored memories among the candidate identifiers that are active and of
  the asked scope: whatever an index proposed, a memory of another scope or no longer active is
  left out. The chunking of the candidates into groups of 512 does not show.\<close>

theorem get_active_by_ids_exact:
  assumes "ms_inv st"
  shows "set (get_active_by_ids ids sc st) =
      {m \<in> mems st. m_id m \<in> set ids \<and> m_scope m = norm_scope sc \<and> m_state m = Active} \<and>
    subseq (map m_id (get_active_by_ids ids sc st)) ids \<and> distinct (map m_id (get_active_by_ids ids sc st))"
proof -
  obtain found where eq: "get_active_by_ids ids sc st = take_found ids found"
    and f: "\<And>k m. found k = Some m \<longleftrightarrow> m \<in> mems st \<and> m_scope m = norm_scope sc \<and> m_state m = Active \<and> m_id m = k \<and> k \<in> set ids"
    using get_active_by_ids_taken [OF assms] by blast
  have "m_id m = i" if "found i = Some m" for i m using that f by simp
  from take_found_subseq [of found, OF this, of ids] show ?thesis
    unfolding set_get_active_by_ids [OF assms] by (simp add: eq)
qed

theorem get_active_by_ids_exact_witness:
  "let st = ms_upsert_raw ((memory_new 2 0 (tenant_scope ''acme'') ''b'')\<lparr>m_state := Expired\<rparr>) None
        (ms_upsert_raw (memory_new 1 0 (tenant_scope ''acme'') ''a'') None ms_new)
   in map m_id (get_active_by_ids [2, 1, 1] (tenant_scope ''acme'') st) = [1] \<and>
      distinct (map m_id (get_active_by_ids [2, 1, 1] (tenant_scope ''acme'') st))"
proof -
  let ?st = "ms_upsert_raw ((memory_new 2 0 (tenant_scope ''acme'') ''b'')\<lparr>m_state := Expired\<rparr>) None
        (ms_upsert_raw (memory_new 1 0 (tenant_scope ''acme'') ''a'') None ms_new)"
  have "ms_inv ?st" by code_simp
  moreover have "map m_id (get_active_by_ids [2, 1, 1] (tenant_scope ''acme'') ?st) = [1]" by code_simp
  ultimately show ?thesis using get_active_by_ids_exact [of ?st "[2, 1, 1]" "tenant_scope ''acme''"] by (simp add: Let_def)
qed

subsection \<open>The sections of a document\<close>

text \<open>The sections of a document are matched literally. For any path, whatever \<open>%\<close>, \<open>_\<close> or
  backslash it contains, the answer is the active memories of the scope whose subject is the
  canonical path or starts with the canonical path and a hash sign.\<close>

theorem find_active_by_document_literal:
  "set (find_active_by_document sc path st) =
    {m \<in> mems st. m_scope m = norm_scope sc \<and> m_state m = Active \<and>
      (\<exists>s. m_subject m = Some s \<and> (s = normalize_subject path \<or> prefix (normalize_subject path @ ''#'') s))}"
proof -
  have pat: "like_escape_match (like_escape p @ ''#%'') s \<longleftrightarrow> prefix (p @ ''#'') s" for p s
  proof -
    have "like_escape_match ''#%'' u \<longleftrightarrow> (\<exists>v. u = CHR ''#'' # v)" for u
      using like_match_percent by (cases u) auto
    then show ?thesis by (auto simp: like_match_escaped prefix_def)
  qed
  show ?thesis
    by (auto simp: find_active_by_document_def Let_def pat scope_where_iff split: option.splits)
qed

subsection \<open>Full-text expressions\<close>

lemma trim_matches_set: "set (trim_matches P s) \<subseteq> set s"
  by (auto simp: trim_matches_def trim_end_matches_def trim_start_matches_def dest!: set_dropWhileD)

lemma is_term_char_lower: "is_term_char c \<Longrightarrow> is_term_char (lower_char c)"
proof (cases "is_upper_ascii c")
  case True
  then have "is_lower_ascii (lower_char c)" by (auto simp: is_lower_ascii_def is_upper_ascii_def)
  then show ?thesis by (simp add: is_term_char_def is_alnum_def)
next
  case False
  assume "is_term_char c"
  then show ?thesis using False by (simp add: lower_char_def)
qed

lemma match_terms_chars:
  assumes "t \<in> set (match_terms q)" shows "t \<noteq> [] \<and> (\<forall>c \<in> set t. is_term_char c)"
proof -
  let ?P = "\<lambda>c. c = CHR ''.'' \<or> c = CHR ''-'' \<or> c = CHR ''_''"
  obtain w where w: "w \<in> set (split_on (\<lambda>c. \<not> is_term_char c) q)" "t = to_lowercase (trim_matches ?P w)"
    "trim_matches ?P w \<noteq> []" using assms unfolding match_terms_def by auto
  have "\<forall>c \<in> set w. is_term_char c" using split_on_pieces_free [OF w(1)] by simp
  then have "\<forall>c \<in> set (trim_matches ?P w). is_term_char c" using trim_matches_set by blast
  then show ?thesis using w(2,3) by (auto simp: to_lowercase_def is_term_char_lower)
qed

lemma quote_plain: "CHR 0x22 \<notin> set t \<Longrightarrow> quote_term t = [CHR 0x22] @ t @ [CHR 0x22]"
proof -
  assume "CHR 0x22 \<notin> set t"
  then have "concat (map (\<lambda>c. if c = CHR 0x22 then [CHR 0x22, CHR 0x22] else [c]) t) = t" by (induction t) auto
  then show ?thesis by (simp add: quote_term_def)
qed

text \<open>A user's words cannot change the shape of the full-text query. Whatever the query text, the
  expression handed to the index is a disjunction of quoted terms, each made only of letters,
  digits, hyphens, underscores and dots: no quote, operator or column filter of the query language
  gets through. There is no expression exactly when no term is left.\<close>

theorem build_match_expr_safe:
  "case build_match_expr q of
     None \<Rightarrow> match_terms q = []
   | Some e \<Rightarrow> \<exists>terms. terms \<noteq> [] \<and> e = str_join '' OR '' (map (\<lambda>t. [CHR 0x22] @ t @ [CHR 0x22]) terms) \<and>
       (\<forall>t \<in> set terms. t \<noteq> [] \<and> (\<forall>c \<in> set t. is_term_char c))"
proof (cases "match_terms q = []")
  case False
  have "CHR 0x22 \<notin> set t" if "t \<in> set (match_terms q)" for t
  proof
    assume "CHR 0x22 \<in> set t"
    then have "is_term_char CHR 0x22" using match_terms_chars [OF that] by blast
    moreover have "\<not> is_term_char CHR 0x22" by code_simp
    ultimately show False by blast
  qed
  then have "map quote_term (match_terms q) = map (\<lambda>t. [CHR 0x22] @ t @ [CHR 0x22]) (match_terms q)"
    by (simp add: quote_plain)
  then have "build_match_expr q = Some (str_join '' OR '' (map (\<lambda>t. [CHR 0x22] @ t @ [CHR 0x22]) (match_terms q)))"
    using False by (simp add: build_match_expr_def Let_def del: map_eq_conv)
  moreover have "\<forall>t \<in> set (match_terms q). t \<noteq> [] \<and> (\<forall>c \<in> set t. is_term_char c)"
    using match_terms_chars by blast
  ultimately show ?thesis using False by (simp only: option.case) blast
qed (simp add: build_match_expr_def)

theorem build_match_expr_safe_witness:
  "\<exists>terms. build_match_expr [CHR ''a'', CHR 0x22, CHR '' '', CHR ''O'', CHR ''R'', CHR '' '', CHR ''*'', CHR ''b''] =
      Some (str_join '' OR '' (map (\<lambda>t. [CHR 0x22] @ t @ [CHR 0x22]) terms)) \<and> terms \<noteq> []"
proof -
  let ?q = "[CHR ''a'', CHR 0x22, CHR '' '', CHR ''O'', CHR ''R'', CHR '' '', CHR ''*'', CHR ''b'']"
  have "build_match_expr ?q \<noteq> None" by code_simp
  then obtain e where "build_match_expr ?q = Some e" by blast
  with build_match_expr_safe [of ?q] show ?thesis by auto
qed

end
