(* ===== verification/State_Store.thy ===== *)
theory State_Store
  imports Sql_Table
begin

text \<open>
  Agent state, \<open>src/crates/ecphoria-core/src/memory/state.rs\<close> and the tenant-scoped wrappers of
  \<open>engine/mod.rs\<close>: a durable table keyed by agent and key, a read cache in front of it and a
  change feed. An expiry is the text the code stores, compared as text: \<open>now_sql\<close> is
  \<open>datetime('now')\<close> of the database, \<open>now_rfc\<close> the RFC 3339 text of the process clock. The column
  \<open>updated_at\<close>, which every write sets from the local clock and no operation here compares, is not modelled.
  The guarantees: the cache agrees with the table, every write bumps the version, compare-and-swap
  writes exactly when the version matches, and one tenant's operations do not touch another's keys.
\<close>

record state_entry =
  ste_agent_id :: string
  ste_key :: string
  ste_value :: json
  ste_version :: nat

record state_change =
  stc_agent_id :: string
  stc_key :: string
  stc_value :: json
  stc_version :: nat
  stc_deleted :: bool

record state_row =
  sw_agent_id :: string
  sw_key :: string
  sw_value :: json
  sw_version :: nat
  sw_expires_at :: "string option"

record state_store =
  kv_db :: "state_row list"
  kv_cache :: "((string \<times> string) \<times> state_entry) list"
  kv_changes :: "state_change list"

definition sw_id :: "state_row \<Rightarrow> string \<times> string" where
  "sw_id r = (sw_agent_id r, sw_key r)"

lemma sw_id_simps [simp]:
  "sw_id (r\<lparr>sw_value := v\<rparr>) = sw_id r" "sw_id (r\<lparr>sw_version := n\<rparr>) = sw_id r"
  "sw_id (r\<lparr>sw_expires_at := e\<rparr>) = sw_id r"
  by (simp_all add: sw_id_def)

definition kv_open :: state_store where
  "kv_open = \<lparr>kv_db = [], kv_cache = [], kv_changes = []\<rparr>"

definition kv_notify :: "state_change \<Rightarrow> state_store \<Rightarrow> state_store" where
  "kv_notify c st = st\<lparr>kv_changes := kv_changes st @ [c]\<rparr>"

definition entry_of_row :: "state_row \<Rightarrow> state_entry" where
  "entry_of_row r = \<lparr>ste_agent_id = sw_agent_id r, ste_key = sw_key r, ste_value = sw_value r,
    ste_version = sw_version r\<rparr>"

definition kv_get :: "string \<Rightarrow> string \<Rightarrow> string \<Rightarrow> state_store \<Rightarrow> state_entry option \<times> state_store" where
  "kv_get now_sql agent_id key st =
    (case map_of (kv_cache st) (agent_id, key) of
       Some entry \<Rightarrow> (Some entry, st)
     | None \<Rightarrow>
         (case find (\<lambda>r. sw_id r = (agent_id, key) \<and>
             (case sw_expires_at r of None \<Rightarrow> True | Some e \<Rightarrow> e > now_sql)) (kv_db st) of
            None \<Rightarrow> (None, st)
          | Some r \<Rightarrow> (Some (entry_of_row r),
              st\<lparr>kv_cache := kv_cache st @ [((agent_id, key), entry_of_row r)]\<rparr>)))"

definition kv_write ::
  "string \<Rightarrow> string \<Rightarrow> json \<Rightarrow> (string option \<Rightarrow> string option) \<Rightarrow> state_row list \<Rightarrow> nat \<times> state_row list" where
  "kv_write agent_id key value expiry db =
    (let row = (case tbl_find sw_id (agent_id, key) db of
         None \<Rightarrow> \<lparr>sw_agent_id = agent_id, sw_key = key, sw_value = value, sw_version = 1,
                  sw_expires_at = expiry None\<rparr>
       | Some r \<Rightarrow> r\<lparr>sw_value := value, sw_version := sw_version r + 1,
                     sw_expires_at := expiry (sw_expires_at r)\<rparr>)
     in (sw_version row, tbl_put sw_id row db))"

definition kv_set :: "string \<Rightarrow> string \<Rightarrow> json \<Rightarrow> state_store \<Rightarrow> nat \<times> state_store" where
  "kv_set agent_id key value st =
    (let (version, db) = kv_write agent_id key value (\<lambda>e. e) (kv_db st);
         entry = \<lparr>ste_agent_id = agent_id, ste_key = key, ste_value = value, ste_version = version\<rparr>
     in (version, kv_notify \<lparr>stc_agent_id = agent_id, stc_key = key, stc_value = value,
            stc_version = version, stc_deleted = False\<rparr>
          (st\<lparr>kv_db := db, kv_cache := alist_put (agent_id, key) entry (kv_cache st)\<rparr>)))"

definition kv_set_with_ttl :: "string \<Rightarrow> string \<Rightarrow> string \<Rightarrow> json \<Rightarrow> state_store \<Rightarrow> nat \<times> state_store" where
  "kv_set_with_ttl expires_at agent_id key value st =
    (let (version, db) = kv_write agent_id key value (\<lambda>_. Some expires_at) (kv_db st);
         entry = \<lparr>ste_agent_id = agent_id, ste_key = key, ste_value = value, ste_version = version\<rparr>
     in (version, st\<lparr>kv_db := db, kv_cache := alist_put (agent_id, key) entry (kv_cache st)\<rparr>))"

definition kv_cleanup_expired :: "string \<Rightarrow> state_store \<Rightarrow> nat \<times> state_store" where
  "kv_cleanup_expired now_rfc st =
    (let gone = (\<lambda>r. case sw_expires_at r of None \<Rightarrow> False | Some e \<Rightarrow> e < now_rfc);
         expired = map sw_id (filter gone (kv_db st))
     in (length expired,
         if length expired > 0
         then st\<lparr>kv_db := tbl_delete gone (kv_db st), kv_cache := fold alist_del expired (kv_cache st)\<rparr>
         else st))"

text \<open>SQLite's \<open>LIKE\<close> folds the case of ASCII letters.\<close>

definition sqlite_like :: "string \<Rightarrow> string \<Rightarrow> bool" where
  "sqlite_like pat s \<longleftrightarrow> like_escape_match (to_lowercase pat) (to_lowercase s)"

definition kv_delete_by_prefix :: "string \<Rightarrow> state_store \<Rightarrow> nat \<times> state_store" where
  "kv_delete_by_prefix pre st =
    (let pat = like_escape pre @ ''%'';
         hit = (\<lambda>r. sqlite_like pat (sw_agent_id r))
     in (length (filter hit (kv_db st)), st\<lparr>kv_db := tbl_delete hit (kv_db st), kv_cache := []\<rparr>))"

definition kv_export_by_prefix :: "string \<Rightarrow> state_store \<Rightarrow> (string \<times> string \<times> json) list" where
  "kv_export_by_prefix pre st =
    (let pat = like_escape pre @ ''%''
     in map (\<lambda>r. (sw_agent_id r, sw_key r, sw_value r))
          (filter (\<lambda>r. sqlite_like pat (sw_agent_id r)) (kv_db st)))"

definition kv_delete :: "string \<Rightarrow> string \<Rightarrow> state_store \<Rightarrow> state_store" where
  "kv_delete agent_id key st =
    kv_notify \<lparr>stc_agent_id = agent_id, stc_key = key, stc_value = JNull, stc_version = 0,
        stc_deleted = True\<rparr>
      (st\<lparr>kv_db := tbl_delete (\<lambda>r. sw_id r = (agent_id, key)) (kv_db st),
          kv_cache := alist_del (agent_id, key) (kv_cache st)\<rparr>)"

definition kv_compare_and_swap ::
  "string \<Rightarrow> string \<Rightarrow> nat \<Rightarrow> json \<Rightarrow> state_store \<Rightarrow> bool \<times> state_store" where
  "kv_compare_and_swap agent_id key expected_version new_value st =
    (let hit = (\<lambda>r. sw_id r = (agent_id, key) \<and> sw_version r = expected_version)
     in if list_ex hit (kv_db st)
        then (True, st\<lparr>kv_db := tbl_update hit
               (\<lambda>r. r\<lparr>sw_value := new_value, sw_version := sw_version r + 1\<rparr>) (kv_db st),
               kv_cache := alist_del (agent_id, key) (kv_cache st)\<rparr>)
        else (False, st))"

definition kv_list_keys_limited :: "string \<Rightarrow> nat \<Rightarrow> state_store \<Rightarrow> string list" where
  "kv_list_keys_limited agent_id max_keys st =
    take max_keys (sort (map sw_key (filter (\<lambda>r. sw_agent_id r = agent_id) (kv_db st))))"

definition kv_list_keys :: "string \<Rightarrow> state_store \<Rightarrow> string list" where
  "kv_list_keys agent_id st = kv_list_keys_limited agent_id 10000 st"

definition kv_restore_from :: "state_row list \<Rightarrow> state_store \<Rightarrow> state_store" where
  "kv_restore_from snap st = st\<lparr>kv_db := snap, kv_cache := []\<rparr>"

subsection \<open>Tenant-scoped state\<close>

definition scoped_agent :: "string \<Rightarrow> string \<Rightarrow> string" where
  "scoped_agent tenant agent_id = tenant @ [CHR 0x1F] @ agent_id"

definition state_get_for_tenant ::
  "string \<Rightarrow> string \<Rightarrow> string \<Rightarrow> string \<Rightarrow> state_store \<Rightarrow> state_entry option \<times> state_store" where
  "state_get_for_tenant now_sql tenant agent_id key st =
    (case kv_get now_sql (scoped_agent tenant agent_id) key st of
       (e, st') \<Rightarrow> (map_option (\<lambda>x. x\<lparr>ste_agent_id := agent_id\<rparr>) e, st'))"

definition state_set_for_tenant ::
  "string \<Rightarrow> string \<Rightarrow> string \<Rightarrow> json \<Rightarrow> state_store \<Rightarrow> nat \<times> state_store" where
  "state_set_for_tenant tenant agent_id key value st = kv_set (scoped_agent tenant agent_id) key value st"

definition state_delete_for_tenant :: "string \<Rightarrow> string \<Rightarrow> string \<Rightarrow> state_store \<Rightarrow> state_store" where
  "state_delete_for_tenant tenant agent_id key st = kv_delete (scoped_agent tenant agent_id) key st"

definition state_list_keys_for_tenant :: "string \<Rightarrow> string \<Rightarrow> state_store \<Rightarrow> string list" where
  "state_list_keys_for_tenant tenant agent_id st = kv_list_keys (scoped_agent tenant agent_id) st"

subsection \<open>The cache agrees with the table\<close>

text \<open>
  The well-formedness of a store: the primary key holds, and whatever the cache answers is the
  value and version of the row.
\<close>

definition kv_inv :: "state_store \<Rightarrow> bool" where
  "kv_inv st \<longleftrightarrow> tbl_inv sw_id (kv_db st) \<and>
    (\<forall>k e. map_of (kv_cache st) k = Some e \<longrightarrow>
      (\<exists>r. tbl_find sw_id k (kv_db st) = Some r \<and> e = entry_of_row r))"

text \<open>What the table holds for a key: its value and version.\<close>

definition kv_abs :: "state_store \<Rightarrow> string \<times> string \<Rightarrow> (json \<times> nat) option" where
  "kv_abs st k = map_option (\<lambda>r. (sw_value r, sw_version r)) (tbl_find sw_id k (kv_db st))"

lemma kv_inv_open [simp]: "kv_inv kv_open"
  by (simp add: kv_inv_def kv_open_def)

lemma kv_inv_notify [simp]: "kv_inv (kv_notify c st) = kv_inv st" "kv_abs (kv_notify c st) k = kv_abs st k"
  by (simp_all add: kv_inv_def kv_notify_def kv_abs_def)

lemma kv_invI:
  assumes "tbl_inv sw_id db"
    and "\<And>k e. map_of c k = Some e \<Longrightarrow> \<exists>r. tbl_find sw_id k db = Some r \<and> e = entry_of_row r"
  shows "kv_inv (st\<lparr>kv_db := db, kv_cache := c\<rparr>)"
  using assms by (simp add: kv_inv_def)

lemma kv_invD:
  assumes "kv_inv st"
  shows "tbl_inv sw_id (kv_db st)"
    and "map_of (kv_cache st) k = Some e \<Longrightarrow> \<exists>r. tbl_find sw_id k (kv_db st) = Some r \<and> e = entry_of_row r"
  using assms unfolding kv_inv_def by blast+

lemma kv_write_row:
  assumes "kv_write a k v f db = (ver, db')"
  obtains row where "db' = tbl_put sw_id row db" "sw_id row = (a, k)" "sw_value row = v"
    "sw_version row = ver" "ver = (case tbl_find sw_id (a, k) db of None \<Rightarrow> 1 | Some r \<Rightarrow> sw_version r + 1)"
proof (cases "tbl_find sw_id (a, k) db")
  case None
  let ?r = "\<lparr>sw_agent_id = a, sw_key = k, sw_value = v, sw_version = 1, sw_expires_at = f None\<rparr>"
  show ?thesis by (rule that [of ?r]) (use assms None in \<open>auto simp: kv_write_def Let_def sw_id_def\<close>)
next
  case (Some r)
  let ?r = "r\<lparr>sw_value := v, sw_version := sw_version r + 1, sw_expires_at := f (sw_expires_at r)\<rparr>"
  show ?thesis
    by (rule that [of ?r]) (use assms Some tbl_find_Some [OF Some] in \<open>auto simp: kv_write_def Let_def\<close>)
qed

lemma entry_of_rowI: "sw_id r = (a, k) \<Longrightarrow> sw_value r = v \<Longrightarrow> sw_version r = n \<Longrightarrow>
    \<lparr>ste_agent_id = a, ste_key = k, ste_value = v, ste_version = n\<rparr> = entry_of_row r"
  by (simp add: entry_of_row_def sw_id_def)

lemma kv_inv_written:
  assumes "kv_inv st" and "kv_write a k v f (kv_db st) = (ver, db')"
  shows "kv_inv (st\<lparr>kv_db := db', kv_cache := alist_put (a, k)
    \<lparr>ste_agent_id = a, ste_key = k, ste_value = v, ste_version = ver\<rparr> (kv_cache st)\<rparr>)"
proof -
  from assms(2) obtain row where row: "db' = tbl_put sw_id row (kv_db st)" "sw_id row = (a, k)"
    "sw_value row = v" "sw_version row = ver" by (rule kv_write_row)
  show ?thesis
  proof (rule kv_invI)
    show "tbl_inv sw_id db'" unfolding row(1) using kv_invD(1) [OF assms(1)] by (rule tbl_inv_put)
    fix k' e
    assume "map_of (alist_put (a, k) \<lparr>ste_agent_id = a, ste_key = k, ste_value = v, ste_version = ver\<rparr>
      (kv_cache st)) k' = Some e"
    then show "\<exists>r. tbl_find sw_id k' db' = Some r \<and> e = entry_of_row r"
      using row(1,2) entry_of_rowI [OF row(2-4)] kv_invD(2) [OF assms(1)] by (auto split: if_splits)
  qed
qed

lemma kv_inv_set: "kv_inv st \<Longrightarrow> kv_inv (snd (kv_set a k v st))"
  by (auto simp: kv_set_def Let_def kv_inv_written split: prod.splits)

lemma kv_inv_set_with_ttl: "kv_inv st \<Longrightarrow> kv_inv (snd (kv_set_with_ttl e a k v st))"
  by (auto simp: kv_set_with_ttl_def Let_def kv_inv_written split: prod.splits)

lemma kv_find_row:
  assumes "kv_inv st" and "find (\<lambda>r. sw_id r = x \<and> Q r) (kv_db st) = Some r"
  shows "tbl_find sw_id x (kv_db st) = Some r \<and> Q r"
  using assms(2) kv_invD(1) [OF assms(1)] by (auto simp: find_Some_iff tbl_find_eq_iff)

lemma kv_get_db [simp]: "kv_db (snd (kv_get now a k st)) = kv_db st"
  by (simp add: kv_get_def split: option.split)

lemma kv_inv_get: assumes "kv_inv st" shows "kv_inv (snd (kv_get now a k st))"
proof (cases "map_of (kv_cache st) (a, k)")
  case None
  let ?f = "find (\<lambda>r. sw_id r = (a, k) \<and>
    (case sw_expires_at r of None \<Rightarrow> True | Some e \<Rightarrow> e > now)) (kv_db st)"
  show ?thesis
  proof (cases ?f)
    case (Some r)
    have "kv_inv (st\<lparr>kv_db := kv_db st, kv_cache := kv_cache st @ [((a, k), entry_of_row r)]\<rparr>)"
      by (rule kv_invI) (use kv_invD [OF assms] kv_find_row [OF assms Some] None in
          \<open>auto simp: map_add_Some_iff split: if_splits\<close>)
    then show ?thesis using None Some by (simp add: kv_get_def)
  qed (use assms None in \<open>simp add: kv_get_def\<close>)
qed (use assms in \<open>simp add: kv_get_def\<close>)

lemma map_of_fold_del: "map_of (fold alist_del ks c) k = (if k \<in> set ks then None else map_of c k)"
  by (induction ks arbitrary: c) auto

lemma kv_inv_delete_rows:
  assumes "kv_inv st" and "\<And>k. map_of c k = (if k \<in> K then None else map_of (kv_cache st) k)"
    and "\<And>r. r \<in> set (kv_db st) \<Longrightarrow> Q r \<Longrightarrow> sw_id r \<in> K"
  shows "kv_inv (st\<lparr>kv_db := tbl_delete Q (kv_db st), kv_cache := c\<rparr>)"
proof (rule kv_invI)
  note inv = kv_invD(1) [OF assms(1)]
  show "tbl_inv sw_id (tbl_delete Q (kv_db st))" using inv by (rule tbl_inv_delete)
  fix k e assume e: "map_of c k = Some e"
  then have "k \<notin> K" "map_of (kv_cache st) k = Some e" using assms(2) [of k] by (auto split: if_splits)
  then obtain r where "tbl_find sw_id k (kv_db st) = Some r" "e = entry_of_row r"
    using kv_invD(2) [OF assms(1)] by blast
  then show "\<exists>r. tbl_find sw_id k (tbl_delete Q (kv_db st)) = Some r \<and> e = entry_of_row r"
    using \<open>k \<notin> K\<close> assms(3) inv tbl_inv_delete [OF inv, of Q] by (auto simp: tbl_find_eq_iff)
qed

lemma kv_inv_delete: assumes "kv_inv st" shows "kv_inv (kv_delete a k st)"
  unfolding kv_delete_def kv_inv_notify
  by (rule kv_inv_delete_rows [OF assms, where K = "{(a, k)}"]) auto

lemma kv_inv_cleanup: assumes "kv_inv st" shows "kv_inv (snd (kv_cleanup_expired now st))"
proof -
  let ?g = "\<lambda>r. case sw_expires_at r of None \<Rightarrow> False | Some e \<Rightarrow> e < now"
  have "kv_inv (st\<lparr>kv_db := tbl_delete ?g (kv_db st),
      kv_cache := fold alist_del (map sw_id (filter ?g (kv_db st))) (kv_cache st)\<rparr>)"
    by (rule kv_inv_delete_rows [OF assms, where K = "sw_id ` {r \<in> set (kv_db st). ?g r}"])
      (simp_all add: map_of_fold_del)
  then show ?thesis using assms unfolding kv_cleanup_expired_def Let_def by simp
qed

lemma kv_inv_delete_by_prefix: "kv_inv st \<Longrightarrow> kv_inv (snd (kv_delete_by_prefix p st))"
  by (auto simp: kv_delete_by_prefix_def Let_def kv_inv_def)

lemma kv_inv_cas: assumes "kv_inv st" shows "kv_inv (snd (kv_compare_and_swap a k n v st))"
proof -
  let ?h = "\<lambda>r. sw_id r = (a, k) \<and> sw_version r = n"
  let ?f = "\<lambda>r. r\<lparr>sw_value := v, sw_version := sw_version r + 1\<rparr>"
  have "kv_inv (st\<lparr>kv_db := tbl_update ?h ?f (kv_db st), kv_cache := alist_del (a, k) (kv_cache st)\<rparr>)"
  proof (rule kv_invI)
    show "tbl_inv sw_id (tbl_update ?h ?f (kv_db st))"
      using kv_invD(1) [OF assms] by (rule tbl_inv_update) simp
    fix k' e assume "map_of (alist_del (a, k) (kv_cache st)) k' = Some e"
    then have "k' \<noteq> (a, k)" "map_of (kv_cache st) k' = Some e" by (auto split: if_splits)
    then obtain r where r: "tbl_find sw_id k' (kv_db st) = Some r" "e = entry_of_row r"
      using kv_invD(2) [OF assms] by blast
    then have "\<not> ?h r" using \<open>k' \<noteq> (a, k)\<close> tbl_find_Some by metis
    then show "\<exists>r. tbl_find sw_id k' (tbl_update ?h ?f (kv_db st)) = Some r \<and> e = entry_of_row r"
      using r by (auto simp: tbl_find_update)
  qed
  then show ?thesis using assms unfolding kv_compare_and_swap_def Let_def by simp
qed

subsection \<open>The store as a state machine\<close>

text \<open>The operations a client can issue; a restore brings in a well-formed snapshot.\<close>

inductive kv_step :: "state_store \<Rightarrow> state_store \<Rightarrow> bool" where
  step_get: "kv_step st (snd (kv_get now a k st))"
| step_set: "kv_step st (snd (kv_set a k v st))"
| step_ttl: "kv_step st (snd (kv_set_with_ttl e a k v st))"
| step_cleanup: "kv_step st (snd (kv_cleanup_expired now st))"
| step_prefix: "kv_step st (snd (kv_delete_by_prefix p st))"
| step_delete: "kv_step st (kv_delete a k st)"
| step_cas: "kv_step st (snd (kv_compare_and_swap a k n v st))"
| step_restore: "tbl_inv sw_id snap \<Longrightarrow> kv_step st (kv_restore_from snap st)"

inductive kv_reachable :: "state_store \<Rightarrow> bool" where
  reach_open: "kv_reachable kv_open"
| reach_step: "kv_reachable st \<Longrightarrow> kv_step st st' \<Longrightarrow> kv_reachable st'"

inductive_cases kv_stepE: "kv_step st st'"

lemma kv_inv_restore: "tbl_inv sw_id snap \<Longrightarrow> kv_inv (kv_restore_from snap st)"
  by (simp add: kv_restore_from_def kv_inv_def)

lemma kv_inv_step: "kv_step st st' \<Longrightarrow> kv_inv st \<Longrightarrow> kv_inv st'"
  by (erule kv_stepE) (auto intro: kv_inv_get kv_inv_set kv_inv_set_with_ttl kv_inv_cleanup
      kv_inv_delete_by_prefix kv_inv_delete kv_inv_cas kv_inv_restore)

text \<open>C23: cache coherence. In every state a sequence of operations can reach, the primary key holds
  and each cached entry carries the value and the version its row holds in the table.\<close>

theorem kv_reachable_inv:
  assumes "kv_reachable st"
  shows "kv_inv st"
  using assms by (induction rule: kv_reachable.induct) (auto intro: kv_inv_step)

theorem kv_reachable_inv_witness:
  "kv_inv (snd (kv_compare_and_swap ''a'' ''k'' 1 (JInt 5) (snd (kv_set ''a'' ''k'' (JInt 3) kv_open))))"
  by (rule kv_reachable_inv) (blast intro: reach_open reach_step step_set step_cas)

lemma kv_get_abs:
  assumes "kv_inv st" and "fst (kv_get now a k st) = Some e"
  shows "kv_abs st (a, k) = Some (ste_value e, ste_version e) \<and> ste_agent_id e = a \<and> ste_key e = k"
proof (cases "map_of (kv_cache st) (a, k)")
  case (Some e')
  then have "e' = e" using assms(2) by (simp add: kv_get_def)
  then obtain r where r: "tbl_find sw_id (a, k) (kv_db st) = Some r" "e = entry_of_row r"
    using kv_invD(2) [OF assms(1)] Some by blast
  then show ?thesis using tbl_find_Some [OF r(1)] by (simp add: kv_abs_def entry_of_row_def sw_id_def)
next
  case None
  then obtain r where f: "find (\<lambda>r. sw_id r = (a, k) \<and>
      (case sw_expires_at r of None \<Rightarrow> True | Some e \<Rightarrow> e > now)) (kv_db st) = Some r" "e = entry_of_row r"
    using assms(2) by (auto simp: kv_get_def split: option.splits)
  from kv_find_row [OF assms(1) f(1)] have "tbl_find sw_id (a, k) (kv_db st) = Some r" by blast
  then show ?thesis using tbl_find_Some f(2) by (fastforce simp: kv_abs_def entry_of_row_def sw_id_def)
qed

text \<open>A write is read back. Setting a key makes the next read return that value, at a version one
  above the previous one (or 1 for a new key), and leaves every other key as it was.\<close>

theorem kv_set_get:
  assumes "kv_inv st" and "kv_set a k v st = (n, st')"
  shows "fst (kv_get now a k st') =
      Some \<lparr>ste_agent_id = a, ste_key = k, ste_value = v, ste_version = n\<rparr> \<and>
    n = (case kv_abs st (a, k) of None \<Rightarrow> 1 | Some (_, old) \<Rightarrow> old + 1) \<and>
    kv_abs st' = (kv_abs st)((a, k) \<mapsto> (v, n))"
proof -
  obtain ver db' where w: "kv_write a k v (\<lambda>e. e) (kv_db st) = (ver, db')" by fastforce
  then have n: "ver = n" and st': "st' = kv_notify \<lparr>stc_agent_id = a, stc_key = k, stc_value = v,
      stc_version = n, stc_deleted = False\<rparr> (st\<lparr>kv_db := db', kv_cache := alist_put (a, k)
        \<lparr>ste_agent_id = a, ste_key = k, ste_value = v, ste_version = n\<rparr> (kv_cache st)\<rparr>)"
    using assms(2) by (auto simp: kv_set_def Let_def)
  from w obtain row where row: "db' = tbl_put sw_id row (kv_db st)" "sw_id row = (a, k)" "sw_value row = v"
    "sw_version row = ver" "ver = (case tbl_find sw_id (a, k) (kv_db st) of None \<Rightarrow> 1 | Some r \<Rightarrow> sw_version r + 1)"
    by (rule kv_write_row)
  have "fst (kv_get now a k st') = Some \<lparr>ste_agent_id = a, ste_key = k, ste_value = v, ste_version = n\<rparr>"
    by (simp add: st' kv_get_def kv_notify_def)
  moreover have "n = (case kv_abs st (a, k) of None \<Rightarrow> 1 | Some (_, old) \<Rightarrow> old + 1)"
    using row(5) n by (simp add: kv_abs_def split: option.split)
  moreover have "kv_abs st' x = ((kv_abs st)((a, k) \<mapsto> (v, n))) x" for x
    using row(1-4) n by (simp add: st' kv_abs_def kv_notify_def)
  ultimately show ?thesis by blast
qed

theorem kv_set_get_witness:
  "fst (kv_get ''now'' ''a'' ''k'' (snd (kv_set ''a'' ''k'' (JInt 4) (snd (kv_set ''a'' ''k'' (JInt 3) kv_open))))) =
    Some \<lparr>ste_agent_id = ''a'', ste_key = ''k'', ste_value = JInt 4, ste_version = 2\<rparr>"
proof -
  let ?s = "snd (kv_set ''a'' ''k'' (JInt 3) kv_open)"
  have "kv_inv ?s" by (simp add: kv_inv_set)
  moreover have "fst (kv_set ''a'' ''k'' (JInt 4) ?s) = 2" by code_simp
  ultimately show ?thesis
    using kv_set_get [of ?s "''a''" "''k''" "JInt 4" 2 "snd (kv_set ''a'' ''k'' (JInt 4) ?s)" "''now''"]
    by (metis prod.collapse)
qed

text \<open>C22: compare-and-swap. It succeeds exactly when the stored version is the expected one; then the
  table holds the new value one version up, otherwise nothing changes. A second attempt with the
  same expected version fails.\<close>

theorem kv_compare_and_swap_spec:
  assumes "kv_inv st" and "kv_compare_and_swap a k n v st = (ok, st')"
  shows "(ok \<longleftrightarrow> (\<exists>old. kv_abs st (a, k) = Some (old, n))) \<and>
    kv_abs st' = (if ok then (kv_abs st)((a, k) \<mapsto> (v, n + 1)) else kv_abs st) \<and>
    (ok \<longrightarrow> \<not> fst (kv_compare_and_swap a k n w st'))"
proof -
  let ?h = "\<lambda>r. sw_id r = (a, k) \<and> sw_version r = n"
  let ?f = "\<lambda>r. r\<lparr>sw_value := v, sw_version := sw_version r + 1\<rparr>"
  note inv = kv_invD(1) [OF assms(1)]
  have ex: "list_ex ?h (kv_db st) \<longleftrightarrow> (\<exists>r. tbl_find sw_id (a, k) (kv_db st) = Some r \<and> sw_version r = n)"
    using inv by (auto simp: list_ex_iff tbl_find_eq_iff)
  show ?thesis
  proof (cases "list_ex ?h (kv_db st)")
    case True
    then obtain r where r: "tbl_find sw_id (a, k) (kv_db st) = Some r" "sw_version r = n" using ex by blast
    have ok: ok and db': "kv_db st' = tbl_update ?h ?f (kv_db st)"
      using assms(2) True by (auto simp: kv_compare_and_swap_def Let_def)
    have find': "tbl_find sw_id x (kv_db st') = map_option (\<lambda>r. if ?h r then ?f r else r) (tbl_find sw_id x (kv_db st))" for x
      unfolding db' by (rule tbl_find_update) simp
    have abs: "kv_abs st' x = ((kv_abs st)((a, k) \<mapsto> (v, n + 1))) x" for x
      using r tbl_find_Some [of sw_id x "kv_db st"] by (auto simp: kv_abs_def find' option.map_comp comp_def
          intro!: option.map_cong)
    have "tbl_inv sw_id (kv_db st')" unfolding db' using inv by (rule tbl_inv_update) simp
    moreover have "tbl_find sw_id (a, k) (kv_db st') = Some (?f r)"
      using r tbl_find_Some [OF r(1)] by (simp add: find')
    ultimately have "\<not> list_ex ?h (kv_db st')"
      using r(2) by (force simp: list_ex_iff dest: tbl_find_eq_iff [THEN iffD2])
    moreover have "\<exists>old. kv_abs st (a, k) = Some (old, n)" using r by (simp add: kv_abs_def)
    ultimately show ?thesis using ok abs by (auto simp: kv_compare_and_swap_def Let_def)
  next
    case False
    then have "\<not> ok" "st' = st" using assms(2) by (auto simp: kv_compare_and_swap_def Let_def)
    moreover have "\<nexists>old. kv_abs st (a, k) = Some (old, n)" using False ex by (auto simp: kv_abs_def)
    ultimately show ?thesis by simp
  qed
qed

theorem kv_compare_and_swap_spec_witness:
  "fst (kv_compare_and_swap ''a'' ''k'' 1 (JInt 5) (snd (kv_set ''a'' ''k'' (JInt 3) kv_open))) \<and>
   \<not> fst (kv_compare_and_swap ''a'' ''k'' 1 (JInt 6)
       (snd (kv_compare_and_swap ''a'' ''k'' 1 (JInt 5) (snd (kv_set ''a'' ''k'' (JInt 3) kv_open)))))"
proof -
  let ?s = "snd (kv_set ''a'' ''k'' (JInt 3) kv_open)"
  have "kv_inv ?s" by (simp add: kv_inv_set)
  moreover have "fst (kv_compare_and_swap ''a'' ''k'' 1 (JInt 5) ?s)" by code_simp
  ultimately show ?thesis
    using kv_compare_and_swap_spec [of ?s "''a''" "''k''" 1 "JInt 5" _ _ "JInt 6"] by (metis prod.collapse)
qed

subsection \<open>Tenants do not see each other's state\<close>

lemma scoped_agent_inj:
  assumes "CHR 0x1F \<notin> set t" and "CHR 0x1F \<notin> set t'"
  shows "scoped_agent t a = scoped_agent t' a' \<longleftrightarrow> t = t' \<and> a = a'"
proof
  assume eq: "scoped_agent t a = scoped_agent t' a'"
  have *: "takeWhile (\<lambda>c. c \<noteq> CHR 0x1F) (x @ CHR 0x1F # y) = x" if "CHR 0x1F \<notin> set x" for x y :: string
    using that by (induction x) auto
  have "t = t'" using eq * [OF assms(1), of a] * [OF assms(2), of a'] by (simp add: scoped_agent_def)
  then show "t = t' \<and> a = a'" using eq by (simp add: scoped_agent_def)
qed simp

lemma kv_set_frame:
  assumes "x \<noteq> (a, k)"
  shows "tbl_find sw_id x (kv_db (snd (kv_set a k v st))) = tbl_find sw_id x (kv_db st)"
proof -
  obtain ver db' where w: "kv_write a k v (\<lambda>e. e) (kv_db st) = (ver, db')" by fastforce
  then obtain row where "db' = tbl_put sw_id row (kv_db st)" "sw_id row = (a, k)" by (rule kv_write_row)
  then show ?thesis using assms w by (simp add: kv_set_def kv_notify_def Let_def)
qed

lemma kv_delete_frame:
  assumes "x \<noteq> (a, k)"
  shows "tbl_find sw_id x (kv_db (kv_delete a k st)) = tbl_find sw_id x (kv_db st)"
  using assms by (simp add: kv_delete_def kv_notify_def)

text \<open>Tenant isolation of agent state. As long as tenant names do not contain the separator U+001F,
  nothing a tenant writes or deletes changes what another tenant's key holds, whatever the agent and
  key names are.\<close>

theorem state_tenant_isolation:
  assumes "CHR 0x1F \<notin> set t" and "CHR 0x1F \<notin> set t'" and "t \<noteq> t'"
  shows "kv_abs (snd (state_set_for_tenant t a k v st)) (scoped_agent t' a', k') =
      kv_abs st (scoped_agent t' a', k') \<and>
    kv_abs (state_delete_for_tenant t a k st) (scoped_agent t' a', k') =
      kv_abs st (scoped_agent t' a', k')"
proof -
  have "(scoped_agent t' a', k') \<noteq> (scoped_agent t a, k)"
    using scoped_agent_inj [OF assms(1,2), of a a'] assms(3) by auto
  then show ?thesis
    by (simp add: kv_abs_def state_set_for_tenant_def state_delete_for_tenant_def kv_set_frame kv_delete_frame)
qed

theorem state_tenant_isolation_witness:
  "kv_abs (state_delete_for_tenant ''acme'' ''bot'' ''k''
      (snd (state_set_for_tenant ''other'' ''bot'' ''k'' (JInt 1) kv_open)))
     (scoped_agent ''other'' ''bot'', ''k'') = Some (JInt 1, 1)"
proof -
  let ?s = "snd (state_set_for_tenant ''other'' ''bot'' ''k'' (JInt 1) kv_open)"
  have "kv_abs ?s (scoped_agent ''other'' ''bot'', ''k'') = Some (JInt 1, 1)" by code_simp
  then show ?thesis
    using state_tenant_isolation [of "''acme''" "''other''" "''bot''" "''k''" "JInt 1" ?s "''bot''" "''k''"]
    by simp
qed

text \<open>A time-to-live does not expire while the entry is cached. Whatever the clock and the
  expiry say, a read after a write with an expiry answers the written value.\<close>

theorem kv_ttl_read_from_cache:
  "map_option ste_value (fst (kv_get now a k (snd (kv_set_with_ttl expires_at a k v st)))) = Some v"
  by (simp add: kv_get_def kv_set_with_ttl_def case_prod_beta Let_def)

text \<open>The prefix of one tenant also selects another tenant's rows when the names differ only in
  case: SQLite's \<open>LIKE\<close> folds ASCII case.\<close>

theorem kv_prefix_folds_case:
  "kv_export_by_prefix (''acme'' @ [CHR 0x1F])
      (snd (state_set_for_tenant ''ACME'' ''bot'' ''k'' (JInt 1) kv_open)) =
    [(scoped_agent ''ACME'' ''bot'', ''k'', JInt 1)]"
  by code_simp

end
