(* ===== verification/Episodic_Store.thy ===== *)
theory Episodic_Store
  imports Memory_Store Vector_Index
begin

text \<open>
  The append-only event log, \<open>src/crates/ecphoria-core/src/memory/episodic.rs\<close>, and the ingest
  pipeline of \<open>ingest/pipeline.rs\<close> that fills it and the semantic index. A stored row keeps the
  payload as the JSON value it was serialised from and the tags as the comma-joined text the code
  stores; two paths write it: a bulk append that fails as a whole on a duplicate key, and a
  transaction of \<open>INSERT OR IGNORE\<close> statements. \<open>json_str\<close> is the JSON printer, the embedding
  provider is a parameter, and a Rust panic is the value \<open>None\<close>.
\<close>

record event =
  ev_id :: uuid
  ev_source :: string
  ev_event_type :: string
  ev_payload :: json
  ev_timestamp :: ts
  ev_parent_id :: "uuid option"
  ev_trace_id :: "string option"
  ev_tags :: "string list"
  ev_idempotency_key :: "string option"

record event_row =
  er_id :: uuid
  er_source :: string
  er_event_type :: string
  er_payload :: json
  er_ts :: ts
  er_parent_id :: "uuid option"
  er_trace_id :: "string option"
  er_tags :: "string option"
  er_idempotency_key :: "string option"
  er_tenant_id :: string
  er_session_id :: "string option"
  er_embedded :: bool

record session_row =
  sn_session_id :: string
  sn_parent_session_id :: "string option"
  sn_agent_id :: string
  sn_started_at :: ts
  sn_ended_at :: "ts option"
  sn_summary :: "string option"
  sn_metadata :: json
  sn_tenant_id :: string

record episodic_store =
  ep_events :: "event_row list"
  ep_sessions :: "session_row list"

definition ep_new :: episodic_store where
  "ep_new = \<lparr>ep_events = [], ep_sessions = []\<rparr>"

subsection \<open>Appending\<close>

definition payload_tag :: "string \<Rightarrow> json \<Rightarrow> string option" where
  "payload_tag key payload = Option.bind (json_get payload key) json_as_str"

definition row_of_event :: "event \<Rightarrow> event_row" where
  "row_of_event ev =
    \<lparr>er_id = ev_id ev, er_source = ev_source ev, er_event_type = ev_event_type ev,
     er_payload = ev_payload ev, er_ts = ev_timestamp ev, er_parent_id = ev_parent_id ev,
     er_trace_id = ev_trace_id ev,
     er_tags = (if ev_tags ev = [] then None else Some (str_join '','' (ev_tags ev))),
     er_idempotency_key = ev_idempotency_key ev,
     er_tenant_id = (case payload_tag ''_tenant_id'' (ev_payload ev) of Some t \<Rightarrow> t | None \<Rightarrow> ''default''),
     er_session_id = payload_tag ''_session_id'' (ev_payload ev), er_embedded = False\<rparr>"

text \<open>The two uniqueness constraints of the table: the primary key and the idempotency key.\<close>

definition ep_conflict :: "event_row \<Rightarrow> event_row \<Rightarrow> bool" where
  "ep_conflict a b \<longleftrightarrow> er_id a = er_id b \<or>
    (er_idempotency_key a \<noteq> None \<and> er_idempotency_key a = er_idempotency_key b)"

definition ep_inv :: "episodic_store \<Rightarrow> bool" where
  "ep_inv st \<longleftrightarrow> distinct (map er_id (ep_events st)) \<and>
    distinct (List.map_filter er_idempotency_key (ep_events st))"

definition append_fast :: "event list \<Rightarrow> episodic_store \<Rightarrow> error + nat \<times> episodic_store" where
  "append_fast events st =
    (let rows = map row_of_event events
     in if distinct (map er_id (ep_events st @ rows))
        then Inr (length events, st\<lparr>ep_events := ep_events st @ rows\<rparr>)
        else Inl (Ingest ''appender flush''))"

definition insert_or_ignore :: "event_row \<Rightarrow> nat \<times> event_row list \<Rightarrow> nat \<times> event_row list" where
  "insert_or_ignore row acc = (case acc of (n, rows) \<Rightarrow>
    if list_ex (ep_conflict row) rows then (n, rows) else (n + 1, rows @ [row]))"

definition ep_append :: "event list \<Rightarrow> episodic_store \<Rightarrow> error + nat \<times> episodic_store" where
  "ep_append events st =
    (if events = [] then Inr (0, st)
     else if list_all (\<lambda>e. ev_idempotency_key e = None) events then append_fast events st
     else (case fold insert_or_ignore (map row_of_event events) (0, ep_events st) of
             (inserted, rows) \<Rightarrow> Inr (inserted, st\<lparr>ep_events := rows\<rparr>)))"

subsection \<open>Reading\<close>

definition parse_event :: "event_row \<Rightarrow> event" where
  "parse_event r =
    \<lparr>ev_id = er_id r, ev_source = er_source r, ev_event_type = er_event_type r, ev_payload = er_payload r,
     ev_timestamp = er_ts r, ev_parent_id = er_parent_id r, ev_trace_id = er_trace_id r,
     ev_tags = (case er_tags r of None \<Rightarrow> [] | Some s \<Rightarrow> split_on (\<lambda>c. c = CHR '','') s),
     ev_idempotency_key = er_idempotency_key r\<rparr>"

definition events_by_tenant :: "string \<Rightarrow> nat \<Rightarrow> episodic_store \<Rightarrow> event list" where
  "events_by_tenant tenant limit st =
    map parse_event (take (max 1 (min limit 10000000))
      (sort_key er_ts (filter (\<lambda>r. er_tenant_id r = tenant) (ep_events st))))"

definition events_by_ids :: "uuid list \<Rightarrow> string option \<Rightarrow> episodic_store \<Rightarrow> event list" where
  "events_by_ids ids tenant st =
    (if ids = [] then []
     else map parse_event (filter (\<lambda>r. er_id r \<in> set ids \<and>
       (case tenant of None \<Rightarrow> True | Some t \<Rightarrow> er_tenant_id r = t)) (ep_events st)))"

definition ep_delete_by_tenant :: "string \<Rightarrow> episodic_store \<Rightarrow> nat \<times> episodic_store" where
  "ep_delete_by_tenant tenant st =
    (let hit = (\<lambda>r. er_tenant_id r = tenant)
     in (length (filter hit (ep_events st)),
         st\<lparr>ep_events := tbl_delete hit (ep_events st),
            ep_sessions := tbl_delete (\<lambda>s. sn_tenant_id s = tenant) (ep_sessions st)\<rparr>))"

definition query_time_range :: "ts \<Rightarrow> ts \<Rightarrow> episodic_store \<Rightarrow> event list" where
  "query_time_range t0 t1 st =
    map parse_event (sort_key er_ts (filter (\<lambda>r. er_ts r \<ge> t0 \<and> er_ts r \<le> t1) (ep_events st)))"

definition query_by_source :: "string \<Rightarrow> nat \<Rightarrow> episodic_store \<Rightarrow> event list" where
  "query_by_source source limit st =
    map parse_event (take limit (order_by_desc er_ts (filter (\<lambda>r. er_source r = source) (ep_events st))))"

definition unembedded_events :: "nat \<Rightarrow> episodic_store \<Rightarrow> event list" where
  "unembedded_events limit st =
    map parse_event (take limit (sort_key er_ts (filter (\<lambda>r. \<not> er_embedded r) (ep_events st))))"

definition unembedded_count :: "episodic_store \<Rightarrow> nat" where
  "unembedded_count st = length (filter (\<lambda>r. \<not> er_embedded r) (ep_events st))"

definition mark_embedded :: "uuid list \<Rightarrow> episodic_store \<Rightarrow> episodic_store" where
  "mark_embedded ids st =
    (if ids = [] then st
     else st\<lparr>ep_events := tbl_update (\<lambda>r. er_id r \<in> set ids) (\<lambda>r. r\<lparr>er_embedded := True\<rparr>) (ep_events st)\<rparr>)"

definition ep_count :: "episodic_store \<Rightarrow> nat" where
  "ep_count st = length (ep_events st)"

definition ep_restore_from_export :: "event_row list \<Rightarrow> episodic_store \<Rightarrow> episodic_store" where
  "ep_restore_from_export snap st = st\<lparr>ep_events := snap\<rparr>"

subsection \<open>Sessions\<close>

definition opt_json :: "json option \<Rightarrow> json" where
  "opt_json m = (case m of Some j \<Rightarrow> j | None \<Rightarrow> JObj [])"

definition start_session_for_tenant ::
  "ts \<Rightarrow> string \<Rightarrow> string \<Rightarrow> string option \<Rightarrow> json option \<Rightarrow> string \<Rightarrow> episodic_store \<Rightarrow> error + episodic_store" where
  "start_session_for_tenant now session_id agent_id parent metadata tenant st =
    (if session_id \<in> sn_session_id ` set (ep_sessions st) then Inl (Ingest ''start session'')
     else Inr (st\<lparr>ep_sessions := ep_sessions st @
       [\<lparr>sn_session_id = session_id, sn_parent_session_id = parent, sn_agent_id = agent_id,
         sn_started_at = now, sn_ended_at = None, sn_summary = None, sn_metadata = opt_json metadata,
         sn_tenant_id = tenant\<rparr>]\<rparr>))"

definition start_session ::
  "ts \<Rightarrow> string \<Rightarrow> string \<Rightarrow> string option \<Rightarrow> json option \<Rightarrow> episodic_store \<Rightarrow> error + episodic_store" where
  "start_session now session_id agent_id parent metadata st =
    start_session_for_tenant now session_id agent_id parent metadata ''default'' st"

definition end_session :: "ts \<Rightarrow> string \<Rightarrow> string option \<Rightarrow> episodic_store \<Rightarrow> episodic_store" where
  "end_session now session_id summary st =
    st\<lparr>ep_sessions := tbl_update (\<lambda>s. sn_session_id s = session_id)
      (\<lambda>s. s\<lparr>sn_ended_at := Some now, sn_summary := summary\<rparr>) (ep_sessions st)\<rparr>"

definition end_session_for_tenant ::
  "ts \<Rightarrow> string \<Rightarrow> string option \<Rightarrow> string \<Rightarrow> episodic_store \<Rightarrow> bool \<times> episodic_store" where
  "end_session_for_tenant now session_id summary tenant st =
    (let hit = (\<lambda>s. sn_session_id s = session_id \<and> sn_tenant_id s = tenant)
     in (list_ex hit (ep_sessions st),
         st\<lparr>ep_sessions := tbl_update hit (\<lambda>s. s\<lparr>sn_ended_at := Some now, sn_summary := summary\<rparr>)
            (ep_sessions st)\<rparr>))"

definition get_session :: "string \<Rightarrow> episodic_store \<Rightarrow> session_row option" where
  "get_session session_id st = find (\<lambda>s. sn_session_id s = session_id) (ep_sessions st)"

definition list_sessions :: "string \<Rightarrow> nat \<Rightarrow> episodic_store \<Rightarrow> session_row list" where
  "list_sessions agent_id limit st =
    take limit (order_by_desc sn_started_at (filter (\<lambda>s. sn_agent_id s = agent_id) (ep_sessions st)))"

definition recall_session :: "string \<Rightarrow> episodic_store \<Rightarrow> event_row list" where
  "recall_session session_id st =
    sort_key er_ts (filter (\<lambda>r. er_session_id r = Some session_id) (ep_events st))"

definition recall_session_for_tenant :: "string \<Rightarrow> string \<Rightarrow> episodic_store \<Rightarrow> event_row list" where
  "recall_session_for_tenant session_id tenant st =
    sort_key er_ts (filter (\<lambda>r. er_session_id r = Some session_id \<and> er_tenant_id r = tenant) (ep_events st))"

subsection \<open>The ingest pipeline\<close>

definition is_hexdigit :: "char \<Rightarrow> bool" where
  "is_hexdigit c \<longleftrightarrow> is_digit_ascii c \<or> (let n = of_char (lower_char c) :: nat in 97 \<le> n \<and> n \<le> 102)"

definition embed_part :: "(json \<Rightarrow> string) \<Rightarrow> string \<times> json \<Rightarrow> string option" where
  "embed_part json_str kv = (case kv of (key, value) \<Rightarrow>
    if prefix ''_'' key then None
    else (case value of
        JStr s \<Rightarrow> if length s > 2 \<and> \<not> list_all (\<lambda>c. is_hexdigit c \<or> c = CHR ''-'') s
                  then Some (key @ '': '' @ s) else None
      | JObj _ \<Rightarrow> if length (json_str value) < 500 then Some (json_str value) else None
      | JArr _ \<Rightarrow> if length (json_str value) < 500 then Some (json_str value) else None
      | _ \<Rightarrow> None))"

text \<open>A byte that continues a multi-byte character: slicing a string before it panics.\<close>

definition is_continuation :: "char \<Rightarrow> bool" where
  "is_continuation c \<longleftrightarrow> 128 \<le> (of_char c :: nat) \<and> (of_char c :: nat) \<le> 191"

definition slice_to :: "nat \<Rightarrow> string \<Rightarrow> string option" where
  "slice_to n s = (if n < length s \<and> is_continuation (s ! n) then None else Some (take n s))"

definition extract_embedding_text :: "(json \<Rightarrow> string) \<Rightarrow> event \<Rightarrow> string option" where
  "extract_embedding_text json_str ev =
    (let parts = [map (\<lambda>c. if c = CHR ''.'' then CHR '' '' else c) (ev_event_type ev)]
           @ (case ev_payload ev of
                JObj kvs \<Rightarrow> List.map_filter (embed_part json_str) kvs
              | v \<Rightarrow> [json_str v])
           @ (if ev_tags ev = [] then [] else [str_join '' '' (ev_tags ev)]);
         text = str_join ''. '' parts
     in if length text > 2048 then slice_to 2048 text else Some text)"

record pipeline =
  pl_episodic :: episodic_store
  pl_semantic :: "semantic_store option"
  pl_batch_size :: nat

definition event_entry :: "(ts \<Rightarrow> string) \<Rightarrow> event \<Rightarrow> string \<Rightarrow> embedding \<Rightarrow> semantic_entry" where
  "event_entry rfc3339 ev text emb =
    \<lparr>se_id = ev_id ev, se_content = text, se_embedding = emb,
     se_metadata = JObj [(''source'', JStr (ev_source ev)), (''event_type'', JStr (ev_event_type ev)),
       (''timestamp'', JStr (rfc3339 (ev_timestamp ev))), (''trace_id'', json_opt_str (ev_trace_id ev)),
       (''tags'', JArr (map JStr (ev_tags ev))),
       (''tenant_id'', JStr (case payload_tag ''_tenant_id'' (ev_payload ev) of Some t \<Rightarrow> t | None \<Rightarrow> ''default''))]\<rparr>"

definition upsert_event ::
  "(ts \<Rightarrow> string) \<Rightarrow> (event \<times> string) \<times> embedding \<Rightarrow> uuid list \<times> semantic_store \<Rightarrow> uuid list \<times> semantic_store" where
  "upsert_event rfc3339 item acc = (case item of ((ev, text), emb) \<Rightarrow> case acc of (ok, ss) \<Rightarrow>
    (case ss_upsert (event_entry rfc3339 ev text emb) ss of
       Inr ss' \<Rightarrow> (ok @ [ev_id ev], ss') | Inl _ \<Rightarrow> (ok, ss)))"

definition embed_chunk ::
  "(ts \<Rightarrow> string) \<Rightarrow> (string list \<Rightarrow> embedding list option) \<Rightarrow> (event \<times> string) list \<Rightarrow>
   uuid list \<times> semantic_store \<Rightarrow> uuid list \<times> semantic_store" where
  "embed_chunk rfc3339 embed_documents chunk acc =
    (case embed_documents (map snd chunk) of
       None \<Rightarrow> acc
     | Some embs \<Rightarrow> fold (upsert_event rfc3339) (zip chunk embs) acc)"

text \<open>
  \<open>None\<close> for the provider is a pipeline without one; \<open>None\<close> for the result is the panic of the
  text extraction, which happens before anything is indexed.
\<close>

definition embed_and_index ::
  "(json \<Rightarrow> string) \<Rightarrow> (ts \<Rightarrow> string) \<Rightarrow> (string list \<Rightarrow> embedding list option) option \<Rightarrow> event list \<Rightarrow>
   pipeline \<Rightarrow> (nat \<times> pipeline) option" where
  "embed_and_index json_str rfc3339 provider events pl =
    (case (pl_semantic pl, provider) of
       (Some ss, Some embed_documents) \<Rightarrow>
         let texts = map (extract_embedding_text json_str) events
         in if list_ex (\<lambda>t. t = None) texts then None
            else let paired = zip events (map the texts);
                     (succeeded, ss') = fold (embed_chunk rfc3339 embed_documents)
                       (chunks_of (pl_batch_size pl) paired) ([], ss)
                 in Some (length succeeded, pl\<lparr>pl_semantic := Some ss',
                      pl_episodic := mark_embedded succeeded (pl_episodic pl)\<rparr>)
     | _ \<Rightarrow> Some (0, pl))"

definition ingest ::
  "(json \<Rightarrow> string) \<Rightarrow> (ts \<Rightarrow> string) \<Rightarrow> (string list \<Rightarrow> embedding list option) option \<Rightarrow> event list \<Rightarrow>
   pipeline \<Rightarrow> (error + nat) option \<times> pipeline" where
  "ingest json_str rfc3339 provider events pl =
    (if events = [] then (Some (Inr 0), pl)
     else (case ep_append events (pl_episodic pl) of
             Inl e \<Rightarrow> (Some (Inl e), pl)
           | Inr (n, ep) \<Rightarrow>
               (let pl1 = pl\<lparr>pl_episodic := ep\<rparr>
                in case embed_and_index json_str rfc3339 provider events pl1 of
                     None \<Rightarrow> (None, pl1) | Some (_, pl2) \<Rightarrow> (Some (Inr n), pl2))))"

definition ingest_episodic_only :: "event list \<Rightarrow> episodic_store \<Rightarrow> error + nat \<times> episodic_store" where
  "ingest_episodic_only events st = (if events = [] then Inr (0, st) else ep_append events st)"

definition tag_tenant :: "string \<Rightarrow> event \<Rightarrow> event" where
  "tag_tenant t ev = (case ev_payload ev of
     JObj _ \<Rightarrow> ev\<lparr>ev_payload := json_insert ''_tenant_id'' (JStr t) (ev_payload ev)\<rparr> | _ \<Rightarrow> ev)"

definition ingest_replicated :: "event list \<Rightarrow> string option \<Rightarrow> episodic_store \<Rightarrow> error + nat \<times> episodic_store" where
  "ingest_replicated events tenant st =
    ingest_episodic_only (case tenant of Some t \<Rightarrow> map (tag_tenant t) events | None \<Rightarrow> events) st"

definition ingest_for_tenant ::
  "(json \<Rightarrow> string) \<Rightarrow> (ts \<Rightarrow> string) \<Rightarrow> (string list \<Rightarrow> embedding list option) option \<Rightarrow> event list \<Rightarrow> string \<Rightarrow>
   pipeline \<Rightarrow> (error + nat) option \<times> pipeline" where
  "ingest_for_tenant json_str rfc3339 provider events tenant pl =
    ingest json_str rfc3339 provider (map (tag_tenant tenant) events) pl"

definition reindex_unembedded ::
  "(json \<Rightarrow> string) \<Rightarrow> (ts \<Rightarrow> string) \<Rightarrow> (string list \<Rightarrow> embedding list option) option \<Rightarrow> nat \<Rightarrow>
   pipeline \<Rightarrow> (nat \<times> pipeline) option" where
  "reindex_unembedded json_str rfc3339 provider limit pl =
    (let events = unembedded_events limit (pl_episodic pl)
     in if events = [] then Some (0, pl) else embed_and_index json_str rfc3339 provider events pl)"

subsection \<open>The constraints hold\<close>

lemma insert_or_ignore_pair:
  "insert_or_ignore r (n, xs) = (if list_ex (ep_conflict r) xs then (n, xs) else (n + 1, xs @ [r]))"
  by (simp add: insert_or_ignore_def)

lemma fold_ignore_append:
  "\<exists>added. snd (fold insert_or_ignore rows (n, xs)) = xs @ added \<and> set added \<subseteq> set rows \<and>
    fst (fold insert_or_ignore rows (n, xs)) = n + length added"
proof (induction rows arbitrary: n xs)
  case (Cons r rows)
  let ?s = "insert_or_ignore r (n, xs)"
  obtain added where a: "snd (fold insert_or_ignore rows ?s) = snd ?s @ added" "set added \<subseteq> set rows"
    "fst (fold insert_or_ignore rows ?s) = fst ?s + length added"
    using Cons [of "fst ?s" "snd ?s"] by auto
  show ?case
  proof (cases "list_ex (ep_conflict r) xs")
    case True then show ?thesis using a by (intro exI [of _ added]) (auto simp: insert_or_ignore_pair)
  next
    case False then show ?thesis using a by (intro exI [of _ "r # added"]) (auto simp: insert_or_ignore_pair)
  qed
qed simp

definition keys_ok :: "event_row list \<Rightarrow> bool" where
  "keys_ok rows \<longleftrightarrow> distinct (map er_id rows) \<and> distinct (List.map_filter er_idempotency_key rows)"

lemma map_filter_append: "List.map_filter f (xs @ ys) = List.map_filter f xs @ List.map_filter f ys"
  by (simp add: List.map_filter_def)

lemma keys_ok_snoc: "keys_ok xs \<Longrightarrow> \<not> list_ex (ep_conflict r) xs \<Longrightarrow> keys_ok (xs @ [r])"
proof (cases "er_idempotency_key r")
  case None
  moreover assume "keys_ok xs" "\<not> list_ex (ep_conflict r) xs"
  ultimately show ?thesis by (auto simp: keys_ok_def list_ex_iff ep_conflict_def map_filter_append List.map_filter_def)
next
  case (Some k)
  moreover assume "keys_ok xs" "\<not> list_ex (ep_conflict r) xs"
  ultimately show ?thesis by (auto simp: keys_ok_def list_ex_iff ep_conflict_def map_filter_append)
qed

lemma keys_ok_fold: "keys_ok (snd acc) \<Longrightarrow> keys_ok (snd (fold insert_or_ignore rows acc))"
proof (induction rows arbitrary: acc)
  case (Cons r rows)
  then show ?case by (cases acc) (simp add: insert_or_ignore_pair keys_ok_snoc)
qed simp

lemma ep_inv_append: assumes "ep_inv st" and "ep_append evs st = Inr (n, st')" shows "ep_inv st'"
proof (cases "evs = [] \<or> \<not> list_all (\<lambda>e. ev_idempotency_key e = None) evs")
  case True
  have "keys_ok (snd (fold insert_or_ignore (map row_of_event evs) (0, ep_events st)))"
    using assms(1) by (intro keys_ok_fold) (simp add: ep_inv_def keys_ok_def)
  then show ?thesis using True assms
    by (auto simp: ep_append_def ep_inv_def keys_ok_def split: prod.splits if_splits)
next
  case False
  then have "List.map_filter er_idempotency_key (map row_of_event evs) = []"
    by (auto simp: List.map_filter_def filter_empty_conv list_all_iff row_of_event_def)
  moreover have "distinct (map er_id (ep_events st'))" "ep_events st' = ep_events st @ map row_of_event evs"
    using False assms(2) by (auto simp only: ep_append_def append_fast_def Let_def split: if_splits) auto
  ultimately show ?thesis using assms(1) by (simp add: ep_inv_def map_filter_append del: map_append)
qed

lemma no_conflict_ignored:
  "list_all (\<lambda>r. list_ex (ep_conflict r) xs) rows \<Longrightarrow> fold insert_or_ignore rows (n, xs) = (n, xs)"
  by (induction rows) (auto simp: insert_or_ignore_pair)

lemma fold_ignore_covers:
  "r \<in> set rows \<Longrightarrow> list_ex (ep_conflict r) (snd (fold insert_or_ignore rows (n, xs)))"
proof (induction rows arbitrary: n xs)
  case (Cons x rows)
  let ?s = "insert_or_ignore x (n, xs)"
  obtain added where a: "snd (fold insert_or_ignore rows (fst ?s, snd ?s)) = snd ?s @ added"
    using fold_ignore_append by blast
  show ?case
  proof (cases "r = x")
    case True
    have "list_ex (ep_conflict x) (snd ?s)" by (auto simp: insert_or_ignore_pair ep_conflict_def)
    then show ?thesis using a True by simp
  next
    case False
    then show ?thesis using Cons by (metis fold_simps(2) prod.collapse set_ConsD)
  qed
qed simp

text \<open>
  Once a batch of events was appended, appending it again is a no-op that reports zero rows if the
  batch carries an idempotency key, and is refused as a whole, with nothing stored, if no event of
  it carries one.
\<close>

lemma ep_append_replay:
  assumes "evs \<noteq> []" and "ep_append evs st = Inr (n, st')"
  shows "ep_append evs st' = (if list_all (\<lambda>e. ev_idempotency_key e = None) evs
    then Inl (Ingest ''appender flush'') else Inr (0, st'))"
proof (cases "list_all (\<lambda>e. ev_idempotency_key e = None) evs")
  case True
  then have st': "ep_events st' = ep_events st @ map row_of_event evs"
    using assms by (auto simp: ep_append_def append_fast_def Let_def split: if_splits)
  obtain e es where e: "evs = e # es" using assms(1) by (cases evs) auto
  have "\<not> distinct (map er_id (ep_events st' @ map row_of_event evs))" unfolding st' e by simp
  then have "append_fast evs st' = Inl (Ingest ''appender flush'')" unfolding append_fast_def Let_def by (simp only: if_False)
  then show ?thesis using True assms(1) by (simp add: ep_append_def)
next
  case False
  let ?rows = "map row_of_event evs"
  have st': "st' = st\<lparr>ep_events := snd (fold insert_or_ignore ?rows (0, ep_events st))\<rparr>"
    using False assms by (auto simp: ep_append_def split: prod.splits)
  have "list_all (\<lambda>r. list_ex (ep_conflict r) (ep_events st')) ?rows"
    unfolding list_all_iff st' using fold_ignore_covers by simp
  then show ?thesis using False assms(1) no_conflict_ignored [of "ep_events st'" ?rows 0] by (simp add: ep_append_def)
qed

definition demo_event :: event where
  "demo_event = \<lparr>ev_id = 1, ev_source = ''crm'', ev_event_type = ''a.b'', ev_payload = JObj [], ev_timestamp = 0,
    ev_parent_id = None, ev_trace_id = None, ev_tags = [''x'', ''y''], ev_idempotency_key = None\<rparr>"

subsection \<open>Round trips\<close>

text \<open>A stored event reads back as it was, provided no tag contains a comma: tags are kept as one
  comma-separated text.\<close>

theorem event_row_roundtrip:
  assumes "\<forall>t \<in> set (ev_tags ev). CHR '','' \<notin> set t"
  shows "parse_event (row_of_event ev) = ev"
proof -
  have "split_on (\<lambda>c. c = CHR '','') (str_join [CHR '',''] (ev_tags ev)) = ev_tags ev" if "ev_tags ev \<noteq> []"
    by (rule split_on_join) (use assms that in auto)
  then show ?thesis by (cases ev) (simp add: parse_event_def row_of_event_def)
qed

theorem event_row_roundtrip_witness:
  "parse_event (row_of_event demo_event) = demo_event \<and>
    ev_tags (parse_event (row_of_event (demo_event\<lparr>ev_tags := [''a,b'']\<rparr>))) = [''a'', ''b'']"
proof -
  have "\<forall>t \<in> set (ev_tags demo_event). CHR '','' \<notin> set t" by code_simp
  moreover have "ev_tags (parse_event (row_of_event (demo_event\<lparr>ev_tags := [''a,b'']\<rparr>))) = [''a'', ''b'']"
    by code_simp
  ultimately show ?thesis using event_row_roundtrip [of demo_event] by simp
qed

subsection \<open>Tenants\<close>

lemma row_tenant_tagged:
  "er_tenant_id (row_of_event (tag_tenant t ev)) = (if json_is_object (ev_payload ev) then t else ''default'')"
  by (cases "ev_payload ev") (simp_all add: tag_tenant_def row_of_event_def payload_tag_def)

text \<open>A tenant's events are filed under the tenant exactly when their payload is a JSON object. The
  tenant is recorded inside the payload, so an event with any other payload lands in the tenant
  called default, whatever tenant sent it.\<close>

theorem ingest_replicated_tenant:
  assumes "ingest_replicated evs (Some t) st = Inr (n, st')"
    and "row \<in> set (ep_events st') - set (ep_events st)"
  shows "\<exists>ev \<in> set evs. er_id row = ev_id ev \<and>
    er_tenant_id row = (if json_is_object (ev_payload ev) then t else ''default'')"
proof -
  let ?evs = "map (tag_tenant t) evs"
  have ap: "ep_append ?evs st = Inr (n, st')"
    using assms(1) by (auto simp: ingest_replicated_def ingest_episodic_only_def ep_append_def split: if_splits)
  have "set (ep_events st') \<subseteq> set (ep_events st) \<union> set (map row_of_event ?evs)"
  proof (cases "list_all (\<lambda>e. ev_idempotency_key e = None) ?evs \<or> ?evs = []")
    case True
    then show ?thesis using ap by (auto simp: ep_append_def append_fast_def Let_def split: if_splits)
  next
    case False
    then have "ep_events st' = snd (fold insert_or_ignore (map row_of_event ?evs) (0, ep_events st))"
      using ap by (auto simp: ep_append_def split: if_splits prod.splits)
    then show ?thesis using fold_ignore_append [of "map row_of_event ?evs" 0 "ep_events st"] by fastforce
  qed
  then obtain ev where "ev \<in> set evs" "row = row_of_event (tag_tenant t ev)" using assms(2) by auto
  moreover have "er_id (row_of_event (tag_tenant t ev)) = ev_id ev"
    by (simp add: row_of_event_def tag_tenant_def split: json.split)
  ultimately show ?thesis using row_tenant_tagged by metis
qed

theorem ingest_replicated_tenant_witness:
  "\<exists>n st'. ingest_replicated [demo_event\<lparr>ev_payload := JStr ''x''\<rparr>] (Some ''acme'') ep_new = Inr (n, st') \<and>
    map er_tenant_id (ep_events st') = [''default'']"
proof -
  let ?ev = "demo_event\<lparr>ev_payload := JStr ''x''\<rparr>"
  have "case ingest_replicated [?ev] (Some ''acme'') ep_new of Inl _ \<Rightarrow> False | Inr (_, st) \<Rightarrow> length (ep_events st) = 1"
    by code_simp
  then obtain n st' where i: "ingest_replicated [?ev] (Some ''acme'') ep_new = Inr (n, st')"
    and l: "length (ep_events st') = 1" by (auto split: sum.splits)
  from l obtain row where r: "ep_events st' = [row]" by (cases "ep_events st'") auto
  have "\<not> json_is_object (ev_payload ?ev)" by simp
  then have "er_tenant_id row = ''default''"
    using ingest_replicated_tenant [OF i, of row] r by (simp add: ep_new_def)
  then show ?thesis using i r by simp
qed

subsection \<open>The log and the semantic index\<close>

text \<open>Every row marked as embedded has its vector in the semantic index.\<close>

definition pl_indexed :: "pipeline \<Rightarrow> bool" where
  "pl_indexed pl \<longleftrightarrow> (\<forall>r \<in> set (ep_events (pl_episodic pl)). er_embedded r \<longrightarrow>
    (\<exists>ss. pl_semantic pl = Some ss \<and> er_id r \<in> ss_ids ss))"

lemma upsert_event_ids:
  assumes "upsert_event rfc item (ok, ss) = (ok', ss')" and "set ok \<subseteq> ss_ids ss"
  shows "set ok' \<subseteq> ss_ids ss' \<and> ss_ids ss \<subseteq> ss_ids ss'"
  using assms by (auto simp: upsert_event_def event_entry_def split: prod.splits sum.splits dest!: ss_ids_upsert)

lemma fold_upsert_ids:
  assumes "fold (upsert_event rfc) items (ok, ss) = (ok', ss')" and "set ok \<subseteq> ss_ids ss"
  shows "set ok' \<subseteq> ss_ids ss' \<and> ss_ids ss \<subseteq> ss_ids ss'"
  using assms
proof (induction items arbitrary: ok ss)
  case (Cons x xs)
  obtain ok1 ss1 where s: "upsert_event rfc x (ok, ss) = (ok1, ss1)" by fastforce
  from upsert_event_ids [OF s Cons.prems(2)] Cons.IH [of ok1 ss1] Cons.prems(1) show ?case
    unfolding fold_Cons comp_apply s by blast
qed simp

lemma fold_chunks_ids:
  assumes "fold (embed_chunk rfc emb_docs) cs (ok, ss) = (ok', ss')" and "set ok \<subseteq> ss_ids ss"
  shows "set ok' \<subseteq> ss_ids ss' \<and> ss_ids ss \<subseteq> ss_ids ss'"
  using assms
proof (induction cs arbitrary: ok ss)
  case (Cons c cs)
  obtain ok1 ss1 where s: "embed_chunk rfc emb_docs c (ok, ss) = (ok1, ss1)" by fastforce
  then have "set ok1 \<subseteq> ss_ids ss1 \<and> ss_ids ss \<subseteq> ss_ids ss1"
    using fold_upsert_ids Cons.prems(2) by (auto simp: embed_chunk_def split: option.splits)
  then show ?case using Cons.IH [of ok1 ss1] Cons.prems(1) unfolding fold_Cons comp_apply s by blast
qed simp

lemma embed_and_index_indexed:
  assumes "pl_indexed pl" and "embed_and_index js rfc prov evs pl = Some (n, pl')"
  shows "pl_indexed pl'"
proof (cases "pl_semantic pl = None \<or> prov = None")
  case True
  then show ?thesis using assms by (auto simp: embed_and_index_def split: option.splits)
next
  case False
  then obtain ss emb_docs where se: "pl_semantic pl = Some ss" "prov = Some emb_docs" by auto
  let ?texts = "map (extract_embedding_text js) evs"
  obtain ok ss' where f: "fold (embed_chunk rfc emb_docs) (chunks_of (pl_batch_size pl) (zip evs (map the ?texts))) ([], ss) = (ok, ss')"
    by fastforce
  have pl': "pl' = pl\<lparr>pl_semantic := Some ss', pl_episodic := mark_embedded ok (pl_episodic pl)\<rparr>"
    using assms(2) se f by (auto simp: embed_and_index_def Let_def split: if_splits)
  have ids: "set ok \<subseteq> ss_ids ss'" "ss_ids ss \<subseteq> ss_ids ss'" using fold_chunks_ids [OF f] by auto
  show ?thesis using assms(1) ids se unfolding pl_indexed_def pl'
    by (fastforce simp: mark_embedded_def tbl_update_def split: if_splits)
qed

lemma append_not_embedded:
  assumes "ep_append evs st = Inr (n, st')" and "r \<in> set (ep_events st')" and "er_embedded r"
  shows "r \<in> set (ep_events st)"
proof -
  have new: "\<not> er_embedded (row_of_event e)" for e by (simp add: row_of_event_def)
  show ?thesis
  proof (cases "list_all (\<lambda>e. ev_idempotency_key e = None) evs \<or> evs = []")
    case True
    then show ?thesis using assms new by (auto simp: ep_append_def append_fast_def Let_def split: if_splits)
  next
    case False
    then have "ep_events st' = snd (fold insert_or_ignore (map row_of_event evs) (0, ep_events st))"
      using assms(1) by (auto simp: ep_append_def split: if_splits prod.splits)
    then show ?thesis using assms(2,3) new fold_ignore_append [of "map row_of_event evs" 0 "ep_events st"] by fastforce
  qed
qed

text \<open>No event is marked as embedded before its vector is in the index. Ingesting a batch keeps it so
  that every row marked as embedded has its vector in the semantic index, whatever batches the
  provider refused and whatever vectors the index rejected; re-indexing the unmarked rows keeps it
  too. So the unmarked rows are all that a repair has to look at.\<close>

theorem ingest_marks_indexed_only:
  assumes "pl_indexed pl"
  shows "pl_indexed (snd (ingest js rfc prov evs pl)) \<and>
    (case reindex_unembedded js rfc prov k pl of None \<Rightarrow> True | Some (_, pl') \<Rightarrow> pl_indexed pl')"
proof
  have mid: "pl_indexed (pl\<lparr>pl_episodic := ep\<rparr>)" if "ep_append evs (pl_episodic pl) = Inr (n, ep)" for n ep
    using assms append_not_embedded [OF that] unfolding pl_indexed_def by simp
  then show "pl_indexed (snd (ingest js rfc prov evs pl))"
    using assms embed_and_index_indexed by (auto simp: ingest_def Let_def split: sum.split option.split)
  show "case reindex_unembedded js rfc prov k pl of None \<Rightarrow> True | Some (_, pl') \<Rightarrow> pl_indexed pl'"
    using assms embed_and_index_indexed by (auto simp: reindex_unembedded_def Let_def split: option.split)
qed

theorem ingest_marks_indexed_only_witness:
  "let pl = \<lparr>pl_episodic = ep_new, pl_semantic = Some (ss_with_dimension 1), pl_batch_size = 1\<rparr>;
       pl' = snd (ingest (\<lambda>_. ''j'') (\<lambda>_. ''t'') (Some (\<lambda>ts. Some (map (\<lambda>_. [1]) ts)))
         [demo_event, demo_event\<lparr>ev_id := 2\<rparr>] pl)
   in map er_embedded (ep_events (pl_episodic pl')) = [True, True] \<and> pl_indexed pl'"
proof -
  let ?pl = "\<lparr>pl_episodic = ep_new, pl_semantic = Some (ss_with_dimension 1), pl_batch_size = 1\<rparr>"
  let ?pl' = "snd (ingest (\<lambda>_. ''j'') (\<lambda>_. ''t'') (Some (\<lambda>ts. Some (map (\<lambda>_. [1]) ts)))
         [demo_event, demo_event\<lparr>ev_id := 2\<rparr>] ?pl)"
  have "pl_indexed ?pl" by (simp add: pl_indexed_def ep_new_def)
  moreover have "map er_embedded (ep_events (pl_episodic ?pl')) = [True, True]" by code_simp
  ultimately show ?thesis using ingest_marks_indexed_only [of ?pl] by (simp add: Let_def)
qed

end
