(* ===== verification/Run_Ledger.thy ===== *)
theory Run_Ledger
  imports Sql_Table
begin

text \<open>
  The ledger of agent runs, \<open>src/crates/ecphoria-core/src/runtime/types.rs\<close> and
  \<open>runtime/store.rs\<close>: one row per run, written by replicated creates and patches, and a local
  driver lease in two further columns. Instants are stored as RFC 3339 text and compared as text;
  \<open>rfc\<close> is that printer, and the theorems that need it assume that it prints the instants at hand
  in their order.
\<close>

datatype run_status = RunPending | Running | WaitingApproval | Succeeded | Failed | Cancelled

fun run_status_as_str :: "run_status \<Rightarrow> string" where
  "run_status_as_str RunPending = ''pending''"
| "run_status_as_str Running = ''running''"
| "run_status_as_str WaitingApproval = ''waiting_approval''"
| "run_status_as_str Succeeded = ''succeeded''"
| "run_status_as_str Failed = ''failed''"
| "run_status_as_str Cancelled = ''cancelled''"

definition run_status_from_str :: "string \<Rightarrow> run_status" where
  "run_status_from_str s =
    (if s = ''running'' then Running
     else if s = ''waiting_approval'' then WaitingApproval
     else if s = ''succeeded'' then Succeeded
     else if s = ''failed'' then Failed
     else if s = ''cancelled'' then Cancelled
     else RunPending)"

fun is_terminal :: "run_status \<Rightarrow> bool" where
  "is_terminal Succeeded = True"
| "is_terminal Failed = True"
| "is_terminal Cancelled = True"
| "is_terminal _ = False"

record run =
  rn_id :: uuid
  rn_tenant_id :: string
  rn_agent_id :: "string option"
  rn_parent_run_id :: "uuid option"
  rn_status :: run_status
  rn_input :: json
  rn_result :: json
  rn_error :: "string option"
  rn_cursor :: json
  rn_created_at :: ts
  rn_updated_at :: ts
  rn_started_at :: "ts option"
  rn_ended_at :: "ts option"

record run_patch =
  rp_status :: "run_status option"
  rp_result :: "json option"
  rp_error :: "string option"
  rp_cursor :: "json option"
  rp_started_at :: "ts option"
  rp_ended_at :: "ts option"

record run_row =
  rr_run :: run
  rr_lease_owner :: "string option"
  rr_lease_expires_at :: "string option"

type_synonym run_store = "run_row list"

definition rr_id :: "run_row \<Rightarrow> uuid" where
  "rr_id r = rn_id (rr_run r)"

lemma rr_id_simps [simp]:
  "rr_id (r\<lparr>rr_lease_owner := w\<rparr>) = rr_id r" "rr_id (r\<lparr>rr_lease_expires_at := e\<rparr>) = rr_id r"
  "rr_id (r\<lparr>rr_run := x\<rparr>) = rn_id x"
  "rr_id \<lparr>rr_run = x, rr_lease_owner = w, rr_lease_expires_at = e\<rparr> = rn_id x" "rn_id (rr_run r) = rr_id r"
  by (simp_all add: rr_id_def)

definition run_inv :: "run_store \<Rightarrow> bool" where
  "run_inv st \<longleftrightarrow> tbl_inv rr_id st"

definition coalesce :: "'a option \<Rightarrow> 'a \<Rightarrow> 'a" where
  "coalesce v d = (case v of Some x \<Rightarrow> x | None \<Rightarrow> d)"

definition coalesce_opt :: "'a option \<Rightarrow> 'a option \<Rightarrow> 'a option" where
  "coalesce_opt v d = (case v of Some x \<Rightarrow> Some x | None \<Rightarrow> d)"

definition try_claim_lease ::
  "(ts \<Rightarrow> string) \<Rightarrow> uuid \<Rightarrow> string \<Rightarrow> ts \<Rightarrow> ts \<Rightarrow> run_store \<Rightarrow> bool \<times> run_store" where
  "try_claim_lease rfc uid owner now expires_at st =
    (let hit = (\<lambda>r. rr_id r = uid \<and> (rr_lease_owner r = None \<or> rr_lease_owner r = Some owner \<or>
            (case rr_lease_expires_at r of None \<Rightarrow> True | Some e \<Rightarrow> e \<le> rfc now)))
     in (length (filter hit st) = 1,
         tbl_update hit (\<lambda>r. r\<lparr>rr_lease_owner := Some owner, rr_lease_expires_at := Some (rfc expires_at)\<rparr>) st))"

definition release_lease :: "uuid \<Rightarrow> string \<Rightarrow> run_store \<Rightarrow> run_store" where
  "release_lease uid owner st =
    tbl_update (\<lambda>r. rr_id r = uid \<and> rr_lease_owner r = Some owner)
      (\<lambda>r. r\<lparr>rr_lease_owner := None, rr_lease_expires_at := None\<rparr>) st"

definition run_create :: "run \<Rightarrow> run_store \<Rightarrow> run_store" where
  "run_create r st = tbl_insert_ignore rr_id
    \<lparr>rr_run = r, rr_lease_owner = None, rr_lease_expires_at = None\<rparr> st"

definition patched_run :: "run_patch \<Rightarrow> ts \<Rightarrow> run \<Rightarrow> run" where
  "patched_run p updated_at r =
    r\<lparr>rn_status := coalesce (rp_status p) (rn_status r), rn_result := coalesce (rp_result p) (rn_result r),
      rn_error := coalesce_opt (rp_error p) (rn_error r), rn_cursor := coalesce (rp_cursor p) (rn_cursor r),
      rn_started_at := coalesce_opt (rp_started_at p) (rn_started_at r),
      rn_ended_at := coalesce_opt (rp_ended_at p) (rn_ended_at r), rn_updated_at := updated_at\<rparr>"

definition run_update :: "uuid \<Rightarrow> run_patch \<Rightarrow> ts \<Rightarrow> run_store \<Rightarrow> bool \<times> run_store" where
  "run_update uid p updated_at st =
    (let hit = (\<lambda>r. rr_id r = uid)
     in (list_ex hit st, tbl_update hit (\<lambda>r. r\<lparr>rr_run := patched_run p updated_at (rr_run r)\<rparr>) st))"

definition run_get :: "uuid \<Rightarrow> run_store \<Rightarrow> run option" where
  "run_get uid st = map_option rr_run (tbl_find rr_id uid st)"

definition run_list :: "string \<Rightarrow> run_status option \<Rightarrow> nat \<Rightarrow> run_store \<Rightarrow> run list" where
  "run_list tenant status limit st =
    take limit (order_by_desc rn_created_at (filter (\<lambda>r. rn_tenant_id r = tenant \<and>
      (case status of None \<Rightarrow> True | Some s \<Rightarrow> rn_status r = s)) (map rr_run st)))"

definition list_resumable :: "(ts \<Rightarrow> string) \<Rightarrow> ts \<Rightarrow> nat \<Rightarrow> run_store \<Rightarrow> run list" where
  "list_resumable rfc stale_before limit st =
    take limit (sort_key (\<lambda>r. rfc (rn_updated_at r)) (filter (\<lambda>r.
      rn_status r \<in> {RunPending, Running} \<and> rfc (rn_updated_at r) < rfc stale_before) (map rr_run st)))"

subsection \<open>Status and rows\<close>

lemma run_status_roundtrip: "run_status_from_str (run_status_as_str s) = s"
  by (cases s) (simp_all add: run_status_from_str_def)

lemma patched_run_id [simp]: "rn_id (patched_run p t r) = rn_id r"
  by (simp add: patched_run_def)

lemma run_inv_steps:
  "run_inv st \<Longrightarrow> run_inv (snd (try_claim_lease rfc u w now e st))"
  "run_inv st \<Longrightarrow> run_inv (release_lease u w st)"
  "run_inv st \<Longrightarrow> run_inv (run_create r st)"
  "run_inv st \<Longrightarrow> run_inv (snd (run_update u p t st))"
  by (auto simp: run_inv_def try_claim_lease_def release_lease_def run_create_def run_update_def Let_def
      intro!: tbl_inv_update)

lemma run_get_update:
  "run_get k (snd (run_update u p t st)) = map_option (\<lambda>r. if k = u then patched_run p t r else r) (run_get k st)"
proof -
  have "tbl_find rr_id k (snd (run_update u p t st)) =
      map_option (\<lambda>r. if rr_id r = u then r\<lparr>rr_run := patched_run p t (rr_run r)\<rparr> else r) (tbl_find rr_id k st)"
    unfolding run_update_def Let_def snd_conv by (rule tbl_find_update) simp
  then show ?thesis
    by (cases "tbl_find rr_id k st") (auto simp: run_get_def dest: tbl_find_Some)
qed

lemma run_get_create: "run_get k (run_create r st) =
    (case run_get k st of Some x \<Rightarrow> Some x | None \<Rightarrow> if rn_id r = k then Some r else None)"
  by (auto simp: run_get_def run_create_def tbl_find_insert_ignore split: option.split)

lemma run_apply_idempotent:
  "run_create r (run_create r st) = run_create r st \<and>
   snd (run_update u p t (snd (run_update u p t st))) = snd (run_update u p t st) \<and>
   (run_get (rn_id r) st = Some old \<longrightarrow> run_create r st = st)"
proof -
  have "patched_run p t (patched_run p t x) = patched_run p t x" for x
    by (simp add: patched_run_def coalesce_def coalesce_opt_def split: option.split)
  then have "snd (run_update u p t (snd (run_update u p t st))) = snd (run_update u p t st)"
    by (simp add: run_update_def Let_def tbl_update_def)
  moreover have "run_create r st = st" if got: "run_get (rn_id r) st = Some old"
  proof -
    obtain x where "tbl_find rr_id (rn_id r) st = Some x" using got by (auto simp: run_get_def)
    then have "rn_id r \<in> rr_id ` set st" using tbl_find_Some [of rr_id "rn_id r" st x] by (metis image_eqI)
    then show ?thesis by (simp add: run_create_def tbl_insert_ignore_def)
  qed
  ultimately show ?thesis by (simp add: run_create_def)
qed

definition demo_run :: run where
  "demo_run = \<lparr>rn_id = 1, rn_tenant_id = ''acme'', rn_agent_id = None, rn_parent_run_id = None, rn_status = Running,
    rn_input = JNull, rn_result = JNull, rn_error = None, rn_cursor = JNull, rn_created_at = 0, rn_updated_at = 0,
    rn_started_at = None, rn_ended_at = None\<rparr>"

subsection \<open>The driver lease\<close>

text \<open>Who may drive a run at an instant: the lease names the owner and has not expired.\<close>

definition holds_lease :: "(ts \<Rightarrow> string) \<Rightarrow> run_store \<Rightarrow> uuid \<Rightarrow> string \<Rightarrow> ts \<Rightarrow> bool" where
  "holds_lease rfc st uid owner now \<longleftrightarrow>
    (case tbl_find rr_id uid st of None \<Rightarrow> False | Some r \<Rightarrow> rr_lease_owner r = Some owner \<and>
       (case rr_lease_expires_at r of None \<Rightarrow> False | Some e \<Rightarrow> rfc now < e))"

lemma claim_find:
  "tbl_find rr_id k (snd (try_claim_lease rfc u w now e st)) =
    map_option (\<lambda>r. if k = u \<and> (rr_lease_owner r = None \<or> rr_lease_owner r = Some w \<or>
        (case rr_lease_expires_at r of None \<Rightarrow> True | Some x \<Rightarrow> x \<le> rfc now))
      then r\<lparr>rr_lease_owner := Some w, rr_lease_expires_at := Some (rfc e)\<rparr> else r) (tbl_find rr_id k st)"
proof -
  have "tbl_find rr_id k (snd (try_claim_lease rfc u w now e st)) =
    map_option (\<lambda>r. if rr_id r = u \<and> (rr_lease_owner r = None \<or> rr_lease_owner r = Some w \<or>
        (case rr_lease_expires_at r of None \<Rightarrow> True | Some x \<Rightarrow> x \<le> rfc now))
      then r\<lparr>rr_lease_owner := Some w, rr_lease_expires_at := Some (rfc e)\<rparr> else r) (tbl_find rr_id k st)"
    unfolding try_claim_lease_def Let_def snd_conv by (rule tbl_find_update) simp
  then show ?thesis by (cases "tbl_find rr_id k st") (auto dest: tbl_find_Some)
qed

lemma claim_ok:
  assumes "run_inv st"
  shows "fst (try_claim_lease rfc u w now e st) \<longleftrightarrow>
    (\<exists>r. tbl_find rr_id u st = Some r \<and> (rr_lease_owner r = None \<or> rr_lease_owner r = Some w \<or>
        (case rr_lease_expires_at r of None \<Rightarrow> True | Some x \<Rightarrow> x \<le> rfc now)))"
proof -
  let ?c = "\<lambda>r. rr_lease_owner r = None \<or> rr_lease_owner r = Some w \<or>
        (case rr_lease_expires_at r of None \<Rightarrow> True | Some x \<Rightarrow> x \<le> rfc now)"
  let ?F = "filter (\<lambda>r. rr_id r = u \<and> ?c r) st"
  have d: "distinct (map rr_id ?F)" using assms by (simp add: run_inv_def tbl_inv_def distinct_map_filter)
  have one: "length ?F = 1 \<longleftrightarrow> ?F \<noteq> []"
  proof (cases ?F)
    case (Cons x xs)
    have "xs = []"
    proof (rule ccontr)
      assume "xs \<noteq> []"
      then obtain y where y: "y \<in> set xs" by (cases xs) auto
      have "x \<in> set ?F" "y \<in> set ?F" using Cons y by auto
      then have "rr_id x = u" "rr_id y = u" by auto
      then show False using d imageI [OF y, of rr_id] unfolding Cons by simp
    qed
    then show ?thesis using Cons by simp
  qed simp
  have "?F \<noteq> [] \<longleftrightarrow> (\<exists>r. tbl_find rr_id u st = Some r \<and> ?c r)"
    using tbl_find_eq_iff [of rr_id st u] assms by (auto simp: run_inv_def filter_empty_conv)
  then show ?thesis using one by (simp add: try_claim_lease_def Let_def)
qed

text \<open>C24: one driver at a time. After an owner claimed the lease of a run until some instant, every claim
  by another owner before that instant fails and changes nothing, so at no instant do two owners
  hold it; the holder can renew, and once it released the lease anybody can claim it.\<close>

theorem lease_exclusive:
  assumes "run_inv st" and "try_claim_lease rfc u a now e st = (True, st')" and "a \<noteq> b"
    and "\<And>x y. x \<in> {now', e} \<Longrightarrow> y \<in> {now', e} \<Longrightarrow> rfc x \<le> rfc y \<longleftrightarrow> x \<le> y" and "now' < e"
  shows "try_claim_lease rfc u b now' e' st' = (False, st') \<and> holds_lease rfc st' u a now' \<and>
    \<not> holds_lease rfc st' u b now' \<and> fst (try_claim_lease rfc u a now' e' st') \<and>
    fst (try_claim_lease rfc u b now' e' (release_lease u a st'))"
proof -
  obtain r where r: "tbl_find rr_id u st = Some r"
    and c: "rr_lease_owner r = None \<or> rr_lease_owner r = Some a \<or>
        (case rr_lease_expires_at r of None \<Rightarrow> True | Some x \<Rightarrow> x \<le> rfc now)"
    using claim_ok [OF assms(1), of rfc u a now e] assms(2) by auto
  let ?r = "r\<lparr>rr_lease_owner := Some a, rr_lease_expires_at := Some (rfc e)\<rparr>"
  have inv: "run_inv st'" using run_inv_steps(1) [OF assms(1), of rfc u a now e] assms(2) by simp
  have st': "tbl_find rr_id u st' = Some ?r" using claim_find [of u rfc u a now e st] assms(2) r c by simp
  have lt: "rfc now' < rfc e" using assms(4) [of e now'] assms(5) by auto
  have hit: "\<not> (rr_id x = u \<and> (rr_lease_owner x = None \<or> rr_lease_owner x = Some b \<or>
      (case rr_lease_expires_at x of None \<Rightarrow> True | Some y \<Rightarrow> y \<le> rfc now')))" if "x \<in> set st'" for x
  proof
    assume a: "rr_id x = u \<and> (rr_lease_owner x = None \<or> rr_lease_owner x = Some b \<or>
      (case rr_lease_expires_at x of None \<Rightarrow> True | Some y \<Rightarrow> y \<le> rfc now'))"
    then have "tbl_find rr_id u st' = Some x" using that inv by (simp add: run_inv_def tbl_find_eq_iff)
    then have "x = ?r" using st' by simp
    then show False using a assms(3) lt by auto
  qed
  then have "filter (\<lambda>x. rr_id x = u \<and> (rr_lease_owner x = None \<or> rr_lease_owner x = Some b \<or>
      (case rr_lease_expires_at x of None \<Rightarrow> True | Some y \<Rightarrow> y \<le> rfc now'))) st' = []"
    unfolding filter_empty_conv by blast
  moreover have "snd (try_claim_lease rfc u b now' e' st') = st'"
    unfolding try_claim_lease_def Let_def snd_conv by (rule tbl_update_none) (use hit in blast)
  ultimately have "try_claim_lease rfc u b now' e' st' = (False, st')"
    unfolding prod_eq_iff by (simp add: try_claim_lease_def Let_def)
  moreover have "fst (try_claim_lease rfc u a now' e' st')" using claim_ok [OF inv] st' by simp
  moreover have "tbl_find rr_id u (release_lease u a st') =
      map_option (\<lambda>r. if rr_id r = u \<and> rr_lease_owner r = Some a
        then r\<lparr>rr_lease_owner := None, rr_lease_expires_at := None\<rparr> else r) (tbl_find rr_id u st')"
    unfolding release_lease_def by (rule tbl_find_update) simp
  then have "\<exists>x. tbl_find rr_id u (release_lease u a st') = Some x \<and> rr_lease_owner x = None"
    using st' tbl_find_Some [OF r] by simp
  then have "fst (try_claim_lease rfc u b now' e' (release_lease u a st'))"
    using claim_ok [OF run_inv_steps(2) [OF inv]] by blast
  ultimately show ?thesis using st' lt assms(3) by (auto simp: holds_lease_def prod_eq_iff)
qed

theorem lease_exclusive_witness:
  "let rfc = (\<lambda>t. replicate (nat t) CHR ''1''); st' = snd (try_claim_lease rfc 1 ''a'' 0 5 (run_create demo_run []))
   in try_claim_lease rfc 1 ''b'' 3 9 st' = (False, st') \<and> holds_lease rfc st' 1 ''a'' 3"
proof -
  let ?rfc = "\<lambda>t. replicate (nat t) CHR ''1''"
  let ?st = "run_create demo_run []"
  have inv: "run_inv ?st" by code_simp
  have "fst (try_claim_lease ?rfc 1 ''a'' 0 5 ?st)" by code_simp
  then have cl: "try_claim_lease ?rfc 1 ''a'' 0 5 ?st = (True, snd (try_claim_lease ?rfc 1 ''a'' 0 5 ?st))"
    by (simp add: prod_eq_iff)
  have ord: "?rfc x \<le> ?rfc y \<longleftrightarrow> x \<le> y" if "x \<in> {3, 5}" "y \<in> {3, 5}" for x y :: int
  proof -
    have "\<forall>x \<in> {3, 5}. \<forall>y \<in> {3, 5}. ?rfc x \<le> ?rfc y \<longleftrightarrow> x \<le> (y :: int)" by code_simp
    then show ?thesis using that by blast
  qed
  have "''a'' \<noteq> ''b''" "(3 :: int) < 5" by simp_all
  from lease_exclusive [OF inv cl this(1) ord this(2), of 9] show ?thesis unfolding Let_def by blast
qed

text \<open>A dispatcher resumes only runs that can make progress. Every run offered for resumption is
  stored, pending or running, and was not touched since the given instant; a finished run and a run
  waiting for an approval is never offered.\<close>

theorem list_resumable_only_stale:
  assumes "r \<in> set (list_resumable rfc t k st)"
  shows "r \<in> rr_run ` set st \<and> \<not> is_terminal (rn_status r) \<and> rn_status r \<noteq> WaitingApproval \<and>
    rfc (rn_updated_at r) < rfc t"
  using assms by (auto simp: list_resumable_def dest!: in_set_takeD)

theorem list_resumable_only_stale_witness:
  "list_resumable (\<lambda>t. replicate (nat t) CHR ''1'') 4 9 (run_create (demo_run\<lparr>rn_id := 2, rn_status := Failed\<rparr>)
      (run_create demo_run [])) = [demo_run] \<and> \<not> is_terminal (rn_status demo_run)"
proof -
  let ?st = "run_create (demo_run\<lparr>rn_id := 2, rn_status := Failed\<rparr>) (run_create demo_run [])"
  have l: "list_resumable (\<lambda>t. replicate (nat t) CHR ''1'') 4 9 ?st = [demo_run]" by code_simp
  then have "demo_run \<in> set (list_resumable (\<lambda>t. replicate (nat t) CHR ''1'') 4 9 ?st)" by simp
  then show ?thesis using list_resumable_only_stale l by blast
qed

end
