(* ===== verification/Raft_Apply.thy ===== *)
theory Raft_Apply
  imports Memory_Lifecycle State_Store Episodic_Store Run_Ledger
begin

text \<open>
  The replicated requests of \<open>src/crates/ecphoria-cluster/src/raft/types.rs\<close> and their application
  to a node, \<open>apply_request\<close> of \<open>raft/store.rs\<close>. A node is the five stores a request can touch.
  \<open>clock\<close> is the node's own clock, read once per identifier by \<open>memory_expire\<close>; \<open>agentic\<close> is
  the build feature of that name. The theorems say which requests may be applied again after a crash
  and what of a node depends on its clock. An application that fails leaves the node as it was; in the
  code a failing \<open>memory_apply_rows\<close> may have written some of its rows before.
\<close>

record node =
  nd_memory :: engine
  nd_state :: state_store
  nd_semantic :: semantic_store
  nd_episodic :: episodic_store
  nd_runs :: run_store

datatype app_request =
    Req_Ingest "event list" "string option"
  | Req_StateSet string string json "string option"
  | Req_StateDelete string string "string option"
  | Req_SemanticUpsert uuid string embedding json
  | Req_SemanticDelete uuid
  | Req_MemoryUpsert "memory_row list"
  | Req_MemoryDelete uuid
  | Req_GraphAddEdge "string option" edge
  | Req_GraphSupersede "string option" string string ts "uuid option"
  | Req_MemoryExpire "uuid list"
  | Req_RunCreate run
  | Req_RunUpdate uuid run_patch ts

datatype app_response =
  Resp_Ingested nat | Resp_StateVersion nat | Resp_Deleted | Resp_Ok | Resp_MemoryCount nat

definition tenant_or_default :: "string option \<Rightarrow> string" where
  "tenant_or_default t = (case t of Some x \<Rightarrow> x | None \<Rightarrow> ''default'')"

definition graph_apply_edge :: "string option \<Rightarrow> edge \<Rightarrow> engine \<Rightarrow> engine" where
  "graph_apply_edge tenant e en = en\<lparr>en_store := add_edge (tenant_or_default tenant) e (en_store en)\<rparr>"

definition graph_supersede_apply ::
  "string option \<Rightarrow> string \<Rightarrow> string \<Rightarrow> ts \<Rightarrow> uuid option \<Rightarrow> engine \<Rightarrow> nat \<times> engine" where
  "graph_supersede_apply tenant src relation t by_id en =
    (case supersede_edges (tenant_or_default tenant) src relation t by_id (en_store en) of
       (n, st) \<Rightarrow> (n, en\<lparr>en_store := st\<rparr>))"

definition expire_ids :: "(nat \<Rightarrow> ts) \<Rightarrow> uuid list \<Rightarrow> engine \<Rightarrow> engine" where
  "expire_ids clock ids en = memory_expire (map (\<lambda>(i, u). (clock i, u)) (List.enumerate 0 ids)) en"

definition apply_request ::
  "ports \<Rightarrow> cognition_config \<Rightarrow> bool \<Rightarrow> (nat \<Rightarrow> ts) \<Rightarrow> app_request \<Rightarrow> node \<Rightarrow> error + app_response \<times> node" where
  "apply_request P cfg agentic clock req nd =
    (case req of
       Req_Ingest events tenant \<Rightarrow>
         res_bind (ingest_replicated events tenant (nd_episodic nd))
           (\<lambda>(n, ep). Inr (Resp_Ingested n, nd\<lparr>nd_episodic := ep\<rparr>))
     | Req_StateSet agent_id key value tenant \<Rightarrow>
         (case (case tenant of Some t \<Rightarrow> state_set_for_tenant t agent_id key value (nd_state nd)
                | None \<Rightarrow> kv_set agent_id key value (nd_state nd)) of
            (v, st) \<Rightarrow> Inr (Resp_StateVersion v, nd\<lparr>nd_state := st\<rparr>))
     | Req_StateDelete agent_id key tenant \<Rightarrow>
         Inr (Resp_Deleted, nd\<lparr>nd_state :=
           (case tenant of Some t \<Rightarrow> state_delete_for_tenant t agent_id key (nd_state nd)
            | None \<Rightarrow> kv_delete agent_id key (nd_state nd))\<rparr>)
     | Req_SemanticUpsert uid content embedding metadata \<Rightarrow>
         res_bind (ss_upsert \<lparr>se_id = uid, se_content = content, se_embedding = embedding, se_metadata = metadata\<rparr>
             (nd_semantic nd))
           (\<lambda>ss. Inr (Resp_Ok, nd\<lparr>nd_semantic := ss\<rparr>))
     | Req_SemanticDelete uid \<Rightarrow> Inr (Resp_Ok, nd\<lparr>nd_semantic := ss_delete uid (nd_semantic nd)\<rparr>)
     | Req_MemoryUpsert rows \<Rightarrow>
         (case memory_apply_rows P cfg rows (nd_memory nd) of
            (n, en) \<Rightarrow> Inr (Resp_MemoryCount n, nd\<lparr>nd_memory := en\<rparr>))
     | Req_MemoryDelete uid \<Rightarrow> Inr (Resp_MemoryCount 1, nd\<lparr>nd_memory := memory_delete uid (nd_memory nd)\<rparr>)
     | Req_GraphAddEdge tenant e \<Rightarrow> Inr (Resp_Ok, nd\<lparr>nd_memory := graph_apply_edge tenant e (nd_memory nd)\<rparr>)
     | Req_GraphSupersede tenant src relation t by_id \<Rightarrow>
         Inr (Resp_Ok, nd\<lparr>nd_memory := snd (graph_supersede_apply tenant src relation t by_id (nd_memory nd))\<rparr>)
     | Req_MemoryExpire ids \<Rightarrow>
         Inr (Resp_MemoryCount (length ids), nd\<lparr>nd_memory := expire_ids clock ids (nd_memory nd)\<rparr>)
     | Req_RunCreate r \<Rightarrow>
         Inr (Resp_Ok, if agentic then nd\<lparr>nd_runs := run_create r (nd_runs nd)\<rparr> else nd)
     | Req_RunUpdate uid patch updated_at \<Rightarrow>
         Inr (Resp_Ok, if agentic then nd\<lparr>nd_runs := snd (run_update uid patch updated_at (nd_runs nd))\<rparr> else nd))"

subsection \<open>Replicas\<close>

definition node_new :: "nat \<Rightarrow> node" where
  "node_new dims = \<lparr>nd_memory = \<lparr>en_store = ms_new, en_lex = lx_open, en_vec = sv_with_dimension dims, en_changes = []\<rparr>,
    nd_state = kv_open, nd_semantic = ss_with_dimension dims, nd_episodic = ep_new, nd_runs = []\<rparr>"

text \<open>Applying a sequence of requests; a request that fails stops the node.\<close>

fun apply_all :: "ports \<Rightarrow> cognition_config \<Rightarrow> bool \<Rightarrow> (nat \<Rightarrow> nat \<Rightarrow> ts) \<Rightarrow> nat \<Rightarrow> app_request list \<Rightarrow> node \<Rightarrow>
  error + node" where
  "apply_all P cfg agentic clock i [] nd = Inr nd"
| "apply_all P cfg agentic clock i (req # reqs) nd =
     res_bind (apply_request P cfg agentic (clock i) req nd) (\<lambda>(_, nd'). apply_all P cfg agentic clock (i + 1) reqs nd')"

fun reads_clock :: "app_request \<Rightarrow> bool" where
  "reads_clock (Req_MemoryExpire ids) = (ids \<noteq> [])"
| "reads_clock _ = False"

lemma apply_request_clock:
  "\<not> reads_clock req \<Longrightarrow> apply_request P cfg agentic c1 req nd = apply_request P cfg agentic c2 req nd"
  by (cases req) (simp_all add: apply_request_def expire_ids_def)

text \<open>Two nodes that start from the same state and apply the same committed requests end in the same modelled
  state, or stop at the same request with the same error, whatever their clocks show, as long as no request
  of the sequence expires memories. The columns that are written from the local clock and that no
  modelled operation reads are not part of the model: \<open>updated_at\<close> of agent state and \<open>created_at\<close> of graph
  edges do differ between replicas.\<close>

lemma replicas_agree:
  assumes "\<forall>req \<in> set reqs. \<not> reads_clock req"
  shows "apply_all P cfg agentic clock1 i reqs nd = apply_all P cfg agentic clock2 i reqs nd"
  using assms
proof (induction reqs arbitrary: i nd)
  case (Cons req reqs)
  have "apply_request P cfg agentic (clock1 i) req nd = apply_request P cfg agentic (clock2 i) req nd"
    using Cons.prems by (intro apply_request_clock) simp
  then show ?case using Cons by (auto simp: res_bind_def split: sum.split)
qed simp

lemma replicas_agree_witness:
  "apply_all demo_ports demo_cfg True (\<lambda>_ _. 1) 0 [Req_StateSet ''a'' ''k'' (JInt 1) (Some ''t''), Req_MemoryDelete 3] (node_new 2) =
    apply_all demo_ports demo_cfg True (\<lambda>_ _. 2) 0 [Req_StateSet ''a'' ''k'' (JInt 1) (Some ''t''), Req_MemoryDelete 3] (node_new 2)"
proof -
  have "\<forall>req \<in> set [Req_StateSet ''a'' ''k'' (JInt 1) (Some ''t''), Req_MemoryDelete 3]. \<not> reads_clock req" by simp
  then show ?thesis by (rule replicas_agree)
qed

text \<open>An expiry takes the clock of each replica: two replicas record different validity ends.\<close>

theorem replicas_differ_on_expire:
  "let nd = (node_new 2)\<lparr>nd_memory := demo_engine1\<rparr>;
       valid_to = (\<lambda>c. case apply_request demo_ports demo_cfg True (\<lambda>_. c) (Req_MemoryExpire [1]) nd of
         Inl _ \<Rightarrow> None | Inr (_, nd') \<Rightarrow> Option.bind (ms_get 1 (en_store (nd_memory nd'))) m_valid_to)
   in valid_to 50 = Some 50 \<and> valid_to 60 = Some 60"
  by code_simp

subsection \<open>Applying a request again\<close>

text \<open>
  What a reader of a node can tell apart: the stored memories, edges, grants and attachments, the
  agent state with its versions, the vectors of the semantic index, the events and the runs.
\<close>

definition ss_view :: "semantic_store \<Rightarrow> uuid \<Rightarrow> (entry_metadata \<times> embedding) option" where
  "ss_view ss u = (case map_of (ss_uuid_to_key ss) u of
     None \<Rightarrow> None
   | Some k \<Rightarrow> (case (map_of (ss_entries ss) k, map_of (ss_index ss) k) of
         (Some e, Some v) \<Rightarrow> Some (e, v) | _ \<Rightarrow> None))"

definition node_view ::
  "node \<Rightarrow> memory_store \<times> state_row list \<times> (uuid \<Rightarrow> (entry_metadata \<times> embedding) option) \<times> episodic_store \<times> run_store"
where
  "node_view nd = (en_store (nd_memory nd), kv_db (nd_state nd), ss_view (nd_semantic nd), nd_episodic nd, nd_runs nd)"

definition node_inv :: "node \<Rightarrow> bool" where
  "node_inv nd \<longleftrightarrow> ms_inv (en_store (nd_memory nd)) \<and> kv_inv (nd_state nd) \<and> ss_inv (nd_semantic nd)"

lemma ss_view_upsert:
  assumes "ss_inv ss" and "ss_upsert e ss = Inr ss'"
  shows "ss_view ss' u = (if u = se_id e then Some (\<lparr>em_id = se_id e, em_content = se_content e, em_metadata = se_metadata e\<rparr>, se_embedding e)
    else ss_view (ss_delete (se_id e) ss) u)"
proof -
  let ?d = "ss_delete (se_id e) ss"
  have d: "ss_inv ?d" by (rule ss_inv_delete [OF assms(1)])
  have fresh: "k \<noteq> ss_next_key ?d" if key: "map_of (ss_uuid_to_key ?d) u = Some k" for k
  proof -
    obtain x where "map_of (ss_entries ?d) k = Some x" using d key unfolding ss_inv_def by blast
    then show ?thesis using d unfolding ss_inv_def by (metis less_irrefl)
  qed
  show ?thesis using assms(2) fresh by (auto simp: ss_upsert_Inr_iff Let_def ss_view_def split: option.splits)
qed

lemma ss_view_delete:
  assumes "ss_inv ss" shows "ss_view (ss_delete d ss) u = (if u = d then None else ss_view ss u)"
proof (cases "map_of (ss_uuid_to_key ss) d")
  case None
  then show ?thesis by (simp add: ss_delete_def ss_view_def)
next
  case (Some k)
  have "k' \<noteq> k" if "map_of (ss_uuid_to_key ss) u = Some k'" "u \<noteq> d" for k'
    using assms Some that unfolding ss_inv_def by (metis option.inject)
  then show ?thesis using Some by (auto simp: ss_delete_def ss_view_def split: option.splits)
qed

lemma supersede_edges_again:
  "snd (supersede_edges t s r w b (snd (supersede_edges t s r w b st))) = snd (supersede_edges t s r w b st)"
  by (simp add: supersede_edges_def Let_def tbl_update_def comp_def)

lemma ms_delete_again: "ms_delete u (ms_delete u st) = ms_delete u st"
  by (simp add: ms_delete_def tbl_delete_def)

text \<open>An identifier without an active memory.\<close>

definition retired :: "uuid \<Rightarrow> memory_store \<Rightarrow> bool" where
  "retired u st \<longleftrightarrow> (\<forall>m \<in> mems st. m_id m = u \<longrightarrow> m_state m \<noteq> Active)"

lemma ms_expire_retired: "retired u st \<Longrightarrow> snd (ms_expire now u st) = st"
proof -
  assume r: "retired u st"
  have "set (ms_select (\<lambda>m. m_id m = u \<and> m_state m = Active) st) = {}"
    using r unfolding retired_def by (simp only: set_eq_iff in_ms_select) blast
  then show ?thesis unfolding ms_expire_def Let_def snd_conv set_empty by (rule set_memory_none)
qed

lemma mems_expire: "mems (snd (ms_expire now u st)) = (\<lambda>m. if m_id m = u \<and> m_state m = Active
    then m\<lparr>m_state := Expired, m_valid_to := Some now, m_updated_at := now\<rparr> else m) ` mems st"
proof -
  let ?g = "\<lambda>m. if m_id m = u \<and> m_state m = Active
    then m\<lparr>m_state := Expired, m_valid_to := Some now, m_updated_at := now\<rparr> else m"
  have "map mr_memory (st_memories (snd (ms_expire now u st))) = map ?g (map mr_memory (st_memories st))"
    by (simp add: ms_expire_def set_memory_def tbl_update_def Let_def)
  from arg_cong [OF this, of set] show ?thesis unfolding mems_def set_map .
qed

lemma retired_expire: "retired v st \<or> v = u \<Longrightarrow> retired v (snd (ms_expire now u st))"
  unfolding retired_def mems_expire by auto

lemma expire_store: "en_store (memory_expire ids en) = fold (\<lambda>(now, u) st. snd (ms_expire now u st)) ids (en_store en)"
proof -
  have one: "en_store (expire_one now u en) = snd (ms_expire now u (en_store en))" for now u en
    by (simp add: expire_one_def Let_def split: option.split)
  show ?thesis unfolding memory_expire_def by (induction ids arbitrary: en) (auto simp: one)
qed

lemma fold_expire_retires:
  "u \<in> snd ` set ids \<or> retired u st \<Longrightarrow> retired u (fold (\<lambda>(now, u) st. snd (ms_expire now u st)) ids st)"
proof (induction ids arbitrary: st)
  case (Cons x ids)
  obtain now v where x: "x = (now, v)" by fastforce
  have "u \<in> snd ` set ids \<or> retired u (snd (ms_expire now v st))" using Cons.prems x retired_expire by auto
  then show ?case using Cons.IH x by simp
qed simp

lemma fold_expire_none:
  "(\<And>u. u \<in> snd ` set ids \<Longrightarrow> retired u st) \<Longrightarrow> fold (\<lambda>(now, u) st. snd (ms_expire now u st)) ids st = st"
  by (induction ids) (auto simp: ms_expire_retired)

lemma expire_ids_again:
  "en_store (expire_ids c2 ids (expire_ids c1 ids en)) = en_store (expire_ids c1 ids en)"
proof -
  have snds: "snd ` set (map (\<lambda>(i, u). (c i, u)) (List.enumerate 0 ids)) = set ids" for c :: "nat \<Rightarrow> ts"
  proof -
    have "map snd (map (\<lambda>(i, u). (c i, u)) xs) = map snd xs" for xs :: "(nat \<times> uuid) list" by (induction xs) auto
    then show ?thesis by (metis map_snd_enumerate set_map)
  qed
  show ?thesis unfolding expire_ids_def expire_store
  proof (rule fold_expire_none)
    fix u assume "u \<in> snd ` set (map (\<lambda>(i, u). (c2 i, u)) (List.enumerate 0 ids))"
    then have "u \<in> snd ` set (map (\<lambda>(i, u). (c1 i, u)) (List.enumerate 0 ids))" unfolding snds .
    then show "retired u (fold (\<lambda>(now, u) st. snd (ms_expire now u st))
        (map (\<lambda>(i, u). (c1 i, u)) (List.enumerate 0 ids)) (en_store en))" by (intro fold_expire_retires disjI1)
  qed
qed

lemma kv_delete_again: "kv_db (kv_delete a k (kv_delete a k st)) = kv_db (kv_delete a k st)"
  by (simp add: kv_delete_def kv_notify_def tbl_delete_def)

lemma kv_set_version:
  assumes "kv_inv st" shows "fst (kv_set a k v (snd (kv_set a k v st))) = fst (kv_set a k v st) + 1"
proof -
  obtain ver db where w: "kv_write a k v (\<lambda>e. e) (kv_db st) = (ver, db)" by fastforce
  then obtain row where "db = tbl_put sw_id row (kv_db st)" "sw_id row = (a, k)" "sw_version row = ver"
    by (rule kv_write_row)
  then show ?thesis using w by (simp add: kv_set_def kv_notify_def kv_write_def Let_def case_prod_beta)
qed

lemma ingest_again:
  assumes "ingest_replicated evs t ep = Inr (n, ep1)"
  shows "ingest_replicated evs t ep1 =
    (if evs \<noteq> [] \<and> list_all (\<lambda>e. ev_idempotency_key e = None) evs then Inl (Ingest ''appender flush'') else Inr (0, ep1))"
proof -
  let ?evs = "case t of Some t \<Rightarrow> map (tag_tenant t) evs | None \<Rightarrow> evs"
  have "ev_idempotency_key (tag_tenant x e) = ev_idempotency_key e" for x e
    by (simp add: tag_tenant_def split: json.split)
  then have keys: "list_all (\<lambda>e. ev_idempotency_key e = None) ?evs = list_all (\<lambda>e. ev_idempotency_key e = None) evs"
    by (simp add: list_all_iff split: option.split)
  have nil: "?evs = [] \<longleftrightarrow> evs = []" by (simp split: option.split)
  show ?thesis
  proof (cases "evs = []")
    case True
    then have "?evs = []" using nil by blast
    then show ?thesis using True by (simp add: ingest_replicated_def ingest_episodic_only_def split: option.split)
  next
    case False
    then have "ep_append ?evs ep = Inr (n, ep1)"
      using assms nil by (simp add: ingest_replicated_def ingest_episodic_only_def)
    from ep_append_replay [OF _ this] show ?thesis
      using False nil keys by (simp add: ingest_replicated_def ingest_episodic_only_def)
  qed
qed

lemma state_for_tenant:
  "(case t of Some x \<Rightarrow> state_set_for_tenant x a k v st | None \<Rightarrow> kv_set a k v st) =
     kv_set (case t of Some x \<Rightarrow> scoped_agent x a | None \<Rightarrow> a) k v st"
  "(case t of Some x \<Rightarrow> state_delete_for_tenant x a k st | None \<Rightarrow> kv_delete a k st) =
     kv_delete (case t of Some x \<Rightarrow> scoped_agent x a | None \<Rightarrow> a) k st"
  by (simp_all add: state_set_for_tenant_def state_delete_for_tenant_def split: option.split)

lemma semantic_upsert_again:
  assumes inv: "ss_inv s" and up: "ss_upsert e s = Inr ss"
  shows "\<exists>ss2. ss_upsert e ss = Inr ss2 \<and> ss_view ss2 = ss_view ss"
proof -
  have inv1: "ss_inv ss" using ss_inv_upsert [OF inv up] .
  have "length (se_embedding e) = ss_dimension ss" using up by (auto simp: ss_upsert_Inr_iff Let_def ss_delete_def split: option.splits)
  then obtain ss2 where ss2: "ss_upsert e ss = Inr ss2" by (auto simp: ss_upsert_Inr_iff Let_def)
  have "ss_view ss2 x = ss_view ss x" for x
    using ss_view_upsert [OF inv up, of x] ss_view_upsert [OF inv1 ss2, of x] ss_view_delete [OF inv1, of "se_id e" x] by simp
  then show ?thesis using ss2 by blast
qed

lemma semantic_delete_again:
  assumes inv: "ss_inv s"
  shows "ss_view (ss_delete u (ss_delete u s)) = ss_view (ss_delete u s)"
proof
  fix x
  show "ss_view (ss_delete u (ss_delete u s)) x = ss_view (ss_delete u s) x"
    using ss_view_delete [OF ss_inv_delete [OF inv], of u u x] ss_view_delete [OF inv, of u x] by simp
qed

text \<open>C8: which committed requests may be applied again. After a request was applied, applying it a second
  time, at whatever time, succeeds and changes nothing a reader can see, for memory, graph,
  semantic, run and delete requests and for events that carry an idempotency key. The two
  exceptions are exact: an agent-state write is counted again and returns the next version, and a
  batch of events without idempotency keys is refused, so a node that crashed after applying it
  stops on it at every restart.\<close>

theorem apply_request_replay:
  assumes "node_inv nd" and "apply_request P cfg agentic clock1 req nd = Inr (resp, nd1)"
  shows "case req of
      Req_StateSet a k v t \<Rightarrow> \<exists>n nd2. resp = Resp_StateVersion n \<and>
        apply_request P cfg agentic clock2 req nd1 = Inr (Resp_StateVersion (n + 1), nd2)
    | Req_Ingest evs t \<Rightarrow>
        (if evs \<noteq> [] \<and> list_all (\<lambda>e. ev_idempotency_key e = None) evs
         then apply_request P cfg agentic clock2 req nd1 = Inl (Ingest ''appender flush'')
         else \<exists>resp2 nd2. apply_request P cfg agentic clock2 req nd1 = Inr (resp2, nd2) \<and> node_view nd2 = node_view nd1)
    | _ \<Rightarrow> \<exists>resp2 nd2. apply_request P cfg agentic clock2 req nd1 = Inr (resp2, nd2) \<and> node_view nd2 = node_view nd1"
proof (cases req)
  case (Req_Ingest evs t)
  obtain n ep where i: "ingest_replicated evs t (nd_episodic nd) = Inr (n, ep)" "nd1 = nd\<lparr>nd_episodic := ep\<rparr>"
    using assms(2) Req_Ingest by (auto simp: apply_request_def res_bind_Inr_iff)
  then show ?thesis using Req_Ingest by (simp add: apply_request_def node_view_def ingest_again [OF i(1)])
next
  case (Req_StateSet a k v t)
  have "kv_inv (nd_state nd)" using assms(1) by (simp add: node_inv_def)
  from kv_set_version [OF this, of "case t of Some x \<Rightarrow> scoped_agent x a | None \<Rightarrow> a" k v] show ?thesis
    using assms(2) Req_StateSet by (auto simp: apply_request_def state_for_tenant split: prod.splits)
next
  case (Req_StateDelete a k t)
  then show ?thesis using assms(2) by (auto simp: apply_request_def node_view_def state_for_tenant kv_delete_again)
next
  case (Req_SemanticUpsert u c e md)
  let ?e = "\<lparr>se_id = u, se_content = c, se_embedding = e, se_metadata = md\<rparr>"
  obtain ss where ss: "ss_upsert ?e (nd_semantic nd) = Inr ss" "nd1 = nd\<lparr>nd_semantic := ss\<rparr>"
    using assms(2) Req_SemanticUpsert by (auto simp: apply_request_def res_bind_Inr_iff)
  then show ?thesis using Req_SemanticUpsert semantic_upsert_again [OF _ ss(1)] assms(1)
    by (auto simp: apply_request_def node_view_def node_inv_def)
next
  case (Req_SemanticDelete u)
  then show ?thesis using assms semantic_delete_again by (auto simp: apply_request_def node_view_def node_inv_def)
next
  case (Req_MemoryUpsert rows)
  have inv: "ms_inv (en_store (nd_memory nd))" using assms(1) by (simp add: node_inv_def)
  from fold_apply_replay [OF inv, of P cfg rows "[]"] show ?thesis
    using assms(2) Req_MemoryUpsert by (auto simp: apply_request_def node_view_def memory_apply_rows_def)
qed (use assms(2) run_apply_idempotent in \<open>auto simp: apply_request_def node_view_def memory_delete_def Let_def ms_delete_again
      graph_apply_edge_def add_edge_def graph_supersede_apply_def supersede_edges_again case_prod_beta expire_ids_again\<close>)

theorem apply_request_replay_witness:
  "\<exists>resp nd1. apply_request demo_ports demo_cfg True (\<lambda>_. 0) (Req_Ingest [demo_event] None) (node_new 2) = Inr (resp, nd1) \<and>
    apply_request demo_ports demo_cfg True (\<lambda>_. 9) (Req_Ingest [demo_event] None) nd1 = Inl (Ingest ''appender flush'')"
proof -
  have "case apply_request demo_ports demo_cfg True (\<lambda>_. 0) (Req_Ingest [demo_event] None) (node_new 2) of
      Inl _ \<Rightarrow> False | Inr _ \<Rightarrow> True" by code_simp
  then obtain resp nd1 where a: "apply_request demo_ports demo_cfg True (\<lambda>_. 0) (Req_Ingest [demo_event] None) (node_new 2) =
      Inr (resp, nd1)" by (auto split: sum.splits)
  have "node_inv (node_new 2)" by (simp add: node_inv_def node_new_def ms_inv_def ms_new_def)
  from apply_request_replay [OF this a, of "\<lambda>_. 9"]
  have "apply_request demo_ports demo_cfg True (\<lambda>_. 9) (Req_Ingest [demo_event] None) nd1 = Inl (Ingest ''appender flush'')"
    by (simp add: demo_event_def)
  then show ?thesis using a by blast
qed

end
