(* ===== verification/Raft_Store.thy ===== *)
theory Raft_Store
  imports Sql_Table
begin

text \<open>
  The Raft log, vote and applied state, \<open>MemStore\<close> of
  \<open>src/crates/ecphoria-cluster/src/raft/store.rs\<close>: an in-memory copy and an optional SQLite file.
  The request, response, membership and engine types are those of the deployment (\<open>Raft_Apply\<close>),
  the apply function is an argument.

  A write to the file can fail: \<open>disk_ok n\<close> is the outcome of the \<open>n\<close>-th write. \<open>wire\<close> is what
  MessagePack makes of an entry that is written and read back: the entry, or \<open>None\<close> where the
  decoder rejects it. The file holds entries in their written form, and a restart keeps those that
  decode.
\<close>

record log_id =
  li_leader :: "nat \<times> nat"
  li_index :: nat

datatype ('r, 'm) payload = Blank | Normal 'r | Membership 'm

record ('r, 'm) raft_entry =
  re_log_id :: log_id
  re_payload :: "('r, 'm) payload"

record 'm snapshot_meta =
  sp_last_log_id :: "log_id option"
  sp_last_membership :: "log_id option \<times> 'm"
  sp_snapshot_id :: string

text \<open>The two tables; a metadata value is absent until it is first written.\<close>

record ('r, 'm, 'v) raft_disk =
  dk_log :: "(nat \<times> ('r, 'm) raft_entry) list"
  dk_vote :: "'v option"
  dk_committed :: "log_id option option"
  dk_last_purged :: "log_id option option"
  dk_last_applied :: "log_id option option"
  dk_last_membership :: "(log_id option \<times> 'm) option"

record ('r, 'm, 'v, 'e) raft_store =
  rs_db :: "('r, 'm, 'v) raft_disk option"
  rs_writes :: nat
  rs_log :: "(nat \<times> ('r, 'm) raft_entry) list"
  rs_vote :: "'v option"
  rs_last_purged :: "log_id option"
  rs_last_applied :: "log_id option"
  rs_last_membership :: "log_id option \<times> 'm"
  rs_snapshot :: "('m snapshot_meta \<times> string) option"
  rs_committed :: "log_id option"
  rs_engine :: "'e option"

definition disk_new :: "('r, 'm, 'v) raft_disk" where
  "disk_new = \<lparr>dk_log = [], dk_vote = None, dk_committed = None, dk_last_purged = None, dk_last_applied = None,
    dk_last_membership = None\<rparr>"

definition disk_write ::
  "(nat \<Rightarrow> bool) \<Rightarrow> (('r, 'm, 'v) raft_disk \<Rightarrow> ('r, 'm, 'v) raft_disk) \<Rightarrow> ('r, 'm, 'v, 'e) raft_store \<Rightarrow>
   bool \<times> ('r, 'm, 'v, 'e) raft_store" where
  "disk_write disk_ok f st =
    (case rs_db st of
       None \<Rightarrow> (True, st)
     | Some d \<Rightarrow> if disk_ok (rs_writes st)
         then (True, st\<lparr>rs_db := Some (f d), rs_writes := Suc (rs_writes st)\<rparr>)
         else (False, st\<lparr>rs_writes := Suc (rs_writes st)\<rparr>))"

definition persist_entry :: "(nat \<Rightarrow> bool) \<Rightarrow> nat \<Rightarrow> ('r, 'm) raft_entry \<Rightarrow> ('r, 'm, 'v, 'e) raft_store \<Rightarrow>
   bool \<times> ('r, 'm, 'v, 'e) raft_store" where
  "persist_entry disk_ok idx e st = disk_write disk_ok (\<lambda>d. d\<lparr>dk_log := tbl_put fst (idx, e) (dk_log d)\<rparr>) st"

definition delete_entries_from :: "(nat \<Rightarrow> bool) \<Rightarrow> nat \<Rightarrow> ('r, 'm, 'v, 'e) raft_store \<Rightarrow>
   bool \<times> ('r, 'm, 'v, 'e) raft_store" where
  "delete_entries_from disk_ok idx st =
    disk_write disk_ok (\<lambda>d. d\<lparr>dk_log := tbl_delete (\<lambda>(i, _). i \<ge> idx) (dk_log d)\<rparr>) st"

definition delete_entries_upto :: "(nat \<Rightarrow> bool) \<Rightarrow> nat \<Rightarrow> ('r, 'm, 'v, 'e) raft_store \<Rightarrow>
   bool \<times> ('r, 'm, 'v, 'e) raft_store" where
  "delete_entries_upto disk_ok idx st =
    disk_write disk_ok (\<lambda>d. d\<lparr>dk_log := tbl_delete (\<lambda>(i, _). i \<le> idx) (dk_log d)\<rparr>) st"

definition hydrate_log ::
  "(('r, 'm) raft_entry \<Rightarrow> ('r, 'm) raft_entry option) \<Rightarrow> (nat \<times> ('r, 'm) raft_entry) list \<Rightarrow>
   (nat \<times> ('r, 'm) raft_entry) list" where
  "hydrate_log wire rows =
    fold (\<lambda>(i, e) l. case wire e of Some e' \<Rightarrow> tbl_put fst (i, e') l | None \<Rightarrow> l) (sort_key fst rows) []"

definition raft_new :: "'m \<Rightarrow> 'e option \<Rightarrow> ('r, 'm, 'v, 'e) raft_store" where
  "raft_new no_members eng =
    \<lparr>rs_db = None, rs_writes = 0, rs_log = [], rs_vote = None, rs_last_purged = None, rs_last_applied = None,
     rs_last_membership = (None, no_members), rs_snapshot = None, rs_committed = None, rs_engine = eng\<rparr>"

text \<open>Opening the file: everything is read back from it; the snapshot is not kept there.\<close>

definition raft_open ::
  "(('r, 'm) raft_entry \<Rightarrow> ('r, 'm) raft_entry option) \<Rightarrow> 'm \<Rightarrow> nat \<Rightarrow> ('r, 'm, 'v) raft_disk \<Rightarrow> 'e option \<Rightarrow>
   ('r, 'm, 'v, 'e) raft_store" where
  "raft_open wire no_members writes d eng =
    \<lparr>rs_db = Some d, rs_writes = writes, rs_log = hydrate_log wire (dk_log d), rs_vote = dk_vote d,
     rs_last_purged = Option.bind (dk_last_purged d) (\<lambda>x. x),
     rs_last_applied = Option.bind (dk_last_applied d) (\<lambda>x. x),
     rs_last_membership = (case dk_last_membership d of Some m \<Rightarrow> m | None \<Rightarrow> (None, no_members)),
     rs_snapshot = None, rs_committed = Option.bind (dk_committed d) (\<lambda>x. x), rs_engine = eng\<rparr>"

subsection \<open>The storage operations\<close>

definition save_vote :: "(nat \<Rightarrow> bool) \<Rightarrow> 'v \<Rightarrow> ('r, 'm, 'v, 'e) raft_store \<Rightarrow> bool \<times> ('r, 'm, 'v, 'e) raft_store" where
  "save_vote disk_ok v st =
    (case disk_write disk_ok (\<lambda>d. d\<lparr>dk_vote := Some v\<rparr>) st of
       (True, st') \<Rightarrow> (True, st'\<lparr>rs_vote := Some v\<rparr>) | (False, st') \<Rightarrow> (False, st'))"

definition save_committed :: "(nat \<Rightarrow> bool) \<Rightarrow> log_id option \<Rightarrow> ('r, 'm, 'v, 'e) raft_store \<Rightarrow>
   bool \<times> ('r, 'm, 'v, 'e) raft_store" where
  "save_committed disk_ok c st =
    (case disk_write disk_ok (\<lambda>d. d\<lparr>dk_committed := Some c\<rparr>) st of
       (True, st') \<Rightarrow> (True, st'\<lparr>rs_committed := c\<rparr>) | (False, st') \<Rightarrow> (False, st'))"

definition last_entry :: "(nat \<times> 'x) list \<Rightarrow> 'x option" where
  "last_entry l = (case rev (sort_key fst l) of [] \<Rightarrow> None | (_, e) # _ \<Rightarrow> Some e)"

definition get_log_state :: "('r, 'm, 'v, 'e) raft_store \<Rightarrow> log_id option \<times> log_id option" where
  "get_log_state st =
    (rs_last_purged st,
     case last_entry (rs_log st) of Some e \<Rightarrow> Some (re_log_id e) | None \<Rightarrow> rs_last_purged st)"

definition try_get_log_entries :: "nat \<Rightarrow> nat \<Rightarrow> ('r, 'm, 'v, 'e) raft_store \<Rightarrow> ('r, 'm) raft_entry list" where
  "try_get_log_entries lo hi st = map snd (sort_key fst (filter (\<lambda>(i, _). lo \<le> i \<and> i < hi) (rs_log st)))"

fun append_to_log :: "(nat \<Rightarrow> bool) \<Rightarrow> ('r, 'm) raft_entry list \<Rightarrow> ('r, 'm, 'v, 'e) raft_store \<Rightarrow>
   bool \<times> ('r, 'm, 'v, 'e) raft_store" where
  "append_to_log disk_ok [] st = (True, st)"
| "append_to_log disk_ok (e # es) st =
     (let idx = li_index (re_log_id e)
      in case persist_entry disk_ok idx e st of
           (False, st') \<Rightarrow> (False, st')
         | (True, st') \<Rightarrow> append_to_log disk_ok es (st'\<lparr>rs_log := tbl_put fst (idx, e) (rs_log st')\<rparr>))"

definition delete_conflict_logs_since :: "(nat \<Rightarrow> bool) \<Rightarrow> log_id \<Rightarrow> ('r, 'm, 'v, 'e) raft_store \<Rightarrow>
   bool \<times> ('r, 'm, 'v, 'e) raft_store" where
  "delete_conflict_logs_since disk_ok lid st =
    (case delete_entries_from disk_ok (li_index lid) st of
       (False, st') \<Rightarrow> (False, st')
     | (True, st') \<Rightarrow> (True, st'\<lparr>rs_log := tbl_delete (\<lambda>(i, _). i \<ge> li_index lid) (rs_log st')\<rparr>))"

definition purge_logs_upto :: "(nat \<Rightarrow> bool) \<Rightarrow> log_id \<Rightarrow> ('r, 'm, 'v, 'e) raft_store \<Rightarrow>
   bool \<times> ('r, 'm, 'v, 'e) raft_store" where
  "purge_logs_upto disk_ok lid st =
    (case disk_write disk_ok (\<lambda>d. d\<lparr>dk_last_purged := Some (Some lid)\<rparr>) st of
       (False, st') \<Rightarrow> (False, st')
     | (True, st') \<Rightarrow>
         (case delete_entries_upto disk_ok (li_index lid) (st'\<lparr>rs_last_purged := Some lid\<rparr>) of
            (False, st'') \<Rightarrow> (False, st'')
          | (True, st'') \<Rightarrow> (True, st''\<lparr>rs_log := tbl_delete (\<lambda>(i, _). i \<le> li_index lid) (rs_log st'')\<rparr>)))"

definition last_applied_state :: "('r, 'm, 'v, 'e) raft_store \<Rightarrow> log_id option \<times> (log_id option \<times> 'm)" where
  "last_applied_state st = (rs_last_applied st, rs_last_membership st)"

text \<open>
  One committed entry: its effect first, then the mark. \<open>None\<close> stands for the storage error that
  stops the node. A failing effect leaves the engine as it was; in the code some of the rows of one
  failing request may have been written.
\<close>

definition apply_entry ::
  "(nat \<Rightarrow> bool) \<Rightarrow> ('r \<Rightarrow> 'e \<Rightarrow> 'x + 'a \<times> 'e) \<Rightarrow> 'a \<Rightarrow> ('r, 'm) raft_entry \<Rightarrow> ('r, 'm, 'v, 'e) raft_store \<Rightarrow>
   'a option \<times> ('r, 'm, 'v, 'e) raft_store" where
  "apply_entry disk_ok ap ok_resp e st =
    (let (resp, st1) = (case re_payload e of
         Blank \<Rightarrow> (Some ok_resp, st)
       | Normal req \<Rightarrow> (case rs_engine st of
             None \<Rightarrow> (Some ok_resp, st)
           | Some eng \<Rightarrow> (case ap req eng of
               Inl _ \<Rightarrow> (None, st) | Inr (r, eng') \<Rightarrow> (Some r, st\<lparr>rs_engine := Some eng'\<rparr>)))
       | Membership m \<Rightarrow>
           (let st0 = st\<lparr>rs_last_membership := (Some (re_log_id e), m)\<rparr>
            in case disk_write disk_ok (\<lambda>d. d\<lparr>dk_last_membership := Some (Some (re_log_id e), m)\<rparr>) st0 of
                 (True, st') \<Rightarrow> (Some ok_resp, st') | (False, st') \<Rightarrow> (None, st')))
     in case resp of
          None \<Rightarrow> (None, st1)
        | Some r \<Rightarrow>
            (case disk_write disk_ok (\<lambda>d. d\<lparr>dk_last_applied := Some (Some (re_log_id e))\<rparr>) st1 of
               (True, st2) \<Rightarrow> (Some r, st2\<lparr>rs_last_applied := Some (re_log_id e)\<rparr>)
             | (False, st2) \<Rightarrow> (None, st2)))"

fun apply_to_state_machine ::
  "(nat \<Rightarrow> bool) \<Rightarrow> ('r \<Rightarrow> 'e \<Rightarrow> 'x + 'a \<times> 'e) \<Rightarrow> 'a \<Rightarrow> ('r, 'm) raft_entry list \<Rightarrow> ('r, 'm, 'v, 'e) raft_store \<Rightarrow>
   'a list option \<times> ('r, 'm, 'v, 'e) raft_store" where
  "apply_to_state_machine disk_ok ap ok_resp [] st = (Some [], st)"
| "apply_to_state_machine disk_ok ap ok_resp (e # es) st =
     (case apply_entry disk_ok ap ok_resp e st of
        (None, st') \<Rightarrow> (None, st')
      | (Some r, st') \<Rightarrow>
          (case apply_to_state_machine disk_ok ap ok_resp es st' of
             (None, st'') \<Rightarrow> (None, st'') | (Some rs, st'') \<Rightarrow> (Some (r # rs), st'')))"

text \<open>
  \<open>build\<close> and \<open>restore\<close> are the snapshot codec of the engine; a restore that fails may leave the
  engine partly restored. \<open>fmt_id\<close> prints a log identifier and \<open>fresh\<close> is the new UUID.
\<close>

definition build_snapshot ::
  "('e \<Rightarrow> string option) \<Rightarrow> (log_id \<Rightarrow> string) \<Rightarrow> string \<Rightarrow> ('r, 'm, 'v, 'e) raft_store \<Rightarrow>
   ('m snapshot_meta \<times> string) option \<times> ('r, 'm, 'v, 'e) raft_store" where
  "build_snapshot build fmt_id fresh st =
    (case (case rs_engine st of Some eng \<Rightarrow> build eng | None \<Rightarrow> Some []) of
       None \<Rightarrow> (None, st)
     | Some data \<Rightarrow>
         (let meta = \<lparr>sp_last_log_id = rs_last_applied st, sp_last_membership = rs_last_membership st,
                      sp_snapshot_id = (case rs_last_applied st of Some i \<Rightarrow> fmt_id i | None \<Rightarrow> []) @ ''-'' @ fresh\<rparr>
          in (Some (meta, data), st\<lparr>rs_snapshot := Some (meta, data)\<rparr>)))"

definition install_snapshot ::
  "(nat \<Rightarrow> bool) \<Rightarrow> (string \<Rightarrow> 'e \<Rightarrow> bool \<times> 'e) \<Rightarrow> 'm snapshot_meta \<Rightarrow> string \<Rightarrow> ('r, 'm, 'v, 'e) raft_store \<Rightarrow>
   bool \<times> ('r, 'm, 'v, 'e) raft_store" where
  "install_snapshot disk_ok restore meta data st =
    (if data = [] \<and> sp_last_log_id meta \<noteq> None then (False, st)
     else case (case rs_engine st of
           Some eng \<Rightarrow> if data = [] then (True, st) else map_prod id (\<lambda>eng'. st\<lparr>rs_engine := Some eng'\<rparr>) (restore data eng)
         | None \<Rightarrow> (True, st)) of
       (False, st1) \<Rightarrow> (False, st1)
     | (True, st1) \<Rightarrow>
         (let st2 = st1\<lparr>rs_last_applied := sp_last_log_id meta,
                        rs_last_membership := sp_last_membership meta, rs_snapshot := Some (meta, data)\<rparr>
          in case disk_write disk_ok (\<lambda>d. d\<lparr>dk_last_applied := Some (sp_last_log_id meta)\<rparr>) st2 of
               (False, st3) \<Rightarrow> (False, st3)
             | (True, st3) \<Rightarrow> disk_write disk_ok (\<lambda>d. d\<lparr>dk_last_membership := Some (sp_last_membership meta)\<rparr>) st3))"

definition get_current_snapshot :: "('r, 'm, 'v, 'e) raft_store \<Rightarrow> ('m snapshot_meta \<times> string) option" where
  "get_current_snapshot st = rs_snapshot st"

subsection \<open>The log as a map\<close>

definition log_abs :: "('r, 'm, 'v, 'e) raft_store \<Rightarrow> nat \<Rightarrow> ('r, 'm) raft_entry option" where
  "log_abs st i = map_option snd (tbl_find fst i (rs_log st))"

lemma sort_tbl_eq:
  assumes "tbl_inv fst xs" and "tbl_inv fst ys" and "\<And>k. tbl_find fst k xs = tbl_find fst k ys"
  shows "sort_key fst xs = sort_key fst (ys :: (nat \<times> 'x) list)"
proof -
  have set: "set xs = set ys"
  proof (rule set_eqI)
    show "r \<in> set xs \<longleftrightarrow> r \<in> set ys" for r
      using assms(3) [of "fst r"] tbl_find_eq_iff [OF assms(1), of "fst r" r] tbl_find_eq_iff [OF assms(2), of "fst r" r] by simp
  qed
  have d: "distinct (map fst xs)" "distinct (map fst ys)" using assms(1,2) by (simp_all add: tbl_inv_def)
  have distinct_sort: "distinct (map fst (sort_key fst zs))" if "distinct (map fst zs)" for zs :: "(nat \<times> 'x) list"
    using that by (simp add: distinct_map distinct_sort)
  show ?thesis
  proof (rule map_sorted_distinct_set_unique [where f = fst])
    show "inj_on fst (set (sort_key fst xs) \<union> set (sort_key fst ys))" using d(1) set by (simp add: distinct_map)
  qed (use d set distinct_sort in auto)
qed

lemma tbl_find_delete_fst [simp]:
  "tbl_find fst k (tbl_delete (\<lambda>(i, _). Q i) rows) = (if Q k then None else tbl_find fst k rows)"
  by (induction rows) (auto simp: tbl_delete_def)

lemma find_hydrate:
  assumes "tbl_inv fst rows"
  shows "tbl_find fst k (hydrate_log Some rows) = tbl_find fst k rows" and "tbl_inv fst (hydrate_log Some rows)"
proof -
  have h: "hydrate_log Some rows = fold (tbl_put fst) (sort_key fst rows) []"
    by (simp add: hydrate_log_def case_prod_beta)
  have inv: "tbl_inv fst (sort_key fst rows)" using assms by (simp add: tbl_inv_def distinct_map distinct_sort)
  show "tbl_inv fst (hydrate_log Some rows)" unfolding h by (rule tbl.inv_put_all) simp
  have "fold (tbl_put fst) (sort_key fst rows) [] = sort_key fst rows"
  proof -
    have "fold (tbl_put fst) zs ys = ys @ zs" if "tbl_inv fst (ys @ zs)" for ys zs :: "(nat \<times> ('a, 'b) raft_entry) list"
      using that
    proof (induction zs arbitrary: ys)
      case (Cons z zs)
      have "tbl_put fst z ys = ys @ [z]" using Cons.prems by (intro tbl_put_fresh) (auto simp: tbl_inv_def)
      then show ?case using Cons.IH [of "ys @ [z]"] Cons.prems by simp
    qed simp
    from this [of "[]" "sort_key fst rows"] inv show ?thesis by simp
  qed
  then show "tbl_find fst k (hydrate_log Some rows) = tbl_find fst k rows"
    unfolding h using tbl_find_eq_iff [OF inv] tbl_find_eq_iff [OF assms]
    by (metis not_Some_eq set_sort)
qed

lemma hydrate_wire: "\<forall>(i, e) \<in> set rows. wire e = Some e \<Longrightarrow> hydrate_log wire rows = hydrate_log Some rows"
  unfolding hydrate_log_def by (rule fold_cong) auto

subsection \<open>A node that runs, crashes and restarts\<close>

datatype ('r, 'm, 'v) raft_op =
    Op_save_vote 'v
  | Op_save_committed "log_id option"
  | Op_append "('r, 'm) raft_entry list"
  | Op_delete_conflict log_id
  | Op_purge log_id
  | Op_apply "('r, 'm) raft_entry list"
  | Op_build_snapshot string
  | Op_install_snapshot "'m snapshot_meta" string

text \<open>The behaviour of everything around the store: the file, the engine, the snapshot codec.\<close>

record ('r, 'a, 'e, 'x) raft_env =
  ev_disk_ok :: "nat \<Rightarrow> bool"
  ev_apply :: "'r \<Rightarrow> 'e \<Rightarrow> 'x + 'a \<times> 'e"
  ev_ok_resp :: 'a
  ev_build :: "'e \<Rightarrow> string option"
  ev_restore :: "string \<Rightarrow> 'e \<Rightarrow> bool \<times> 'e"
  ev_fmt_id :: "log_id \<Rightarrow> string"

fun raft_exec :: "('r, 'a, 'e, 'x) raft_env \<Rightarrow> ('r, 'm, 'v) raft_op \<Rightarrow> ('r, 'm, 'v, 'e) raft_store \<Rightarrow>
   bool \<times> ('r, 'm, 'v, 'e) raft_store" where
  "raft_exec env (Op_save_vote v) st = save_vote (ev_disk_ok env) v st"
| "raft_exec env (Op_save_committed c) st = save_committed (ev_disk_ok env) c st"
| "raft_exec env (Op_append es) st = append_to_log (ev_disk_ok env) es st"
| "raft_exec env (Op_delete_conflict l) st = delete_conflict_logs_since (ev_disk_ok env) l st"
| "raft_exec env (Op_purge l) st = purge_logs_upto (ev_disk_ok env) l st"
| "raft_exec env (Op_apply es) st =
     map_prod (\<lambda>r. r \<noteq> None) id (apply_to_state_machine (ev_disk_ok env) (ev_apply env) (ev_ok_resp env) es st)"
| "raft_exec env (Op_build_snapshot fresh) st =
     map_prod (\<lambda>r. r \<noteq> None) id (build_snapshot (ev_build env) (ev_fmt_id env) fresh st)"
| "raft_exec env (Op_install_snapshot meta data) st = install_snapshot (ev_disk_ok env) (ev_restore env) meta data st"

fun op_entries :: "('r, 'm, 'v) raft_op \<Rightarrow> ('r, 'm) raft_entry list" where
  "op_entries (Op_append es) = es"
| "op_entries _ = []"

text \<open>
  A node starts from an empty file. An operation that succeeds goes on; one that fails stops the
  node. A node can be stopped after any operation, whatever it answered, and started again from
  the file it left, with whatever the engine holds.
  The entries that are appended are those of \<open>fit\<close>.
\<close>

inductive raft_running :: "('r, 'a, 'e, 'x) raft_env \<Rightarrow> (('r, 'm) raft_entry \<Rightarrow> ('r, 'm) raft_entry option) \<Rightarrow>
    (('r, 'm) raft_entry \<Rightarrow> bool) \<Rightarrow> 'm \<Rightarrow> ('r, 'm, 'v, 'e) raft_store \<Rightarrow> bool" for env wire fit no_members where
  raft_start: "raft_running env wire fit no_members (raft_open wire no_members n disk_new eng)"
| raft_step: "raft_running env wire fit no_members st \<Longrightarrow> \<forall>e \<in> set (op_entries op). fit e \<Longrightarrow>
    raft_exec env op st = (True, st') \<Longrightarrow> raft_running env wire fit no_members st'"
| raft_restart: "raft_running env wire fit no_members st \<Longrightarrow> \<forall>e \<in> set (op_entries op). fit e \<Longrightarrow>
    raft_exec env op st = (ok, st') \<Longrightarrow> rs_db st' = Some d \<Longrightarrow>
    raft_running env wire fit no_members (raft_open wire no_members n d eng)"

definition synced_log :: "(('r, 'm) raft_entry \<Rightarrow> ('r, 'm) raft_entry option) \<Rightarrow> ('r, 'm, 'v, 'e) raft_store \<Rightarrow> bool" where
  "synced_log wire st \<longleftrightarrow> (case rs_db st of None \<Rightarrow> False | Some d \<Rightarrow>
     tbl_inv fst (dk_log d) \<and> tbl_inv fst (rs_log st) \<and>
     (\<forall>i. tbl_find fst i (dk_log d) = tbl_find fst i (rs_log st)) \<and>
     (\<forall>(i, e) \<in> set (dk_log d). wire e = Some e) \<and>
     rs_vote st = dk_vote d \<and> rs_committed st = Option.bind (dk_committed d) id \<and>
     rs_last_purged st = Option.bind (dk_last_purged d) id)"

definition synced_applied :: "'m \<Rightarrow> ('r, 'm, 'v, 'e) raft_store \<Rightarrow> bool" where
  "synced_applied no_members st \<longleftrightarrow> (case rs_db st of None \<Rightarrow> False | Some d \<Rightarrow>
     rs_last_applied st = Option.bind (dk_last_applied d) id \<and>
     rs_last_membership st = (case dk_last_membership d of Some m \<Rightarrow> m | None \<Rightarrow> (None, no_members)))"

lemmas store_ops = save_vote_def save_committed_def delete_conflict_logs_since_def purge_logs_upto_def
  delete_entries_from_def delete_entries_upto_def persist_entry_def build_snapshot_def install_snapshot_def

lemmas synced_defs = synced_log_def synced_applied_def

lemma disk_write_cases:
  obtains (memory) "rs_db st = None" "disk_write disk_ok f st = (True, st)"
  | (written) d where "rs_db st = Some d" "disk_write disk_ok f st = (True, st\<lparr>rs_db := Some (f d), rs_writes := Suc (rs_writes st)\<rparr>)"
  | (failed) d where "rs_db st = Some d" "disk_write disk_ok f st = (False, st\<lparr>rs_writes := Suc (rs_writes st)\<rparr>)"
  by (cases "rs_db st"; cases "disk_ok (rs_writes st)") (auto simp: disk_write_def)

lemma set_tbl_put_wire:
  "\<forall>(i, e) \<in> set rows. wire e = Some e \<Longrightarrow> wire x = Some x \<Longrightarrow> \<forall>(i, e) \<in> set (tbl_put fst (k, x) rows). wire e = Some e"
  using set_tbl_put_sub [of fst "(k, x)" rows] by fastforce

lemma synced_append:
  assumes "synced_log wire st" and "\<forall>e \<in> set es. wire e = Some e" and "append_to_log disk_ok es st = (ok, st')"
  shows "synced_log wire st' \<and> (synced_applied nm st \<longrightarrow> synced_applied nm st')"
  using assms
proof (induction es arbitrary: st)
  case (Cons e es)
  let ?k = "li_index (re_log_id e)"
  let ?f = "\<lambda>d. d\<lparr>dk_log := tbl_put fst (?k, e) (dk_log d)\<rparr>"
  show ?case
  proof (cases rule: disk_write_cases [of st disk_ok ?f])
    case memory
    then show ?thesis using Cons.prems(1) by (simp add: synced_log_def)
  next
    case (written d)
    let ?st = "st\<lparr>rs_db := Some (?f d), rs_writes := Suc (rs_writes st), rs_log := tbl_put fst (?k, e) (rs_log st)\<rparr>"
    have "synced_log wire ?st"
      using Cons.prems(1,2) written(1) set_tbl_put_wire [of "dk_log d" wire e ?k] by (simp add: synced_log_def)
    moreover have "append_to_log disk_ok es ?st = (ok, st')" using Cons.prems(3) written(2) by (simp add: persist_entry_def Let_def)
    moreover have "synced_applied nm st \<Longrightarrow> synced_applied nm ?st" using written(1) by (simp add: synced_applied_def)
    ultimately show ?thesis using Cons.IH [of ?st] Cons.prems(2) by auto
  next
    case (failed d)
    then show ?thesis using Cons.prems by (auto simp: persist_entry_def Let_def synced_defs)
  qed
qed simp

lemma synced_apply_entry:
  assumes "synced_log wire st" and "apply_entry disk_ok ap ok_resp e st = (r, st')"
  shows "synced_log wire st' \<and> (r \<noteq> None \<longrightarrow> synced_applied nm st \<longrightarrow> synced_applied nm st')"
  using assms
  by (cases "rs_db st"; cases "re_payload e"; cases "rs_engine st")
    (auto simp: apply_entry_def disk_write_def synced_defs Let_def split: if_splits sum.splits prod.splits)

lemma synced_apply:
  assumes "synced_log wire st" and "apply_to_state_machine disk_ok ap ok_resp es st = (r, st')"
  shows "synced_log wire st' \<and> (r \<noteq> None \<longrightarrow> synced_applied nm st \<longrightarrow> synced_applied nm st')"
  using assms
proof (induction es arbitrary: st r st')
  case (Cons e es)
  obtain r1 st1 where one: "apply_entry disk_ok ap ok_resp e st = (r1, st1)" by fastforce
  note keep = synced_apply_entry [OF Cons.prems(1) one, of nm]
  obtain r2 st2 where rest: "apply_to_state_machine disk_ok ap ok_resp es st1 = (r2, st2)" by fastforce
  show ?case
    using Cons.IH [OF keep [THEN conjunct1] rest] Cons.prems(2) keep one rest
    by (cases r1; cases r2) (auto split: prod.splits option.splits)
qed simp

text \<open>The operations that write one thing: the write went through, or nothing changed.\<close>

lemma synced_save_vote:
  "synced_log wire st \<Longrightarrow> save_vote disk_ok v st = (ok, st') \<Longrightarrow>
    synced_log wire st' \<and> (synced_applied nm st \<longrightarrow> synced_applied nm st')"
  by (cases rule: disk_write_cases [of st disk_ok "\<lambda>d. d\<lparr>dk_vote := Some v\<rparr>"])
    (auto simp: save_vote_def synced_defs)

lemma synced_save_committed:
  "synced_log wire st \<Longrightarrow> save_committed disk_ok c st = (ok, st') \<Longrightarrow>
    synced_log wire st' \<and> (synced_applied nm st \<longrightarrow> synced_applied nm st')"
  by (cases rule: disk_write_cases [of st disk_ok "\<lambda>d. d\<lparr>dk_committed := Some c\<rparr>"])
    (auto simp: save_committed_def synced_defs)

lemma synced_delete_conflict:
  "synced_log wire st \<Longrightarrow> delete_conflict_logs_since disk_ok l st = (ok, st') \<Longrightarrow>
    synced_log wire st' \<and> (synced_applied nm st \<longrightarrow> synced_applied nm st')"
  by (cases rule: disk_write_cases [of st disk_ok "\<lambda>d. d\<lparr>dk_log := tbl_delete (\<lambda>(i, _). i \<ge> li_index l) (dk_log d)\<rparr>"])
    (auto simp: delete_conflict_logs_since_def delete_entries_from_def synced_defs)

lemma synced_delete_upto:
  "synced_log wire st \<Longrightarrow> delete_entries_upto disk_ok i st = (ok, st') \<Longrightarrow>
    (if ok then synced_log wire (st'\<lparr>rs_log := tbl_delete (\<lambda>(k, _). k \<le> i) (rs_log st')\<rparr>) else synced_log wire st') \<and>
    (synced_applied nm st \<longrightarrow> synced_applied nm st')"
  by (cases rule: disk_write_cases [of st disk_ok "\<lambda>d. d\<lparr>dk_log := tbl_delete (\<lambda>(k, _). k \<le> i) (dk_log d)\<rparr>"])
    (auto simp: delete_entries_upto_def synced_defs)

lemma synced_purge:
  assumes "synced_log wire st" and "purge_logs_upto disk_ok l st = (ok, st')"
  shows "synced_log wire st' \<and> (synced_applied nm st \<longrightarrow> synced_applied nm st')"
proof (cases rule: disk_write_cases [of st disk_ok "\<lambda>d. d\<lparr>dk_last_purged := Some (Some l)\<rparr>"])
  case (written d)
  let ?st = "st\<lparr>rs_db := Some (d\<lparr>dk_last_purged := Some (Some l)\<rparr>), rs_writes := Suc (rs_writes st), rs_last_purged := Some l\<rparr>"
  have st: "synced_log wire ?st" "synced_applied nm st \<Longrightarrow> synced_applied nm ?st"
    using assms(1) written(1) by (auto simp: synced_defs)
  obtain ok2 st2 where two: "delete_entries_upto disk_ok (li_index l) ?st = (ok2, st2)" by fastforce
  have applied: "synced_applied nm (x\<lparr>rs_log := y\<rparr>) = synced_applied nm x" for x :: "('a, 'b, 'c, 'd) raft_store" and y
    by (simp add: synced_applied_def split: option.split)
  show ?thesis using assms(2) two synced_delete_upto [OF st(1) two, of nm] st(2)
    by (cases ok2) (auto simp: purge_logs_upto_def written(2) applied)
qed (use assms in \<open>auto simp: purge_logs_upto_def synced_defs\<close>)

lemma synced_build:
  "synced_log wire st \<Longrightarrow> build_snapshot build fmt_id fresh st = (r, st') \<Longrightarrow>
    synced_log wire st' \<and> (synced_applied nm st \<longrightarrow> synced_applied nm st')"
  by (auto simp: build_snapshot_def synced_defs Let_def split: option.splits)

lemma synced_engine [simp]:
  "synced_log wire (st\<lparr>rs_engine := e\<rparr>) = synced_log wire st"
  "synced_log wire (st\<lparr>rs_last_applied := a, rs_last_membership := m, rs_snapshot := s\<rparr>) = synced_log wire st"
  by (simp_all add: synced_log_def split: option.split)

text \<open>Installing a snapshot: what the file misses when one of the two writes fails is only the applied mark.\<close>

lemma synced_mark:
  assumes "synced_log wire st" and "rs_last_applied st = a" and "rs_last_membership st = m"
    and "(case disk_write disk_ok (\<lambda>d. d\<lparr>dk_last_applied := Some a\<rparr>) st of
           (False, st3) \<Rightarrow> (False, st3)
         | (True, st3) \<Rightarrow> disk_write disk_ok (\<lambda>d. d\<lparr>dk_last_membership := Some m\<rparr>) st3) = (ok, st')"
  shows "synced_log wire st' \<and> (ok \<longrightarrow> synced_applied nm st')"
  using assms
  by (cases "rs_db st"; cases "disk_ok (rs_writes st)"; cases "disk_ok (Suc (rs_writes st))")
    (auto simp: disk_write_def synced_defs id_def)

lemma synced_install:
  assumes "synced_log wire st" and "install_snapshot disk_ok restore meta data st = (ok, st')"
  shows "synced_log wire st' \<and> (ok \<longrightarrow> synced_applied nm st')"
proof (cases "data = [] \<and> sp_last_log_id meta \<noteq> None")
  case True
  then show ?thesis using assms by (simp add: install_snapshot_def)
next
  case False
  obtain ok1 st1 where one: "(case rs_engine st of
        Some eng \<Rightarrow> if data = [] then (True, st) else map_prod id (\<lambda>eng'. st\<lparr>rs_engine := Some eng'\<rparr>) (restore data eng)
      | None \<Rightarrow> (True, st)) = (ok1, st1)" by fastforce
  have st1: "synced_log wire st1"
    using one assms(1) by (auto simp: map_prod_def split: option.splits if_splits prod.splits)
  show ?thesis
  proof (cases ok1)
    case True
    show ?thesis
      by (rule synced_mark [where st = "st1\<lparr>rs_last_applied := sp_last_log_id meta, rs_last_membership := sp_last_membership meta,
            rs_snapshot := Some (meta, data)\<rparr>"])
        (use assms(2) False one True st1 in \<open>auto simp: install_snapshot_def Let_def\<close>)
  next
    case no: False
    then have "st' = st1" "\<not> ok" using assms(2) False one by (auto simp: install_snapshot_def)
    then show ?thesis using st1 by simp
  qed
qed

lemma synced_exec:
  assumes "synced_log wire st" and "\<forall>e \<in> set (op_entries op). wire e = Some e" and "raft_exec env op st = (ok, st')"
  shows "synced_log wire st' \<and> (ok \<longrightarrow> synced_applied nm st \<longrightarrow> synced_applied nm st')"
proof (cases op)
  case (Op_append es)
  then show ?thesis using assms synced_append [of wire st es] by simp
next
  case (Op_apply es)
  obtain r st1 where r: "apply_to_state_machine (ev_disk_ok env) (ev_apply env) (ev_ok_resp env) es st = (r, st1)" by fastforce
  then have "ok = (r \<noteq> None)" "st' = st1" using assms(3) Op_apply by auto
  then show ?thesis using synced_apply [OF assms(1) r, of nm] by simp
next
  case (Op_build_snapshot fresh)
  obtain r st1 where r: "build_snapshot (ev_build env) (ev_fmt_id env) fresh st = (r, st1)" by fastforce
  then have "st' = st1" using assms(3) Op_build_snapshot by auto
  then show ?thesis using synced_build [OF assms(1) r, of nm] by simp
next
  case (Op_install_snapshot meta data)
  then show ?thesis using assms synced_install [of wire st _ _ meta data ok st' nm] by auto
qed (use assms in \<open>auto dest: synced_save_vote [where nm = nm] synced_save_committed [where nm = nm]
    synced_delete_conflict [where nm = nm] synced_purge [where nm = nm]\<close>)

lemma synced_open:
  assumes "tbl_inv fst (dk_log d)" and "\<forall>(i, e) \<in> set (dk_log d). wire e = Some e"
  shows "synced_log wire (raft_open wire nm n d eng) \<and> synced_applied nm (raft_open wire nm n d eng)"
  using assms find_hydrate [OF assms(1)] hydrate_wire [OF assms(2)]
  by (auto simp: synced_defs raft_open_def id_def)

lemma raft_running_synced:
  assumes "raft_running env wire fit nm st" and fit: "\<And>e. fit e \<Longrightarrow> wire e = Some e"
  shows "synced_log wire st \<and> synced_applied nm st"
  using assms(1)
proof (induction rule: raft_running.induct)
  case (raft_start n eng)
  show ?case by (rule synced_open) (simp_all add: disk_new_def)
next
  case (raft_step st op st')
  then show ?case using synced_exec [of wire st op env True st' nm] fit by simp
next
  case (raft_restart st op ok st' d n eng)
  then have "synced_log wire st'" using synced_exec [of wire st op env ok st' nm] fit by simp
  then show ?case using raft_restart.hyps by (intro synced_open) (simp_all add: synced_log_def)
qed

lemma hydrate_skips:
  assumes "\<And>r. r \<in> set rows \<Longrightarrow> fst r = k \<Longrightarrow> wire (snd r) = None"
  shows "tbl_find fst k (hydrate_log wire rows) = None"
proof -
  have "tbl_find fst k (fold (\<lambda>(i, e) l. case wire e of Some e' \<Rightarrow> tbl_put fst (i, e') l | None \<Rightarrow> l) zs l) = tbl_find fst k l"
    if "\<And>r. r \<in> set zs \<Longrightarrow> fst r = k \<Longrightarrow> wire (snd r) = None" for zs l
    using that
  proof (induction zs arbitrary: l)
    case (Cons z zs)
    then show ?case using Cons.prems [of z] by (cases z) (auto split: option.split)
  qed simp
  from this [of "sort_key fst rows" "[]"] assms show ?thesis by (simp add: hydrate_log_def)
qed

text \<open>
  An entry that its encoding loses is accepted and then forgotten: it is written and answered before the
  restart, and the log has a hole in its place afterwards.
\<close>

lemma undecodable_entry_lost:
  assumes "append_to_log disk_ok [e] st = (True, st')" and "rs_db st = Some d" "rs_db st' = Some d'" and "wire e = None"
    and "tbl_inv fst (dk_log d)"
  shows "tbl_find fst (li_index (re_log_id e)) (rs_log st') = Some (li_index (re_log_id e), e)"
    and "tbl_find fst (li_index (re_log_id e)) (rs_log (raft_open wire no_members n d' eng)) = None"
proof -
  let ?i = "li_index (re_log_id e)"
  have d': "dk_log d' = tbl_put fst (?i, e) (dk_log d)" and log: "rs_log st' = tbl_put fst (?i, e) (rs_log st)"
    using assms(1-3) by (auto simp: Let_def persist_entry_def disk_write_def split: if_splits)
  show "tbl_find fst ?i (rs_log st') = Some (?i, e)" by (simp add: log)
  show "tbl_find fst ?i (rs_log (raft_open wire no_members n d' eng)) = None"
    unfolding raft_open_def raft_store.simps d'
    by (rule hydrate_skips) (use assms(4) in \<open>auto simp: set_tbl_put [OF assms(5)]\<close>)
qed

text \<open>C10: a restart forgets nothing that its encoding keeps. When every entry that was appended decodes from its
  encoding as itself, then at any moment of a run, in which writes may fail and the node may crash and
  restart any number of times, opening the file again gives back the vote, the committed position, the
  log state, every stretch of the log and the applied position and membership that the node had in
  memory. The condition on the entries is needed (\<open>undecodable_entry_lost\<close>).\<close>

theorem raft_restart_recovers:
  assumes "raft_running env wire fit no_members st" and "\<And>e. fit e \<Longrightarrow> wire e = Some e" and "rs_db st = Some d"
  shows "let st' = raft_open wire no_members n d eng
    in rs_vote st' = rs_vote st \<and> rs_committed st' = rs_committed st \<and> get_log_state st' = get_log_state st \<and>
       last_applied_state st' = last_applied_state st \<and>
       (\<forall>lo hi. try_get_log_entries lo hi st' = try_get_log_entries lo hi st)"
proof -
  let ?st = "raft_open wire no_members n d eng"
  have inv: "tbl_inv fst (dk_log d)" "tbl_inv fst (rs_log st)" "\<And>i. tbl_find fst i (dk_log d) = tbl_find fst i (rs_log st)"
    and wire: "\<forall>(i, e) \<in> set (dk_log d). wire e = Some e"
    and meta: "rs_vote st = dk_vote d" "rs_committed st = Option.bind (dk_committed d) id"
      "rs_last_purged st = Option.bind (dk_last_purged d) id" "rs_last_applied st = Option.bind (dk_last_applied d) id"
      "rs_last_membership st = (case dk_last_membership d of Some m \<Rightarrow> m | None \<Rightarrow> (None, no_members))"
    using raft_running_synced [OF assms(1,2)] assms(3) by (auto simp: synced_defs)
  have open_log: "rs_log ?st = hydrate_log Some (dk_log d)" using hydrate_wire [OF wire] by (simp add: raft_open_def)
  have sort: "sort_key fst (rs_log ?st) = sort_key fst (rs_log st)"
    unfolding open_log by (rule sort_tbl_eq) (use inv find_hydrate [OF inv(1)] in auto)
  then have range: "try_get_log_entries lo hi ?st = try_get_log_entries lo hi st" for lo hi
    by (simp add: try_get_log_entries_def sort flip: filter_sort)
  have "last_entry (rs_log ?st) = last_entry (rs_log st)" by (simp add: last_entry_def sort)
  then show ?thesis using meta range by (simp add: raft_open_def get_log_state_def last_applied_state_def id_def split: option.split)
qed

definition demo_env :: "(nat, nat, nat list, unit) raft_env" where
  "demo_env = \<lparr>ev_disk_ok = (\<lambda>n. n \<noteq> 2), ev_apply = (\<lambda>r e. if r = 0 then Inl () else Inr (r, e @ [r])), ev_ok_resp = 0,
    ev_build = (\<lambda>_. None), ev_restore = (\<lambda>_ e. (False, e)), ev_fmt_id = (\<lambda>_. [])\<rparr>"

definition demo_entry :: "nat \<Rightarrow> nat \<Rightarrow> (nat, nat) raft_entry" where
  "demo_entry i r = \<lparr>re_log_id = \<lparr>li_leader = (1, 1), li_index = i\<rparr>, re_payload = Normal r\<rparr>"

text \<open>A node that saved a vote and appended one entry of two, the second write having failed.\<close>

definition demo_raft :: "(nat, nat, nat, nat list) raft_store" where
  "demo_raft = raft_open Some 0 2 (the (rs_db (snd (raft_exec demo_env (Op_append [demo_entry 1 7, demo_entry 2 8])
     (snd (raft_exec demo_env (Op_save_vote 5) (raft_open Some 0 0 disk_new (Some [])))))))) (Some [])"

lemma demo_raft_running: "raft_running demo_env Some (\<lambda>_. True) 0 demo_raft"
  unfolding demo_raft_def
proof (rule raft_restart [where op = "Op_append [demo_entry 1 7, demo_entry 2 8]"])
  show "raft_running demo_env Some (\<lambda>_. True) 0 (snd (raft_exec demo_env (Op_save_vote 5)
      (raft_open Some 0 0 disk_new (Some []) :: (nat, nat, nat, nat list) raft_store)))"
    by (rule raft_step [OF raft_start [of _ _ _ _ 0 "Some []"], of "Op_save_vote 5"]) (simp, code_simp)
qed (simp, rule prod.collapse [symmetric], code_simp)

theorem raft_restart_recovers_witness:
  "\<exists>d. rs_db demo_raft = Some d \<and> rs_vote demo_raft = Some 5 \<and>
    (let st' = raft_open Some 0 0 d None
     in rs_vote st' = Some 5 \<and> try_get_log_entries 0 9 st' = try_get_log_entries 0 9 demo_raft)"
proof -
  obtain d where d: "rs_db demo_raft = Some d" by (simp add: demo_raft_def raft_open_def)
  have v: "rs_vote demo_raft = Some 5" by code_simp
  show ?thesis using raft_restart_recovers [OF demo_raft_running refl d, of 0 None] d v by (auto simp: Let_def)
qed

text \<open>A vote is granted only once it is durable. When saving a vote succeeds, the node and every
  later restart answer that vote; when it fails, both answer the vote of before.\<close>

theorem save_vote_durable:
  assumes "raft_running env wire fit no_members st" and "\<And>e. fit e \<Longrightarrow> wire e = Some e" and "save_vote (ev_disk_ok env) v st = (ok, st')"
    and "rs_db st' = Some d"
  shows "rs_vote st' = (if ok then Some v else rs_vote st) \<and>
    rs_vote (raft_open wire no_members n d eng) = rs_vote st'"
proof -
  obtain d0 where d0: "rs_db st = Some d0" "rs_vote st = dk_vote d0"
    using raft_running_synced [OF assms(1,2)] by (auto simp: synced_log_def split: option.splits)
  then show ?thesis using assms(3,4) by (auto simp: save_vote_def disk_write_def raft_open_def split: if_splits)
qed

theorem save_vote_durable_witness:
  "fst (save_vote (ev_disk_ok demo_env) 6 demo_raft) = False \<and> rs_vote (snd (save_vote (ev_disk_ok demo_env) 6 demo_raft)) = Some 5"
proof -
  let ?r = "save_vote (ev_disk_ok demo_env) 6 demo_raft"
  have fst: "fst ?r = False" and old: "rs_vote demo_raft = Some 5" and db: "rs_db (snd ?r) \<noteq> None" by code_simp+
  obtain d where "rs_db (snd ?r) = Some d" using db by auto
  from save_vote_durable [OF demo_raft_running refl prod.collapse [symmetric] this, of 0 None] fst old show ?thesis by auto
qed

subsection \<open>Applying committed entries\<close>

text \<open>The effect of one entry on the engine.\<close>

fun entry_effect :: "('r \<Rightarrow> 'e \<Rightarrow> 'x + 'a \<times> 'e) \<Rightarrow> ('r, 'm) raft_entry \<Rightarrow> 'e option \<Rightarrow> 'e option option" where
  "entry_effect ap e None = Some None"
| "entry_effect ap e (Some eng) =
     (case re_payload e of
        Normal req \<Rightarrow> (case ap req eng of Inl _ \<Rightarrow> None | Inr (_, eng') \<Rightarrow> Some (Some eng'))
      | _ \<Rightarrow> Some (Some eng))"

fun entries_effect :: "('r \<Rightarrow> 'e \<Rightarrow> 'x + 'a \<times> 'e) \<Rightarrow> ('r, 'm) raft_entry list \<Rightarrow> 'e option \<Rightarrow> 'e option option" where
  "entries_effect ap [] eng = Some eng"
| "entries_effect ap (e # es) eng = Option.bind (entry_effect ap e eng) (entries_effect ap es)"

lemma apply_entry_effect:
  assumes "apply_entry disk_ok ap ok_resp e st = (r, st')"
  shows "(case r of
      Some _ \<Rightarrow> entry_effect ap e (rs_engine st) = Some (rs_engine st') \<and> rs_last_applied st' = Some (re_log_id e)
    | None \<Rightarrow> rs_last_applied st' = rs_last_applied st \<and>
        (rs_engine st' = rs_engine st \<or> entry_effect ap e (rs_engine st) = Some (rs_engine st')))"
  using assms
  by (cases "rs_db st"; cases "re_payload e"; cases "rs_engine st")
    (auto simp: apply_entry_def disk_write_def Let_def split: if_splits sum.splits prod.splits)

definition mark_after :: "('r, 'm) raft_entry list \<Rightarrow> log_id option \<Rightarrow> log_id option" where
  "mark_after es old = (if es = [] then old else Some (re_log_id (last es)))"

text \<open>C11: an entry is marked applied only after its effect. Applying a batch ends, whatever write or
  request fails, with the mark after some prefix of the batch whose effects the engine holds in order;
  at most the effect of the next entry is there without its mark, to be applied again. The batch
  succeeds exactly when the prefix is all of it.\<close>

theorem apply_never_marks_unapplied:
  assumes "apply_to_state_machine disk_ok ap ok_resp es st = (r, st')"
  shows "\<exists>k \<le> length es.
    rs_last_applied st' = mark_after (take k es) (rs_last_applied st) \<and>
    (entries_effect ap (take k es) (rs_engine st) = Some (rs_engine st') \<or>
     k < length es \<and> entries_effect ap (take (Suc k) es) (rs_engine st) = Some (rs_engine st')) \<and>
    (case r of Some rs \<Rightarrow> k = length es \<and> length rs = length es \<and>
       entries_effect ap es (rs_engine st) = Some (rs_engine st') | None \<Rightarrow> k < length es)"
  using assms
proof (induction es arbitrary: st r st')
  case Nil
  then show ?case by (auto simp: mark_after_def)
next
  case (Cons e es)
  obtain r1 st1 where one: "apply_entry disk_ok ap ok_resp e st = (r1, st1)" by fastforce
  note eff = apply_entry_effect [OF one]
  show ?case
  proof (cases r1)
    case None
    then have "r = None" "st' = st1" using Cons.prems one by auto
    then show ?thesis using eff None by (intro exI [of _ 0]) (auto simp: mark_after_def)
  next
    case (Some a)
    obtain r2 st2 where rest: "apply_to_state_machine disk_ok ap ok_resp es st1 = (r2, st2)" by fastforce
    have r: "r = map_option ((#) a) r2" and st': "st' = st2"
      using Cons.prems one rest Some by (cases r2; auto)+
    have first: "entry_effect ap e (rs_engine st) = Some (rs_engine st1)" "rs_last_applied st1 = Some (re_log_id e)"
      using eff Some by auto
    obtain k where k: "k \<le> length es" "rs_last_applied st2 = mark_after (take k es) (rs_last_applied st1)"
      "entries_effect ap (take k es) (rs_engine st1) = Some (rs_engine st2) \<or>
       k < length es \<and> entries_effect ap (take (Suc k) es) (rs_engine st1) = Some (rs_engine st2)"
      "case r2 of Some rs \<Rightarrow> k = length es \<and> length rs = length es \<and>
         entries_effect ap es (rs_engine st1) = Some (rs_engine st2) | None \<Rightarrow> k < length es"
      using Cons.IH [OF rest] by blast
    have "take (Suc k) (e # es) = e # take k es" "take (Suc (Suc k)) (e # es) = e # take (Suc k) es" by simp_all
    then show ?thesis
      using k first unfolding r st' by (intro exI [of _ "Suc k"]) (auto simp: mark_after_def split: option.splits)
  qed
qed

definition demo_batch :: "(nat, nat) raft_entry list" where
  "demo_batch = [demo_entry 1 7, demo_entry 2 0, demo_entry 3 8]"

theorem apply_never_marks_unapplied_witness:
  "\<exists>k \<le> length demo_batch. rs_last_applied (snd (apply_to_state_machine (\<lambda>_. True) (ev_apply demo_env) 0 demo_batch demo_raft)) =
    mark_after (take k demo_batch) (rs_last_applied demo_raft)"
  using apply_never_marks_unapplied [OF prod.collapse [symmetric], where disk_ok = "\<lambda>_. True" and ap = "ev_apply demo_env"
      and ok_resp = 0 and es = demo_batch and st = demo_raft]
  by blast

text \<open>A snapshot advances the applied position only over state that was restored. If installing a
  snapshot changes the applied position, the snapshot carried data or no position, and the node's
  engine, if it has one, restored the data first; a snapshot with a position and no data is refused
  and changes nothing.\<close>

theorem install_snapshot_guarded:
  assumes "install_snapshot disk_ok restore meta data st = (ok, st')"
  shows "(data = [] \<and> sp_last_log_id meta \<noteq> None \<longrightarrow> \<not> ok \<and> st' = st) \<and>
    (ok \<longrightarrow> rs_last_applied st' = sp_last_log_id meta) \<and>
    (rs_last_applied st' \<noteq> rs_last_applied st \<longrightarrow>
      rs_last_applied st' = sp_last_log_id meta \<and>
      (case rs_engine st of None \<Rightarrow> True | Some eng \<Rightarrow>
         if data = [] then rs_engine st' = Some eng
         else \<exists>eng'. restore data eng = (True, eng') \<and> rs_engine st' = Some eng'))"
  using assms
  by (cases "rs_db st"; cases "rs_engine st"; cases "data = []"; cases "sp_last_log_id meta")
    (auto simp: install_snapshot_def disk_write_def Let_def map_prod_def split: if_splits prod.splits bool.splits)

theorem install_snapshot_guarded_witness:
  "rs_last_applied (snd (install_snapshot (\<lambda>_. True) (\<lambda>_ e. (False, e))
      \<lparr>sp_last_log_id = Some \<lparr>li_leader = (1, 1), li_index = 4\<rparr>, sp_last_membership = (None, 0), sp_snapshot_id = []\<rparr> ''x'' demo_raft)) = None"
proof (rule ccontr)
  let ?m = "\<lparr>sp_last_log_id = Some \<lparr>li_leader = (1, 1), li_index = 4\<rparr>, sp_last_membership = (None, 0 :: nat), sp_snapshot_id = []\<rparr>"
  have old: "rs_last_applied demo_raft = None" "rs_engine demo_raft = Some []" by code_simp+
  assume "rs_last_applied (snd (install_snapshot (\<lambda>_. True) (\<lambda>_ e. (False, e)) ?m ''x'' demo_raft)) \<noteq> None"
  then show False
    using install_snapshot_guarded [OF prod.collapse [symmetric], where disk_ok = "\<lambda>_. True"
        and restore = "\<lambda>_ e. (False, e)" and meta = ?m and data = "''x''" and st = demo_raft] old by simp
qed

end
