(* ===== verification/Shard_Router.thy ===== *)
theory Shard_Router
  imports Memory_Review Raft_Apply
begin

text \<open>
  Consistent-hash routing of tenants to shards and the rebalancing of a sharded cluster,
  \<open>src/crates/ecphoria-cluster/src/shard.rs\<close>. The ring is the ordered map of the source, kept as a
  table of points keyed by the 64-bit FNV-1a hash. A shard is what the cluster holds for it; the
  write of a shard's Raft group, its query and its memory search are arguments.
\<close>

unbundle bit_operations_syntax

subsection \<open>The ring\<close>

definition fnv_hash :: "string \<Rightarrow> 64 word" where
  "fnv_hash s = fold (\<lambda>b h. (h XOR of_nat (of_char b)) * 0x100000001b3) s 0xcbf29ce484222325"

record shard_router =
  sr_ring :: "(64 word \<times> nat) list"
  sr_shards :: nat

definition vnode_name :: "nat \<Rightarrow> nat \<Rightarrow> string" where
  "vnode_name s v = ''shard-'' @ show_nat s @ ''-vnode-'' @ show_nat v"

definition ring_points :: "nat list \<Rightarrow> nat \<Rightarrow> (64 word \<times> nat) list" where
  "ring_points ss vnodes = [(fnv_hash (vnode_name s v), s). s \<leftarrow> ss, v \<leftarrow> [0..<vnodes]]"

definition router_new :: "nat \<Rightarrow> nat \<Rightarrow> shard_router" where
  "router_new shards vnodes =
    (let shards = max shards 1; vnodes = max vnodes 1
     in \<lparr>sr_ring = fold (tbl_put fst) (ring_points [0..<shards] vnodes) [], sr_shards = shards\<rparr>)"

text \<open>\<open>BTreeMap::range(h..).next()\<close> and \<open>BTreeMap::iter().next()\<close>.\<close>

definition ring_from :: "64 word \<Rightarrow> (64 word \<times> nat) list \<Rightarrow> (64 word \<times> nat) option" where
  "ring_from h ring = (case sort_key fst (filter (\<lambda>(p, _). h \<le> p) ring) of [] \<Rightarrow> None | x # _ \<Rightarrow> Some x)"

definition ring_first :: "(64 word \<times> nat) list \<Rightarrow> (64 word \<times> nat) option" where
  "ring_first ring = (case sort_key fst ring of [] \<Rightarrow> None | x # _ \<Rightarrow> Some x)"

definition shard_for :: "shard_router \<Rightarrow> string \<Rightarrow> nat" where
  "shard_for r key =
    (if sr_shards r = 1 then 0
     else case (case ring_from (fnv_hash key) (sr_ring r) of Some x \<Rightarrow> Some x | None \<Rightarrow> ring_first (sr_ring r)) of
       Some (_, s) \<Rightarrow> s | None \<Rightarrow> 0)"

subsection \<open>Plans\<close>

record shard_move =
  mv_key :: string
  mv_from :: nat
  mv_to :: nat

definition reshard_moves :: "shard_router \<Rightarrow> shard_router \<Rightarrow> string list \<Rightarrow> shard_move list" where
  "reshard_moves old new keys =
    List.map_filter (\<lambda>k. let from = shard_for old k; to = shard_for new k
      in if from \<noteq> to then Some \<lparr>mv_key = k, mv_from = from, mv_to = to\<rparr> else None) keys"

record reconcile_plan_result =
  rp_scale_to :: nat
  rp_moves :: "shard_move list"

definition reconcile_plan :: "nat \<Rightarrow> nat \<Rightarrow> string list \<Rightarrow> reconcile_plan_result" where
  "reconcile_plan desired actual tenants =
    (let desired = max desired 1; actual = max actual 1
     in \<lparr>rp_scale_to = desired,
         rp_moves = reshard_moves (router_new actual 128) (router_new desired 128) tenants\<rparr>)"

datatype scale_direction = Scale_Up | Scale_Down | Scale_None

record scale_plan_result =
  pl_direction :: scale_direction
  pl_scale_to :: nat
  pl_add_shards :: "nat list"
  pl_remove_shards :: "nat list"
  pl_moves :: "shard_move list"

definition scale_plan :: "nat \<Rightarrow> nat \<Rightarrow> string list \<Rightarrow> scale_plan_result" where
  "scale_plan desired actual tenants =
    (let desired = max desired 1; actual = max actual 1;
         moves = rp_moves (reconcile_plan desired actual tenants);
         (direction, add, remove) =
           (if actual < desired then (Scale_Up, [actual..<desired], [])
            else if desired < actual then (Scale_Down, [], [desired..<actual])
            else (Scale_None, [], []))
     in \<lparr>pl_direction = direction, pl_scale_to = desired, pl_add_shards = add, pl_remove_shards = remove,
         pl_moves = moves\<rparr>)"

subsection \<open>The sharded cluster\<close>

record 's sharded_cluster =
  sc_shard_list :: "'s list"
  sc_router :: shard_router

definition cluster_new :: "'s list \<Rightarrow> 's sharded_cluster" where
  "cluster_new shards = \<lparr>sc_shard_list = shards, sc_router = router_new (length shards) 128\<rparr>"

definition cluster_shard_for :: "string \<Rightarrow> 's sharded_cluster \<Rightarrow> nat" where
  "cluster_shard_for key c = shard_for (sc_router c) key"

definition shard_at :: "nat \<Rightarrow> 's sharded_cluster \<Rightarrow> 's option" where
  "shard_at i c = (if i < length (sc_shard_list c) then Some (sc_shard_list c ! i) else None)"

text \<open>Indexing past the shards panics: \<open>None\<close>.\<close>

definition engine_for :: "string \<Rightarrow> 's sharded_cluster \<Rightarrow> 's option" where
  "engine_for key c = shard_at (shard_for (sc_router c) key) c"

definition cluster_client_write ::
  "('s \<Rightarrow> 'req \<Rightarrow> 'x + 'resp \<times> 's) \<Rightarrow> string \<Rightarrow> 'req \<Rightarrow> 's sharded_cluster \<Rightarrow> ('x + 'resp \<times> 's sharded_cluster) option" where
  "cluster_client_write propose key req c =
    (let i = shard_for (sc_router c) key
     in case shard_at i c of
          None \<Rightarrow> None
        | Some s \<Rightarrow> Some (case propose s req of
              Inl e \<Rightarrow> Inl e
            | Inr (resp, s') \<Rightarrow> Inr (resp, c\<lparr>sc_shard_list := (sc_shard_list c)[i := s']\<rparr>)))"

fun gather :: "('s \<Rightarrow> 'x + 'r list) \<Rightarrow> 's list \<Rightarrow> 'x + 'r list" where
  "gather f [] = Inr []"
| "gather f (s # ss) = res_bind (f s) (\<lambda>rs. res_bind (gather f ss) (\<lambda>rest. Inr (rs @ rest)))"

definition query_all :: "('s \<Rightarrow> 'x + 'r list) \<Rightarrow> 's sharded_cluster \<Rightarrow> 'x + 'r list" where
  "query_all query c = gather query (sc_shard_list c)"

definition memory_search_all ::
  "('s \<Rightarrow> nat \<Rightarrow> 'x + memory_hit list) \<Rightarrow> nat \<Rightarrow> 's sharded_cluster \<Rightarrow> 'x + memory_hit list" where
  "memory_search_all search k c =
    res_bind (gather (\<lambda>s. search s k) (sc_shard_list c)) (\<lambda>all. Inr (take k (order_by_desc h_score all)))"

definition apply_move :: "cognition_config \<Rightarrow> shard_move \<Rightarrow> nat \<times> engine list \<Rightarrow> nat \<times> engine list" where
  "apply_move cfg m acc =
    (case acc of (migrated, engines) \<Rightarrow>
      if mv_from m = mv_to m \<or> mv_from m \<ge> length engines \<or> mv_to m \<ge> length engines then (migrated, engines)
      else case migrate_tenant_memories_to cfg (mv_key m) (engines ! mv_from m) (engines ! mv_to m) of
        (n, src, dest) \<Rightarrow> (migrated + n, engines[mv_from m := src, mv_to m := dest]))"

definition apply_moves :: "cognition_config \<Rightarrow> shard_move list \<Rightarrow> engine list \<Rightarrow> nat \<times> engine list" where
  "apply_moves cfg moves engines = fold (apply_move cfg) moves (0, engines)"

subsection \<open>The point a key falls on\<close>

text \<open>The least point at or after a position, or the least point of all: what the ring is asked for.\<close>

definition point_of :: "'p::linorder \<Rightarrow> 'p set \<Rightarrow> 'p" where
  "point_of h K = (if \<exists>p \<in> K. h \<le> p then Min {p \<in> K. h \<le> p} else Min K)"

lemma point_of_in: "finite K \<Longrightarrow> K \<noteq> {} \<Longrightarrow> point_of h K \<in> K"
  using Min_in [of "{p \<in> K. h \<le> p}"] Min_in [of K] by (auto simp: point_of_def)

text \<open>A point of a larger ring that already is a point of the smaller one serves the same keys there.\<close>

lemma point_of_subset:
  assumes "finite K'" and "K \<subseteq> K'" and "point_of h K' \<in> K"
  shows "point_of h K = point_of h K'"
proof (cases "\<exists>p \<in> K'. h \<le> p")
  case True
  have "Min {p \<in> K'. h \<le> p} \<in> {p \<in> K'. h \<le> p}" using assms(1) True by (intro Min_in) auto
  then have "h \<le> Min {p \<in> K'. h \<le> p}" by simp
  then have "\<exists>p \<in> K. h \<le> p" using assms(3) True by (auto simp: point_of_def)
  moreover have "Min {p \<in> K. h \<le> p} = Min {p \<in> K'. h \<le> p}"
    using assms True \<open>h \<le> Min {p \<in> K'. h \<le> p}\<close>
    by (intro Min_eqI) (auto simp: point_of_def intro: finite_subset)
  ultimately show ?thesis using True by (simp add: point_of_def)
next
  case False
  then show ?thesis using assms by (auto simp: point_of_def intro!: Min_eqI intro: finite_subset)
qed

lemma sort_key_hd:
  assumes "xs \<noteq> []" shows "\<exists>y ys. sort_key f xs = y # ys \<and> y \<in> set xs \<and> f y = Min (f ` set xs)"
proof -
  have "sort_key f xs \<noteq> []" using assms by (metis length_0_conv length_sort)
  then obtain y ys where y: "sort_key f xs = y # ys" by (cases "sort_key f xs") auto
  have "sorted (map f (y # ys))" using y sorted_sort_key by metis
  moreover have xs: "set (y # ys) = set xs" using y set_sort by metis
  ultimately have "\<forall>z \<in> set xs. f y \<le> f z" by fastforce
  moreover have "y \<in> set xs" using xs by auto
  ultimately have "Min (f ` set xs) = f y" by (intro Min_eqI) auto
  then show ?thesis using y \<open>y \<in> set xs\<close> by metis
qed

lemma ring_lookup:
  assumes "ring \<noteq> []"
  shows "\<exists>s. (case ring_from h ring of Some x \<Rightarrow> Some x | None \<Rightarrow> ring_first ring) = Some (point_of h (fst ` set ring), s) \<and>
    (point_of h (fst ` set ring), s) \<in> set ring"
proof (cases "\<exists>p \<in> fst ` set ring. h \<le> p")
  case True
  let ?f = "filter (\<lambda>(p, _). h \<le> p) ring"
  have "?f \<noteq> []" using True by (auto simp: filter_empty_conv)
  from sort_key_hd [OF this, of fst] obtain y ys
    where y: "sort_key fst ?f = y # ys" "y \<in> set ?f" "fst y = Min (fst ` set ?f)" by blast
  have "fst ` set ?f = {p \<in> fst ` set ring. h \<le> p}" by force
  then have "fst y = point_of h (fst ` set ring)" using y(3) True by (simp add: point_of_def)
  then have "y = (point_of h (fst ` set ring), snd y)" by (metis prod.collapse)
  moreover have "ring_from h ring = Some y" "y \<in> set ring" using y by (simp_all add: ring_from_def)
  ultimately show ?thesis by auto
next
  case False
  from sort_key_hd [OF assms, of fst] obtain y ys
    where y: "sort_key fst ring = y # ys" "y \<in> set ring" "fst y = Min (fst ` set ring)" by blast
  have none: "filter (\<lambda>(p, _). h \<le> p) ring = []" using False by (force simp: filter_empty_conv)
  have "fst y = point_of h (fst ` set ring)" using y(3) False by (simp add: point_of_def)
  then have "y = (point_of h (fst ` set ring), snd y)" by (metis prod.collapse)
  moreover have "ring_from h ring = None" "ring_first ring = Some y" using y none by (simp_all add: ring_from_def ring_first_def)
  ultimately show ?thesis using y(2) by auto
qed

definition ring_of :: "nat \<Rightarrow> nat \<Rightarrow> (64 word \<times> nat) list" where
  "ring_of n v = fold (tbl_put fst) (ring_points [0..<n] v) []"

lemma ring_of_inv: "tbl_inv fst (ring_of n v)"
  unfolding ring_of_def by (rule tbl.inv_put_all) simp

lemma ring_points_shard: "(p, s) \<in> set (ring_points ss v) \<Longrightarrow> s \<in> set ss"
  by (auto simp: ring_points_def)

lemma set_fold_put: "set (fold (tbl_put fst) rs xs) \<subseteq> set rs \<union> set xs"
  using set_tbl_put_sub by (induction rs arbitrary: xs) fastforce+

lemma ring_of_shard: "(p, s) \<in> set (ring_of n v) \<Longrightarrow> s < n"
  using set_fold_put [of "ring_points [0..<n] v" "[]"] ring_points_shard by (fastforce simp: ring_of_def)

lemma ring_of_nonempty: "0 < n \<Longrightarrow> 0 < v \<Longrightarrow> ring_of n v \<noteq> []"
proof -
  assume "0 < n" "0 < v"
  then have "(fnv_hash (vnode_name 0 0), 0) \<in> set (ring_points [0..<n] v)" by (auto simp: ring_points_def intro!: bexI [of _ 0])
  then show ?thesis using keys_fold_put [of fst "ring_points [0..<n] v" "[]"] by (force simp: ring_of_def)
qed

lemma ring_of_grow: "n \<le> m \<Longrightarrow> ring_of m v = fold (tbl_put fst) (ring_points [n..<m] v) (ring_of n v)"
proof -
  assume "n \<le> m"
  then have "[0..<m] = [0..<n] @ [n..<m]" by (metis le_add_diff_inverse upt_add_eq_append zero_le)
  then show ?thesis by (simp add: ring_of_def ring_points_def)
qed

lemma ring_of_grow_old:
  assumes "n \<le> m" and "(p, s) \<in> set (ring_of m v)" and "s < n"
  shows "(p, s) \<in> set (ring_of n v)"
proof -
  have "(p, s) \<in> set (ring_points [n..<m] v) \<union> set (ring_of n v)"
    using assms(2) set_fold_put [of "ring_points [n..<m] v" "ring_of n v"] ring_of_grow [OF assms(1)] by auto
  then show ?thesis using ring_points_shard [of p s "[n..<m]" v] assms(3) by auto
qed

lemma ring_of_grow_keys: "n \<le> m \<Longrightarrow> fst ` set (ring_of n v) \<subseteq> fst ` set (ring_of m v)"
  by (simp add: ring_of_grow keys_fold_put)

definition ring_shard :: "nat \<Rightarrow> nat \<Rightarrow> string \<Rightarrow> nat" where
  "ring_shard n v key = snd (the (tbl_find fst (point_of (fnv_hash key) (fst ` set (ring_of n v))) (ring_of n v)))"

lemma ring_shard_in:
  assumes "0 < n" and "0 < v"
  shows "(point_of (fnv_hash key) (fst ` set (ring_of n v)), ring_shard n v key) \<in> set (ring_of n v)"
proof -
  obtain s where "(point_of (fnv_hash key) (fst ` set (ring_of n v)), s) \<in> set (ring_of n v)"
    using ring_lookup [OF ring_of_nonempty [OF assms]] by blast
  moreover from this have "tbl_find fst (point_of (fnv_hash key) (fst ` set (ring_of n v))) (ring_of n v) =
      Some (point_of (fnv_hash key) (fst ` set (ring_of n v)), s)" by (subst tbl_find_eq_iff [OF ring_of_inv]) simp
  ultimately show ?thesis by (simp add: ring_shard_def)
qed

lemma shard_for_ring:
  assumes "0 < n" and "0 < v" shows "shard_for (router_new n v) key = ring_shard n v key"
proof (cases "n = 1")
  case True
  then have "ring_shard n v key = 0" using ring_shard_in [OF assms, of key] ring_of_shard by fastforce
  then show ?thesis using True by (simp add: shard_for_def router_new_def Let_def)
next
  case False
  obtain s where s: "(case ring_from (fnv_hash key) (ring_of n v) of Some x \<Rightarrow> Some x | None \<Rightarrow> ring_first (ring_of n v)) =
      Some (point_of (fnv_hash key) (fst ` set (ring_of n v)), s)"
    "(point_of (fnv_hash key) (fst ` set (ring_of n v)), s) \<in> set (ring_of n v)"
    using ring_lookup [OF ring_of_nonempty [OF assms]] by blast
  then have "ring_shard n v key = s" using ring_shard_in [OF assms, of key] tbl_inv_inj [OF ring_of_inv] by fastforce
  moreover have "sr_ring (router_new n v) = ring_of n v" "sr_shards (router_new n v) = n"
    using assms max_absorb1 [of 1 n] max_absorb1 [of 1 v] by (simp_all add: router_new_def ring_of_def Let_def)
  ultimately show ?thesis using s(1) False by (simp add: shard_for_def cong: option.case_cong)
qed

text \<open>Growing the cluster moves a key to a new shard or not at all.\<close>

lemma ring_shard_grow:
  assumes "0 < n" and "n \<le> m" and "0 < v"
  shows "ring_shard m v key = ring_shard n v key \<or> n \<le> ring_shard m v key"
proof (rule disjCI)
  assume "\<not> n \<le> ring_shard m v key"
  let ?h = "fnv_hash key"
  have "(point_of ?h (fst ` set (ring_of m v)), ring_shard m v key) \<in> set (ring_of n v)"
    by (rule ring_of_grow_old) (use assms ring_shard_in [of m v key] \<open>\<not> n \<le> _\<close> in auto)
  moreover from this have "point_of ?h (fst ` set (ring_of n v)) = point_of ?h (fst ` set (ring_of m v))"
    by (intro point_of_subset ring_of_grow_keys assms) (auto simp: rev_image_eqI)
  ultimately show "ring_shard m v key = ring_shard n v key"
    using ring_shard_in [of n v key] assms tbl_inv_inj [OF ring_of_inv [of n v]] by fastforce
qed

lemma router_new_clamp: "router_new n v = router_new (max n 1) (max v 1)"
  by (simp add: router_new_def)

lemma shard_for_clamp: "shard_for (router_new n v) key = ring_shard (max n 1) (max v 1) key"
  by (subst router_new_clamp) (rule shard_for_ring; simp add: less_max_iff_disj)

lemma shard_for_lt: "shard_for (router_new n v) key < max n 1"
  unfolding shard_for_clamp using ring_shard_in [of "max n 1" "max v 1" key]
  by (intro ring_of_shard) (auto simp: less_max_iff_disj)

text \<open>Routing is total and in range. Whatever the key, the router of a cluster with some shards
  names one of them, so that a write and a read of the key find a shard; only a cluster without
  shards has none.\<close>

theorem shard_routing_in_range:
  "shard_for (router_new n v) key < max n 1 \<and> (engine_for key (cluster_new shards) = None \<longleftrightarrow> shards = []) \<and>
    (cluster_client_write propose key req (cluster_new shards) = None \<longleftrightarrow> shards = [])"
proof -
  have "shard_for (router_new (length shards) 128) key < length shards" if "shards \<noteq> []"
    using shard_for_lt [of "length shards" 128 key] that by (cases shards) auto
  then show ?thesis using shard_for_lt
    by (auto simp: engine_for_def shard_at_def cluster_new_def cluster_client_write_def Let_def)
qed

lemma in_reshard_moves:
  "mv \<in> set (reshard_moves old new keys) \<longleftrightarrow> mv_key mv \<in> set keys \<and> mv_from mv = shard_for old (mv_key mv) \<and>
    mv_to mv = shard_for new (mv_key mv) \<and> mv_from mv \<noteq> mv_to mv"
  by (cases mv) (auto simp: reshard_moves_def Let_def)

lemma shard_for_grow:
  assumes "n \<le> m"
  shows "shard_for (router_new m v) key = shard_for (router_new n v) key \<or> max n 1 \<le> shard_for (router_new m v) key"
  unfolding shard_for_clamp by (rule ring_shard_grow) (use assms in \<open>auto simp: less_max_iff_disj\<close>)

text \<open>A scale plan moves what it must and nothing else. A move is listed exactly for the tenants
  whose shard changes, once per listed tenant and with both shards in range. Growing the cluster only
  moves tenants onto added shards; shrinking it only moves tenants off removed shards, and every
  tenant on a removed shard has a move to a shard that stays, so that nothing is left behind when the
  shard is deleted.\<close>

theorem scale_plan_safe:
  "let plan = scale_plan desired actual tenants;
       old = shard_for (router_new actual 128); new = shard_for (router_new desired 128)
   in map mv_key (pl_moves plan) = filter (\<lambda>t. old t \<noteq> new t) tenants \<and>
      (\<forall>mv \<in> set (pl_moves plan). mv_from mv = old (mv_key mv) \<and> mv_to mv = new (mv_key mv) \<and>
         mv_from mv < max actual 1 \<and> mv_to mv < pl_scale_to plan) \<and>
      (pl_direction plan = Scale_Up \<longrightarrow> mv_to ` set (pl_moves plan) \<subseteq> set (pl_add_shards plan)) \<and>
      (pl_direction plan = Scale_Down \<longrightarrow> mv_from ` set (pl_moves plan) \<subseteq> set (pl_remove_shards plan)) \<and>
      (\<forall>t \<in> set tenants. old t \<in> set (pl_remove_shards plan) \<longrightarrow>
         \<lparr>mv_key = t, mv_from = old t, mv_to = new t\<rparr> \<in> set (pl_moves plan) \<and> new t \<notin> set (pl_remove_shards plan))"
proof -
  define plan where "plan = scale_plan desired actual tenants"
  define old where "old = shard_for (router_new actual 128)"
  define new where "new = shard_for (router_new desired 128)"
  have moves: "pl_moves plan = reshard_moves (router_new actual 128) (router_new desired 128) tenants"
    by (simp add: plan_def scale_plan_def reconcile_plan_def Let_def router_new_def)
  have keys: "map mv_key (pl_moves plan) = filter (\<lambda>t. old t \<noteq> new t) tenants"
    unfolding moves by (induction tenants) (simp_all add: reshard_moves_def List.map_filter_def Let_def old_def new_def)
  have lt: "old t < max actual 1" "new t < max desired 1" for t unfolding old_def new_def by (rule shard_for_lt)+
  have up: "max actual 1 \<le> new t" if "actual \<le> desired" "old t \<noteq> new t" for t
    using shard_for_grow [OF that(1), of 128 t] that(2) by (auto simp: old_def new_def)
  have down: "max desired 1 \<le> old t" if "desired \<le> actual" "old t \<noteq> new t" for t
    using shard_for_grow [OF that(1), of 128 t] that(2) by (auto simp: old_def new_def)
  have shape: "pl_scale_to plan = max desired 1"
    "set (pl_add_shards plan) = {max actual 1..<max desired 1}" "set (pl_remove_shards plan) = {max desired 1..<max actual 1}"
    "pl_direction plan = Scale_Up \<longleftrightarrow> max actual 1 < max desired 1" "pl_direction plan = Scale_Down \<longleftrightarrow> max desired 1 < max actual 1"
    by (auto simp: plan_def scale_plan_def Let_def)
  have mv: "mv \<in> set (pl_moves plan) \<longleftrightarrow> mv_key mv \<in> set tenants \<and> mv_from mv = old (mv_key mv) \<and>
      mv_to mv = new (mv_key mv) \<and> old (mv_key mv) \<noteq> new (mv_key mv)" for mv
    by (auto simp: moves in_reshard_moves old_def new_def)
  have "mv_to ` set (pl_moves plan) \<subseteq> set (pl_add_shards plan)" if "pl_direction plan = Scale_Up"
    using that up lt by (fastforce simp: shape mv)
  moreover have "mv_from ` set (pl_moves plan) \<subseteq> set (pl_remove_shards plan)" if "pl_direction plan = Scale_Down"
    using that down lt by (fastforce simp: shape mv)
  moreover have "\<lparr>mv_key = t, mv_from = old t, mv_to = new t\<rparr> \<in> set (pl_moves plan) \<and> new t \<notin> set (pl_remove_shards plan)"
    if "t \<in> set tenants" "old t \<in> set (pl_remove_shards plan)" for t
    using that lt(2) [of t] by (auto simp: mv shape)
  ultimately show ?thesis
    unfolding plan_def [symmetric] old_def [symmetric] new_def [symmetric] Let_def
    using keys lt by (auto simp: mv shape(1))
qed

theorem scale_plan_safe_witness:
  "mv_to ` set (pl_moves (scale_plan 3 2 [''acme'', ''globex''])) \<subseteq> {2} \<and>
    mv_from ` set (pl_moves (scale_plan 2 3 [''acme'', ''globex''])) \<subseteq> {2}"
proof -
  have "pl_direction (scale_plan 3 2 ts) = Scale_Up" "pl_add_shards (scale_plan 3 2 ts) = [2]"
    "pl_direction (scale_plan 2 3 ts) = Scale_Down" "pl_remove_shards (scale_plan 2 3 ts) = [2]" for ts
    by (simp_all add: scale_plan_def Let_def upt_rec)
  note shape = this
  have "mv_to ` set (pl_moves (scale_plan 3 2 [''acme'', ''globex''])) \<subseteq> set (pl_add_shards (scale_plan 3 2 [''acme'', ''globex'']))"
    using scale_plan_safe [of 3 2 "[''acme'', ''globex'']"] shape(1) unfolding Let_def by blast
  moreover have "mv_from ` set (pl_moves (scale_plan 2 3 [''acme'', ''globex''])) \<subseteq> set (pl_remove_shards (scale_plan 2 3 [''acme'', ''globex'']))"
    using scale_plan_safe [of 2 3 "[''acme'', ''globex'']"] shape(3) unfolding Let_def by blast
  ultimately show ?thesis unfolding shape by simp
qed

subsection \<open>Carrying out the moves\<close>

text \<open>The memories of a tenant on a shard.\<close>

definition tenant_mems :: "string \<Rightarrow> engine \<Rightarrow> memory set" where
  "tenant_mems t en = {m \<in> mems (en_store en). sc_tenant_id (m_scope m) = t}"

definition tenant_active :: "string \<Rightarrow> engine \<Rightarrow> memory set" where
  "tenant_active t en = {m \<in> tenant_mems t en. m_state m = Active}"

text \<open>What a rebalance relies on: well-formed stores, an identifier that belongs to one tenant across the
  cluster, and no listed tenant with more active memories on a shard than one export returns.\<close>

definition shards_ok :: "cognition_config \<Rightarrow> string set \<Rightarrow> engine list \<Rightarrow> bool" where
  "shards_ok cfg ts engines \<longleftrightarrow>
    (\<forall>en \<in> set engines. ms_inv (en_store en) \<and>
       (\<forall>t \<in> ts. card (tenant_active t en) \<le> clamp_limit 1000000 (cg_max_rows cfg))) \<and>
    (\<forall>en \<in> set engines. \<forall>en' \<in> set engines. \<forall>m \<in> mems (en_store en). \<forall>m' \<in> mems (en_store en').
       m_id m = m_id m' \<longrightarrow> sc_tenant_id (m_scope m) = sc_tenant_id (m_scope m'))"

lemma shards_ok_mono: "shards_ok cfg ts engines \<Longrightarrow> ts' \<subseteq> ts \<Longrightarrow> shards_ok cfg ts' engines"
  unfolding shards_ok_def by (intro conjI ballI) (blast, meson subsetD, meson)

lemma shards_ok_inv: "shards_ok cfg ts engines \<Longrightarrow> en \<in> set engines \<Longrightarrow> ms_inv (en_store en)"
  unfolding shards_ok_def by blast

lemma length_tenant_select:
  assumes "ms_inv (en_store en)"
  shows "length (ms_select (\<lambda>m. sc_tenant_id (m_scope m) = t \<and> m_state m = Active) (en_store en)) = card (tenant_active t en)"
proof -
  let ?l = "ms_select (\<lambda>m. sc_tenant_id (m_scope m) = t \<and> m_state m = Active) (en_store en)"
  have "distinct (map m_id ?l)" unfolding ms_select_def by (intro distinct_map_filter distinct_mems assms)
  then have "distinct ?l" by (simp add: distinct_map)
  moreover have "set ?l = tenant_active t en" by (auto simp: tenant_active_def tenant_mems_def)
  ultimately show ?thesis by (metis distinct_card)
qed

lemma migrate_inv:
  assumes "ms_inv (en_store src)" and "ms_inv (en_store dest)" and "migrate_tenant_memories_to cfg t src dest = (n, src', dest')"
  shows "ms_inv (en_store src') \<and> ms_inv (en_store dest')"
proof -
  have "ms_inv (fold (\<lambda>m. ms_upsert_raw m None) ms st)" if "ms_inv st" for ms st
    using that by (induction ms arbitrary: st) auto
  then show ?thesis using assms ms_inv_delete_by(2) [OF assms(1), of t]
    by (auto simp: migrate_tenant_memories_to_def import_memories_def Let_def split: prod.splits)
qed

text \<open>One move, tenant by tenant: the active memories of the moved tenant arrive, the source has none left.\<close>

lemma migrate_tenant_split:
  assumes ok: "shards_ok cfg {k} engines" and "src \<in> set engines" and "dest \<in> set engines"
    and mv: "migrate_tenant_memories_to cfg k src dest = (n, src', dest')"
  shows "tenant_mems t src' = (if t = k then {} else tenant_mems t src)"
    and "tenant_mems t dest' = (if t = k then tenant_active k src \<union>
        {x \<in> tenant_mems k dest. m_id x \<notin> m_id ` tenant_active k src} else tenant_mems t dest)"
proof -
  have inv: "ms_inv (en_store src)" "ms_inv (en_store dest)" using assms shards_ok_inv by blast+
  have "length (ms_select (\<lambda>m. sc_tenant_id (m_scope m) = k \<and> m_state m = Active) (en_store src))
      \<le> clamp_limit 1000000 (cg_max_rows cfg)"
    using assms by (simp add: length_tenant_select [OF inv(1)] shards_ok_def)
  note moved = migrate_tenant_mems [OF inv this mv]
  show "tenant_mems t src' = (if t = k then {} else tenant_mems t src)" using moved by (auto simp: tenant_mems_def)
  have other: "sc_tenant_id (m_scope x) = k"
    if "x \<in> mems (en_store dest)" "m \<in> mems (en_store src)" "sc_tenant_id (m_scope m) = k" "m_id m = m_id x" for x m
    using ok assms(2,3) that unfolding shards_ok_def by metis
  have act: "tenant_active k src = {m \<in> mems (en_store src). sc_tenant_id (m_scope m) = k \<and> m_state m = Active}"
    by (auto simp: tenant_active_def tenant_mems_def)
  have dest: "mems (en_store dest') = tenant_active k src \<union> {x \<in> mems (en_store dest). m_id x \<notin> m_id ` tenant_active k src}"
    using moved [THEN conjunct2] unfolding act by (auto simp: image_iff)
  have sub: "{x \<in> mems (en_store dest). m_id x \<in> m_id ` tenant_active k src} \<subseteq> tenant_mems k dest"
  proof
    fix x assume "x \<in> {x \<in> mems (en_store dest). m_id x \<in> m_id ` tenant_active k src}"
    then obtain m where "x \<in> mems (en_store dest)" "m \<in> tenant_active k src" "m_id m = m_id x" by fastforce
    then show "x \<in> tenant_mems k dest" using other [of x m] unfolding act tenant_mems_def by simp
  qed
  have k: "m \<in> tenant_active k src \<Longrightarrow> sc_tenant_id (m_scope m) = k" for m by (simp add: act)
  show "tenant_mems t dest' = (if t = k then tenant_active k src \<union>
      {x \<in> tenant_mems k dest. m_id x \<notin> m_id ` tenant_active k src} else tenant_mems t dest)"
  proof (cases "t = k")
    case True
    then show ?thesis using k unfolding tenant_mems_def dest by auto
  next
    case False
    have "tenant_mems t dest' = {m \<in> tenant_active k src. sc_tenant_id (m_scope m) = t} \<union>
        {x \<in> tenant_mems t dest. m_id x \<notin> m_id ` tenant_active k src}"
      unfolding tenant_mems_def dest by blast
    moreover have "{m \<in> tenant_active k src. sc_tenant_id (m_scope m) = t} = {}" using k False by blast
    moreover have "{x \<in> tenant_mems t dest. m_id x \<notin> m_id ` tenant_active k src} = tenant_mems t dest"
      using sub False unfolding tenant_mems_def by blast
    ultimately show ?thesis using False by simp
  qed
qed

definition valid_move :: "engine list \<Rightarrow> shard_move \<Rightarrow> bool" where
  "valid_move engines mv \<longleftrightarrow> mv_from mv \<noteq> mv_to mv \<and> mv_from mv < length engines \<and> mv_to mv < length engines"

lemma length_apply_move [simp]: "length (snd (apply_move cfg mv acc)) = length (snd acc)"
  by (auto simp: apply_move_def split: prod.splits)

lemma length_apply_moves: "length (snd (fold (apply_move cfg) moves acc)) = length (snd acc)"
  by (induction moves arbitrary: acc) auto

lemma nth_update2:
  "a \<noteq> b \<Longrightarrow> a < length xs \<Longrightarrow> b < length xs \<Longrightarrow> xs[a := x, b := y] ! i = (if i = b then y else if i = a then x else xs ! i)"
  by (auto simp: nth_list_update)

lemma apply_move_nth:
  assumes "valid_move engines mv"
    and "migrate_tenant_memories_to cfg (mv_key mv) (engines ! mv_from mv) (engines ! mv_to mv) = (n, src, dest)"
  shows "snd (apply_move cfg mv (c, engines)) ! i = (if i = mv_to mv then dest else if i = mv_from mv then src else engines ! i)"
  using assms by (simp add: apply_move_def valid_move_def nth_update2)

lemma apply_move_mems:
  assumes ok: "shards_ok cfg ts engines" and "mv_key mv \<in> ts" and "valid_move engines mv" and "i < length engines"
  shows "tenant_mems t (snd (apply_move cfg mv (c, engines)) ! i) =
    (if t \<noteq> mv_key mv then tenant_mems t (engines ! i)
     else if i = mv_from mv then {}
     else if i = mv_to mv then tenant_active t (engines ! mv_from mv) \<union>
       {x \<in> tenant_mems t (engines ! i). m_id x \<notin> m_id ` tenant_active t (engines ! mv_from mv)}
     else tenant_mems t (engines ! i))"
proof -
  obtain n src dest
    where mig: "migrate_tenant_memories_to cfg (mv_key mv) (engines ! mv_from mv) (engines ! mv_to mv) = (n, src, dest)"
    by (metis prod_cases3)
  have one: "shards_ok cfg {mv_key mv} engines" using ok assms(2) by (intro shards_ok_mono [OF ok]) simp
  have mem: "engines ! mv_from mv \<in> set engines" "engines ! mv_to mv \<in> set engines" "mv_from mv \<noteq> mv_to mv"
    using assms(3) by (auto simp: valid_move_def)
  show ?thesis
    unfolding apply_move_nth [OF assms(3) mig] migrate_tenant_split [OF one mem(1,2) mig, of t] if_distrib [of "tenant_mems t"]
    using mem(3) by simp
qed

text \<open>The memories of a store are those of its tenants.\<close>

lemma mems_tenants: "m \<in> mems (en_store en) \<longleftrightarrow> m \<in> tenant_mems (sc_tenant_id (m_scope m)) en"
  by (simp add: tenant_mems_def)

lemma apply_move_sub:
  assumes "shards_ok cfg ts engines" and "mv_key mv \<in> ts" and "valid_move engines mv" and "i < length engines"
    and "m \<in> mems (en_store (snd (apply_move cfg mv (c, engines)) ! i))"
  shows "\<exists>en \<in> set engines. m \<in> mems (en_store en)"
proof -
  have old: "engines ! mv_from mv \<in> set engines" "engines ! i \<in> set engines" using assms(3,4) by (auto simp: valid_move_def)
  have "m \<in> tenant_mems (sc_tenant_id (m_scope m)) (engines ! i) \<or> m \<in> tenant_mems (sc_tenant_id (m_scope m)) (engines ! mv_from mv)"
    using assms(5) unfolding mems_tenants apply_move_mems [OF assms(1-4)]
    by (auto simp: tenant_active_def split: if_splits)
  then show ?thesis using old by (auto simp: tenant_mems_def)
qed

lemma shards_ok_apply_move:
  assumes ok: "shards_ok cfg ts engines" and key: "mv_key mv \<in> ts" and mv: "valid_move engines mv"
  shows "shards_ok cfg (ts - {mv_key mv}) (snd (apply_move cfg mv (c, engines)))"
proof -
  let ?E = "snd (apply_move cfg mv (c, engines))"
  obtain n src dest
    where mig: "migrate_tenant_memories_to cfg (mv_key mv) (engines ! mv_from mv) (engines ! mv_to mv) = (n, src, dest)"
    by (metis prod_cases3)
  have len: "length ?E = length engines" by simp
  have inv: "ms_inv (en_store en)" if "en \<in> set engines" for en using ok that by (rule shards_ok_inv)
  have "ms_inv (en_store src) \<and> ms_inv (en_store dest)"
    by (rule migrate_inv [OF _ _ mig]) (use mv inv in \<open>auto simp: valid_move_def\<close>)
  then have inv': "ms_inv (en_store (?E ! i))" if "i < length engines" for i
    unfolding apply_move_nth [OF mv mig] using inv that by auto
  have card: "card (tenant_active t (?E ! i)) \<le> clamp_limit 1000000 (cg_max_rows cfg)"
    if "t \<in> ts - {mv_key mv}" "i < length engines" for t i
  proof -
    have "tenant_active t (?E ! i) = tenant_active t (engines ! i)"
      using apply_move_mems [OF ok key mv that(2), of t c] that(1) by (simp add: tenant_active_def)
    then show ?thesis using ok that by (simp add: shards_ok_def)
  qed
  have ids: "sc_tenant_id (m_scope m) = sc_tenant_id (m_scope m')"
    if "i < length engines" "j < length engines" "m \<in> mems (en_store (?E ! i))" "m' \<in> mems (en_store (?E ! j))" "m_id m = m_id m'"
    for i j m m'
    using apply_move_sub [OF ok key mv that(1,3)] apply_move_sub [OF ok key mv that(2,4)] ok that(5)
    unfolding shards_ok_def by blast
  show ?thesis unfolding shards_ok_def all_set_conv_all_nth len using inv' card ids by blast
qed

text \<open>What the move of a tenant makes of its memories on a shard.\<close>

definition after_move :: "engine list \<Rightarrow> shard_move \<Rightarrow> nat \<Rightarrow> memory set" where
  "after_move engines mv i =
    (let t = mv_key mv; arrived = tenant_active t (engines ! mv_from mv)
     in if i = mv_from mv then {}
        else if i = mv_to mv then arrived \<union> {x \<in> tenant_mems t (engines ! i). m_id x \<notin> m_id ` arrived}
        else tenant_mems t (engines ! i))"

lemma apply_moves_mems:
  assumes "shards_ok cfg ts engines" and "mv_key ` set moves \<subseteq> ts" and "distinct (map mv_key moves)"
    and "\<forall>mv \<in> set moves. valid_move engines mv" and "i < length engines"
  shows "tenant_mems t (snd (fold (apply_move cfg) moves (c, engines)) ! i) =
    (case find (\<lambda>mv. mv_key mv = t) moves of None \<Rightarrow> tenant_mems t (engines ! i) | Some mv \<Rightarrow> after_move engines mv i)"
  using assms
proof (induction moves arbitrary: c engines ts)
  case (Cons mv moves)
  obtain c' E where E: "apply_move cfg mv (c, engines) = (c', E)" by fastforce
  have mv: "mv_key mv \<in> ts" "valid_move engines mv" using Cons.prems by auto
  have len: "length E = length engines" using E length_apply_move [of cfg mv "(c, engines)"] by simp
  have ok: "shards_ok cfg (ts - {mv_key mv}) E" using shards_ok_apply_move [OF Cons.prems(1) mv, of c] E by simp
  have step: "tenant_mems t (E ! j) = (if t \<noteq> mv_key mv then tenant_mems t (engines ! j) else after_move engines mv j)"
    if "j < length engines" for t j
    using apply_move_mems [OF Cons.prems(1) mv that, of t c] E by (simp add: after_move_def Let_def)
  have IH: "tenant_mems t (snd (fold (apply_move cfg) moves (c', E)) ! i) =
      (case find (\<lambda>mv. mv_key mv = t) moves of None \<Rightarrow> tenant_mems t (E ! i) | Some mv \<Rightarrow> after_move E mv i)"
  proof (rule Cons.IH [OF ok])
    have "mv_key mv \<notin> mv_key ` set moves" "mv_key ` set moves \<subseteq> ts" using Cons.prems(2,3) by simp_all
    then show "mv_key ` set moves \<subseteq> ts - {mv_key mv}" by blast
  qed (use Cons.prems(3-5) len in \<open>auto simp: valid_move_def\<close>)
  show ?case
  proof (cases "find (\<lambda>mv. mv_key mv = t) moves")
    case None
    then show ?thesis using IH E step [OF Cons.prems(5), of t] by simp
  next
    case (Some mv')
    then have mv': "mv' \<in> set moves" "mv_key mv' = t" by (auto simp: find_Some_iff)
    have "mv_key mv' \<in> mv_key ` set moves" using mv'(1) by (rule imageI)
    then have ne: "t \<noteq> mv_key mv" using Cons.prems(3) mv'(2) by auto
    have "valid_move engines mv'" using Cons.prems(4) mv' by simp
    then have same: "tenant_mems t (E ! j) = tenant_mems t (engines ! j)" if "j \<in> {mv_from mv', mv_to mv', i}" for j
      using step [of j t] ne that Cons.prems(5) by (auto simp: valid_move_def)
    have "after_move E mv' i = after_move engines mv' i"
      using same mv'(2) by (simp add: after_move_def tenant_active_def Let_def)
    then show ?thesis using IH E Some ne by simp
  qed
qed simp

lemma find_move:
  assumes "t \<in> set tenants" and "shard_for old t \<noteq> shard_for new t"
  shows "find (\<lambda>mv. mv_key mv = t) (reshard_moves old new tenants) =
    Some \<lparr>mv_key = t, mv_from = shard_for old t, mv_to = shard_for new t\<rparr>"
  using assms by (induction tenants) (auto simp: reshard_moves_def List.map_filter_simps Let_def)

lemma find_move_None:
  "t \<notin> set tenants \<or> shard_for old t = shard_for new t \<Longrightarrow> find (\<lambda>mv. mv_key mv = t) (reshard_moves old new tenants) = None"
  by (induction tenants) (auto simp: reshard_moves_def List.map_filter_simps Let_def)

lemma reshard_moves_keys:
  "map mv_key (reshard_moves old new tenants) = filter (\<lambda>t. shard_for old t \<noteq> shard_for new t) tenants"
  by (induction tenants) (simp_all add: reshard_moves_def List.map_filter_simps Let_def)

text \<open>C12: a rebalance brings every tenant's active memories to its new shard. Suppose no identifier belongs to
  two tenants and every listed tenant has its memories only on the shard it is routed to and no more
  active ones there than one export returns (\<open>query.max_rows\<close>, at most a million). Then carrying out the moves of the scale plan leaves the active memories of each on the
  shard it is routed to from now on, and no memory of it on any other shard; a tenant that moves keeps
  nothing but them, its superseded, expired and pending memories are gone; the memories of tenants that
  are not listed stay where they are. Active memories beyond the bound would be deleted uncopied. The
  moves concern memories only: events and agent state stay where they are.\<close>

theorem rebalance_relocates:
  assumes "shards_ok cfg (set tenants) engines"
    and "length engines = max (max actual 1) (max desired 1)" and "distinct tenants"
    and "\<forall>t \<in> set tenants. \<forall>i < length engines. i \<noteq> shard_for (router_new actual 128) t \<longrightarrow> tenant_mems t (engines ! i) = {}"
    and "apply_moves cfg (pl_moves (scale_plan desired actual tenants)) engines = (n, engines')"
  shows "(\<forall>t \<in> set tenants.
      tenant_active t (engines' ! shard_for (router_new desired 128) t) = tenant_active t (engines ! shard_for (router_new actual 128) t) \<and>
      (shard_for (router_new desired 128) t \<noteq> shard_for (router_new actual 128) t \<longrightarrow>
        tenant_mems t (engines' ! shard_for (router_new desired 128) t) = tenant_active t (engines ! shard_for (router_new actual 128) t)) \<and>
      (\<forall>i < length engines. i \<noteq> shard_for (router_new desired 128) t \<longrightarrow> tenant_mems t (engines' ! i) = {})) \<and>
    (\<forall>t i. t \<notin> set tenants \<and> i < length engines \<longrightarrow> tenant_mems t (engines' ! i) = tenant_mems t (engines ! i))"
proof -
  let ?r = "router_new actual 128" and ?r' = "router_new desired 128"
  define moves where "moves = reshard_moves ?r ?r' tenants"
  have plan: "pl_moves (scale_plan desired actual tenants) = moves"
    by (simp add: moves_def scale_plan_def reconcile_plan_def Let_def router_new_def)
  have lt: "shard_for ?r t < length engines" "shard_for ?r' t < length engines" for t
    using shard_for_lt [of actual 128 t] shard_for_lt [of desired 128 t] assms(2) by linarith+
  have E: "tenant_mems t (engines' ! i) =
      (case find (\<lambda>mv. mv_key mv = t) moves of None \<Rightarrow> tenant_mems t (engines ! i) | Some mv \<Rightarrow> after_move engines mv i)"
    if "i < length engines" for t i
  proof -
    have "engines' = snd (fold (apply_move cfg) moves (0, engines))" using assms(5) by (simp add: apply_moves_def plan)
    moreover have "mv_key ` set moves \<subseteq> set tenants" by (auto simp: moves_def in_reshard_moves)
    moreover have "distinct (map mv_key moves)" using assms(3) by (simp add: moves_def reshard_moves_keys)
    moreover have "\<forall>mv \<in> set moves. valid_move engines mv" using lt by (auto simp: moves_def in_reshard_moves valid_move_def)
    ultimately show ?thesis using apply_moves_mems [OF assms(1) _ _ _ that, of moves t 0] by simp
  qed
  have "tenant_active t (engines' ! shard_for ?r' t) = tenant_active t (engines ! shard_for ?r t) \<and>
      (shard_for ?r' t \<noteq> shard_for ?r t \<longrightarrow> tenant_mems t (engines' ! shard_for ?r' t) = tenant_active t (engines ! shard_for ?r t)) \<and>
      (\<forall>i < length engines. i \<noteq> shard_for ?r' t \<longrightarrow> tenant_mems t (engines' ! i) = {})" if t: "t \<in> set tenants" for t
  proof (cases "shard_for ?r t = shard_for ?r' t")
    case True
    then have "tenant_mems t (engines' ! i) = tenant_mems t (engines ! i)" if "i < length engines" for i
      using E [OF that, of t] find_move_None [of t tenants ?r ?r'] by (simp add: moves_def)
    then show ?thesis using True lt assms(4) t by (simp add: tenant_active_def)
  next
    case False
    have moved: "tenant_mems t (engines' ! i) = after_move engines \<lparr>mv_key = t, mv_from = shard_for ?r t, mv_to = shard_for ?r' t\<rparr> i"
      if "i < length engines" for i using E [OF that, of t] find_move [OF t False] by (simp add: moves_def)
    have "tenant_mems t (engines ! shard_for ?r' t) = {}" using assms(4) t lt(2) False by metis
    then have "tenant_active t (engines' ! shard_for ?r' t) = tenant_active t (engines ! shard_for ?r t)"
      "tenant_mems t (engines' ! shard_for ?r' t) = tenant_active t (engines ! shard_for ?r t)"
      using moved [OF lt(2) [of t]] False by (auto simp: after_move_def Let_def tenant_active_def)
    moreover have "tenant_mems t (engines' ! i) = {}" if "i < length engines" "i \<noteq> shard_for ?r' t" for i
      using moved [OF that(1)] that(2) assms(4) t that(1) by (simp add: after_move_def Let_def)
    ultimately show ?thesis by blast
  qed
  moreover have "tenant_mems t (engines' ! i) = tenant_mems t (engines ! i)" if "t \<notin> set tenants" "i < length engines" for t i
    using E [OF that(2), of t] find_move_None [of t tenants ?r ?r'] that(1) by (simp add: moves_def)
  ultimately show ?thesis by blast
qed

text \<open>A tenant of a one-shard cluster after a second shard was added.\<close>

theorem rebalance_relocates_witness:
  "let engines' = snd (apply_moves demo_cfg (pl_moves (scale_plan 2 1 [''acme''])) [demo_engine1, demo_engine])
   in tenant_active ''acme'' (engines' ! shard_for (router_new 2 128) ''acme'') = tenant_active ''acme'' demo_engine1"
proof -
  let ?E = "[demo_engine1, demo_engine]"
  have none: "mems (en_store demo_engine) = {}" by code_simp
  have inv: "ms_inv (en_store demo_engine1)" "ms_inv (en_store demo_engine)" by code_simp+
  have single: "shard_for (router_new 1 128) t = 0" "shard_for (router_new (Suc 0) 128) t = 0" for t
    using shard_for_lt [of 1 128 t] by simp_all
  have "length (map m_id (ms_select (\<lambda>m. sc_tenant_id (m_scope m) = ''acme'' \<and> m_state m = Active) (en_store demo_engine1))) = 1"
    by code_simp
  then have "card (tenant_active ''acme'' demo_engine1) = 1" using length_tenant_select [OF inv(1), of "''acme''"] by simp
  moreover have "tenant_active ''acme'' demo_engine = {}" using none by (simp add: tenant_active_def tenant_mems_def)
  moreover have "\<forall>m \<in> mems (en_store demo_engine1). sc_tenant_id (m_scope m) = ''acme''" by code_simp
  ultimately have ok: "shards_ok demo_cfg (set [''acme'']) ?E"
    using inv none by (simp add: shards_ok_def clamp_limit_def demo_cfg_def)
  have placed: "\<forall>t \<in> set [''acme'']. \<forall>i < length ?E. i \<noteq> shard_for (router_new 1 128) t \<longrightarrow> tenant_mems t (?E ! i) = {}"
    using none by (simp add: single tenant_mems_def less_Suc_eq)
  from rebalance_relocates [OF ok _ _ placed prod.collapse [symmetric], of 2] show ?thesis by (simp add: single Let_def)
qed

end
