(* ===== verification/Graph_Analytics.thy ===== *)
theory Graph_Analytics
  imports Ecphoria_Prelude "HOL-Library.Product_Lexorder"
begin

text \<open>
  The graph algorithms of \<open>src/crates/ecphoria-core/src/memory/graph_analytics.rs\<close> on a snapshot
  of weighted edges: degree and PageRank centrality and the shortest directed path. Weights
  and ranks are rationals, so the sums are exact. The hash maps of the source are read by key only
  and are functions of the edge list here, except the predecessor map of the search, which is state.
  The breadth-first search is proved to terminate, and the fuel of the walk along the predecessors to
  be enough.
\<close>

type_synonym graph_edge = "string \<times> string \<times> rat"

subsection \<open>Nodes\<close>

definition note_node :: "string \<Rightarrow> string list \<Rightarrow> string list" where
  "note_node n out = (if n \<in> set out then out else out @ [n])"

definition graph_nodes :: "graph_edge list \<Rightarrow> string list" where
  "graph_nodes edges = fold (\<lambda>(s, d, _) out. note_node d (note_node s out)) edges []"

definition endpoints :: "graph_edge list \<Rightarrow> string set" where
  "endpoints edges = (\<Union>(s, d, _) \<in> set edges. {s, d})"

lemma note_node [simp]: "set (note_node n out) = insert n (set out)" "distinct (note_node n out) = distinct out"
  by (auto simp: note_node_def)

lemma fold_note:
  "set (fold (\<lambda>(s, d, _) out. note_node d (note_node s out)) edges out) = endpoints edges \<union> set out \<and>
   (distinct out \<longrightarrow> distinct (fold (\<lambda>(s, d, _) out. note_node d (note_node s out)) edges out))"
  by (induction edges arbitrary: out) (auto simp: endpoints_def)

lemma graph_nodes [simp]: "set (graph_nodes edges) = endpoints edges" "distinct (graph_nodes edges)"
  using fold_note [of edges "[]"] by (simp_all add: graph_nodes_def)

lemma finite_endpoints [simp]: "finite (endpoints edges)"
  by (metis List.finite_set graph_nodes(1))

definition index_in :: "string list \<Rightarrow> string \<Rightarrow> nat" where
  "index_in xs x = length (takeWhile (\<lambda>y. y \<noteq> x) xs)"

lemma index_in: "x \<in> set xs \<Longrightarrow> index_in xs x < length xs \<and> xs ! index_in xs x = x"
  by (induction xs) (auto simp: index_in_def)

lemma index_in_nth: "distinct xs \<Longrightarrow> i < length xs \<Longrightarrow> index_in xs (xs ! i) = i"
  by (metis index_in nth_eq_iff_index_eq nth_mem)

subsection \<open>Centrality\<close>

record node_centrality =
  nc_node :: string
  nc_in_degree :: nat
  nc_out_degree :: nat
  nc_pagerank :: rat

record degrees =
  dg_in :: "nat list"
  dg_out :: "nat list"
  dg_links :: "(nat \<times> rat) list list"
  dg_weight :: "rat list"

definition degrees_new :: "nat \<Rightarrow> degrees" where
  "degrees_new n = \<lparr>dg_in = replicate n 0, dg_out = replicate n 0, dg_links = replicate n [], dg_weight = replicate n 0\<rparr>"

definition count_edge :: "string list \<Rightarrow> graph_edge \<Rightarrow> degrees \<Rightarrow> degrees" where
  "count_edge nodes e g =
    (case e of (s, d, w0) \<Rightarrow>
      let si = index_in nodes s; di = index_in nodes d; w = (if w0 \<le> 0 then 1 else w0)
      in \<lparr>dg_in = (dg_in g)[di := dg_in g ! di + 1],
          dg_out = (dg_out g)[si := dg_out g ! si + 1],
          dg_links = (dg_links g)[si := dg_links g ! si @ [(di, w)]],
          dg_weight = (dg_weight g)[si := dg_weight g ! si + w]\<rparr>)"

definition damping :: rat where "damping = 85 / 100"

definition add_at :: "nat \<Rightarrow> rat \<Rightarrow> rat list \<Rightarrow> rat list" where
  "add_at j x v = v[j := v ! j + x]"

definition pagerank_step :: "nat \<Rightarrow> degrees \<Rightarrow> rat list \<Rightarrow> rat list" where
  "pagerank_step n g pr =
    (let base = (1 - damping) / of_nat n;
         dangling = sum_list (map (\<lambda>i. if dg_links g ! i = [] then pr ! i else 0) [0..<n]);
         next0 = map (\<lambda>v. v + damping * dangling / of_nat n) (replicate n base)
     in fold (\<lambda>i v. if dg_weight g ! i \<le> 0 then v
          else let share = damping * pr ! i / dg_weight g ! i
               in fold (\<lambda>(j, w). add_at j (share * w)) (dg_links g ! i) v) [0..<n] next0)"

definition centrality :: "graph_edge list \<Rightarrow> node_centrality list" where
  "centrality edges =
    (let nodes = graph_nodes edges; n = length nodes
     in if n = 0 then []
        else let g = fold (count_edge nodes) edges (degrees_new n);
                 pr = (pagerank_step n g ^^ 40) (replicate n (1 / of_nat n))
             in sort_key (\<lambda>c. (- nc_pagerank c, nc_node c))
                  (map (\<lambda>i. \<lparr>nc_node = nodes ! i, nc_in_degree = dg_in g ! i, nc_out_degree = dg_out g ! i,
                            nc_pagerank = pr ! i\<rparr>) [0..<n]))"

subsection \<open>Shortest path\<close>

definition neighbours_of :: "graph_edge list \<Rightarrow> string \<Rightarrow> string list" where
  "neighbours_of edges cur = map (\<lambda>(s, d, _). d) (filter (\<lambda>(s, d, _). s = cur) edges)"

record search =
  se_queue :: "string list"
  se_seen :: "string list"
  se_prev :: "(string \<times> string) list"

text \<open>The chain of predecessors from a node; the fuel is the number of nodes that have one.\<close>

fun walk_back :: "nat \<Rightarrow> (string \<times> string) list \<Rightarrow> string \<Rightarrow> string list \<Rightarrow> string list" where
  "walk_back 0 prev c path = path"
| "walk_back (Suc fuel) prev c path =
     (case map_of prev c of None \<Rightarrow> path | Some p \<Rightarrow> walk_back fuel prev p (path @ [p]))"

definition rebuild_path :: "(string \<times> string) list \<Rightarrow> string \<Rightarrow> string list" where
  "rebuild_path prev dst = rev (walk_back (length prev) prev dst [dst])"

fun visit :: "string \<Rightarrow> string \<Rightarrow> string list \<Rightarrow> search \<Rightarrow> string list + search" where
  "visit dst cur [] st = Inr st"
| "visit dst cur (nb # nbs) st =
     (if nb \<in> set (se_seen st) then visit dst cur nbs st
      else let st1 = st\<lparr>se_seen := nb # se_seen st, se_prev := (nb, cur) # se_prev st\<rparr>
           in if nb = dst then Inl (rebuild_path (se_prev st1) dst)
              else visit dst cur nbs (st1\<lparr>se_queue := se_queue st1 @ [nb]\<rparr>))"

text \<open>The unseen nodes and the queue together shrink with every node taken off the queue.\<close>

definition search_left :: "graph_edge list \<Rightarrow> search \<Rightarrow> nat" where
  "search_left edges st = card (endpoints edges - set (se_seen st)) + length (se_queue st)"

lemma neighbours_endpoints: "set (neighbours_of edges cur) \<subseteq> endpoints edges"
  by (force simp: neighbours_of_def endpoints_def)

lemma visit_left:
  "visit dst cur nbs st = Inr st' \<Longrightarrow> set nbs \<subseteq> endpoints edges \<Longrightarrow> search_left edges st' = search_left edges st"
proof (induction dst cur nbs st rule: visit.induct)
  case (2 dst cur nb nbs st)
  have "card (endpoints edges - insert nb S) + Suc k = card (endpoints edges - S) + k"
    if "nb \<in> endpoints edges" "nb \<notin> S" for S k
  proof -
    have "endpoints edges - insert nb S = (endpoints edges - S) - {nb}" by blast
    then show ?thesis using that card_Suc_Diff1 [of "endpoints edges - S" nb] by simp
  qed
  from this [of "set (se_seen st)" "length (se_queue st)"] show ?case
    using 2 by (auto simp: Let_def search_left_def split: if_splits)
qed simp

function bfs :: "graph_edge list \<Rightarrow> string \<Rightarrow> search \<Rightarrow> string list option" where
  "bfs edges dst st =
    (case se_queue st of
       [] \<Rightarrow> None
     | cur # q \<Rightarrow>
         (case visit dst cur (neighbours_of edges cur) (st\<lparr>se_queue := q\<rparr>) of
            Inl path \<Rightarrow> Some path
          | Inr st' \<Rightarrow> bfs edges dst st'))"
  by pat_completeness auto
termination
proof (relation "measure (\<lambda>(edges, dst, st). search_left edges st)", simp)
  fix edges dst st cur q st'
  assume "se_queue st = cur # q" and "visit dst cur (neighbours_of edges cur) (st\<lparr>se_queue := q\<rparr>) = Inr st'"
  then show "((edges, dst, st'), edges, dst, st) \<in> measure (\<lambda>(edges, dst, st). search_left edges st)"
    using visit_left [OF _ neighbours_endpoints] by (fastforce simp: search_left_def)
qed

declare bfs.simps [simp del]

definition shortest_path :: "graph_edge list \<Rightarrow> string \<Rightarrow> string \<Rightarrow> string list option" where
  "shortest_path edges src dst =
    (if src = dst then Some [src]
     else bfs edges dst \<lparr>se_queue = [src], se_seen = [src], se_prev = []\<rparr>)"

subsection \<open>The search finds a shortest path\<close>

text \<open>A walk follows the edges; a path of the graph is a walk over nodes of the graph.\<close>

definition is_walk :: "graph_edge list \<Rightarrow> string \<Rightarrow> string \<Rightarrow> string list \<Rightarrow> bool" where
  "is_walk edges u v p \<longleftrightarrow> p \<noteq> [] \<and> hd p = u \<and> last p = v \<and>
    successively (\<lambda>x y. y \<in> set (neighbours_of edges x)) p"

definition is_path :: "graph_edge list \<Rightarrow> string \<Rightarrow> string \<Rightarrow> string list \<Rightarrow> bool" where
  "is_path edges u v p \<longleftrightarrow> is_walk edges u v p \<and> set p \<subseteq> endpoints edges"

lemma is_walk_single [simp]: "is_walk edges u v [w] \<longleftrightarrow> u = w \<and> v = w"
  by (auto simp: is_walk_def)

lemma is_walk_snoc:
  "p \<noteq> [] \<Longrightarrow> is_walk edges u w (p @ [v]) \<longleftrightarrow> w = v \<and> is_walk edges u (last p) p \<and> v \<in> set (neighbours_of edges (last p))"
  by (auto simp: is_walk_def successively_append_iff)

text \<open>The predecessors form a tree: \<open>pth\<close> names the branch from the root to every seen node.\<close>

definition search_tree :: "graph_edge list \<Rightarrow> string \<Rightarrow> (string \<Rightarrow> string list) \<Rightarrow> search \<Rightarrow> bool" where
  "search_tree edges src pth st \<longleftrightarrow>
    src \<in> set (se_seen st) \<and> pth src = [src] \<and>
    distinct (map fst (se_prev st)) \<and> fst ` set (se_prev st) = set (se_seen st) - {src} \<and>
    (\<forall>v p. map_of (se_prev st) v = Some p \<longrightarrow> p \<in> set (se_seen st) \<and> pth v = pth p @ [v]) \<and>
    (\<forall>v \<in> set (se_seen st). is_walk edges src v (pth v) \<and> distinct (pth v) \<and> set (pth v) \<subseteq> set (se_seen st))"

lemma search_tree_add:
  assumes "search_tree edges src pth st" and "cur \<in> set (se_seen st)" and "nb \<notin> set (se_seen st)"
    and "nb \<in> set (neighbours_of edges cur)"
  shows "search_tree edges src (pth(nb := pth cur @ [nb])) (st\<lparr>se_seen := nb # se_seen st, se_prev := (nb, cur) # se_prev st\<rparr>)"
proof -
  have ne: "src \<noteq> nb" "cur \<noteq> nb" using assms by (auto simp: search_tree_def)
  have cur: "is_walk edges src cur (pth cur)" "distinct (pth cur)" "set (pth cur) \<subseteq> set (se_seen st)"
    using assms(1,2) by (auto simp: search_tree_def)
  have "pth cur \<noteq> []" "last (pth cur) = cur" using cur(1) by (auto simp: is_walk_def)
  then have new: "is_walk edges src nb (pth cur @ [nb])" using cur(1) assms(4) by (simp add: is_walk_snoc)
  have keys: "nb \<notin> fst ` set (se_prev st)" "fst ` set (se_prev st) = set (se_seen st) - {src}"
    using assms(1,3) by (simp_all add: search_tree_def)
  have old: "p \<in> set (se_seen st) \<and> pth v = pth p @ [v] \<and> p \<noteq> nb" if "map_of (se_prev st) v = Some p" for v p
    using assms(1,3) that by (auto simp: search_tree_def)
  show ?thesis
    unfolding search_tree_def using assms(1-3) ne cur(2,3) new keys old
    by (auto simp: search_tree_def insert_Diff_if)
qed

lemma walk_back_branch:
  assumes "search_tree edges src pth st" and "v \<in> set (se_seen st)" and "length (pth v) \<le> Suc fuel"
  shows "walk_back fuel (se_prev st) v path = path @ tl (rev (pth v))"
  using assms(2,3)
proof (induction fuel arbitrary: v path)
  case 0
  then have "length (pth v) \<le> 1" by simp
  then show ?case by (cases "pth v" rule: rev_cases) auto
next
  case (Suc fuel)
  show ?case
  proof (cases "map_of (se_prev st) v")
    case None
    then have "v \<notin> fst ` set (se_prev st)" by (simp add: map_of_eq_None_iff)
    then have "v = src" using assms(1) Suc.prems(1) by (simp add: search_tree_def)
    then show ?thesis using None assms(1) by (simp add: search_tree_def)
  next
    case (Some p)
    then have p: "p \<in> set (se_seen st)" "pth v = pth p @ [v]" using assms(1) by (auto simp: search_tree_def)
    then have "pth p \<noteq> []" "last (pth p) = p" using assms(1) by (auto simp: search_tree_def is_walk_def)
    then have "p # tl (rev (pth p)) = rev (pth p)" by (cases "pth p" rule: rev_cases) auto
    then show ?thesis using Some p Suc.IH [OF p(1), of "path @ [p]"] Suc.prems(2) by simp
  qed
qed

lemma rebuild_branch:
  assumes "search_tree edges src pth st" and "v \<in> set (se_seen st)"
  shows "rebuild_path (se_prev st) v = pth v"
proof -
  have "length (pth v) = card (set (pth v))" using assms by (simp add: search_tree_def distinct_card)
  also have "\<dots> \<le> card (set (se_seen st))" using assms by (intro card_mono) (auto simp: search_tree_def)
  also have "\<dots> = Suc (card (fst ` set (se_prev st)))"
    using assms(1) card_Suc_Diff1 [of "set (se_seen st)" src] by (simp add: search_tree_def)
  also have "card (fst ` set (se_prev st)) = length (se_prev st)"
    using assms(1) distinct_card [of "map fst (se_prev st)"] by (simp add: search_tree_def)
  finally have len: "length (pth v) \<le> Suc (length (se_prev st))" by simp
  have "pth v \<noteq> []" "last (pth v) = v" using assms by (auto simp: search_tree_def is_walk_def)
  then have "[v] @ tl (rev (pth v)) = rev (pth v)" by (cases "pth v" rule: rev_cases) auto
  then show ?thesis unfolding rebuild_path_def walk_back_branch [OF assms len] by simp
qed

text \<open>
  The layers. The queue is ordered by depth, everything seen is at most one layer below its head,
  and the neighbours of a node that was taken off are seen, at most one layer below it.
\<close>

definition expanded :: "graph_edge list \<Rightarrow> (string \<Rightarrow> string list) \<Rightarrow> search \<Rightarrow> string \<Rightarrow> bool" where
  "expanded edges pth st v \<longleftrightarrow>
    (\<forall>w \<in> set (neighbours_of edges v). w \<in> set (se_seen st) \<and> length (pth w) \<le> Suc (length (pth v)))"

definition layered :: "graph_edge list \<Rightarrow> (string \<Rightarrow> string list) \<Rightarrow> string \<Rightarrow> search \<Rightarrow> bool" where
  "layered edges pth cur st \<longleftrightarrow>
    cur \<in> set (se_seen st) \<and> set (se_queue st) \<subseteq> set (se_seen st) \<and>
    sorted (map (length \<circ> pth) (se_queue st)) \<and>
    (\<forall>u \<in> set (se_queue st). length (pth cur) \<le> length (pth u)) \<and>
    (\<forall>u \<in> set (se_seen st). length (pth u) \<le> Suc (length (pth cur))) \<and>
    (\<forall>v \<in> set (se_seen st) - set (se_queue st) - {cur}. expanded edges pth st v)"

lemma layered_add:
  assumes "layered edges pth cur st" and "nb \<notin> set (se_seen st)"
  shows "layered edges (pth(nb := pth cur @ [nb])) cur
    (st\<lparr>se_seen := nb # se_seen st, se_prev := (nb, cur) # se_prev st, se_queue := se_queue st @ [nb]\<rparr>)"
proof -
  let ?pth = "pth(nb := pth cur @ [nb])"
  let ?st = "st\<lparr>se_seen := nb # se_seen st, se_prev := (nb, cur) # se_prev st, se_queue := se_queue st @ [nb]\<rparr>"
  have q: "nb \<notin> set (se_queue st)" "cur \<noteq> nb" using assms by (auto simp: layered_def)
  then have same: "map (length \<circ> ?pth) (se_queue st) = map (length \<circ> pth) (se_queue st)" by auto
  have "sorted (map (length \<circ> ?pth) (se_queue st @ [nb]))"
    unfolding map_append same using assms(1) by (auto simp: layered_def sorted_append)
  moreover have "expanded edges ?pth ?st v" if "v \<in> set (se_seen ?st) - set (se_queue ?st) - {cur}" for v
  proof -
    have "expanded edges pth st v" using assms(1) that by (auto simp: layered_def)
    then show ?thesis using that assms(2) by (auto simp: expanded_def)
  qed
  ultimately show ?thesis using assms q unfolding layered_def by auto
qed

lemma visit_layered:
  assumes "search_tree edges src pth st" and "layered edges pth cur st" and "dst \<notin> set (se_seen st)"
    and "set nbs \<subseteq> set (neighbours_of edges cur)"
  shows "case visit dst cur nbs st of
      Inl p \<Rightarrow> is_walk edges src dst p \<and> length p = Suc (length (pth cur))
    | Inr st' \<Rightarrow> \<exists>pth'. search_tree edges src pth' st' \<and> layered edges pth' cur st' \<and> dst \<notin> set (se_seen st') \<and>
        set nbs \<union> set (se_seen st) \<subseteq> set (se_seen st')"
  using assms
proof (induction dst cur nbs st arbitrary: pth rule: visit.induct)
  case (2 dst cur nb nbs st)
  show ?case
  proof (cases "nb \<in> set (se_seen st)")
    case True
    with "2.IH"(1) [OF True "2.prems"(1-3)] "2.prems"(4) show ?thesis by (auto split: sum.splits)
  next
    case False
    let ?pth = "pth(nb := pth cur @ [nb])"
    let ?st = "st\<lparr>se_seen := nb # se_seen st, se_prev := (nb, cur) # se_prev st\<rparr>"
    have cur: "cur \<in> set (se_seen st)" "cur \<noteq> nb" using "2.prems"(2) False by (auto simp: layered_def)
    have tree: "search_tree edges src ?pth ?st" using "2.prems" cur(1) False by (intro search_tree_add) auto
    show ?thesis
    proof (cases "nb = dst")
      case True
      have "rebuild_path (se_prev ?st) dst = ?pth dst" by (rule rebuild_branch [OF tree]) (simp add: True)
      moreover have "is_walk edges src dst (?pth dst)" using tree True by (simp add: search_tree_def)
      ultimately show ?thesis using False True by (simp add: Let_def)
    next
      case ne: False
      let ?st' = "?st\<lparr>se_queue := se_queue ?st @ [nb]\<rparr>"
      have tree': "search_tree edges src ?pth ?st'" using tree by (simp add: search_tree_def)
      have lay: "layered edges ?pth cur ?st'" using layered_add [OF "2.prems"(2) False] by simp
      have out: "dst \<notin> set (se_seen ?st')" and nbs: "set nbs \<subseteq> set (neighbours_of edges cur)"
        using "2.prems"(3,4) ne by auto
      have step: "visit dst cur (nb # nbs) st = visit dst cur nbs ?st'" using False ne by (simp add: Let_def)
      from "2.IH"(2) [OF False refl ne tree' lay out nbs] show ?thesis
        unfolding step using cur(2) by (simp split: sum.splits)
    qed
  qed
qed auto

text \<open>A node not yet seen is further from the root than the head of the queue.\<close>

lemma path_beyond_queue:
  assumes "search_tree edges src pth st" and "sorted (map (length \<circ> pth) (se_queue st))"
    and "\<forall>v \<in> set (se_seen st) - set (se_queue st). expanded edges pth st v"
    and "is_walk edges src v p"
  shows "v \<in> set (se_seen st) \<and> length (pth v) \<le> length p \<or>
    se_queue st \<noteq> [] \<and> length (pth (hd (se_queue st))) < length p"
  using assms(4)
proof (induction p arbitrary: v rule: rev_induct)
  case (snoc x p)
  show ?case
  proof (cases "p = []")
    case True
    then show ?thesis using snoc.prems assms(1) by (auto simp: search_tree_def)
  next
    case False
    then have x: "x = v" "is_walk edges src (last p) p" "v \<in> set (neighbours_of edges (last p))"
      using snoc.prems by (auto simp: is_walk_snoc)
    show ?thesis
    proof (cases "last p \<in> set (se_queue st)")
      case True
      then have "length (pth (hd (se_queue st))) \<le> length (pth (last p))" using assms(2) by (cases "se_queue st") auto
      then show ?thesis using snoc.IH [OF x(2)] True by auto
    next
      case notin: False
      then have "last p \<in> set (se_seen st) \<Longrightarrow> expanded edges pth st (last p)" using assms(3) by blast
      then show ?thesis using snoc.IH [OF x(2)] x(3) by (fastforce simp: expanded_def)
    qed
  qed
qed (simp add: is_walk_def)

definition search_inv :: "graph_edge list \<Rightarrow> string \<Rightarrow> string \<Rightarrow> search \<Rightarrow> bool" where
  "search_inv edges src dst st \<longleftrightarrow> (\<exists>pth. search_tree edges src pth st \<and> dst \<notin> set (se_seen st) \<and>
     set (se_queue st) \<subseteq> set (se_seen st) \<and> sorted (map (length \<circ> pth) (se_queue st)) \<and>
     (\<forall>v \<in> set (se_seen st) - set (se_queue st). expanded edges pth st v) \<and>
     (se_queue st \<noteq> [] \<longrightarrow> (\<forall>u \<in> set (se_seen st). length (pth u) \<le> Suc (length (pth (hd (se_queue st)))))))"

lemma bfs_correct:
  "search_inv edges src dst st \<Longrightarrow> case bfs edges dst st of
     Some p \<Rightarrow> is_walk edges src dst p \<and> (\<forall>p'. is_walk edges src dst p' \<longrightarrow> length p \<le> length p')
   | None \<Rightarrow> \<nexists>p'. is_walk edges src dst p'"
proof (induction edges dst st rule: bfs.induct)
  case (1 edges dst st)
  obtain pth where inv: "search_tree edges src pth st" "dst \<notin> set (se_seen st)" "set (se_queue st) \<subseteq> set (se_seen st)"
    "sorted (map (length \<circ> pth) (se_queue st))" "\<forall>v \<in> set (se_seen st) - set (se_queue st). expanded edges pth st v"
    "se_queue st \<noteq> [] \<Longrightarrow> \<forall>u \<in> set (se_seen st). length (pth u) \<le> Suc (length (pth (hd (se_queue st))))"
    using "1.prems" by (auto simp: search_inv_def)
  have beyond: "se_queue st \<noteq> [] \<and> length (pth (hd (se_queue st))) < length p'" if "is_walk edges src dst p'" for p'
    using path_beyond_queue [OF inv(1,4,5) that] inv(2) by blast
  show ?case
  proof (cases "se_queue st")
    case Nil
    then show ?thesis using beyond by (auto simp: bfs.simps)
  next
    case (Cons cur q)
    let ?st = "st\<lparr>se_queue := q\<rparr>"
    have tree: "search_tree edges src pth ?st" using inv(1) by (simp add: search_tree_def)
    have "expanded edges pth ?st v = expanded edges pth st v" for v by (simp add: expanded_def)
    then have lay: "layered edges pth cur ?st" using inv Cons by (auto simp: layered_def)
    note vis = visit_layered [OF tree lay, of dst "neighbours_of edges cur"]
    show ?thesis
    proof (cases "visit dst cur (neighbours_of edges cur) ?st")
      case (Inl p)
      then have "is_walk edges src dst p" "length p = Suc (length (pth cur))" using vis inv(2) by auto
      then show ?thesis using Inl Cons beyond by (auto simp: bfs.simps Suc_le_eq)
    next
      case (Inr st')
      then obtain pth' where st': "search_tree edges src pth' st'" "layered edges pth' cur st'" "dst \<notin> set (se_seen st')"
        "set (neighbours_of edges cur) \<subseteq> set (se_seen st')" using vis inv(2) by auto
      have "expanded edges pth' st' cur" using st'(2,4) by (auto simp: expanded_def layered_def)
      then have "search_inv edges src dst st'"
        unfolding search_inv_def using st' by (intro exI [of _ pth']) (force simp: layered_def dest: hd_in_set)
      then have "case bfs edges dst st' of
          Some p \<Rightarrow> is_walk edges src dst p \<and> (\<forall>p'. is_walk edges src dst p' \<longrightarrow> length p \<le> length p')
        | None \<Rightarrow> \<nexists>p'. is_walk edges src dst p'" by (rule "1.IH" [OF Cons Inr])
      moreover have "bfs edges dst st = bfs edges dst st'" using Cons Inr by (simp add: bfs.simps [of edges dst st])
      ultimately show ?thesis by simp
    qed
  qed
qed

lemma neighbour_nodes: "y \<in> set (neighbours_of edges x) \<Longrightarrow> x \<in> endpoints edges \<and> y \<in> endpoints edges"
  by (force simp: neighbours_of_def endpoints_def)

lemma walk_nodes: "successively (\<lambda>x y. y \<in> set (neighbours_of edges x)) (x # y # p) \<Longrightarrow> set (x # y # p) \<subseteq> endpoints edges"
  by (induction p arbitrary: x y) (auto dest: neighbour_nodes)

lemma is_path_iff_walk: "src \<noteq> dst \<or> src \<in> endpoints edges \<Longrightarrow> is_path edges src dst p \<longleftrightarrow> is_walk edges src dst p"
proof -
  assume ok: "src \<noteq> dst \<or> src \<in> endpoints edges"
  have "set p \<subseteq> endpoints edges" if "is_walk edges src dst p"
  proof (cases p rule: remdups_adj.cases)
    case (3 x y zs)
    then show ?thesis using that walk_nodes [of edges x y zs] by (auto simp: is_walk_def)
  qed (use ok that in \<open>auto simp: is_walk_def\<close>)
  then show ?thesis by (auto simp: is_path_def)
qed

lemma shortest_path_walk:
  "case shortest_path edges src dst of
     Some p \<Rightarrow> is_walk edges src dst p \<and> (\<forall>p'. is_walk edges src dst p' \<longrightarrow> length p \<le> length p')
   | None \<Rightarrow> \<nexists>p'. is_walk edges src dst p'"
proof (cases "src = dst")
  case True
  then show ?thesis by (auto simp: shortest_path_def is_walk_def Suc_le_eq)
next
  case False
  have "search_inv edges src dst \<lparr>se_queue = [src], se_seen = [src], se_prev = []\<rparr>"
    unfolding search_inv_def using False by (intro exI [of _ "\<lambda>_. [src]"]) (simp add: search_tree_def)
  from bfs_correct [OF this] False show ?thesis by (simp add: shortest_path_def)
qed

text \<open>C38: the path between two entities is a shortest one. The search always ends; when it answers a path,
  the path leads over nodes of the graph along its edges from the source to the target and no directed
  path is shorter; it answers none exactly when no directed path exists. The one exception: asked for the
  path from an entity that is not in the graph to itself, the search answers the entity alone, where the
  documentation says none.\<close>

theorem shortest_path_shortest:
  "if src = dst \<and> src \<notin> endpoints edges then shortest_path edges src dst = Some [src] \<and> (\<nexists>p. is_path edges src dst p)
   else case shortest_path edges src dst of
     Some p \<Rightarrow> is_path edges src dst p \<and> (\<forall>p'. is_path edges src dst p' \<longrightarrow> length p \<le> length p')
   | None \<Rightarrow> \<nexists>p'. is_path edges src dst p'"
proof (cases "src = dst \<and> src \<notin> endpoints edges")
  case True
  then have "\<not> is_path edges src dst p" for p by (auto simp: is_path_def is_walk_def dest: last_in_set)
  then show ?thesis using True by (auto simp: shortest_path_def)
next
  case False
  then have "is_path edges src dst p \<longleftrightarrow> is_walk edges src dst p" for p by (intro is_path_iff_walk) blast
  then show ?thesis using shortest_path_walk [of edges src dst] by (simp only: if_not_P [OF False])
qed

theorem shortest_path_shortest_witness:
  "shortest_path [(''a'', ''b'', 1), (''b'', ''c'', 1), (''a'', ''d'', 1), (''d'', ''e'', 1), (''e'', ''c'', 1)] ''a'' ''c'' =
      Some [''a'', ''b'', ''c''] \<and>
    is_path [(''a'', ''b'', 1), (''b'', ''c'', 1), (''a'', ''d'', 1), (''d'', ''e'', 1), (''e'', ''c'', 1)] ''a'' ''c''
      [''a'', ''b'', ''c''] \<and>
    length [''a'', ''b'', ''c''] \<le> length [''a'', ''d'', ''e'', ''c'']"
proof -
  let ?e = "[(''a'', ''b'', 1), (''b'', ''c'', 1), (''a'', ''d'', 1), (''d'', ''e'', 1), (''e'', ''c'', 1)] :: graph_edge list"
  have p: "shortest_path ?e ''a'' ''c'' = Some [''a'', ''b'', ''c'']" by code_simp
  have "is_path ?e ''a'' ''c'' [''a'', ''d'', ''e'', ''c'']"
    by (simp add: is_path_def is_walk_def neighbours_of_def map_filter_def endpoints_def)
  with shortest_path_shortest [of "''a''" "''c''" ?e] p show ?thesis by simp
qed

subsection \<open>The ranks are a distribution\<close>

definition degrees_ok :: "nat \<Rightarrow> degrees \<Rightarrow> bool" where
  "degrees_ok n g \<longleftrightarrow> length (dg_in g) = n \<and> length (dg_out g) = n \<and> length (dg_links g) = n \<and> length (dg_weight g) = n \<and>
    (\<forall>i < n. dg_weight g ! i = sum_list (map snd (dg_links g ! i)) \<and> (\<forall>(j, w) \<in> set (dg_links g ! i). j < n \<and> 0 < w))"

lemma degrees_ok_new: "degrees_ok n (degrees_new n)"
  by (simp add: degrees_ok_def degrees_new_def)

lemma degrees_ok_count:
  assumes "degrees_ok (length nodes) g" and "s \<in> set nodes" and "d \<in> set nodes"
  shows "degrees_ok (length nodes) (count_edge nodes (s, d, w) g)"
  using assms index_in [of s nodes] index_in [of d nodes]
  by (auto simp: degrees_ok_def count_edge_def Let_def nth_list_update)

lemma degrees_ok_fold:
  "degrees_ok (length nodes) g \<Longrightarrow> endpoints edges \<subseteq> set nodes \<Longrightarrow> degrees_ok (length nodes) (fold (count_edge nodes) edges g)"
proof (induction edges arbitrary: g)
  case (Cons e edges)
  obtain s d w where e: "e = (s, d, w)" by (metis prod_cases3)
  have "s \<in> set nodes" "d \<in> set nodes" "endpoints edges \<subseteq> set nodes" using Cons.prems(2) e by (auto simp: endpoints_def)
  then show ?case using Cons.IH degrees_ok_count [OF Cons.prems(1), of s d w] e by simp
qed simp

lemma sum_list_add_at: "j < length v \<Longrightarrow> sum_list (add_at j x v) = sum_list v + x"
  unfolding add_at_def by (induction v arbitrary: j) (auto split: nat.splits)

lemma length_add_at [simp]: "length (add_at j x v) = length v"
  by (simp add: add_at_def)

lemma spread:
  assumes "\<forall>(j, w) \<in> set ls. j < length v \<and> 0 < w"
  shows "length (fold (\<lambda>(j, w). add_at j (c * w)) ls v) = length v \<and>
    sum_list (fold (\<lambda>(j, w). add_at j (c * w)) ls v) = sum_list v + c * sum_list (map snd ls)"
  using assms
proof (induction ls arbitrary: v)
  case (Cons x ls)
  then show ?case using sum_list_add_at [of "fst x" v "c * snd x"] by (auto simp: case_prod_beta algebra_simps)
qed simp

text \<open>Ranks only grow while they are handed out.\<close>

lemma spread_ge:
  assumes "\<forall>(j, w) \<in> set ls. j < length v \<and> 0 < w" and "0 \<le> c" and "i < length v"
  shows "v ! i \<le> fold (\<lambda>(j, w). add_at j (c * w)) ls v ! i"
  using assms(1,3)
proof (induction ls arbitrary: v)
  case (Cons x ls)
  have "v ! i \<le> add_at (fst x) (c * snd x) v ! i"
    using Cons.prems assms(2) by (auto simp: add_at_def nth_list_update mult_nonneg_nonneg less_imp_le)
  also have "\<dots> \<le> fold (\<lambda>(j, w). add_at j (c * w)) ls (add_at (fst x) (c * snd x) v) ! i"
    using Cons.prems by (intro Cons.IH) auto
  finally show ?case by (cases x) simp
qed simp

lemma links_weight:
  assumes "degrees_ok n g" and "i < n"
  shows "dg_weight g ! i \<le> 0 \<longleftrightarrow> dg_links g ! i = []"
proof -
  have "0 < sum_list (map snd ls)" if "ls \<noteq> []" "\<forall>(j, w) \<in> set ls. j < n \<and> 0 < w" for ls :: "(nat \<times> rat) list"
    using that
  proof (induction ls)
    case (Cons x ls)
    then show ?case by (cases "ls = []") (auto intro: add_pos_pos)
  qed simp
  moreover have "dg_weight g ! i = sum_list (map snd (dg_links g ! i))" "\<forall>(j, w) \<in> set (dg_links g ! i). j < n \<and> 0 < w"
    using assms by (auto simp: degrees_ok_def)
  ultimately show ?thesis by (cases "dg_links g ! i = []") (auto simp: not_le)
qed

definition give :: "degrees \<Rightarrow> rat list \<Rightarrow> nat \<Rightarrow> rat list \<Rightarrow> rat list" where
  "give g pr i v = (if dg_weight g ! i \<le> 0 then v
     else let share = damping * pr ! i / dg_weight g ! i in fold (\<lambda>(j, w). add_at j (share * w)) (dg_links g ! i) v)"

lemma give:
  assumes "degrees_ok n g" and "i < n" and "length v = n" and "\<forall>i < n. 0 \<le> pr ! i"
  shows "length (give g pr i v) = n"
    and "sum_list (give g pr i v) = sum_list v + (if dg_links g ! i = [] then 0 else damping * pr ! i)"
    and "k < n \<Longrightarrow> v ! k \<le> give g pr i v ! k"
proof -
  let ?c = "damping * pr ! i / dg_weight g ! i"
  have ls: "\<forall>(j, w) \<in> set (dg_links g ! i). j < length v \<and> 0 < w"
    and w: "dg_weight g ! i = sum_list (map snd (dg_links g ! i))" using assms(1-3) by (auto simp: degrees_ok_def)
  have zero: "dg_weight g ! i \<le> 0 \<longleftrightarrow> dg_links g ! i = []" by (rule links_weight [OF assms(1,2)])
  show "length (give g pr i v) = n" using spread [OF ls, of ?c] assms(3) by (simp add: give_def Let_def)
  show "sum_list (give g pr i v) = sum_list v + (if dg_links g ! i = [] then 0 else damping * pr ! i)"
    using spread [OF ls, of ?c] zero w by (auto simp: give_def Let_def)
  have "0 \<le> ?c" if "\<not> dg_weight g ! i \<le> 0" using that assms(2,4) by (simp add: damping_def)
  then show "v ! k \<le> give g pr i v ! k" if "k < n" using spread_ge [OF ls, of ?c k] that assms(3) by (simp add: give_def Let_def)
qed

lemma fold_give:
  assumes "degrees_ok n g" and "\<forall>i < n. 0 \<le> pr ! i" and "set is \<subseteq> {..<n}" and "length v = n"
  shows "length (fold (give g pr) is v) = n \<and>
    sum_list (fold (give g pr) is v) = sum_list v + sum_list (map (\<lambda>i. if dg_links g ! i = [] then 0 else damping * pr ! i) is) \<and>
    (\<forall>k < n. v ! k \<le> fold (give g pr) is v ! k)"
  using assms(3,4)
proof (induction "is" arbitrary: v)
  case (Cons i "is")
  have g: "length (give g pr i v) = n" "sum_list (give g pr i v) = sum_list v + (if dg_links g ! i = [] then 0 else damping * pr ! i)"
    "\<And>k. k < n \<Longrightarrow> v ! k \<le> give g pr i v ! k"
    using give [OF assms(1) _ _ assms(2), of i v] Cons.prems by auto
  have IH: "length (fold (give g pr) is (give g pr i v)) = n \<and>
      sum_list (fold (give g pr) is (give g pr i v)) = sum_list (give g pr i v) +
        sum_list (map (\<lambda>i. if dg_links g ! i = [] then 0 else damping * pr ! i) is) \<and>
      (\<forall>k < n. give g pr i v ! k \<le> fold (give g pr) is (give g pr i v) ! k)"
    using Cons.IH [OF _ g(1)] Cons.prems(1) by simp
  then have "v ! k \<le> fold (give g pr) (i # is) v ! k" if "k < n" for k
    using g(3) [OF that] that order_trans by fastforce
  then show ?case using IH g(2) by simp
qed simp

lemma pagerank_step_distribution:
  assumes "degrees_ok n g" and "0 < n" and "length pr = n" and "sum_list pr = 1" and "\<forall>i < n. 0 \<le> pr ! i"
  shows "length (pagerank_step n g pr) = n \<and> sum_list (pagerank_step n g pr) = 1 \<and>
    (\<forall>i < n. (1 - damping) / of_nat n \<le> pagerank_step n g pr ! i)"
proof -
  define dang where "dang = sum_list (map (\<lambda>i. if dg_links g ! i = [] then pr ! i else 0) [0..<n])"
  define given where "given = sum_list (map (\<lambda>i. if dg_links g ! i = [] then 0 else damping * pr ! i) [0..<n])"
  define start where "start = map (\<lambda>v. v + damping * dang / of_nat n) (replicate n ((1 - damping) / of_nat n))"
  have step: "pagerank_step n g pr = fold (give g pr) [0..<n] start"
    by (simp add: pagerank_step_def give_def [abs_def] Let_def start_def dang_def)
  have "given + damping * dang = sum_list (map (\<lambda>i. damping * pr ! i) [0..<n])"
    unfolding given_def dang_def sum_list_const_mult [symmetric] sum_list_addf [symmetric]
    by (intro arg_cong [of _ _ sum_list] map_cong) auto
  also have "\<dots> = damping * sum_list pr" using assms(3) map_nth [of pr] by (simp add: sum_list_const_mult)
  finally have total: "given + damping * dang = damping" using assms(4) by simp
  have sum: "sum_list start = (1 - damping) + damping * dang"
    using assms(2) by (simp add: start_def sum_list_replicate field_simps)
  have "0 \<le> dang" unfolding dang_def using assms(5) by (intro sum_list_nonneg) auto
  then have base: "(1 - damping) / of_nat n \<le> start ! i" if "i < n" for i
    using that assms(2) by (simp add: start_def damping_def)
  have "length start = n" by (simp add: start_def)
  moreover have "set [0..<n] \<subseteq> {..<n}" by auto
  ultimately have all: "length (pagerank_step n g pr) = n" "sum_list (pagerank_step n g pr) = sum_list start + given"
    "\<forall>k < n. start ! k \<le> pagerank_step n g pr ! k"
    using fold_give [OF assms(1,5), of "[0..<n]" start] unfolding step given_def by blast+
  have "(1 - damping) / of_nat n \<le> pagerank_step n g pr ! i" if "i < n" for i
    using base [OF that] all(3) that order_trans by blast
  then show ?thesis using all(1,2) sum total by simp
qed

lemma base_nonneg: "0 \<le> (1 - damping) / of_nat n"
  by (simp add: damping_def)

lemma pagerank_distribution:
  assumes "degrees_ok n g" and "0 < n"
  shows "length ((pagerank_step n g ^^ k) (replicate n (1 / of_nat n))) = n \<and>
    sum_list ((pagerank_step n g ^^ k) (replicate n (1 / of_nat n))) = 1 \<and>
    (\<forall>i < n. (1 - damping) / of_nat n \<le> (pagerank_step n g ^^ k) (replicate n (1 / of_nat n)) ! i)"
proof (induction k)
  case 0
  then show ?case using assms(2) by (simp add: sum_list_replicate damping_def field_simps)
next
  case (Suc k)
  then have "0 \<le> (pagerank_step n g ^^ k) (replicate n (1 / of_nat n)) ! i" if "i < n" for i
    using that order_trans [OF base_nonneg] by blast
  then show ?case using pagerank_step_distribution [OF assms] Suc by simp
qed

text \<open>The degrees count the edges of a node.\<close>

lemma degrees_count:
  assumes "distinct nodes" and "endpoints edges \<subseteq> set nodes" and "degrees_ok (length nodes) g" and "i < length nodes"
  shows "dg_in (fold (count_edge nodes) edges g) ! i = dg_in g ! i + length (filter (\<lambda>(_, d, _). d = nodes ! i) edges) \<and>
    dg_out (fold (count_edge nodes) edges g) ! i = dg_out g ! i + length (filter (\<lambda>(s, _, _). s = nodes ! i) edges)"
  using assms(2,3)
proof (induction edges arbitrary: g)
  case (Cons e edges)
  obtain s d w where e: "e = (s, d, w)" by (metis prod_cases3)
  have mem: "s \<in> set nodes" "d \<in> set nodes" "endpoints edges \<subseteq> set nodes" using Cons.prems(1) e by (auto simp: endpoints_def)
  have at: "index_in nodes x = i \<longleftrightarrow> nodes ! i = x" if "x \<in> set nodes" for x
    using index_in [OF that] index_in_nth [OF assms(1,4)] by auto
  have "dg_in (count_edge nodes e g) ! i = dg_in g ! i + (if d = nodes ! i then 1 else 0)"
    "dg_out (count_edge nodes e g) ! i = dg_out g ! i + (if s = nodes ! i then 1 else 0)"
    using at [OF mem(1)] at [OF mem(2)] Cons.prems(2) assms(4)
    by (auto simp: e count_edge_def Let_def nth_list_update degrees_ok_def)
  then show ?case using Cons.IH [OF mem(3) degrees_ok_count [OF Cons.prems(2) mem(1,2), of w]] e by simp
qed simp

text \<open>The centrality report is complete and its ranks are a distribution. It lists each node of the
  graph once, with the number of edges that enter and leave it, by falling rank and then by name; every
  rank is positive and the ranks add up to exactly one after every number of rounds.\<close>

theorem centrality_distribution:
  assumes "edges \<noteq> []"
  shows "distinct (map nc_node (centrality edges)) \<and> nc_node ` set (centrality edges) = endpoints edges \<and>
    sum_list (map nc_pagerank (centrality edges)) = 1 \<and>
    sorted (map (\<lambda>c. (- nc_pagerank c, nc_node c)) (centrality edges)) \<and>
    (\<forall>c \<in> set (centrality edges). 0 < nc_pagerank c \<and>
       nc_in_degree c = length (filter (\<lambda>(_, d, _). d = nc_node c) edges) \<and>
       nc_out_degree c = length (filter (\<lambda>(s, _, _). s = nc_node c) edges))"
proof -
  let ?nodes = "graph_nodes edges" let ?n = "length ?nodes"
  define g where "g = fold (count_edge ?nodes) edges (degrees_new ?n)"
  define pr where "pr = (pagerank_step ?n g ^^ 40) (replicate ?n (1 / of_nat ?n))"
  define rows where "rows = map (\<lambda>i. \<lparr>nc_node = ?nodes ! i, nc_in_degree = dg_in g ! i, nc_out_degree = dg_out g ! i,
    nc_pagerank = pr ! i\<rparr>) [0..<?n]"
  have "endpoints edges \<noteq> {}" using assms by (cases edges) (auto simp: endpoints_def)
  then have n: "0 < ?n" using graph_nodes(1) [of edges] by (metis length_greater_0_conv set_empty)
  have ok: "degrees_ok ?n g" unfolding g_def by (intro degrees_ok_fold degrees_ok_new) simp
  have pr: "length pr = ?n" "sum_list pr = 1" "\<And>i. i < ?n \<Longrightarrow> (1 - damping) / of_nat ?n \<le> pr ! i"
    using pagerank_distribution [OF ok n, of 40] by (simp_all add: pr_def)
  have c: "centrality edges = sort_key (\<lambda>c. (- nc_pagerank c, nc_node c)) rows"
    unfolding centrality_def rows_def pr_def g_def Let_def using n by simp
  have nodes: "map nc_node rows = ?nodes" and ranks: "map nc_pagerank rows = pr"
    using map_nth [of pr] pr(1) by (simp_all add: rows_def comp_def map_nth)
  have "distinct (map nc_node (sort_key f rows))" for f :: "node_centrality \<Rightarrow> rat \<times> string"
    using nodes graph_nodes(2) [of edges] by (metis distinct_map distinct_sort inj_on_subset set_sort subset_refl)
  moreover have "nc_node ` set rows = endpoints edges" using nodes graph_nodes(1) by (metis list.set_map)
  moreover have "sum_list (map nc_pagerank (sort_key f rows)) = 1" for f :: "node_centrality \<Rightarrow> rat \<times> string"
    using ranks pr(2) by (metis mset_map mset_sort sum_mset_sum_list)
  moreover have "0 < nc_pagerank x \<and> nc_in_degree x = length (filter (\<lambda>(_, d, _). d = nc_node x) edges) \<and>
      nc_out_degree x = length (filter (\<lambda>(s, _, _). s = nc_node x) edges)" if x: "x \<in> set rows" for x
  proof -
    obtain i where i: "i < ?n" "x = \<lparr>nc_node = ?nodes ! i, nc_in_degree = dg_in g ! i, nc_out_degree = dg_out g ! i,
      nc_pagerank = pr ! i\<rparr>" using x by (auto simp: rows_def)
    have "0 < (1 - damping) / (of_nat ?n :: rat)" using n by (simp add: damping_def)
    then have "0 < pr ! i" using pr(3) [OF i(1)] by linarith
    then show ?thesis
      using i degrees_count [OF graph_nodes(2) _ degrees_ok_new i(1), of edges] by (simp add: g_def degrees_new_def)
  qed
  ultimately show ?thesis unfolding c by simp
qed

theorem centrality_distribution_witness:
  "sum_list (map nc_pagerank (centrality [(''a'', ''b'', 2), (''b'', ''a'', 0), (''a'', ''c'', 1)])) = 1"
  using centrality_distribution [of "[(''a'', ''b'', 2), (''b'', ''a'', 0), (''a'', ''c'', 1)]"] by simp

end
