(* ===== verification/Graph_Communities.thy ===== *)
theory Graph_Communities
  imports Graph_Analytics
begin

text \<open>
  Community detection of \<open>src/crates/ecphoria-core/src/memory/graph_analytics.rs\<close>: union-find with
  path halving over the nodes of the graph, and the groups of nodes with the same root. It is proved
  to return and to answer the connected components.
\<close>

subsection \<open>Communities\<close>

text \<open>
  Union-find with path halving. A cyclic parent vector would keep \<open>uf_find\<close> from returning; \<open>None\<close>
  is that outcome.
\<close>

partial_function (option) uf_find :: "nat list \<Rightarrow> nat \<Rightarrow> (nat list \<times> nat) option" where
  [code]: "uf_find parent x =
    (if parent ! x = x then Some (parent, x)
     else let parent' = parent[x := parent ! (parent ! x)] in uf_find parent' (parent' ! x))"

definition uf_union :: "nat \<Rightarrow> nat \<Rightarrow> nat list \<Rightarrow> nat list option" where
  "uf_union i j parent =
    Option.bind (uf_find parent i) (\<lambda>(parent1, a).
    Option.bind (uf_find parent1 j) (\<lambda>(parent2, b).
      Some (if a \<noteq> b then parent2[a := b] else parent2)))"

fun uf_union_all :: "(nat \<times> nat) list \<Rightarrow> nat list \<Rightarrow> nat list option" where
  "uf_union_all [] parent = Some parent"
| "uf_union_all ((i, j) # es) parent = Option.bind (uf_union i j parent) (uf_union_all es)"

definition group_push :: "nat \<Rightarrow> string \<Rightarrow> (nat \<times> string list) list \<Rightarrow> (nat \<times> string list) list" where
  "group_push r n groups = alist_put r ((case map_of groups r of Some g \<Rightarrow> g | None \<Rightarrow> []) @ [n]) groups"

fun uf_group :: "(nat \<times> string) list \<Rightarrow> nat list \<Rightarrow> (nat \<times> string list) list \<Rightarrow> (nat \<times> string list) list option" where
  "uf_group [] parent groups = Some groups"
| "uf_group ((i, n) # ns) parent groups =
     Option.bind (uf_find parent i) (\<lambda>(parent', r). uf_group ns parent' (group_push r n groups))"

text \<open>The groups come out of a hash map in any order; the last sort decides it (\<open>communities_exact\<close>).\<close>

definition communities :: "graph_edge list \<Rightarrow> string list list option" where
  "communities edges =
    (let nodes = graph_nodes edges
     in Option.bind (uf_union_all (map (\<lambda>(s, d, _). (index_in nodes s, index_in nodes d)) edges) [0..<length nodes])
       (\<lambda>parent. Option.bind (uf_group (List.enumerate 0 nodes) parent [])
         (\<lambda>groups. Some (sort_key (\<lambda>g. (- int (length g), hd g)) (map (\<lambda>(_, g). sort g) groups)))))"

subsection \<open>Union-find\<close>

text \<open>
  A parent vector is a forest: \<open>rt\<close> is the root of each node and \<open>rk\<close> grows along the parents.
\<close>

definition forest :: "nat list \<Rightarrow> (nat \<Rightarrow> nat) \<Rightarrow> (nat \<Rightarrow> nat) \<Rightarrow> bool" where
  "forest parent rt rk \<longleftrightarrow> (\<forall>i < length parent. parent ! i < length parent \<and> rt i < length parent \<and> rt (rt i) = rt i \<and>
     rt (parent ! i) = rt i \<and> (parent ! i = i \<longleftrightarrow> rt i = i) \<and> (parent ! i \<noteq> i \<longrightarrow> rk i < rk (parent ! i)))"

lemma forestD:
  assumes "forest parent rt rk" and "i < length parent"
  shows "parent ! i < length parent" and "rt i < length parent" and "rt (rt i) = rt i" and "rt (parent ! i) = rt i"
    and "parent ! i = i \<longleftrightarrow> rt i = i" and "parent ! i \<noteq> i \<Longrightarrow> rk i < rk (parent ! i)" and "rk i \<le> rk (parent ! i)"
proof -
  show "parent ! i < length parent" "rt i < length parent" "rt (rt i) = rt i" "rt (parent ! i) = rt i"
    "parent ! i = i \<longleftrightarrow> rt i = i" and up: "parent ! i \<noteq> i \<Longrightarrow> rk i < rk (parent ! i)"
    using assms unfolding forest_def by blast+
  show "rk i \<le> rk (parent ! i)" using up by (cases "parent ! i = i") simp_all
qed

lemma forest_halve:
  assumes f: "forest parent rt rk" and x: "x < length parent" and nr: "parent ! x \<noteq> x"
  shows "forest (parent[x := parent ! (parent ! x)]) rt rk"
proof -
  let ?y = "parent ! x"
  note X = forestD [OF f x] and Y = forestD [OF f forestD(1) [OF f x]]
  have up: "rk x < rk (parent ! ?y)" using X(6) [OF nr] Y(7) by linarith
  then have ne: "parent ! ?y \<noteq> x" by auto
  have "rt x \<noteq> x" using X(5) nr by blast
  show ?thesis
    unfolding forest_def length_list_update
  proof (intro allI impI)
    fix i assume i: "i < length parent"
    show "parent[x := parent ! ?y] ! i < length parent \<and> rt i < length parent \<and> rt (rt i) = rt i \<and>
      rt (parent[x := parent ! ?y] ! i) = rt i \<and> (parent[x := parent ! ?y] ! i = i \<longleftrightarrow> rt i = i) \<and>
      (parent[x := parent ! ?y] ! i \<noteq> i \<longrightarrow> rk i < rk (parent[x := parent ! ?y] ! i))"
    proof (cases "i = x")
      case True
      then show ?thesis using x Y(1,4) X(2-4) up ne \<open>rt x \<noteq> x\<close> by simp
    next
      case False
      then show ?thesis using forestD [OF f i] by simp
    qed
  qed
qed

lemma uf_find_root:
  assumes "forest parent rt rk" and "x < length parent"
  shows "\<exists>parent'. uf_find parent x = Some (parent', rt x) \<and> forest parent' rt rk \<and> length parent' = length parent"
proof -
  define bound where "bound = Suc (Max (rk ` {..<length parent}))"
  have "rk i < bound" if "i < length parent" for i using that by (auto simp: bound_def less_Suc_eq_le intro!: Max_ge)
  with assms show ?thesis
  proof (induction "bound - rk x" arbitrary: parent x rule: less_induct)
    case less
    show ?case
    proof (cases "parent ! x = x")
      case True
      then have "rt x = x" using forestD(5) [OF less.prems(1,2)] by simp
      then show ?thesis using True less.prems by (subst uf_find.simps) simp
    next
      case False
      let ?p = "parent[x := parent ! (parent ! x)]"
      have f: "forest ?p rt rk" by (rule forest_halve [OF less.prems(1,2) False])
      note X = forestD [OF less.prems(1,2)] and Y = forestD [OF less.prems(1) forestD(1) [OF less.prems(1,2)]]
      have x: "?p ! x < length ?p" "rt (?p ! x) = rt x" using less.prems(2) Y(1,4) X(4) by simp_all
      have "rk x < rk (?p ! x)" using X(6) [OF False] Y(7) less.prems(2) by simp
      then have "bound - rk (?p ! x) < bound - rk x" using less.prems(3) [OF less.prems(2)] by simp
      from less.hyps [OF this f x(1)] less.prems(3) x(2) obtain parent' where
        "uf_find ?p (?p ! x) = Some (parent', rt x)" "forest parent' rt rk" "length parent' = length parent" by auto
      then show ?thesis using False by (subst uf_find.simps) (simp add: Let_def)
    qed
  qed
qed

lemma forest_link:
  assumes "forest parent rt rk" and "a < length parent" and "b < length parent" and "rt a = a" and "rt b = b" and "a \<noteq> b"
  shows "forest (parent[a := b]) (\<lambda>i. if rt i = a then b else rt i) (\<lambda>i. if rt i = b then rk i + Suc (rk a) else rk i)"
proof -
  have root: "parent ! b = b" "parent ! a = a" using forestD(5) [OF assms(1)] assms(2-5) by blast+
  show ?thesis
    unfolding forest_def length_list_update
  proof (intro allI impI)
    fix i assume i: "i < length parent"
    note I = forestD [OF assms(1) i]
    show "parent[a := b] ! i < length parent \<and> (if rt i = a then b else rt i) < length parent \<and>
      (if rt (if rt i = a then b else rt i) = a then b else rt (if rt i = a then b else rt i)) = (if rt i = a then b else rt i) \<and>
      (if rt (parent[a := b] ! i) = a then b else rt (parent[a := b] ! i)) = (if rt i = a then b else rt i) \<and>
      (parent[a := b] ! i = i \<longleftrightarrow> (if rt i = a then b else rt i) = i) \<and>
      (parent[a := b] ! i \<noteq> i \<longrightarrow> (if rt i = b then rk i + Suc (rk a) else rk i) <
        (if rt (parent[a := b] ! i) = b then rk (parent[a := b] ! i) + Suc (rk a) else rk (parent[a := b] ! i)))"
    proof (cases "i = a")
      case True
      then show ?thesis using assms(2-6) by simp
    next
      case False
      then show ?thesis using assms(3-6) I root by auto
    qed
  qed
qed

definition joined :: "(nat \<times> nat) list \<Rightarrow> nat rel" where
  "joined es = (set es \<union> (set es)\<inverse>)\<^sup>*"

lemma joined_sym: "(i, j) \<in> joined es \<Longrightarrow> (j, i) \<in> joined es"
  unfolding joined_def by (metis converse_Un converse_converse rtrancl_converseI sup_commute)

lemma joined_trans: "(i, j) \<in> joined es \<Longrightarrow> (j, k) \<in> joined es \<Longrightarrow> (i, k) \<in> joined es"
  unfolding joined_def by (rule rtrancl_trans)

lemma joined_mono: "set es \<subseteq> set es' \<Longrightarrow> joined es \<subseteq> joined es'"
  unfolding joined_def by (rule rtrancl_mono) auto

lemma joined_edge: "(i, j) \<in> set es \<Longrightarrow> (i, j) \<in> joined es"
  by (auto simp: joined_def)

lemma joined_const: "\<forall>(k, l) \<in> set es. f k = f l \<Longrightarrow> (k, l) \<in> joined es \<Longrightarrow> f k = f l"
  unfolding joined_def by (erule rtrancl_induct) auto

text \<open>After any number of unions two nodes have the same root exactly when the edges join them.\<close>

definition components :: "nat \<Rightarrow> (nat \<times> nat) list \<Rightarrow> nat list \<Rightarrow> bool" where
  "components n es parent \<longleftrightarrow> length parent = n \<and> (\<forall>(k, l) \<in> set es. k < n \<and> l < n) \<and> (\<exists>rt rk. forest parent rt rk \<and>
     (\<forall>i < n. \<forall>j < n. rt i = rt j \<longleftrightarrow> (i, j) \<in> joined es))"

lemma uf_union_components:
  assumes "components n es parent" and "i < n" and "j < n"
  shows "\<exists>parent'. uf_union i j parent = Some parent' \<and> components n (es @ [(i, j)]) parent'"
proof -
  obtain rt rk where f: "forest parent rt rk" and len: "length parent = n"
    and rt: "\<And>k l. k < n \<Longrightarrow> l < n \<Longrightarrow> rt k = rt l \<longleftrightarrow> (k, l) \<in> joined es"
    using assms(1) by (auto simp: components_def)
  obtain p1 where p1: "uf_find parent i = Some (p1, rt i)" "forest p1 rt rk" "length p1 = n"
    using uf_find_root [OF f, of i] assms(2) len by auto
  obtain p2 where p2: "uf_find p1 j = Some (p2, rt j)" "forest p2 rt rk" "length p2 = n"
    using uf_find_root [OF p1(2), of j] assms(3) p1(3) by auto
  have roots: "rt i < n" "rt j < n" "rt (rt i) = rt i" "rt (rt j) = rt j"
    using forestD(2,3) [OF f] assms(2,3) len by simp_all
  have sub: "joined es \<subseteq> joined (es @ [(i, j)])" by (rule joined_mono) auto
  have new: "(i, j) \<in> joined (es @ [(i, j)])" by (rule joined_edge) simp
  define rt' where "rt' = (\<lambda>k. if rt k = rt i then rt j else rt k)"
  have to: "(k, l) \<in> joined (es @ [(i, j)])" if kl: "k < n" "l < n" "rt' k = rt' l" for k l
  proof -
    have "rt k = rt l \<or> rt k = rt i \<and> rt l = rt j \<or> rt k = rt j \<and> rt l = rt i" using kl(3) by (auto simp: rt'_def split: if_splits)
    moreover have old: "(x, y) \<in> joined (es @ [(i, j)])" if "x < n" "y < n" "rt x = rt y" for x y
      using rt [OF that(1,2)] that(3) sub by blast
    ultimately show ?thesis
      using old [OF kl(1,2)] old [OF kl(1) assms(2)] old [OF kl(1) assms(3)] old [OF assms(2) kl(2)] old [OF assms(3) kl(2)]
        new joined_sym [OF new] joined_trans by metis
  qed
  have bounds: "\<forall>(k, l) \<in> set (es @ [(i, j)]). k < n \<and> l < n" using assms by (auto simp: components_def)
  have "\<forall>(k, l) \<in> set (es @ [(i, j)]). rt' k = rt' l"
    using bounds rt joined_edge [of _ _ es] by (fastforce simp: rt'_def)
  then have same: "rt' k = rt' l" if "(k, l) \<in> joined (es @ [(i, j)])" for k l using joined_const that by metis
  have eq: "rt' k = rt' l \<longleftrightarrow> (k, l) \<in> joined (es @ [(i, j)])" if "k < n" "l < n" for k l using to same that by blast
  show ?thesis
  proof (cases "rt i = rt j")
    case True
    then have "rt' = rt" by (auto simp: rt'_def)
    then have "components n (es @ [(i, j)]) p2" using bounds eq p2(2,3) unfolding components_def by blast
    then show ?thesis using p1 p2 True by (simp add: uf_union_def)
  next
    case False
    have "forest (p2[rt i := rt j]) rt' (\<lambda>k. if rt k = rt j then rk k + Suc (rk (rt i)) else rk k)"
      unfolding rt'_def by (rule forest_link [OF p2(2)]) (use roots False p2(3) in auto)
    then have "components n (es @ [(i, j)]) (p2[rt i := rt j])" using bounds eq p2(3) unfolding components_def by auto
    then show ?thesis using p1 p2 False by (simp add: uf_union_def)
  qed
qed

lemma uf_union_all_components:
  "components n es0 parent \<Longrightarrow> \<forall>(i, j) \<in> set es. i < n \<and> j < n \<Longrightarrow>
    \<exists>parent'. uf_union_all es parent = Some parent' \<and> components n (es0 @ es) parent'"
proof (induction es arbitrary: es0 parent)
  case (Cons e es)
  obtain i j where e: "e = (i, j)" by fastforce
  obtain p where p: "uf_union i j parent = Some p" "components n (es0 @ [(i, j)]) p"
    using uf_union_components [OF Cons.prems(1), of i j] Cons.prems(2) e by auto
  then show ?case using Cons.IH [OF p(2)] Cons.prems(2) e by simp
qed simp

lemma components_start: "components n [] [0..<n]"
proof -
  have "forest [0..<n] id (\<lambda>_. 0)" by (simp add: forest_def)
  moreover have "\<forall>i < n. \<forall>j < n. id i = id j \<longleftrightarrow> (i, j) \<in> joined []" by (simp add: joined_def)
  ultimately show ?thesis unfolding components_def by auto
qed

subsection \<open>Communities are the connected components\<close>

definition members :: "(nat \<Rightarrow> nat) \<Rightarrow> nat \<Rightarrow> (nat \<times> string) list \<Rightarrow> string list" where
  "members rt r ns = map snd (filter (\<lambda>(i, _). rt i = r) ns)"

lemma members_simps [simp]:
  "members rt r [] = []" "members rt r ((i, n) # ns) = (if rt i = r then n # members rt r ns else members rt r ns)"
  by (simp_all add: members_def)

definition group_of :: "(nat \<times> string list) list \<Rightarrow> nat \<Rightarrow> string list" where
  "group_of groups r = (case map_of groups r of Some g \<Rightarrow> g | None \<Rightarrow> [])"

lemma group_of_push: "group_of (group_push r n groups) r' = group_of groups r' @ (if r' = r then [n] else [])"
  by (auto simp: group_of_def group_push_def)

lemma uf_group_members:
  assumes "forest parent rt rk" and "\<forall>(i, n) \<in> set ns. i < length parent" and "distinct (map fst groups)"
    and "\<forall>(r, g) \<in> set groups. g \<noteq> []"
  shows "\<exists>gs. uf_group ns parent groups = Some gs \<and> distinct (map fst gs) \<and> (\<forall>(r, g) \<in> set gs. g \<noteq> []) \<and>
    (\<forall>r. group_of gs r = group_of groups r @ members rt r ns)"
  using assms
proof (induction ns arbitrary: parent groups)
  case (Cons x ns)
  obtain i n where x: "x = (i, n)" by fastforce
  obtain p where p: "uf_find parent i = Some (p, rt i)" "forest p rt rk" "length p = length parent"
    using uf_find_root [OF Cons.prems(1), of i] Cons.prems(2) x by auto
  have push: "distinct (map fst (group_push (rt i) n groups))" "\<forall>(r, g) \<in> set (group_push (rt i) n groups). g \<noteq> []"
    using Cons.prems(3,4) keys_alist_put(2) [of groups "rt i"] by (auto simp: group_push_def dest!: in_alist_put)
  obtain gs where gs: "uf_group ns p (group_push (rt i) n groups) = Some gs" "distinct (map fst gs)" "\<forall>(r, g) \<in> set gs. g \<noteq> []"
      "\<forall>r. group_of gs r = group_of (group_push (rt i) n groups) r @ members rt r ns"
    using Cons.IH [OF p(2) _ push] Cons.prems(2) p(3) by auto
  then have "group_of gs r = group_of groups r @ members rt r (x # ns)" for r by (simp add: group_of_push x)
  then show ?case using gs p x by auto
qed simp

definition linked :: "graph_edge list \<Rightarrow> string rel" where
  "linked edges = ((\<lambda>(s, d, _). (s, d)) ` set edges \<union> ((\<lambda>(s, d, _). (s, d)) ` set edges)\<inverse>)\<^sup>*"

lemma rtrancl_image: "(x, y) \<in> R\<^sup>* \<Longrightarrow> (\<And>u v. (u, v) \<in> R \<Longrightarrow> (f u, f v) \<in> S) \<Longrightarrow> (f x, f y) \<in> S\<^sup>*"
  by (induction rule: rtrancl_induct) (auto intro: rtrancl_into_rtrancl)

lemma joined_linked:
  assumes "u \<in> endpoints edges" and "v \<in> endpoints edges" and "nodes = graph_nodes edges"
  shows "(index_in nodes u, index_in nodes v) \<in> joined (map (\<lambda>(s, d, _). (index_in nodes s, index_in nodes d)) edges) \<longleftrightarrow>
    (u, v) \<in> linked edges"
proof
  have at: "nodes ! index_in nodes x = x" if "x \<in> endpoints edges" for x using index_in [of x nodes] that assms(3) by simp
  have ends: "s \<in> endpoints edges \<and> d \<in> endpoints edges" if "(s, d, w) \<in> set edges" for s d w
    using that by (force simp: endpoints_def)
  assume "(index_in nodes u, index_in nodes v) \<in> joined (map (\<lambda>(s, d, _). (index_in nodes s, index_in nodes d)) edges)"
  then have "(nodes ! index_in nodes u, nodes ! index_in nodes v) \<in> linked edges"
    unfolding joined_def linked_def
  proof (rule rtrancl_image)
    fix i j assume "(i, j) \<in> set (map (\<lambda>(s, d, _). (index_in nodes s, index_in nodes d)) edges) \<union>
      (set (map (\<lambda>(s, d, _). (index_in nodes s, index_in nodes d)) edges))\<inverse>"
    then obtain s d w where e: "(s, d, w) \<in> set edges"
      "i = index_in nodes s \<and> j = index_in nodes d \<or> i = index_in nodes d \<and> j = index_in nodes s" by auto
    then have "(nodes ! i, nodes ! j) = (s, d) \<or> (nodes ! i, nodes ! j) = (d, s)" using at ends [OF e(1)] by auto
    moreover have "(s, d) \<in> (\<lambda>(s, d, _). (s, d)) ` set edges" using e(1) by force
    ultimately show "(nodes ! i, nodes ! j) \<in> (\<lambda>(s, d, _). (s, d)) ` set edges \<union> ((\<lambda>(s, d, _). (s, d)) ` set edges)\<inverse>" by (metis UnCI converseI)
  qed
  then show "(u, v) \<in> linked edges" by (simp add: at assms(1,2))
next
  assume "(u, v) \<in> linked edges"
  then show "(index_in nodes u, index_in nodes v) \<in> joined (map (\<lambda>(s, d, _). (index_in nodes s, index_in nodes d)) edges)"
    unfolding joined_def linked_def by (rule rtrancl_image) (auto simp: rev_image_eqI)
qed

lemma members_enumerate:
  "set (members rt r (List.enumerate 0 nodes)) = {nodes ! i |i. i < length nodes \<and> rt i = r}"
  "distinct nodes \<Longrightarrow> distinct (members rt r (List.enumerate 0 nodes))"
proof -
  show "set (members rt r (List.enumerate 0 nodes)) = {nodes ! i |i. i < length nodes \<and> rt i = r}"
    by (force simp: members_def in_set_enumerate_eq)
  show "distinct (members rt r (List.enumerate 0 nodes))" if "distinct nodes"
    unfolding members_def using that by (intro distinct_map_filter) simp
qed

text \<open>The nodes with one root.\<close>

definition cell :: "graph_edge list \<Rightarrow> (nat \<Rightarrow> nat) \<Rightarrow> nat \<Rightarrow> string set" where
  "cell edges rt r = {graph_nodes edges ! i |i. i < length (graph_nodes edges) \<and> rt i = r}"

lemma nth_in_cell:
  assumes "i < length (graph_nodes edges)" shows "graph_nodes edges ! i \<in> cell edges rt r \<longleftrightarrow> rt i = r"
  using assms nth_eq_iff_index_eq [OF graph_nodes(2) [of edges]] by (auto simp: cell_def)

lemma in_cell: "u \<in> cell edges rt r \<Longrightarrow> \<exists>i < length (graph_nodes edges). u = graph_nodes edges ! i \<and> rt i = r"
  by (auto simp: cell_def)

lemma cell_disjoint: "u \<in> cell edges rt r \<Longrightarrow> u \<in> cell edges rt r' \<Longrightarrow> r = r'"
  using in_cell nth_in_cell by metis

lemma cell_endpoints: "cell edges rt r \<subseteq> endpoints edges"
  using in_cell by (metis graph_nodes(1) nth_mem subsetI)

lemma endpoint_index: "u \<in> endpoints edges \<Longrightarrow> \<exists>i < length (graph_nodes edges). u = graph_nodes edges ! i"
  by (metis graph_nodes(1) in_set_conv_nth)

text \<open>The groups of the nodes by root, as the algorithm collects them.\<close>

lemma communities_groups:
  obtains rt gs where "communities edges = Some (sort_key (\<lambda>g. (- int (length g), hd g)) (map (\<lambda>(_, g). sort g) gs))"
    and "distinct (map fst gs)" and "\<forall>(r, g) \<in> set gs. g \<noteq> [] \<and> distinct g \<and> set g = cell edges rt r"
    and "\<And>i. i < length (graph_nodes edges) \<Longrightarrow> rt i \<in> fst ` set gs"
    and "\<And>i j. i < length (graph_nodes edges) \<Longrightarrow> j < length (graph_nodes edges) \<Longrightarrow> rt i = rt j \<longleftrightarrow>
      (graph_nodes edges ! i, graph_nodes edges ! j) \<in> linked edges"
proof -
  let ?nodes = "graph_nodes edges" let ?n = "length ?nodes"
  let ?es = "map (\<lambda>(s, d, _). (index_in ?nodes s, index_in ?nodes d)) edges"
  have "\<forall>(i, j) \<in> set ?es. i < ?n \<and> j < ?n"
  proof clarsimp
    fix s d w assume "(s, d, w) \<in> set edges"
    then have "s \<in> set ?nodes" "d \<in> set ?nodes" by (force simp: endpoints_def)+
    then show "index_in ?nodes s < ?n \<and> index_in ?nodes d < ?n" using index_in by blast
  qed
  then obtain parent where parent: "uf_union_all ?es [0..<?n] = Some parent" "components ?n ?es parent"
    using uf_union_all_components [OF components_start, of ?es] by auto
  then obtain rt rk where f: "forest parent rt rk" "length parent = ?n"
    and rt: "\<And>i j. i < ?n \<Longrightarrow> j < ?n \<Longrightarrow> rt i = rt j \<longleftrightarrow> (i, j) \<in> joined ?es" by (auto simp: components_def)
  obtain gs where gs: "uf_group (List.enumerate 0 ?nodes) parent [] = Some gs" "distinct (map fst gs)" "\<forall>(r, g) \<in> set gs. g \<noteq> []"
    "\<And>r. group_of gs r = members rt r (List.enumerate 0 ?nodes)"
  proof -
    have "\<forall>(i, n) \<in> set (List.enumerate 0 ?nodes). i < length parent" using f(2) by (auto simp: in_set_enumerate_eq)
    from uf_group_members [OF f(1) this, of "[]"] show thesis by (auto simp: group_of_def intro: that)
  qed
  have g: "g = members rt r (List.enumerate 0 ?nodes)" if "(r, g) \<in> set gs" for r g
    using gs(4) [of r] map_of_is_SomeI [OF gs(2) that] by (simp add: group_of_def)
  show thesis
  proof (rule that)
    show "communities edges = Some (sort_key (\<lambda>g. (- int (length g), hd g)) (map (\<lambda>(_, g). sort g) gs))"
      by (simp add: communities_def Let_def parent(1) gs(1))
    show "distinct (map fst gs)" by (rule gs(2))
    show "\<forall>(r, g) \<in> set gs. g \<noteq> [] \<and> distinct g \<and> set g = cell edges rt r"
      using gs(3) g members_enumerate [where rt = rt and nodes = ?nodes] graph_nodes(2) [of edges] unfolding cell_def by fastforce
    show "rt i \<in> fst ` set gs" if "i < ?n" for i
    proof (rule ccontr)
      assume "rt i \<notin> fst ` set gs"
      then have "members rt (rt i) (List.enumerate 0 ?nodes) = []"
        using gs(4) [of "rt i"] by (simp add: group_of_def map_of_eq_None_iff [THEN iffD2])
      then show False using members_enumerate(1) [of rt "rt i" ?nodes] that by auto
    qed
    show "rt i = rt j \<longleftrightarrow> (?nodes ! i, ?nodes ! j) \<in> linked edges" if "i < ?n" "j < ?n" for i j
    proof -
      have "?nodes ! i \<in> endpoints edges" "?nodes ! j \<in> endpoints edges" using that by (metis graph_nodes(1) nth_mem)+
      from joined_linked [OF this refl] show ?thesis
        unfolding index_in_nth [OF graph_nodes(2) that(1)] index_in_nth [OF graph_nodes(2) that(2)] using rt [OF that] by simp
    qed
  qed
qed

definition root_of :: "graph_edge list \<Rightarrow> (nat \<Rightarrow> nat) \<Rightarrow> string list \<Rightarrow> nat" where
  "root_of edges rt c = rt (index_in (graph_nodes edges) (hd c))"

lemma root_of_cell:
  assumes "set c = cell edges rt r" and "c \<noteq> []" shows "root_of edges rt c = r"
proof -
  have "hd c \<in> cell edges rt r" using assms hd_in_set by blast
  then obtain i where "i < length (graph_nodes edges)" "hd c = graph_nodes edges ! i" "rt i = r" using in_cell by blast
  then show ?thesis using index_in_nth [OF graph_nodes(2)] by (simp add: root_of_def)
qed

text \<open>The communities, each the nodes of its root, one for every root.\<close>

lemma communities_cells:
  obtains rt cs where "communities edges = Some cs" and "distinct (map (root_of edges rt) cs)"
    and "\<And>c. c \<in> set cs \<Longrightarrow> set c = cell edges rt (root_of edges rt c) \<and> c \<noteq> [] \<and> distinct c \<and> sorted c"
    and "\<And>i. i < length (graph_nodes edges) \<Longrightarrow> rt i \<in> root_of edges rt ` set cs"
    and "\<And>i j. i < length (graph_nodes edges) \<Longrightarrow> j < length (graph_nodes edges) \<Longrightarrow> rt i = rt j \<longleftrightarrow>
      (graph_nodes edges ! i, graph_nodes edges ! j) \<in> linked edges"
    and "sorted (map (\<lambda>g. (- int (length g), hd g)) cs)"
proof -
  obtain rt gs where answer: "communities edges = Some (sort_key (\<lambda>g. (- int (length g), hd g)) (map (\<lambda>(_, g). sort g) gs))"
    and keys: "distinct (map fst gs)"
    and g: "\<forall>(r, g) \<in> set gs. g \<noteq> [] \<and> distinct g \<and> set g = cell edges rt r"
    and all: "\<And>i. i < length (graph_nodes edges) \<Longrightarrow> rt i \<in> fst ` set gs"
    and rt: "\<And>i j. i < length (graph_nodes edges) \<Longrightarrow> j < length (graph_nodes edges) \<Longrightarrow> rt i = rt j \<longleftrightarrow>
      (graph_nodes edges ! i, graph_nodes edges ! j) \<in> linked edges"
    by (rule communities_groups [of edges]) blast
  have root: "root_of edges rt (sort g) = r" "sort g \<noteq> []" if "(r, g) \<in> set gs" for r g
  proof -
    have "g \<noteq> []" "set (sort g) = cell edges rt r" using g that by auto
    moreover from this show "sort g \<noteq> []" by (metis length_0_conv length_sort)
    ultimately show "root_of edges rt (sort g) = r" by (intro root_of_cell)
  qed
  define cs where "cs = sort_key (\<lambda>g. (- int (length g), hd g)) (map (\<lambda>(_, g). sort g) gs)"
  have mset: "mset (map (root_of edges rt) cs) = mset (map fst gs)"
  proof -
    have "root_of edges rt (case p of (_, g) \<Rightarrow> sort g) = fst p" if "p \<in> set gs" for p
      using root(1) [of "fst p" "snd p"] that by (simp add: case_prod_beta)
    then have "map (root_of edges rt) (map (\<lambda>(_, g). sort g) gs) = map fst gs" by simp
    from arg_cong [OF this, of mset] show ?thesis by (simp only: cs_def mset_map mset_sort)
  qed
  have cs: "set cs = (\<lambda>(_, g). sort g) ` set gs" by (simp add: cs_def)
  show thesis
  proof (rule that)
    show "communities edges = Some cs" by (simp add: answer cs_def)
    show "distinct (map (root_of edges rt) cs)" using mset keys by (metis mset_eq_imp_distinct_iff)
    show "rt i \<in> root_of edges rt ` set cs" if "i < length (graph_nodes edges)" for i
      using all [OF that] mset by (metis list.set_map set_mset_mset)
    show "sorted (map (\<lambda>g. (- int (length g), hd g)) cs)" unfolding cs_def by (rule sorted_sort_key)
    show "set c = cell edges rt (root_of edges rt c) \<and> c \<noteq> [] \<and> distinct c \<and> sorted c" if c: "c \<in> set cs" for c
    proof -
      obtain r g where "(r, g) \<in> set gs" "c = sort g" using c unfolding cs by auto
      then show ?thesis using root g by auto
    qed
  qed (rule rt)
qed

text \<open>Lists that share no element cannot tie in the final order.\<close>

lemma strict_order:
  assumes "sorted (map (\<lambda>g. (- int (length g), hd g)) cs)" and "distinct cs"
    and "\<And>x y. x \<in> set cs \<Longrightarrow> y \<in> set cs \<Longrightarrow> x \<noteq> y \<Longrightarrow> hd x \<noteq> hd y"
  shows "sorted_wrt (\<lambda>c d. length d < length c \<or> length c = length d \<and> hd c < (hd d :: string)) cs"
  unfolding sorted_wrt_iff_nth_less
proof (intro allI impI)
  fix i j assume ij: "i < j" "j < length cs"
  then have "(- int (length (cs ! i)), hd (cs ! i)) \<le> (- int (length (cs ! j)), hd (cs ! j))"
    using sorted_nth_mono [OF assms(1), of i j] by simp
  moreover have "hd (cs ! i) \<noteq> hd (cs ! j)" using assms(2,3) ij by (auto simp: nth_eq_iff_index_eq)
  ultimately show "length (cs ! j) < length (cs ! i) \<or> length (cs ! i) = length (cs ! j) \<and> hd (cs ! i) < hd (cs ! j)" by auto
qed

text \<open>C39: communities are the connected components. Community detection always returns; the communities
  partition the nodes of the graph, two entities are in the same community exactly when a chain of
  edges, followed in either direction, links them; each is listed in order and the larger ones come
  first, ties broken by the first name, so the answer does not depend on the order of a hash map.\<close>

theorem communities_exact:
  "\<exists>cs. communities edges = Some cs \<and> set (concat cs) = endpoints edges \<and> distinct (concat cs) \<and>
    (\<forall>u \<in> endpoints edges. \<forall>v \<in> endpoints edges.
       (\<exists>c \<in> set cs. u \<in> set c \<and> v \<in> set c) \<longleftrightarrow> (u, v) \<in> linked edges) \<and>
    (\<forall>c \<in> set cs. c \<noteq> [] \<and> sorted c) \<and>
    sorted_wrt (\<lambda>c d. length d < length c \<or> length c = length d \<and> hd c < hd d) cs"
proof -
  obtain rt cs where answer: "communities edges = Some cs" and roots: "distinct (map (root_of edges rt) cs)"
    and c: "\<And>c. c \<in> set cs \<Longrightarrow> set c = cell edges rt (root_of edges rt c) \<and> c \<noteq> [] \<and> distinct c \<and> sorted c"
    and all: "\<And>i. i < length (graph_nodes edges) \<Longrightarrow> rt i \<in> root_of edges rt ` set cs"
    and rt: "\<And>i j. i < length (graph_nodes edges) \<Longrightarrow> j < length (graph_nodes edges) \<Longrightarrow> rt i = rt j \<longleftrightarrow>
      (graph_nodes edges ! i, graph_nodes edges ! j) \<in> linked edges"
    and order: "sorted (map (\<lambda>g. (- int (length g), hd g)) cs)"
    by (rule communities_cells [of edges]) blast
  have disjoint: "set x \<inter> set y = {}" if "x \<in> set cs" "y \<in> set cs" "x \<noteq> y" for x y
  proof -
    have "root_of edges rt x \<noteq> root_of edges rt y" using roots that by (auto simp: distinct_map inj_on_def)
    then show ?thesis using c [OF that(1)] c [OF that(2)] cell_disjoint by (metis disjoint_iff)
  qed
  have dist: "distinct cs" using roots by (simp add: distinct_map)
  have at: "\<exists>c \<in> set cs. graph_nodes edges ! i \<in> set c \<and> root_of edges rt c = rt i" if i: "i < length (graph_nodes edges)" for i
  proof -
    obtain x where "x \<in> set cs" "rt i = root_of edges rt x" using all [OF i] by blast
    then show ?thesis using c [of x] nth_in_cell [OF i] by metis
  qed
  have covers: "(\<exists>c \<in> set cs. u \<in> set c \<and> v \<in> set c) \<longleftrightarrow> (u, v) \<in> linked edges" if uv: "u \<in> endpoints edges" "v \<in> endpoints edges" for u v
  proof -
    obtain i j where ij: "i < length (graph_nodes edges)" "u = graph_nodes edges ! i"
      "j < length (graph_nodes edges)" "v = graph_nodes edges ! j" using uv endpoint_index by metis
    have "(\<exists>c \<in> set cs. u \<in> set c \<and> v \<in> set c) \<longleftrightarrow> rt i = rt j"
      using at [OF ij(1)] c nth_in_cell [OF ij(1)] nth_in_cell [OF ij(3)] unfolding ij(2,4) by metis
    then show ?thesis using rt [OF ij(1,3)] ij by simp
  qed
  have "set (concat cs) \<subseteq> endpoints edges"
  proof
    fix u assume "u \<in> set (concat cs)"
    then obtain x where "x \<in> set cs" "u \<in> set x" by auto
    then show "u \<in> endpoints edges" using c [of x] cell_endpoints by blast
  qed
  moreover have "endpoints edges \<subseteq> set (concat cs)"
  proof
    fix u assume "u \<in> endpoints edges"
    then obtain i where "i < length (graph_nodes edges)" "u = graph_nodes edges ! i" using endpoint_index by blast
    then show "u \<in> set (concat cs)" using at by auto
  qed
  moreover have "distinct (concat cs)" using dist c disjoint by (intro distinct_concat) blast+
  moreover have "sorted_wrt (\<lambda>c d. length d < length c \<or> length c = length d \<and> hd c < hd d) cs"
  proof (rule strict_order [OF order dist])
    fix x y assume xy: "x \<in> set cs" "y \<in> set cs" "x \<noteq> y"
    have "hd x \<in> set x" "hd y \<in> set y" using c [OF xy(1)] c [OF xy(2)] hd_in_set by blast+
    then show "hd x \<noteq> hd y" using disjoint [OF xy] by auto
  qed
  ultimately show ?thesis using answer covers c by blast
qed

theorem communities_exact_witness:
  "communities [(''a'', ''b'', 1), (''c'', ''d'', 1), (''e'', ''b'', 1)] = Some [[''a'', ''b'', ''e''], [''c'', ''d'']] \<and>
    (''a'', ''e'') \<in> linked [(''a'', ''b'', 1), (''c'', ''d'', 1), (''e'', ''b'', 1)]"
proof -
  let ?e = "[(''a'', ''b'', 1), (''c'', ''d'', 1), (''e'', ''b'', 1)] :: graph_edge list"
  have c: "communities ?e = Some [[''a'', ''b'', ''e''], [''c'', ''d'']]" by code_simp
  have "''a'' \<in> endpoints ?e" "''e'' \<in> endpoints ?e" by (simp_all add: endpoints_def)
  then show ?thesis using communities_exact [of ?e] c by auto
qed

end
