(* ===== verification/Knowledge_Graph.thy ===== *)
theory Knowledge_Graph
  imports Graph_Communities Raft_Apply
begin

text \<open>
  The knowledge-graph operations of \<open>src/crates/ecphoria-core/src/engine/mod.rs\<close>: links, functional
  links, the neighbourhood of an entity, and the analytics on the current graph or on the graph as it
  was at an instant. The clock and the fresh identifier of a link are arguments.
\<close>

definition new_edge :: "uuid \<Rightarrow> ts \<Rightarrow> string \<Rightarrow> string \<Rightarrow> string \<Rightarrow> uuid option \<Rightarrow> edge" where
  "new_edge fresh now src relation dst source =
    \<lparr>e_id = fresh, e_src = src, e_relation = relation, e_dst = dst, e_weight = 1, e_source_memory_id = source,
     e_valid_from = Some now, e_valid_to = None, e_state = EdgeActive, e_invalidated_by = None\<rparr>"

definition memory_link :: "uuid \<Rightarrow> ts \<Rightarrow> string \<Rightarrow> string \<Rightarrow> string \<Rightarrow> string \<Rightarrow> uuid option \<Rightarrow> engine \<Rightarrow> engine" where
  "memory_link fresh now tenant src relation dst source en =
    en\<lparr>en_store := add_edge tenant (new_edge fresh now src relation dst source) (en_store en)\<rparr>"

definition memory_link_functional ::
  "uuid \<Rightarrow> ts \<Rightarrow> string \<Rightarrow> string \<Rightarrow> string \<Rightarrow> string \<Rightarrow> uuid option \<Rightarrow> engine \<Rightarrow> engine" where
  "memory_link_functional fresh now tenant src relation dst source en =
    (case supersede_edges tenant src relation now (Some fresh) (en_store en) of (_, st) \<Rightarrow>
       en\<lparr>en_store := add_edge tenant (new_edge fresh now src relation dst source) st\<rparr>)"

definition memory_neighbors :: "cognition_config \<Rightarrow> string \<Rightarrow> string \<Rightarrow> nat \<Rightarrow> engine \<Rightarrow> edge list" where
  "memory_neighbors cfg tenant entity limit en = neighbors tenant entity (min limit (cg_max_rows cfg)) (en_store en)"

definition memory_neighbors_as_of :: "cognition_config \<Rightarrow> string \<Rightarrow> string \<Rightarrow> ts \<Rightarrow> nat \<Rightarrow> engine \<Rightarrow> edge list" where
  "memory_neighbors_as_of cfg tenant entity t limit en =
    neighbors_as_of tenant entity t (min limit (cg_max_rows cfg)) (en_store en)"

definition memory_edges :: "cognition_config \<Rightarrow> string \<Rightarrow> nat \<Rightarrow> engine \<Rightarrow> edge list" where
  "memory_edges cfg tenant limit en = list_edges tenant (min limit (cg_max_rows cfg)) (en_store en)"

definition edge_triple :: "edge \<Rightarrow> graph_edge" where
  "edge_triple e = (e_src e, e_dst e, e_weight e)"

definition graph_triples :: "cognition_config \<Rightarrow> string \<Rightarrow> ts option \<Rightarrow> engine \<Rightarrow> graph_edge list" where
  "graph_triples cfg tenant as_of_t en =
    map edge_triple
      (case as_of_t of
         None \<Rightarrow> list_edges tenant (cg_max_rows cfg) (en_store en)
       | Some t \<Rightarrow> filter (edge_valid_at t) (list_edges_all tenant (cg_max_rows cfg) (en_store en)))"

definition graph_centrality :: "cognition_config \<Rightarrow> string \<Rightarrow> ts option \<Rightarrow> engine \<Rightarrow> node_centrality list" where
  "graph_centrality cfg tenant as_of_t en = centrality (graph_triples cfg tenant as_of_t en)"

definition graph_path :: "cognition_config \<Rightarrow> string \<Rightarrow> string \<Rightarrow> string \<Rightarrow> ts option \<Rightarrow> engine \<Rightarrow> string list option" where
  "graph_path cfg tenant src dst as_of_t en = shortest_path (graph_triples cfg tenant as_of_t en) src dst"

definition graph_communities :: "cognition_config \<Rightarrow> string \<Rightarrow> ts option \<Rightarrow> engine \<Rightarrow> string list list option" where
  "graph_communities cfg tenant as_of_t en = communities (graph_triples cfg tenant as_of_t en)"

subsection \<open>A functional link and the past graph\<close>

definition in_validity_order :: "edge list \<Rightarrow> edge list" where
  "in_validity_order es = sort_key (\<lambda>e. the (e_valid_from e)) (filter (\<lambda>e. e_valid_from e \<noteq> None) es) @
    filter (\<lambda>e. e_valid_from e = None) es"

lemma filter_in_validity_order: "filter P (in_validity_order es) = in_validity_order (filter P es)"
  by (simp add: in_validity_order_def filter_sort conj_commute)

lemma map_in_validity_order:
  assumes "\<And>e. e_valid_from (g e) = e_valid_from e"
  shows "in_validity_order (map g es) = map g (in_validity_order es)"
  by (simp add: in_validity_order_def sort_key_comp filter_map comp_def assms)

lemma length_in_validity_order [simp]: "length (in_validity_order es) = length es"
  using sum_length_filter_compl [of "\<lambda>e. e_valid_from e \<noteq> None" es] by (simp add: in_validity_order_def)

lemma list_edges_all_unlimited:
  "length (select_edges tenant (\<lambda>_. True) st) \<le> n \<Longrightarrow> list_edges_all tenant n st = in_validity_order (select_edges tenant (\<lambda>_. True) st)"
  using length_in_validity_order [of "select_edges tenant (\<lambda>_. True) st"]
  by (simp add: list_edges_all_def in_validity_order_def Let_def)

definition closing :: "ts \<Rightarrow> uuid \<Rightarrow> string \<Rightarrow> string \<Rightarrow> edge \<Rightarrow> edge" where
  "closing now fresh src relation e =
    (if e_src e = src \<and> e_relation e = relation \<and> e_state e = EdgeActive
     then e\<lparr>e_valid_to := Some now, e_state := EdgeSuperseded, e_invalidated_by := Some fresh\<rparr> else e)"

lemma closing_simps [simp]:
  "e_valid_from (closing now fresh src relation e) = e_valid_from e" "edge_triple (closing now fresh src relation e) = edge_triple e"
  "e_src (closing now fresh src relation e) = e_src e" "e_relation (closing now fresh src relation e) = e_relation e"
  by (simp_all add: closing_def edge_triple_def)

text \<open>The edges of a tenant after a functional link: the active ones it replaces are closed, the new one is last.\<close>

lemma link_functional_edges:
  assumes "fresh \<notin> edge_row_id ` set (st_edges (en_store en))"
  shows "select_edges tenant (\<lambda>_. True) (en_store (memory_link_functional fresh now tenant src relation dst source en)) =
    map (closing now fresh src relation) (select_edges tenant (\<lambda>_. True) (en_store en)) @ [new_edge fresh now src relation dst source]"
proof -
  let ?hit = "\<lambda>r. er_tenant r = tenant \<and> e_src (er_edge r) = src \<and> e_relation (er_edge r) = relation \<and> e_state (er_edge r) = EdgeActive"
  let ?close = "\<lambda>r. r\<lparr>er_edge := (er_edge r)\<lparr>e_valid_to := Some now, e_state := EdgeSuperseded, e_invalidated_by := Some fresh\<rparr>\<rparr>"
  let ?rows = "tbl_update ?hit ?close (st_edges (en_store en))"
  have ids: "edge_row_id ` set ?rows = edge_row_id ` set (st_edges (en_store en))" by (rule key_set_update) simp
  have upd: "filter (\<lambda>r. er_tenant r = tenant) (tbl_update ?hit ?close rows) = tbl_update ?hit ?close (filter (\<lambda>r. er_tenant r = tenant) rows)"
    for rows by (induction rows) auto
  have close: "map er_edge (tbl_update ?hit ?close (filter (\<lambda>r. er_tenant r = tenant) rows)) =
      map (closing now fresh src relation) (map er_edge (filter (\<lambda>r. er_tenant r = tenant) rows))" for rows
    by (induction rows) (auto simp: closing_def)
  have "st_edges (en_store (memory_link_functional fresh now tenant src relation dst source en)) =
      ?rows @ [\<lparr>er_tenant = tenant, er_edge = new_edge fresh now src relation dst source\<rparr>]"
    using assms ids by (simp add: memory_link_functional_def supersede_edges_def add_edge_def tbl_insert_ignore_def new_edge_def Let_def)
  then show ?thesis by (simp add: select_edges_def upd close)
qed

text \<open>A functional link has one value now and keeps the past graph. Afterwards the new edge is the
  only active edge of its source and relation, every other active edge stays, and the graph as it was at
  any earlier instant is the same, edge by edge, so that centrality, paths and communities of the past
  are answered as before.\<close>

theorem link_functional_keeps_past:
  assumes "fresh \<notin> edge_row_id ` set (st_edges (en_store en))"
    and "\<forall>e \<in> set (select_edges tenant (\<lambda>_. True) (en_store en)). e_state e = EdgeActive \<longrightarrow> e_valid_to e = None"
    and "Suc (length (select_edges tenant (\<lambda>_. True) (en_store en))) \<le> cg_max_rows cfg"
    and "en' = memory_link_functional fresh now tenant src relation dst source en" and "t < now"
  shows "select_edges tenant (\<lambda>e. e_state e = EdgeActive \<and> e_src e = src \<and> e_relation e = relation) (en_store en') =
      [new_edge fresh now src relation dst source] \<and>
    select_edges tenant (\<lambda>e. e_state e = EdgeActive \<and> \<not> (e_src e = src \<and> e_relation e = relation)) (en_store en') =
      select_edges tenant (\<lambda>e. e_state e = EdgeActive \<and> \<not> (e_src e = src \<and> e_relation e = relation)) (en_store en) \<and>
    graph_triples cfg tenant (Some t) en' = graph_triples cfg tenant (Some t) en \<and>
    graph_path cfg tenant a b (Some t) en' = graph_path cfg tenant a b (Some t) en \<and>
    graph_communities cfg tenant (Some t) en' = graph_communities cfg tenant (Some t) en"
proof -
  let ?es = "select_edges tenant (\<lambda>_. True) (en_store en)" and ?c = "closing now fresh src relation"
  let ?new = "new_edge fresh now src relation dst source"
  have es': "select_edges tenant (\<lambda>_. True) (en_store en') = map ?c ?es @ [?new]"
    unfolding assms(4) by (rule link_functional_edges [OF assms(1)])
  have sel: "select_edges tenant Q st = filter Q (select_edges tenant (\<lambda>_. True) st)" for Q st by (simp add: select_edges_def)
  have valid: "edge_valid_at t (?c e) = edge_valid_at t e" if "e \<in> set ?es" for e
    using that assms(2,5) by (auto simp: edge_valid_at_def closing_def opt_holds_def)
  have "\<not> edge_valid_at t ?new" using assms(5) by (simp add: edge_valid_at_def new_edge_def opt_holds_def)
  then have flt: "filter (edge_valid_at t) (map ?c ?es @ [?new]) = map ?c (filter (edge_valid_at t) ?es)"
    using valid by (simp add: filter_map comp_def cong: filter_cong)
  have triples: "graph_triples cfg tenant (Some t) en' = graph_triples cfg tenant (Some t) en"
  proof -
    have "graph_triples cfg tenant (Some t) en' = map edge_triple (in_validity_order (filter (edge_valid_at t) (map ?c ?es @ [?new])))"
      using assms(3) es' by (simp add: graph_triples_def list_edges_all_unlimited filter_in_validity_order)
    also have "\<dots> = map edge_triple (in_validity_order (filter (edge_valid_at t) ?es))"
      unfolding flt by (simp add: map_in_validity_order comp_def)
    finally show ?thesis using assms(3) by (simp add: graph_triples_def list_edges_all_unlimited filter_in_validity_order)
  qed
  have now: "filter (\<lambda>e. e_state e = EdgeActive \<and> e_src e = src \<and> e_relation e = relation) (map ?c xs) = []" for xs
    by (induction xs) (auto simp: closing_def)
  have other: "filter (\<lambda>e. e_state e = EdgeActive \<and> \<not> (e_src e = src \<and> e_relation e = relation)) (map ?c xs) =
      filter (\<lambda>e. e_state e = EdgeActive \<and> \<not> (e_src e = src \<and> e_relation e = relation)) xs" for xs
    by (induction xs) (auto simp: closing_def)
  show ?thesis
    unfolding sel [of "\<lambda>e. e_state e = EdgeActive \<and> e_src e = src \<and> e_relation e = relation"]
      sel [of "\<lambda>e. e_state e = EdgeActive \<and> \<not> (e_src e = src \<and> e_relation e = relation)"] es'
    using triples now other by (simp add: new_edge_def graph_path_def graph_communities_def)
qed

theorem link_functional_keeps_past_witness:
  "graph_triples demo_cfg ''acme'' (Some 15) (memory_link_functional 2 20 ''acme'' ''ana'' ''works_at'' ''globex'' None
      (memory_link 1 10 ''acme'' ''ana'' ''works_at'' ''initech'' None demo_engine)) =
    graph_triples demo_cfg ''acme'' (Some 15) (memory_link 1 10 ''acme'' ''ana'' ''works_at'' ''initech'' None demo_engine)"
proof -
  let ?en = "memory_link 1 10 ''acme'' ''ana'' ''works_at'' ''initech'' None demo_engine"
  have "2 \<notin> edge_row_id ` set (st_edges (en_store ?en))"
    "\<forall>e \<in> set (select_edges ''acme'' (\<lambda>_. True) (en_store ?en)). e_state e = EdgeActive \<longrightarrow> e_valid_to e = None"
    "Suc (length (select_edges ''acme'' (\<lambda>_. True) (en_store ?en))) \<le> cg_max_rows demo_cfg" by code_simp+
  from link_functional_keeps_past [OF this refl, of 15 20 "''ana''" "''works_at''" "''globex''" None] show ?thesis by simp
qed

end
