(* ===== verification/Snapshot_Codec.thy ===== *)
theory Snapshot_Codec
  imports Ecphoria_Prelude
begin

text \<open>
  The binary format of a Raft snapshot, \<open>pack_directory\<close> and \<open>unpack_directory\<close> of
  \<open>src/crates/ecphoria-cluster/src/replication/snapshot.rs\<close>. A directory is the list of its files in
  the order of the walk, each with its relative path; bytes are characters. Reading and writing the
  files themselves is left out: \<open>unpack\<close> answers the files it would write.
\<close>

type_synonym snap_file = "string \<times> string"

subsection \<open>Little-endian lengths\<close>

fun le_bytes :: "nat \<Rightarrow> nat \<Rightarrow> string" where
  "le_bytes 0 n = []"
| "le_bytes (Suc k) n = char_of (n mod 256) # le_bytes k (n div 256)"

fun from_le :: "string \<Rightarrow> nat" where
  "from_le [] = 0"
| "from_le (c # cs) = of_char c + 256 * from_le cs"

lemma length_le_bytes [simp]: "length (le_bytes k n) = k"
  by (induction k arbitrary: n) auto

lemma from_le_bytes: "from_le (le_bytes k n) = n mod 256 ^ k"
proof (induction k arbitrary: n)
  case (Suc k)
  have "n mod (256 * 256 ^ k) = n mod 256 + 256 * (n div 256 mod 256 ^ k)" by (simp add: mod_mult2_eq)
  then show ?case using Suc by simp
qed simp

text \<open>\<open>std::str::from_utf8\<close>: the well-formed byte sequences of UTF-8.\<close>

definition utf8_tail :: "nat \<Rightarrow> bool" where
  "utf8_tail b \<longleftrightarrow> 128 \<le> b \<and> b < 192"

fun utf8_valid :: "nat list \<Rightarrow> bool" where
  "utf8_valid [] = True"
| "utf8_valid (a # bs) =
     (if a < 128 then utf8_valid bs
      else if 194 \<le> a \<and> a < 224 then (case bs of b # bs' \<Rightarrow> utf8_tail b \<and> utf8_valid bs' | _ \<Rightarrow> False)
      else if 224 \<le> a \<and> a < 240 then (case bs of b # c # bs' \<Rightarrow>
          utf8_tail b \<and> utf8_tail c \<and> (a = 224 \<longrightarrow> 160 \<le> b) \<and> (a = 237 \<longrightarrow> b < 160) \<and> utf8_valid bs' | _ \<Rightarrow> False)
      else if 240 \<le> a \<and> a < 245 then (case bs of b # c # d # bs' \<Rightarrow>
          utf8_tail b \<and> utf8_tail c \<and> utf8_tail d \<and> (a = 240 \<longrightarrow> 144 \<le> b) \<and> (a = 244 \<longrightarrow> b < 144) \<and> utf8_valid bs' | _ \<Rightarrow> False)
      else False)"

definition is_utf8 :: "string \<Rightarrow> bool" where
  "is_utf8 s \<longleftrightarrow> utf8_valid (map of_char s)"

subsection \<open>Packing and unpacking\<close>

text \<open>The length of the path is cast to 32 bits, the length of the data to 64. Paths are text here: the code
  replaces the bytes of a path that are not UTF-8, which the theorems exclude.\<close>

definition pack_file :: "snap_file \<Rightarrow> string" where
  "pack_file f = (case f of (path, data) \<Rightarrow>
     le_bytes 4 (length path mod 2 ^ 32) @ path @ le_bytes 8 (length data mod 2 ^ 64) @ data)"

definition pack_directory :: "snap_file list \<Rightarrow> string" where
  "pack_directory files = concat (map pack_file files)"

text \<open>
  The outcome of unpacking: the files, a path that is not UTF-8, or a panic, when the end of the data
  lies past the 64-bit address space.
\<close>

datatype unpacked = Unpacked "snap_file list" | Invalid_Path | Unpack_Panic

fun add_file :: "snap_file \<Rightarrow> unpacked \<Rightarrow> unpacked" where
  "add_file f (Unpacked fs) = Unpacked (f # fs)"
| "add_file f r = r"

text \<open>One round of the loop at \<open>cursor\<close> with the bytes that are left.\<close>

function unpack_from :: "nat \<Rightarrow> string \<Rightarrow> unpacked" where
  "unpack_from cursor data =
    (if length data < 4 then Unpacked []
     else let path_len = from_le (take 4 data); rest1 = drop 4 data
          in if length rest1 < path_len then Unpacked []
             else if \<not> is_utf8 (take path_len rest1) then Invalid_Path
             else let rest2 = drop path_len rest1
                  in if length rest2 < 8 then Unpacked []
                     else let data_len = from_le (take 8 rest2); rest3 = drop 8 rest2;
                              cursor3 = cursor + 4 + path_len + 8
                          in if 2 ^ 64 \<le> cursor3 + data_len then Unpack_Panic
                             else if length rest3 < data_len then Unpacked []
                             else add_file (take path_len rest1, take data_len rest3)
                               (unpack_from (cursor3 + data_len) (drop data_len rest3)))"
  by pat_completeness auto
termination by (relation "measure (\<lambda>(_, data). length data)") auto

declare unpack_from.simps [simp del]

definition unpack_directory :: "string \<Rightarrow> unpacked" where
  "unpack_directory data = unpack_from 0 data"

subsection \<open>Unpacking what was packed\<close>

definition packable :: "snap_file \<Rightarrow> bool" where
  "packable f \<longleftrightarrow> length (fst f) < 2 ^ 32 \<and> length (snd f) < 2 ^ 64 \<and> is_utf8 (fst f)"

lemma length_pack_file: "length (pack_file f) = 12 + length (fst f) + length (snd f)"
  by (simp add: pack_file_def case_prod_beta)

text \<open>A whole record at the front is read.\<close>

lemma unpack_record:
  assumes "packable f" and "cursor + length (pack_file f) < 2 ^ 64"
  shows "unpack_from cursor (pack_file f @ rest) = add_file f (unpack_from (cursor + length (pack_file f)) rest)"
proof -
  obtain p d where f: "f = (p, d)" by fastforce
  have p: "length p < 2 ^ 32" "is_utf8 p" and d: "length d < 2 ^ 64" using assms(1) f by (auto simp: packable_def)
  have "from_le (le_bytes 4 (length p mod 2 ^ 32)) = length p" "from_le (le_bytes 8 (length d mod 2 ^ 64)) = length d"
    using p(1) d by (simp_all add: from_le_bytes)
  then show ?thesis using p d assms(2)
    by (subst unpack_from.simps) (simp add: f pack_file_def Let_def add.assoc)
qed

text \<open>The front part of a record is dropped.\<close>

lemma unpack_partial:
  assumes "packable f" and "cursor + length (pack_file f) < 2 ^ 64" and "n < length (pack_file f)"
  shows "unpack_from cursor (take n (pack_file f)) = Unpacked []"
proof -
  obtain p d where f: "f = (p, d)" by fastforce
  have p: "length p < 2 ^ 32" "is_utf8 p" and d: "length d < 2 ^ 64" using assms(1) f by (auto simp: packable_def)
  have len: "from_le (le_bytes 4 (length p)) = length p" "from_le (le_bytes 8 (length d)) = length d"
    using p(1) d by (simp_all add: from_le_bytes)
  have b: "pack_file f = le_bytes 4 (length p) @ p @ le_bytes 8 (length d) @ d" using p(1) d by (simp add: f pack_file_def)
  consider "n < 4" | "4 \<le> n" "n < 4 + length p" | "4 + length p \<le> n" "n < 12 + length p" | "12 + length p \<le> n" by linarith
  then show ?thesis
  proof cases
    case 1
    then have "length (take n (pack_file f)) < 4" by simp
    then show ?thesis by (subst unpack_from.simps) (simp only: if_True)
  next
    case 2
    then have "n - 4 < length p" by linarith
    with 2 show ?thesis unfolding b by (subst unpack_from.simps) (simp add: Let_def len)
  next
    case 3
    then have "take n (pack_file f) = le_bytes 4 (length p) @ p @ take (n - 4 - length p) (le_bytes 8 (length d))"
      unfolding b by simp
    moreover have "n - (4 + length p) < 8" using 3 by linarith
    ultimately show ?thesis using p(2) by (subst unpack_from.simps) (simp add: Let_def len)
  next
    case 4
    then have "take n (pack_file f) = le_bytes 4 (length p) @ p @ le_bytes 8 (length d) @ take (n - 12 - length p) d"
      unfolding b by (simp add: add.commute diff_diff_left)
    moreover have "n - 12 - length p < length d" using assms(3) 4 by (simp add: length_pack_file f)
    ultimately show ?thesis using p(2) assms(2) by (subst unpack_from.simps) (simp add: Let_def len length_pack_file f)
  qed
qed

text \<open>The number of whole records among the first bytes.\<close>

fun whole_records :: "nat \<Rightarrow> snap_file list \<Rightarrow> nat" where
  "whole_records n [] = 0"
| "whole_records n (f # fs) = (if length (pack_file f) \<le> n then Suc (whole_records (n - length (pack_file f)) fs) else 0)"

lemma whole_records_all: "length (pack_directory fs) \<le> n \<Longrightarrow> whole_records n fs = length fs"
  by (induction fs arbitrary: n) (auto simp: pack_directory_def)

lemma unpack_take:
  assumes "\<forall>f \<in> set fs. packable f" and "cursor + length (pack_directory fs) < 2 ^ 64"
  shows "unpack_from cursor (take n (pack_directory fs)) = Unpacked (take (whole_records n fs) fs)"
  using assms
proof (induction fs arbitrary: cursor n)
  case Nil
  then show ?case by (subst unpack_from.simps) (simp add: pack_directory_def)
next
  case (Cons f fs)
  have pd: "pack_directory (f # fs) = pack_file f @ pack_directory fs" by (simp add: pack_directory_def)
  have f: "packable f" "cursor + length (pack_file f) < 2 ^ 64" using Cons.prems by (simp_all add: pd)
  show ?case
  proof (cases "length (pack_file f) \<le> n")
    case True
    then show ?thesis using unpack_record [OF f] Cons.IH Cons.prems by (simp add: pd add.assoc)
  next
    case False
    then show ?thesis using unpack_partial [OF f, of n] by (simp add: pd)
  qed
qed

text \<open>C40: a snapshot is restored file by file, and a cut-off snapshot is taken for a shorter one. Unpacking
  the first bytes of a packed directory gives the files whose records are complete among them, in order
  and with their contents, and reports success; with all the bytes it gives the whole directory back.\<close>

theorem unpack_pack_prefix:
  assumes "\<forall>f \<in> set fs. packable f" and "length (pack_directory fs) < 2 ^ 64"
  shows "unpack_directory (pack_directory fs) = Unpacked fs \<and>
    unpack_directory (take n (pack_directory fs)) = Unpacked (take (whole_records n fs) fs)"
  using unpack_take [OF assms(1), of 0 n] unpack_take [OF assms(1), of 0 "length (pack_directory fs)"] assms(2)
  by (simp add: unpack_directory_def whole_records_all)

theorem unpack_pack_prefix_witness:
  "unpack_directory (take 20 (pack_directory [(''a'', ''x''), (''b'', ''yz'')])) = Unpacked [(''a'', ''x'')]"
proof -
  have "\<forall>f \<in> set [(''a'', ''x''), (''b'', ''yz'')]. packable f" by (simp add: packable_def is_utf8_def)
  moreover have "length (pack_directory [(''a'', ''x''), (''b'', ''yz'')]) < 2 ^ 64"
    by (simp add: pack_directory_def length_pack_file)
  moreover have "whole_records 20 [(''a'', ''x''), (''b'', ''yz'')] = 1" by (simp add: length_pack_file)
  ultimately show ?thesis using unpack_pack_prefix [of "[(''a'', ''x''), (''b'', ''yz'')]" 20] by simp
qed

end
