(* ===== verification/Memory_Search.thy ===== *)
theory Memory_Search
  imports Memory_Reads Memory_Review
begin

text \<open>
  The hybrid search of \<open>src/crates/ecphoria-core/src/engine/mod.rs\<close>, \<open>memory_search_inner\<close> and its
  entry points: candidates from the full-text index scored by BM25, vector candidates, memories linked
  by the knowledge graph, weighted rank fusion, the blend with importance and recency, the similarity
  floor, the optional reranker and the cut to \<open>k\<close>; and the search over granted scopes
  (\<open>memory_search_shared\<close>, \<open>authz.rs\<close>). The settings of the read path extend the cognition settings;
  floating-point functions, the full-text engine, the reranker and the iteration order of hash maps are
  parameters.
\<close>

record search_config = cognition_config +
  cg_retrieval_scan_cap :: nat
  cg_retrieval_pool :: nat
  cg_graph_expansion :: bool
  cg_retrieval_importance_weight :: float32
  cg_retrieval_recency_weight :: float32
  cg_retrieval_vector_weight :: float32
  cg_retrieval_lexical_weight :: float32
  cg_rerank_candidates :: nat

text \<open>
  \<open>sq_half\<close> is \<open>0.5.powf\<close>; \<open>sq_lex_ok\<close> says whether the full-text index can be read; \<open>sq_iter\<close> and
  \<open>sq_values\<close> are the orders in which the hash maps of fused scores and of merged hits are walked.
\<close>

record search_ports =
  sq_ln :: "rat \<Rightarrow> rat"
  sq_fts5 :: "string \<Rightarrow> fts_row list \<Rightarrow> (nat \<times> rat) list"
  sq_lex_ok :: bool
  sq_iter :: "(uuid \<times> rat) list \<Rightarrow> (uuid \<times> rat) list"
  sq_values :: "(uuid \<times> memory_hit) list \<Rightarrow> (uuid \<times> memory_hit) list"
  sq_half :: "rat \<Rightarrow> rat"
  sq_rerank :: "(string \<Rightarrow> string list \<Rightarrow> rat list option) option"

definition plain_hit :: "memory \<Rightarrow> memory_hit" where
  "plain_hit m = \<lparr>h_memory = m, h_score = 0, h_similarity = None, h_lexical = None\<rparr>"

definition in_project :: "string option \<Rightarrow> memory \<Rightarrow> bool" where
  "in_project project m \<longleftrightarrow> project = None \<or> m_project m = project"

definition lexical_candidates ::
  "search_ports \<Rightarrow> string \<Rightarrow> memory_scope \<Rightarrow> string option \<Rightarrow> nat \<Rightarrow> engine \<Rightarrow> memory list" where
  "lexical_candidates S query scope project scan_cap en =
    filter (in_project project)
      (if sq_lex_ok S
       then let ranked = lx_search (sq_fts5 S) (scope_partition_key scope) project query scan_cap (en_lex en)
            in if ranked \<noteq> [] then get_active_by_ids (map fst ranked) scope (en_store en) else []
       else list_active scope scan_cap (en_store en))"

definition or_insert :: "memory \<Rightarrow> (uuid \<times> memory) list \<Rightarrow> (uuid \<times> memory) list" where
  "or_insert m by_id = (case map_of by_id (m_id m) of None \<Rightarrow> alist_put (m_id m) m by_id | Some _ \<Rightarrow> by_id)"

text \<open>The vector arm: the hits that are in the project, in rank order.\<close>

definition vector_hits ::
  "ports \<Rightarrow> string \<Rightarrow> memory_scope \<Rightarrow> string option \<Rightarrow> nat \<Rightarrow> engine \<Rightarrow> memory_hit list" where
  "vector_hits P query scope project width en =
    (if sv_len (en_vec en) = 0 then []
     else case pt_embed P query of
            None \<Rightarrow> []
          | Some vector \<Rightarrow>
              (case memory_index_search P vector scope width en of
                 Inl _ \<Rightarrow> []
               | Inr hits \<Rightarrow> filter (\<lambda>h. in_project project (h_memory h)) hits))"

text \<open>The graph arm walks the edges once and keeps the memories seen, the map and the ranking.\<close>

definition graph_step ::
  "string list \<Rightarrow> memory_scope \<Rightarrow> memory_store \<Rightarrow> edge \<Rightarrow>
   uuid list \<times> (uuid \<times> memory) list \<times> uuid list \<Rightarrow> uuid list \<times> (uuid \<times> memory) list \<times> uuid list" where
  "graph_step q_terms scope st e acc = (case acc of (seen, by_id, graph_ids) \<Rightarrow>
    (case e_source_memory_id e of
       None \<Rightarrow> acc
     | Some mid \<Rightarrow>
         (if \<not> (list_ex (\<lambda>t. t \<in> set q_terms) (tokenize (e_src e)) \<or> list_ex (\<lambda>t. t \<in> set q_terms) (tokenize (e_dst e)))
              \<or> mid \<in> set seen
          then acc
          else let mem = (case map_of by_id mid of Some m \<Rightarrow> Some m | None \<Rightarrow> ms_get mid st)
               in case mem of
                    None \<Rightarrow> (mid # seen, by_id, graph_ids)
                  | Some m \<Rightarrow>
                      (if m_state m = Active \<and> m_scope m = scope
                       then (mid # seen,
                             (case map_of by_id mid of None \<Rightarrow> alist_put mid m by_id | Some _ \<Rightarrow> by_id), graph_ids @ [mid])
                       else (mid # seen, by_id, graph_ids)))))"

definition recency_of :: "search_ports \<Rightarrow> ts \<Rightarrow> memory \<Rightarrow> rat" where
  "recency_of S now m = sq_half S ((of_int (max 0 ((now - m_updated_at m) div 1000000)) / 86400) / 30)"

definition fused_hit ::
  "search_ports \<Rightarrow> search_config \<Rightarrow> ts \<Rightarrow> (uuid \<times> rat) list \<Rightarrow> (uuid \<times> rat) list \<Rightarrow> rat \<Rightarrow> memory \<Rightarrow> memory_hit" where
  "fused_hit S cfg now lex_scores vec_scores rrf m =
    \<lparr>h_memory = m,
     h_score = rrf * (1 + cg_retrieval_importance_weight cfg * m_importance m
                      + cg_retrieval_recency_weight cfg * recency_of S now m),
     h_similarity = map_of vec_scores (m_id m), h_lexical = map_of lex_scores (m_id m)\<rparr>"

text \<open>
  The reranker replaces the scores when it answers one score per document, and leaves the fused order
  otherwise. Scores are exact here, so the comparison never fails on a value that is not a number.
\<close>

definition rerank_hits :: "search_ports \<Rightarrow> ts \<Rightarrow> string \<Rightarrow> memory_hit list \<Rightarrow> memory_hit list" where
  "rerank_hits S now query scored =
    (case sq_rerank S of
       None \<Rightarrow> scored
     | Some rerank \<Rightarrow>
         (if scored = [] then scored
          else case rerank query (map (\<lambda>h. m_content (h_memory h)) scored) of
                 None \<Rightarrow> scored
               | Some rscores \<Rightarrow>
                   (if length rscores \<noteq> length scored then scored
                    else order_by_desc h_score
                      (map (\<lambda>(h, rs). h\<lparr>h_score := rs * (1 + 1/10 * recency_of S now (h_memory h))\<rparr>)
                        (zip scored rscores)))))"

definition memory_rrf_k :: rat where
  "memory_rrf_k = 60"

text \<open>
  The three arms: the memories found by identifier, the rankings to fuse, and the lexical and vector
  scores.
\<close>

definition search_arms ::
  "search_ports \<Rightarrow> ports \<Rightarrow> search_config \<Rightarrow> string \<Rightarrow> memory_scope \<Rightarrow> nat \<Rightarrow> string option \<Rightarrow> nat \<Rightarrow> engine \<Rightarrow>
   (uuid \<times> memory) list \<times> (uuid list \<times> rat) list \<times> (uuid \<times> rat) list \<times> (uuid \<times> rat) list" where
  "search_arms S P cfg query scope k project pool en =
    (let scan_cap = max (cg_retrieval_scan_cap cfg) k;
         candidates = lexical_candidates S query scope project scan_cap en;
         ranked = lexical_rank (sq_ln S) query candidates;
         lex_scores = fold (\<lambda>(i, score). alist_put (m_id (candidates ! i)) score) ranked [];
         lex_ids = map (\<lambda>(i, score). m_id (candidates ! i)) ranked;
         hits = vector_hits P query scope project (max pool (k * 4)) en;
         vec_ids = map (\<lambda>h. m_id (h_memory h)) hits;
         vec_scores = fold (\<lambda>h acc. case h_similarity h of
             Some sim \<Rightarrow> alist_put (m_id (h_memory h)) sim acc | None \<Rightarrow> acc) hits [];
         by_id1 = fold (\<lambda>h. or_insert (h_memory h)) hits (fold (\<lambda>m. alist_put (m_id m) m) candidates []);
         tenant = (if sc_tenant_id scope = [] then ''default'' else sc_tenant_id scope);
         (by_id, graph_ids) =
           (if cg_graph_expansion cfg
            then snd (fold (graph_step (tokenize query) scope (en_store en))
                   (list_edges tenant scan_cap (en_store en)) ([], by_id1, []))
            else (by_id1, []));
         rankings = (if vec_ids \<noteq> [] then [(vec_ids, cg_retrieval_vector_weight cfg)] else [])
           @ (if lex_ids \<noteq> [] then [(lex_ids, cg_retrieval_lexical_weight cfg)] else [])
           @ (if graph_ids \<noteq> [] then [(graph_ids, cg_retrieval_lexical_weight cfg)] else [])
     in (by_id, rankings, lex_scores, vec_scores))"

definition memory_search_inner ::
  "search_ports \<Rightarrow> ports \<Rightarrow> search_config \<Rightarrow> ts \<Rightarrow> string \<Rightarrow> memory_scope \<Rightarrow> nat \<Rightarrow> string option \<Rightarrow> rat option \<Rightarrow>
   engine \<Rightarrow> memory_hit list \<times> bool" where
  "memory_search_inner S P cfg now query scope k project min_similarity en =
    (if str_trim query = [] \<or> k = 0
     then (map plain_hit (list_active scope (max k 1) (en_store en)), False)
     else
       let pool = (case sq_rerank S of
                     Some _ \<Rightarrow> max (cg_rerank_candidates cfg) (cg_retrieval_pool cfg)
                   | None \<Rightarrow> max (cg_retrieval_pool cfg) k);
           (by_id, rankings, lex_scores, vec_scores) = search_arms S P cfg query scope k project pool en
       in if rankings = []
          then (map plain_hit (filter (in_project project) (list_active scope k (en_store en))), False)
          else
            let fused = rrf_fuse_weighted (sq_iter S) rankings memory_rrf_k pool;
                scored = List.map_filter (\<lambda>(mid, rrf).
                  map_option (fused_hit S cfg now lex_scores vec_scores rrf)
                    (case map_of by_id mid of Some m \<Rightarrow> Some m | None \<Rightarrow> ms_get mid (en_store en))) fused;
                kept = (case min_similarity of
                          None \<Rightarrow> scored
                        | Some threshold \<Rightarrow>
                            filter (\<lambda>h. case h_similarity h of None \<Rightarrow> True | Some s \<Rightarrow> threshold \<le> s) scored)
            in (take k (rerank_hits S now query (order_by_desc h_score kept)), True))"

text \<open>The log line of a search, without the measured duration.\<close>

record query_record =
  qr_tenant_id :: string
  qr_user_id :: "string option"
  qr_agent_id :: "string option"
  qr_project :: "string option"
  qr_query :: "string option"
  qr_k :: nat
  qr_results :: nat
  qr_matched :: bool
  qr_top_subject :: "string option"
  qr_top_similarity :: "rat option"

definition memory_search_filtered ::
  "search_ports \<Rightarrow> ports \<Rightarrow> search_config \<Rightarrow> ts \<Rightarrow> string \<Rightarrow> memory_scope \<Rightarrow> nat \<Rightarrow> string option \<Rightarrow> rat option \<Rightarrow>
   engine \<Rightarrow> memory_hit list \<times> query_record" where
  "memory_search_filtered S P cfg now query scope k project min_similarity en =
    (case memory_search_inner S P cfg now query scope k project min_similarity en of (hits, matched) \<Rightarrow>
       (hits,
        \<lparr>qr_tenant_id = (if sc_tenant_id scope = [] then ''default'' else sc_tenant_id scope),
         qr_user_id = sc_user_id scope, qr_agent_id = sc_agent_id scope, qr_project = project, qr_query = Some query,
         qr_k = k, qr_results = length hits, qr_matched = matched,
         qr_top_subject = (case hits of [] \<Rightarrow> None | h # _ \<Rightarrow> m_subject (h_memory h)),
         qr_top_similarity = (case hits of [] \<Rightarrow> None | h # _ \<Rightarrow> h_similarity h)\<rparr>))"

definition memory_search_in_project ::
  "search_ports \<Rightarrow> ports \<Rightarrow> search_config \<Rightarrow> ts \<Rightarrow> string \<Rightarrow> memory_scope \<Rightarrow> nat \<Rightarrow> string option \<Rightarrow> engine \<Rightarrow> memory_hit list" where
  "memory_search_in_project S P cfg now query scope k project en =
    fst (memory_search_filtered S P cfg now query scope k project None en)"

definition memory_search ::
  "search_ports \<Rightarrow> ports \<Rightarrow> search_config \<Rightarrow> ts \<Rightarrow> string \<Rightarrow> memory_scope \<Rightarrow> nat \<Rightarrow> engine \<Rightarrow> memory_hit list" where
  "memory_search S P cfg now query scope k en = memory_search_in_project S P cfg now query scope k None en"

subsection \<open>Searching granted scopes\<close>

definition granted_read_scopes :: "string \<Rightarrow> string \<Rightarrow> memory_store \<Rightarrow> string list" where
  "granted_read_scopes tenant user st = map g_grantor_user_id (list_grants tenant user st)"

definition best_hit :: "memory_hit \<Rightarrow> (uuid \<times> memory_hit) list \<Rightarrow> (uuid \<times> memory_hit) list" where
  "best_hit h best =
    (case map_of best (m_id (h_memory h)) of
       None \<Rightarrow> alist_put (m_id (h_memory h)) h best
     | Some e \<Rightarrow> if h_score h > h_score e then alist_put (m_id (h_memory h)) (e\<lparr>h_score := h_score h\<rparr>) best else best)"

definition memory_search_shared ::
  "search_ports \<Rightarrow> ports \<Rightarrow> search_config \<Rightarrow> ts \<Rightarrow> string \<Rightarrow> memory_scope \<Rightarrow> nat \<Rightarrow> engine \<Rightarrow> memory_hit list" where
  "memory_search_shared S P cfg now query scope k en =
    (let hits = memory_search S P cfg now query scope k en
     in case sc_user_id scope of
          None \<Rightarrow> hits
        | Some grantee \<Rightarrow>
            let tenant = (if sc_tenant_id scope = [] then ''default'' else sc_tenant_id scope);
                shared = concat (map (\<lambda>grantor. memory_search S P cfg now query
                    \<lparr>sc_tenant_id = sc_tenant_id scope, sc_user_id = Some grantor, sc_agent_id = None, sc_session_id = None\<rparr> k en)
                  (granted_read_scopes tenant grantee (en_store en)));
                best = fold best_hit (hits @ shared) []
            in take k (order_by_desc h_score (map snd (sq_values S best))))"

subsection \<open>Rank fusion keeps the ranked identifiers\<close>

lemma keys_score_add: "fst ` set (score_add i x ss) = insert i (fst ` set ss)"
  by (induction i x ss rule: score_add.induct) auto

lemma distinct_score_add: "distinct (map fst ss) \<Longrightarrow> distinct (map fst (score_add i x ss))"
  using keys_score_add by (induction i x ss rule: score_add.induct) (auto simp: image_iff)

lemma rrf_add_ranking_keys:
  "fst ` set (rrf_add_ranking k rw ss) = set (fst rw) \<union> fst ` set ss \<and>
    (distinct (map fst ss) \<longrightarrow> distinct (map fst (rrf_add_ranking k rw ss)))"
proof -
  have "fst ` set (fold (\<lambda>(rank, i). score_add i (f rank)) es ss) = snd ` set es \<union> fst ` set ss \<and>
    (distinct (map fst ss) \<longrightarrow> distinct (map fst (fold (\<lambda>(rank, i). score_add i (f rank)) es ss)))" for f and es :: "(nat \<times> uuid) list"
    by (induction es arbitrary: ss) (simp_all add: keys_score_add distinct_score_add case_prod_beta)
  from this [of "\<lambda>rank. snd rw / (k + (of_nat rank + 1))" "List.enumerate 0 (fst rw)"] show ?thesis
    by (simp add: rrf_add_ranking_def flip: set_map)
qed

lemma rrf_scores_keys:
  "fst ` set (rrf_scores rankings k) = (\<Union>rw \<in> set rankings. set (fst rw)) \<and> distinct (map fst (rrf_scores rankings k))"
proof -
  have "fst ` set (fold (rrf_add_ranking k) rankings ss) = (\<Union>rw \<in> set rankings. set (fst rw)) \<union> fst ` set ss \<and>
    (distinct (map fst ss) \<longrightarrow> distinct (map fst (fold (rrf_add_ranking k) rankings ss)))" for ss
    by (induction rankings arbitrary: ss) (auto simp: rrf_add_ranking_keys)
  from this [of "[]"] show ?thesis by (simp add: rrf_scores_def)
qed

text \<open>What the development assumes of walking a hash map: each entry once, in some order.\<close>

definition permutes :: "('a list \<Rightarrow> 'a list) \<Rightarrow> bool" where
  "permutes iter \<longleftrightarrow> (\<forall>xs. mset (iter xs) = mset xs)"

lemma permutes_set: "permutes iter \<Longrightarrow> set (iter xs) = set xs"
  unfolding permutes_def by (metis set_mset_mset)

lemma rrf_fuse_keys:
  assumes "permutes iter"
  shows "fst ` set (rrf_fuse_weighted iter rankings k n) \<subseteq> (\<Union>rw \<in> set rankings. set (fst rw))"
    and "distinct (map fst (rrf_fuse_weighted iter rankings k n))"
proof -
  let ?ss = "rrf_scores rankings k"
  have "set (rrf_fuse_weighted iter rankings k n) \<subseteq> set ?ss"
    unfolding rrf_fuse_weighted_def using permutes_set [OF assms] set_take_subset by fastforce
  then show "fst ` set (rrf_fuse_weighted iter rankings k n) \<subseteq> (\<Union>rw \<in> set rankings. set (fst rw))"
    using rrf_scores_keys [of rankings k] by auto
  have "mset (map fst (order_by_desc snd (iter ?ss))) = mset (map fst ?ss)"
    using assms by (simp add: permutes_def)
  then have "distinct (map fst (order_by_desc snd (iter ?ss)))"
    using rrf_scores_keys [of rankings k] by (metis mset_eq_imp_distinct_iff)
  then show "distinct (map fst (rrf_fuse_weighted iter rankings k n))"
    by (simp add: rrf_fuse_weighted_def distinct_take flip: take_map)
qed

subsection \<open>The map of memories found\<close>

definition held :: "(memory \<Rightarrow> bool) \<Rightarrow> (uuid \<times> memory) list \<Rightarrow> bool" where
  "held Q by_id \<longleftrightarrow> (\<forall>mid m. map_of by_id mid = Some m \<longrightarrow> Q m \<and> m_id m = mid)"

lemma held_Nil [simp]: "held Q []"
  by (simp add: held_def)

lemma held_put: "held Q by_id \<Longrightarrow> Q m \<Longrightarrow> held Q (alist_put (m_id m) m by_id)"
  by (simp add: held_def)

lemma held_fold_put: "held Q by_id \<Longrightarrow> \<forall>m \<in> set ms. Q m \<Longrightarrow>
    held Q (fold (\<lambda>m. alist_put (m_id m) m) ms by_id) \<and>
    dom (map_of (fold (\<lambda>m. alist_put (m_id m) m) ms by_id)) = m_id ` set ms \<union> dom (map_of by_id)"
  by (induction ms arbitrary: by_id) (auto simp: held_put)

lemma held_or_insert: "held Q by_id \<Longrightarrow> Q m \<Longrightarrow> held Q (or_insert m by_id)"
  "dom (map_of (or_insert m by_id)) = insert (m_id m) (dom (map_of by_id))"
  by (auto simp: or_insert_def held_put split: option.split)

lemma held_fold_or_insert: "held Q by_id \<Longrightarrow> \<forall>h \<in> set hs. Q (h_memory h) \<Longrightarrow>
    held Q (fold (\<lambda>h. or_insert (h_memory h)) hs by_id) \<and>
    dom (map_of (fold (\<lambda>h. or_insert (h_memory h)) hs by_id)) = (\<lambda>h. m_id (h_memory h)) ` set hs \<union> dom (map_of by_id)"
  by (induction hs arbitrary: by_id) (auto simp: held_or_insert)

definition graph_held :: "(memory \<Rightarrow> bool) \<Rightarrow> uuid set \<Rightarrow> uuid list \<times> (uuid \<times> memory) list \<times> uuid list \<Rightarrow> bool" where
  "graph_held Q D acc \<longleftrightarrow> (case acc of (seen, by_id, graph_ids) \<Rightarrow>
     held Q by_id \<and> D \<subseteq> dom (map_of by_id) \<and> set graph_ids \<subseteq> dom (map_of by_id))"

lemma graph_step_held:
  assumes "graph_held Q D acc"
    and "\<And>mid m. ms_get mid st = Some m \<Longrightarrow> m_state m = Active \<Longrightarrow> m_scope m = scope \<Longrightarrow> Q m"
  shows "graph_held Q D (graph_step q_terms scope st e acc)"
proof -
  obtain seen by_id gs where acc: "acc = (seen, by_id, gs)" by (cases acc)
  have put: "held Q (alist_put mid m by_id)" if "ms_get mid st = Some m" "m_state m = Active" "m_scope m = scope" for mid m
    using held_put [of Q by_id m] assms that ms_get_in [OF that(1)] by (auto simp: graph_held_def acc)
  show ?thesis
    using assms(1) put unfolding graph_step_def acc graph_held_def
    by (auto simp: Let_def split: option.split)
qed

lemma graph_fold_held:
  assumes "graph_held Q D acc"
    and "\<And>mid m. ms_get mid st = Some m \<Longrightarrow> m_state m = Active \<Longrightarrow> m_scope m = scope \<Longrightarrow> Q m"
  shows "graph_held Q D (fold (graph_step q_terms scope st) es acc)"
  using assms(1)
proof (induction es arbitrary: acc)
  case (Cons e es)
  then show ?case using graph_step_held [OF Cons.prems assms(2)] by simp
qed simp

subsection \<open>Where the hits come from\<close>

text \<open>A vector sits in the partition of its memory's scope.\<close>

definition routed :: "engine \<Rightarrow> bool" where
  "routed en \<longleftrightarrow> (\<forall>m \<in> mems (en_store en). m_state m = Active \<longrightarrow>
     (case map_of (sv_id_partition (en_vec en)) (m_id m) of None \<Rightarrow> True | Some key \<Rightarrow> key = scope_partition_key (m_scope m)))"

text \<open>What a search relies on otherwise: the primary keys hold and the vector index is well formed. Nothing is
  asked of what the full-text index names.\<close>

definition indexed_ok :: "engine \<Rightarrow> bool" where
  "indexed_ok en \<longleftrightarrow> ms_inv (en_store en) \<and> sv_inv (en_vec en)"

lemma advisory_indexed: "advisory en \<Longrightarrow> indexed_ok en"
  by (auto simp: indexed_ok_def advisory_def sva.mirrors_def)

text \<open>A memory the search may show: stored, active, under the key of the scope.\<close>

definition showable :: "engine \<Rightarrow> memory_scope \<Rightarrow> memory \<Rightarrow> bool" where
  "showable en scope m \<longleftrightarrow> ms_get (m_id m) (en_store en) = Some m \<and> m_state m = Active \<and>
    scope_partition_key (m_scope m) = scope_partition_key scope"

lemma partition_key_norm [simp]: "scope_partition_key (norm_scope s) = scope_partition_key s"
  by (simp add: scope_partition_key_def norm_scope_def)

lemma showable_scope:
  "ms_inv (en_store en) \<Longrightarrow> m \<in> mems (en_store en) \<Longrightarrow> m_state m = Active \<Longrightarrow> m_scope m = norm_scope scope \<Longrightarrow> showable en scope m"
  by (simp add: showable_def ms_get_iff)

lemma list_active_showable:
  "ms_inv (en_store en) \<Longrightarrow> m \<in> set (list_active scope n (en_store en)) \<Longrightarrow> showable en scope m"
  by (auto simp: list_active_def scope_where_iff intro: showable_scope dest!: in_set_takeD)

lemma lexical_candidates_showable:
  assumes "ms_inv (en_store en)" "m \<in> set (lexical_candidates S query scope project n en)"
  shows "showable en scope m \<and> in_project project m"
  using assms list_active_showable [OF assms(1)] set_get_active_by_ids [OF assms(1)]
  by (auto simp: lexical_candidates_def Let_def intro: showable_scope split: if_splits)

lemma vector_hits_showable:
  assumes "indexed_ok en" "routed en" "h \<in> set (vector_hits P query scope project n en)"
  shows "showable en scope (h_memory h) \<and> in_project project (h_memory h)"
proof -
  have inv: "ms_inv (en_store en)" "sv_inv (en_vec en)" using assms(1) by (auto simp: indexed_ok_def)
  obtain vector hits where hits: "memory_index_search P vector scope n en = Inr hits" "h \<in> set hits" "in_project project (h_memory h)"
    using assms(3) unfolding vector_hits_def
    by (cases "pt_embed P query"; cases "memory_index_search P (the (pt_embed P query)) scope n en") (auto split: if_splits)
  obtain rs where rs: "sv_search (pt_knn P) (scope_partition_key scope) vector n (en_vec en) = Inr rs"
    using hits(1) by (auto simp: memory_index_search_def res_bind_Inr_iff)
  then obtain r where r: "r \<in> set rs" "(case ms_get (em_id (sr_entry r)) (en_store en) of
      None \<Rightarrow> None | Some m \<Rightarrow> if m_state m = Active
        then Some \<lparr>h_memory = m, h_score = sr_score r, h_similarity = Some (sr_score r), h_lexical = None\<rparr> else None) = Some h"
    using hits(1,2) by (auto simp: memory_index_search_def)
  then obtain m where m: "ms_get (em_id (sr_entry r)) (en_store en) = Some m" "m_state m = Active" "h_memory h = m"
    by (cases "ms_get (em_id (sr_entry r)) (en_store en)") (auto split: if_splits)
  have "map_of (sv_id_partition (en_vec en)) (m_id m) = Some (scope_partition_key scope)" "m \<in> mems (en_store en)"
    using sv_search_ids [OF inv(2) rs r(1)] ms_get_in [OF m(1)] by auto
  then show ?thesis using assms(2) m ms_get_in [OF m(1)] hits(3) by (auto simp: routed_def showable_def)
qed

subsection \<open>What a search returns\<close>

lemma mset_rerank: "mset (map h_memory (rerank_hits S now query hs)) = mset (map h_memory hs)"
proof -
  have "mset (map h_memory (order_by_desc h_score (map (\<lambda>(h, rs). h\<lparr>h_score := f h rs\<rparr>) (zip hs rscores)))) =
      mset (map h_memory hs)" if "length rscores = length hs" for rscores and f :: "memory_hit \<Rightarrow> rat \<Rightarrow> rat"
  proof -
    have "map h_memory (map (\<lambda>(h, rs). h\<lparr>h_score := f h rs\<rparr>) (zip hs rscores)) = map h_memory hs"
      using that by (intro nth_equalityI) auto
    from arg_cong [OF this, of mset] show ?thesis by (simp add: multiset.map_comp)
  qed
  from this [of _ "\<lambda>h rs. rs * (1 + 1/10 * recency_of S now (h_memory h))"] show ?thesis
    unfolding rerank_hits_def by (simp split: option.split)
qed

lemma sorted_order_by_desc: "sorted_wrt (\<lambda>a b. f b \<le> f a) (order_by_desc f xs)" for f :: "'a \<Rightarrow> rat"
  using sorted_sort_key [of "\<lambda>r. - f r" xs] by (simp add: order_by_desc_def sorted_map)

lemma sorted_rerank:
  "sorted_wrt (\<lambda>a b. h_score b \<le> h_score a) hs \<Longrightarrow> sorted_wrt (\<lambda>a b. h_score b \<le> h_score a) (rerank_hits S now query hs)"
  by (auto simp: rerank_hits_def sorted_order_by_desc split: option.split)

lemma scored_hits:
  assumes "held Q by_id" "fst ` set fused \<subseteq> dom (map_of by_id)" "\<And>rrf m. h_memory (F rrf m) = m"
  shows "map (\<lambda>h. m_id (h_memory h)) (List.map_filter (\<lambda>(mid, rrf). map_option (F rrf)
      (case map_of by_id mid of Some m \<Rightarrow> Some m | None \<Rightarrow> g mid)) fused) = map fst fused \<and>
    (\<forall>h \<in> set (List.map_filter (\<lambda>(mid, rrf). map_option (F rrf)
      (case map_of by_id mid of Some m \<Rightarrow> Some m | None \<Rightarrow> g mid)) fused). Q (h_memory h))"
  using assms(2)
proof (induction fused)
  case (Cons x fused)
  obtain mid rrf where x: "x = (mid, rrf)" by (cases x)
  obtain m where m: "map_of by_id mid = Some m" using Cons.prems x by auto
  then have "Q m" "m_id m = mid" using assms(1) by (auto simp: held_def)
  then show ?case using Cons x m assms(3) by (simp add: List.map_filter_simps)
qed (simp add: List.map_filter_simps)

lemma search_arms_held:
  assumes "indexed_ok en" "routed en" "search_arms S P cfg query scope k project pool en = (by_id, rankings, ls, vs)"
  shows "held (\<lambda>m. showable en scope m \<and> (cg_graph_expansion cfg \<or> in_project project m)) by_id"
    and "(\<Union>rw \<in> set rankings. set (fst rw)) \<subseteq> dom (map_of by_id)"
proof -
  let ?Q = "\<lambda>m. showable en scope m \<and> (cg_graph_expansion cfg \<or> in_project project m)"
  define cs where "cs = lexical_candidates S query scope project (max (cg_retrieval_scan_cap cfg) k) en"
  define hs where "hs = vector_hits P query scope project (max pool (k * 4)) en"
  define by1 where "by1 = fold (\<lambda>h. or_insert (h_memory h)) hs (fold (\<lambda>m. alist_put (m_id m) m) cs [])"
  define D where "D = (\<lambda>h. m_id (h_memory h)) ` set hs \<union> m_id ` set cs"
  have inv: "ms_inv (en_store en)" using assms(1) by (simp add: indexed_ok_def)
  have "\<forall>m \<in> set cs. ?Q m" using lexical_candidates_showable [OF inv] by (auto simp: cs_def)
  from held_fold_put [OF held_Nil this]
  have cs: "held ?Q (fold (\<lambda>m. alist_put (m_id m) m) cs []) \<and> dom (map_of (fold (\<lambda>m. alist_put (m_id m) m) cs [])) = m_id ` set cs"
    by simp
  have by1: "held ?Q by1 \<and> dom (map_of by1) = D"
    unfolding by1_def D_def using held_fold_or_insert [of ?Q _ hs] cs vector_hits_showable [OF assms(1,2)]
    by (simp add: hs_def)
  obtain gs where gs: "(by_id, gs) = (if cg_graph_expansion cfg
      then snd (fold (graph_step (tokenize query) scope (en_store en))
        (list_edges (if sc_tenant_id scope = [] then ''default'' else sc_tenant_id scope) (max (cg_retrieval_scan_cap cfg) k) (en_store en))
        ([], by1, [])) else (by1, []))"
    "set rankings \<subseteq> {(map (\<lambda>h. m_id (h_memory h)) hs, cg_retrieval_vector_weight cfg),
       (map (\<lambda>(i, score). m_id (cs ! i)) (lexical_rank (sq_ln S) query cs), cg_retrieval_lexical_weight cfg),
       (gs, cg_retrieval_lexical_weight cfg)}"
    using assms(3) unfolding search_arms_def Let_def by1_def cs_def hs_def
    by (auto split: prod.splits if_split_asm)
  have graph: "held ?Q by_id \<and> D \<subseteq> dom (map_of by_id) \<and> set gs \<subseteq> dom (map_of by_id)"
  proof (cases "cg_graph_expansion cfg")
    case True
    have start: "graph_held ?Q D ([], by1, [])" using by1 by (simp add: graph_held_def)
    have Q: "?Q m" if "ms_get mid (en_store en) = Some m" "m_state m = Active" "m_scope m = scope" for mid m
      using that True ms_get_in [OF that(1)] by (auto simp: showable_def)
    define acc where "acc = fold (graph_step (tokenize query) scope (en_store en))
      (list_edges (if sc_tenant_id scope = [] then ''default'' else sc_tenant_id scope) (max (cg_retrieval_scan_cap cfg) k) (en_store en))
      ([], by1, [])"
    have "graph_held ?Q D acc" unfolding acc_def by (rule graph_fold_held [OF start]) (rule Q)
    moreover have "snd acc = (by_id, gs)" using gs(1) True by (simp add: acc_def)
    ultimately show ?thesis by (cases acc) (simp add: graph_held_def)
  qed (use gs(1) by1 in auto)
  have "i < length cs" if "(i, score) \<in> set (lexical_rank (sq_ln S) query cs)" for i score
    using that by (auto simp: lexical_rank_def Let_def split: if_splits)
  then have lex: "set (map (\<lambda>(i, score). m_id (cs ! i)) (lexical_rank (sq_ln S) query cs)) \<subseteq> D"
    by (auto simp: D_def)
  show "held ?Q by_id" using graph by blast
  have "set (fst rw) \<subseteq> dom (map_of by_id)" if "rw \<in> set rankings" for rw
  proof -
    have "set (map (\<lambda>h. m_id (h_memory h)) hs) \<subseteq> D" by (auto simp: D_def)
    moreover have "fst rw = map (\<lambda>h. m_id (h_memory h)) hs \<or>
        fst rw = map (\<lambda>(i, score). m_id (cs ! i)) (lexical_rank (sq_ln S) query cs) \<or> fst rw = gs"
      using subsetD [OF gs(2) that] by auto
    ultimately have "set (fst rw) \<subseteq> D \<or> fst rw = gs" using lex by metis
    then show ?thesis using graph by blast
  qed
  then show "(\<Union>rw \<in> set rankings. set (fst rw)) \<subseteq> dom (map_of by_id)" by blast
qed

lemma distinct_list_active:
  assumes "ms_inv st"
  shows "distinct (map m_id (list_active scope n st))"
proof -
  let ?all = "order_by_desc m_importance (order_by_desc m_valid_from (ms_select (\<lambda>m. scope_where scope m \<and> m_state m = Active) st))"
  have "distinct (map mr_memory (st_memories st))" 
    using distinct_mems [OF assms] unfolding distinct_map [of m_id] by (rule conjunct1)
  then have "distinct ?all" by (simp add: ms_select_def)
  moreover have "inj_on m_id (set ?all)" using ms_inv_inj [OF assms] by (auto simp: inj_on_def)
  ultimately show ?thesis by (simp add: list_active_def distinct_map distinct_take inj_on_subset [OF _ set_take_subset])
qed

lemma search_matched:
  assumes "indexed_ok en" "routed en" "permutes (sq_iter S)" "str_trim query \<noteq> []" "k \<noteq> 0"
    and "memory_search_inner S P cfg now query scope k project min_similarity en = (hits, True)"
  shows "(\<forall>h \<in> set hits. showable en scope (h_memory h) \<and> (cg_graph_expansion cfg \<or> in_project project (h_memory h))) \<and>
    distinct (map (\<lambda>h. m_id (h_memory h)) hits) \<and> length hits \<le> k \<and> sorted_wrt (\<lambda>a b. h_score b \<le> h_score a) hits"
proof -
  let ?Q = "\<lambda>m. showable en scope m \<and> (cg_graph_expansion cfg \<or> in_project project m)"
  define pool where "pool = (case sq_rerank S of Some _ \<Rightarrow> max (cg_rerank_candidates cfg) (cg_retrieval_pool cfg)
    | None \<Rightarrow> max (cg_retrieval_pool cfg) k)"
  obtain by_id rankings ls vs where arms: "search_arms S P cfg query scope k project pool en = (by_id, rankings, ls, vs)"
    by (cases "search_arms S P cfg query scope k project pool en") auto
  define fused where "fused = rrf_fuse_weighted (sq_iter S) rankings memory_rrf_k pool"
  define scored where "scored = List.map_filter (\<lambda>(mid, rrf). map_option (fused_hit S cfg now ls vs rrf)
    (case map_of by_id mid of Some m \<Rightarrow> Some m | None \<Rightarrow> ms_get mid (en_store en))) fused"
  define kept where "kept = (case min_similarity of None \<Rightarrow> scored
    | Some threshold \<Rightarrow> filter (\<lambda>h. case h_similarity h of None \<Rightarrow> True | Some s \<Rightarrow> threshold \<le> s) scored)"
  obtain F where F: "kept = filter F scored"
  proof (cases min_similarity)
    case None
    show ?thesis by (rule that [of "\<lambda>_. True"]) (simp add: kept_def None)
  next
    case (Some threshold)
    show ?thesis by (rule that) (simp add: kept_def Some)
  qed
  have "memory_search_inner S P cfg now query scope k project min_similarity en =
    (if rankings = [] then (map plain_hit (filter (in_project project) (list_active scope k (en_store en))), False)
     else (take k (rerank_hits S now query (order_by_desc h_score kept)), True))"
    using assms(4,5) arms unfolding memory_search_inner_def kept_def scored_def fused_def pool_def Let_def by simp
  then have hits: "hits = take k (rerank_hits S now query (order_by_desc h_score (filter F scored)))"
    using assms(6) F by (simp split: if_splits)
  have "fst ` set fused \<subseteq> dom (map_of by_id)"
    unfolding fused_def by (rule order_trans [OF rrf_fuse_keys(1) [OF assms(3)] search_arms_held(2) [OF assms(1,2) arms]])
  from scored_hits [OF search_arms_held(1) [OF assms(1,2) arms] this, of "fused_hit S cfg now ls vs" "\<lambda>mid. ms_get mid (en_store en)"]
  have scored: "map (\<lambda>h. m_id (h_memory h)) scored = map fst fused" "\<forall>h \<in> set scored. ?Q (h_memory h)"
    by (simp_all add: scored_def fused_hit_def)
  let ?r = "rerank_hits S now query (order_by_desc h_score (filter F scored))"
  have perm: "mset (map h_memory ?r) = mset (map h_memory (filter F scored))"
    unfolding mset_rerank by simp
  have "?Q (h_memory h)" if "h \<in> set ?r" for h
  proof -
    have "h_memory h \<in> set (map h_memory ?r)" using that by simp
    then have "h_memory h \<in> set (map h_memory (filter F scored))" using mset_eq_setD [OF perm] by simp
    then show ?thesis using scored(2) by auto
  qed
  then have Q: "\<forall>h \<in> set ?r. ?Q (h_memory h)" by blast
  have "distinct (map fst fused)" unfolding fused_def by (rule rrf_fuse_keys(2) [OF assms(3)])
  then have "distinct (map m_id (map h_memory (filter F scored)))"
    using scored(1) distinct_map_filter [of "\<lambda>h. m_id (h_memory h)" scored F] by (simp add: comp_def)
  moreover from arg_cong [OF perm, of "image_mset m_id"] have "mset (map m_id (map h_memory ?r)) = mset (map m_id (map h_memory (filter F scored)))"
    by (simp add: multiset.map_comp)
  ultimately have "distinct (map (\<lambda>h. m_id (h_memory h)) ?r)" using mset_eq_imp_distinct_iff by (fastforce simp: comp_def)
  moreover have "sorted_wrt (\<lambda>a b. h_score b \<le> h_score a) ?r" by (rule sorted_rerank [OF sorted_order_by_desc])
  ultimately show ?thesis unfolding hits using Q
    by (auto simp: sorted_wrt_take distinct_take simp flip: take_map dest: in_set_takeD)
qed

lemma search_shows:
  assumes "indexed_ok en" "routed en" "permutes (sq_iter S)"
    and "memory_search_inner S P cfg now query scope k project min_similarity en = (hits, matched)"
  shows "(\<forall>h \<in> set hits. showable en scope (h_memory h)) \<and>
    (str_trim query \<noteq> [] \<and> k \<noteq> 0 \<and> \<not> cg_graph_expansion cfg \<longrightarrow> (\<forall>h \<in> set hits. in_project project (h_memory h))) \<and>
    distinct (map (\<lambda>h. m_id (h_memory h)) hits) \<and> length hits \<le> max k 1 \<and>
    (matched \<longrightarrow> sorted_wrt (\<lambda>a b. h_score b \<le> h_score a) hits)"
proof (cases matched)
  case True
  then have inner: "memory_search_inner S P cfg now query scope k project min_similarity en = (hits, True)" using assms(4) by simp
  have q: "str_trim query \<noteq> []" "k \<noteq> 0" using inner unfolding memory_search_inner_def by (metis prod.inject)+
  from search_matched [OF assms(1-3) q inner] True show ?thesis by auto
next
  case False
  have inv: "ms_inv (en_store en)" using assms(1) by (simp add: indexed_ok_def)
  obtain n where hits: "hits = map plain_hit (list_active scope n (en_store en)) \<and> (str_trim query = [] \<or> k = 0) \<and> n \<le> max k 1 \<or>
      hits = map plain_hit (filter (in_project project) (list_active scope n (en_store en))) \<and> n \<le> max k 1"
    using assms(4) False by (auto simp: memory_search_inner_def Let_def split: if_splits prod.splits)
  have len: "length (list_active scope n (en_store en)) \<le> max n 1" and dist: "distinct (map m_id (list_active scope n (en_store en)))"
    using distinct_list_active [OF inv] by (auto simp: list_active_def clamp_limit_def)
  show ?thesis using hits
  proof
    assume h: "hits = map plain_hit (list_active scope n (en_store en)) \<and> (str_trim query = [] \<or> k = 0) \<and> n \<le> max k 1"
    then show ?thesis using False len dist list_active_showable [OF inv] by (auto simp: plain_hit_def comp_def)
  next
    assume h: "hits = map plain_hit (filter (in_project project) (list_active scope n (en_store en))) \<and> n \<le> max k 1"
    have "distinct (map m_id (filter (in_project project) (list_active scope n (en_store en))))"
      by (rule distinct_map_filter [OF dist])
    then show ?thesis using h False len list_active_showable [OF inv] 
      by (auto simp: plain_hit_def comp_def intro: order_trans [OF length_filter_le])
  qed
qed


subsection \<open>Writes keep vectors in their partition\<close>

lemma sv_upsert_partition:
  "map_of (sv_id_partition (snd (sv_upsert key e sv))) u = Some key' \<Longrightarrow>
    u = se_id e \<and> key' = key \<or> map_of (sv_id_partition sv) u = Some key'"
  by (auto simp: sv_upsert_def Let_def split: option.splits sum.splits if_splits)

lemma sv_delete_partition: "map_of (sv_id_partition (sv_delete u' sv)) u = Some key \<Longrightarrow> map_of (sv_id_partition sv) u = Some key"
  by (auto simp: sv_delete_def split: option.splits if_splits)

lemma index_row_partition:
  assumes "map_of (sv_id_partition (sva.index_row r sv)) u = Some key"
  shows "u = row_id r \<and> key = scope_partition_key (m_scope (mr_memory r)) \<or> map_of (sv_id_partition sv) u = Some key"
proof (cases "m_state (mr_memory r) = Active \<and> mr_embedding r \<noteq> None")
  case True
  then obtain emb where "mr_embedding r = Some emb" by blast
  with assms True show ?thesis
    using sv_upsert_partition [of "scope_partition_key (m_scope (mr_memory r))" "to_semantic_entry (mr_memory r) emb" sv u key]
    by (auto simp: sva.index_row_def sv_index_row_def)
next
  case False
  then show ?thesis using assms sv_delete_partition [of "row_id r" sv u key]
    by (auto simp: sva.index_row_def sv_index_row_def split: if_splits)
qed

lemma routedD:
  "routed en \<Longrightarrow> m \<in> mems (en_store en) \<Longrightarrow> m_state m = Active \<Longrightarrow> map_of (sv_id_partition (en_vec en)) (m_id m) = Some key \<Longrightarrow>
    key = scope_partition_key (m_scope m)"
  by (force simp: routed_def split: option.splits)

lemma routedI:
  "(\<And>m key. m \<in> mems (en_store en) \<Longrightarrow> m_state m = Active \<Longrightarrow> map_of (sv_id_partition (en_vec en)) (m_id m) = Some key \<Longrightarrow>
    key = scope_partition_key (m_scope m)) \<Longrightarrow> routed en"
  by (simp add: routed_def split: option.split)

lemma indexed_active:
  assumes "advisory en" "map_of (sv_id_partition (en_vec en)) u = Some key"
  obtains m where "m \<in> mems (en_store en)" "m_id m = u" "m_state m = Active"
proof -
  have "u \<in> sv_ids (en_vec en)" using assms(2) by (auto simp: sv_ids_def)
  then have "u \<in> active_ids (st_memories (en_store en))" using assms(1) by (auto simp: advisory_def sva.mirrors_def)
  then show thesis using that by (auto simp: active_ids_def mems_def)
qed

lemma mems_apply_row:
  "ms_inv (en_store en) \<Longrightarrow> mems (en_store (apply_row P cfg r en)) = insert (mr_memory r) {x \<in> mems (en_store en). m_id x \<noteq> row_id r}"
  using mems_put_row [of "en_store en" r] by (simp add: apply_row_store mems_def)

lemma routed_apply_row:
  assumes "advisory en" "routed en" "\<And>m. m \<in> mems (en_store en) \<Longrightarrow> m_id m = row_id r \<Longrightarrow> m_scope m = m_scope (mr_memory r)"
  shows "routed (apply_row P cfg r en)"
proof (rule routedI)
  fix m key
  have inv: "ms_inv (en_store en)" using assms(1) by (simp add: advisory_def)
  assume m: "m \<in> mems (en_store (apply_row P cfg r en))" "m_state m = Active"
    and "map_of (sv_id_partition (en_vec (apply_row P cfg r en))) (m_id m) = Some key"
  then consider "m_id m = row_id r" "key = scope_partition_key (m_scope (mr_memory r))"
    | "map_of (sv_id_partition (en_vec en)) (m_id m) = Some key"
    using index_row_partition unfolding apply_row_vec by blast
  then show "key = scope_partition_key (m_scope m)"
  proof cases
    case 1
    then show ?thesis using m(1) by (auto simp: mems_apply_row [OF inv])
  next
    case 2
    then obtain old where old: "old \<in> mems (en_store en)" "m_id old = m_id m" "m_state old = Active"
      by (rule indexed_active [OF assms(1)])
    then have "key = scope_partition_key (m_scope old)" using routedD [OF assms(2), of old key] 2 by simp
    moreover have "m_scope old = m_scope m"
      using m(1) old assms(3) [of old] ms_inv_inj [OF inv, of old m] by (auto simp: mems_apply_row [OF inv])
    ultimately show ?thesis by simp
  qed
qed

lemma routed_fold_apply:
  assumes "advisory en" "routed en" "distinct (map row_id rows)"
    and "\<And>r m. r \<in> set rows \<Longrightarrow> m \<in> mems (en_store en) \<Longrightarrow> m_id m = row_id r \<Longrightarrow> m_scope m = m_scope (mr_memory r)"
  shows "routed (fold (apply_row P cfg) rows en)"
  using assms
proof (induction rows arbitrary: en)
  case (Cons r rows)
  have inv: "ms_inv (en_store en)" using Cons.prems(1) by (simp add: advisory_def)
  have scopes: "m_scope m = m_scope (mr_memory r')"
    if "r' \<in> set rows" "m \<in> mems (en_store (apply_row P cfg r en))" "m_id m = row_id r'" for r' m
  proof -
    have "row_id r' \<noteq> row_id r" using Cons.prems(3) that(1) by (auto simp: image_iff)
    then have "m \<in> mems (en_store en)" using that(2,3) unfolding mems_apply_row [OF inv] by fastforce
    then show ?thesis using Cons.prems(4) [of r' m] that(1,3) by simp
  qed
  have "routed (apply_row P cfg r en)" by (rule routed_apply_row [OF Cons.prems(1,2)]) (rule Cons.prems(4) [OF list.set_intros(1)])
  moreover have "distinct (map row_id rows)" using Cons.prems(3) by simp
  ultimately have "routed (fold (apply_row P cfg) rows (apply_row P cfg r en))"
    by (rule Cons.IH [OF advisory_apply_row [OF Cons.prems(1)]]) (rule scopes)
  then show ?case by simp
qed simp

lemma plan_keeps_scope:
  assumes plan: "memory_plan_with_embedding P cfg tk input emb en = Inr (res, rows)"
    and inv: "ms_inv (en_store en)" and fresh: "tk_id tk \<notin> store_ids (en_store en)"
    and r: "r \<in> set rows" and m: "m \<in> mems (en_store en)" "m_id m = row_id r"
  shows "m_scope m = m_scope (mr_memory r)"
proof -
  let ?st = "en_store (fold (apply_row P cfg) rows en)"
  obtain g news where g: "st_memories ?st = map g (st_memories (en_store en)) @ news"
    "\<And>x. x \<in> set (st_memories (en_store en)) \<Longrightarrow> evolves (m_valid_from (ma_memory res)) (mr_memory x) (mr_memory (g x))"
    by (rule plan_shape [OF plan inv fresh]) blast
  obtain x where x: "x \<in> set (st_memories (en_store en))" "mr_memory x = m" using m(1) by (auto simp: mems_def)
  then have "mr_memory (g x) \<in> mems ?st" using g(1) by (auto simp: mems_def)
  moreover have "mr_memory r \<in> mems ?st" using memory_add_store [OF plan inv fresh] r by auto
  moreover have "m_id (mr_memory (g x)) = m_id (mr_memory r)" "m_scope (mr_memory (g x)) = m_scope m"
    using g(2) [OF x(1)] x(2) m(2) by (auto simp: evolves_def)
  ultimately show ?thesis using ms_inv_inj [OF ms_inv_fold_apply [OF inv]] by metis
qed

lemma forget_partition:
  "map_of (sv_id_partition (fold sv_delete us sv)) u = Some key \<Longrightarrow> map_of (sv_id_partition sv) u = Some key"
  by (induction us arbitrary: sv) (auto dest: sv_delete_partition)

text \<open>A write keeps every vector in the partition of its memory's scope.\<close>

lemma routed_memory_add:
  assumes "advisory en" "routed en" "tk_id tk \<notin> store_ids (en_store en)"
    and "memory_add P cfg tk input en = Inr (res, en')"
  shows "routed en'"
proof -
  obtain rows where rows: "memory_plan_with_embedding P cfg tk input (pt_embed P (i_content input)) en = Inr (res, rows)"
    and en': "en' = enforce_cap (m_scope (ma_memory res)) (cg_max_memories_per_scope cfg) (fold (apply_row P cfg) rows en)"
    using assms(4) by (rule memory_addE)
  have inv: "ms_inv (en_store en)" using assms(1) by (simp add: advisory_def)
  let ?en = "fold (apply_row P cfg) rows en"
  have routed: "routed ?en"
    by (rule routed_fold_apply [OF assms(1,2) plan_rows(1) [OF rows inv assms(3)] plan_keeps_scope [OF rows inv assms(3)]])
  show ?thesis
  proof (rule routedI)
    fix m key
    assume "m \<in> mems (en_store en')" "m_state m = Active" "map_of (sv_id_partition (en_vec en')) (m_id m) = Some key"
    moreover from this(3) have "map_of (sv_id_partition (en_vec ?en)) (m_id m) = Some key"
      unfolding en' enforce_cap_def by (auto split: if_splits prod.splits dest: forget_partition)
    ultimately show "key = scope_partition_key (m_scope m)"
      using routedD [OF routed] enforce_cap_mems unfolding en' by blast
  qed
qed

subsection \<open>Shared search\<close>

definition grantor_scope :: "memory_scope \<Rightarrow> string \<Rightarrow> memory_scope" where
  "grantor_scope scope grantor =
    \<lparr>sc_tenant_id = sc_tenant_id scope, sc_user_id = Some grantor, sc_agent_id = None, sc_session_id = None\<rparr>"

lemma best_hits:
  assumes "\<forall>h \<in> set hs. Q (h_memory h)" "\<forall>(u, h) \<in> set best. Q (h_memory h) \<and> m_id (h_memory h) = u" "distinct (map fst best)"
  shows "(\<forall>(u, h) \<in> set (fold best_hit hs best). Q (h_memory h) \<and> m_id (h_memory h) = u) \<and> distinct (map fst (fold best_hit hs best))"
  using assms
proof (induction hs arbitrary: best)
  case (Cons h hs)
  have in_best: "Q (h_memory e) \<and> m_id (h_memory e) = u" if "map_of best u = Some e" for u e
    using Cons.prems(2) map_of_SomeD [OF that] by auto
  have "Q (h_memory x) \<and> m_id (h_memory x) = u" if "(u, x) \<in> set (best_hit h best)" for u x
  proof (cases "map_of best (m_id (h_memory h))")
    case None
    then show ?thesis using that Cons.prems(1,2) by (auto simp: best_hit_def dest!: in_alist_put)
  next
    case (Some e)
    then show ?thesis using that Cons.prems(2) in_best [OF Some]
      by (auto simp: best_hit_def split: if_splits dest!: in_alist_put)
  qed
  then have "\<forall>(u, h) \<in> set (best_hit h best). Q (h_memory h) \<and> m_id (h_memory h) = u" by blast
  moreover have "distinct (map fst (best_hit h best))"
    using Cons.prems(3) keys_alist_put(2) by (auto simp: best_hit_def split: option.split)
  ultimately show ?case using Cons.IH [of "best_hit h best"] Cons.prems(1) by simp
qed simp

lemma memory_search_hits:
  assumes "indexed_ok en" "routed en" "permutes (sq_iter S)" "h \<in> set (memory_search S P cfg now query scope k en)"
  shows "showable en scope (h_memory h)"
proof -
  obtain hits matched where inner: "memory_search_inner S P cfg now query scope k None None en = (hits, matched)" by fastforce
  then have "h \<in> set hits"
    using assms(4) by (simp add: memory_search_def memory_search_in_project_def memory_search_filtered_def)
  then show ?thesis using search_shows [OF assms(1-3) inner] by blast
qed

lemma shared_hits:
  assumes "indexed_ok en" "routed en" "permutes (sq_iter S)" "permutes (sq_values S)"
    and "sc_user_id scope = Some grantee"
  shows "(\<forall>h \<in> set (memory_search_shared S P cfg now query scope k en).
      showable en scope (h_memory h) \<or>
      (\<exists>g \<in> set (st_grants (en_store en)). g_tenant g = sc_tenant_id (norm_scope scope) \<and> g_grantee_user_id g = grantee \<and>
         showable en (grantor_scope scope (g_grantor_user_id g)) (h_memory h))) \<and>
    distinct (map (\<lambda>h. m_id (h_memory h)) (memory_search_shared S P cfg now query scope k en)) \<and>
    length (memory_search_shared S P cfg now query scope k en) \<le> k"
proof -
  let ?t = "if sc_tenant_id scope = [] then ''default'' else sc_tenant_id scope"
  let ?Q = "\<lambda>m. showable en scope m \<or> (\<exists>g \<in> set (st_grants (en_store en)). g_tenant g = sc_tenant_id (norm_scope scope) \<and>
    g_grantee_user_id g = grantee \<and> showable en (grantor_scope scope (g_grantor_user_id g)) m)"
  define all where "all = memory_search S P cfg now query scope k en @
    concat (map (\<lambda>grantor. memory_search S P cfg now query (grantor_scope scope grantor) k en)
      (granted_read_scopes ?t grantee (en_store en)))"
  define best where "best = fold best_hit all []"
  have "?Q (h_memory h)" if "h \<in> set all" for h
    using that memory_search_hits [OF assms(1-3)] unfolding all_def
    by (fastforce simp: granted_read_scopes_def list_grants_def norm_scope_def)
  then have best: "\<forall>(u, h) \<in> set best. ?Q (h_memory h) \<and> m_id (h_memory h) = u" "distinct (map fst best)"
    using best_hits [of all ?Q "[]"] by (auto simp: best_def)
  let ?vs = "map snd (sq_values S best)"
  have shared: "memory_search_shared S P cfg now query scope k en = take k (order_by_desc h_score ?vs)"
    by (simp add: memory_search_shared_def assms(5) Let_def best_def all_def grantor_scope_def)
  have vs: "set (sq_values S best) = set best" by (rule permutes_set [OF assms(4)])
  have keys: "map (\<lambda>h. m_id (h_memory h)) ?vs = map fst (sq_values S best)" using best(1) vs by auto
  have "mset (map fst (sq_values S best)) = mset (map fst best)" using assms(4) by (simp add: permutes_def)
  then have "distinct (map (\<lambda>h. m_id (h_memory h)) ?vs)" unfolding keys using best(2) mset_eq_imp_distinct_iff by blast
  moreover from arg_cong [OF mset_order_by_desc [of h_score ?vs], of "image_mset (\<lambda>h. m_id (h_memory h))"]
  have "mset (map (\<lambda>h. m_id (h_memory h)) (order_by_desc h_score ?vs)) = mset (map (\<lambda>h. m_id (h_memory h)) ?vs)"
    by (simp add: multiset.map_comp)
  ultimately have "distinct (map (\<lambda>h. m_id (h_memory h)) (order_by_desc h_score ?vs))" using mset_eq_imp_distinct_iff by blast
  then have dist: "distinct (map (\<lambda>h. m_id (h_memory h)) (memory_search_shared S P cfg now query scope k en))"
    unfolding shared by (simp add: distinct_take flip: take_map)
  have "?Q (h_memory h)" if "h \<in> set (memory_search_shared S P cfg now query scope k en)" for h
  proof -
    have "h \<in> snd ` set best" using that vs unfolding shared by (auto dest!: in_set_takeD)
    then obtain u where "(u, h) \<in> set best" by force
    with best(1) show ?thesis by blast
  qed
  with dist show ?thesis unfolding shared by auto
qed

text \<open>C16: sharing widens a search only to the grantors' partitions. With every vector in the partition of its
  memory, whatever the full-text index names, every hit of a shared search of a user is an active memory in the
  partition of the caller's own scope or in the partition of a user who granted the caller access within
  the caller's tenant; no memory is listed twice, also when several partitions show it, and at most \<open>k\<close>
  are listed. A partition is what the search compares, not the scope: an absent and an empty user or
  agent share one, so a memory stored without a user can be shown to a search in the scope of the empty
  user.\<close>

theorem memory_search_shared_granted:
  assumes "indexed_ok en" "routed en" "permutes (sq_iter S)" "permutes (sq_values S)"
    and "sc_user_id scope = Some grantee"
  shows "(\<forall>h \<in> set (memory_search_shared S P cfg now query scope k en).
      showable en scope (h_memory h) \<or>
      (\<exists>g \<in> set (st_grants (en_store en)). g_tenant g = sc_tenant_id (norm_scope scope) \<and> g_grantee_user_id g = grantee \<and>
         showable en (grantor_scope scope (g_grantor_user_id g)) (h_memory h))) \<and>
    distinct (map (\<lambda>h. m_id (h_memory h)) (memory_search_shared S P cfg now query scope k en)) \<and>
    length (memory_search_shared S P cfg now query scope k en) \<le> k"
  by (rule shared_hits [OF assms])

subsection \<open>A small instance\<close>

definition search_demo_ports :: ports where
  "search_demo_ports = demo_ports\<lparr>pt_embed := (\<lambda>_. Some [1, 0]), pt_knn := (\<lambda>ix _ k. take k (map (\<lambda>(key, _). (key, 1/4)) ix))\<rparr>"

definition search_demo :: search_ports where
  "search_demo = \<lparr>sq_ln = (\<lambda>x. x), sq_fts5 = (\<lambda>_ rows. map (\<lambda>r. (ft_rowid r, 1)) rows), sq_lex_ok = True, sq_iter = rev,
    sq_values = rev, sq_half = (\<lambda>_. 1), sq_rerank = None\<rparr>"

definition search_demo_cfg :: search_config where
  "search_demo_cfg = cognition_config.extend demo_cfg
    \<lparr>cg_retrieval_scan_cap = 10, cg_retrieval_pool = 10, cg_graph_expansion = False, cg_retrieval_importance_weight = 0,
     cg_retrieval_recency_weight = 0, cg_retrieval_vector_weight = 1, cg_retrieval_lexical_weight = 1, cg_rerank_candidates = 10\<rparr>"

definition acme_user :: "string \<Rightarrow> memory_scope" where
  "acme_user u = (tenant_scope ''acme'')\<lparr>sc_user_id := Some u\<rparr>"

definition search_demo_start :: engine where
  "search_demo_start = demo_engine\<lparr>en_store := snd (add_grant 9 0 ''acme'' ''bob'' ''alice'' (en_store demo_engine))\<rparr>"

definition search_demo_input :: memory_input where
  "search_demo_input = (demo_input ''plan'' ''free plan'')\<lparr>i_scope := acme_user ''alice''\<rparr>"

definition search_demo_engine :: engine where
  "search_demo_engine = snd (projr (memory_add search_demo_ports demo_cfg (demo_tick 1) search_demo_input search_demo_start))"

lemma search_demo_ok: "advisory search_demo_engine" "routed search_demo_engine" "permutes (sq_iter search_demo)" "permutes (sq_values search_demo)"
proof -
  have "advisory demo_engine" using advisory_new [of 2] by (simp add: demo_engine_def)
  moreover have "ms_inv (en_store search_demo_start)" by code_simp
  moreover have "st_memories (en_store search_demo_start) = st_memories (en_store demo_engine)" by code_simp
  ultimately have start: "advisory search_demo_start" "routed search_demo_start"
    using advisory_store [of demo_engine "en_store search_demo_start"]
    by (simp_all add: search_demo_start_def routed_def mems_def demo_engine_def ms_new_def)
  have fresh: "tk_id (demo_tick 1) \<notin> store_ids (en_store search_demo_start)" by code_simp
  have "\<not> isl (memory_add search_demo_ports demo_cfg (demo_tick 1) search_demo_input search_demo_start)" by code_simp
  then obtain res where add: "memory_add search_demo_ports demo_cfg (demo_tick 1) search_demo_input search_demo_start =
      Inr (res, search_demo_engine)"
    unfolding search_demo_engine_def by (metis prod.collapse sum.collapse(2))
  show "advisory search_demo_engine" by (rule advisory_memory_add [OF start(1) add])
  show "routed search_demo_engine" by (rule routed_memory_add [OF start fresh add])
qed (simp_all add: search_demo_def permutes_def)


theorem memory_search_shared_granted_witness:
  "let hits = memory_search_shared search_demo search_demo_ports search_demo_cfg 20 ''plan'' (acme_user ''bob'') 3 search_demo_engine
   in map (\<lambda>h. sc_user_id (m_scope (h_memory h))) hits = [Some ''alice''] \<and> length hits \<le> 3 \<and>
     distinct (map (\<lambda>h. m_id (h_memory h)) hits)"
proof -
  have "map (\<lambda>h. sc_user_id (m_scope (h_memory h))) (memory_search_shared search_demo search_demo_ports search_demo_cfg 20 ''plan''
      (acme_user ''bob'') 3 search_demo_engine) = [Some ''alice'']" by code_simp
  moreover have "sc_user_id (acme_user ''bob'') = Some ''bob''" by (simp add: acme_user_def)
  ultimately show ?thesis
    using memory_search_shared_granted [OF advisory_indexed [OF search_demo_ok(1)] search_demo_ok(2-4), of "acme_user ''bob''" "''bob''" search_demo_ports search_demo_cfg 20 "''plan''" 3]
    by (simp add: Let_def)
qed

end
