(* ===== verification/Workflow_Order.thy ===== *)
theory Workflow_Order
  imports Ecphoria_Prelude
begin

text \<open>
  The execution order of a workflow, \<open>topo_order\<close> of
  \<open>src/crates/ecphoria-core/src/engine/agentic.rs\<close>: Kahn's algorithm over node indices. The queue
  vector and its read position are the pending part of the queue; the part already read is the order
  itself. The two ways the loop could stop with a panic, an index out of range and a counter below
  zero, are the value \<open>None\<close> of \<open>release\<close> and \<open>kahn\<close>; the main theorem shows that they never happen.
\<close>

record workflow_node =
  wn_id :: string
  wn_agent_id :: string
  wn_question :: string
  wn_deps :: "string list"

definition node_index :: "workflow_node list \<Rightarrow> (string \<times> nat) list" where
  "node_index nodes = fold (\<lambda>(i, n). alist_put (wn_id n) i) (enumerate 0 nodes) []"

fun link_deps :: "(string \<times> nat) list \<Rightarrow> nat \<Rightarrow> string list \<Rightarrow> nat list list \<times> nat list \<Rightarrow> (nat list list \<times> nat list) option" where
  "link_deps ix i [] g = Some g"
| "link_deps ix i (d # ds) (adj, indeg) =
    (case map_of ix d of
       None \<Rightarrow> None
     | Some j \<Rightarrow> link_deps ix i ds (adj[j := adj ! j @ [i]], indeg[i := indeg ! i + 1]))"

fun link_nodes ::
  "(string \<times> nat) list \<Rightarrow> (nat \<times> workflow_node) list \<Rightarrow> nat list list \<times> nat list \<Rightarrow> (nat list list \<times> nat list) option" where
  "link_nodes ix [] g = Some g"
| "link_nodes ix ((i, n) # ns) g =
    (case link_deps ix i (wn_deps n) g of None \<Rightarrow> None | Some g' \<Rightarrow> link_nodes ix ns g')"

fun release :: "nat list \<Rightarrow> nat list \<Rightarrow> (nat list \<times> nat list) option" where
  "release [] indeg = Some (indeg, [])"
| "release (k # ks) indeg =
    (if length indeg \<le> k \<or> indeg ! k = 0 then None
     else let indeg' = indeg[k := indeg ! k - 1]
          in case release ks indeg' of
               None \<Rightarrow> None
             | Some (g, newly) \<Rightarrow> Some (g, if indeg' ! k = 0 then k # newly else newly))"

lemma sum_list_decr: "k < length xs \<Longrightarrow> 0 < xs ! k \<Longrightarrow> Suc (sum_list (xs[k := xs ! k - Suc 0])) = sum_list (xs :: nat list)"
proof (induction xs arbitrary: k)
  case (Cons x xs)
  then show ?case by (cases k) auto
qed simp

lemma release_sum: "release ks indeg = Some (g, newly) \<Longrightarrow> sum_list g + length newly \<le> sum_list indeg"
proof (induction ks arbitrary: indeg newly)
  case (Cons k ks)
  then show ?case using sum_list_decr [of k indeg]
    by (fastforce simp: Let_def split: if_splits option.splits)
qed simp

function kahn :: "nat list list \<Rightarrow> nat list \<Rightarrow> nat list \<Rightarrow> nat list \<Rightarrow> nat list option" where
  "kahn adj indeg [] order = Some order"
| "kahn adj indeg (i # queue) order =
    (case release (adj ! i) indeg of
       None \<Rightarrow> None
     | Some (indeg', newly) \<Rightarrow> kahn adj indeg' (queue @ sort newly) (order @ [i]))"
  by pat_completeness auto
termination
  by (relation "measure (\<lambda>(adj, indeg, queue, order). sum_list indeg + length queue)")
    (auto dest: release_sum)

text \<open>The outer \<open>None\<close> is a panic, the inner one the answer that there is no order.\<close>

definition topo_order :: "workflow_node list \<Rightarrow> nat list option option" where
  "topo_order nodes =
    (let n = length nodes
     in case link_nodes (node_index nodes) (enumerate 0 nodes) (replicate n [], replicate n 0) of
          None \<Rightarrow> Some None
        | Some (adj, indeg) \<Rightarrow>
            (case kahn adj indeg (filter (\<lambda>i. indeg ! i = 0) [0..<n]) [] of
               None \<Rightarrow> None
             | Some order \<Rightarrow> Some (if length order = n then Some order else None)))"

subsection \<open>The dependency graph\<close>

text \<open>The dependencies of node \<open>i\<close> as indices, one entry per listed name.\<close>

definition known_deps :: "workflow_node list \<Rightarrow> bool" where
  "known_deps nodes \<longleftrightarrow> (\<forall>n \<in> set nodes. \<forall>d \<in> set (wn_deps n). d \<in> wn_id ` set nodes)"

definition dep_indices :: "workflow_node list \<Rightarrow> nat \<Rightarrow> nat list" where
  "dep_indices nodes i = map (\<lambda>d. the (map_of (node_index nodes) d)) (wn_deps (nodes ! i))"

definition dep_edges :: "workflow_node list \<Rightarrow> (nat \<times> nat) set" where
  "dep_edges nodes = {(j, i). i < length nodes \<and> j \<in> set (dep_indices nodes i)}"

lemma fold_index:
  "map_of (fold (\<lambda>(i, n). alist_put (wn_id n) i) ns []) d = None \<longleftrightarrow> d \<notin> (\<lambda>(i, n). wn_id n) ` set ns"
  "map_of (fold (\<lambda>(i, n). alist_put (wn_id n) i) ns []) d = Some j \<Longrightarrow> \<exists>n. (j, n) \<in> set ns \<and> wn_id n = d"
  by (induction ns rule: rev_induct) (auto split: if_splits)

lemma node_index_None: "map_of (node_index nodes) d = None \<longleftrightarrow> d \<notin> wn_id ` set nodes"
proof -
  have "(\<lambda>(i, n). wn_id n) ` set (enumerate 0 nodes) = wn_id ` snd ` set (enumerate 0 nodes)"
    by (simp add: image_image case_prod_beta)
  also have "snd ` set (enumerate 0 nodes) = set nodes" by (simp add: enumerate_eq_zip flip: set_map)
  finally show ?thesis unfolding node_index_def fold_index(1) by simp
qed

lemma node_index_Some: "map_of (node_index nodes) d = Some j \<Longrightarrow> j < length nodes \<and> wn_id (nodes ! j) = d"
  unfolding node_index_def by (auto dest!: fold_index(2) simp: in_set_enumerate_eq)

lemma known_dep:
  assumes "known_deps nodes" "i < length nodes" "d \<in> set (wn_deps (nodes ! i))"
  obtains j where "map_of (node_index nodes) d = Some j" "j < length nodes"
proof -
  have "d \<in> wn_id ` set nodes" using assms nth_mem [of i nodes] unfolding known_deps_def by blast
  then obtain j where "map_of (node_index nodes) d = Some j" using node_index_None by blast
  with node_index_Some that show thesis by blast
qed

lemma dep_indices_lt:
  assumes "known_deps nodes" "i < length nodes" "j \<in> set (dep_indices nodes i)"
  shows "j < length nodes"
proof -
  obtain d where d: "d \<in> set (wn_deps (nodes ! i))" "j = the (map_of (node_index nodes) d)"
    using assms(3) unfolding dep_indices_def by auto
  show ?thesis using known_dep [OF assms(1,2) d(1)] d(2) by (metis option.sel)
qed

lemma link_deps_Some:
  assumes "\<forall>d \<in> set ds. map_of ix d \<noteq> None \<and> the (map_of ix d) < length adj" "i < length indeg"
  shows "\<exists>adj' indeg'. link_deps ix i ds (adj, indeg) = Some (adj', indeg') \<and> length adj' = length adj \<and>
    indeg' = indeg[i := indeg ! i + length ds] \<and>
    (\<forall>j k. j < length adj \<longrightarrow> count_list (adj' ! j) k =
       count_list (adj ! j) k + (if k = i then count_list (map (\<lambda>d. the (map_of ix d)) ds) j else 0))"
  using assms
proof (induction ds arbitrary: adj indeg)
  case (Cons d ds)
  obtain j where j: "map_of ix d = Some j" "j < length adj" using Cons.prems by auto
  obtain adj' indeg' where a: "link_deps ix i ds (adj[j := adj ! j @ [i]], indeg[i := indeg ! i + 1]) = Some (adj', indeg')"
    "length adj' = length adj" "indeg' = (indeg[i := indeg ! i + 1])[i := (indeg[i := indeg ! i + 1]) ! i + length ds]"
    "\<And>j' k. j' < length adj \<Longrightarrow> count_list (adj' ! j') k = count_list (adj[j := adj ! j @ [i]] ! j') k +
       (if k = i then count_list (map (\<lambda>d. the (map_of ix d)) ds) j' else 0)"
    using Cons.IH [of "adj[j := adj ! j @ [i]]" "indeg[i := indeg ! i + 1]"] Cons.prems by auto
  show ?case using a j Cons.prems(2) by (auto simp: nth_list_update)
qed simp

lemma link_deps_None: "\<exists>d \<in> set ds. map_of ix d = None \<Longrightarrow> link_deps ix i ds g = None"
  by (induction ix i ds g rule: link_deps.induct) (auto split: option.split)

lemma link_nodes_None: "\<exists>(i, n) \<in> set ns. \<exists>d \<in> set (wn_deps n). map_of ix d = None \<Longrightarrow> link_nodes ix ns g = None"
proof (induction ix ns g rule: link_nodes.induct)
  case (2 ix i n ns g)
  show ?case
  proof (cases "link_deps ix i (wn_deps n) g")
    case (Some g')
    then have "\<not> (\<exists>d \<in> set (wn_deps n). map_of ix d = None)" using link_deps_None [of "wn_deps n" ix i g] by force
    with 2 Some show ?thesis by auto
  qed simp
qed simp

text \<open>What the linking loop has built after the nodes below \<open>m\<close>.\<close>

definition linked_upto :: "workflow_node list \<Rightarrow> nat \<Rightarrow> nat list list \<Rightarrow> nat list \<Rightarrow> bool" where
  "linked_upto nodes m adj indeg \<longleftrightarrow> length adj = length nodes \<and> length indeg = length nodes \<and>
    (\<forall>k < length nodes. indeg ! k = (if k < m then length (dep_indices nodes k) else 0)) \<and>
    (\<forall>j < length nodes. \<forall>k. count_list (adj ! j) k = (if k < m then count_list (dep_indices nodes k) j else 0))"

lemma link_nodes_Some:
  assumes "known_deps nodes" "linked_upto nodes m adj indeg" "m \<le> length nodes"
  shows "\<exists>adj' indeg'. link_nodes (node_index nodes) (enumerate m (drop m nodes)) (adj, indeg) = Some (adj', indeg') \<and>
    linked_upto nodes (length nodes) adj' indeg'"
  using assms
proof (induction "length nodes - m" arbitrary: m adj indeg)
  case 0
  then show ?case by simp
next
  case (Suc l)
  let ?ix = "node_index nodes" let ?ds = "wn_deps (nodes ! m)"
  have m: "m < length nodes" "drop m nodes = nodes ! m # drop (Suc m) nodes" using Suc.hyps(2) by (auto simp: Cons_nth_drop_Suc)
  have ds: "\<forall>d \<in> set ?ds. map_of ?ix d \<noteq> None \<and> the (map_of ?ix d) < length adj" "m < length indeg"
    using Suc.prems known_dep [OF Suc.prems(1) m(1)] m(1) unfolding linked_upto_def by (metis option.sel option.simps(3), simp)
  obtain adj' indeg' where step: "link_deps ?ix m ?ds (adj, indeg) = Some (adj', indeg')" "length adj' = length adj"
    "indeg' = indeg[m := indeg ! m + length ?ds]" 
    "\<And>j k. j < length adj \<Longrightarrow> count_list (adj' ! j) k = count_list (adj ! j) k + (if k = m then count_list (dep_indices nodes m) j else 0)"
    using link_deps_Some [OF ds] unfolding dep_indices_def by blast
  have "linked_upto nodes (Suc m) adj' indeg'"
    using Suc.prems(2) step(2-4) m(1) unfolding linked_upto_def
    by (auto simp: nth_list_update less_Suc_eq dep_indices_def)
  then show ?case using Suc.hyps(1) [of "Suc m"] Suc.hyps(2) Suc.prems(1) m step(1) by (auto simp: enumerate_simps)
qed

subsection \<open>The loop\<close>

lemma release_Some:
  assumes "\<forall>k \<in> set ks. k < length indeg \<and> count_list ks k \<le> indeg ! k"
  shows "\<exists>g newly. release ks indeg = Some (g, newly) \<and> length g = length indeg \<and>
    (\<forall>k < length indeg. g ! k = indeg ! k - count_list ks k) \<and> distinct newly \<and>
    set newly = {k \<in> set ks. indeg ! k = count_list ks k}"
  using assms
proof (induction ks arbitrary: indeg)
  case (Cons k ks)
  let ?indeg = "indeg[k := indeg ! k - 1]"
  have k: "k < length indeg" "0 < indeg ! k" using Cons.prems by auto
  have le: "count_list ks x \<le> ?indeg ! x" if "x \<in> set ks" for x
    using Cons.prems that k by (auto simp: nth_list_update split: if_splits)
  obtain g newly where g: "release ks ?indeg = Some (g, newly)" "length g = length indeg"
    "\<And>x. x < length indeg \<Longrightarrow> g ! x = ?indeg ! x - count_list ks x" "distinct newly"
    "set newly = {x \<in> set ks. ?indeg ! x = count_list ks x}"
    using Cons.IH [of ?indeg] Cons.prems le by auto
  have zero: "?indeg ! k = 0 \<Longrightarrow> k \<notin> set ks" using le [of k] by (auto simp: count_list_0_iff)
  have n: "set newly = {x \<in> set ks. x \<noteq> k \<and> indeg ! x = count_list ks x} \<union> (if k \<in> set ks \<and> indeg ! k = Suc (count_list ks k) then {k} else {})"
    unfolding g(5) using k by (auto simp: nth_list_update)
  have new: "set (if ?indeg ! k = 0 then k # newly else newly) = {x \<in> set (k # ks). indeg ! x = count_list (k # ks) x}"
  proof (cases "indeg ! k = Suc 0")
    case True
    then have "k \<notin> set ks" using zero k(1) by simp
    then show ?thesis using True k(1) by (auto simp: n count_list_0_iff)
  next
    case False
    then show ?thesis using k by (auto simp: n dest: count_notin)
  qed
  have "distinct (if ?indeg ! k = 0 then k # newly else newly)" using g(4,5) zero by auto
  moreover have "\<forall>x < length indeg. g ! x = indeg ! x - count_list (k # ks) x" using g(3) k by (auto simp: nth_list_update)
  moreover have "release (k # ks) indeg = Some (g, if ?indeg ! k = 0 then k # newly else newly)"
    using g(1) k by (simp add: Let_def)
  ultimately show ?case using g(2) new by blast
qed simp

text \<open>The number of listed dependencies of a node that are not done yet.\<close>

definition open_deps :: "workflow_node list \<Rightarrow> nat set \<Rightarrow> nat \<Rightarrow> nat" where
  "open_deps nodes done k = length (filter (\<lambda>j. j \<notin> done) (dep_indices nodes k))"

lemma open_deps_0: "open_deps nodes done k = 0 \<longleftrightarrow> set (dep_indices nodes k) \<subseteq> done"
  by (auto simp: open_deps_def filter_empty_conv)

lemma length_filter_insert:
  "i \<notin> D \<Longrightarrow> length (filter (\<lambda>j. j \<notin> insert i D) xs) + count_list xs i = length (filter (\<lambda>j. j \<notin> D) xs)"
  by (induction xs) auto

lemma open_deps_insert:
  "i \<notin> D \<Longrightarrow> open_deps nodes (insert i D) k = open_deps nodes D k - count_list (dep_indices nodes k) i"
  "i \<notin> D \<Longrightarrow> count_list (dep_indices nodes k) i \<le> open_deps nodes D k"
  using length_filter_insert [of i D "dep_indices nodes k"] by (simp_all add: open_deps_def)

definition kahn_inv :: "workflow_node list \<Rightarrow> nat list \<Rightarrow> nat list \<Rightarrow> nat list \<Rightarrow> bool" where
  "kahn_inv nodes indeg queue order \<longleftrightarrow> length indeg = length nodes \<and> distinct (order @ queue) \<and>
    set (order @ queue) \<subseteq> {..<length nodes} \<and>
    (\<forall>k < length nodes. indeg ! k = open_deps nodes (set order) k \<and> (k \<in> set (order @ queue) \<longleftrightarrow> indeg ! k = 0)) \<and>
    (\<forall>p < length order. set (dep_indices nodes (order ! p)) \<subseteq> set (take p order))"

lemma kahn_inv_step:
  assumes "kahn_inv nodes indeg (i # queue) order" and "linked_upto nodes (length nodes) adj indeg0"
  shows "\<exists>g newly. release (adj ! i) indeg = Some (g, newly) \<and> kahn_inv nodes g (queue @ sort newly) (order @ [i])"
proof -
  let ?n = "length nodes"
  have inv: "length indeg = ?n" "distinct (order @ i # queue)" "set (order @ i # queue) \<subseteq> {..<?n}"
    "\<And>k. k < ?n \<Longrightarrow> indeg ! k = open_deps nodes (set order) k"
    "\<And>k. k < ?n \<Longrightarrow> k \<in> set (order @ i # queue) \<longleftrightarrow> indeg ! k = 0"
    "\<And>p. p < length order \<Longrightarrow> set (dep_indices nodes (order ! p)) \<subseteq> set (take p order)"
    using assms(1) unfolding kahn_inv_def by blast+
  have i: "i < ?n" "i \<notin> set order" using inv(2,3) by auto
  have adj: "count_list (adj ! i) k = (if k < ?n then count_list (dep_indices nodes k) i else 0)" for k
    using assms(2) i(1) unfolding linked_upto_def by simp
  have pre: "k < length indeg \<and> count_list (adj ! i) k \<le> indeg ! k" if "k \<in> set (adj ! i)" for k
  proof -
    have "count_list (adj ! i) k \<noteq> 0" using that by (simp add: count_list_0_iff)
    then have "k < ?n" using adj [of k] by (simp split: if_splits)
    then show ?thesis using inv(1,4) adj [of k] open_deps_insert(2) [OF i(2), of nodes k] by simp
  qed
  obtain g newly where g: "release (adj ! i) indeg = Some (g, newly)" "length g = ?n"
    "\<And>k. k < ?n \<Longrightarrow> g ! k = indeg ! k - count_list (adj ! i) k" "distinct newly"
    "set newly = {k \<in> set (adj ! i). indeg ! k = count_list (adj ! i) k}"
    using release_Some [of "adj ! i" indeg] pre inv(1) by auto
  have val: "g ! k = open_deps nodes (set (order @ [i])) k" if "k < ?n" for k
    using g(3) [OF that] inv(4) [OF that] adj [of k] that open_deps_insert(1) [OF i(2), of nodes k] by simp
  have new: "set newly = {k. k < ?n \<and> indeg ! k \<noteq> 0 \<and> g ! k = 0}"
  proof (rule set_eqI)
    fix k
    show "k \<in> set newly \<longleftrightarrow> k \<in> {k. k < ?n \<and> indeg ! k \<noteq> 0 \<and> g ! k = 0}"
    proof (cases "k \<in> set (adj ! i)")
      case True
      then have "count_list (adj ! i) k \<noteq> 0" by (simp add: count_list_0_iff)
      then show ?thesis using True pre [OF True] g(3) [of k] inv(1) unfolding g(5) by auto
    next
      case False
      then show ?thesis using g(3) [of k] unfolding g(5) by auto
    qed
  qed
  have mem: "k \<in> set ((order @ [i]) @ queue @ sort newly) \<longleftrightarrow> g ! k = 0" if "k < ?n" for k
  proof -
    have "k \<in> set newly \<longleftrightarrow> indeg ! k \<noteq> 0 \<and> g ! k = 0" using new that by simp
    moreover have "indeg ! k = 0 \<Longrightarrow> g ! k = 0" using g(3) [OF that] by simp
    ultimately show ?thesis using inv(5) [OF that] by auto
  qed
  have fresh: "set newly \<inter> set (order @ i # queue) = {}" using inv(5) new by blast
  have "distinct ((order @ [i]) @ queue @ sort newly)" "set ((order @ [i]) @ queue @ sort newly) \<subseteq> {..<?n}"
    using inv(2,3) fresh g(4) new by auto
  moreover have "set (dep_indices nodes ((order @ [i]) ! p)) \<subseteq> set (take p (order @ [i]))" if "p < length (order @ [i])" for p
  proof (cases "p = length order")
    case True
    have "open_deps nodes (set order) i = 0" using inv(4,5) [OF i(1)] by simp
    then show ?thesis using True by (simp add: open_deps_0)
  next
    case False
    then show ?thesis using that inv(6) [of p] by (simp add: nth_append)
  qed
  ultimately have "kahn_inv nodes g (queue @ sort newly) (order @ [i])"
    unfolding kahn_inv_def using g(2) val mem by blast
  with g(1) show ?thesis by blast
qed

lemma kahn_returns:
  assumes "kahn_inv nodes indeg queue order" and "linked_upto nodes (length nodes) adj indeg0"
  shows "\<exists>order' indeg'. kahn adj indeg queue order = Some order' \<and> kahn_inv nodes indeg' [] order'"
  using assms
proof (induction adj indeg queue order rule: kahn.induct)
  case (2 adj indeg i queue order)
  obtain g newly where "release (adj ! i) indeg = Some (g, newly)" "kahn_inv nodes g (queue @ sort newly) (order @ [i])"
    using kahn_inv_step [OF "2.prems"] by blast
  then show ?case using "2.IH" [OF _ refl] "2.prems"(2) by simp
qed auto

subsection \<open>The order is topological\<close>

lemma earlier_trancl:
  assumes "(j, i) \<in> (dep_edges nodes)\<^sup>+" "p < length order" "order ! p = i"
    and "set order = {..<length nodes}"
    and deps: "\<And>p. p < length order \<Longrightarrow> set (dep_indices nodes (order ! p)) \<subseteq> set (take p order)"
  shows "j \<in> set (take p order)"
  using assms(1-3)
proof (induction arbitrary: p rule: trancl_induct)
  case (base i)
  then show ?case using deps [of p] by (auto simp: dep_edges_def)
next
  case (step i k)
  have "i \<in> set (take p order)" using step.hyps(2) step.prems deps [of p] by (auto simp: dep_edges_def)
  then obtain q where q: "q < p" "order ! q = i" using step.prems(1) by (auto simp: in_set_conv_nth)
  then have "j \<in> set (take q order)" using step.IH [of q] step.prems(1) by simp
  then show ?case using q(1) set_take_subset_set_take [of q p order] by auto
qed

lemma kahn_final:
  assumes "known_deps nodes" and "kahn_inv nodes indeg [] order"
  shows "length order = length nodes \<longleftrightarrow> acyclic (dep_edges nodes)"
proof
  have inv: "distinct order" "set order \<subseteq> {..<length nodes}"
    "\<And>p. p < length order \<Longrightarrow> set (dep_indices nodes (order ! p)) \<subseteq> set (take p order)"
    "\<And>k. k < length nodes \<Longrightarrow> k \<in> set order \<longleftrightarrow> open_deps nodes (set order) k = 0"
    using assms(2) unfolding kahn_inv_def by simp_all
  {
    assume "length order = length nodes"
    then have all: "set order = {..<length nodes}"
      using inv(1,2) card_subset_eq [OF _ inv(2)] by (simp add: distinct_card)
    show "acyclic (dep_edges nodes)"
      unfolding acyclic_def
    proof (intro allI notI)
      fix i
      assume i: "(i, i) \<in> (dep_edges nodes)\<^sup>+"
      then have "i < length nodes" by (auto simp: dep_edges_def dest: tranclD2)
      then obtain p where p: "p < length order" "order ! p = i" using all by (metis in_set_conv_nth lessThan_iff)
      then have "i \<in> set (take p order)" using earlier_trancl [OF i _ _ all inv(3)] by blast
      then show False using p inv(1) by (auto simp: in_set_conv_nth distinct_conv_nth)
    qed
  }
  assume acyclic: "acyclic (dep_edges nodes)"
  have "dep_edges nodes \<subseteq> {..<length nodes} \<times> {..<length nodes}"
    using dep_indices_lt [OF assms(1)] by (auto simp: dep_edges_def)
  then have "wf (dep_edges nodes)" using acyclic by (simp add: finite_acyclic_wf finite_subset)
  moreover have "\<exists>j. (j, k) \<in> dep_edges nodes \<and> j \<in> {..<length nodes} - set order" if k: "k \<in> {..<length nodes} - set order" for k
  proof -
    obtain j where "j \<in> set (dep_indices nodes k)" "j \<notin> set order" using k inv(4) [of k] by (auto simp: open_deps_0)
    then show ?thesis using k dep_indices_lt [OF assms(1)] by (auto simp: dep_edges_def)
  qed
  ultimately have "{..<length nodes} - set order = {}" by (metis (no_types, lifting) all_not_in_conv wfE_min)
  then have "set order = {..<length nodes}" using inv(2) by blast
  then show "length order = length nodes" using distinct_card [OF inv(1)] by simp
qed

lemma kahn_start:
  assumes "linked_upto nodes (length nodes) adj indeg"
  shows "kahn_inv nodes indeg (filter (\<lambda>i. indeg ! i = 0) [0..<length nodes]) []"
  using assms unfolding kahn_inv_def linked_upto_def by (auto simp: open_deps_def)

lemma topo_order_unknown: "\<not> known_deps nodes \<Longrightarrow> topo_order nodes = Some None"
proof -
  assume "\<not> known_deps nodes"
  then obtain n d where n: "n \<in> set nodes" "d \<in> set (wn_deps n)" "map_of (node_index nodes) d = None"
    by (auto simp: known_deps_def node_index_None)
  then obtain i where "i < length nodes" "nodes ! i = n" by (meson in_set_conv_nth)
  then have "\<exists>(i, n) \<in> set (enumerate 0 nodes). \<exists>d \<in> set (wn_deps n). map_of (node_index nodes) d = None"
    using n by (intro bexI [of _ "(i, n)"]) (auto simp: in_set_enumerate_eq)
  from link_nodes_None [OF this] show ?thesis by (simp add: topo_order_def)
qed

lemma topo_order_known:
  assumes "known_deps nodes"
  shows "\<exists>indeg order. topo_order nodes = Some (if length order = length nodes then Some order else None) \<and>
    kahn_inv nodes indeg [] order"
proof -
  let ?n = "length nodes"
  have "linked_upto nodes 0 (replicate ?n []) (replicate ?n 0)" by (simp add: linked_upto_def)
  then obtain adj indeg where l: "link_nodes (node_index nodes) (enumerate 0 nodes) (replicate ?n [], replicate ?n 0) = Some (adj, indeg)"
    "linked_upto nodes ?n adj indeg" using link_nodes_Some [OF assms, of 0] by fastforce
  obtain order indeg' where "kahn adj indeg (filter (\<lambda>i. indeg ! i = 0) [0..<?n]) [] = Some order" "kahn_inv nodes indeg' [] order"
    using kahn_returns [OF kahn_start [OF l(2)] l(2)] by blast
  then show ?thesis using l(1) by (intro exI [of _ indeg'] exI [of _ order]) (simp add: topo_order_def Let_def)
qed

text \<open>C21: the order of a workflow respects its dependencies. The computation always returns, without
  running a counter below zero; when it answers an order, that order names each node once and every
  node after all its dependencies; it answers none exactly when a node names an unknown dependency or
  the dependencies are cyclic.\<close>

theorem topo_order_correct:
  "\<exists>answer. topo_order nodes = Some answer \<and>
    (answer = None \<longleftrightarrow> \<not> (known_deps nodes \<and> acyclic (dep_edges nodes))) \<and>
    (\<forall>order. answer = Some order \<longrightarrow> distinct order \<and> set order = {..<length nodes} \<and>
      (\<forall>p < length order. set (dep_indices nodes (order ! p)) \<subseteq> set (take p order)))"
proof (cases "known_deps nodes")
  case True
  obtain indeg order where o: "topo_order nodes = Some (if length order = length nodes then Some order else None)"
    and inv: "kahn_inv nodes indeg [] order" using topo_order_known [OF True] by blast
  have "set order = {..<length nodes}" if "length order = length nodes"
    using that inv card_subset_eq [of "{..<length nodes}" "set order"] by (auto simp: kahn_inv_def distinct_card)
  then show ?thesis using o kahn_final [OF True inv] inv True by (auto simp: kahn_inv_def)
qed (simp add: topo_order_unknown)

definition demo_workflow :: "workflow_node list" where
  "demo_workflow =
    [\<lparr>wn_id = ''report'', wn_agent_id = ''w'', wn_question = ''q'', wn_deps = [''fetch'', ''check'']\<rparr>,
     \<lparr>wn_id = ''check'', wn_agent_id = ''w'', wn_question = ''q'', wn_deps = [''fetch'']\<rparr>,
     \<lparr>wn_id = ''fetch'', wn_agent_id = ''w'', wn_question = ''q'', wn_deps = []\<rparr>]"

theorem topo_order_correct_witness:
  "topo_order demo_workflow = Some (Some [2, 1, 0]) \<and> acyclic (dep_edges demo_workflow)"
proof -
  have "topo_order demo_workflow = Some (Some [2, 1, 0])" by code_simp
  with topo_order_correct [of demo_workflow] show ?thesis by simp
qed

end
