(* ===== verification/Agent_Driver.thy ===== *)
theory Agent_Driver
  imports Memory_Search Raft_Apply Workflow_Order
begin

text \<open>
  The agent driver, \<open>src/crates/ecphoria-core/src/engine/agentic.rs\<close>: runs, their journal of steps,
  human approvals, event triggers, the tool catalogue, the loop between the language model and the
  tools with its lease and its idempotency keys, resumption from the journal and workflows.

  An operation is a function of the node that returns an outcome and the node afterwards; a panic is an
  outcome of its own. The clock, fresh identifiers, the model, the tools and the consensus layer are
  answers of the environment \<open>agent_env\<close>: each reading takes the next number \<open>ag_tick\<close>, so an answer may
  differ from one reading to the next. The external calls made are recorded in \<open>ag_calls\<close>.
\<close>

datatype 'a outcome = Done 'a | Raised error | Panicked

record agent_state =
  ag_node :: node
  ag_tick :: nat
  ag_calls :: "(string \<times> string \<times> json) list"

text \<open>
  \<open>ae_replicate\<close> answers how a consensus write ends, \<open>None\<close> being a commit that this node has applied;
  \<open>ae_replicator\<close> says whether a replicator was injected. \<open>ae_sql_now\<close> is SQLite's clock text.
  \<open>ae_runs_fail\<close> answers how a write to the run ledger ends, \<open>None\<close> being a write that took effect; reads
  of the ledger, of the journal and of the memory do not fail in the model.
\<close>

record agent_env =
  ae_now :: "nat \<Rightarrow> ts"
  ae_sql_now :: "nat \<Rightarrow> string"
  ae_uuid :: "nat \<Rightarrow> uuid"
  ae_uuid_str :: "uuid \<Rightarrow> string"
  ae_rfc3339 :: "ts \<Rightarrow> string"
  ae_json_str :: "json \<Rightarrow> string"
  ae_parse_json :: "string \<Rightarrow> json option"
  ae_error_str :: "error \<Rightarrow> string"
  ae_complete :: "(nat \<Rightarrow> string \<Rightarrow> string \<Rightarrow> error + string) option"
  ae_call_tool :: "(nat \<Rightarrow> string \<Rightarrow> string \<Rightarrow> json \<Rightarrow> error + json) option"
  ae_replicator :: bool
  ae_replicate :: "nat \<Rightarrow> app_request \<Rightarrow> error option"
  ae_is_leader :: "nat \<Rightarrow> bool"
  ae_driver_id :: string
  ae_ports :: ports
  ae_search :: search_ports
  ae_cfg :: search_config
  ae_batch_size :: nat
  ae_embed_documents :: "(string list \<Rightarrow> embedding list option) option"
  ae_runs_fail :: "nat \<Rightarrow> error option"

type_synonym 'a act = "agent_state \<Rightarrow> 'a outcome \<times> agent_state"

subsection \<open>Outcomes in sequence\<close>

definition act_ret :: "'a \<Rightarrow> 'a act" where
  "act_ret x s = (Done x, s)"

definition act_raise :: "error \<Rightarrow> 'a act" where
  "act_raise e s = (Raised e, s)"

definition act_bind :: "'a act \<Rightarrow> ('a \<Rightarrow> 'b act) \<Rightarrow> 'b act" where
  "act_bind m k s = (case m s of
     (Done x, s') \<Rightarrow> k x s' | (Raised e, s') \<Rightarrow> (Raised e, s') | (Panicked, s') \<Rightarrow> (Panicked, s'))"

text \<open>\<open>let _ = ...\<close> drops an error and goes on.\<close>

definition act_ignore :: "'a act \<Rightarrow> unit act" where
  "act_ignore m s = (case m s of (Panicked, s') \<Rightarrow> (Panicked, s') | (_, s') \<Rightarrow> (Done (), s'))"

definition read_env :: "(nat \<Rightarrow> 'a) \<Rightarrow> 'a act" where
  "read_env f s = (Done (f (ag_tick s)), s\<lparr>ag_tick := ag_tick s + 1\<rparr>)"

definition on_runs :: "agent_env \<Rightarrow> (run_store \<Rightarrow> 'a \<times> run_store) \<Rightarrow> 'a act" where
  "on_runs E f s = (let s1 = s\<lparr>ag_tick := ag_tick s + 1\<rparr>
     in case ae_runs_fail E (ag_tick s) of
          Some e \<Rightarrow> (Raised e, s1)
        | None \<Rightarrow> (case f (nd_runs (ag_node s)) of (x, rs) \<Rightarrow> (Done x, s1\<lparr>ag_node := (ag_node s)\<lparr>nd_runs := rs\<rparr>\<rparr>)))"

definition on_state :: "(state_store \<Rightarrow> 'a \<times> state_store) \<Rightarrow> 'a act" where
  "on_state f s = (case f (nd_state (ag_node s)) of (x, st) \<Rightarrow> (Done x, s\<lparr>ag_node := (ag_node s)\<lparr>nd_state := st\<rparr>\<rparr>))"

definition look :: "(agent_state \<Rightarrow> 'a) \<Rightarrow> 'a act" where
  "look f s = (Done (f s), s)"

definition tenant_name :: "string \<Rightarrow> string" where
  "tenant_name tenant = (if tenant = [] then ''default'' else tenant)"

text \<open>A consensus write: refused, or committed and applied here.\<close>

definition client_write :: "agent_env \<Rightarrow> app_request \<Rightarrow> unit act" where
  "client_write E req s =
    (let s1 = s\<lparr>ag_tick := ag_tick s + 1\<rparr>
     in case ae_replicate E (ag_tick s) req of
          Some e \<Rightarrow> (Raised e, s1)
        | None \<Rightarrow>
            (case apply_request (ae_ports E) (cognition_config.truncate (ae_cfg E)) True (\<lambda>_. ae_now E (ag_tick s)) req (ag_node s) of
               Inl e \<Rightarrow> (Raised e, s1)
             | Inr (_, nd) \<Rightarrow> (Done (), s1\<lparr>ag_node := nd\<rparr>)))"

subsection \<open>Runs and their journal\<close>

definition no_patch :: run_patch where
  "no_patch = \<lparr>rp_status = None, rp_result = None, rp_error = None, rp_cursor = None, rp_started_at = None, rp_ended_at = None\<rparr>"

definition agent_run_create ::
  "agent_env \<Rightarrow> string \<Rightarrow> string option \<Rightarrow> uuid option \<Rightarrow> json \<Rightarrow> run act" where
  "agent_run_create E tenant agent_id parent_run_id input =
    act_bind (read_env (ae_now E)) (\<lambda>now. act_bind (read_env (ae_uuid E)) (\<lambda>fresh.
      let run = \<lparr>rn_id = fresh, rn_tenant_id = tenant_name tenant, rn_agent_id = agent_id, rn_parent_run_id = parent_run_id,
            rn_status = RunPending, rn_input = input, rn_result = JNull, rn_error = None, rn_cursor = JNull,
            rn_created_at = now, rn_updated_at = now, rn_started_at = None, rn_ended_at = None\<rparr>
      in act_bind (if ae_replicator E then client_write E (Req_RunCreate run) else on_runs E (\<lambda>rs. ((), run_create run rs)))
           (\<lambda>_. act_ret run)))"

definition agent_run_update :: "agent_env \<Rightarrow> uuid \<Rightarrow> run_patch \<Rightarrow> bool act" where
  "agent_run_update E uid patch =
    act_bind (read_env (ae_now E)) (\<lambda>now.
      if ae_replicator E then act_bind (client_write E (Req_RunUpdate uid patch now)) (\<lambda>_. act_ret True)
      else on_runs E (run_update uid patch now))"

definition agent_run_get :: "uuid \<Rightarrow> run option act" where
  "agent_run_get uid = look (\<lambda>s. run_get uid (nd_runs (ag_node s)))"

definition agent_run_list :: "agent_env \<Rightarrow> string \<Rightarrow> run_status option \<Rightarrow> nat \<Rightarrow> run list act" where
  "agent_run_list E tenant status limit =
    look (\<lambda>s. run_list (tenant_name tenant) status (min limit (cg_max_rows (ae_cfg E))) (nd_runs (ag_node s)))"

definition run_trace :: "agent_env \<Rightarrow> uuid \<Rightarrow> node \<Rightarrow> event_row list" where
  "run_trace E uid nd = recall_session (ae_uuid_str E uid) (nd_episodic nd)"

text \<open>\<open>self.ingest\<close> on the stores of the node.\<close>

definition node_ingest :: "agent_env \<Rightarrow> event list \<Rightarrow> unit act" where
  "node_ingest E events s =
    (let pl = \<lparr>pl_episodic = nd_episodic (ag_node s), pl_semantic = Some (nd_semantic (ag_node s)), pl_batch_size = ae_batch_size E\<rparr>
     in case ingest (ae_json_str E) (ae_rfc3339 E) (ae_embed_documents E) events pl of (r, pl') \<Rightarrow>
          let s' = s\<lparr>ag_node := (ag_node s)\<lparr>nd_episodic := pl_episodic pl',
                nd_semantic := (case pl_semantic pl' of Some ss \<Rightarrow> ss | None \<Rightarrow> nd_semantic (ag_node s))\<rparr>\<rparr>
          in case r of None \<Rightarrow> (Panicked, s') | Some (Inl e) \<Rightarrow> (Raised e, s') | Some (Inr _) \<Rightarrow> (Done (), s'))"

definition step_payload :: "agent_env \<Rightarrow> uuid \<Rightarrow> string \<Rightarrow> json \<Rightarrow> json" where
  "step_payload E run_id tenant payload =
    (let obj = (if json_is_object payload then payload else JObj [(''value'', payload)])
     in json_insert ''_tenant_id'' (JStr (tenant_name tenant))
          (json_insert ''_session_id'' (JStr (ae_uuid_str E run_id)) obj))"

definition step_event :: "agent_env \<Rightarrow> uuid \<Rightarrow> string \<Rightarrow> string \<Rightarrow> json \<Rightarrow> uuid \<Rightarrow> ts \<Rightarrow> event" where
  "step_event E run_id tenant event_type payload fresh now =
    \<lparr>ev_id = fresh, ev_source = ''agent'', ev_event_type = event_type, ev_payload = step_payload E run_id tenant payload,
     ev_timestamp = now, ev_parent_id = None, ev_trace_id = Some (ae_uuid_str E run_id), ev_tags = [],
     ev_idempotency_key = None\<rparr>"

definition run_log_step :: "agent_env \<Rightarrow> uuid \<Rightarrow> string \<Rightarrow> string \<Rightarrow> json \<Rightarrow> unit act" where
  "run_log_step E run_id tenant event_type payload =
    act_bind (read_env (ae_uuid E)) (\<lambda>fresh. act_bind (read_env (ae_now E)) (\<lambda>now.
      let ev = step_event E run_id tenant event_type payload fresh now
      in if ae_replicator E then client_write E (Req_Ingest [ev] None) else node_ingest E [ev]))"

subsection \<open>State written by the driver, tools and triggers\<close>

definition state_set_via_driver :: "agent_env \<Rightarrow> string \<Rightarrow> string \<Rightarrow> json \<Rightarrow> unit act" where
  "state_set_via_driver E agent_id key value =
    (if ae_replicator E then client_write E (Req_StateSet agent_id key value None)
     else act_bind (on_state (kv_set agent_id key value)) (\<lambda>_. act_ret ()))"

definition agent_state_get :: "agent_env \<Rightarrow> string \<Rightarrow> string \<Rightarrow> state_entry option act" where
  "agent_state_get E agent_id key =
    act_bind (read_env (ae_sql_now E)) (\<lambda>now. on_state (kv_get now agent_id key))"

definition tool_catalog_agent :: string where
  "tool_catalog_agent = ''__tools''"

definition tool_server_register :: "agent_env \<Rightarrow> string \<Rightarrow> string \<Rightarrow> unit act" where
  "tool_server_register E name url = state_set_via_driver E tool_catalog_agent name (JObj [(''url'', JStr url)])"

definition tool_server_remove :: "string \<Rightarrow> unit act" where
  "tool_server_remove name = on_state (\<lambda>st. ((), kv_delete tool_catalog_agent name st))"

fun collect_entries :: "agent_env \<Rightarrow> (string \<Rightarrow> state_entry \<Rightarrow> 'a option) \<Rightarrow> string \<Rightarrow> string list \<Rightarrow> 'a list act" where
  "collect_entries E pick agent [] = act_ret []"
| "collect_entries E pick agent (name # names) =
    act_bind (agent_state_get E agent name) (\<lambda>entry.
      act_bind (collect_entries E pick agent names) (\<lambda>rest.
        act_ret (case Option.bind entry (pick name) of None \<Rightarrow> rest | Some x \<Rightarrow> x # rest)))"

definition tool_server_list :: "agent_env \<Rightarrow> (string \<times> string) list act" where
  "tool_server_list E =
    act_bind (look (\<lambda>s. kv_list_keys tool_catalog_agent (nd_state (ag_node s)))) (\<lambda>names.
      collect_entries E (\<lambda>name e. map_option (\<lambda>url. (name, url)) (Option.bind (json_get (ste_value e) ''url'') json_as_str))
        tool_catalog_agent names)"

definition trigger_agent :: "string \<Rightarrow> string" where
  "trigger_agent tenant = ''__trigger:'' @ tenant_name tenant"

definition trigger_register :: "agent_env \<Rightarrow> string \<Rightarrow> string \<Rightarrow> string \<Rightarrow> string \<Rightarrow> string \<Rightarrow> unit act" where
  "trigger_register E tenant name source event_type agent_id =
    state_set_via_driver E (trigger_agent tenant) name
      (JObj [(''source'', JStr source), (''event_type'', JStr event_type), (''agent_id'', JStr agent_id)])"

definition trigger_list :: "agent_env \<Rightarrow> string \<Rightarrow> json list act" where
  "trigger_list E tenant =
    act_bind (look (\<lambda>s. kv_list_keys (trigger_agent tenant) (nd_state (ag_node s)))) (\<lambda>names.
      collect_entries E (\<lambda>name e. Some (json_insert ''name'' (JStr name) (ste_value e))) (trigger_agent tenant) names)"

definition trigger_matches :: "string \<Rightarrow> string \<Rightarrow> json \<Rightarrow> bool" where
  "trigger_matches source event_type v =
    (let want_src = (case Option.bind (json_get v ''source'') json_as_str of Some x \<Rightarrow> x | None \<Rightarrow> ''*'');
         want_evt = (case Option.bind (json_get v ''event_type'') json_as_str of Some x \<Rightarrow> x | None \<Rightarrow> ''*'')
     in (want_src = ''*'' \<or> want_src = source) \<and> (want_evt = ''*'' \<or> want_evt = event_type))"

fun fire_each :: "agent_env \<Rightarrow> string \<Rightarrow> string \<Rightarrow> string \<Rightarrow> json \<Rightarrow> string list \<Rightarrow> uuid list act" where
  "fire_each E tenant source event_type input [] = act_ret []"
| "fire_each E tenant source event_type input (name # names) =
    act_bind (agent_state_get E (trigger_agent tenant) name) (\<lambda>entry.
      case entry of
        None \<Rightarrow> fire_each E tenant source event_type input names
      | Some e \<Rightarrow>
          (if trigger_matches source event_type (ste_value e)
           then act_bind (agent_run_create E tenant
                    (Some (case Option.bind (json_get (ste_value e) ''agent_id'') json_as_str of Some a \<Rightarrow> a | None \<Rightarrow> ''trigger''))
                    None input)
                  (\<lambda>run. act_bind (fire_each E tenant source event_type input names) (\<lambda>rest. act_ret (rn_id run # rest)))
           else fire_each E tenant source event_type input names))"

definition fire_triggers :: "agent_env \<Rightarrow> string \<Rightarrow> string \<Rightarrow> string \<Rightarrow> json \<Rightarrow> uuid list act" where
  "fire_triggers E tenant source event_type input =
    act_bind (look (\<lambda>s. kv_list_keys (trigger_agent tenant) (nd_state (ag_node s))))
      (fire_each E tenant source event_type input)"

subsection \<open>Human approval\<close>

definition approval_agent :: "agent_env \<Rightarrow> uuid \<Rightarrow> string" where
  "approval_agent E run_id = ''__approval:'' @ ae_uuid_str E run_id"

definition run_approval_status :: "agent_env \<Rightarrow> uuid \<Rightarrow> json option act" where
  "run_approval_status E run_id =
    act_bind (agent_state_get E (approval_agent E run_id) ''status'') (\<lambda>e. act_ret (map_option ste_value e))"

definition run_request_approval :: "agent_env \<Rightarrow> uuid \<Rightarrow> string \<Rightarrow> string \<Rightarrow> unit act" where
  "run_request_approval E run_id tenant prompt =
    act_bind (state_set_via_driver E (approval_agent E run_id) ''status''
        (JObj [(''state'', JStr ''pending''), (''prompt'', JStr prompt)])) (\<lambda>_.
      act_bind (agent_run_update E run_id (no_patch\<lparr>rp_status := Some WaitingApproval\<rparr>)) (\<lambda>_.
        run_log_step E run_id tenant ''hitl_request'' (JObj [(''prompt'', JStr prompt)])))"

definition approval_state :: "json option \<Rightarrow> string option" where
  "approval_state v = Option.bind (Option.bind v (\<lambda>j. json_get j ''state'')) json_as_str"

definition run_resolve_approval :: "agent_env \<Rightarrow> uuid \<Rightarrow> string \<Rightarrow> bool \<Rightarrow> unit act" where
  "run_resolve_approval E run_id tenant approved =
    act_bind (run_approval_status E run_id) (\<lambda>status.
      if approval_state status \<noteq> Some ''pending''
      then act_raise (State ''no pending approval to resolve for this run'')
      else act_bind (state_set_via_driver E (approval_agent E run_id) ''status''
               (JObj [(''state'', JStr (if approved then ''approved'' else ''rejected''))])) (\<lambda>_.
             act_bind (if approved then act_ret (no_patch\<lparr>rp_status := Some Running\<rparr>)
                       else act_bind (read_env (ae_now E)) (\<lambda>now.
                              act_ret (no_patch\<lparr>rp_status := Some Cancelled, rp_ended_at := Some now\<rparr>))) (\<lambda>patch.
               act_bind (agent_run_update E run_id patch) (\<lambda>_.
                 run_log_step E run_id tenant ''hitl_resolve'' (JObj [(''approved'', JBool approved)])))))"

end
