(* ===== verification/Agent_Loop.thy ===== *)
theory Agent_Loop
  imports Agent_Driver
begin

text \<open>
  The agent loop of \<open>src/crates/ecphoria-core/src/engine/agentic.rs\<close>: one turn per reply of the model,
  journaled before the transcript grows; the lease around it; resumption from the journal; the
  dispatcher; workflows.
\<close>

subsection \<open>String operations of the loop\<close>

text \<open>\<open>s.matches(pat).count()\<close> for a pattern that is not empty: matches from the left, not overlapping.\<close>

function count_matches :: "string \<Rightarrow> string \<Rightarrow> nat" where
  "count_matches pat s =
    (if s = [] \<or> pat = [] then 0
     else case strip_prefix_of pat s of
            Some rest \<Rightarrow> Suc (count_matches pat rest)
          | None \<Rightarrow> count_matches pat (tl s))"
  by pat_completeness auto

termination count_matches
proof (relation "measure (\<lambda>(pat, s). length s)")
  fix pat s rest :: string
  assume "\<not> (s = [] \<or> pat = [])" "strip_prefix_of pat s = Some rest"
  then show "((pat, rest), (pat, s)) \<in> measure (\<lambda>(pat, s). length s)" by (auto simp: strip_prefix_of_Some)
qed auto

declare count_matches.simps [simp del]

subsection \<open>The transcript\<close>

abbreviation nl :: string where
  "nl \<equiv> [CHR 0x0A]"

definition question_line :: "string \<Rightarrow> string" where
  "question_line q = ''Question: '' @ q @ nl"

definition search_lines :: "string \<Rightarrow> string list \<Rightarrow> string" where
  "search_lines q results = ''Assistant: TOOL search: '' @ q @ nl @ ''Observation: '' @ str_join '' | '' results @ nl"

definition remember_lines :: "string \<Rightarrow> string" where
  "remember_lines text = ''Assistant: TOOL remember: '' @ text @ nl @ ''Observation: stored'' @ nl"

definition call_lines :: "string \<Rightarrow> string \<Rightarrow> string \<Rightarrow> string" where
  "call_lines server tool result = ''Assistant: TOOL call '' @ server @ '' '' @ tool @ nl @ ''Observation: '' @ result @ nl"

definition approval_lines :: "string \<Rightarrow> string" where
  "approval_lines prompt = ''Assistant: requested approval for: '' @ prompt @ nl @ ''Observation: approved'' @ nl"

definition payload_str :: "string \<Rightarrow> json \<Rightarrow> string" where
  "payload_str key p = (case Option.bind (json_get p key) json_as_str of Some s \<Rightarrow> s | None \<Rightarrow> [])"

definition render_step :: "agent_env \<Rightarrow> event_row \<Rightarrow> string" where
  "render_step E step =
    (let et = er_event_type step; p = er_payload step
     in if et = ''run_start'' then question_line (payload_str ''question'' p)
        else if et = ''tool_call'' then
          (let tool = payload_str ''tool'' p
           in if tool = ''search'' then
                search_lines (payload_str ''query'' p)
                  (case Option.bind (json_get p ''results'') json_as_array of
                     Some a \<Rightarrow> List.map_filter json_as_str a | None \<Rightarrow> [])
              else if tool = ''remember'' then remember_lines (payload_str ''content'' p)
              else (case (case split_once_at (CHR ''/'') tool of Some st \<Rightarrow> st | None \<Rightarrow> (tool, [])) of
                      (server, tool_name) \<Rightarrow>
                        call_lines server tool_name
                          (case json_get p ''result'' of Some v \<Rightarrow> ae_json_str E v | None \<Rightarrow> [])))
        else if et = ''hitl_request'' then approval_lines (payload_str ''prompt'' p)
        else [])"

definition rebuild_agent_transcript :: "agent_env \<Rightarrow> uuid \<Rightarrow> node \<Rightarrow> string" where
  "rebuild_agent_transcript E run_id nd = concat (map (render_step E) (run_trace E run_id nd))"

subsection \<open>One turn\<close>

record loop_state =
  lp_transcript :: string
  lp_tool_seq :: nat
  lp_executed :: "(string \<times> json) list"

datatype turn = Continue loop_state | Stopped run | Answered string

definition driver_scope :: "string \<Rightarrow> string \<Rightarrow> memory_scope" where
  "driver_scope tenant agent_id =
    \<lparr>sc_tenant_id = tenant_name tenant, sc_user_id = None, sc_agent_id = Some agent_id, sc_session_id = None\<rparr>"

definition system_prompt :: string where
  "system_prompt = ''You are an agent answering the user's question. Reply with EXACTLY ONE of: '' @
    ''`TOOL search: <query>` (search your memory), `TOOL remember: <fact>` (save a fact), '' @
    ''`TOOL call <server> <tool>: {json args}` (call an external tool), '' @
    ''`TOOL approve: <reason>` (request human approval), or the final answer.''"

definition lease_ttl :: int where
  "lease_ttl = 300 * 1000000"

definition run_try_claim :: "agent_env \<Rightarrow> uuid \<Rightarrow> bool act" where
  "run_try_claim E run_id =
    act_bind (read_env (ae_now E)) (\<lambda>now.
      on_runs E (try_claim_lease (ae_rfc3339 E) run_id (ae_driver_id E) now (now + lease_ttl)))"

definition run_release_lease :: "agent_env \<Rightarrow> uuid \<Rightarrow> unit act" where
  "run_release_lease E run_id = act_ignore (on_runs E (\<lambda>rs. ((), release_lease run_id (ae_driver_id E) rs)))"

definition current_run :: "uuid \<Rightarrow> run act" where
  "current_run run_id = act_bind (agent_run_get run_id) (\<lambda>r.
    case r of None \<Rightarrow> act_raise (State ''run vanished'') | Some run \<Rightarrow> act_ret run)"

definition search_contents :: "agent_env \<Rightarrow> string \<Rightarrow> memory_scope \<Rightarrow> string list act" where
  "search_contents E q scope = act_bind (read_env (ae_now E)) (\<lambda>now.
    look (\<lambda>s. map (\<lambda>h. m_content (h_memory h))
      (memory_search (ae_search E) (ae_ports E) (ae_cfg E) now q scope 5 (nd_memory (ag_node s)))))"

definition remember :: "agent_env \<Rightarrow> memory_scope \<Rightarrow> string \<Rightarrow> unit act" where
  "remember E scope text =
    act_bind (read_env (ae_uuid E)) (\<lambda>fresh. act_bind (read_env (ae_now E)) (\<lambda>t1. act_bind (read_env (ae_now E)) (\<lambda>t2. \<lambda>s.
      case memory_add (ae_ports E) (cognition_config.truncate (ae_cfg E)) \<lparr>tk_id = fresh, tk_new_at = t1, tk_recorded_at = t2\<rparr>
          (memory_input_new scope text) (nd_memory (ag_node s)) of
        Inl _ \<Rightarrow> (Done (), s)
      | Inr (_, en) \<Rightarrow> (Done (), s\<lparr>ag_node := (ag_node s)\<lparr>nd_memory := en\<rparr>\<rparr>))))"

definition idem_key :: "agent_env \<Rightarrow> uuid \<Rightarrow> nat \<Rightarrow> string" where
  "idem_key E run_id n = ae_uuid_str E run_id @ '':tool:'' @ show_nat n"

text \<open>The parts of \<open>TOOL call <server> <tool>: {json args}\<close>.\<close>

definition parse_call :: "agent_env \<Rightarrow> string \<Rightarrow> string \<times> string \<times> json" where
  "parse_call E rest =
    (let (head, args_str) = (case split_once_at (CHR '':'') rest of Some ha \<Rightarrow> ha | None \<Rightarrow> (rest, ''{}''));
         parts = split_whitespace head;
         args = (case ae_parse_json E (str_trim args_str) of Some j \<Rightarrow> j | None \<Rightarrow> JObj [])
     in (case parts of [] \<Rightarrow> [] | p # _ \<Rightarrow> p, case parts of _ # p # _ \<Rightarrow> p | _ \<Rightarrow> [], args))"

definition call_external :: "agent_env \<Rightarrow> string \<Rightarrow> string \<Rightarrow> json \<Rightarrow> json act" where
  "call_external E server tool args s =
    (case ae_call_tool E of
       None \<Rightarrow> (Done (JObj [(''error'', JStr ''no tool executor configured'')]), s)
     | Some call_tool \<Rightarrow>
         (Done (case call_tool (ag_tick s) server tool args of Inr r \<Rightarrow> r | Inl e \<Rightarrow> JObj [(''error'', JStr (ae_error_str E e))]),
          s\<lparr>ag_tick := ag_tick s + 1, ag_calls := ag_calls s @ [(server, tool, args)]\<rparr>))"

definition log_call :: "agent_env \<Rightarrow> uuid \<Rightarrow> string \<Rightarrow> loop_state \<Rightarrow> string \<Rightarrow> string \<Rightarrow> string \<Rightarrow> json \<Rightarrow> (string \<times> json) list \<Rightarrow> turn act" where
  "log_call E run_id tenant lp server tool idem result executed =
    act_bind (run_log_step E run_id tenant ''tool_call''
        (JObj [(''tool'', JStr (server @ ''/'' @ tool)), (''idempotency_key'', JStr idem), (''result'', result)])) (\<lambda>_.
      act_ret (Continue \<lparr>lp_transcript = lp_transcript lp @ call_lines server tool (ae_json_str E result),
        lp_tool_seq = lp_tool_seq lp + 1, lp_executed = executed\<rparr>))"

definition tool_turn :: "agent_env \<Rightarrow> uuid \<Rightarrow> string \<Rightarrow> string \<Rightarrow> loop_state \<Rightarrow> turn act" where
  "tool_turn E run_id tenant rest lp =
    (case parse_call E rest of (server, tool, args) \<Rightarrow>
      let idem = idem_key E run_id (lp_tool_seq lp)
      in case map_of (lp_executed lp) idem of
           Some prev \<Rightarrow> log_call E run_id tenant lp server tool idem prev (lp_executed lp)
         | None \<Rightarrow>
             act_bind (if ae_replicator E then read_env (ae_is_leader E) else act_ret True) (\<lambda>leader.
               if \<not> leader then act_bind (current_run run_id) (\<lambda>run. act_ret (Stopped run))
               else act_bind (call_external E server tool (json_insert ''_idempotency_key'' (JStr idem) args)) (\<lambda>r.
                      log_call E run_id tenant lp server tool idem r (alist_put idem r (lp_executed lp)))))"

definition agent_turn ::
  "agent_env \<Rightarrow> (nat \<Rightarrow> string \<Rightarrow> string \<Rightarrow> error + string) \<Rightarrow> uuid \<Rightarrow> string \<Rightarrow> string \<Rightarrow> loop_state \<Rightarrow> turn act" where
  "agent_turn E llm run_id tenant agent_id lp =
    act_bind (run_try_claim E run_id) (\<lambda>claimed.
      if \<not> claimed then act_bind (current_run run_id) (\<lambda>run. act_ret (Stopped run))
      else act_bind (read_env (\<lambda>n. llm n system_prompt (lp_transcript lp))) (\<lambda>answer.
        case answer of
          Inl e \<Rightarrow> act_raise e
        | Inr reply \<Rightarrow>
            (let trimmed = str_trim reply; scope = driver_scope tenant agent_id
             in case strip_prefix_of ''TOOL search:'' trimmed of
                  Some q0 \<Rightarrow>
                    (let q = str_trim q0
                     in act_bind (search_contents E q scope) (\<lambda>results.
                          act_bind (run_log_step E run_id tenant ''tool_call''
                              (JObj [(''tool'', JStr ''search''), (''query'', JStr q), (''results'', JArr (map JStr results))])) (\<lambda>_.
                            act_ret (Continue (lp\<lparr>lp_transcript := lp_transcript lp @ search_lines q results\<rparr>)))))
                | None \<Rightarrow>
                    (case strip_prefix_of ''TOOL remember:'' trimmed of
                       Some t0 \<Rightarrow>
                         (let text = str_trim t0
                          in act_bind (remember E scope text) (\<lambda>_.
                               act_bind (run_log_step E run_id tenant ''tool_call''
                                   (JObj [(''tool'', JStr ''remember''), (''content'', JStr text)])) (\<lambda>_.
                                 act_ret (Continue (lp\<lparr>lp_transcript := lp_transcript lp @ remember_lines text\<rparr>)))))
                     | None \<Rightarrow>
                         (case strip_prefix_of ''TOOL call '' trimmed of
                            Some rest \<Rightarrow> tool_turn E run_id tenant rest lp
                          | None \<Rightarrow>
                              (case strip_prefix_of ''TOOL approve:'' trimmed of
                                 Some prompt \<Rightarrow>
                                   act_bind (run_request_approval E run_id tenant (str_trim prompt)) (\<lambda>_.
                                     act_bind (current_run run_id) (\<lambda>run. act_ret (Stopped run)))
                               | None \<Rightarrow>
                                   act_bind (run_log_step E run_id tenant ''llm_answer'' (JObj [(''answer'', JStr trimmed)])) (\<lambda>_.
                                     act_ret (Answered trimmed))))))))"

text \<open>The loop over the turns left; running out of turns is the answer \<open>None\<close>.\<close>

datatype loop_end = EndStopped run | EndAnswer "string option"

fun drive_turns ::
  "agent_env \<Rightarrow> (nat \<Rightarrow> string \<Rightarrow> string \<Rightarrow> error + string) \<Rightarrow> uuid \<Rightarrow> string \<Rightarrow> string \<Rightarrow> nat \<Rightarrow> loop_state \<Rightarrow> loop_end act" where
  "drive_turns E llm run_id tenant agent_id 0 lp = act_ret (EndAnswer None)"
| "drive_turns E llm run_id tenant agent_id (Suc n) lp =
    act_bind (agent_turn E llm run_id tenant agent_id lp) (\<lambda>t.
      case t of
        Continue lp' \<Rightarrow> drive_turns E llm run_id tenant agent_id n lp'
      | Stopped run \<Rightarrow> act_ret (EndStopped run)
      | Answered ans \<Rightarrow> act_ret (EndAnswer (Some ans)))"

text \<open>The ledger of calls already executed, read from the journal.\<close>

definition note_executed :: "event_row \<Rightarrow> (string \<times> json) list \<Rightarrow> (string \<times> json) list" where
  "note_executed step executed =
    (case (Option.bind (json_get (er_payload step) ''idempotency_key'') json_as_str, json_get (er_payload step) ''result'') of
       (Some k, Some r) \<Rightarrow> alist_put k r executed | _ \<Rightarrow> executed)"

definition resume_position :: "agent_env \<Rightarrow> uuid \<Rightarrow> string \<Rightarrow> node \<Rightarrow> loop_state" where
  "resume_position E run_id transcript nd =
    \<lparr>lp_transcript = transcript, lp_tool_seq = count_matches ''TOOL call '' transcript,
     lp_executed = fold note_executed (run_trace E run_id nd) []\<rparr>"

definition drive_agent_loop_inner :: "agent_env \<Rightarrow> uuid \<Rightarrow> string \<Rightarrow> string \<Rightarrow> string \<Rightarrow> nat \<Rightarrow> run act" where
  "drive_agent_loop_inner E run_id tenant agent_id transcript max_turns =
    (case ae_complete E of
       None \<Rightarrow> act_raise (Llm ''run_agent requires a completion provider'')
     | Some llm \<Rightarrow>
         act_bind (look (\<lambda>s. resume_position E run_id transcript (ag_node s))) (\<lambda>lp.
           act_bind (drive_turns E llm run_id tenant agent_id (max max_turns 1) lp) (\<lambda>end_of.
             case end_of of
               EndStopped run \<Rightarrow> act_ret run
             | EndAnswer ans \<Rightarrow>
                 act_bind (read_env (ae_now E)) (\<lambda>now.
                   act_bind (agent_run_update E run_id
                       (case ans of
                          Some a \<Rightarrow> no_patch\<lparr>rp_status := Some Succeeded, rp_result := Some (JObj [(''answer'', JStr a)]), rp_ended_at := Some now\<rparr>
                        | None \<Rightarrow> no_patch\<lparr>rp_status := Some Failed, rp_error := Some ''max turns exceeded without a final answer'',
                                     rp_ended_at := Some now\<rparr>)) (\<lambda>_.
                     current_run run_id)))))"

definition drive_agent_loop :: "agent_env \<Rightarrow> uuid \<Rightarrow> string \<Rightarrow> string \<Rightarrow> string \<Rightarrow> nat \<Rightarrow> run act" where
  "drive_agent_loop E run_id tenant agent_id transcript max_turns =
    act_bind (run_try_claim E run_id) (\<lambda>claimed.
      if \<not> claimed then current_run run_id
      else (\<lambda>s. case drive_agent_loop_inner E run_id tenant agent_id transcript max_turns s of
              (Panicked, s1) \<Rightarrow> (Panicked, s1)
            | (Done run, s1) \<Rightarrow> act_bind (run_release_lease E run_id) (\<lambda>_. act_ret run) s1
            | (Raised e, s1) \<Rightarrow>
                act_bind (run_release_lease E run_id) (\<lambda>_.
                  act_bind (read_env (ae_now E)) (\<lambda>now.
                    act_bind (act_ignore (agent_run_update E run_id
                        (no_patch\<lparr>rp_status := Some Failed, rp_error := Some (ae_error_str E e), rp_ended_at := Some now\<rparr>)))
                      (\<lambda>_. act_raise e))) s1))"

subsection \<open>Starting, resuming, dispatching\<close>

definition run_agent_start :: "agent_env \<Rightarrow> string \<Rightarrow> string \<Rightarrow> string \<Rightarrow> uuid option \<Rightarrow> run act" where
  "run_agent_start E tenant agent_id question parent_run_id =
    (if ae_complete E = None then act_raise (Llm ''run_agent requires a completion provider'')
     else act_bind (agent_run_create E tenant (Some agent_id) parent_run_id (JObj [(''question'', JStr question)])) (\<lambda>run.
       act_bind (read_env (ae_now E)) (\<lambda>started_at.
         act_bind (act_ignore (agent_run_update E (rn_id run) (no_patch\<lparr>rp_status := Some Running, rp_started_at := Some started_at\<rparr>))) (\<lambda>_.
           act_bind (run_log_step E (rn_id run) tenant ''run_start'' (JObj [(''question'', JStr question)])) (\<lambda>_.
             act_ret (run\<lparr>rn_status := Running, rn_started_at := Some started_at\<rparr>))))))"

definition run_agent_with_parent :: "agent_env \<Rightarrow> string \<Rightarrow> string \<Rightarrow> string \<Rightarrow> nat \<Rightarrow> uuid option \<Rightarrow> run act" where
  "run_agent_with_parent E tenant agent_id question max_turns parent_run_id =
    act_bind (run_agent_start E tenant agent_id question parent_run_id) (\<lambda>run.
      drive_agent_loop E (rn_id run) tenant agent_id (question_line question) max_turns)"

definition run_agent :: "agent_env \<Rightarrow> string \<Rightarrow> string \<Rightarrow> string \<Rightarrow> nat \<Rightarrow> run act" where
  "run_agent E tenant agent_id question max_turns = run_agent_with_parent E tenant agent_id question max_turns None"

definition found_run :: "uuid \<Rightarrow> run act" where
  "found_run run_id = act_bind (agent_run_get run_id) (\<lambda>r.
    case r of None \<Rightarrow> act_raise (State ''run not found'') | Some run \<Rightarrow> act_ret run)"

definition agent_of :: "run \<Rightarrow> string" where
  "agent_of run = (case rn_agent_id run of Some a \<Rightarrow> a | None \<Rightarrow> [])"

definition rebuilt :: "agent_env \<Rightarrow> uuid \<Rightarrow> string act" where
  "rebuilt E run_id = look (\<lambda>s. rebuild_agent_transcript E run_id (ag_node s))"

definition run_agent_drive :: "agent_env \<Rightarrow> uuid \<Rightarrow> nat \<Rightarrow> run act" where
  "run_agent_drive E run_id max_turns =
    act_bind (found_run run_id) (\<lambda>run. act_bind (rebuilt E run_id) (\<lambda>transcript.
      drive_agent_loop E run_id (rn_tenant_id run) (agent_of run) transcript max_turns))"

definition run_resume :: "agent_env \<Rightarrow> uuid \<Rightarrow> string \<Rightarrow> run act" where
  "run_resume E run_id tenant =
    act_bind (run_approval_status E run_id) (\<lambda>status.
      if approval_state status \<noteq> Some ''approved'' then act_raise (State ''run is not approved for resume'')
      else act_bind (found_run run_id) (\<lambda>run. act_bind (rebuilt E run_id) (\<lambda>transcript.
             act_bind (act_ignore (agent_run_update E run_id (no_patch\<lparr>rp_status := Some Running\<rparr>))) (\<lambda>_.
               drive_agent_loop E run_id tenant (agent_of run) transcript 8))))"

definition run_resume_driver :: "agent_env \<Rightarrow> uuid \<Rightarrow> run act" where
  "run_resume_driver E run_id =
    act_bind (found_run run_id) (\<lambda>run.
      act_bind (act_ignore (agent_run_update E run_id (no_patch\<lparr>rp_status := Some Running\<rparr>))) (\<lambda>_.
        act_bind (rebuilt E run_id) (\<lambda>transcript.
          drive_agent_loop E run_id (rn_tenant_id run) (agent_of run) transcript 8)))"

fun dispatch_each :: "agent_env \<Rightarrow> run list \<Rightarrow> nat \<Rightarrow> nat act" where
  "dispatch_each E [] resumed = act_ret resumed"
| "dispatch_each E (run # runs) resumed =
    (\<lambda>s. case run_resume_driver E (rn_id run) s of
       (Done _, s') \<Rightarrow> dispatch_each E runs (resumed + 1) s'
     | (Raised _, s') \<Rightarrow> dispatch_each E runs resumed s'
     | (Panicked, s') \<Rightarrow> (Panicked, s'))"

definition run_dispatch_once :: "agent_env \<Rightarrow> int \<Rightarrow> nat \<Rightarrow> nat act" where
  "run_dispatch_once E stale_secs limit =
    (if ae_complete E = None then act_ret 0
     else act_bind (read_env (ae_now E)) (\<lambda>now.
       act_bind (look (\<lambda>s. list_resumable (ae_rfc3339 E) (now - stale_secs * 1000000) limit (nd_runs (ag_node s)))) (\<lambda>runs.
         dispatch_each E runs 0)))"

subsection \<open>Workflows\<close>

text \<open>The children run so far and whether one of them did not succeed.\<close>

fun run_children :: "agent_env \<Rightarrow> string \<Rightarrow> uuid \<Rightarrow> workflow_node list \<Rightarrow> json list \<Rightarrow> (json list \<times> bool) act" where
  "run_children E tenant parent [] children = act_ret (children, False)"
| "run_children E tenant parent (node # nodes) children =
    act_bind (run_agent_with_parent E tenant (wn_agent_id node) (wn_question node) 4 (Some parent)) (\<lambda>child.
      act_bind (run_log_step E parent tenant ''subagent''
          (JObj [(''node'', JStr (wn_id node)), (''child_run'', JStr (ae_uuid_str E (rn_id child))),
                 (''status'', JStr (run_status_as_str (rn_status child)))])) (\<lambda>_.
        let children' = children @ [JObj [(''node'', JStr (wn_id node)), (''run_id'', JStr (ae_uuid_str E (rn_id child)))]]
        in if rn_status child \<noteq> Succeeded then act_ret (children', True)
           else run_children E tenant parent nodes children'))"

definition run_workflow :: "agent_env \<Rightarrow> string \<Rightarrow> workflow_node list \<Rightarrow> run act" where
  "run_workflow E tenant nodes =
    (case topo_order nodes of
       None \<Rightarrow> (\<lambda>s. (Panicked, s))
     | Some None \<Rightarrow> act_raise (Ingest ''workflow has a dependency cycle or unknown dep'')
     | Some (Some order) \<Rightarrow>
         act_bind (agent_run_create E tenant (Some ''workflow'') None (JObj [(''nodes'', JInt (int (length nodes)))])) (\<lambda>parent.
           act_bind (read_env (ae_now E)) (\<lambda>started.
             act_bind (act_ignore (agent_run_update E (rn_id parent)
                 (no_patch\<lparr>rp_status := Some Running, rp_started_at := Some started\<rparr>))) (\<lambda>_.
               act_bind (run_children E tenant (rn_id parent) (map ((!) nodes) order) []) (\<lambda>(children, failed).
                 act_bind (read_env (ae_now E)) (\<lambda>now.
                   act_bind (agent_run_update E (rn_id parent)
                       (if failed
                        then no_patch\<lparr>rp_status := Some Failed, rp_result := Some (JObj [(''children'', JArr children)]),
                               rp_error := Some ''a workflow node did not succeed'', rp_ended_at := Some now\<rparr>
                        else no_patch\<lparr>rp_status := Some Succeeded, rp_result := Some (JObj [(''children'', JArr children)]),
                               rp_ended_at := Some now\<rparr>)) (\<lambda>_.
                     act_bind (agent_run_get (rn_id parent)) (\<lambda>r.
                       act_ret (case r of Some run \<Rightarrow> run | None \<Rightarrow> parent)))))))))"

end
