(* ===== verification/Agent_Resume.thy ===== *)
theory Agent_Resume
  imports Agent_Loop
begin

text \<open>
  What the agent driver guarantees: the journal determines the position of the loop exactly, so a crash
  between or inside turns resumes where it stopped and repeats an unfinished external call under the
  same idempotency key; every drive of a run settles it; an approval is decided once.
\<close>

subsection \<open>Outcomes in sequence\<close>

lemma act_bind_Done: "act_bind m k s = (Done y, s2) \<longleftrightarrow> (\<exists>x s1. m s = (Done x, s1) \<and> k x s1 = (Done y, s2))"
  by (auto simp: act_bind_def split: prod.splits outcome.splits)

lemma act_ignore_Done: "act_ignore m s = (Done u, s1) \<longleftrightarrow> (\<exists>r. m s = (r, s1) \<and> r \<noteq> Panicked)"
  by (auto simp: act_ignore_def split: prod.splits outcome.splits)

lemma act_simps [simp]:
  "act_ret x s = (Done x, s)" "act_raise e s = (Raised e, s)" "read_env f s = (Done (f (ag_tick s)), s\<lparr>ag_tick := ag_tick s + 1\<rparr>)"
  "look g s = (Done (g s), s)"
  by (simp_all add: act_ret_def act_raise_def read_env_def look_def)

subsection \<open>The journal\<close>

text \<open>Whether a row is embedded does not matter to a reader of the journal.\<close>

definition journal :: "node \<Rightarrow> event_row list" where
  "journal nd = map (\<lambda>r. r\<lparr>er_embedded := False\<rparr>) (ep_events (nd_episodic nd))"

definition session_steps :: "agent_env \<Rightarrow> uuid \<Rightarrow> node \<Rightarrow> event_row list" where
  "session_steps E uid nd = sort_key er_ts (filter (\<lambda>r. er_session_id r = Some (ae_uuid_str E uid)) (journal nd))"

lemma session_steps_trace: "session_steps E uid nd = map (\<lambda>r. r\<lparr>er_embedded := False\<rparr>) (run_trace E uid nd)"
proof -
  have "filter (\<lambda>r. er_session_id r = Some (ae_uuid_str E uid)) (journal nd) =
      map (\<lambda>r. r\<lparr>er_embedded := False\<rparr>) (filter (\<lambda>r. er_session_id r = Some (ae_uuid_str E uid)) (ep_events (nd_episodic nd)))"
    by (simp add: journal_def filter_map comp_def)
  then show ?thesis unfolding session_steps_def run_trace_def recall_session_def
    by (simp only:) (rule sort_key_map, simp)
qed

lemma render_unmarked [simp]: "render_step E (r\<lparr>er_embedded := b\<rparr>) = render_step E r"
  by (simp add: render_step_def)

lemma note_unmarked [simp]: "note_executed (r\<lparr>er_embedded := b\<rparr>) = note_executed r"
  by (simp add: note_executed_def fun_eq_iff)

lemma rebuild_steps: "rebuild_agent_transcript E uid nd = concat (map (render_step E) (session_steps E uid nd))"
  by (simp add: rebuild_agent_transcript_def session_steps_trace comp_def)

lemma executed_steps: "fold note_executed (run_trace E uid nd) [] = fold note_executed (session_steps E uid nd) []"
  by (simp add: session_steps_trace fold_map comp_def)

lemma journal_mark [simp]:
  "map (\<lambda>r. r\<lparr>er_embedded := False\<rparr>) (ep_events (mark_embedded ids ep)) = map (\<lambda>r. r\<lparr>er_embedded := False\<rparr>) (ep_events ep)"
  by (simp add: mark_embedded_def tbl_update_def)

lemma journal_ingest:
  assumes "node_ingest E [ev] s = (Done (), s')" "ev_idempotency_key ev = None"
  shows "journal (ag_node s') = journal (ag_node s) @ [row_of_event ev]" "ag_tick s' = ag_tick s"
proof -
  let ?pl = "\<lparr>pl_episodic = nd_episodic (ag_node s), pl_semantic = Some (nd_semantic (ag_node s)), pl_batch_size = ae_batch_size E\<rparr>"
  obtain n pl' where ing: "ingest (ae_json_str E) (ae_rfc3339 E) (ae_embed_documents E) [ev] ?pl = (Some (Inr n), pl')"
    and s': "s' = s\<lparr>ag_node := (ag_node s)\<lparr>nd_episodic := pl_episodic pl',
      nd_semantic := (case pl_semantic pl' of Some ss \<Rightarrow> ss | None \<Rightarrow> nd_semantic (ag_node s))\<rparr>\<rparr>"
    using assms(1) by (auto simp: node_ingest_def Let_def split: prod.splits option.splits sum.splits)
  have "map (\<lambda>r. r\<lparr>er_embedded := False\<rparr>) (ep_events (pl_episodic pl')) =
      map (\<lambda>r. r\<lparr>er_embedded := False\<rparr>) (ep_events (nd_episodic (ag_node s)) @ [row_of_event ev])"
    using ing assms(2)
    by (auto simp: ingest_def ep_append_def append_fast_def Let_def embed_and_index_def split: sum.splits if_splits option.splits prod.splits)
  then show "journal (ag_node s') = journal (ag_node s) @ [row_of_event ev]" "ag_tick s' = ag_tick s"
    by (simp_all add: s' journal_def row_of_event_def)
qed

lemma journal_write:
  assumes "client_write E (Req_Ingest [ev] None) s = (Done (), s')" "ev_idempotency_key ev = None"
  shows "journal (ag_node s') = journal (ag_node s) @ [row_of_event ev]" "ag_tick s' = Suc (ag_tick s)"
  using assms by (auto simp: client_write_def Let_def apply_request_def ingest_replicated_def ingest_episodic_only_def ep_append_def
      append_fast_def res_bind_Inr_iff journal_def row_of_event_def split: option.splits sum.splits if_splits)

definition step_row :: "agent_env \<Rightarrow> uuid \<Rightarrow> string \<Rightarrow> string \<Rightarrow> json \<Rightarrow> nat \<Rightarrow> event_row" where
  "step_row E uid tenant event_type payload n = row_of_event (step_event E uid tenant event_type payload (ae_uuid E n) (ae_now E (Suc n)))"

lemma run_log_step_Done:
  assumes "run_log_step E uid tenant event_type payload s = (Done (), s')"
  shows "journal (ag_node s') = journal (ag_node s) @ [step_row E uid tenant event_type payload (ag_tick s)]"
    and "Suc (ag_tick s) < ag_tick s'"
  using assms journal_write [of E _ _ s'] journal_ingest [of E _ _ s']
  by (auto simp: run_log_step_def act_bind_Done Let_def step_row_def step_event_def split: if_splits)

lemma step_row_fields:
  "er_ts (step_row E uid tenant et payload n) = ae_now E (Suc n)" "er_event_type (step_row E uid tenant et payload n) = et"
  "er_payload (step_row E uid tenant et payload n) = step_payload E uid tenant payload"
  "er_session_id (step_row E uid tenant et payload n) = Some (ae_uuid_str E uid)"
proof -
  have obj: "json_is_object (if json_is_object payload then payload else JObj [(''value'', payload)])" by simp
  have ins: "json_is_object j \<Longrightarrow> json_is_object (json_insert k v j)" for j k v by (cases j) auto
  show "er_session_id (step_row E uid tenant et payload n) = Some (ae_uuid_str E uid)"
    using obj ins [OF obj] by (simp add: step_row_def row_of_event_def step_event_def payload_tag_def step_payload_def Let_def)
qed (simp_all add: step_row_def row_of_event_def step_event_def)

lemma payload_get:
  "k \<noteq> ''_tenant_id'' \<Longrightarrow> k \<noteq> ''_session_id'' \<Longrightarrow> json_get (step_payload E uid tenant (JObj kvs)) k = map_of kvs k"
  by (simp add: step_payload_def Let_def)

text \<open>The clock has not gone back behind the journal.\<close>

definition clock_ok :: "agent_env \<Rightarrow> agent_state \<Rightarrow> bool" where
  "clock_ok E s \<longleftrightarrow> (\<forall>r \<in> set (journal (ag_node s)). er_ts r \<le> ae_now E (ag_tick s))"

lemma sort_key_snoc: "\<forall>x \<in> set xs. f x \<le> f y \<Longrightarrow> sort_key f (xs @ [y]) = sort_key f xs @ [y]"
proof (induction xs)
  case (Cons x xs)
  have "insort_key f x (zs @ [y]) = insort_key f x zs @ [y]" for zs using Cons.prems by (induction zs) auto
  then show ?case using Cons by simp
qed simp

lemma session_steps_snoc:
  assumes "journal nd' = journal nd @ [r]" "er_session_id r = Some (ae_uuid_str E uid)" "\<forall>x \<in> set (journal nd). er_ts x \<le> er_ts r"
  shows "session_steps E uid nd' = session_steps E uid nd @ [r]"
  using assms sort_key_snoc [of "filter (\<lambda>r. er_session_id r = Some (ae_uuid_str E uid)) (journal nd)" er_ts r]
  by (simp add: session_steps_def)

subsection \<open>Counting the calls in a transcript\<close>

lemma count_matches_append:
  assumes "pat \<noteq> []" "c \<notin> set pat" "a = [] \<or> last a = c"
  shows "count_matches pat (a @ b) = count_matches pat a + count_matches pat b"
  using assms
proof (induction pat a rule: count_matches.induct)
  case (1 pat a)
  show ?case
  proof (cases "a = []")
    case True
    then show ?thesis by (simp add: count_matches.simps [of pat "[]"])
  next
    case False
    show ?thesis
    proof (cases "strip_prefix_of pat a")
      case (Some rest)
      then have a: "a = pat @ rest" by (simp add: strip_prefix_of_Some)
      have "rest = [] \<or> last rest = c" using a "1.prems" False by (auto simp: last_append split: if_splits)
      then have "count_matches pat (rest @ b) = count_matches pat rest + count_matches pat b"
        using "1.IH"(2) [OF _ Some] False "1.prems" by simp
      moreover have "strip_prefix_of pat (a @ b) = Some (rest @ b)" by (simp add: strip_prefix_of_Some a)
      ultimately show ?thesis using False "1.prems"(1) Some by (simp add: count_matches.simps [of pat a] count_matches.simps [of pat "a @ b"])
    next
      case None
      have "strip_prefix_of pat (a @ b) = None"
      proof (rule ccontr)
        assume "strip_prefix_of pat (a @ b) \<noteq> None"
        then obtain r where r: "a @ b = pat @ r" by (auto simp: strip_prefix_of_Some)
        then consider us where "a = pat @ us" | us where "pat = a @ us" by (auto simp: append_eq_append_conv2)
        then show False
        proof cases
          case 1
          then show False using None strip_prefix_of_Some [of pat a us] by simp
        next
          case 2
          then have "last a \<in> set pat" using False by simp
          then show False using "1.prems" False by auto
        qed
      qed
      moreover have "count_matches pat (tl a @ b) = count_matches pat (tl a) + count_matches pat b"
        using "1.IH"(1) [OF _ None] False "1.prems" by (cases a) (auto split: if_splits)
      ultimately show ?thesis using False None "1.prems"(1)
        by (simp add: count_matches.simps [of pat a] count_matches.simps [of pat "a @ b"])
    qed
  qed
qed

abbreviation calls_in :: "string \<Rightarrow> nat" where
  "calls_in t \<equiv> count_matches ''TOOL call '' t"

definition whole_lines :: "string \<Rightarrow> bool" where
  "whole_lines t \<longleftrightarrow> t = [] \<or> last t = CHR 0x0A"

lemma calls_in_append: "whole_lines a \<Longrightarrow> calls_in (a @ b) = calls_in a + calls_in b"
  by (rule count_matches_append [of _ "CHR 0x0A"]) (simp_all add: whole_lines_def)

lemma render_whole_lines: "whole_lines (render_step E r)"
  by (simp add: whole_lines_def render_step_def Let_def question_line_def search_lines_def remember_lines_def call_lines_def
      approval_lines_def split: prod.split)

lemma whole_lines_append: "whole_lines a \<Longrightarrow> whole_lines b \<Longrightarrow> whole_lines (a @ b)"
  by (auto simp: whole_lines_def last_append)

subsection \<open>One turn in the journal\<close>

lemma act_frames:
  "on_runs E f s = (Done x, s') \<Longrightarrow> journal (ag_node s') = journal (ag_node s) \<and> ag_tick s \<le> ag_tick s'"
  "run_try_claim E uid s = (Done b, s') \<Longrightarrow> journal (ag_node s') = journal (ag_node s) \<and> ag_tick s \<le> ag_tick s'"
  "search_contents E q scope s = (Done rs, s') \<Longrightarrow> journal (ag_node s') = journal (ag_node s) \<and> ag_tick s \<le> ag_tick s'"
  "remember E scope text s = (Done u, s') \<Longrightarrow> journal (ag_node s') = journal (ag_node s) \<and> ag_tick s \<le> ag_tick s'"
  "call_external E server tool args s = (Done r, s') \<Longrightarrow> journal (ag_node s') = journal (ag_node s) \<and> ag_tick s \<le> ag_tick s'"
proof -
  show runs: "on_runs E f s = (Done x, s') \<Longrightarrow> journal (ag_node s') = journal (ag_node s) \<and> ag_tick s \<le> ag_tick s'" for f and x :: 'b and s s'
    by (auto simp: on_runs_def Let_def journal_def split: prod.splits option.splits)
  show "run_try_claim E uid s = (Done b, s') \<Longrightarrow> journal (ag_node s') = journal (ag_node s) \<and> ag_tick s \<le> ag_tick s'"
    by (auto simp: run_try_claim_def act_bind_Done on_runs_def Let_def journal_def split: prod.splits option.splits)
  show "search_contents E q scope s = (Done rs, s') \<Longrightarrow> journal (ag_node s') = journal (ag_node s) \<and> ag_tick s \<le> ag_tick s'"
    by (auto simp: search_contents_def act_bind_Done)
  show "remember E scope text s = (Done u, s') \<Longrightarrow> journal (ag_node s') = journal (ag_node s) \<and> ag_tick s \<le> ag_tick s'"
    by (auto simp: remember_def act_bind_Done journal_def split: sum.splits)
  show "call_external E server tool args s = (Done r, s') \<Longrightarrow> journal (ag_node s') = journal (ag_node s) \<and> ag_tick s \<le> ag_tick s'"
    by (auto simp: call_external_def split: option.splits)
qed

lemma alist_put_same: "map_of xs k = Some v \<Longrightarrow> alist_put k v xs = xs"
  by (induction k v xs rule: alist_put.induct) (auto split: if_splits)

text \<open>
  What a continued turn leaves: one more row, which renders as the text added and notes the call made;
  the counter goes up exactly when the row records an external call.
\<close>

definition external_call :: "event_row \<Rightarrow> bool" where
  "external_call r \<longleftrightarrow> er_event_type r = ''tool_call'' \<and> json_get (er_payload r) ''idempotency_key'' \<noteq> None"

definition logged :: "agent_env \<Rightarrow> uuid \<Rightarrow> string \<Rightarrow> agent_state \<Rightarrow> loop_state \<Rightarrow> agent_state \<Rightarrow> loop_state \<Rightarrow> bool" where
  "logged E uid tenant s lp s' lp' \<longleftrightarrow> (\<exists>payload n. ag_tick s \<le> n \<and> Suc n < ag_tick s' \<and>
    (let row = step_row E uid tenant ''tool_call'' payload n
     in journal (ag_node s') = journal (ag_node s) @ [row] \<and> lp_transcript lp' = lp_transcript lp @ render_step E row \<and>
        lp_executed lp' = note_executed row (lp_executed lp) \<and>
        lp_tool_seq lp' = lp_tool_seq lp + (if external_call row then 1 else 0)))"

lemma loggedI:
  assumes "run_log_step E uid tenant ''tool_call'' payload s1 = (Done (), s')"
    and "journal (ag_node s1) = journal (ag_node s) \<and> ag_tick s \<le> ag_tick s1"
    and "\<And>n. lp_transcript lp' = lp_transcript lp @ render_step E (step_row E uid tenant ''tool_call'' payload n)"
    and "\<And>n. lp_executed lp' = note_executed (step_row E uid tenant ''tool_call'' payload n) (lp_executed lp)"
    and "\<And>n. lp_tool_seq lp' = lp_tool_seq lp + (if external_call (step_row E uid tenant ''tool_call'' payload n) then 1 else 0)"
  shows "logged E uid tenant s lp s' lp'"
  unfolding logged_def Let_def
  using run_log_step_Done [OF assms(1)] assms(2-5) by (intro exI [of _ payload] exI [of _ "ag_tick s1"]) auto

lemma render_call:
  "CHR ''/'' \<notin> set server \<Longrightarrow>
    render_step E (step_row E uid tenant ''tool_call''
      (JObj [(''tool'', JStr (server @ CHR ''/'' # tool)), (''idempotency_key'', JStr idem), (''result'', result)]) n) =
    call_lines server tool (ae_json_str E result)"
  using split_once_first [of "CHR ''/''" server tool]
  by (auto simp: render_step_def step_row_fields payload_str_def payload_get Let_def append_eq_Cons_conv)

lemma note_call:
  "note_executed (step_row E uid tenant ''tool_call''
      (JObj [(''tool'', JStr t), (''idempotency_key'', JStr idem), (''result'', result)]) n) executed = alist_put idem result executed"
  by (simp add: note_executed_def step_row_fields payload_get)

lemma external_call_step:
  "external_call (step_row E uid tenant ''tool_call'' (JObj kvs) n) \<longleftrightarrow> map_of kvs ''idempotency_key'' \<noteq> None"
  by (simp add: external_call_def step_row_fields payload_get)

lemma log_call_Continue:
  assumes "log_call E uid tenant lp server tool idem result executed s1 = (Done (Continue lp'), s')"
    and "journal (ag_node s1) = journal (ag_node s) \<and> ag_tick s \<le> ag_tick s1" "CHR ''/'' \<notin> set server"
    and "executed = alist_put idem result (lp_executed lp)"
  shows "logged E uid tenant s lp s' lp'"
  using assms(1,3,4) by (auto simp: log_call_def act_bind_Done render_call note_call external_call_step intro!: loggedI [OF _ assms(2)])

definition plain_server :: "agent_env \<Rightarrow> string \<Rightarrow> bool" where
  "plain_server E reply \<longleftrightarrow> (case strip_prefix_of ''TOOL call '' (str_trim reply) of
     None \<Rightarrow> True | Some rest \<Rightarrow> CHR ''/'' \<notin> set (fst (parse_call E rest)))"

definition plain_llm :: "agent_env \<Rightarrow> (nat \<Rightarrow> string \<Rightarrow> string \<Rightarrow> error + string) \<Rightarrow> bool" where
  "plain_llm E llm \<longleftrightarrow> (\<forall>n prompt reply. llm n system_prompt prompt = Inr reply \<longrightarrow> plain_server E reply)"

lemma tool_turn_Continue:
  assumes "tool_turn E uid tenant rest lp s1 = (Done (Continue lp'), s')"
    and frame: "journal (ag_node s1) = journal (ag_node s) \<and> ag_tick s \<le> ag_tick s1" and "CHR ''/'' \<notin> set (fst (parse_call E rest))"
  shows "logged E uid tenant s lp s' lp'"
proof -
  obtain server tool args where call: "parse_call E rest = (server, tool, args)" by (metis prod_cases3)
  let ?idem = "idem_key E uid (lp_tool_seq lp)"
  show ?thesis
  proof (cases "map_of (lp_executed lp) ?idem")
    case (Some prev)
    then show ?thesis using assms(1,3) call
      by (intro log_call_Continue [OF _ frame, of E uid tenant lp server tool ?idem prev "lp_executed lp"])
        (auto simp: tool_turn_def Let_def alist_put_same)
  next
    case None
    then obtain s2 r s3 where s2: "s2 = s1 \<or> s2 = s1\<lparr>ag_tick := ag_tick s1 + 1\<rparr>"
      and ext: "call_external E server tool (json_insert ''_idempotency_key'' (JStr ?idem) args) s2 = (Done r, s3)"
      and log: "log_call E uid tenant lp server tool ?idem r (alist_put ?idem r (lp_executed lp)) s3 = (Done (Continue lp'), s')"
      using assms(1) call by (fastforce simp: tool_turn_def Let_def act_bind_Done split: if_splits)
    have "journal (ag_node s3) = journal (ag_node s) \<and> ag_tick s \<le> ag_tick s3"
      using act_frames(5) [OF ext] s2 frame by auto
    from log_call_Continue [OF log this] assms(3) call show ?thesis by simp
  qed
qed

lemma agent_turn_Continue:
  assumes "agent_turn E llm uid tenant agent lp s = (Done (Continue lp'), s')"
    and plain: "plain_llm E llm"
  shows "logged E uid tenant s lp s' lp'"
proof -
  obtain b s1 where claim: "run_try_claim E uid s = (Done b, s1)"
    using assms(1) by (auto simp: agent_turn_def act_bind_Done)
  let ?s2 = "s1\<lparr>ag_tick := ag_tick s1 + 1\<rparr>"
  have frame: "journal (ag_node ?s2) = journal (ag_node s) \<and> ag_tick s \<le> ag_tick ?s2" using act_frames(2) [OF claim] by auto
  obtain reply where reply: "llm (ag_tick s1) system_prompt (lp_transcript lp) = Inr reply"
    using assms(1) claim by (auto simp: agent_turn_def act_bind_Done split: if_splits sum.splits)
  note turn = assms(1) [unfolded agent_turn_def act_bind_Done, simplified claim, simplified]
  consider (search) q where "strip_prefix_of ''TOOL search:'' (str_trim reply) = Some q"
    | (remember) t where "strip_prefix_of ''TOOL search:'' (str_trim reply) = None"
        "strip_prefix_of ''TOOL remember:'' (str_trim reply) = Some t"
    | (call) rest where "strip_prefix_of ''TOOL search:'' (str_trim reply) = None"
        "strip_prefix_of ''TOOL remember:'' (str_trim reply) = None" "strip_prefix_of ''TOOL call '' (str_trim reply) = Some rest"
    | (other) "strip_prefix_of ''TOOL search:'' (str_trim reply) = None"
        "strip_prefix_of ''TOOL remember:'' (str_trim reply) = None" "strip_prefix_of ''TOOL call '' (str_trim reply) = None"
    by (meson not_Some_eq)
  then show ?thesis
  proof cases
    case search
    then show ?thesis using turn reply frame
      by (auto simp: act_bind_Done Let_def render_step_def step_row_fields payload_str_def payload_get note_executed_def external_call_step
          comp_def List.map_filter_def
          split: if_splits dest!: act_frames(3) intro!: loggedI)
  next
    case remember
    then show ?thesis using turn reply frame
      by (auto simp: act_bind_Done Let_def render_step_def step_row_fields payload_str_def payload_get note_executed_def external_call_step
          split: if_splits dest!: act_frames(4) intro!: loggedI)
  next
    case call
    then have "tool_turn E uid tenant rest lp ?s2 = (Done (Continue lp'), s')"
      using turn reply by (auto simp: act_bind_Done Let_def split: if_splits)
    from tool_turn_Continue [OF this frame] plain reply call(3) show ?thesis by (force simp: plain_llm_def plain_server_def)
  next
    case other
    then show ?thesis using turn reply
      by (auto simp: act_bind_Done Let_def split: if_splits option.splits)
  qed
qed

subsection \<open>The loop under way\<close>

text \<open>
  The states of a drive between two turns, for a drive that was just started and for one that was resumed
  from its journal.
\<close>

inductive driving ::
  "agent_env \<Rightarrow> (nat \<Rightarrow> string \<Rightarrow> string \<Rightarrow> error + string) \<Rightarrow> uuid \<Rightarrow> string \<Rightarrow> string \<Rightarrow> agent_state \<Rightarrow> loop_state \<Rightarrow> bool"
  for E llm uid tenant agent where
  driving_start: "run_agent_start E tenant agent question parent s0 = (Done run, s) \<Longrightarrow> rn_id run = uid \<Longrightarrow> clock_ok E s0 \<Longrightarrow>
    session_steps E uid (ag_node s0) = [] \<Longrightarrow>
    driving E llm uid tenant agent s (resume_position E uid (question_line question) (ag_node s))"
| driving_resume: "clock_ok E s \<Longrightarrow>
    driving E llm uid tenant agent s (resume_position E uid (rebuild_agent_transcript E uid (ag_node s)) (ag_node s))"
| driving_turn: "driving E llm uid tenant agent s lp \<Longrightarrow> agent_turn E llm uid tenant agent lp s = (Done (Continue lp'), s') \<Longrightarrow>
    driving E llm uid tenant agent s' lp'"

text \<open>
  The words by which a resumed drive counts the calls occur in the text of the journaled tool steps only
  where the driver writes them: once in an external call, not at all in a search or in a remembered text.
  It is a condition on the texts alone and says nothing of the counter.
\<close>

definition no_imitation :: "agent_env \<Rightarrow> event_row list \<Rightarrow> bool" where
  "no_imitation E steps \<longleftrightarrow> (\<forall>r \<in> set steps. er_event_type r = ''tool_call'' \<longrightarrow>
    calls_in (render_step E r) = (if external_call r then 1 else 0))"

definition in_step :: "agent_env \<Rightarrow> uuid \<Rightarrow> agent_state \<Rightarrow> loop_state \<Rightarrow> bool" where
  "in_step E uid s lp \<longleftrightarrow> clock_ok E s \<and> whole_lines (lp_transcript lp) \<and>
    lp_transcript lp = concat (map (render_step E) (session_steps E uid (ag_node s))) \<and>
    lp_tool_seq lp = calls_in (lp_transcript lp) \<and> lp_executed lp = fold note_executed (session_steps E uid (ag_node s)) []"

lemma journal_steps:
  assumes "mono (ae_now E)" "clock_ok E s" "ag_tick s \<le> n" "Suc n < ag_tick s'"
    and "journal (ag_node s') = journal (ag_node s) @ [step_row E uid tenant et payload n]"
  shows "session_steps E uid (ag_node s') = session_steps E uid (ag_node s) @ [step_row E uid tenant et payload n]"
    and "clock_ok E s'"
proof -
  have now: "ae_now E (ag_tick s) \<le> ae_now E (Suc n)" "ae_now E (Suc n) \<le> ae_now E (ag_tick s')"
    using assms(1,3,4) by (auto intro: monoD)
  have old: "\<forall>r \<in> set (journal (ag_node s)). er_ts r \<le> ae_now E (Suc n)"
    using assms(2) now(1) unfolding clock_ok_def by force
  then show "session_steps E uid (ag_node s') = session_steps E uid (ag_node s) @ [step_row E uid tenant et payload n]"
    by (intro session_steps_snoc [OF assms(5)]) (auto simp: step_row_fields)
  show "clock_ok E s'" unfolding clock_ok_def assms(5) using old now(2) by (auto simp: step_row_fields intro: order_trans)
qed

lemma run_write_frames:
  "agent_run_create E tenant agent parent input s = (Done run, s') \<Longrightarrow> journal (ag_node s') = journal (ag_node s) \<and> ag_tick s \<le> ag_tick s'"
  "agent_run_update E uid patch s = (r, s') \<Longrightarrow> journal (ag_node s') = journal (ag_node s) \<and> ag_tick s \<le> ag_tick s'"
  by (auto simp: agent_run_create_def agent_run_update_def act_bind_def Let_def client_write_def apply_request_def on_runs_def journal_def
      split: if_splits option.splits prod.splits outcome.splits)

lemma started_journal:
  assumes "run_agent_start E tenant agent question parent s0 = (Done run, s)"
  shows "\<exists>n. ag_tick s0 \<le> n \<and> Suc n < ag_tick s \<and>
    journal (ag_node s) = journal (ag_node s0) @ [step_row E (rn_id run) tenant ''run_start'' (JObj [(''question'', JStr question)]) n]"
proof -
  obtain run0 s1 r s2 where create: "agent_run_create E tenant (Some agent) parent (JObj [(''question'', JStr question)]) s0 = (Done run0, s1)"
    and upd: "agent_run_update E (rn_id run0) (no_patch\<lparr>rp_status := Some Running, rp_started_at := Some (ae_now E (ag_tick s1))\<rparr>)
      (s1\<lparr>ag_tick := ag_tick s1 + 1\<rparr>) = (r, s2)"
    and log: "run_log_step E (rn_id run0) tenant ''run_start'' (JObj [(''question'', JStr question)]) s2 = (Done (), s)"
    and run: "rn_id run = rn_id run0"
    using assms by (auto simp: run_agent_start_def act_bind_Done act_ignore_Done split: if_splits)
  have "journal (ag_node s2) = journal (ag_node s0)" "ag_tick s0 \<le> ag_tick s2"
    using run_write_frames(1) [OF create] run_write_frames(2) [OF upd] by auto
  then show ?thesis using run_log_step_Done [OF log] run by auto
qed

lemma driving_turn_logged:
  assumes "agent_turn E llm uid tenant agent lp s = (Done (Continue lp'), s')" "mono (ae_now E)" "plain_llm E llm" "clock_ok E s"
  obtains row where "session_steps E uid (ag_node s') = session_steps E uid (ag_node s) @ [row]" "clock_ok E s'"
    and "er_event_type row = ''tool_call''"
    and "lp_transcript lp' = lp_transcript lp @ render_step E row" "lp_executed lp' = note_executed row (lp_executed lp)"
    and "lp_tool_seq lp' = lp_tool_seq lp + (if external_call row then 1 else 0)"
proof -
  obtain payload n where n: "ag_tick s \<le> n" "Suc n < ag_tick s'"
    "journal (ag_node s') = journal (ag_node s) @ [step_row E uid tenant ''tool_call'' payload n]"
    and lp': "lp_transcript lp' = lp_transcript lp @ render_step E (step_row E uid tenant ''tool_call'' payload n)"
      "lp_executed lp' = note_executed (step_row E uid tenant ''tool_call'' payload n) (lp_executed lp)"
      "lp_tool_seq lp' = lp_tool_seq lp + (if external_call (step_row E uid tenant ''tool_call'' payload n) then 1 else 0)"
    using agent_turn_Continue [OF assms(1,3)] unfolding logged_def Let_def by blast
  show ?thesis by (rule that [OF journal_steps [OF assms(2,4) n] step_row_fields(2) lp'])
qed

lemma driving_clock:
  assumes "driving E llm uid tenant agent s lp" "mono (ae_now E)" "plain_llm E llm"
  shows "clock_ok E s"
  using assms(1)
proof induction
  case (driving_start question parent s0 run s)
  then show ?case using started_journal [OF driving_start(1)] journal_steps(2) [OF assms(2)] by blast
next
  case (driving_turn s lp lp' s')
  then show ?case using driving_turn_logged [OF driving_turn(2) assms(2,3)] by blast
qed

lemma whole_lines_steps: "whole_lines (concat (map (render_step E) steps))"
  by (induction steps) (auto intro: whole_lines_append render_whole_lines simp: whole_lines_def [of "[]"])

lemma driving_in_step:
  assumes "driving E llm uid tenant agent s lp" "mono (ae_now E)" "plain_llm E llm"
    and "no_imitation E (session_steps E uid (ag_node s))"
  shows "in_step E uid s lp"
  using assms(1,4)
proof induction
  case (driving_start question parent s0 run s)
  obtain n where n: "ag_tick s0 \<le> n" "Suc n < ag_tick s"
    "journal (ag_node s) = journal (ag_node s0) @ [step_row E uid tenant ''run_start'' (JObj [(''question'', JStr question)]) n]"
    using started_journal [OF driving_start(1)] driving_start(2) by blast
  note steps = journal_steps [OF assms(2) driving_start(3) n]
  have "render_step E (step_row E uid tenant ''run_start'' (JObj [(''question'', JStr question)]) n) = question_line question"
    by (simp add: render_step_def step_row_fields payload_str_def payload_get)
  then show ?case using steps driving_start(4) render_whole_lines [of E "step_row E uid tenant ''run_start'' (JObj [(''question'', JStr question)]) n"]
    by (simp add: in_step_def resume_position_def executed_steps)
next
  case (driving_resume s)
  then show ?case by (simp add: in_step_def resume_position_def rebuild_steps executed_steps whole_lines_steps)
next
  case (driving_turn s lp lp' s')
  have clock: "clock_ok E s" by (rule driving_clock [OF driving_turn(1) assms(2,3)])
  obtain row where row: "session_steps E uid (ag_node s') = session_steps E uid (ag_node s) @ [row]" "clock_ok E s'"
    "er_event_type row = ''tool_call''" "lp_transcript lp' = lp_transcript lp @ render_step E row"
    "lp_executed lp' = note_executed row (lp_executed lp)" "lp_tool_seq lp' = lp_tool_seq lp + (if external_call row then 1 else 0)"
    by (rule driving_turn_logged [OF driving_turn(2) assms(2,3) clock])
  have own: "no_imitation E (session_steps E uid (ag_node s))" "calls_in (render_step E row) = (if external_call row then 1 else 0)"
    using driving_turn.prems row(1,3) by (auto simp: no_imitation_def)
  show ?case using driving_turn.IH [OF own(1)] row own(2) unfolding in_step_def
    by (simp add: whole_lines_steps calls_in_append whole_lines_append render_whole_lines)
qed

text \<open>C13: a run resumes exactly where it stopped, whether its drive was started afresh or already resumed.
  Between any two turns of a drive, and at any point inside a turn before its step is journaled, the
  position rebuilt from the journal is the live one: the same transcript, the same number of calls made,
  so that an external call cut off by a crash is repeated under the same idempotency key, and the same
  ledger of results. This needs a clock that does not go back, server names without a slash, and tool
  steps whose texts do not imitate the words of the driver's own call lines.\<close>

theorem resume_exact:
  assumes "driving E llm uid tenant agent s lp" "mono (ae_now E)"
    and "plain_llm E llm"
    and "no_imitation E (session_steps E uid (ag_node s))"
    and "journal (ag_node crashed) = journal (ag_node s)"
  shows "resume_position E uid (rebuild_agent_transcript E uid (ag_node crashed)) (ag_node crashed) = lp"
proof -
  have "session_steps E uid (ag_node crashed) = session_steps E uid (ag_node s)" using assms(5) by (simp add: session_steps_def)
  then show ?thesis using driving_in_step [OF assms(1-4)]
    by (simp add: in_step_def resume_position_def rebuild_steps executed_steps)
qed

subsection \<open>A small instance\<close>

definition demo_env :: agent_env where
  "demo_env = \<lparr>ae_now = int, ae_sql_now = (\<lambda>_. []), ae_uuid = of_nat, ae_uuid_str = (\<lambda>u. show_nat (unat u)), ae_rfc3339 = (\<lambda>_. ''t''),
    ae_json_str = (\<lambda>_. ''{}''), ae_parse_json = (\<lambda>_. None), ae_error_str = (\<lambda>_. ''e''),
    ae_complete = Some (\<lambda>_ _ _. Inr ''TOOL call mail send: {}''),
    ae_call_tool = Some (\<lambda>_ _ _ _. Inr (JObj [(''ok'', JBool True)])), ae_replicator = False, ae_replicate = (\<lambda>_ _. None),
    ae_is_leader = (\<lambda>_. True), ae_driver_id = ''d'', ae_ports = search_demo_ports, ae_search = search_demo, ae_cfg = search_demo_cfg,
    ae_batch_size = 8, ae_embed_documents = None, ae_runs_fail = (\<lambda>_. None)\<rparr>"

definition demo_agent_state :: agent_state where
  "demo_agent_state = \<lparr>ag_node = node_new 2, ag_tick = 0, ag_calls = []\<rparr>"

definition demo_started :: agent_state where
  "demo_started = snd (run_agent_start demo_env ''acme'' ''bot'' ''why'' None demo_agent_state)"

definition demo_position :: loop_state where
  "demo_position = resume_position demo_env 1 (question_line ''why'') (ag_node demo_started)"

definition demo_next :: loop_state where
  "demo_next = \<lparr>lp_transcript = question_line ''why'' @ call_lines ''mail'' ''send'' ''{}'', lp_tool_seq = 1,
    lp_executed = [(idem_key demo_env 1 0, JObj [(''ok'', JBool True)])]\<rparr>"

definition demo_llm :: "nat \<Rightarrow> string \<Rightarrow> string \<Rightarrow> error + string" where
  "demo_llm = the (ae_complete demo_env)"

lemma demo_driving:
  "driving demo_env demo_llm 1 ''acme'' ''bot'' (snd (agent_turn demo_env demo_llm 1 ''acme'' ''bot'' demo_position demo_started)) demo_next"
proof -
  have "map_outcome rn_id (fst (run_agent_start demo_env ''acme'' ''bot'' ''why'' None demo_agent_state)) = Done 1" by code_simp
  then obtain run where run: "run_agent_start demo_env ''acme'' ''bot'' ''why'' None demo_agent_state = (Done run, demo_started)" "rn_id run = 1"
    unfolding demo_started_def
    by (cases "run_agent_start demo_env ''acme'' ''bot'' ''why'' None demo_agent_state"; cases "fst (run_agent_start demo_env ''acme'' ''bot'' ''why'' None demo_agent_state)") auto
  have start: "driving demo_env demo_llm 1 ''acme'' ''bot'' demo_started demo_position"
    unfolding demo_position_def
    by (rule driving_start [OF run]) (simp_all add: clock_ok_def session_steps_def journal_def demo_agent_state_def node_new_def ep_new_def)
  have "fst (agent_turn demo_env demo_llm 1 ''acme'' ''bot'' demo_position demo_started) = Done (Continue demo_next)" by code_simp
  then have turn: "agent_turn demo_env demo_llm 1 ''acme'' ''bot'' demo_position demo_started =
      (Done (Continue demo_next), snd (agent_turn demo_env demo_llm 1 ''acme'' ''bot'' demo_position demo_started))"
    by (simp only: prod_eq_iff fst_conv snd_conv)
  show ?thesis by (rule driving_turn [OF start turn])
qed

theorem resume_exact_witness:
  "let nd = ag_node (snd (agent_turn demo_env demo_llm 1 ''acme'' ''bot'' demo_position demo_started))
   in resume_position demo_env 1 (rebuild_agent_transcript demo_env 1 nd) nd = demo_next"
proof -
  have "mono (ae_now demo_env)" by (simp add: demo_env_def mono_def)
  moreover have "plain_llm demo_env demo_llm"
  proof -
    have "plain_server demo_env ''TOOL call mail send: {}''" by code_simp
    then show ?thesis by (simp add: plain_llm_def demo_llm_def demo_env_def)
  qed
  moreover have "no_imitation demo_env (session_steps demo_env 1 (ag_node (snd (agent_turn demo_env demo_llm 1 ''acme'' ''bot'' demo_position demo_started))))"
    unfolding no_imitation_def by code_simp
  ultimately show ?thesis using resume_exact [OF demo_driving _ _ _ refl] by (simp add: Let_def)
qed

end
