(* ===== verification/Agent_Liveness.thy ===== *)
theory Agent_Liveness
  imports Agent_Resume
begin

text \<open>
  Every drive of a run settles it. On a node without replication whose run ledger takes its writes, whatever
  the model, the tools and the other stores answer, a drive that claimed its run ends, unless the process panics, with the run succeeded,
  failed or waiting for approval and with its lease released. \<open>ends\<close> is the postcondition of an
  operation on every outcome but a panic; \<open>held\<close> says that the driver owns the run's lease.
\<close>

subsection \<open>Ends of an operation\<close>

definition ends :: "'a act \<Rightarrow> agent_state \<Rightarrow> ('a outcome \<Rightarrow> agent_state \<Rightarrow> bool) \<Rightarrow> bool" where
  "ends m s Q \<longleftrightarrow> (case m s of (r, s') \<Rightarrow> r = Panicked \<or> Q r s')"

lemma ends_bind:
  assumes "ends m s (\<lambda>r s'. case r of Done x \<Rightarrow> ends (k x) s' Q | Raised e \<Rightarrow> Q (Raised e) s' | Panicked \<Rightarrow> True)"
  shows "ends (act_bind m k) s Q"
  using assms by (auto simp: ends_def act_bind_def split: prod.splits outcome.splits)

lemma ends_weaken: "ends m s Q \<Longrightarrow> (\<And>r s'. Q r s' \<Longrightarrow> Q' r s') \<Longrightarrow> ends m s Q'"
  by (auto simp: ends_def)

lemma ends_simps [simp]:
  "ends (act_ret x) s Q \<longleftrightarrow> Q (Done x) s" "ends (Pair r) s Q \<longleftrightarrow> r = Panicked \<or> Q r s" "ends (act_raise e) s Q \<longleftrightarrow> Q (Raised e) s"
  "ends (read_env f) s Q \<longleftrightarrow> Q (Done (f (ag_tick s))) (s\<lparr>ag_tick := ag_tick s + 1\<rparr>)" "ends (look g) s Q \<longleftrightarrow> Q (Done (g s)) s"
  by (simp_all add: ends_def)

abbreviation runs_of :: "agent_state \<Rightarrow> run_store" where
  "runs_of s \<equiv> nd_runs (ag_node s)"

definition keeps_runs :: "'a act \<Rightarrow> bool" where
  "keeps_runs m \<longleftrightarrow> (\<forall>s. runs_of (snd (m s)) = runs_of s)"

lemma keeps_runs_ends: "keeps_runs m \<Longrightarrow> ends m s (\<lambda>r s'. runs_of s' = runs_of s)"
  by (auto simp: keeps_runs_def ends_def split: prod.split dest: spec [of _ s])

lemma keeps_runs_bind: "keeps_runs m \<Longrightarrow> (\<And>x. keeps_runs (k x)) \<Longrightarrow> keeps_runs (act_bind m k)"
  by (auto simp: keeps_runs_def act_bind_def split: prod.split outcome.split) (metis snd_conv)+

lemma keeps_runs_simps [simp]:
  "keeps_runs (act_ret x)" "keeps_runs (act_raise e)" "keeps_runs (read_env f)" "keeps_runs (look g)" "keeps_runs (on_state h)"
  by (simp_all add: keeps_runs_def on_state_def split: prod.split)

lemma keeps_runs_ops:
  assumes local: "\<not> ae_replicator E"
  shows "keeps_runs (run_log_step E uid tenant et payload)" "keeps_runs (search_contents E q scope)"
    "keeps_runs (remember E scope text)" "keeps_runs (call_external E server tool args)"
    "keeps_runs (state_set_via_driver E a k v)"
proof -
  have "keeps_runs (node_ingest E evs)" for evs
    by (simp add: keeps_runs_def node_ingest_def Let_def split: prod.split option.split sum.split)
  then show "keeps_runs (run_log_step E uid tenant et payload)"
    using local by (simp add: run_log_step_def keeps_runs_bind Let_def)
  show "keeps_runs (search_contents E q scope)" by (simp add: search_contents_def keeps_runs_bind)
  have "keeps_runs (\<lambda>s. case memory_add P cfg tk i (nd_memory (ag_node s)) of Inl _ \<Rightarrow> (Done (), s)
      | Inr (_, en) \<Rightarrow> (Done (), s\<lparr>ag_node := (ag_node s)\<lparr>nd_memory := en\<rparr>\<rparr>))" for P cfg tk i
    by (simp add: keeps_runs_def split: sum.split prod.split)
  then show "keeps_runs (remember E scope text)" by (simp add: remember_def keeps_runs_bind)
  show "keeps_runs (call_external E server tool args)" by (simp add: keeps_runs_def call_external_def split: option.split)
  show "keeps_runs (state_set_via_driver E a k v)" using local by (simp add: state_set_via_driver_def keeps_runs_bind)
qed

subsection \<open>A run that is being driven\<close>

definition held :: "agent_env \<Rightarrow> uuid \<Rightarrow> agent_state \<Rightarrow> bool" where
  "held E uid s \<longleftrightarrow> run_inv (runs_of s) \<and>
    (\<exists>r. tbl_find rr_id uid (runs_of s) = Some r \<and> rr_lease_owner r = Some (ae_driver_id E))"

definition has_status :: "uuid \<Rightarrow> run_status \<Rightarrow> agent_state \<Rightarrow> bool" where
  "has_status uid st s \<longleftrightarrow> map_option rn_status (run_get uid (runs_of s)) = Some st"

lemma held_cong: "runs_of s' = runs_of s \<Longrightarrow> held E uid s' = held E uid s"
  "runs_of s' = runs_of s \<Longrightarrow> has_status uid st s' = has_status uid st s"
  by (simp_all add: held_def has_status_def)

lemma held_tick [simp]: "held E uid (s\<lparr>ag_tick := n\<rparr>) = held E uid s" "has_status uid st (s\<lparr>ag_tick := n\<rparr>) = has_status uid st s"
  by (simp_all add: held_def has_status_def)

text \<open>Every write to the run ledger takes effect.\<close>

definition ledger_ok :: "agent_env \<Rightarrow> bool" where
  "ledger_ok E \<longleftrightarrow> (\<forall>n. ae_runs_fail E n = None)"

lemma try_claim_effect:
  "ae_runs_fail E (ag_tick s + 1) = None \<Longrightarrow> run_try_claim E uid s = (Done (fst (try_claim_lease (ae_rfc3339 E) uid (ae_driver_id E) (ae_now E (ag_tick s))
       (ae_now E (ag_tick s) + lease_ttl) (runs_of s))),
     s\<lparr>ag_tick := ag_tick s + 2, ag_node := (ag_node s)\<lparr>nd_runs := snd (try_claim_lease (ae_rfc3339 E) uid (ae_driver_id E)
       (ae_now E (ag_tick s)) (ae_now E (ag_tick s) + lease_ttl) (runs_of s))\<rparr>\<rparr>)"
  by (simp add: run_try_claim_def act_bind_def on_runs_def Let_def split: prod.split)

lemma try_claim_ledger: "run_try_claim E uid s = (Done b, s') \<Longrightarrow> ae_runs_fail E (ag_tick s + 1) = None"
  by (auto simp: run_try_claim_def act_bind_def on_runs_def Let_def split: option.splits prod.splits)

lemma claimed_held:
  assumes "run_inv (runs_of s)" and "run_try_claim E uid s = (Done True, s')"
  shows "held E uid s'"
proof -
  let ?c = "try_claim_lease (ae_rfc3339 E) uid (ae_driver_id E) (ae_now E (ag_tick s)) (ae_now E (ag_tick s) + lease_ttl) (runs_of s)"
  have "fst ?c" and s': "runs_of s' = snd ?c" using assms(2) try_claim_ledger [OF assms(2)] by (auto simp: try_claim_effect)
  then obtain r where r: "tbl_find rr_id uid (runs_of s) = Some r"
    and c: "rr_lease_owner r = None \<or> rr_lease_owner r = Some (ae_driver_id E) \<or>
      (case rr_lease_expires_at r of None \<Rightarrow> True | Some x \<Rightarrow> x \<le> ae_rfc3339 E (ae_now E (ag_tick s)))"
    using claim_ok [OF assms(1)] by blast
  have "tbl_find rr_id uid (snd ?c) = Some (r\<lparr>rr_lease_owner := Some (ae_driver_id E),
      rr_lease_expires_at := Some (ae_rfc3339 E (ae_now E (ag_tick s) + lease_ttl))\<rparr>)"
    using c by (simp add: claim_find r)
  then show ?thesis using run_inv_steps(1) [OF assms(1)] by (simp add: held_def s')
qed

lemma held_claims:
  assumes "ledger_ok E" "held E uid s"
  shows "\<exists>s'. run_try_claim E uid s = (Done True, s') \<and> held E uid s'"
proof -
  have "fst (try_claim_lease (ae_rfc3339 E) uid (ae_driver_id E) now e (runs_of s))" for now e
    using assms(2) claim_ok [of "runs_of s"] by (auto simp: held_def)
  then have "\<exists>s'. run_try_claim E uid s = (Done True, s')" using assms(1) by (simp add: try_claim_effect ledger_ok_def)
  then show ?thesis using claimed_held assms by (metis held_def)
qed

lemma updated_find:
  assumes "tbl_find rr_id uid st = Some r"
  shows "tbl_find rr_id uid (snd (run_update uid p t st)) = Some (r\<lparr>rr_run := patched_run p t (rr_run r)\<rparr>)"
proof -
  have "tbl_find rr_id uid (snd (run_update uid p t st)) =
      map_option (\<lambda>r. if rr_id r = uid then r\<lparr>rr_run := patched_run p t (rr_run r)\<rparr> else r) (tbl_find rr_id uid st)"
    unfolding run_update_def Let_def snd_conv by (rule tbl_find_update) simp
  then show ?thesis using assms tbl_find_Some [OF assms] by simp
qed

lemma held_updates:
  assumes local: "\<not> ae_replicator E" and ledger: "ledger_ok E" and h: "held E uid s"
  shows "\<exists>b s'. agent_run_update E uid p s = (Done b, s') \<and> held E uid s' \<and> (\<forall>st. rp_status p = Some st \<longrightarrow> has_status uid st s')"
proof -
  let ?u = "run_update uid p (ae_now E (ag_tick s)) (runs_of s)"
  have run: "agent_run_update E uid p s = (Done (fst ?u), s\<lparr>ag_tick := ag_tick s + 2, ag_node := (ag_node s)\<lparr>nd_runs := snd ?u\<rparr>\<rparr>)"
    using local ledger by (simp add: agent_run_update_def act_bind_def on_runs_def Let_def ledger_ok_def split: prod.split)
  obtain r where r: "tbl_find rr_id uid (runs_of s) = Some r" "rr_lease_owner r = Some (ae_driver_id E)" "run_inv (runs_of s)"
    using h by (auto simp: held_def)
  then show ?thesis using run r run_inv_steps(4) [OF r(3)] updated_find [OF r(1)]
    by (auto simp: held_def has_status_def run_get_def patched_run_def coalesce_def)
qed

lemma held_current:
  assumes "held E uid s"
  shows "\<exists>run. current_run uid s = (Done run, s) \<and> run_get uid (runs_of s) = Some run"
  using assms by (auto simp: held_def current_run_def agent_run_get_def act_bind_def run_get_def)

subsection \<open>A turn keeps the run held\<close>

lemma ends_held_bind:
  assumes "keeps_runs m" and "held E uid s"
    and "\<And>x s'. held E uid s' \<Longrightarrow> ends (k x) s' Q" and "\<And>e s'. held E uid s' \<Longrightarrow> Q (Raised e) s'"
  shows "ends (act_bind m k) s Q"
proof (rule ends_bind)
  have "held E uid (snd (m s))" using assms(1,2) held_cong(1) [of "snd (m s)" s] by (simp add: keeps_runs_def)
  then show "ends m s (\<lambda>r s'. case r of Done x \<Rightarrow> ends (k x) s' Q | Raised e \<Rightarrow> Q (Raised e) s' | Panicked \<Rightarrow> True)"
    using assms(3,4) by (auto simp: ends_def [of m] split: prod.splits outcome.splits)
qed

definition turn_ok :: "agent_env \<Rightarrow> uuid \<Rightarrow> turn outcome \<Rightarrow> agent_state \<Rightarrow> bool" where
  "turn_ok E uid r s \<longleftrightarrow> held E uid s \<and>
    (case r of Done (Stopped run) \<Rightarrow> run_get uid (runs_of s) = Some run \<and> rn_status run = WaitingApproval | _ \<Rightarrow> True)"

lemma turn_ok_simps [simp]:
  "turn_ok E uid (Raised e) s = held E uid s" "turn_ok E uid (Done (Continue lp)) s = held E uid s"
  "turn_ok E uid (Done (Answered a)) s = held E uid s"
  "turn_ok E uid (Done (Stopped run)) s = (held E uid s \<and> run_get uid (runs_of s) = Some run \<and> rn_status run = WaitingApproval)"
  by (simp_all add: turn_ok_def)

lemma tool_turn_ok:
  assumes local: "\<not> ae_replicator E" and ledger: "ledger_ok E" and h: "held E uid s"
  shows "ends (tool_turn E uid tenant rest lp) s (turn_ok E uid)"
proof -
  have log: "ends (log_call E uid tenant lp a b i r ex) s' (turn_ok E uid)" if "held E uid s'" for a b i r ex s'
    unfolding log_call_def by (rule ends_held_bind [OF keeps_runs_ops(1) [OF local] that]) simp_all
  obtain server tool args where call: "parse_call E rest = (server, tool, args)" by (cases "parse_call E rest")
  show ?thesis
  proof (cases "map_of (lp_executed lp) (idem_key E uid (lp_tool_seq lp))")
    case None
    have "ends (act_bind (call_external E server tool a) (\<lambda>r. log_call E uid tenant lp server tool i r (ex r))) s (turn_ok E uid)" for a i ex
      by (rule ends_held_bind [OF keeps_runs_ops(4) [OF local] h]) (simp_all add: log)
    then show ?thesis using None local by (simp add: tool_turn_def call Let_def act_bind_def act_ret_def ends_def)
  next
    case (Some prev)
    then show ?thesis using log [OF h] by (simp add: tool_turn_def call Let_def)
  qed
qed

lemma stopped_waiting:
  assumes "held E uid s" and "has_status uid WaitingApproval s"
  shows "ends (act_bind (current_run uid) (\<lambda>run. act_ret (Stopped run))) s (turn_ok E uid)"
  using held_current [OF assms(1)] assms by (auto simp: ends_def act_bind_def act_ret_def has_status_def)

lemma approval_turn_ok:
  assumes local: "\<not> ae_replicator E" and ledger: "ledger_ok E" and h: "held E uid s"
  shows "ends (act_bind (run_request_approval E uid tenant prompt) (\<lambda>_.
    act_bind (current_run uid) (\<lambda>run. act_ret (Stopped run)))) s (turn_ok E uid)"
proof (rule ends_bind)
  let ?Q = "\<lambda>r s'. held E uid s' \<and> (r = Done () \<longrightarrow> has_status uid WaitingApproval s')"
  have log: "ends (run_log_step E uid tenant et p) s' ?Q" if "held E uid s'" "has_status uid WaitingApproval s'" for et p s'
    using that keeps_runs_ops(1) [OF local] held_cong [of "snd (run_log_step E uid tenant et p s')" s']
    by (auto simp: ends_def keeps_runs_def split: prod.split)
  have upd: "ends (act_bind (agent_run_update E uid (no_patch\<lparr>rp_status := Some WaitingApproval\<rparr>)) (\<lambda>_. run_log_step E uid tenant et p)) s' ?Q"
    if "held E uid s'" for et p s'
    using held_updates [OF local ledger that, of "no_patch\<lparr>rp_status := Some WaitingApproval\<rparr>"] log [of _ et p]
    by (intro ends_bind) (auto simp: ends_def [of "agent_run_update E uid q" for q])
  have "ends (run_request_approval E uid tenant prompt) s ?Q"
    unfolding run_request_approval_def by (rule ends_held_bind [OF keeps_runs_ops(5) [OF local] h]) (simp_all add: upd)
  then show "ends (run_request_approval E uid tenant prompt) s (\<lambda>r s'. case r of
      Done _ \<Rightarrow> ends (act_bind (current_run uid) (\<lambda>run. act_ret (Stopped run))) s' (turn_ok E uid)
    | Raised e \<Rightarrow> turn_ok E uid (Raised e) s' | Panicked \<Rightarrow> True)"
    using stopped_waiting by (auto simp: ends_def [of "run_request_approval E uid tenant prompt"] split: prod.splits outcome.splits)
qed

lemma agent_turn_ok:
  assumes local: "\<not> ae_replicator E" and ledger: "ledger_ok E" and h: "held E uid s"
  shows "ends (agent_turn E llm uid tenant agent_id lp) s (turn_ok E uid)"
proof -
  have search: "ends (act_bind (search_contents E q sc) (\<lambda>rs. act_bind (run_log_step E uid tenant et (p rs)) (\<lambda>_. act_ret (Continue (l rs))))) s'
      (turn_ok E uid)" if "held E uid s'" for q sc et p l s'
    by (intro ends_held_bind [OF keeps_runs_ops(2) [OF local] that] ends_held_bind [OF keeps_runs_ops(1) [OF local]]) simp_all
  have rem: "ends (act_bind (remember E sc t) (\<lambda>_. act_bind (run_log_step E uid tenant et p) (\<lambda>_. act_ret (Continue l)))) s'
      (turn_ok E uid)" if "held E uid s'" for sc t et p l s'
    by (intro ends_held_bind [OF keeps_runs_ops(3) [OF local] that] ends_held_bind [OF keeps_runs_ops(1) [OF local]]) simp_all
  have ans: "ends (act_bind (run_log_step E uid tenant et p) (\<lambda>_. act_ret (Answered a))) s' (turn_ok E uid)"
    if "held E uid s'" for et p a s'
    by (rule ends_held_bind [OF keeps_runs_ops(1) [OF local] that]) simp_all
  obtain s1 where claim: "run_try_claim E uid s = (Done True, s1)" and h1: "held E uid s1" using held_claims [OF ledger h] by blast
  show ?thesis
    unfolding agent_turn_def
    by (rule ends_bind)
      (simp add: ends_def [of "run_try_claim E uid"] claim, rule ends_bind,
       simp add: h1 search rem ans tool_turn_ok [OF local ledger] approval_turn_ok [OF local ledger] Let_def split: sum.split option.split)
qed

subsection \<open>The drive\<close>

definition loop_ok :: "agent_env \<Rightarrow> uuid \<Rightarrow> loop_end outcome \<Rightarrow> agent_state \<Rightarrow> bool" where
  "loop_ok E uid r s \<longleftrightarrow> held E uid s \<and>
    (case r of Done (EndStopped run) \<Rightarrow> run_get uid (runs_of s) = Some run \<and> rn_status run = WaitingApproval | _ \<Rightarrow> True)"

lemma loop_ok_simps [simp]:
  "loop_ok E uid (Raised e) s = held E uid s" "loop_ok E uid (Done (EndAnswer a)) s = held E uid s"
  "loop_ok E uid (Done (EndStopped run)) s = (held E uid s \<and> run_get uid (runs_of s) = Some run \<and> rn_status run = WaitingApproval)"
  by (simp_all add: loop_ok_def)

lemma drive_turns_ok:
  assumes local: "\<not> ae_replicator E" and ledger: "ledger_ok E" and "held E uid s"
  shows "ends (drive_turns E llm uid tenant agent_id n lp) s (loop_ok E uid)"
  using assms(3)
proof (induction n arbitrary: s lp)
  case 0
  then show ?case by simp
next
  case (Suc n)
  have "ends (agent_turn E llm uid tenant agent_id lp) s (\<lambda>r s'. case r of
      Done t \<Rightarrow> ends (case t of Continue lp' \<Rightarrow> drive_turns E llm uid tenant agent_id n lp' | Stopped run \<Rightarrow> act_ret (EndStopped run)
        | Answered ans \<Rightarrow> act_ret (EndAnswer (Some ans))) s' (loop_ok E uid)
    | Raised e \<Rightarrow> loop_ok E uid (Raised e) s' | Panicked \<Rightarrow> True)"
    using agent_turn_ok [OF local ledger Suc.prems, of llm tenant agent_id lp] Suc.IH
    by (auto simp: ends_def [of "agent_turn E llm uid tenant agent_id lp"] split: prod.splits outcome.splits turn.splits)
  then show ?case by (simp add: ends_bind)
qed

definition settled :: "run_status \<Rightarrow> bool" where
  "settled st \<longleftrightarrow> st = Succeeded \<or> st = Failed \<or> st = WaitingApproval"

text \<open>The outcome of the inner loop: an error leaves the run held, a run that is returned is the stored one and settled.\<close>

definition inner_ok :: "agent_env \<Rightarrow> uuid \<Rightarrow> run outcome \<Rightarrow> agent_state \<Rightarrow> bool" where
  "inner_ok E uid r s \<longleftrightarrow> held E uid s \<and>
    (case r of Done run \<Rightarrow> run_get uid (runs_of s) = Some run \<and> settled (rn_status run) | _ \<Rightarrow> True)"

lemma inner_ok_simps [simp]:
  "inner_ok E uid (Raised e) s = held E uid s"
  "inner_ok E uid (Done run) s = (held E uid s \<and> run_get uid (runs_of s) = Some run \<and> settled (rn_status run))"
  by (simp_all add: inner_ok_def)

lemma update_current_ok:
  assumes local: "\<not> ae_replicator E" and ledger: "ledger_ok E" and h: "held E uid s" and p: "rp_status p = Some st" "settled st"
  shows "ends (act_bind (agent_run_update E uid p) (\<lambda>_. current_run uid)) s (inner_ok E uid)"
proof -
  obtain b s1 where s1: "agent_run_update E uid p s = (Done b, s1)" "held E uid s1" "has_status uid st s1"
    using held_updates [OF local ledger h, of p] p(1) by blast
  obtain run where "current_run uid s1 = (Done run, s1)" "run_get uid (runs_of s1) = Some run" using held_current [OF s1(2)] by blast
  then show ?thesis using s1 p(2) by (simp add: ends_def act_bind_def inner_ok_def has_status_def)
qed

lemma inner_loop_ok:
  assumes local: "\<not> ae_replicator E" and ledger: "ledger_ok E" and h: "held E uid s"
  shows "ends (drive_agent_loop_inner E uid tenant agent_id transcript n) s (inner_ok E uid)"
proof (cases "ae_complete E")
  case None
  then show ?thesis using h by (simp add: drive_agent_loop_inner_def)
next
  case (Some llm)
  let ?T = "drive_turns E llm uid tenant agent_id (max n 1)"
  let ?patch = "\<lambda>ans now. case ans of
      Some a \<Rightarrow> no_patch\<lparr>rp_status := Some Succeeded, rp_result := Some (JObj [(''answer'', JStr a)]), rp_ended_at := Some now\<rparr>
    | None \<Rightarrow> no_patch\<lparr>rp_status := Some Failed, rp_error := Some ''max turns exceeded without a final answer'', rp_ended_at := Some now\<rparr>"
  have answered: "ends (act_bind (read_env (ae_now E)) (\<lambda>now. act_bind (agent_run_update E uid (?patch ans now)) (\<lambda>_. current_run uid))) s'
      (inner_ok E uid)" if "held E uid s'" for ans s'
    using that by (intro ends_bind) (auto split: option.split intro!: update_current_ok [OF local ledger] simp: settled_def no_patch_def)
  have turns: "ends (?T lp) s (\<lambda>r s'. case r of
      Done e \<Rightarrow> ends (case e of EndStopped run \<Rightarrow> act_ret run | EndAnswer ans \<Rightarrow>
        act_bind (read_env (ae_now E)) (\<lambda>now. act_bind (agent_run_update E uid (?patch ans now)) (\<lambda>_. current_run uid))) s' (inner_ok E uid)
    | Raised e \<Rightarrow> inner_ok E uid (Raised e) s' | Panicked \<Rightarrow> True)" for lp
    by (rule ends_weaken [OF drive_turns_ok [OF local ledger h]])
      (auto simp: answered settled_def split: outcome.splits loop_end.splits)
  show ?thesis unfolding drive_agent_loop_inner_def Some option.case 
    by (rule ends_bind) (simp only: ends_simps outcome.case, rule ends_bind [OF turns])
qed

lemma released_find:
  assumes "tbl_find rr_id uid st = Some r" and "rr_lease_owner r = Some w"
  shows "tbl_find rr_id uid (release_lease uid w st) = Some (r\<lparr>rr_lease_owner := None, rr_lease_expires_at := None\<rparr>)"
proof -
  have "tbl_find rr_id uid (release_lease uid w st) =
      map_option (\<lambda>r. if rr_id r = uid \<and> rr_lease_owner r = Some w
        then r\<lparr>rr_lease_owner := None, rr_lease_expires_at := None\<rparr> else r) (tbl_find rr_id uid st)"
    unfolding release_lease_def by (rule tbl_find_update) simp
  then show ?thesis using assms tbl_find_Some [OF assms(1)] by simp
qed

definition resting :: "uuid \<Rightarrow> run \<Rightarrow> agent_state \<Rightarrow> bool" where
  "resting uid run s \<longleftrightarrow> settled (rn_status run) \<and>
    (\<exists>r. tbl_find rr_id uid (runs_of s) = Some r \<and> rr_run r = run \<and> rr_lease_owner r = None)"

lemma release_rests:
  assumes "ledger_ok E" "held E uid s" and "run_release_lease E uid s = (x, s')"
  shows "\<exists>r. tbl_find rr_id uid (runs_of s') = Some r \<and> run_get uid (runs_of s) = Some (rr_run r) \<and> rr_lease_owner r = None"
  using assms released_find [of uid "runs_of s" _ "ae_driver_id E"]
  by (auto simp: held_def run_release_lease_def act_ignore_def on_runs_def Let_def ledger_ok_def run_get_def)

lemma fail_rests:
  assumes local: "\<not> ae_replicator E" and ledger: "ledger_ok E" and r: "tbl_find rr_id uid (runs_of s) = Some r" "rr_lease_owner r = None"
    and p: "rp_status p = Some st" "settled st"
  shows "\<exists>b s' run. agent_run_update E uid p s = (Done b, s') \<and> resting uid run s'"
proof -
  let ?u = "run_update uid p (ae_now E (ag_tick s)) (runs_of s)"
  have run: "agent_run_update E uid p s = (Done (fst ?u), s\<lparr>ag_tick := ag_tick s + 2, ag_node := (ag_node s)\<lparr>nd_runs := snd ?u\<rparr>\<rparr>)"
    using local ledger by (simp add: agent_run_update_def act_bind_def on_runs_def Let_def ledger_ok_def split: prod.split)
  then show ?thesis using updated_find [OF r(1)] r(2) p by (auto simp: resting_def patched_run_def coalesce_def)
qed

text \<open>
  When the ledger refuses the writes after the first turn, the drive still ends, and the stored run stays
  running under the driver's lease.
\<close>

lemma drive_stuck:
  "let E = demo_env\<lparr>ae_runs_fail := (\<lambda>n. if n < 12 then None else Some (State ''disk full''))\<rparr>;
       (out, s') = drive_agent_loop E 1 ''acme'' ''bot'' (question_line ''why'') 2 demo_started
   in out = Raised (State ''disk full'') \<and>
      map_option (\<lambda>r. (rn_status (rr_run r), rr_lease_owner r)) (tbl_find rr_id 1 (runs_of s')) = Some (Running, Some ''d'')"
  by code_simp

text \<open>C14: A drive settles its run. On a node without replication whose run ledger takes its writes, when the
  driver's claim of the run succeeds, then whatever the model answers or fails with, whatever the tools
  return and whatever the journal, memory and state writes answer, the drive ends, unless the process
  panics, with the stored run succeeded, failed or waiting for approval and nobody holding its lease; a
  run that the drive returns is the stored one, and an error it raises leaves the run settled too, not
  stuck as running. The condition on the ledger is needed: the driver drops the errors of the release and
  of the write that marks a run failed (\<open>drive_stuck\<close>).\<close>

theorem agent_drive_settles:
  assumes "\<not> ae_replicator E" and "ledger_ok E" and "run_inv (nd_runs (ag_node s))"
    and "fst (run_try_claim E uid s) = Done True"
    and "drive_agent_loop E uid tenant agent_id transcript max_turns s = (out, s')" and "out \<noteq> Panicked"
  shows "\<exists>run. resting uid run s' \<and> (\<forall>x. out = Done x \<longrightarrow> x = run)"
proof -
  obtain s1 where claim: "run_try_claim E uid s = (Done True, s1)" using assms(4) by (cases "run_try_claim E uid s") auto
  have h1: "held E uid s1" by (rule claimed_held [OF assms(3) claim])
  obtain r2 s2 where inner: "drive_agent_loop_inner E uid tenant agent_id transcript max_turns s1 = (r2, s2)" by fastforce
  have drive: "drive_agent_loop E uid tenant agent_id transcript max_turns s = (case (r2, s2) of
      (Panicked, s1) \<Rightarrow> (Panicked, s1) | (Done run, s1) \<Rightarrow> act_bind (run_release_lease E uid) (\<lambda>_. act_ret run) s1
    | (Raised e, s1) \<Rightarrow> act_bind (run_release_lease E uid) (\<lambda>_. act_bind (read_env (ae_now E)) (\<lambda>now.
        act_bind (act_ignore (agent_run_update E uid (no_patch\<lparr>rp_status := Some Failed, rp_error := Some (ae_error_str E e), rp_ended_at := Some now\<rparr>)))
          (\<lambda>_. act_raise e))) s1)"
    by (simp add: drive_agent_loop_def act_bind_def [of "run_try_claim E uid"] claim inner)
  have ok: "r2 = Panicked \<or> inner_ok E uid r2 s2" using inner_loop_ok [OF assms(1,2) h1, of tenant agent_id transcript max_turns]
    by (simp add: ends_def inner)
  obtain s3 where rel: "run_release_lease E uid s2 = (Done (), s3)"
    using assms(2) by (simp add: run_release_lease_def act_ignore_def on_runs_def Let_def ledger_ok_def)
  show ?thesis
  proof (cases r2)
    case (Done run)
    then show ?thesis using ok release_rests [OF assms(2) _ rel] drive rel assms(5) by (auto simp: act_bind_def resting_def)
  next
    case (Raised e)
    then obtain r where r: "tbl_find rr_id uid (runs_of s3) = Some r" "rr_lease_owner r = None" using ok release_rests [OF assms(2) _ rel] by auto
    let ?p = "no_patch\<lparr>rp_status := Some Failed, rp_error := Some (ae_error_str E e), rp_ended_at := Some (ae_now E (ag_tick s3))\<rparr>"
    obtain b s4 run where "agent_run_update E uid ?p (s3\<lparr>ag_tick := ag_tick s3 + 1\<rparr>) = (Done b, s4)" "resting uid run s4"
      using fail_rests [OF assms(1,2), of uid "s3\<lparr>ag_tick := ag_tick s3 + 1\<rparr>" r ?p Failed] r by (auto simp: settled_def no_patch_def)
    then show ?thesis using drive Raised rel assms(5) by (auto simp: act_bind_def act_ignore_def)
  next
    case Panicked
    then show ?thesis using drive assms(5,6) by simp
  qed
qed

theorem agent_drive_settles_witness:
  "let s' = snd (drive_agent_loop demo_env 1 ''acme'' ''bot'' (question_line ''why'') 1 demo_started)
   in \<exists>run. resting 1 run s'"
proof -
  let ?d = "drive_agent_loop demo_env 1 ''acme'' ''bot'' (question_line ''why'') 1 demo_started"
  have inv: "run_inv (nd_runs (ag_node demo_started))" unfolding run_inv_def tbl_inv_def by code_simp
  have claim: "fst (run_try_claim demo_env 1 demo_started) = Done True" by code_simp
  have "case fst ?d of Panicked \<Rightarrow> False | _ \<Rightarrow> True" by code_simp
  then have "fst ?d \<noteq> Panicked" by (cases "fst ?d") simp_all
  moreover have "\<not> ae_replicator demo_env" by code_simp
  moreover have "ledger_ok demo_env" by (simp add: ledger_ok_def demo_env_def)
  ultimately have "\<exists>run. resting 1 run (snd ?d) \<and> (\<forall>x. fst ?d = Done x \<longrightarrow> x = run)"
    using agent_drive_settles [OF _ _ inv claim, of "''acme''" "''bot''" "question_line ''why''" 1 "fst ?d" "snd ?d"] by (simp only: prod.collapse not_False_eq_True)
  then show ?thesis unfolding Let_def by blast
qed

end
