(* ===== verification/Fact_Schema.thy ===== *)
theory Fact_Schema
  imports Ecphoria_Prelude
begin

text \<open>
  The JSON Schema validator of \<open>src/crates/ecphoria-core/src/memory/schema.rs\<close>: a schema document is
  compiled to a tree of checks, which then collects every violation of a value. Shown: a compiled schema
  uses only supported keywords at every depth, and a value has no violation exactly when it satisfies the
  schema, read directly as a conjunction of keyword assertions. Regular expressions, the date and uuid
  parsers and the rendering of numbers are libraries and come as arguments.
\<close>

subsection \<open>The libraries\<close>

record schema_lib =
  sl_regex_error :: "string \<Rightarrow> string option"
  sl_regex_match :: "string \<Rightarrow> string \<Rightarrow> bool"
  sl_date_time :: "string \<Rightarrow> bool"
  sl_date :: "string \<Rightarrow> bool"
  sl_uuid :: "string \<Rightarrow> bool"
  sl_show :: "json \<Rightarrow> string"
  sl_show_float :: "rat \<Rightarrow> string"

fun contains_str :: "string \<Rightarrow> string \<Rightarrow> bool" where
  "contains_str p [] = (p = [])"
| "contains_str p (c # cs) = (take (length p) (c # cs) = p \<or> contains_str p cs)"

subsection \<open>Compiled schemas\<close>

definition supported_keywords :: "string list" where
  "supported_keywords =
    [''$schema'', ''$id'', ''title'', ''description'', ''examples'', ''default'',
     ''type'', ''properties'', ''required'', ''additionalProperties'', ''enum'', ''const'', ''pattern'',
     ''minLength'', ''maxLength'', ''minimum'', ''maximum'', ''minItems'', ''maxItems'', ''uniqueItems'',
     ''items'', ''format'']"

definition supported_formats :: "string list" where
  "supported_formats = [''date-time'', ''date'', ''uri'', ''uuid'']"

datatype schema_node = Node
  (nd_types: "string list") (nd_properties: "(string \<times> schema_node) list") (nd_required: "string list")
  (nd_additional_properties: bool) (nd_enumeration: "json list option") (nd_constant: "json option")
  (nd_pattern: "string option") (nd_min_length: "nat option") (nd_max_length: "nat option")
  (nd_minimum: "rat option") (nd_maximum: "rat option") (nd_min_items: "nat option") (nd_max_items: "nat option")
  (nd_unique_items: bool) (nd_items: "schema_node option") (nd_format: "string option")

fun json_object :: "json \<Rightarrow> (string \<times> json) list option" where
  "json_object (JObj kvs) = Some kvs"
| "json_object _ = None"

fun str_entries :: "json list \<Rightarrow> string list option" where
  "str_entries [] = Some []"
| "str_entries (j # js) =
    (case (json_as_str j, str_entries js) of (Some s, Some ss) \<Rightarrow> Some (s # ss) | _ \<Rightarrow> None)"

definition compile_types :: "string \<Rightarrow> json option \<Rightarrow> string + string list" where
  "compile_types path t = (case t of
      None \<Rightarrow> Inr []
    | Some (JStr s) \<Rightarrow> Inr [s]
    | Some (JArr ts) \<Rightarrow> (case str_entries ts of Some ss \<Rightarrow> Inr ss | None \<Rightarrow> Inl (path @ '': `type` entries must be strings''))
    | Some _ \<Rightarrow> Inl (path @ '': `type` must be a string or an array''))"

definition compile_required :: "string \<Rightarrow> json option \<Rightarrow> string + string list" where
  "compile_required path r = (case r of
      None \<Rightarrow> Inr []
    | Some (JArr ts) \<Rightarrow> (case str_entries ts of Some ss \<Rightarrow> Inr ss | None \<Rightarrow> Inl (path @ '': `required` entries must be strings''))
    | Some _ \<Rightarrow> Inl (path @ '': `required` must be an array''))"

definition compile_pattern :: "schema_lib \<Rightarrow> string \<Rightarrow> json option \<Rightarrow> string + string option" where
  "compile_pattern L path p = (case p of
      None \<Rightarrow> Inr None
    | Some (JStr s) \<Rightarrow> (case sl_regex_error L s of
          None \<Rightarrow> Inr (Some s) | Some e \<Rightarrow> Inl (path @ '': invalid `pattern` regex: '' @ e))
    | Some _ \<Rightarrow> Inl (path @ '': `pattern` must be a string''))"

definition compile_format :: "string \<Rightarrow> json option \<Rightarrow> string + string option" where
  "compile_format path f = (case f of
      None \<Rightarrow> Inr None
    | Some (JStr s) \<Rightarrow> if s \<in> set supported_formats then Inr (Some s)
        else Inl (path @ '': unsupported `format` `'' @ s @ ''` '' @ em_dash @ '' supported: '' @ str_join '', '' supported_formats)
    | Some _ \<Rightarrow> Inl (path @ '': `format` must be a string''))"

definition finish_node :: "(string \<times> json) list \<Rightarrow> string list \<Rightarrow> (string \<times> schema_node) list \<Rightarrow> string list \<Rightarrow>
    string option \<Rightarrow> string option \<Rightarrow> schema_node option \<Rightarrow> schema_node" where
  "finish_node obj types props required pattern format items =
    Node types props required
      (case Option.bind (map_of obj ''additionalProperties'') json_as_bool of Some b \<Rightarrow> b | None \<Rightarrow> True)
      (Option.bind (map_of obj ''enum'') json_as_array) (map_of obj ''const'') pattern
      (Option.bind (map_of obj ''minLength'') json_as_u64) (Option.bind (map_of obj ''maxLength'') json_as_u64)
      (Option.bind (map_of obj ''minimum'') json_as_f64) (Option.bind (map_of obj ''maximum'') json_as_f64)
      (Option.bind (map_of obj ''minItems'') json_as_u64) (Option.bind (map_of obj ''maxItems'') json_as_u64)
      (case Option.bind (map_of obj ''uniqueItems'') json_as_bool of Some b \<Rightarrow> b | None \<Rightarrow> False)
      items format"

lemma res_bind_cong [fundef_cong]:
  "x = x' \<Longrightarrow> (\<And>a. x' = Inr a \<Longrightarrow> f a = f' a) \<Longrightarrow> res_bind x f = res_bind x' f'"
  by (cases x') (auto simp: res_bind_def)

lemma size_entry: "map_of kvs k = Some v \<Longrightarrow> size v < size_list (size_prod (\<lambda>_. 0) size) kvs"
  by (induction kvs) (auto split: if_splits)

lemma size_object: "json_object j = Some kvs \<Longrightarrow> size j = size_list (size_prod (\<lambda>_. 0) size) kvs + 1"
  by (cases j) auto

function compile_node :: "schema_lib \<Rightarrow> json \<Rightarrow> string \<Rightarrow> string + schema_node"
  and compile_props :: "schema_lib \<Rightarrow> (string \<times> json) list \<Rightarrow> string \<Rightarrow> string + (string \<times> schema_node) list" where
  "compile_node L schema path =
    (case json_object schema of
       None \<Rightarrow> Inl (path @ '': a schema must be an object'')
     | Some obj \<Rightarrow>
         (case List.find (\<lambda>k. k \<notin> set supported_keywords) (map fst obj) of
            Some key \<Rightarrow> Inl (path @ '': unsupported schema keyword `'' @ key @ ''` '' @ em_dash @ '' see memory::schema::SUPPORTED'')
          | None \<Rightarrow>
              res_bind (compile_types path (map_of obj ''type'')) (\<lambda>types.
              res_bind (case map_of obj ''properties'' of
                  None \<Rightarrow> Inr []
                | Some props \<Rightarrow> (case json_object props of
                      None \<Rightarrow> Inl (path @ '': `properties` must be an object'')
                    | Some subs \<Rightarrow> compile_props L subs path)) (\<lambda>properties.
              res_bind (compile_required path (map_of obj ''required'')) (\<lambda>required.
              res_bind (compile_pattern L path (map_of obj ''pattern'')) (\<lambda>pattern.
              res_bind (compile_format path (map_of obj ''format'')) (\<lambda>format.
              res_bind (case map_of obj ''items'' of
                  None \<Rightarrow> Inr None
                | Some sub \<Rightarrow> res_bind (compile_node L sub (path @ ''/items'')) (\<lambda>n. Inr (Some n))) (\<lambda>items.
              Inr (finish_node obj types properties required pattern format items)))))))))"
| "compile_props L [] path = Inr []"
| "compile_props L ((name, sub) # rest) path =
    res_bind (compile_node L sub (path @ ''/'' @ name)) (\<lambda>n.
      res_bind (compile_props L rest path) (\<lambda>ns. Inr ((name, n) # ns)))"
  by pat_completeness auto

termination
proof (relation "measure (case_sum (\<lambda>(L, s, p). 2 * size s) (\<lambda>(L, kvs, p). 2 * size_list (size_prod (\<lambda>_. 0) size) kvs + 1))",
    goal_cases)
  case (2 L schema path obj subs)
  then show ?case by (auto dest!: size_entry size_object)
qed (auto dest!: size_entry size_object)

definition schema_compile :: "schema_lib \<Rightarrow> json \<Rightarrow> string + schema_node" where
  "schema_compile L schema = compile_node L schema ''#''"

subsection \<open>Checking a value\<close>

definition at_path :: "string \<Rightarrow> string" where
  "at_path path = (if path = [] then ''<root>'' else trim_start_matches (\<lambda>c. c = CHR ''.'') path)"

fun type_name :: "json \<Rightarrow> string" where
  "type_name JNull = ''null''"
| "type_name (JBool _) = ''boolean''"
| "type_name (JInt _) = ''integer''"
| "type_name (JFloat _) = ''number''"
| "type_name (JStr _) = ''string''"
| "type_name (JArr _) = ''array''"
| "type_name (JObj _) = ''object''"

definition type_matches :: "string \<Rightarrow> json \<Rightarrow> bool" where
  "type_matches expected v =
    (if expected = ''number'' then json_as_f64 v \<noteq> None
     else if expected = ''integer'' then (case v of JInt _ \<Rightarrow> True | _ \<Rightarrow> False)
     else expected = type_name v)"

definition render :: "schema_lib \<Rightarrow> json \<Rightarrow> string" where
  "render L v = (case v of JStr s \<Rightarrow> ''`'' @ s @ ''`'' | _ \<Rightarrow> ''`'' @ sl_show L v @ ''`'')"

definition format_ok :: "schema_lib \<Rightarrow> string \<Rightarrow> string \<Rightarrow> bool" where
  "format_ok L format s =
    (if format = ''date-time'' then sl_date_time L s
     else if format = ''date'' then sl_date L s
     else if format = ''uuid'' then sl_uuid L s
     else if format = ''uri'' then contains_str ''://'' s \<and> \<not> list_ex is_ws s
     else True)"

definition check_string :: "schema_lib \<Rightarrow> schema_node \<Rightarrow> string \<Rightarrow> string \<Rightarrow> string list" where
  "check_string L n s path =
    (case nd_min_length n of Some m \<Rightarrow>
       if char_count s < m then [at_path path @ '': must be at least '' @ show_nat m @ '' characters''] else [] | None \<Rightarrow> [])
    @ (case nd_max_length n of Some m \<Rightarrow>
       if m < char_count s then [at_path path @ '': must be at most '' @ show_nat m @ '' characters''] else [] | None \<Rightarrow> [])
    @ (case nd_pattern n of Some re \<Rightarrow>
       if \<not> sl_regex_match L re s then [at_path path @ '': must match /'' @ re @ ''/''] else [] | None \<Rightarrow> [])
    @ (case nd_format n of Some f \<Rightarrow>
       if \<not> format_ok L f s then [at_path path @ '': not a valid '' @ f] else [] | None \<Rightarrow> [])"

definition check_number :: "schema_lib \<Rightarrow> schema_node \<Rightarrow> rat \<Rightarrow> string \<Rightarrow> string list" where
  "check_number L n x path =
    (case nd_minimum n of Some m \<Rightarrow>
       if x < m then [at_path path @ '': must be >= '' @ sl_show_float L m] else [] | None \<Rightarrow> [])
    @ (case nd_maximum n of Some m \<Rightarrow>
       if m < x then [at_path path @ '': must be <= '' @ sl_show_float L m] else [] | None \<Rightarrow> [])"

text \<open>The first item that occurs earlier in the array.\<close>

fun first_duplicate :: "json list \<Rightarrow> json list \<Rightarrow> json option" where
  "first_duplicate seen [] = None"
| "first_duplicate seen (x # xs) = (if x \<in> set seen then Some x else first_duplicate (seen @ [x]) xs)"

definition check_items :: "schema_lib \<Rightarrow> schema_node \<Rightarrow> json list \<Rightarrow> string \<Rightarrow> string list" where
  "check_items L n xs path =
    (case nd_min_items n of Some m \<Rightarrow>
       if length xs < m then [at_path path @ '': must have at least '' @ show_nat m @ '' items''] else [] | None \<Rightarrow> [])
    @ (case nd_max_items n of Some m \<Rightarrow>
       if m < length xs then [at_path path @ '': must have at most '' @ show_nat m @ '' items''] else [] | None \<Rightarrow> [])
    @ (if nd_unique_items n
       then (case first_duplicate [] xs of
               Some x \<Rightarrow> [at_path path @ '': duplicate item '' @ render L x] | None \<Rightarrow> [])
       else [])"

lemma size_property: "(k, n) \<in> set (nd_properties node) \<Longrightarrow> size n < size node"
proof (cases node)
  fix types properties required additional enum const pat minl maxl mini maxi mii mai uniq items format
  assume "(k, n) \<in> set (nd_properties node)"
    and node: "node = Node types properties required additional enum const pat minl maxl mini maxi mii mai uniq items format"
  then have "(k, n) \<in> set properties" by simp
  then have "size n < size_list (size_prod (\<lambda>_. 0) size) properties"
    by (induction properties) auto
  then show ?thesis by (simp add: node)
qed

lemma size_items: "nd_items node = Some n \<Longrightarrow> size n < size node"
  by (cases node) auto

function check :: "schema_lib \<Rightarrow> schema_node \<Rightarrow> json \<Rightarrow> string \<Rightarrow> string list" where
  "check L node v path =
    (if nd_types node \<noteq> [] \<and> \<not> list_ex (\<lambda>t. type_matches t v) (nd_types node)
     then [at_path path @ '': expected '' @ str_join '' or '' (nd_types node) @ '', got '' @ type_name v]
     else
       (case nd_enumeration node of Some allowed \<Rightarrow>
          if v \<notin> set allowed then [at_path path @ '': must be one of '' @ str_join '', '' (map (render L) allowed)] else [] | None \<Rightarrow> [])
       @ (case nd_constant node of Some expected \<Rightarrow>
          if v \<noteq> expected then [at_path path @ '': must be '' @ render L expected] else [] | None \<Rightarrow> [])
       @ (case v of
            JStr s \<Rightarrow> check_string L node s path
          | JInt i \<Rightarrow> check_number L node (of_int i) path
          | JFloat x \<Rightarrow> check_number L node x path
          | JArr xs \<Rightarrow> check_items L node xs path
              @ (case nd_items node of
                   Some sub \<Rightarrow> concat (map (\<lambda>(i, item). check L sub item (path @ ''['' @ show_nat i @ '']'')) (enumerate 0 xs))
                 | None \<Rightarrow> [])
          | JObj kvs \<Rightarrow>
              List.map_filter (\<lambda>name. if map_of kvs name = None
                then Some (at_path path @ '': missing required field `'' @ name @ ''`'') else None) (nd_required node)
              @ concat (map (\<lambda>(name, sub). case map_of kvs name of
                    Some child \<Rightarrow> check L sub child (path @ ''.'' @ name) | None \<Rightarrow> []) (nd_properties node))
              @ (if nd_additional_properties node then []
                 else List.map_filter (\<lambda>name. if name \<notin> fst ` set (nd_properties node)
                   then Some (at_path path @ '': unknown field `'' @ name @ ''`'') else None) (map fst kvs))
          | _ \<Rightarrow> []))"
  by pat_completeness auto
termination
  by (relation "measure (\<lambda>(L, n, v, p). size n)") (auto dest: size_property size_items)

declare compile_node.simps [simp del] check.simps [simp del]

definition schema_validate :: "schema_lib \<Rightarrow> schema_node \<Rightarrow> json \<Rightarrow> string list" where
  "schema_validate L n v = check L n v []"

subsection \<open>What a schema means\<close>

text \<open>The assertions of a schema document, each read from the document itself.\<close>

definition type_asserted :: "json \<Rightarrow> json \<Rightarrow> bool" where
  "type_asserted s v = (case json_get s ''type'' of
      Some (JStr t) \<Rightarrow> type_matches t v
    | Some (JArr ts) \<Rightarrow> ts = [] \<or> list_ex (\<lambda>t. case t of JStr t \<Rightarrow> type_matches t v | _ \<Rightarrow> False) ts
    | _ \<Rightarrow> True)"

definition opt_all :: "('a \<Rightarrow> bool) \<Rightarrow> 'a option \<Rightarrow> bool" where
  "opt_all P x = (case x of None \<Rightarrow> True | Some y \<Rightarrow> P y)"

definition string_asserted :: "schema_lib \<Rightarrow> json \<Rightarrow> string \<Rightarrow> bool" where
  "string_asserted L s x \<longleftrightarrow>
    opt_all (\<lambda>m. m \<le> char_count x) (Option.bind (json_get s ''minLength'') json_as_u64) \<and>
    opt_all (\<lambda>m. char_count x \<le> m) (Option.bind (json_get s ''maxLength'') json_as_u64) \<and>
    opt_all (\<lambda>re. sl_regex_match L re x) (Option.bind (json_get s ''pattern'') json_as_str) \<and>
    opt_all (\<lambda>f. format_ok L f x) (Option.bind (json_get s ''format'') json_as_str)"

definition number_asserted :: "json \<Rightarrow> rat \<Rightarrow> bool" where
  "number_asserted s x \<longleftrightarrow>
    opt_all (\<lambda>m. m \<le> x) (Option.bind (json_get s ''minimum'') json_as_f64) \<and>
    opt_all (\<lambda>m. x \<le> m) (Option.bind (json_get s ''maximum'') json_as_f64)"

definition array_asserted :: "json \<Rightarrow> json list \<Rightarrow> bool" where
  "array_asserted s xs \<longleftrightarrow>
    opt_all (\<lambda>m. m \<le> length xs) (Option.bind (json_get s ''minItems'') json_as_u64) \<and>
    opt_all (\<lambda>m. length xs \<le> m) (Option.bind (json_get s ''maxItems'') json_as_u64) \<and>
    (json_get s ''uniqueItems'' = Some (JBool True) \<longrightarrow> distinct xs)"

definition sub_schemas :: "json \<Rightarrow> (string \<times> json) list" where
  "sub_schemas s = (case json_get s ''properties'' of Some (JObj subs) \<Rightarrow> subs | _ \<Rightarrow> [])"

definition object_asserted :: "json \<Rightarrow> (string \<times> json) list \<Rightarrow> bool" where
  "object_asserted s kvs \<longleftrightarrow>
    opt_all (list_all (\<lambda>r. case r of JStr name \<Rightarrow> name \<in> fst ` set kvs | _ \<Rightarrow> True))
      (Option.bind (json_get s ''required'') json_as_array) \<and>
    (json_get s ''additionalProperties'' = Some (JBool False) \<longrightarrow> fst ` set kvs \<subseteq> fst ` set (sub_schemas s))"

lemma size_sub_schema: "(k, sub) \<in> set (sub_schemas s) \<Longrightarrow> size sub < size s"
proof -
  assume "(k, sub) \<in> set (sub_schemas s)"
  then obtain kvs subs where s: "s = JObj kvs" "map_of kvs ''properties'' = Some (JObj subs)" "(k, sub) \<in> set subs"
    by (cases s) (auto simp: sub_schemas_def eq_commute split: option.splits json.splits)
  have "size sub < size_list (size_prod (\<lambda>_. 0) size) subs" using s(3) by (induction subs) auto
  then show ?thesis using size_entry [OF s(2)] s(1) by simp
qed

lemma size_json_get: "json_get s k = Some v \<Longrightarrow> size v < size s"
  by (cases s) (auto dest: size_entry)

function satisfies :: "schema_lib \<Rightarrow> json \<Rightarrow> json \<Rightarrow> bool" where
  "satisfies L s v \<longleftrightarrow>
    type_asserted s v \<and>
    opt_all (\<lambda>allowed. v \<in> set allowed) (Option.bind (json_get s ''enum'') json_as_array) \<and>
    opt_all (\<lambda>c. v = c) (json_get s ''const'') \<and>
    (case v of
       JStr x \<Rightarrow> string_asserted L s x
     | JInt i \<Rightarrow> number_asserted s (of_int i)
     | JFloat x \<Rightarrow> number_asserted s x
     | JArr xs \<Rightarrow> array_asserted s xs \<and>
         (case json_get s ''items'' of Some sub \<Rightarrow> list_all (\<lambda>x. satisfies L sub x) xs | None \<Rightarrow> True)
     | JObj kvs \<Rightarrow> object_asserted s kvs \<and>
         list_all (\<lambda>(name, sub). case map_of kvs name of Some child \<Rightarrow> satisfies L sub child | None \<Rightarrow> True) (sub_schemas s)
     | _ \<Rightarrow> True)"
  by pat_completeness auto
termination
  by (relation "measure (\<lambda>(L, s, v). size s)") (auto dest: size_sub_schema size_json_get)

declare satisfies.simps [simp del]

subsection \<open>Compilation and checking agree with the meaning\<close>

lemma first_duplicate_None: "first_duplicate seen xs = None \<longleftrightarrow> distinct xs \<and> set xs \<inter> set seen = {}"
  by (induction seen xs rule: first_duplicate.induct) auto

lemma map_JStr_eq [simp]: "map JStr xs = map JStr ys \<longleftrightarrow> xs = ys"
  by (rule inj_map_eq_map) (simp add: inj_def)

lemma str_entries_Some: "str_entries js = Some ss \<longleftrightarrow> js = map JStr ss"
proof (induction js arbitrary: ss)
  case (Cons j js)
  show ?case
  proof (cases j)
    case (JStr x)
    have "str_entries (j # js) = Some ss \<longleftrightarrow> (\<exists>ys. ss = x # ys \<and> str_entries js = Some ys)"
      using JStr by (auto split: option.splits)
    then show ?thesis using JStr by (auto simp only: Cons.IH list.map)
  qed auto
qed auto

lemma map_filter_Nil: "List.map_filter f xs = [] \<longleftrightarrow> (\<forall>x \<in> set xs. f x = None)"
  by (induction xs) (auto simp: List.map_filter_simps split: option.splits)

text \<open>One step of compilation, with what it reads.\<close>

lemma json_object_Some: "json_object j = Some kvs \<longleftrightarrow> j = JObj kvs"
  by (cases j) auto

lemma compile_nodeE:
  assumes "compile_node L s path = Inr n"
  obtains obj types props required pattern format items where "s = JObj obj"
    "\<forall>k \<in> fst ` set obj. k \<in> set supported_keywords"
    "compile_types path (map_of obj ''type'') = Inr types"
    "compile_props L (sub_schemas s) path = Inr props"
    "compile_required path (map_of obj ''required'') = Inr required"
    "compile_pattern L path (map_of obj ''pattern'') = Inr pattern"
    "compile_format path (map_of obj ''format'') = Inr format"
    "(case map_of obj ''items'' of None \<Rightarrow> items = None
      | Some sub \<Rightarrow> \<exists>m. items = Some m \<and> compile_node L sub (path @ ''/items'') = Inr m)"
    "n = finish_node obj types props required pattern format items"
proof -
  obtain obj where s: "s = JObj obj" using assms 
    by (cases s) (simp_all add: compile_node.simps)
  have find: "List.find (\<lambda>k. k \<notin> set supported_keywords) (map fst obj) = None"
    using assms by (auto simp: compile_node.simps [of L "JObj obj"] s split: option.splits)
  then have kw: "\<forall>k \<in> fst ` set obj. k \<in> set supported_keywords" by (auto simp: find_None_iff)
  show ?thesis
    using assms find that [OF s kw] unfolding s compile_node.simps [of L "JObj obj"]
    by (auto simp: res_bind_Inr_iff sub_schemas_def json_object_Some split: option.splits)
qed

lemma types_agree:
  "compile_types path (map_of obj ''type'') = Inr types \<Longrightarrow>
    (types = [] \<or> list_ex (\<lambda>t. type_matches t v) types) \<longleftrightarrow> type_asserted (JObj obj) v"
  by (auto simp: compile_types_def type_asserted_def str_entries_Some list_ex_iff split: option.splits json.splits)

lemma required_agree:
  "compile_required path (map_of obj ''required'') = Inr required \<Longrightarrow>
    (\<forall>name \<in> set required. P name) \<longleftrightarrow>
    opt_all (list_all (\<lambda>r. case r of JStr name \<Rightarrow> P name | _ \<Rightarrow> True)) (Option.bind (map_of obj ''required'') json_as_array)"
  by (auto simp: compile_required_def opt_all_def str_entries_Some list_all_iff split: option.splits json.splits)

lemma pattern_agree:
  "compile_pattern L path p = Inr pattern \<Longrightarrow> pattern = Option.bind p json_as_str"
  by (auto simp: compile_pattern_def split: option.splits json.splits)

lemma format_agree:
  "compile_format path f = Inr format \<Longrightarrow> format = Option.bind f json_as_str"
  by (auto simp: compile_format_def split: option.splits json.splits if_splits)

lemma opt_errors: "(case x of Some m \<Rightarrow> if Q m then [e m] else [] | None \<Rightarrow> []) = [] \<longleftrightarrow> opt_all (\<lambda>m. \<not> Q m) x"
  by (auto simp: opt_all_def split: option.splits)

lemma check_string_Nil:
  "check_string L n x path = [] \<longleftrightarrow>
    opt_all (\<lambda>m. m \<le> char_count x) (nd_min_length n) \<and> opt_all (\<lambda>m. char_count x \<le> m) (nd_max_length n) \<and>
    opt_all (\<lambda>re. sl_regex_match L re x) (nd_pattern n) \<and> opt_all (\<lambda>f. format_ok L f x) (nd_format n)"
  by (simp add: check_string_def opt_errors linorder_not_less)

lemma check_number_Nil:
  "check_number L n x path = [] \<longleftrightarrow> opt_all (\<lambda>m. m \<le> x) (nd_minimum n) \<and> opt_all (\<lambda>m. x \<le> m) (nd_maximum n)"
  by (simp add: check_number_def opt_errors linorder_not_less)

lemma check_items_Nil:
  "check_items L n xs path = [] \<longleftrightarrow>
    opt_all (\<lambda>m. m \<le> length xs) (nd_min_items n) \<and> opt_all (\<lambda>m. length xs \<le> m) (nd_max_items n) \<and>
    (nd_unique_items n \<longrightarrow> distinct xs)"
  using first_duplicate_None [of "[]" xs]
  by (auto simp: check_items_def opt_errors linorder_not_less split: option.splits)

lemma flag_set:
  "(case Option.bind x json_as_bool of Some b \<Rightarrow> b | None \<Rightarrow> False) \<longleftrightarrow> x = Some (JBool True)"
  "(case Option.bind x json_as_bool of Some b \<Rightarrow> b | None \<Rightarrow> True) \<longleftrightarrow> x \<noteq> Some (JBool False)"
  by (cases x; cases "the x"; simp)+

definition agrees :: "schema_lib \<Rightarrow> schema_node \<Rightarrow> json \<Rightarrow> bool" where
  "agrees L n s \<longleftrightarrow> (\<forall>v path. check L n v path = [] \<longleftrightarrow> satisfies L s v)"

lemma check_props_Nil:
  assumes "list_all2 (\<lambda>(k, s) (k', m). k = k' \<and> agrees L m s) subs props"
  shows "concat (map (\<lambda>(name, m). case map_of kvs name of Some child \<Rightarrow> check L m child (f name) | None \<Rightarrow> []) props) = [] \<longleftrightarrow>
      list_all (\<lambda>(name, s). case map_of kvs name of Some child \<Rightarrow> satisfies L s child | None \<Rightarrow> True) subs"
    and "map fst props = map fst subs"
  using assms by (induction rule: list_all2_induct) (auto simp: agrees_def split: option.splits)

lemma check_array_Nil:
  assumes "agrees L m s"
  shows "concat (map (\<lambda>(i, item). check L m item (f i)) (enumerate k xs)) = [] \<longleftrightarrow> list_all (\<lambda>x. satisfies L s x) xs"
  using assms by (induction xs arbitrary: k) (auto simp: agrees_def)

lemma node_agrees:
  assumes obj: "s = JObj obj" and types: "compile_types path (map_of obj ''type'') = Inr types"
    and props: "list_all2 (\<lambda>(k, s) (k', m). k = k' \<and> agrees L m s) (sub_schemas s) props"
    and required: "compile_required path (map_of obj ''required'') = Inr required"
    and pattern: "compile_pattern L path (map_of obj ''pattern'') = Inr pattern"
    and format: "compile_format path (map_of obj ''format'') = Inr format"
    and items: "case map_of obj ''items'' of None \<Rightarrow> items = None | Some sub \<Rightarrow> \<exists>m. items = Some m \<and> agrees L m sub"
    and n: "n = finish_node obj types props required pattern format items"
  shows "agrees L n s"
  unfolding agrees_def
proof (intro allI)
  fix v p
  have get: "json_get s = map_of obj" by (auto simp: obj)
  note ty = types_agree [OF types, of v]
  have kinds: "nd_types n = types" "nd_properties n = props" "nd_required n = required" "nd_items n = items"
    by (simp_all add: n finish_node_def)
  have body: "(case v of
            JStr x \<Rightarrow> check_string L n x p
          | JInt i \<Rightarrow> check_number L n (of_int i) p
          | JFloat x \<Rightarrow> check_number L n x p
          | JArr xs \<Rightarrow> check_items L n xs p
              @ (case nd_items n of
                   Some sub \<Rightarrow> concat (map (\<lambda>(i, item). check L sub item (p @ ''['' @ show_nat i @ '']'')) (enumerate 0 xs))
                 | None \<Rightarrow> [])
          | JObj kvs \<Rightarrow>
              List.map_filter (\<lambda>name. if map_of kvs name = None
                then Some (at_path p @ '': missing required field `'' @ name @ ''`'') else None) (nd_required n)
              @ concat (map (\<lambda>(name, sub). case map_of kvs name of
                    Some child \<Rightarrow> check L sub child (p @ ''.'' @ name) | None \<Rightarrow> []) (nd_properties n))
              @ (if nd_additional_properties n then []
                 else List.map_filter (\<lambda>name. if name \<notin> fst ` set (nd_properties n)
                   then Some (at_path p @ '': unknown field `'' @ name @ ''`'') else None) (map fst kvs))
          | _ \<Rightarrow> []) = [] \<longleftrightarrow>
    (case v of
       JStr x \<Rightarrow> string_asserted L s x
     | JInt i \<Rightarrow> number_asserted s (of_int i)
     | JFloat x \<Rightarrow> number_asserted s x
     | JArr xs \<Rightarrow> array_asserted s xs \<and>
         (case json_get s ''items'' of Some sub \<Rightarrow> list_all (\<lambda>x. satisfies L sub x) xs | None \<Rightarrow> True)
     | JObj kvs \<Rightarrow> object_asserted s kvs \<and>
         list_all (\<lambda>(name, sub). case map_of kvs name of Some child \<Rightarrow> satisfies L sub child | None \<Rightarrow> True) (sub_schemas s)
     | _ \<Rightarrow> True)"
  proof (cases v)
    case (JStr x)
    then show ?thesis
      using pattern_agree [OF pattern] format_agree [OF format]
      by (simp add: check_string_Nil string_asserted_def get n finish_node_def)
  next
    case (JArr xs)
    have "(case nd_items n of
          Some sub \<Rightarrow> concat (map (\<lambda>(i, item). check L sub item (p @ ''['' @ show_nat i @ '']'')) (enumerate 0 xs))
        | None \<Rightarrow> []) = [] \<longleftrightarrow>
      (case json_get s ''items'' of Some sub \<Rightarrow> list_all (\<lambda>x. satisfies L sub x) xs | None \<Rightarrow> True)"
    proof (cases "map_of obj ''items''")
      case (Some sub)
      then obtain m where "items = Some m" "agrees L m sub" using items by auto
      then show ?thesis unfolding kinds get Some option.case by (simp only: check_array_Nil option.case)
    qed (use items in \<open>simp add: kinds get\<close>)
    then show ?thesis using JArr
      by (simp add: check_items_Nil array_asserted_def get n finish_node_def flag_set del: concat_eq_Nil_conv)
  next
    case (JObj kvs)
    have "fst ` set props = fst ` set (sub_schemas s)" using check_props_Nil(2) [OF props] by (metis set_map)
    then show ?thesis
      using JObj check_props_Nil(1) [OF props, where kvs = kvs] required_agree [OF required, of "\<lambda>name. name \<in> fst ` set kvs"]
      by (auto simp: map_filter_Nil object_asserted_def get kinds n finish_node_def flag_set map_of_eq_None_iff subset_iff)
  qed (simp_all add: check_number_Nil number_asserted_def get n finish_node_def)
  show "check L n v p = [] \<longleftrightarrow> satisfies L s v"
    unfolding check.simps [of L n v] satisfies.simps [of L s v] using body ty
    by (auto simp: opt_errors kinds get n finish_node_def obj)
qed

text \<open>A property of sub-schemas that compilation passes on.\<close>

lemma compile_props_all:
  assumes "\<And>k s path n. (k, s) \<in> set kvs \<Longrightarrow> compile_node L s path = Inr n \<Longrightarrow> Q s n"
    and "compile_props L kvs path = Inr props"
  shows "list_all2 (\<lambda>(k, s) (k', m). k = k' \<and> Q s m) kvs props"
  using assms
proof (induction kvs arbitrary: props)
  case (Cons kv kvs)
  obtain k s where kv: "kv = (k, s)" by (cases kv)
  obtain n ns where "compile_node L s (path @ ''/'' @ k) = Inr n" "compile_props L kvs path = Inr ns" "props = (k, n) # ns"
    using Cons.prems(2) by (auto simp: kv res_bind_Inr_iff)
  moreover have "list_all2 (\<lambda>(k, s) (k', m). k = k' \<and> Q s m) kvs ns"
    by (rule Cons.IH [OF Cons.prems(1)]) (use calculation in auto)
  ultimately show ?case using Cons.prems(1) [of k s] by (simp add: kv)
qed simp

lemma compile_agrees: "compile_node L s path = Inr n \<Longrightarrow> agrees L n s"
proof (induction s arbitrary: path n rule: measure_induct_rule [of size])
  case (less s)
  obtain obj types ps required pattern format items where c: "s = JObj obj"
    "\<forall>k \<in> fst ` set obj. k \<in> set supported_keywords"
    "compile_types path (map_of obj ''type'') = Inr types"
    "compile_props L (sub_schemas s) path = Inr ps"
    "compile_required path (map_of obj ''required'') = Inr required"
    "compile_pattern L path (map_of obj ''pattern'') = Inr pattern"
    "compile_format path (map_of obj ''format'') = Inr format"
    "(case map_of obj ''items'' of None \<Rightarrow> items = None
      | Some sub \<Rightarrow> \<exists>m. items = Some m \<and> compile_node L sub (path @ ''/items'') = Inr m)"
    "n = finish_node obj types ps required pattern format items"
    using less(2) by (rule compile_nodeE)
  show ?case
  proof (rule node_agrees [OF c(1,3) _ c(5-7) _ c(9)])
    show "list_all2 (\<lambda>(k, s) (k', m). k = k' \<and> agrees L m s) (sub_schemas s) ps"
      by (rule compile_props_all [OF _ c(4)]) (use less(1) size_sub_schema in blast)
    show "case map_of obj ''items'' of None \<Rightarrow> items = None | Some sub \<Rightarrow> \<exists>m. items = Some m \<and> agrees L m sub"
      using c(1,8) less(1) size_json_get [of s "''items''"] by (fastforce split: option.splits)
  qed
qed

text \<open>C35: The validator is exact: when a schema compiles, a value has no violation exactly when it satisfies
  the schema, whatever is nested in it; stopping at a wrong type hides no error of a valid value.\<close>

theorem schema_validate_exact:
  assumes "schema_compile L s = Inr n"
  shows "schema_validate L n v = [] \<longleftrightarrow> satisfies L s v"
  using compile_agrees assms by (simp add: schema_compile_def schema_validate_def agrees_def)

text \<open>Supported at every depth: what the compiler promises about a schema it accepts.\<close>

function well_formed_schema :: "schema_lib \<Rightarrow> json \<Rightarrow> bool" where
  "well_formed_schema L s \<longleftrightarrow> json_is_object s \<and>
    (case s of JObj obj \<Rightarrow> list_all (\<lambda>(k, _). k \<in> set supported_keywords) obj | _ \<Rightarrow> False) \<and>
    opt_all (\<lambda>p. \<exists>re. p = JStr re \<and> sl_regex_error L re = None) (json_get s ''pattern'') \<and>
    opt_all (\<lambda>f. f \<in> JStr ` set supported_formats) (json_get s ''format'') \<and>
    opt_all json_is_object (json_get s ''properties'') \<and>
    list_all (\<lambda>(k, sub). well_formed_schema L sub) (sub_schemas s) \<and>
    (case json_get s ''items'' of Some sub \<Rightarrow> well_formed_schema L sub | None \<Rightarrow> True)"
  by pat_completeness auto
termination
  by (relation "measure (\<lambda>(L, s). size s)") (auto dest: size_sub_schema size_json_get)

declare well_formed_schema.simps [simp del]

lemma compile_properties_object: "compile_node L s path = Inr n \<Longrightarrow> opt_all json_is_object (json_get s ''properties'')"
  by (cases s) (auto simp: compile_node.simps opt_all_def json_object_Some res_bind_Inr_iff split: option.splits)

text \<open>C36: Only schemas that are understood compile: every keyword at every depth is a supported one, every
  pattern is a valid regular expression and every format is a known one, so that no assertion of an
  accepted schema is silently ignored.\<close>

theorem schema_compile_well_formed:
  assumes "schema_compile L s = Inr n"
  shows "well_formed_schema L s"
proof -
  have "compile_node L s path = Inr n \<Longrightarrow> well_formed_schema L s" for path n
  proof (induction s arbitrary: path n rule: measure_induct_rule [of size])
    case (less s)
    obtain obj types ps required pattern format items where c: "s = JObj obj"
      "\<forall>k \<in> fst ` set obj. k \<in> set supported_keywords"
      "compile_types path (map_of obj ''type'') = Inr types"
      "compile_props L (sub_schemas s) path = Inr ps"
      "compile_required path (map_of obj ''required'') = Inr required"
      "compile_pattern L path (map_of obj ''pattern'') = Inr pattern"
      "compile_format path (map_of obj ''format'') = Inr format"
      "(case map_of obj ''items'' of None \<Rightarrow> items = None
        | Some sub \<Rightarrow> \<exists>m. items = Some m \<and> compile_node L sub (path @ ''/items'') = Inr m)"
      "n = finish_node obj types ps required pattern format items"
      using less(2) by (rule compile_nodeE)
    have "list_all2 (\<lambda>(k, s) (k', m). k = k' \<and> well_formed_schema L s) (sub_schemas s) ps"
      by (rule compile_props_all [OF _ c(4)]) (use less(1) size_sub_schema in blast)
    then have subs: "list_all (\<lambda>(k, sub). well_formed_schema L sub) (sub_schemas s)"
      by (induction rule: list_all2_induct) auto
    have items: "case json_get s ''items'' of Some sub \<Rightarrow> well_formed_schema L sub | None \<Rightarrow> True"
      using c(1,8) less(1) size_json_get [of s "''items''"] by (fastforce split: option.splits)
    have "opt_all (\<lambda>p. \<exists>re. p = JStr re \<and> sl_regex_error L re = None) (json_get s ''pattern'')"
      using c(1,6) by (auto simp: compile_pattern_def opt_all_def split: option.splits json.splits)
    moreover have "opt_all (\<lambda>f. f \<in> JStr ` set supported_formats) (json_get s ''format'')"
      using c(1,7) by (auto simp: compile_format_def opt_all_def split: option.splits json.splits if_splits)
    ultimately show ?case
      using c(1,2) subs items compile_properties_object [OF less(2)]
      by (subst well_formed_schema.simps) (auto simp: list_all_iff)
  qed
  then show ?thesis using assms by (simp add: schema_compile_def)
qed

text \<open>A small library, and the \<open>incident\<close> shape of the repository.\<close>

definition demo_lib :: schema_lib where
  "demo_lib = \<lparr>sl_regex_error = (\<lambda>p. if p = ''('' then Some ''unclosed group'' else None),
    sl_regex_match = (\<lambda>p s. take 9 p = ''^incident'' \<longrightarrow> take 9 s = ''incident:''),
    sl_date_time = (\<lambda>s. 20 \<le> length s), sl_date = (\<lambda>s. length s = 10), sl_uuid = (\<lambda>s. length s = 36),
    sl_show = (\<lambda>_. ''?''), sl_show_float = (\<lambda>_. ''?'')\<rparr>"

definition incident_schema :: json where
  "incident_schema = JObj [
     (''properties'', JObj [
        (''occurred_at'', JObj [(''format'', JStr ''date-time''), (''type'', JStr ''string'')]),
        (''service'', JObj [(''minLength'', JInt 1), (''type'', JStr ''string'')]),
        (''severity'', JObj [(''enum'', JArr [JStr ''sev1'', JStr ''sev2'', JStr ''sev3'', JStr ''sev4'']), (''type'', JStr ''string'')])]),
     (''required'', JArr [JStr ''service'', JStr ''occurred_at'']), (''type'', JStr ''object'')]"

definition incident_fact :: json where
  "incident_fact = JObj [(''kind'', JStr ''incident''), (''occurred_at'', JStr ''2026-09-14T03:12:00Z''), (''service'', JStr ''checkout-api'')]"

theorem schema_validate_exact_witness:
  "\<exists>n. schema_compile demo_lib incident_schema = Inr n \<and>
     schema_validate demo_lib n incident_fact = [] \<and> satisfies demo_lib incident_schema incident_fact \<and>
     schema_validate demo_lib n (JObj [(''severity'', JStr ''sev9'')]) =
       [''<root>: missing required field `service`'', ''<root>: missing required field `occurred_at`'',
        ''severity: must be one of `sev1`, `sev2`, `sev3`, `sev4`''] \<and>
     \<not> satisfies demo_lib incident_schema (JObj [(''severity'', JStr ''sev9'')])"
proof -
  have "case schema_compile demo_lib incident_schema of Inl _ \<Rightarrow> False
      | Inr n \<Rightarrow> schema_validate demo_lib n incident_fact = [] \<and> schema_validate demo_lib n (JObj [(''severity'', JStr ''sev9'')]) =
       [''<root>: missing required field `service`'', ''<root>: missing required field `occurred_at`'',
        ''severity: must be one of `sev1`, `sev2`, `sev3`, `sev4`'']" by code_simp
  then obtain n where n: "schema_compile demo_lib incident_schema = Inr n"
    "schema_validate demo_lib n incident_fact = []" "schema_validate demo_lib n (JObj [(''severity'', JStr ''sev9'')]) =
       [''<root>: missing required field `service`'', ''<root>: missing required field `occurred_at`'',
        ''severity: must be one of `sev1`, `sev2`, `sev3`, `sev4`'']"
    by (cases "schema_compile demo_lib incident_schema") auto
  then show ?thesis using schema_validate_exact [OF n(1)] by (metis list.distinct(1))
qed

theorem schema_compile_well_formed_witness:
  "well_formed_schema demo_lib incident_schema \<and>
   (case schema_compile demo_lib (JObj [(''properties'', JObj [(''x'', JObj [(''oneOf'', JArr [])])])]) of
      Inl e \<Rightarrow> take 33 e = ''#/x: unsupported schema keyword `'' | Inr _ \<Rightarrow> False)"
proof
  have "case schema_compile demo_lib incident_schema of Inl _ \<Rightarrow> False | Inr _ \<Rightarrow> True" by code_simp
  then have "\<exists>n. schema_compile demo_lib incident_schema = Inr n" by (auto split: sum.splits)
  then show "well_formed_schema demo_lib incident_schema" using schema_compile_well_formed by blast
qed code_simp

end
