(* ===== verification/Fact_Validation.thy ===== *)
theory Fact_Validation
  imports Fact_Schema Memory_Review
begin

text \<open>
  Typed facts, \<open>src/crates/ecphoria-core/src/memory/facts.rs\<close>: the kinds, the form of the subject of each
  kind, and the validation of a write against the envelope and the schema of its kind. Shown: validation
  is exact, and a tenant with strict validation stores valid facts only. The schema documents are data of
  the repository and come as an argument.
\<close>

subsection \<open>Kinds\<close>

datatype fact_kind = Decision | Convention | Incident | TicketSummary | RunLesson | FlakyTest | Hotspot | Finding | OtherKind

definition fact_kind_all :: "fact_kind list" where
  "fact_kind_all = [Decision, Convention, Incident, TicketSummary, RunLesson, FlakyTest, Hotspot, Finding, OtherKind]"

fun fact_kind_as_str :: "fact_kind \<Rightarrow> string" where
  "fact_kind_as_str Decision = ''decision''"
| "fact_kind_as_str Convention = ''convention''"
| "fact_kind_as_str Incident = ''incident''"
| "fact_kind_as_str TicketSummary = ''ticket_summary''"
| "fact_kind_as_str RunLesson = ''run_lesson''"
| "fact_kind_as_str FlakyTest = ''flaky_test''"
| "fact_kind_as_str Hotspot = ''hotspot''"
| "fact_kind_as_str Finding = ''finding''"
| "fact_kind_as_str OtherKind = ''other''"

definition fact_kind_parse :: "string \<Rightarrow> fact_kind option" where
  "fact_kind_parse s = List.find (\<lambda>k. fact_kind_as_str k = s) fact_kind_all"

text \<open>The readable form of the subject and its regular expression.\<close>

definition two_segments :: "string \<Rightarrow> string" where
  "two_segments kind = ''^'' @ kind @ '':[a-z0-9][a-z0-9._/-]*:[a-z0-9][a-z0-9._/-]*$''"

abbreviation backslash :: char where
  "backslash \<equiv> CHR 0x5C"

fun subject_grammar :: "fact_kind \<Rightarrow> (string \<times> string) option" where
  "subject_grammar Decision = Some (''decision:<area>:<slug>'', two_segments ''decision'')"
| "subject_grammar Convention = Some (''convention:<area>:<slug>'', two_segments ''convention'')"
| "subject_grammar Incident = Some (''incident:<service>:<yyyy-mm-dd>'',
     ''^incident:[a-z0-9][a-z0-9._/-]*:'' @ [backslash] @ ''d{4}-'' @ [backslash] @ ''d{2}-'' @ [backslash] @ ''d{2}$'')"
| "subject_grammar TicketSummary = Some (''ticket:<tracker>:<key>'', two_segments ''ticket'')"
| "subject_grammar RunLesson = Some (''run_lesson:<workflow>:<slug>'', two_segments ''run_lesson'')"
| "subject_grammar FlakyTest = Some (''flaky_test:<path>::<name>'',
     ''^flaky_test:[^:]+::'' @ [backslash] @ ''S.*$'')"
| "subject_grammar Hotspot = Some (''hotspot:<path>'', ''^hotspot:'' @ [backslash] @ ''S+$'')"
| "subject_grammar Finding = Some (''finding:<tool>:<rule>'', two_segments ''finding'')"
| "subject_grammar OtherKind = None"

subsection \<open>Validation\<close>

record fact_rules =
  fr_envelope :: schema_node
  fr_kinds :: "(fact_kind \<times> schema_node) list"

text \<open>\<open>compiled\<close>: every embedded document compiles or the program stops.\<close>

fun compile_kinds :: "schema_lib \<Rightarrow> (fact_kind \<Rightarrow> json) \<Rightarrow> fact_kind list \<Rightarrow> (fact_kind \<times> schema_node) list option" where
  "compile_kinds L docs [] = Some []"
| "compile_kinds L docs (k # ks) =
    (case (schema_compile L (docs k), compile_kinds L docs ks) of
       (Inr n, Some ns) \<Rightarrow> Some ((k, n) # ns) | _ \<Rightarrow> None)"

definition compiled :: "schema_lib \<Rightarrow> json \<Rightarrow> (fact_kind \<Rightarrow> json) \<Rightarrow> fact_rules option" where
  "compiled L envelope docs =
    (case compile_kinds L docs fact_kind_all of
       None \<Rightarrow> None
     | Some kinds \<Rightarrow>
         (case schema_compile L envelope of Inl _ \<Rightarrow> None
          | Inr n \<Rightarrow> Some \<lparr>fr_envelope = n, fr_kinds = kinds\<rparr>))"

text \<open>\<open>str::replace\<close> for a pattern that is not empty.\<close>

function replace_all :: "string \<Rightarrow> string \<Rightarrow> string \<Rightarrow> string" where
  "replace_all pat rep [] = []"
| "replace_all pat rep (c # cs) =
    (if pat \<noteq> [] \<and> take (length pat) (c # cs) = pat then rep @ replace_all pat rep (drop (length pat) (c # cs))
     else c # replace_all pat rep cs)"
  by pat_completeness auto
termination
  by (relation "measure (\<lambda>(pat, rep, s). length s)") auto

definition kind_error :: "string \<Rightarrow> string" where
  "kind_error e = replace_all ''metadata.<root>'' ''metadata'' (''metadata.'' @ e)"

definition subject_errors :: "schema_lib \<Rightarrow> fact_kind \<Rightarrow> string option \<Rightarrow> string list" where
  "subject_errors L kind subject =
    (case subject_grammar kind of
       None \<Rightarrow> []
     | Some (form, re) \<Rightarrow>
         (case subject of
            Some (c # cs) \<Rightarrow>
              if sl_regex_match L re (c # cs) then []
              else [''subject: `'' @ (c # cs) @ ''` does not match the `'' @ fact_kind_as_str kind @ ''` grammar `'' @ form @ ''`'']
          | _ \<Rightarrow> [''subject: a `'' @ fact_kind_as_str kind @ ''` fact needs a subject of the form `'' @ form @ ''` ''
                  @ em_dash @ '' without it nothing supersedes anything'']))"

definition facts_validate :: "schema_lib \<Rightarrow> fact_rules \<Rightarrow> string option \<Rightarrow> json \<Rightarrow> string list" where
  "facts_validate L R subject metadata =
    (let errors = schema_validate L (fr_envelope R) metadata
     in case json_get metadata ''kind'' of
          None \<Rightarrow> errors
        | Some kind_value \<Rightarrow>
            (case json_as_str kind_value of
               None \<Rightarrow> errors
             | Some kind_str \<Rightarrow>
                 (case fact_kind_parse kind_str of
                    None \<Rightarrow> errors @ [''metadata.kind: unknown fact kind `'' @ kind_str @ ''` '' @ em_dash @ '' known kinds: ''
                              @ str_join '', '' (map fact_kind_as_str fact_kind_all)]
                  | Some kind \<Rightarrow>
                      errors
                      @ (case map_of (fr_kinds R) kind of
                           Some v \<Rightarrow> map kind_error (schema_validate L v metadata) | None \<Rightarrow> [])
                      @ subject_errors L kind subject)))"

subsection \<open>What a valid fact is\<close>

definition fact_valid :: "schema_lib \<Rightarrow> json \<Rightarrow> (fact_kind \<Rightarrow> json) \<Rightarrow> string option \<Rightarrow> json \<Rightarrow> bool" where
  "fact_valid L envelope docs subject metadata \<longleftrightarrow>
    satisfies L envelope metadata \<and>
    (case Option.bind (json_get metadata ''kind'') json_as_str of
       None \<Rightarrow> True
     | Some k \<Rightarrow>
         (case fact_kind_parse k of
            None \<Rightarrow> False
          | Some kind \<Rightarrow> satisfies L (docs kind) metadata \<and>
              (case subject_grammar kind of
                 None \<Rightarrow> True
               | Some (form, re) \<Rightarrow> (case subject of Some s \<Rightarrow> s \<noteq> [] \<and> sl_regex_match L re s | None \<Rightarrow> False))))"

lemma fact_kind_roundtrip: "fact_kind_parse (fact_kind_as_str k) = Some k"
  by (cases k) (simp_all add: fact_kind_parse_def fact_kind_all_def)

lemma fact_kind_parse_Some: "fact_kind_parse s = Some k \<Longrightarrow> fact_kind_as_str k = s"
  by (auto simp: fact_kind_parse_def find_Some_iff)

lemma fact_kind_all_all: "k \<in> set fact_kind_all"
  by (cases k) (simp_all add: fact_kind_all_def)

lemma compile_kinds_agree:
  assumes "compile_kinds L docs ks = Some kinds" and "k \<in> set ks"
  shows "\<exists>n. map_of kinds k = Some n \<and> (\<forall>v. schema_validate L n v = [] \<longleftrightarrow> satisfies L (docs k) v)"
  using assms
proof (induction ks arbitrary: kinds)
  case (Cons k' ks)
  obtain n ns where n: "schema_compile L (docs k') = Inr n" "compile_kinds L docs ks = Some ns" "kinds = (k', n) # ns"
    using Cons.prems(1) by (auto split: sum.splits option.splits)
  show ?case
  proof (cases "k = k'")
    case True
    then show ?thesis
      using n compile_agrees [of L "docs k'" "''#''" n] by (simp add: schema_compile_def schema_validate_def agrees_def)
  qed (use Cons n in auto)
qed simp

lemma subject_errors_Nil:
  "subject_errors L kind subject = [] \<longleftrightarrow>
    (case subject_grammar kind of None \<Rightarrow> True
     | Some (form, re) \<Rightarrow> (case subject of Some s \<Rightarrow> s \<noteq> [] \<and> sl_regex_match L re s | None \<Rightarrow> False))"
  by (auto simp: subject_errors_def split: option.splits list.splits)

lemma facts_validate_valid:
  assumes "compiled L envelope docs = Some R"
  shows "facts_validate L R subject metadata = [] \<longleftrightarrow> fact_valid L envelope docs subject metadata"
proof -
  obtain n kinds where R: "compile_kinds L docs fact_kind_all = Some kinds" "schema_compile L envelope = Inr n"
    "R = \<lparr>fr_envelope = n, fr_kinds = kinds\<rparr>"
    using assms by (auto simp: compiled_def split: option.splits sum.splits)
  have env: "schema_validate L (fr_envelope R) metadata = [] \<longleftrightarrow> satisfies L envelope metadata"
    using compile_agrees R(2,3) by (simp add: schema_compile_def schema_validate_def agrees_def)
  have kind: "(case map_of (fr_kinds R) k of Some v \<Rightarrow> map kind_error (schema_validate L v metadata) | None \<Rightarrow> []) = [] \<longleftrightarrow>
      satisfies L (docs k) metadata" for k
  proof -
    obtain m where "map_of kinds k = Some m" "\<forall>v. schema_validate L m v = [] \<longleftrightarrow> satisfies L (docs k) v"
      using compile_kinds_agree [OF R(1) fact_kind_all_all [of k]] by blast
    then show ?thesis using R(3) by simp
  qed
  show ?thesis
  proof (cases "Option.bind (json_get metadata ''kind'') json_as_str")
    case None
    then have "facts_validate L R subject metadata = schema_validate L (fr_envelope R) metadata"
      by (auto simp: facts_validate_def Let_def bind_eq_None_conv split: option.splits)
    then show ?thesis using None env by (simp add: fact_valid_def)
  next
    case (Some k)
    then obtain j where j: "json_get metadata ''kind'' = Some j" "json_as_str j = Some k" by (auto simp: bind_eq_Some_conv)
    show ?thesis
    proof (cases "fact_kind_parse k")
      case None
      then have "facts_validate L R subject metadata \<noteq> []" using j by (simp add: facts_validate_def Let_def)
      then show ?thesis using None Some by (simp add: fact_valid_def)
    next
      case (Some kd)
      then have "facts_validate L R subject metadata = schema_validate L (fr_envelope R) metadata
          @ (case map_of (fr_kinds R) kd of Some v \<Rightarrow> map kind_error (schema_validate L v metadata) | None \<Rightarrow> [])
          @ subject_errors L kd subject"
        using j by (simp add: facts_validate_def Let_def)
      then show ?thesis
        using Some j kind [of kd] by (simp only: append_is_Nil_conv env subject_errors_Nil fact_valid_def option.case bind.simps)
    qed
  qed
qed

text \<open>C37: Strict validation is exact and complete on the write path. With the validator of the repository, a
  write to a tenant with strict validation succeeds only for a valid fact: its metadata satisfies the
  envelope, and, when it names a kind, the kind is known, the metadata satisfies the schema of the kind
  and the canonical subject has the form of the kind.\<close>

theorem strict_tenant_valid_facts:
  assumes "compiled L envelope docs = Some R" and "pt_validate P = facts_validate L R"
    and "eg_fact_validation (for_tenant (cg_governance cfg) (sc_tenant_id (i_scope (canonical_input input)))) = Strict"
    and "memory_add P cfg tk input en = Inr (res, en') \<or> memory_propose P cfg tk input en = Inr (m, en')"
  shows "fact_valid L envelope docs (i_subject (canonical_input input)) (i_metadata input)"
proof -
  have "governed P cfg input"
  proof (rule check_governance_cases [of P cfg input])
    fix e
    assume "check_governance P cfg (i_scope (canonical_input input)) (i_subject (canonical_input input))
      (i_metadata (canonical_input input)) (i_source_event_ids (canonical_input input)) = Inl (Validation e)"
    then show ?thesis using assms(4)
      by (auto simp: memory_add_def memory_plan_def memory_plan_with_embedding_def memory_propose_def Let_def)
  qed
  then have "facts_validate L R (i_subject (canonical_input input)) (i_metadata (canonical_input input)) = []"
    using assms(2,3) by (simp add: governed_def Let_def)
  moreover have "i_metadata (canonical_input input) = i_metadata input" by (simp add: canonical_input_def)
  ultimately show ?thesis using facts_validate_valid [OF assms(1)] by simp
qed

definition demo_docs :: "fact_kind \<Rightarrow> json" where
  "demo_docs k = (if k = Incident then incident_schema else JObj [(''type'', JStr ''object'')])"

definition demo_envelope :: json where
  "demo_envelope = JObj [(''properties'', JObj [(''kind'', JObj [(''type'', JStr ''string'')])]), (''type'', JStr ''object'')]"

definition strict_cfg :: cognition_config where
  "strict_cfg = demo_cfg\<lparr>cg_governance := \<lparr>gc_require_provenance = False, gc_fact_validation = Strict, gc_tenants = []\<rparr>\<rparr>"

definition strict_ports :: ports where
  "strict_ports = demo_ports\<lparr>pt_validate := (\<lambda>subject metadata. case compiled demo_lib demo_envelope demo_docs of
     Some R \<Rightarrow> facts_validate demo_lib R subject metadata | None \<Rightarrow> [])\<rparr>"

definition incident_input :: "string \<Rightarrow> memory_input" where
  "incident_input subject = (demo_input subject ''down'')\<lparr>i_metadata := incident_fact\<rparr>"

theorem strict_tenant_valid_facts_witness:
  "(case memory_add strict_ports strict_cfg (demo_tick 2) (incident_input ''Incident:Checkout:2026-09-14'') demo_engine1 of
      Inl _ \<Rightarrow> False | Inr _ \<Rightarrow> True) \<and>
   fact_valid demo_lib demo_envelope demo_docs (Some ''incident:checkout:2026-09-14'') incident_fact \<and>
   (case memory_add strict_ports strict_cfg (demo_tick 2) (incident_input ''the outage'') demo_engine1 of
      Inl (Validation e) \<Rightarrow> take 8 e = ''subject:'' | _ \<Rightarrow> False)"
proof (intro conjI)
  let ?add = "memory_add strict_ports strict_cfg (demo_tick 2) (incident_input ''Incident:Checkout:2026-09-14'') demo_engine1"
  show ok: "case ?add of Inl _ \<Rightarrow> False | Inr _ \<Rightarrow> True" by code_simp
  then obtain res en' where add: "?add = Inr (res, en')" by (cases ?add) auto
  have "case compiled demo_lib demo_envelope demo_docs of None \<Rightarrow> False | Some _ \<Rightarrow> True" by code_simp
  then obtain R where R: "compiled demo_lib demo_envelope demo_docs = Some R" by (auto split: option.splits)
  have v: "pt_validate strict_ports = facts_validate demo_lib R" by (simp add: strict_ports_def R)
  have strict: "eg_fact_validation (for_tenant (cg_governance strict_cfg)
      (sc_tenant_id (i_scope (canonical_input (incident_input ''Incident:Checkout:2026-09-14''))))) = Strict" by code_simp
  have key: "i_subject (canonical_input (incident_input ''Incident:Checkout:2026-09-14'')) = Some ''incident:checkout:2026-09-14''"
    by code_simp
  have meta: "i_metadata (incident_input ''Incident:Checkout:2026-09-14'') = incident_fact" by (simp add: incident_input_def)
  show "fact_valid demo_lib demo_envelope demo_docs (Some ''incident:checkout:2026-09-14'') incident_fact"
    using strict_tenant_valid_facts [OF R v strict disjI1 [OF add]] key meta by simp
qed code_simp

end
