(* ===== verification/Markdown_Chunker.thy ===== *)
theory Markdown_Chunker
  imports Ecphoria_Prelude
begin

text \<open>
  The Markdown chunker, \<open>src/crates/ecphoria-core/src/ingest/chunk.rs\<close>: a document is cut into
  sections at its headings, an oversized section into groups of paragraphs, and every piece carries the
  trail of its headings. Shown: no character of the text that is not white space is lost, reordered or
  duplicated; a fenced code block is never cut; ordinals are positions; sizes.
\<close>

subsection \<open>Lines\<close>

text \<open>\<open>str::lines\<close>: pieces between line feeds, without the carriage return of a terminated line and
  without an empty last piece.\<close>

abbreviation line_feed :: char where
  "line_feed \<equiv> CHR 0x0A"

definition strip_cr :: "string \<Rightarrow> string" where
  "strip_cr l = (if l \<noteq> [] \<and> last l = CHR 0x0D then butlast l else l)"

definition str_lines :: "string \<Rightarrow> string list" where
  "str_lines s =
    (let ps = split_on (\<lambda>c. c = line_feed) s
     in map strip_cr (butlast ps) @ (if last ps = [] then [] else [last ps]))"

definition starts_with :: "string \<Rightarrow> string \<Rightarrow> bool" where
  "starts_with p s \<longleftrightarrow> take (length p) s = p"

subsection \<open>Chunks\<close>

record chunk =
  ck_heading_path :: "string list"
  ck_text :: string
  ck_ordinal :: nat

definition chunk_subject :: "chunk \<Rightarrow> string \<Rightarrow> nat option \<Rightarrow> string" where
  "chunk_subject c doc_path part =
    (let trail = str_join '' > '' (ck_heading_path c);
         base = (if str_trim trail = []
                 then (if ck_ordinal c = 0 then doc_path
                       else doc_path @ ''#'' @ [CHR 0xC2, CHR 0xA7] @ show_nat (ck_ordinal c))
                 else doc_path @ ''#'' @ trail)
     in case part of
          Some n \<Rightarrow> if 0 < n then base @ ''~'' @ show_nat n else base
        | None \<Rightarrow> base)"

record chunk_options =
  co_target_chars :: nat
  co_max_chars :: nat

definition chunk_options_default :: chunk_options where
  "chunk_options_default = \<lparr>co_target_chars = 1500, co_max_chars = 3000\<rparr>"

definition heading_of :: "string \<Rightarrow> (nat \<times> string) option" where
  "heading_of line =
    (let trimmed = trim_start_matches is_ws line
     in if \<not> starts_with ''#'' trimmed then None
        else let level = length (takeWhile (\<lambda>c. c = CHR ''#'') trimmed)
             in if \<not> (1 \<le> level \<and> level \<le> 6) then None
                else let rest = drop level trimmed
                     in if \<not> starts_with '' '' rest then None
                        else Some (level, str_trim (trim_end_matches (\<lambda>c. c = CHR ''#'') (str_trim rest))))"

definition is_fence :: "string \<Rightarrow> bool" where
  "is_fence line =
    (let t = trim_start_matches is_ws line in starts_with ''```'' t \<or> starts_with ''~~~'' t)"

record md_section =
  sn_heading_path :: "string list"
  sn_body :: string

text \<open>\<open>split_sections\<close>: the loop over the lines, with the heading stack, the section that is being
  filled and the fence flag; the sections are pushed in order.\<close>

definition push_line :: "string \<Rightarrow> md_section \<Rightarrow> md_section" where
  "push_line line sn = sn\<lparr>sn_body := sn_body sn @ line @ [line_feed]\<rparr>"

definition push_section :: "md_section \<Rightarrow> md_section list" where
  "push_section sn = (if str_trim (sn_body sn) \<noteq> [] \<or> sn_heading_path sn \<noteq> [] then [sn] else [])"

definition push_heading :: "nat \<Rightarrow> string \<Rightarrow> (nat \<times> string) list \<Rightarrow> (nat \<times> string) list" where
  "push_heading level title stack = filter (\<lambda>(l, _). l < level) stack @ [(level, title)]"

fun split_lines :: "string list \<Rightarrow> (nat \<times> string) list \<Rightarrow> md_section \<Rightarrow> bool \<Rightarrow> md_section list" where
  "split_lines [] stack current in_fence = push_section current"
| "split_lines (line # rest) stack current in_fence =
    (if is_fence line then split_lines rest stack (push_line line current) (\<not> in_fence)
     else case (if in_fence then None else heading_of line) of
            Some (level, title) \<Rightarrow>
              (let stack' = push_heading level title stack
               in push_section current
                  @ split_lines rest stack' \<lparr>sn_heading_path = map snd stack', sn_body = []\<rparr> in_fence)
          | None \<Rightarrow> split_lines rest stack (push_line line current) in_fence)"

definition split_sections :: "string \<Rightarrow> md_section list" where
  "split_sections markdown = split_lines (str_lines markdown) [] \<lparr>sn_heading_path = [], sn_body = []\<rparr> False"

text \<open>\<open>pack_paragraphs\<close>: first the paragraphs, then the greedy packing.\<close>

fun paragraphs :: "string list \<Rightarrow> string \<Rightarrow> bool \<Rightarrow> string list" where
  "paragraphs [] buf in_fence = (if str_trim buf \<noteq> [] then [buf] else [])"
| "paragraphs (line # rest) buf in_fence =
    (if is_fence line
     then (let buf' = buf @ line @ [line_feed]
           in if in_fence then buf' # paragraphs rest [] False else paragraphs rest buf' True)
     else if \<not> in_fence \<and> str_trim line = []
     then (if str_trim buf \<noteq> [] then buf # paragraphs rest [] in_fence else paragraphs rest [] in_fence)
     else paragraphs rest (buf @ line @ [line_feed]) in_fence)"

fun pack_groups :: "nat \<Rightarrow> string list \<Rightarrow> string \<Rightarrow> string list" where
  "pack_groups max_chars [] current = (if str_trim current \<noteq> [] then [current] else [])"
| "pack_groups max_chars (p # ps) current =
    (if current \<noteq> [] \<and> max_chars < length current + length p
     then current # pack_groups max_chars ps (p @ [line_feed])
     else pack_groups max_chars ps (current @ p @ [line_feed]))"

definition pack_paragraphs :: "string \<Rightarrow> nat \<Rightarrow> string list" where
  "pack_paragraphs body max_chars = pack_groups max_chars (paragraphs (str_lines body) [] False) []"

definition section_parts :: "chunk_options \<Rightarrow> md_section \<Rightarrow> string list" where
  "section_parts opts sn =
    (let trail = str_join '' > '' (sn_heading_path sn); body = str_trim (sn_body sn)
     in if body = [] then []
        else if length trail + length body \<le> co_max_chars opts then [body]
        else pack_paragraphs body (co_target_chars opts))"

definition push_chunk :: "md_section \<Rightarrow> nat \<times> string \<Rightarrow> (chunk \<times> nat) list \<Rightarrow> (chunk \<times> nat) list" where
  "push_chunk sn = (\<lambda>(part_idx, part) out.
    let trail = str_join '' > '' (sn_heading_path sn);
        text = (if trail = [] then str_trim part else trail @ [line_feed, line_feed] @ str_trim part)
    in if str_trim text = [] then out
       else out @ [(\<lparr>ck_heading_path = sn_heading_path sn, ck_text = text, ck_ordinal = length out\<rparr>, part_idx)])"

definition chunk_markdown :: "string \<Rightarrow> chunk_options \<Rightarrow> (chunk \<times> nat) list" where
  "chunk_markdown markdown opts =
    fold (\<lambda>sn. fold (push_chunk sn) (enumerate 0 (section_parts opts sn))) (split_sections markdown) []"

subsection \<open>White space\<close>

text \<open>The characters that carry the text.\<close>

definition ink :: "string \<Rightarrow> string" where
  "ink s = filter (\<lambda>c. \<not> is_ws c) s"

lemma ink_simps [simp]:
  "ink [] = []" "ink (s @ t) = ink s @ ink t" "ink (c # s) = (if is_ws c then ink s else c # ink s)"
  by (simp_all add: ink_def)

lemma is_ws_line_feed [simp]: "is_ws line_feed"
  by (simp add: is_ws_def)

lemma is_ws_cr [simp]: "is_ws CHR 0x0D"
  by (simp add: is_ws_def)

lemma ink_trim_start [simp]: "ink (trim_start_matches is_ws s) = ink s"
  by (induction s) (auto simp: trim_start_matches_def)

lemma ink_trim [simp]: "ink (str_trim s) = ink s"
proof -
  have "rev (ink (rev (dropWhile is_ws (rev t)))) = rev (ink t)" for t
    using ink_trim_start [of "rev t"] by (simp add: ink_def trim_start_matches_def rev_filter)
  then have "ink (rev (dropWhile is_ws (rev t))) = ink t" for t
    using rev_is_rev_conv by blast
  then show ?thesis by (simp add: str_trim_def trim_matches_def trim_end_matches_def)
qed

lemma trim_Nil_iff: "str_trim s = [] \<longleftrightarrow> ink s = []"
proof
  show "str_trim s = [] \<Longrightarrow> ink s = []" using ink_trim [of s] by simp
  assume "ink s = []"
  then have "\<forall>c \<in> set s. is_ws c" by (auto simp: ink_def filter_empty_conv)
  then have "dropWhile is_ws s = []" by (simp only: dropWhile_eq_Nil_conv)
  then show "str_trim s = []"
    by (simp only: str_trim_def trim_matches_def trim_end_matches_def trim_start_matches_def) simp
qed

lemma concat_ink: "ink (concat ss) = concat (map ink ss)"
  by (induction ss) auto

lemma ink_strip_cr [simp]: "ink (strip_cr l) = ink l"
  by (cases l rule: rev_cases) (auto simp: strip_cr_def)

lemma ink_split_lines: "concat (map ink (split_on (\<lambda>c. c = line_feed) s)) = ink s"
proof (induction s)
  case (Cons c cs)
  then show ?case by (cases "split_on (\<lambda>c. c = line_feed) cs") auto
qed simp

lemma ink_str_lines: "concat (map ink (str_lines s)) = ink s"
proof -
  obtain qs q where ps: "split_on (\<lambda>c. c = line_feed) s = qs @ [q]"
    by (metis append_butlast_last_id split_on_nonempty)
  then show ?thesis using ink_split_lines [of s] by (cases "q = []") (simp_all add: str_lines_def Let_def comp_def)
qed

subsection \<open>Nothing is lost\<close>

text \<open>The lines that are text: all but the headings outside fences.\<close>

fun body_lines :: "string list \<Rightarrow> bool \<Rightarrow> string list" where
  "body_lines [] in_fence = []"
| "body_lines (line # rest) in_fence =
    (if is_fence line then line # body_lines rest (\<not> in_fence)
     else if \<not> in_fence \<and> heading_of line \<noteq> None then body_lines rest in_fence
     else line # body_lines rest in_fence)"

lemma push_section_ink: "concat (map (\<lambda>sn. ink (sn_body sn)) (push_section sn)) = ink (sn_body sn)"
  by (simp add: push_section_def trim_Nil_iff)

lemma split_lines_ink:
  "concat (map (\<lambda>sn. ink (sn_body sn)) (split_lines ls stack sn f)) = ink (sn_body sn) @ concat (map ink (body_lines ls f))"
  by (induction ls stack sn f rule: split_lines.induct)
    (auto simp: push_section_ink push_line_def Let_def split: option.split)

lemma paragraphs_ink: "concat (map ink (paragraphs ls buf f)) = ink buf @ concat (map ink ls)"
proof (induction ls buf f rule: paragraphs.induct)
  case (2 line rest buf f)
  then show ?case by (cases "is_fence line"; cases f) (auto simp: trim_Nil_iff Let_def)
qed (simp add: trim_Nil_iff)

lemma pack_groups_ink: "concat (map ink (pack_groups n ps cur)) = ink cur @ concat (map ink ps)"
  by (induction n ps cur rule: pack_groups.induct) (auto simp: trim_Nil_iff)

lemma section_parts_ink: "concat (map ink (section_parts opts sn)) = ink (sn_body sn)"
  using trim_Nil_iff [of "sn_body sn"]
  by (auto simp: section_parts_def Let_def pack_paragraphs_def pack_groups_ink paragraphs_ink ink_str_lines)

text \<open>The part of a chunk's text that comes from the document, without the repeated trail.\<close>

definition chunk_body :: "chunk \<Rightarrow> string" where
  "chunk_body c =
    (let trail = str_join '' > '' (ck_heading_path c)
     in if trail = [] then ck_text c else drop (length trail + 2) (ck_text c))"

lemma push_chunk_cases:
  "ink part = [] \<and> push_chunk sn (i, part) out = out \<or>
   (\<exists>c. push_chunk sn (i, part) out = out @ [(c, i)] \<and> ck_heading_path c = sn_heading_path sn \<and>
        ck_ordinal c = length out \<and> chunk_body c = str_trim part)"
proof (cases "push_chunk sn (i, part) out = out")
  case True
  then have "str_trim (if str_join '' > '' (sn_heading_path sn) = [] then str_trim part
      else str_join '' > '' (sn_heading_path sn) @ [line_feed, line_feed] @ str_trim part) = []"
    by (auto simp: push_chunk_def Let_def split: if_splits)
  then have "ink part = []" by (auto simp: trim_Nil_iff split: if_splits)
  then show ?thesis using True by simp
next
  case False
  then show ?thesis by (auto simp: push_chunk_def Let_def chunk_body_def split: if_splits)
qed

lemma fold_push_ink:
  "concat (map (\<lambda>cp. ink (chunk_body (fst cp))) (fold (push_chunk sn) (enumerate k parts) out)) =
    concat (map (\<lambda>cp. ink (chunk_body (fst cp))) out) @ concat (map ink parts)"
proof (induction parts arbitrary: k out)
  case (Cons part parts)
  then show ?case using push_chunk_cases [of part sn k out] by auto
qed simp

lemma fold_sections_ink:
  "concat (map (\<lambda>cp. ink (chunk_body (fst cp)))
      (fold (\<lambda>sn. fold (push_chunk sn) (enumerate 0 (section_parts opts sn))) sns out)) =
    concat (map (\<lambda>cp. ink (chunk_body (fst cp))) out) @ concat (map (\<lambda>sn. ink (sn_body sn)) sns)"
  by (induction sns arbitrary: out) (auto simp: fold_push_ink section_parts_ink)

lemma chunk_ordinals_fold:
  assumes "map (\<lambda>cp. ck_ordinal (fst cp)) out = [0..<length out]"
  shows "map (\<lambda>cp. ck_ordinal (fst cp)) (fold (push_chunk sn) ps out) = [0..<length (fold (push_chunk sn) ps out)]"
  using assms
proof (induction ps arbitrary: out)
  case (Cons p ps)
  obtain i part where p: "p = (i, part)" by (cases p)
  have "map (\<lambda>cp. ck_ordinal (fst cp)) (push_chunk sn p out) = [0..<length (push_chunk sn p out)]"
    using push_chunk_cases [of part sn i out] Cons.prems p by auto
  then show ?case using Cons.IH by simp
qed simp

lemma chunk_ordinals:
  "map (\<lambda>cp. ck_ordinal (fst cp)) (chunk_markdown md opts) = [0..<length (chunk_markdown md opts)]"
proof -
  define f where "f = (\<lambda>sn. fold (push_chunk sn) (enumerate 0 (section_parts opts sn)))"
  have "map (\<lambda>cp. ck_ordinal (fst cp)) out = [0..<length out] \<Longrightarrow>
      map (\<lambda>cp. ck_ordinal (fst cp)) (fold f sns out) = [0..<length (fold f sns out)]" for sns out
    by (induction sns arbitrary: out) (auto simp: f_def chunk_ordinals_fold)
  from this [of "[]" "split_sections md"] show ?thesis by (simp add: chunk_markdown_def f_def)
qed

text \<open>A property of sections that the chunks inherit.\<close>

lemma fold_push_all:
  assumes "\<And>part c. part \<in> set parts \<Longrightarrow> ck_heading_path c = sn_heading_path sn \<Longrightarrow> chunk_body c = str_trim part \<Longrightarrow> P c"
    and "\<forall>cp \<in> set out. P (fst cp)"
  shows "\<forall>cp \<in> set (fold (push_chunk sn) (enumerate k parts) out). P (fst cp)"
  using assms
proof (induction parts arbitrary: k out)
  case (Cons part parts)
  have "P c" if "ck_heading_path c = sn_heading_path sn" "chunk_body c = str_trim part" for c
    using Cons.prems(1) [of part c] that by simp
  then have "\<forall>cp \<in> set (push_chunk sn (k, part) out). P (fst cp)"
    using push_chunk_cases [of part sn k out] Cons.prems(2) by auto
  then have "\<forall>cp \<in> set (fold (push_chunk sn) (enumerate (Suc k) parts) (push_chunk sn (k, part) out)). P (fst cp)"
    by (intro Cons.IH Cons.prems(1)) simp_all
  then show ?case by simp
qed simp

lemma chunk_markdown_all:
  assumes "\<And>sn part c. sn \<in> set (split_sections md) \<Longrightarrow> part \<in> set (section_parts opts sn) \<Longrightarrow>
      ck_heading_path c = sn_heading_path sn \<Longrightarrow> chunk_body c = str_trim part \<Longrightarrow> P c"
    and "cp \<in> set (chunk_markdown md opts)"
  shows "P (fst cp)"
proof -
  define f where "f = (\<lambda>sn. fold (push_chunk sn) (enumerate 0 (section_parts opts sn)))"
  have "set sns \<subseteq> set (split_sections md) \<Longrightarrow> \<forall>cp \<in> set out. P (fst cp) \<Longrightarrow> \<forall>cp \<in> set (fold f sns out). P (fst cp)"
    for sns out
  proof (induction sns arbitrary: out)
    case (Cons sn sns)
    have "\<forall>cp \<in> set (f sn out). P (fst cp)"
      unfolding f_def by (rule fold_push_all) (use assms(1) [of sn] Cons.prems in auto)
    then show ?case using Cons.IH Cons.prems by simp
  qed simp
  from this [of "split_sections md" "[]"] show ?thesis using assms(2) by (simp add: chunk_markdown_def f_def)
qed

text \<open>The heading stack holds strictly growing levels from one to six.\<close>

definition stack_ok :: "(nat \<times> string) list \<Rightarrow> bool" where
  "stack_ok stack \<longleftrightarrow> sorted_wrt (<) (map fst stack) \<and> fst ` set stack \<subseteq> {1..6}"

lemma heading_level: "heading_of line = Some (level, title) \<Longrightarrow> 1 \<le> level \<and> level \<le> 6"
  by (auto simp: heading_of_def Let_def split: if_splits)

lemma stack_ok_push:
  assumes "stack_ok stack" and "1 \<le> level" "level \<le> 6"
  shows "stack_ok (push_heading level title stack)"
proof -
  have "sorted_wrt (<) (map fst (filter (\<lambda>(l, _). l < level) stack))"
    using assms(1) by (simp add: stack_ok_def sorted_wrt_map sorted_wrt_filter)
  then show ?thesis using assms by (auto simp: stack_ok_def push_heading_def sorted_wrt_append)
qed

lemma stack_ok_length:
  assumes "stack_ok stack"
  shows "length stack \<le> 6"
proof -
  have "distinct (map fst stack)" using assms strict_sorted_iff by (auto simp: stack_ok_def)
  then have "length stack = card (fst ` set stack)" using distinct_card [of "map fst stack"] by simp
  also have "\<dots> \<le> card {1..6::nat}" using assms by (intro card_mono) (auto simp: stack_ok_def)
  finally show ?thesis by simp
qed

lemma split_lines_trails:
  assumes "stack_ok stack" and "length (sn_heading_path sn) \<le> 6" and "s \<in> set (split_lines ls stack sn f)"
  shows "length (sn_heading_path s) \<le> 6"
  using assms
proof (induction ls stack sn f rule: split_lines.induct)
  case (2 line rest stack current in_fence)
  show ?case
  proof (cases "is_fence line \<or> in_fence \<or> heading_of line = None")
    case True
    then show ?thesis using 2 by (auto simp: push_line_def split: if_splits)
  next
    case False
    then obtain level title where h: "heading_of line = Some (level, title)" by auto
    let ?stack = "push_heading level title stack"
    have ok: "stack_ok ?stack" using 2(4) heading_level [OF h] by (simp add: stack_ok_push)
    have "s \<in> set (push_section current) \<or>
        s \<in> set (split_lines rest ?stack \<lparr>sn_heading_path = map snd ?stack, sn_body = []\<rparr> in_fence)"
      using 2(6) False h by (auto simp: Let_def)
    then show ?thesis
    proof
      assume "s \<in> set (push_section current)"
      then show ?thesis using 2(5) by (auto simp: push_section_def split: if_splits)
    qed (rule 2(3), use False h ok stack_ok_length [OF ok] in auto)
  qed
qed (auto simp: push_section_def split: if_splits)

text \<open>C19: Chunking loses no text. Read in order and without white space, the chunks of a document
  (each without the repeated heading trail) are exactly the lines of the document that are not
  headings, code blocks included; every chunk knows its position; a trail has at most six headings.\<close>

theorem chunk_markdown_keeps_text:
  "concat (map (\<lambda>cp. ink (chunk_body (fst cp))) (chunk_markdown md opts)) =
     ink (concat (body_lines (str_lines md) False)) \<and>
   map (\<lambda>cp. ck_ordinal (fst cp)) (chunk_markdown md opts) = [0..<length (chunk_markdown md opts)] \<and>
   list_all (\<lambda>cp. length (ck_heading_path (fst cp)) \<le> 6) (chunk_markdown md opts)"
proof (intro conjI)
  show "concat (map (\<lambda>cp. ink (chunk_body (fst cp))) (chunk_markdown md opts)) =
      ink (concat (body_lines (str_lines md) False))"
    by (simp add: chunk_markdown_def fold_sections_ink split_sections_def split_lines_ink concat_ink)
  have "length (sn_heading_path sn) \<le> 6" if "sn \<in> set (split_sections md)" for sn
    by (rule split_lines_trails [OF _ _ that [unfolded split_sections_def]]) (simp_all add: stack_ok_def)
  then show "list_all (\<lambda>cp. length (ck_heading_path (fst cp)) \<le> 6) (chunk_markdown md opts)"
    using chunk_markdown_all [of md opts "\<lambda>c. length (ck_heading_path c) \<le> 6"] by (auto simp: list_all_iff)
qed (rule chunk_ordinals)

subsection \<open>Fenced code\<close>

lemma starts_with_snoc: "c \<notin> set p \<Longrightarrow> starts_with p (t @ [c]) = starts_with p t"
proof (cases "length p \<le> length t")
  case False
  assume c: "c \<notin> set p"
  have "take (length p) (t @ [c]) = t @ [c]" using False by simp
  then have "\<not> starts_with p (t @ [c])" using c by (auto simp: starts_with_def)
  moreover have "\<not> starts_with p t"
  proof
    assume "starts_with p t"
    then have "length p = min (length p) (length t)" by (metis length_take min.commute starts_with_def)
    then show False using False by simp
  qed
  ultimately show ?thesis by simp
qed (simp add: starts_with_def)

lemma is_fence_Nil [simp]: "\<not> is_fence []"
  by (simp add: is_fence_def trim_start_matches_def starts_with_def)

lemma is_fence_Cons_ws [simp]: "is_ws c \<Longrightarrow> is_fence (c # l) = is_fence l"
  by (simp add: is_fence_def trim_start_matches_def)

lemma is_fence_snoc_ws [simp]:
  assumes "is_ws c"
  shows "is_fence (l @ [c]) = is_fence l"
proof -
  have c: "c \<notin> set ''```''" "c \<notin> set ''~~~''" using assms by (auto simp: is_ws_def)
  show ?thesis
  proof (cases "\<forall>x \<in> set l. is_ws x")
    case True
    then have "dropWhile is_ws (l @ [c]) = []" "dropWhile is_ws l = []"
      using assms by (simp_all only: dropWhile_eq_Nil_conv set_append) auto
    then show ?thesis by (simp only: is_fence_def trim_start_matches_def)
  next
    case False
    then have "dropWhile is_ws (l @ [c]) = dropWhile is_ws l @ [c]" by (auto simp: dropWhile_append)
    then show ?thesis using starts_with_snoc [OF c(1)] starts_with_snoc [OF c(2)]
      by (simp only: is_fence_def trim_start_matches_def Let_def)
  qed
qed

lemma is_fence_strip_cr [simp]: "is_fence (strip_cr l) = is_fence l"
  by (cases l rule: rev_cases) (auto simp: strip_cr_def)

text \<open>The number of fence lines of a text.\<close>

definition fences :: "string \<Rightarrow> nat" where
  "fences s = length (filter is_fence (split_on (\<lambda>c. c = line_feed) s))"

lemma fences_lines: "length (filter is_fence (str_lines s)) = fences s"
proof -
  have strip: "is_fence \<circ> strip_cr = is_fence" by auto
  obtain qs q where "split_on (\<lambda>c. c = line_feed) s = qs @ [q]"
    by (metis append_butlast_last_id split_on_nonempty)
  then show ?thesis by (auto simp: str_lines_def fences_def Let_def filter_map strip)
qed

lemma split_on_snoc:
  "split_on P (s @ [c]) =
    (if P c then split_on P s @ [[]] else butlast (split_on P s) @ [last (split_on P s) @ [c]])"
proof (induction s)
  case (Cons x s)
  obtain w ws where w: "split_on P s = w # ws" by (cases "split_on P s") auto
  then show ?case using Cons by (cases "ws = []") auto
qed simp

lemma fences_Nil [simp]: "fences [] = 0"
  by (simp add: fences_def)

lemma fences_Cons_ws: "is_ws c \<Longrightarrow> fences (c # s) = fences s"
  by (cases "split_on (\<lambda>c. c = line_feed) s") (auto simp: fences_def)

lemma fences_snoc_ws: "is_ws c \<Longrightarrow> fences (s @ [c]) = fences s"
proof -
  assume c: "is_ws c"
  obtain qs q where "split_on (\<lambda>c. c = line_feed) s = qs @ [q]"
    by (metis append_butlast_last_id split_on_nonempty)
  then show ?thesis using c by (simp add: fences_def split_on_snoc)
qed

lemma fences_trim [simp]: "fences (str_trim s) = fences s"
proof -
  have "fences (dropWhile is_ws t) = fences t" for t
    by (induction t) (auto simp: fences_Cons_ws)
  moreover have "fences (rev (dropWhile is_ws t)) = fences (rev t)" for t
    by (induction t) (auto simp: fences_snoc_ws)
  ultimately show ?thesis
    by (simp add: str_trim_def trim_matches_def trim_end_matches_def trim_start_matches_def)
qed

text \<open>Texts built from whole lines.\<close>

definition line_ended :: "string \<Rightarrow> bool" where
  "line_ended s \<longleftrightarrow> s = [] \<or> last s = line_feed"

lemma split_on_at: "P sep \<Longrightarrow> split_on P (s @ sep # t) = split_on P s @ split_on P t"
proof (induction s)
  case (Cons x s)
  then show ?case by (cases "split_on P s") auto
qed simp

lemma fences_append:
  assumes "line_ended s"
  shows "fences (s @ t) = fences s + fences t"
proof (cases s rule: rev_cases)
  case (snoc u c)
  then have "c = line_feed" using assms by (simp add: line_ended_def)
  then show ?thesis using snoc by (simp add: fences_def split_on_at)
qed simp

lemma line_free: "line \<in> set (str_lines s) \<Longrightarrow> line_feed \<notin> set line"
proof -
  assume "line \<in> set (str_lines s)"
  moreover obtain qs q where "split_on (\<lambda>c. c = line_feed) s = qs @ [q]"
    by (metis append_butlast_last_id split_on_nonempty)
  ultimately obtain l where l: "l \<in> set (split_on (\<lambda>c. c = line_feed) s)" "line = strip_cr l \<or> line = l"
    by (auto simp: str_lines_def Let_def split: if_splits)
  have "line_feed \<notin> set l" using split_on_pieces_free [OF l(1)] by auto
  then show ?thesis using l(2) by (auto simp: strip_cr_def dest: in_set_butlastD split: if_splits)
qed

lemma fences_line:
  assumes "line_feed \<notin> set line" and "line_ended s"
  shows "fences (s @ line @ [line_feed]) = fences s + (if is_fence line then 1 else 0)"
    and "line_ended (s @ line @ [line_feed])"
proof -
  have "split_on (\<lambda>c. c = line_feed) line = [line]" using assms(1) by (intro split_on_piece) auto
  then have "fences line = (if is_fence line then 1 else 0)" by (simp add: fences_def)
  then show "fences (s @ line @ [line_feed]) = fences s + (if is_fence line then 1 else 0)"
    using assms(2) by (simp add: fences_append fences_snoc_ws)
qed (simp add: line_ended_def)

text \<open>The fence flag is the parity of the fence lines read so far, in the sections and in the
  paragraphs.\<close>

lemma split_lines_fences:
  assumes "\<forall>l \<in> set ls. line_feed \<notin> set l" and "line_ended (sn_body sn)" and "f = odd (fences (sn_body sn))"
    and "even (length (filter is_fence ls)) = (\<not> f)" and "s \<in> set (split_lines ls stack sn f)"
  shows "even (fences (sn_body s))"
  using assms
proof (induction ls stack sn f rule: split_lines.induct)
  case (1 stack current f)
  then show ?case by (auto simp: push_section_def split: if_splits)
next
  case (2 line rest stack current f)
  have body: "fences (sn_body (push_line line current)) = fences (sn_body current) + (if is_fence line then 1 else 0)"
    "line_ended (sn_body (push_line line current))"
    using fences_line [of line "sn_body current"] 2(4,5) by (simp_all add: push_line_def)
  show ?case
  proof (cases "is_fence line \<or> f \<or> heading_of line = None")
    case True
    then show ?thesis using 2 body by (auto split: if_splits)
  next
    case False
    then obtain level title where h: "heading_of line = Some (level, title)" by auto
    let ?stack = "push_heading level title stack"
    have "s \<in> set (push_section current) \<or>
        s \<in> set (split_lines rest ?stack \<lparr>sn_heading_path = map snd ?stack, sn_body = []\<rparr> f)"
      using 2(8) False h by (auto simp: Let_def)
    then show ?thesis
    proof
      assume "s \<in> set (push_section current)"
      then show ?thesis using 2(6) False by (auto simp: push_section_def split: if_splits)
    qed (rule 2(3), use False h 2(4,7) in \<open>auto simp: line_ended_def\<close>)
  qed
qed

lemma paragraphs_fences:
  assumes "\<forall>l \<in> set ls. line_feed \<notin> set l" and "line_ended buf" and "f = odd (fences buf)"
    and "even (length (filter is_fence ls)) = (\<not> f)" and "p \<in> set (paragraphs ls buf f)"
  shows "even (fences p) \<and> line_ended p"
  using assms
proof (induction ls buf f rule: paragraphs.induct)
  case (1 buf f)
  then show ?case by (auto split: if_splits)
next
  case (2 line rest buf f)
  have buf: "fences (buf @ line @ [line_feed]) = fences buf + (if is_fence line then 1 else 0)"
    "line_ended (buf @ line @ [line_feed])" "line_ended []"
    using fences_line [of line buf] 2(6,7) by (simp_all add: line_ended_def)
  show ?case
  proof (cases "is_fence line")
    case True
    then show ?thesis using 2(1,2) 2(6-10) buf by (cases f) (auto simp: Let_def)
  next
    case False
    then show ?thesis using 2(3-5) 2(6-10) buf by (cases "\<not> f \<and> str_trim line = []") (auto split: if_splits)
  qed
qed

lemma pack_groups_fences:
  assumes "\<forall>p \<in> set ps. even (fences p) \<and> line_ended p" and "even (fences cur)" and "line_ended cur"
    and "g \<in> set (pack_groups n ps cur)"
  shows "even (fences g)"
  using assms
proof (induction n ps cur rule: pack_groups.induct)
  case (2 n p ps cur)
  have p: "fences (p @ [line_feed]) = fences p" "line_ended (p @ [line_feed])" "line_ended (cur @ p @ [line_feed])"
    by (simp_all add: fences_snoc_ws line_ended_def)
  then have "fences (cur @ p @ [line_feed]) = fences cur + fences p"
    using fences_append [of cur "p @ [line_feed]"] 2(5) by simp
  then show ?case using 2 p by (auto split: if_splits)
qed (auto split: if_splits)

text \<open>C20: A fenced code block is never cut: when the fence lines of a document pair up, the fence lines
  of every chunk pair up, however small the size limits.\<close>

theorem chunk_fences_whole:
  assumes "even (length (filter is_fence (str_lines md)))"
  shows "list_all (\<lambda>cp. even (length (filter is_fence (str_lines (chunk_body (fst cp)))))) (chunk_markdown md opts)"
proof -
  have "even (fences (chunk_body (fst cp)))" if "cp \<in> set (chunk_markdown md opts)" for cp
  proof (rule chunk_markdown_all [OF _ that])
    fix sn part c
    assume "sn \<in> set (split_sections md)" and part: "part \<in> set (section_parts opts sn)" "chunk_body c = str_trim part"
    then have sn: "even (fences (sn_body sn))"
      by (intro split_lines_fences [of "str_lines md" _ False])
        (use assms line_free in \<open>auto simp: split_sections_def line_ended_def\<close>)
    let ?ps = "paragraphs (str_lines (str_trim (sn_body sn))) [] False"
    have "\<forall>p \<in> set ?ps. even (fences p) \<and> line_ended p"
      by (intro ballI paragraphs_fences) (use sn line_free in \<open>auto simp: fences_lines line_ended_def\<close>)
    then have "even (fences g)" if "g \<in> set (pack_paragraphs (str_trim (sn_body sn)) (co_target_chars opts))" for g
      by (rule pack_groups_fences [OF _ _ _ that [unfolded pack_paragraphs_def]]) (simp_all add: line_ended_def)
    then show "even (fences (chunk_body c))"
      using part sn by (auto simp: section_parts_def Let_def split: if_splits)
  qed
  then show ?thesis by (auto simp: list_all_iff fences_lines)
qed

text \<open>A document with a heading inside a code block, cut with small limits.\<close>

definition demo_document :: string where
  "demo_document = concat (map (\<lambda>l. l @ [line_feed])
    [''intro'', ''# Guide'', ''one'', [], ''```'', ''# no heading'', [], ''x'', ''```'', [], ''two'', ''## Sub'', ''end''])"

theorem chunk_fences_whole_witness:
  "map ck_text (map fst (chunk_markdown demo_document \<lparr>co_target_chars = 8, co_max_chars = 9\<rparr>)) =
     [''intro'', ''Guide'' @ [line_feed, line_feed] @ ''one'',
      ''Guide'' @ [line_feed, line_feed] @ ''```'' @ [line_feed] @ ''# no heading'' @ [line_feed, line_feed] @ ''x'' @ [line_feed] @ ''```'',
      ''Guide'' @ [line_feed, line_feed] @ ''two'', ''Guide > Sub'' @ [line_feed, line_feed] @ ''end''] \<and>
   list_all (\<lambda>cp. even (length (filter is_fence (str_lines (chunk_body (fst cp))))))
     (chunk_markdown demo_document \<lparr>co_target_chars = 8, co_max_chars = 9\<rparr>)"
proof
  show "list_all (\<lambda>cp. even (length (filter is_fence (str_lines (chunk_body (fst cp))))))
     (chunk_markdown demo_document \<lparr>co_target_chars = 8, co_max_chars = 9\<rparr>)"
    by (rule chunk_fences_whole) code_simp
qed code_simp

subsection \<open>Sizes and addresses\<close>

text \<open>A packed group is a single paragraph or no longer than the limit, up to the last line feeds.\<close>

lemma pack_groups_bound:
  assumes "g \<in> set (pack_groups n ps cur)"
  shows "g = cur \<or> length g \<le> Suc n \<or> (\<exists>p \<in> set ps. g = p @ [line_feed])"
  using assms
proof (induction n ps cur rule: pack_groups.induct)
  case (2 n p ps cur)
  show ?case
  proof (cases "cur \<noteq> [] \<and> n < length cur + length p")
    case True
    then show ?thesis using 2(1,3) by auto
  next
    case False
    then have "g = cur @ p @ [line_feed] \<or> length g \<le> Suc n \<or> (\<exists>p \<in> set ps. g = p @ [line_feed])"
      using 2(2,3) by auto
    then show ?thesis using False by (cases "cur = []") auto
  qed
qed (auto split: if_splits)

lemma pack_paragraphs_bound:
  assumes "g \<in> set (pack_paragraphs body n)"
  shows "length g \<le> Suc n \<or> (\<exists>p \<in> set (paragraphs (str_lines body) [] False). g = p @ [line_feed])"
  using pack_groups_bound [OF assms [unfolded pack_paragraphs_def]] by auto

text \<open>Two sections with the same heading trail have the same address, so the second replaces the
  first when the document is imported; so do a heading that ends in a part number and that part.\<close>

lemma chunk_subjects_collide:
  "map (\<lambda>(c, part). (chunk_subject c ''d.md'' (Some part), ck_text c))
     (chunk_markdown (concat (map (\<lambda>l. l @ [line_feed]) [''# A'', ''x'', ''# A'', ''y''])) chunk_options_default) =
   [(''d.md#A'', ''A'' @ [line_feed, line_feed] @ ''x''), (''d.md#A'', ''A'' @ [line_feed, line_feed] @ ''y'')]"
  by code_simp

end
