(* ===== verification/Document_Import.thy ===== *)
theory Document_Import
  imports Memory_Batch Memory_Reads Memory_Review Markdown_Chunker
begin

text \<open>
  The document import of \<open>src/crates/ecphoria-core/src/engine/mod.rs\<close>: \<open>document_ingest\<close> stores the chunks of a
  Markdown document as memories keyed by their section, \<open>document_prune\<close> expires the documents that are
  gone. Shown: an import leaves no section of an earlier version active and touches nothing outside the
  document and the sections it produced; importing an unchanged document again confirms every section.
\<close>

subsection \<open>Operations\<close>

record document =
  dc_path :: string
  dc_content :: string
  dc_metadata :: json
  dc_valid_from :: "ts option"
  dc_project :: "string option"

record document_result =
  dr_path :: string
  dr_chunks :: nat
  dr_inserted :: nat
  dr_superseded :: nat
  dr_confirmed :: nat
  dr_removed :: nat

definition chunk_metadata :: "string \<Rightarrow> json \<Rightarrow> chunk \<Rightarrow> json" where
  "chunk_metadata doc_path metadata c =
    (if json_is_object metadata
     then let m1 = json_insert ''doc_path'' (JStr doc_path) metadata;
              m2 = (case json_get m1 ''provenance'' of
                  Some _ \<Rightarrow> m1
                | None \<Rightarrow> json_insert ''provenance'' (JObj [(''source'', JStr ''document''), (''ref'', JStr doc_path)]) m1)
          in json_insert ''ordinal'' (JInt (int (ck_ordinal c)))
               (json_insert ''heading_path'' (JArr (map JStr (ck_heading_path c))) m2)
     else metadata)"

definition chunk_input :: "document \<Rightarrow> memory_scope \<Rightarrow> chunk \<times> nat \<Rightarrow> memory_input" where
  "chunk_input doc scope = (\<lambda>(c, part).
    \<lparr>i_scope = scope, i_subject = Some (chunk_subject c (dc_path doc) (Some part)), i_content = ck_text c,
     i_importance = None, i_source_event_ids = [], i_metadata = chunk_metadata (dc_path doc) (dc_metadata doc) c,
     i_mem_type = Some ''chunk'', i_valid_from = dc_valid_from doc, i_project = dc_project doc\<rparr>)"

definition document_inputs :: "document \<Rightarrow> memory_scope \<Rightarrow> chunk_options \<Rightarrow> memory_input list" where
  "document_inputs doc scope opts = map (chunk_input doc scope) (chunk_markdown (dc_content doc) opts)"

definition produced_subjects :: "memory_input list \<Rightarrow> string set" where
  "produced_subjects inputs = normalize_subject ` set (List.map_filter i_subject inputs)"

definition count_outcome :: "memory_add_result \<Rightarrow> document_result \<Rightarrow> document_result" where
  "count_outcome a r = (case ma_outcome a of
      Inserted \<Rightarrow> r\<lparr>dr_inserted := dr_inserted r + 1\<rparr>
    | Confirmed \<Rightarrow> r\<lparr>dr_confirmed := dr_confirmed r + 1\<rparr>
    | Outcome_Superseded \<Rightarrow> r\<lparr>dr_superseded := dr_superseded r + 1\<rparr>
    | Merged \<Rightarrow> r\<lparr>dr_superseded := dr_superseded r + 1\<rparr>
    | Conflict \<Rightarrow> r)"

definition expired_row :: "ts \<Rightarrow> memory \<Rightarrow> memory_row" where
  "expired_row now m =
    \<lparr>mr_memory = m\<lparr>m_state := Expired, m_valid_to := Some now, m_updated_at := now\<rparr>, mr_embedding = None\<rparr>"

definition stale_sections :: "document \<Rightarrow> memory_scope \<Rightarrow> chunk_options \<Rightarrow> memory_store \<Rightarrow> memory list" where
  "stale_sections doc scope opts st =
    (let produced = produced_subjects (document_inputs doc scope opts)
     in filter (\<lambda>m. case m_subject m of Some s \<Rightarrow> s \<notin> produced | None \<Rightarrow> False)
          (find_active_by_document scope (dc_path doc) st))"

definition document_ingest ::
  "ports \<Rightarrow> cognition_config \<Rightarrow> tick list \<Rightarrow> ts \<Rightarrow> document \<Rightarrow> memory_scope \<Rightarrow> chunk_options \<Rightarrow> engine \<Rightarrow>
   error + document_result \<times> engine" where
  "document_ingest P cfg tks now doc scope opts en =
    (let inputs = document_inputs doc scope opts;
         stale = map (expired_row now) (stale_sections doc scope opts (en_store en))
     in res_bind (memory_add_batch P cfg tks inputs en)
       (\<lambda>(added, en1).
         let result = (fold count_outcome added
               \<lparr>dr_path = dc_path doc, dr_chunks = length inputs, dr_inserted = 0, dr_superseded = 0,
                dr_confirmed = 0, dr_removed = 0\<rparr>)\<lparr>dr_removed := length stale\<rparr>
         in if stale = [] then Inr (result, en1)
            else res_bind (memory_apply_rows_batch stale en1) (\<lambda>(_, en2). Inr (result, en2))))"

text \<open>The document of a subject: what is before the first \<open>#\<close>.\<close>

definition document_of :: "string \<Rightarrow> string" where
  "document_of s = takeWhile (\<lambda>c. c \<noteq> CHR ''#'') s"

definition document_prune ::
  "ts \<Rightarrow> memory_scope \<Rightarrow> string \<Rightarrow> string list \<Rightarrow> engine \<Rightarrow> error + nat \<times> engine" where
  "document_prune now scope project keep_paths en =
    (let keep = normalize_subject ` set keep_paths;
         stale = map (expired_row now)
           (filter (\<lambda>m. case m_subject m of Some s \<Rightarrow> document_of s \<notin> keep | None \<Rightarrow> False)
             (list_project_chunks scope project (en_store en)));
         n = length stale
     in if 0 < n then res_bind (memory_apply_rows_batch stale en) (\<lambda>(_, en'). Inr (n, en')) else Inr (n, en))"

subsection \<open>What a group of rows can touch\<close>

lemma apply_rows_batch_store:
  assumes "memory_apply_rows_batch rows en = Inr (n, en')" and "ms_inv (en_store en)"
  shows "en_store en' = fold ms_put_row rows (en_store en)"
proof (cases "rows = []")
  case False
  then show ?thesis using assms
    by (auto simp: memory_apply_rows_batch_def upsert_raw_batch_eq [OF assms(2)] Let_def fold_batch_index
        res_bind_Inr_iff split: if_splits)
qed (use assms(1) in \<open>simp add: memory_apply_rows_batch_def\<close>)

definition outside :: "(memory \<Rightarrow> bool) \<Rightarrow> memory_store \<Rightarrow> memory set" where
  "outside K st = {m \<in> mems st. \<not> K m}"

lemma put_rows_outside:
  assumes "ms_inv st" and "\<forall>r \<in> set rows. K (mr_memory r)" and "\<forall>r \<in> set rows. row_id r \<notin> m_id ` outside K st"
  shows "outside K (fold ms_put_row rows st) = outside K st"
  using assms
proof (induction rows arbitrary: st)
  case (Cons r rows)
  have "m_id m \<noteq> row_id r" if "m \<in> mems st" "\<not> K m" for m
  proof -
    have "m_id m \<in> m_id ` outside K st" using that by (intro imageI) (simp add: outside_def)
    then show ?thesis using Cons.prems(3) by auto
  qed
  then have "outside K (ms_put_row r st) = outside K st"
    using Cons.prems mems_put_row [OF Cons.prems(1), of r] by (auto simp: outside_def)
  then show ?case using Cons.IH [of "ms_put_row r st"] Cons.prems by simp
qed simp

lemma outside_ids: "m \<in> mems st \<Longrightarrow> K m \<Longrightarrow> ms_inv st \<Longrightarrow> m_id m \<notin> m_id ` outside K st"
  using ms_inv_inj by (fastforce simp: outside_def)

text \<open>A key is a scope and a set of subjects.\<close>

definition keyed :: "memory_scope \<Rightarrow> string set \<Rightarrow> memory \<Rightarrow> bool" where
  "keyed sc subjects m \<longleftrightarrow> m_scope m = sc \<and> (case m_subject m of Some s \<Rightarrow> s \<in> subjects | None \<Rightarrow> False)"

definition input_keyed :: "memory_scope \<Rightarrow> string set \<Rightarrow> memory_input \<Rightarrow> bool" where
  "input_keyed sc subjects i \<longleftrightarrow> i_scope (canonical_input i) = sc \<and>
    (case i_subject (canonical_input i) of Some s \<Rightarrow> s \<in> subjects | None \<Rightarrow> False)"

lemma planned_keyed:
  assumes plan: "memory_plan_with_embedding P cfg tk input emb en = Inr (res, rows)"
    and i: "input_keyed sc subjects input" and inv: "ms_inv (en_store en)"
    and tk: "tk_id tk \<notin> m_id ` outside (keyed sc subjects) (en_store en)" and r: "r \<in> set rows"
  shows "keyed sc subjects (mr_memory r)" and "row_id r \<notin> m_id ` outside (keyed sc subjects) (en_store en)"
proof -
  obtain s where s: "i_subject (canonical_input input) = Some s" "s \<in> subjects" "i_scope (canonical_input input) = sc"
    using i by (auto simp: input_keyed_def split: option.splits)
  note pr = plan_keyed_rows [OF plan _ r]
  show "keyed sc subjects (mr_memory r)" using pr(1,2) s by (simp add: keyed_def)
  have "row_id r = tk_id tk \<or> (\<exists>m. m_id m = row_id r \<and>
      m \<in> set (find_active_by_subject sc s (i_project (canonical_input input)) (en_store en)))"
    using pr(3) s by auto
  then show "row_id r \<notin> m_id ` outside (keyed sc subjects) (en_store en)"
  proof
    assume "\<exists>m. m_id m = row_id r \<and> m \<in> set (find_active_by_subject sc s (i_project (canonical_input input)) (en_store en))"
    then obtain m where m: "m_id m = row_id r" "m \<in> mems (en_store en)" "m_scope m = norm_scope sc" "m_subject m = Some s"
      by (auto simp: in_find_active)
    have "norm_scope sc = sc" using norm_canonical [of input] s(3) by simp
    then have "keyed sc subjects m" using m s(2) by (simp add: keyed_def)
    from outside_ids [where K = "keyed sc subjects", OF m(2) this inv] show ?thesis using m(1) by simp
  qed (use tk in simp)
qed

definition confined :: "(memory \<Rightarrow> bool) \<Rightarrow> memory set \<Rightarrow> batch_state \<Rightarrow> bool" where
  "confined K Z b \<longleftrightarrow> ms_inv (en_store (b_engine b)) \<and> outside K (en_store (b_engine b)) = Z \<and>
    (\<forall>r \<in> set (b_pending b). K (mr_memory r) \<and> row_id r \<notin> m_id ` Z)"

lemma confined_applied:
  assumes "confined K Z b" and "memory_apply_rows_batch (b_pending b) (b_engine b) = Inr (n, en)"
  shows "ms_inv (en_store en)" and "outside K (en_store en) = Z"
proof -
  have st: "en_store en = fold ms_put_row (b_pending b) (en_store (b_engine b))"
    using assms by (intro apply_rows_batch_store) (auto simp: confined_def)
  show "ms_inv (en_store en)" using assms(1) by (simp add: st ms_inv_fold_put confined_def)
  show "outside K (en_store en) = Z"
    unfolding st using assms(1) put_rows_outside [of "en_store (b_engine b)" "b_pending b" K] by (auto simp: confined_def)
qed

lemma confined_step:
  assumes b: "confined (keyed sc subjects) Z b" and i: "input_keyed sc subjects input"
    and tk: "tk_id tk \<notin> m_id ` Z" and step: "batch_step P cfg (tk, input, emb) b = Inr b'"
  shows "confined (keyed sc subjects) Z b'"
proof -
  obtain b1 where b1: "batch_flush (batch_key input) b = Inr b1"
    using step by (auto simp: batch_step_def Let_def res_bind_Inr_iff)
  have c1: "confined (keyed sc subjects) Z b1"
    using b1 b confined_applied [OF b] by (auto simp: batch_flush_def confined_def res_bind_Inr_iff split: option.splits if_splits)
  obtain res rows where plan: "memory_plan_with_embedding P cfg tk input emb (b_engine b1) = Inr (res, rows)"
    and b': "b_engine b' = b_engine b1" "b_pending b' = b_pending b1 @ rows"
    using step b1 by (auto simp: batch_step_def Let_def res_bind_Inr_iff)
  have "keyed sc subjects (mr_memory r)" "row_id r \<notin> m_id ` Z" if "r \<in> set rows" for r
    using planned_keyed [OF plan i _ _ that] c1 tk by (auto simp: confined_def)
  then show ?thesis using c1 b' by (auto simp: confined_def)
qed

lemma confined_loop:
  assumes "confined (keyed sc subjects) Z b" and "\<forall>(tk, i, e) \<in> set xs. input_keyed sc subjects i \<and> tk_id tk \<notin> m_id ` Z"
    and "batch_loop P cfg xs b = Inr b'"
  shows "confined (keyed sc subjects) Z b'"
  using assms
proof (induction xs arbitrary: b)
  case (Cons x xs)
  obtain tk i e where x: "x = (tk, i, e)" by (cases x) auto
  obtain b1 where b1: "batch_step P cfg x b = Inr b1" "batch_loop P cfg xs b1 = Inr b'"
    using Cons.prems(3) by (auto simp: res_bind_Inr_iff)
  have "confined (keyed sc subjects) Z b1"
    using confined_step [OF Cons.prems(1)] Cons.prems(2) b1(1) by (auto simp: x)
  then show ?case using Cons.IH Cons.prems(2) b1(2) by auto
qed simp

lemma zip_parts: "(t, i, e) \<in> set (zip ts (zip is es)) \<Longrightarrow> t \<in> set ts \<and> i \<in> set is"
  by (meson set_zip_leftD set_zip_rightD)

lemma add_batch_confined:
  assumes add: "memory_add_batch P cfg tks inputs en = Inr (added, en')" and inv: "ms_inv (en_store en)"
    and i: "\<forall>i \<in> set inputs. input_keyed sc subjects i" and tks: "tk_id ` set tks \<inter> store_ids (en_store en) = {}"
  shows "ms_inv (en_store en')" and "outside (keyed sc subjects) (en_store en') = outside (keyed sc subjects) (en_store en)"
proof -
  let ?K = "keyed sc subjects"
  let ?b = "\<lparr>b_adds = [], b_pending = [], b_subjects = {}, b_engine = en\<rparr>"
  have out: "tk_id t \<notin> m_id ` outside ?K (en_store en)" if "t \<in> set tks" for t
    using tks imageI [OF that, of tk_id] by (auto simp: outside_def store_ids_mems)
  have b: "confined ?K (outside ?K (en_store en)) ?b" using inv by (simp add: confined_def)
  have "ms_inv (en_store en') \<and> outside ?K (en_store en') = outside ?K (en_store en)"
  proof (cases "inputs = []")
    case False
    then obtain b' n where b': "batch_loop P cfg (zip tks (zip inputs (batch_embeddings P cfg inputs))) ?b = Inr b'"
      "memory_apply_rows_batch (b_pending b') (b_engine b') = Inr (n, en')"
      using add by (auto simp: memory_add_batch_def res_bind_Inr_iff)
    have "confined ?K (outside ?K (en_store en)) b'"
      by (rule confined_loop [OF b _ b'(1)]) (use i out in \<open>auto dest: zip_parts\<close>)
    from confined_applied [OF this b'(2)] show ?thesis by simp
  qed (use add inv in \<open>simp add: memory_add_batch_def\<close>)
  then show "ms_inv (en_store en')" "outside ?K (en_store en') = outside ?K (en_store en)" by simp_all
qed

subsection \<open>The sweep\<close>

lemma split_whitespace_Nil: "split_whitespace s = [] \<longleftrightarrow> ink s = []"
proof (induction s)
  case (Cons c s)
  show ?case
  proof (cases "is_ws c")
    case True
    then show ?thesis using Cons by (simp add: split_whitespace_def)
  next
    case False
    then show ?thesis by (cases "split_on is_ws s") (auto simp: split_whitespace_def)
  qed
qed (simp add: split_whitespace_def)

lemma normalize_subject_Nil: "normalize_subject s = [] \<longleftrightarrow> ink s = []"
proof -
  have "str_join '' '' ws = [] \<longleftrightarrow> ws = []" if "\<forall>w \<in> set ws. w \<noteq> []" for ws
    using that by (cases "('' '', ws)" rule: str_join.cases) auto
  then show ?thesis
    using split_whitespace_free [of _ s] by (simp add: normalize_subject_def to_lowercase_def split_whitespace_Nil)
qed

lemma chunk_subject_path: "ink path \<noteq> [] \<Longrightarrow> normalize_subject (chunk_subject c path part) \<noteq> []"
  by (auto simp: normalize_subject_Nil chunk_subject_def Let_def split: option.splits)

lemma canonical_scope_eq: "i_scope (canonical_input i) = norm_scope (i_scope i)"
  by (simp add: canonical_input_def norm_scope_def)

lemma document_inputs_keyed:
  assumes "ink (dc_path doc) \<noteq> []" and "i \<in> set (document_inputs doc scope opts)"
  shows "input_keyed (norm_scope scope) (produced_subjects (document_inputs doc scope opts)) i"
proof -
  obtain c part where i: "i = chunk_input doc scope (c, part)" using assms(2) by (auto simp: document_inputs_def)
  let ?s = "chunk_subject c (dc_path doc) (Some part)"
  have s: "i_subject i = Some ?s" and sc: "i_scope i = scope" by (simp_all add: i chunk_input_def)
  have "normalize_subject ?s \<in> produced_subjects (document_inputs doc scope opts)"
    unfolding produced_subjects_def by (rule imageI) (use assms(2) s in \<open>auto simp: in_set_map_filter\<close>)
  moreover have "i_subject (canonical_input i) = Some (normalize_subject ?s)"
    using s chunk_subject_path [OF assms(1)] by (simp add: canonical_input_def Let_def)
  ultimately show ?thesis by (simp add: input_keyed_def canonical_scope_eq sc)
qed

definition in_document :: "memory_scope \<Rightarrow> string \<Rightarrow> memory \<Rightarrow> bool" where
  "in_document scope path m \<longleftrightarrow> m_scope m = norm_scope scope \<and>
    (case m_subject m of None \<Rightarrow> False
     | Some s \<Rightarrow> s = normalize_subject path \<or> take (length (normalize_subject path) + 1) s = normalize_subject path @ ''#'')"

lemma in_find_document:
  "m \<in> set (find_active_by_document scope path st) \<longleftrightarrow> m \<in> mems st \<and> m_state m = Active \<and> in_document scope path m"
proof -
  have "prefix p s \<longleftrightarrow> take (length p) s = p" for p s :: string
    by (metis append_eq_conv_conj prefix_def)
  from this [of "normalize_subject path @ ''#''"] show ?thesis
    by (auto simp: find_active_by_document_literal in_document_def split: option.splits)
qed

lemma expired_row_simps [simp]:
  "row_id (expired_row now m) = m_id m" "m_state (mr_memory (expired_row now m)) = Expired"
  "m_scope (mr_memory (expired_row now m)) = m_scope m" "m_subject (mr_memory (expired_row now m)) = m_subject m"
  by (simp_all add: expired_row_def)

lemma in_document_expired: "in_document scope path (mr_memory (expired_row now m)) = in_document scope path m"
  by (simp add: in_document_def)

lemma distinct_find_document:
  assumes "ms_inv st" shows "distinct (map m_id (find_active_by_document scope path st))"
proof -
  have "distinct (map m_id (ms_select Q st))" for Q
    unfolding ms_select_def by (rule distinct_map_filter [OF distinct_mems [OF assms]])
  moreover have "mset (map m_id (sort_key f xs)) = mset (map m_id xs)" for f :: "memory \<Rightarrow> string" and xs
    by simp
  ultimately have "distinct (map m_id (sort_key f (ms_select Q st)))" for f :: "memory \<Rightarrow> string" and Q
    using mset_eq_imp_distinct_iff by blast
  then show ?thesis by (simp add: find_active_by_document_def Let_def)
qed

text \<open>What is left after rows were expired.\<close>

lemma mems_expired:
  assumes "memory_apply_rows_batch (map (expired_row now) ms) en = Inr (n, en')" and "ms_inv (en_store en)"
    and "distinct (map m_id ms)"
  shows "mems (en_store en') = (\<lambda>m. mr_memory (expired_row now m)) ` set ms \<union> {m \<in> mems (en_store en). m_id m \<notin> m_id ` set ms}"
proof -
  have "distinct (map row_id (map (expired_row now) ms))" using assms(3) by (simp add: comp_def)
  from mems_fold_put [OF assms(2) this] show ?thesis
    by (simp add: apply_rows_batch_store [OF assms(1,2)] image_image)
qed

lemma document_ingestE:
  assumes "document_ingest P cfg tks now doc scope opts en = Inr (res, en')"
  obtains added en1 where
    "memory_add_batch P cfg tks (document_inputs doc scope opts) en = Inr (added, en1)"
    "dr_removed res = length (stale_sections doc scope opts (en_store en))"
    "stale_sections doc scope opts (en_store en) = [] \<and> en' = en1 \<or>
     (\<exists>n. memory_apply_rows_batch (map (expired_row now) (stale_sections doc scope opts (en_store en))) en1 = Inr (n, en'))"
  using assms by (auto simp: document_ingest_def Let_def res_bind_Inr_iff split: if_splits)

lemma in_stale_sections:
  "m \<in> set (stale_sections doc scope opts st) \<longleftrightarrow> m \<in> mems st \<and> m_state m = Active \<and> in_document scope (dc_path doc) m \<and>
     \<not> keyed (norm_scope scope) (produced_subjects (document_inputs doc scope opts)) m"
  by (auto simp: stale_sections_def Let_def in_find_document keyed_def in_document_def split: option.splits)

lemma distinct_stale_sections: "ms_inv st \<Longrightarrow> distinct (map m_id (stale_sections doc scope opts st))"
  unfolding stale_sections_def Let_def by (rule distinct_map_filter [OF distinct_find_document])

lemma document_ingest_mems:
  assumes ing: "document_ingest P cfg tks now doc scope opts en = Inr (res, en')"
    and inv: "ms_inv (en_store en)" and tks: "tk_id ` set tks \<inter> store_ids (en_store en) = {}"
    and path: "ink (dc_path doc) \<noteq> []"
  obtains en1 added where
    "memory_add_batch P cfg tks (document_inputs doc scope opts) en = Inr (added, en1)" "ms_inv (en_store en1)"
    "outside (keyed (norm_scope scope) (produced_subjects (document_inputs doc scope opts))) (en_store en1) =
     outside (keyed (norm_scope scope) (produced_subjects (document_inputs doc scope opts))) (en_store en)"
    "mems (en_store en') = (\<lambda>m. mr_memory (expired_row now m)) ` set (stale_sections doc scope opts (en_store en)) \<union>
       {m \<in> mems (en_store en1). m_id m \<notin> m_id ` set (stale_sections doc scope opts (en_store en))}"
    "dr_removed res = length (stale_sections doc scope opts (en_store en))"
proof -
  let ?ms = "stale_sections doc scope opts (en_store en)"
  obtain added en1 where add: "memory_add_batch P cfg tks (document_inputs doc scope opts) en = Inr (added, en1)"
    and removed: "dr_removed res = length ?ms"
    and swept: "?ms = [] \<and> en' = en1 \<or> (\<exists>n. memory_apply_rows_batch (map (expired_row now) ?ms) en1 = Inr (n, en'))"
    by (rule document_ingestE [OF ing])
  note batch = add_batch_confined [OF add inv _ tks, of "norm_scope scope" "produced_subjects (document_inputs doc scope opts)"]
  have keyed: "\<forall>i \<in> set (document_inputs doc scope opts).
      input_keyed (norm_scope scope) (produced_subjects (document_inputs doc scope opts)) i"
    using document_inputs_keyed [OF path] by blast
  have "mems (en_store en') = (\<lambda>m. mr_memory (expired_row now m)) ` set ?ms \<union> {m \<in> mems (en_store en1). m_id m \<notin> m_id ` set ?ms}"
    using swept mems_expired [of now ?ms en1 _ en'] batch(1) [OF keyed] distinct_stale_sections [OF inv] by auto
  then show ?thesis using that add batch [OF keyed] removed by blast
qed

lemma nothing_stale_left:
  assumes "document_ingest P cfg tks now doc scope opts en = Inr (res, en')"
    and "ms_inv (en_store en)" and "tk_id ` set tks \<inter> store_ids (en_store en) = {}"
    and "ink (dc_path doc) \<noteq> []"
    and m: "m \<in> mems (en_store en')" "m_state m = Active" "in_document scope (dc_path doc) m"
  shows "keyed (norm_scope scope) (produced_subjects (document_inputs doc scope opts)) m"
proof (rule ccontr)
  let ?K = "keyed (norm_scope scope) (produced_subjects (document_inputs doc scope opts))"
  let ?ms = "stale_sections doc scope opts (en_store en)"
  assume K: "\<not> ?K m"
  obtain en1 added where "memory_add_batch P cfg tks (document_inputs doc scope opts) en = Inr (added, en1)"
    and en1: "ms_inv (en_store en1)" "outside ?K (en_store en1) = outside ?K (en_store en)"
    and mems: "mems (en_store en') = (\<lambda>m. mr_memory (expired_row now m)) ` set ?ms \<union>
       {m \<in> mems (en_store en1). m_id m \<notin> m_id ` set ?ms}"
    and "dr_removed res = length ?ms"
    by (rule document_ingest_mems [OF assms(1-4)])
  have "m \<in> mems (en_store en1)" "m_id m \<notin> m_id ` set ?ms" using m(1,2) mems by auto
  then have "m \<in> outside ?K (en_store en)" "m \<notin> set ?ms" using en1(2) K by (auto simp: outside_def)
  then show False using m(2,3) K by (simp add: in_stale_sections outside_def)
qed

text \<open>C18: Importing a document sweeps it: afterwards every active memory of the document belongs to a
  section of the new version; the sections that are gone are counted and kept as expired history; and all
  memories outside the document and outside the produced sections are exactly as they were. This holds
  whatever the embedding service answers.\<close>

theorem document_ingest_sweeps:
  assumes "document_ingest P cfg tks now doc scope opts en = Inr (res, en')"
    and "ms_inv (en_store en)" and "tk_id ` set tks \<inter> store_ids (en_store en) = {}"
    and "ink (dc_path doc) \<noteq> []"
    and "K = keyed (norm_scope scope) (produced_subjects (document_inputs doc scope opts))"
  shows "{m \<in> mems (en_store en'). m_state m = Active \<and> in_document scope (dc_path doc) m \<and> \<not> K m} = {} \<and>
    (\<lambda>m. m\<lparr>m_state := Expired, m_valid_to := Some now, m_updated_at := now\<rparr>) ` set (stale_sections doc scope opts (en_store en))
      \<subseteq> mems (en_store en') \<and>
    dr_removed res = length (stale_sections doc scope opts (en_store en)) \<and>
    outside (\<lambda>m. in_document scope (dc_path doc) m \<or> K m) (en_store en') =
      outside (\<lambda>m. in_document scope (dc_path doc) m \<or> K m) (en_store en)"
proof -
  let ?ms = "stale_sections doc scope opts (en_store en)"
  obtain en1 added where "memory_add_batch P cfg tks (document_inputs doc scope opts) en = Inr (added, en1)"
    and en1: "ms_inv (en_store en1)" "outside K (en_store en1) = outside K (en_store en)"
    and mems: "mems (en_store en') = (\<lambda>m. mr_memory (expired_row now m)) ` set ?ms \<union>
       {m \<in> mems (en_store en1). m_id m \<notin> m_id ` set ?ms}"
    and removed: "dr_removed res = length ?ms"
    unfolding assms(5) by (rule document_ingest_mems [OF assms(1-4)])
  have out: "m \<in> mems (en_store en1) \<longleftrightarrow> m \<in> mems (en_store en)" if "\<not> K m" for m
    using en1(2) that by (auto simp: outside_def)
  have stale: "m \<in> set ?ms \<longleftrightarrow> m \<in> mems (en_store en) \<and> m_state m = Active \<and> in_document scope (dc_path doc) m \<and> \<not> K m" for m
    by (simp add: in_stale_sections assms(5))
  have "K m" if "m \<in> mems (en_store en')" "m_state m = Active" "in_document scope (dc_path doc) m" for m
    unfolding assms(5) using nothing_stale_left [OF assms(1-4) that] .
  moreover have "m \<in> mems (en_store en') \<longleftrightarrow> m \<in> mems (en_store en)"
    if "\<not> in_document scope (dc_path doc) m" "\<not> K m" for m
  proof -
    have "m_id m \<notin> m_id ` set ?ms" if m: "m \<in> mems (en_store en)"
    proof
      assume "m_id m \<in> m_id ` set ?ms"
      then obtain x where x: "x \<in> set ?ms" "m_id m = m_id x" by (rule imageE) simp
      then have "m = x" using ms_inv_inj [OF assms(2) m] stale [of x] by simp
      then show False using x(1) stale [of x] \<open>\<not> in_document scope (dc_path doc) m\<close> by simp
    qed
    moreover have "m \<notin> (\<lambda>m. mr_memory (expired_row now m)) ` set ?ms"
    proof
      assume "m \<in> (\<lambda>m. mr_memory (expired_row now m)) ` set ?ms"
      then obtain x where "x \<in> set ?ms" "m = mr_memory (expired_row now x)" by (rule imageE) simp
      then have "in_document scope (dc_path doc) m" using stale [of x] by (simp add: in_document_expired)
      then show False using that(1) by simp
    qed
    ultimately show ?thesis using mems out [OF that(2)] by blast
  qed
  moreover have "(\<lambda>m. m\<lparr>m_state := Expired, m_valid_to := Some now, m_updated_at := now\<rparr>) ` set ?ms \<subseteq> mems (en_store en')"
    unfolding mems expired_row_def by simp
  ultimately show ?thesis using removed unfolding outside_def by blast
qed

text \<open>Two versions of a document, the second without the section \<open>B\<close>.\<close>

definition demo_doc :: "string list \<Rightarrow> document" where
  "demo_doc ls = \<lparr>dc_path = ''Docs/Run.md'', dc_content = concat (map (\<lambda>l. l @ [line_feed]) ls),
    dc_metadata = JObj [], dc_valid_from = None, dc_project = Some ''ops''\<rparr>"

definition demo_doc1 :: document where
  "demo_doc1 = demo_doc [''# A'', ''one'', ''# B'', ''two'']"

definition demo_doc2 :: document where
  "demo_doc2 = demo_doc [''# A'', ''one, edited'', ''# C'', ''three'']"

abbreviation demo_import1 :: "engine \<Rightarrow> error + document_result \<times> engine" where
  "demo_import1 \<equiv> document_ingest demo_ports demo_cfg [demo_tick 11, demo_tick 12] 40 demo_doc1 (tenant_scope ''acme'') chunk_options_default"

abbreviation demo_import2 :: "engine \<Rightarrow> error + document_result \<times> engine" where
  "demo_import2 \<equiv> document_ingest demo_ports demo_cfg [demo_tick 13, demo_tick 14] 50 demo_doc2 (tenant_scope ''acme'') chunk_options_default"

theorem document_ingest_sweeps_witness:
  "\<exists>r1 en1 res en2. demo_import1 demo_engine1 = Inr (r1, en1) \<and> demo_import2 en1 = Inr (res, en2) \<and>
     dr_inserted r1 = 2 \<and> dr_inserted res = 1 \<and> dr_superseded res = 1 \<and> dr_removed res = 1 \<and>
     {m \<in> mems (en_store en2). m_state m = Active \<and> in_document (tenant_scope ''acme'') (dc_path demo_doc2) m \<and>
        \<not> keyed (norm_scope (tenant_scope ''acme''))
            (produced_subjects (document_inputs demo_doc2 (tenant_scope ''acme'') chunk_options_default)) m} = {}"
proof -
  have "case demo_import1 demo_engine1 of Inl _ \<Rightarrow> False
    | Inr (r1, en1) \<Rightarrow> dr_inserted r1 = 2 \<and> ms_inv (en_store en1) \<and>
        tk_id ` set [demo_tick 13, demo_tick 14] \<inter> store_ids (en_store en1) = {} \<and>
        (case demo_import2 en1 of Inl _ \<Rightarrow> False
         | Inr (res, _) \<Rightarrow> dr_inserted res = 1 \<and> dr_superseded res = 1 \<and> dr_removed res = 1)"
    by code_simp
  then obtain r1 en1 where one: "demo_import1 demo_engine1 = Inr (r1, en1)" "dr_inserted r1 = 2"
    and inv: "ms_inv (en_store en1)" "tk_id ` set [demo_tick 13, demo_tick 14] \<inter> store_ids (en_store en1) = {}"
    and two: "case demo_import2 en1 of Inl _ \<Rightarrow> False
      | Inr (res, _) \<Rightarrow> dr_inserted res = 1 \<and> dr_superseded res = 1 \<and> dr_removed res = 1"
    by (cases "demo_import1 demo_engine1") auto
  from two obtain res en2 where run: "demo_import2 en1 = Inr (res, en2)"
    "dr_inserted res = 1" "dr_superseded res = 1" "dr_removed res = 1"
    by (cases "demo_import2 en1") auto
  have "ink (dc_path demo_doc2) \<noteq> []" by code_simp
  from document_ingest_sweeps [OF run(1) inv this refl] show ?thesis using one run by blast
qed

subsection \<open>Importing again\<close>

text \<open>When the keys of a batch are distinct nothing is flushed early: every input is planned against the
  state before the batch.\<close>

lemma batch_step_fresh:
  assumes "batch_key i = Some k" and "k \<notin> b_subjects b"
  shows "batch_step P cfg (tk, i, e) b =
    res_bind (memory_plan_with_embedding P cfg tk i e (b_engine b))
      (\<lambda>(add, planned). Inr (b\<lparr>b_subjects := insert k (b_subjects b), b_adds := b_adds b @ [add], b_pending := b_pending b @ planned\<rparr>))"
  using assms by (simp add: batch_step_def batch_flush_def)

definition keys_fresh :: "(tick \<times> memory_input \<times> embedding option) list \<Rightarrow> batch_state \<Rightarrow> bool" where
  "keys_fresh xs b \<longleftrightarrow> distinct (map (\<lambda>(tk, i, e). batch_key i) xs) \<and>
    (\<forall>(tk, i, e) \<in> set xs. i_subject (canonical_input i) \<noteq> None \<and> (\<forall>k. batch_key i = Some k \<longrightarrow> k \<notin> b_subjects b))"

definition planned_in :: "ports \<Rightarrow> cognition_config \<Rightarrow> engine \<Rightarrow> tick \<times> memory_input \<times> embedding option \<Rightarrow>
    memory_add_result \<times> memory_row list \<Rightarrow> bool" where
  "planned_in P cfg en = (\<lambda>(tk, i, e) p. memory_plan_with_embedding P cfg tk i e en = Inr p)"

lemma batch_loop_fresh:
  assumes "keys_fresh xs b"
  shows "batch_loop P cfg xs b = Inr b' \<Longrightarrow>
    \<exists>ps. list_all2 (planned_in P cfg (b_engine b)) xs ps \<and> b_engine b' = b_engine b \<and>
      b_adds b' = b_adds b @ map fst ps \<and> b_pending b' = b_pending b @ concat (map snd ps)"
    and "list_all2 (planned_in P cfg (b_engine b)) xs ps \<Longrightarrow>
    \<exists>b'. batch_loop P cfg xs b = Inr b' \<and> b_engine b' = b_engine b \<and>
      b_adds b' = b_adds b @ map fst ps \<and> b_pending b' = b_pending b @ concat (map snd ps)"
proof -
  have step: "\<exists>k. batch_key i = Some k \<and> k \<notin> b_subjects b \<and>
      (\<forall>A B. keys_fresh xs (b\<lparr>b_subjects := insert k (b_subjects b), b_adds := A, b_pending := B\<rparr>))"
    if f: "keys_fresh ((tk, i, e) # xs) b" for tk i e xs b
  proof -
    obtain s where s: "i_subject (canonical_input i) = Some s" using f by (auto simp: keys_fresh_def)
    show ?thesis using f batch_key_canonical [OF s] by (force simp: keys_fresh_def)
  qed
  show "batch_loop P cfg xs b = Inr b' \<Longrightarrow>
    \<exists>ps. list_all2 (planned_in P cfg (b_engine b)) xs ps \<and> b_engine b' = b_engine b \<and>
      b_adds b' = b_adds b @ map fst ps \<and> b_pending b' = b_pending b @ concat (map snd ps)"
    using assms
  proof (induction xs arbitrary: b)
    case (Cons x xs)
    obtain tk i e where x: "x = (tk, i, e)" by (cases x) auto
    obtain k where k: "batch_key i = Some k" "k \<notin> b_subjects b"
      "\<And>A B. keys_fresh xs (b\<lparr>b_subjects := insert k (b_subjects b), b_adds := A, b_pending := B\<rparr>)"
      using step [OF Cons.prems(2) [unfolded x]] by blast
    obtain add rows where p: "memory_plan_with_embedding P cfg tk i e (b_engine b) = Inr (add, rows)"
      using Cons.prems(1) by (auto simp: x batch_step_fresh [OF k(1,2)] res_bind_Inr_iff)
    from Cons.IH [OF _ k(3) [of "b_pending b @ rows" "b_adds b @ [add]"]] Cons.prems(1) obtain ps where "list_all2 (planned_in P cfg (b_engine b)) xs ps"
      "b_engine b' = b_engine b" "b_adds b' = b_adds b @ [add] @ map fst ps" "b_pending b' = b_pending b @ rows @ concat (map snd ps)"
      using p k by (auto simp: x batch_step_fresh)
    then show ?case by (intro exI [of _ "(add, rows) # ps"]) (use p in \<open>simp add: x planned_in_def\<close>)
  qed simp
  show "list_all2 (planned_in P cfg (b_engine b)) xs ps \<Longrightarrow>
    \<exists>b'. batch_loop P cfg xs b = Inr b' \<and> b_engine b' = b_engine b \<and>
      b_adds b' = b_adds b @ map fst ps \<and> b_pending b' = b_pending b @ concat (map snd ps)"
    using assms
  proof (induction xs arbitrary: b ps)
    case (Cons x xs)
    obtain tk i e where x: "x = (tk, i, e)" by (cases x) auto
    obtain add rows qs where ps: "ps = (add, rows) # qs" "list_all2 (planned_in P cfg (b_engine b)) xs qs"
      and p: "memory_plan_with_embedding P cfg tk i e (b_engine b) = Inr (add, rows)"
      using Cons.prems(1) by (auto simp: x planned_in_def list_all2_Cons1)
    obtain k where k: "batch_key i = Some k" "k \<notin> b_subjects b"
      "\<And>A B. keys_fresh xs (b\<lparr>b_subjects := insert k (b_subjects b), b_adds := A, b_pending := B\<rparr>)"
      using step [OF Cons.prems(2) [unfolded x]] by blast
    show ?case using Cons.IH [OF _ k(3) [of "b_pending b @ rows" "b_adds b @ [add]"], of qs] ps p k by (auto simp: x batch_step_fresh)
  qed simp
qed

text \<open>What a plan leaves active at its key.\<close>

lemma plan_settles:
  assumes plan: "memory_plan_with_embedding P cfg tk i e en = Inr (res, rows)"
    and s: "i_subject (canonical_input i) = Some s" and off: "\<not> cg_contradiction_review cfg"
    and uni: "unique_active (en_store en)"
  shows "m_scope (ma_memory res) = i_scope (canonical_input i) \<and> m_subject (ma_memory res) = Some s \<and>
      m_project (ma_memory res) = i_project (canonical_input i) \<and> m_state (ma_memory res) = Active \<and>
      str_trim (m_content (ma_memory res)) = str_trim (i_content i) \<and> ma_memory res \<in> mr_memory ` set rows"
    and "r \<in> set rows \<Longrightarrow> m_state (mr_memory r) = Active \<Longrightarrow> mr_memory r = ma_memory res"
    and "x \<in> set (find_active_by_subject (i_scope (canonical_input i)) s (i_project (canonical_input i)) (en_store en)) \<Longrightarrow>
      m_id x \<in> row_id ` set rows"
proof -
  let ?i = "canonical_input i"
  have content: "i_content ?i = i_content i" by (simp add: canonical_input_def)
  have "(m_scope (ma_memory res) = i_scope ?i \<and> m_subject (ma_memory res) = Some s \<and>
      m_project (ma_memory res) = i_project ?i \<and> m_state (ma_memory res) = Active \<and>
      str_trim (m_content (ma_memory res)) = str_trim (i_content i) \<and> ma_memory res \<in> mr_memory ` set rows) \<and>
    (\<forall>r \<in> set rows. m_state (mr_memory r) = Active \<longrightarrow> mr_memory r = ma_memory res) \<and>
    (\<forall>x \<in> set (find_active_by_subject (i_scope ?i) s (i_project ?i) (en_store en)). m_id x \<in> row_id ` set rows)"
    using plan refl refl
  proof (cases rule: plan_cases)
    case inserted
    then show ?thesis using s by (elim plan_inserted_rows) (auto simp: content)
  next
    case (confirmed s' existing rest)
    have s': "s' = s" using confirmed(1) s by simp
    have ex: "x = existing" if "x \<in> set (find_active_by_subject (i_scope ?i) s (i_project ?i) (en_store en))" for x
    proof -
      have "existing \<in> set (find_active_by_subject (i_scope ?i) s (i_project ?i) (en_store en))"
        using confirmed(2) s' by simp
      then show ?thesis using that uni unfolding unique_active_def in_find_active same_key_def by (metis Option.is_none_simps(2))
    qed
    have "existing \<in> set (find_active_by_subject (i_scope ?i) s (i_project ?i) (en_store en))"
      using confirmed(2) s' by simp
    then have "m_scope existing = i_scope ?i" "m_subject existing = Some s" "m_project existing = i_project ?i" "m_state existing = Active"
      by (auto simp: in_find_active)
    with confirmed(4) show ?thesis using ex confirmed(3) by (elim plan_confirmed_rows) (auto simp: content)
  next
    case (superseded s' existing rest)
    have s': "s' = s" using superseded(1) s by simp
    from superseded(5) obtain new where
      rows: "rows = map (superseded_row (m_valid_from new) (tk_recorded_at tk)) (existing # rest) @ [\<lparr>mr_memory = new, mr_embedding = e\<rparr>]"
      and new: "ma_memory res = new" "m_state new = Active" "m_scope new = i_scope ?i" "m_subject new = Some s'"
        "m_project new = i_project ?i" "m_content new = i_content ?i"
      by (rule plan_superseded_rows) metis
    have "m_id x \<in> row_id ` set rows" if "x \<in> set (existing # rest)" for x
    proof -
      have "superseded_row (m_valid_from new) (tk_recorded_at tk) x \<in> set rows" using that rows by auto
      then show ?thesis by (rule rev_image_eqI) simp
    qed
    then show ?thesis using new rows superseded(3) s' by (auto simp: content)
  next
    case merged
    then show ?thesis using s by simp
  qed (use off in simp)
  then show "m_scope (ma_memory res) = i_scope ?i \<and> m_subject (ma_memory res) = Some s \<and>
      m_project (ma_memory res) = i_project ?i \<and> m_state (ma_memory res) = Active \<and>
      str_trim (m_content (ma_memory res)) = str_trim (i_content i) \<and> ma_memory res \<in> mr_memory ` set rows"
    "r \<in> set rows \<Longrightarrow> m_state (mr_memory r) = Active \<Longrightarrow> mr_memory r = ma_memory res"
    "x \<in> set (find_active_by_subject (i_scope ?i) s (i_project ?i) (en_store en)) \<Longrightarrow> m_id x \<in> row_id ` set rows"
    by blast+
qed

lemma buffered_loop:
  assumes "buffered b" and "keys_fresh xs b" and "distinct (map (tk_id \<circ> fst) xs)"
    and "tk_id ` fst ` set xs \<inter> known_ids b = {}" and "batch_loop P cfg xs b = Inr b'"
  shows "buffered b'"
  using assms
proof (induction xs arbitrary: b)
  case (Cons x xs)
  obtain tk i e where x: "x = (tk, i, e)" by (cases x) auto
  obtain s where s: "i_subject (canonical_input i) = Some s" using Cons.prems(2) x by (auto simp: keys_fresh_def)
  note k = batch_key_canonical [OF s]
  let ?k = "(scope_partition_key (i_scope (canonical_input i)), s)"
  have new: "?k \<notin> b_subjects b" using Cons.prems(2) k by (auto simp: keys_fresh_def x)
  obtain add rows where plan: "memory_plan_with_embedding P cfg tk i e (b_engine b) = Inr (add, rows)"
    and loop: "batch_loop P cfg xs (b\<lparr>b_subjects := insert ?k (b_subjects b), b_adds := b_adds b @ [add],
      b_pending := b_pending b @ rows\<rparr>) = Inr b'"
    using Cons.prems(5) by (auto simp: x batch_step_fresh [OF k new] res_bind_Inr_iff)
  let ?b = "b\<lparr>b_subjects := insert ?k (b_subjects b), b_adds := b_adds b @ [add], b_pending := b_pending b @ rows\<rparr>"
  have fresh: "tk_id tk \<notin> known_ids b" using Cons.prems(4) x by simp
  have "buffered ?b"
    using buffered_planned [OF Cons.prems(1) fresh plan] s k new by simp
  moreover have "keys_fresh xs ?b" using Cons.prems(2) k by (force simp: keys_fresh_def x)
  moreover have "tk_id ` fst ` set xs \<inter> known_ids ?b = {}"
  proof -
    have sub: "known_ids ?b \<subseteq> insert (tk_id tk) (known_ids b)"
      using plan_rows(4) [OF plan] Cons.prems(1) fresh by (auto simp: known_ids_def buffered_def)
    have "tk_id tk \<notin> tk_id ` fst ` set xs" using Cons.prems(3) x by (auto simp: image_image)
    moreover have "tk_id ` fst ` set xs \<inter> known_ids b = {}" using Cons.prems(4) by auto
    ultimately show ?thesis using sub by (rule disjoint_insert_sub)
  qed
  ultimately show ?case using Cons.IH [of ?b] Cons.prems(3) loop by simp
qed simp

lemma length_batch_embeddings: "length (batch_embeddings P cfg inputs) = length inputs"
proof -
  have "length (concat (map f cs)) = length (concat cs)" if "\<And>c. c \<in> set cs \<Longrightarrow> length (f c) = length c"
    for f :: "memory_input list \<Rightarrow> embedding option list" and cs
    using that by (induction cs) auto
  from this [of "chunks_of (max (cg_embed_batch_size cfg) 1) inputs"] show ?thesis
    unfolding batch_embeddings_def by (simp add: option.case_eq_if)
qed

text \<open>The addresses of a document: one per chunk, in order.\<close>

definition document_keys :: "document \<Rightarrow> chunk_options \<Rightarrow> string list" where
  "document_keys doc opts =
    map (\<lambda>(c, part). normalize_subject (chunk_subject c (dc_path doc) (Some part))) (chunk_markdown (dc_content doc) opts)"

lemma document_input_key:
  assumes "ink (dc_path doc) \<noteq> []" and "j < length (document_inputs doc scope opts)"
  shows "i_subject (canonical_input (document_inputs doc scope opts ! j)) = Some (document_keys doc opts ! j)"
    and "i_scope (canonical_input (document_inputs doc scope opts ! j)) = norm_scope scope"
    and "i_project (canonical_input (document_inputs doc scope opts ! j)) = dc_project doc"
    and "length (document_keys doc opts) = length (document_inputs doc scope opts)"
  using assms chunk_subject_path [OF assms(1)]
  by (auto simp: document_inputs_def document_keys_def chunk_input_def canonical_input_def Let_def norm_scope_def
      split: prod.split)

lemma document_keys_fresh:
  assumes "ink (dc_path doc) \<noteq> []" and "distinct (document_keys doc opts)" and "b_subjects b = {}"
  shows "keys_fresh (zip tks (zip (document_inputs doc scope opts) es)) b"
proof -
  let ?is = "document_inputs doc scope opts"
  have key: "batch_key (?is ! j) = Some (scope_partition_key (norm_scope scope), document_keys doc opts ! j)"
    if "j < length ?is" for j
    using batch_key_canonical document_input_key [OF assms(1) that] by metis
  have len: "length (document_keys doc opts) = length ?is" by (simp add: document_keys_def document_inputs_def)
  have "distinct (map (\<lambda>(tk, i, e). batch_key i) (zip tks (zip ?is es)))"
    using assms(2) len by (auto simp: distinct_conv_nth key split: prod.split)
  moreover have "i_subject (canonical_input i) \<noteq> None" if "i \<in> set ?is" for i
    using that document_input_key(1) [OF assms(1)] by (metis in_set_conv_nth option.distinct(1))
  ultimately show ?thesis using assms(3) by (auto simp: keys_fresh_def dest: zip_parts)
qed

text \<open>The plans of an import whose addresses are distinct, and the store they lead to.\<close>

lemma document_plans:
  assumes add: "memory_add_batch P cfg tks (document_inputs doc scope opts) en = Inr (added, en1)"
    and inv: "ms_inv (en_store en)" "lx_inv (en_lex en)"
    and tks: "length tks = length (document_inputs doc scope opts)" "distinct (map tk_id tks)"
      "tk_id ` set tks \<inter> store_ids (en_store en) = {}"
    and path: "ink (dc_path doc) \<noteq> []" and keys: "distinct (document_keys doc opts)"
  obtains ps es where "length ps = length (document_inputs doc scope opts)"
    "\<forall>j < length (document_inputs doc scope opts).
       memory_plan_with_embedding P cfg (tks ! j) (document_inputs doc scope opts ! j) (es ! j) en = Inr (ps ! j)"
    "mems (en_store en1) = mr_memory ` set (concat (map snd ps)) \<union>
       {x \<in> mems (en_store en). m_id x \<notin> row_id ` set (concat (map snd ps))}"
proof -
  let ?is = "document_inputs doc scope opts" and ?b = "\<lparr>b_adds = [], b_pending = [], b_subjects = {}, b_engine = en\<rparr>"
  define es where "es = batch_embeddings P cfg ?is"
  have es: "length es = length ?is" by (simp add: es_def length_batch_embeddings)
  let ?xs = "zip tks (zip ?is es)"
  show ?thesis
  proof (cases "?is = []")
    case True
    then show ?thesis using that [of "[]" "[]"] add by (simp add: memory_add_batch_def)
  next
    case False
    then obtain b' n where b': "batch_loop P cfg ?xs ?b = Inr b'"
      "memory_apply_rows_batch (b_pending b') (b_engine b') = Inr (n, en1)"
      using add by (auto simp: memory_add_batch_def res_bind_Inr_iff es_def)
    have fresh: "keys_fresh ?xs ?b" using document_keys_fresh [OF path keys] by simp
    obtain ps where ps: "list_all2 (planned_in P cfg en) ?xs ps" "b_engine b' = en" "b_pending b' = concat (map snd ps)"
      using batch_loop_fresh(1) [OF fresh b'(1)] by auto
    have len: "length ?xs = length ?is" using tks(1) es by simp
    have "map (tk_id \<circ> fst) ?xs = map tk_id tks" using tks(1) es by (simp flip: map_map)
    moreover have "tk_id ` fst ` set ?xs \<inter> known_ids ?b = {}"
    proof -
      have "fst ` set ?xs \<subseteq> set tks" by (auto dest: zip_parts)
      then show ?thesis using tks(3) by (auto simp: known_ids_def)
    qed
    moreover have "buffered ?b" using inv by (simp add: buffered_def)
    ultimately have "buffered b'" using buffered_loop [OF _ fresh _ _ b'(1)] tks(2) by simp
    then have rows: "distinct (map row_id (concat (map snd ps)))" using ps(3) by (simp add: buffered_def)
    have "en_store en1 = fold ms_put_row (concat (map snd ps)) (en_store en)"
      using apply_rows_batch_store [OF b'(2)] inv(1) ps(2,3) by simp
    then have mems: "mems (en_store en1) = mr_memory ` set (concat (map snd ps)) \<union>
       {x \<in> mems (en_store en). m_id x \<notin> row_id ` set (concat (map snd ps))}"
      using mems_fold_put [OF inv(1) rows] by simp
    show ?thesis
    proof (rule that [OF _ _ mems])
      show "length ps = length ?is" using list_all2_lengthD [OF ps(1)] len by simp
      show "\<forall>j < length ?is. memory_plan_with_embedding P cfg (tks ! j) (?is ! j) (es ! j) en = Inr (ps ! j)"
        using list_all2_nthD [OF ps(1)] len tks(1) es by (simp add: planned_in_def)
    qed
  qed
qed

lemma document_ingest_inv:
  assumes "document_ingest P cfg tks now doc scope opts en = Inr (res, en')" and "ms_inv (en_store en)"
    and "tk_id ` set tks \<inter> store_ids (en_store en) = {}" and "ink (dc_path doc) \<noteq> []"
  shows "ms_inv (en_store en')"
proof -
  obtain added en1 where add: "memory_add_batch P cfg tks (document_inputs doc scope opts) en = Inr (added, en1)"
    and "dr_removed res = length (stale_sections doc scope opts (en_store en))"
    and swept: "stale_sections doc scope opts (en_store en) = [] \<and> en' = en1 \<or>
     (\<exists>n. memory_apply_rows_batch (map (expired_row now) (stale_sections doc scope opts (en_store en))) en1 = Inr (n, en'))"
    by (rule document_ingestE [OF assms(1)])
  have "ms_inv (en_store en1)"
    using add_batch_confined(1) [OF add assms(2) _ assms(3)] document_inputs_keyed [OF assms(4)] by blast
  then show ?thesis using swept apply_rows_batch_store ms_inv_fold_put by metis
qed

text \<open>After an import every section of the document is believed with its new text.\<close>

lemma document_believed:
  assumes ing: "document_ingest P cfg tks now doc scope opts en = Inr (res, en')"
    and inv: "ms_inv (en_store en)" "lx_inv (en_lex en)" "unique_active (en_store en)"
    and tks: "length tks = length (document_inputs doc scope opts)" "distinct (map tk_id tks)"
      "tk_id ` set tks \<inter> store_ids (en_store en) = {}"
    and path: "ink (dc_path doc) \<noteq> []" and keys: "distinct (document_keys doc opts)"
    and off: "\<not> cg_contradiction_review cfg" and j: "j < length (document_inputs doc scope opts)"
  shows "\<exists>m e. find_active_by_subject (norm_scope scope) (document_keys doc opts ! j) (dc_project doc) (en_store en') = [m] \<and>
      str_trim (m_content m) = str_trim (i_content (document_inputs doc scope opts ! j)) \<and>
      (\<exists>p. memory_plan_with_embedding P cfg (tks ! j) (document_inputs doc scope opts ! j) e en = Inr p)"
proof -
  let ?is = "document_inputs doc scope opts" and ?ms = "stale_sections doc scope opts (en_store en)"
  let ?K = "keyed (norm_scope scope) (produced_subjects ?is)"
  let ?s = "document_keys doc opts ! j"
  obtain en1 added where add: "memory_add_batch P cfg tks ?is en = Inr (added, en1)"
    and "ms_inv (en_store en1)" and "outside ?K (en_store en1) = outside ?K (en_store en)"
    and mems': "mems (en_store en') = (\<lambda>m. mr_memory (expired_row now m)) ` set ?ms \<union>
       {m \<in> mems (en_store en1). m_id m \<notin> m_id ` set ?ms}"
    and "dr_removed res = length ?ms"
    by (rule document_ingest_mems [OF ing inv(1) tks(3) path])
  obtain ps es where len: "length ps = length ?is"
    and plan: "\<forall>j < length ?is. memory_plan_with_embedding P cfg (tks ! j) (?is ! j) (es ! j) en = Inr (ps ! j)"
    and mems1: "mems (en_store en1) = mr_memory ` set (concat (map snd ps)) \<union>
       {x \<in> mems (en_store en). m_id x \<notin> row_id ` set (concat (map snd ps))}"
    by (rule document_plans [OF add inv(1,2) tks path keys])
  obtain r rows where p: "ps ! j = (r, rows)" by (cases "ps ! j")
  have pj: "memory_plan_with_embedding P cfg (tks ! j) (?is ! j) (es ! j) en = Inr (r, rows)" using plan j p by simp
  note key = document_input_key [OF path j]
  note set = plan_settles [OF pj key(1) off inv(3)]
  have rows: "rows \<in> set (map snd ps)" using len j p by (metis in_set_conv_nth length_map nth_map snd_conv)
  have tkj: "tk_id (tks ! j) \<notin> m_id ` outside ?K (en_store en)"
  proof -
    have "tk_id (tks ! j) \<in> tk_id ` set tks" using j tks(1) by simp
    then show ?thesis using tks(3) by (auto simp: outside_def store_ids_mems)
  qed
  obtain x where x: "x \<in> set rows" "mr_memory x = ma_memory r" using set(1) by auto
  have "row_id x \<notin> m_id ` outside ?K (en_store en)"
    using planned_keyed(2) [OF pj document_inputs_keyed [OF path] inv(1) tkj x(1)] j by simp
  then have "m_id (ma_memory r) \<notin> m_id ` set ?ms"
    using x(2) by (auto simp: in_stale_sections outside_def)
  moreover have "ma_memory r \<in> mems (en_store en1)"
  proof -
    have "x \<in> set (concat (map snd ps))" using x(1) rows by auto
    then have "ma_memory r \<in> mr_memory ` set (concat (map snd ps))" using x(2) [symmetric] by (rule rev_image_eqI)
    then show ?thesis using mems1 by simp
  qed
  ultimately have here: "ma_memory r \<in> mems (en_store en')" using mems' by simp
  have only: "y = ma_memory r"
    if y: "y \<in> mems (en_store en')" "m_scope y = norm_scope scope" "m_subject y = Some ?s" "m_project y = dc_project doc" "m_state y = Active" for y
  proof -
    have "y \<in> mems (en_store en1)" using y(1,5) mems' by auto
    then consider (new) rows' where "rows' \<in> set (map snd ps)" "y \<in> mr_memory ` set rows'"
      | (old) "y \<in> mems (en_store en)" "m_id y \<notin> row_id ` set (concat (map snd ps))" using mems1 by auto
    then show ?thesis
    proof cases
      case new
      obtain k where k: "k < length ps" "rows' = snd (ps ! k)" using new(1) by (auto simp: in_set_conv_nth)
      obtain z where z: "z \<in> set rows'" "y = mr_memory z" using new(2) by blast
      have k: "k < length ?is" "z \<in> set (snd (ps ! k))" "y = mr_memory z" using k z len by simp_all
      have "memory_plan_with_embedding P cfg (tks ! k) (?is ! k) (es ! k) en = Inr (fst (ps ! k), snd (ps ! k))"
        using plan k(1) by simp
      from plan_keyed_rows(2) [OF this _ k(2)] have "document_keys doc opts ! k = ?s"
        using k(3) y(3) document_input_key(1) [OF path k(1)] by simp
      then have "k = j" using keys j k(1) key(4) by (simp add: nth_eq_iff_index_eq)
      then show ?thesis using set(2) k(2,3) p y(5) by simp
    next
      case old
      have "y \<in> set (find_active_by_subject (norm_scope scope) ?s (dc_project doc) (en_store en))"
        using old(1) y by (simp add: in_find_active)
      then have "m_id y \<in> row_id ` set rows" using set(3) key by simp
      then show ?thesis using old(2) rows by auto
    qed
  qed
  have "set (find_active_by_subject (norm_scope scope) ?s (dc_project doc) (en_store en')) = {ma_memory r}"
  proof -
    have found: "y \<in> set (find_active_by_subject (norm_scope scope) ?s (dc_project doc) (en_store en')) \<longleftrightarrow>
        y \<in> mems (en_store en') \<and> m_scope y = norm_scope scope \<and> m_subject y = Some ?s \<and> m_project y = dc_project doc \<and>
        m_state y = Active" for y
      by (simp add: in_find_active)
    have "ma_memory r \<in> set (find_active_by_subject (norm_scope scope) ?s (dc_project doc) (en_store en'))"
      using here set(1) key(2,3) by (simp add: found)
    then show ?thesis using only found by blast
  qed
  moreover have "distinct (find_active_by_subject (norm_scope scope) ?s (dc_project doc) (en_store en'))"
    using distinct_find_active [OF document_ingest_inv [OF ing inv(1) tks(3) path]] by (simp add: distinct_map)
  ultimately have "find_active_by_subject (norm_scope scope) ?s (dc_project doc) (en_store en') = [ma_memory r]"
    using distinct_singleton [of "find_active_by_subject (norm_scope scope) ?s (dc_project doc) (en_store en')" "ma_memory r"] by simp
  then show ?thesis using set(1) pj by (intro exI [of _ "ma_memory r"] exI [of _ "es ! j"]) simp
qed

text \<open>
  What a memory says and where it stands in its life: everything but the importance, the version and the
  update time, which a confirmation raises.
\<close>

definition belief :: "memory \<Rightarrow> memory" where
  "belief m = m\<lparr>m_importance := 0, m_version := 0, m_updated_at := 0\<rparr>"

lemma belief_id: "belief m = belief m' \<Longrightarrow> m_id m = m_id m'"
  by (cases m; cases m') (simp add: belief_def)

lemma belief_confirmed [simp]: "belief (m\<lparr>m_importance := i, m_version := v, m_updated_at := t\<rparr>) = belief m"
  by (simp add: belief_def)

lemma beliefs_put:
  assumes "ms_inv st" and "belief (mr_memory r) \<in> belief ` mems st"
  shows "belief ` mems (ms_put_row r st) = belief ` mems st"
proof -
  obtain m where m: "m \<in> mems st" "belief (mr_memory r) = belief m" using assms(2) by blast
  then have same: "belief x = belief (mr_memory r)" if "x \<in> mems st" "m_id x = row_id r" for x
    using ms_inv_inj [OF assms(1) that(1) m(1)] that(2) belief_id [OF m(2)] m(2) by simp
  have kept: "belief x \<in> belief ` mems (ms_put_row r st)" if "x \<in> mems st" for x
    using that same [OF that] by (cases "m_id x = row_id r") (auto simp: mems_put_row [OF assms(1)])
  have "belief x \<in> belief ` mems st" if "x \<in> mems (ms_put_row r st)" for x
    using that assms(2) by (auto simp: mems_put_row [OF assms(1)])
  then show ?thesis using kept by blast
qed

lemma beliefs_fold_put:
  "ms_inv st \<Longrightarrow> (\<And>r. r \<in> set rows \<Longrightarrow> belief (mr_memory r) \<in> belief ` mems st) \<Longrightarrow>
    belief ` mems (fold ms_put_row rows st) = belief ` mems st"
proof (induction rows arbitrary: st)
  case (Cons r rows)
  have one: "belief ` mems (ms_put_row r st) = belief ` mems st" by (rule beliefs_put [OF Cons.prems(1)]) (rule Cons.prems(2), simp)
  have "ms_inv (ms_put_row r st)" using ms_inv_fold_put [OF Cons.prems(1), of "[r]"] by simp
  from Cons.IH [OF this] one Cons.prems(2) show ?case by simp
qed simp

lemma plan_again:
  assumes "memory_plan_with_embedding P cfg tk i e en = Inr p"
    and "i_subject (canonical_input i) = Some s"
    and "find_active_by_subject (i_scope (canonical_input i)) s (i_project (canonical_input i)) (en_store en') = [m]"
    and "str_trim (m_content m) = str_trim (i_content i)"
  shows "\<exists>r row. memory_plan_with_embedding P cfg tk' i e' en' = Inr (r, [row]) \<and> ma_outcome r = Confirmed \<and>
    row_id row = m_id m \<and> belief (mr_memory row) = belief m"
proof -
  have gov: "check_governance P cfg (i_scope (canonical_input i)) (i_subject (canonical_input i))
      (i_metadata (canonical_input i)) (i_source_event_ids (canonical_input i)) = Inr ()"
  proof (cases "check_governance P cfg (i_scope (canonical_input i)) (i_subject (canonical_input i))
      (i_metadata (canonical_input i)) (i_source_event_ids (canonical_input i))")
    case (Inl err)
    then show ?thesis using assms(1) by (simp add: memory_plan_with_embedding_def Let_def)
  qed simp
  have "i_content (canonical_input i) = i_content i" by (simp add: canonical_input_def)
  then show ?thesis using assms(2-4) gov
    by (simp add: memory_plan_with_embedding_def Let_def plan_confirmed_def)
qed

lemma apply_known_rows:
  assumes "ms_inv (en_store en)" and "\<forall>r \<in> set rows. row_id r \<in> row_id ` set (st_memories (en_store en))"
  shows "\<exists>en'. memory_apply_rows_batch rows en = Inr (length rows, en')"
proof -
  have "filter (\<lambda>r. row_id r \<notin> row_id ` set (st_memories (en_store en))) rows = []"
    using assms(2) by (simp add: filter_empty_conv)
  then have "upsert_raw_batch rows (en_store en) = Inr (fold ms_put_row rows (en_store en))"
    by (simp add: upsert_raw_batch_eq [OF assms(1)])
  then show ?thesis by (simp add: memory_apply_rows_batch_def Let_def)
qed

lemma count_confirmed:
  "\<forall>a \<in> set added. ma_outcome a = Confirmed \<Longrightarrow>
    fold count_outcome added r = r\<lparr>dr_confirmed := dr_confirmed r + length added\<rparr>"
  by (induction added arbitrary: r) (auto simp: count_outcome_def)

definition confirms :: "engine \<Rightarrow> memory_add_result \<times> memory_row list \<Rightarrow> bool" where
  "confirms en p \<longleftrightarrow> ma_outcome (fst p) = Confirmed \<and> (\<forall>r \<in> set (snd p). row_id r \<in> row_id ` set (st_memories (en_store en)) \<and>
    belief (mr_memory r) \<in> belief ` mems (en_store en))"

lemma section_replanned:
  assumes ing: "document_ingest P cfg tks now doc scope opts en = Inr (res, en')"
    and inv: "ms_inv (en_store en)" "lx_inv (en_lex en)" "unique_active (en_store en)"
    and tks: "length tks = length (document_inputs doc scope opts)" "distinct (map tk_id tks)"
      "tk_id ` set tks \<inter> store_ids (en_store en) = {}"
    and path: "ink (dc_path doc) \<noteq> []" and keys: "distinct (document_keys doc opts)"
    and off: "\<not> cg_contradiction_review cfg" and j: "j < length (document_inputs doc scope opts)"
  shows "\<exists>p. planned_in P cfg en' (tk, document_inputs doc scope opts ! j, e) p \<and> confirms en' p"
proof -
  let ?is = "document_inputs doc scope opts"
  obtain m e' p where m: "find_active_by_subject (norm_scope scope) (document_keys doc opts ! j) (dc_project doc) (en_store en') = [m]"
    "str_trim (m_content m) = str_trim (i_content (?is ! j))"
    and p: "memory_plan_with_embedding P cfg (tks ! j) (?is ! j) e' en = Inr p"
    using document_believed [OF ing inv tks path keys off j] by blast
  note key = document_input_key [OF path j]
  obtain r row where plan: "memory_plan_with_embedding P cfg tk (?is ! j) e en' = Inr (r, [row])"
    and r: "ma_outcome r = Confirmed" "row_id row = m_id m" "belief (mr_memory row) = belief m"
    using plan_again [OF p key(1)] m key(2,3) by metis
  have "m \<in> mems (en_store en')" using m(1) in_find_active [of m] by (metis list.set_intros(1))
  then have "confirms en' (r, [row])" using r by (auto simp: confirms_def mems_def)
  then show ?thesis using plan by (auto simp: planned_in_def)
qed

lemma confirming_batch:
  assumes inv: "ms_inv (en_store en)" and plans: "list_all2 (planned_in P cfg en) (zip tks (zip inputs (batch_embeddings P cfg inputs))) ps"
    and good: "\<forall>p \<in> set ps. confirms en p" and len: "length ps = length inputs"
    and fresh: "\<And>b. b_subjects b = {} \<Longrightarrow> keys_fresh (zip tks (zip inputs (batch_embeddings P cfg inputs))) b"
  shows "\<exists>en'. memory_add_batch P cfg tks inputs en = Inr (map fst ps, en') \<and> store_ids (en_store en') = store_ids (en_store en) \<and>
    belief ` mems (en_store en') = belief ` mems (en_store en)"
proof -
  let ?b = "\<lparr>b_adds = [], b_pending = [], b_subjects = {}, b_engine = en\<rparr>"
  obtain b' where b': "batch_loop P cfg (zip tks (zip inputs (batch_embeddings P cfg inputs))) ?b = Inr b'" "b_engine b' = en"
    "b_adds b' = map fst ps" "b_pending b' = concat (map snd ps)"
    using batch_loop_fresh(2) [OF fresh [of ?b], of P cfg ps] plans by auto
  have old: "\<forall>r \<in> set (concat (map snd ps)). row_id r \<in> row_id ` set (st_memories (en_store en))"
    using good by (auto simp: confirms_def)
  obtain en' where applied: "memory_apply_rows_batch (concat (map snd ps)) en = Inr (length (concat (map snd ps)), en')"
    using apply_known_rows [OF inv old] by blast
  have "row_id ` set (concat (map snd ps)) \<subseteq> store_ids (en_store en)"
    unfolding store_ids_def by (rule image_subsetI) (use old in blast)
  then have ids: "store_ids (en_store en') = store_ids (en_store en)"
    unfolding apply_rows_batch_store [OF applied inv] store_ids_fold_put by (rule Un_absorb2)
  have beliefs: "belief ` mems (en_store en') = belief ` mems (en_store en)"
    unfolding apply_rows_batch_store [OF applied inv] by (rule beliefs_fold_put [OF inv]) (use good in \<open>auto simp: confirms_def\<close>)
  show ?thesis
  proof (cases "inputs = []")
    case True
    then show ?thesis using len by (simp add: memory_add_batch_def)
  next
    case False
    then show ?thesis using b' applied ids beliefs by (simp add: memory_add_batch_def)
  qed
qed

text \<open>C17: Importing a document again without a change only confirms. When the sections of the document have
  different addresses, contradiction review is off, the store had at most one active memory per scope,
  project and subject before the first import and the new identifiers are fresh, a second import of the
  same text right after the first, at any time and with any embedding answers, succeeds, inserts,
  supersedes and removes nothing and confirms every section; no memory is added, and every stored one
  keeps its scope, subject, text, state and validity: only importance, version and update time may
  move. Sections with equal addresses do occur, and then a second import supersedes.\<close>

theorem document_reimport_confirms:
  assumes ing: "document_ingest P cfg tks now doc scope opts en = Inr (res, en')"
    and inv: "ms_inv (en_store en)" "lx_inv (en_lex en)" "unique_active (en_store en)"
    and tks: "length tks = length (document_inputs doc scope opts)" "distinct (map tk_id tks)"
      "tk_id ` set tks \<inter> store_ids (en_store en) = {}"
    and path: "ink (dc_path doc) \<noteq> []" and keys: "distinct (document_keys doc opts)"
    and off: "\<not> cg_contradiction_review cfg"
    and tks': "length tks' = length (document_inputs doc scope opts)"
  shows "\<exists>en''. document_ingest P cfg tks' now' doc scope opts en' =
      Inr (\<lparr>dr_path = dc_path doc, dr_chunks = length (document_inputs doc scope opts), dr_inserted = 0, dr_superseded = 0,
        dr_confirmed = length (document_inputs doc scope opts), dr_removed = 0\<rparr>, en'') \<and>
      store_ids (en_store en'') = store_ids (en_store en') \<and> belief ` mems (en_store en'') = belief ` mems (en_store en')"
proof -
  let ?is = "document_inputs doc scope opts" and ?es = "batch_embeddings P cfg (document_inputs doc scope opts)"
  have "\<exists>p. planned_in P cfg en' (tks' ! j, ?is ! j, ?es ! j) p \<and> confirms en' p" if "j < length ?is" for j
    using section_replanned [OF ing inv tks path keys off that] .
  then obtain f where f: "\<And>j. j < length ?is \<Longrightarrow> planned_in P cfg en' (tks' ! j, ?is ! j, ?es ! j) (f j) \<and> confirms en' (f j)"
    by metis
  define ps where "ps = map f [0..<length ?is]"
  have plans: "list_all2 (planned_in P cfg en') (zip tks' (zip ?is ?es)) ps"
    using f tks' by (simp add: ps_def list_all2_conv_all_nth length_batch_embeddings)
  have good: "\<forall>p \<in> set ps. confirms en' p" and len: "length ps = length ?is" using f by (auto simp: ps_def)
  obtain en'' where add: "memory_add_batch P cfg tks' ?is en' = Inr (map fst ps, en'')"
    "store_ids (en_store en'') = store_ids (en_store en')" "belief ` mems (en_store en'') = belief ` mems (en_store en')"
    using confirming_batch [OF document_ingest_inv [OF ing inv(1) tks(3) path] plans good len]
      document_keys_fresh [OF path keys] by blast
  have "m \<notin> set (stale_sections doc scope opts (en_store en'))" for m
    using nothing_stale_left [OF ing inv(1) tks(3) path, of m] by (auto simp only: in_stale_sections)
  then have "stale_sections doc scope opts (en_store en') = []"
    by (cases "stale_sections doc scope opts (en_store en')") auto
  moreover have "\<forall>a \<in> set (map fst ps). ma_outcome a = Confirmed" using good by (auto simp: confirms_def)
  ultimately show ?thesis using add len by (simp add: document_ingest_def Let_def count_confirmed)
qed

theorem document_reimport_confirms_witness:
  "\<exists>res en' en''. demo_import1 demo_engine1 = Inr (res, en') \<and> dr_inserted res = 2 \<and>
     document_ingest demo_ports demo_cfg [demo_tick 13, demo_tick 14] 50 demo_doc1 (tenant_scope ''acme'') chunk_options_default en' =
       Inr (\<lparr>dr_path = ''Docs/Run.md'', dr_chunks = 2, dr_inserted = 0, dr_superseded = 0, dr_confirmed = 2, dr_removed = 0\<rparr>, en'') \<and>
     store_ids (en_store en'') = store_ids (en_store en') \<and> belief ` mems (en_store en'') = belief ` mems (en_store en')"
proof -
  have "case demo_import1 demo_engine1 of Inl _ \<Rightarrow> False | Inr (res, _) \<Rightarrow> dr_inserted res = 2" by code_simp
  then obtain res en' where ing: "demo_import1 demo_engine1 = Inr (res, en')" "dr_inserted res = 2"
    by (cases "demo_import1 demo_engine1") auto
  have ok: "ms_inv (en_store demo_engine1)" "lx_inv (en_lex demo_engine1)" "unique_active (en_store demo_engine1)"
    "distinct (map tk_id [demo_tick 11, demo_tick 12])"
    "tk_id ` set [demo_tick 11, demo_tick 12] \<inter> store_ids (en_store demo_engine1) = {}"
    "ink (dc_path demo_doc1) \<noteq> []" "distinct (document_keys demo_doc1 chunk_options_default)" "\<not> cg_contradiction_review demo_cfg"
    by code_simp+
  have len: "length (document_inputs demo_doc1 (tenant_scope ''acme'') chunk_options_default) = 2" by code_simp
  have path: "dc_path demo_doc1 = ''Docs/Run.md''" by (simp add: demo_doc1_def demo_doc_def)
  from document_reimport_confirms [OF ing(1) ok(1,2,3) _ ok(4-8), of "[demo_tick 13, demo_tick 14]" 50]
  show ?thesis using ing len path by auto
qed

subsection \<open>Pruning\<close>

text \<open>Pruning is a step of the engine's state machine.\<close>

lemma document_prune_step:
  assumes "ms_inv (en_store en)" and "document_prune now scope project keep en = Inr (n, en')" and "en' \<noteq> en"
  shows "engine_step en en'"
proof -
  let ?gone = "\<lambda>m. case m_subject m of Some s \<Rightarrow> document_of s \<notin> normalize_subject ` set keep | None \<Rightarrow> False"
  let ?ms = "filter ?gone (list_project_chunks scope project (en_store en))"
  have "distinct (map m_id ?ms)"
    unfolding list_project_chunks_def ms_select_def by (intro distinct_map_filter) (use distinct_mems [OF assms(1)] in simp)
  then have "distinct (map row_id (map (expired_row now) ?ms))" by (simp add: comp_def)
  moreover obtain k where "memory_apply_rows_batch (map (expired_row now) ?ms) en = Inr (k, en')"
    using assms(2,3) by (auto simp: document_prune_def Let_def res_bind_Inr_iff split: if_splits)
  ultimately show ?thesis by (rule step_rows_batch)
qed

text \<open>Pruning a project always succeeds, leaves active exactly the chunks whose document was kept and
  expires the rest; nothing else changes.\<close>

lemma document_prune_exact:
  assumes inv: "ms_inv (en_store en)"
  shows "\<exists>n en'. document_prune now scope project keep en = Inr (n, en') \<and>
    set (list_project_chunks scope project (en_store en')) =
      {m \<in> set (list_project_chunks scope project (en_store en)).
         case m_subject m of Some s \<Rightarrow> document_of s \<in> normalize_subject ` set keep | None \<Rightarrow> True} \<and>
    outside (\<lambda>m. m_project m = Some project \<and> m_mem_type m = ''chunk'') (en_store en') =
      outside (\<lambda>m. m_project m = Some project \<and> m_mem_type m = ''chunk'') (en_store en)"
proof -
  let ?gone = "\<lambda>m. case m_subject m of Some s \<Rightarrow> document_of s \<notin> normalize_subject ` set keep | None \<Rightarrow> False"
  let ?ms = "filter ?gone (list_project_chunks scope project (en_store en))"
  have chunks: "m \<in> set (list_project_chunks scope project st) \<longleftrightarrow> m \<in> mems st \<and> m_scope m = norm_scope scope \<and>
      m_project m = Some project \<and> m_mem_type m = ''chunk'' \<and> m_state m = Active" for m st
    by (auto simp: list_project_chunks_def scope_where_iff)
  have dist: "distinct (map m_id ?ms)"
    unfolding list_project_chunks_def ms_select_def
    by (intro distinct_map_filter) (use distinct_mems [OF inv] in simp)
  have "\<forall>r \<in> set (map (expired_row now) ?ms). row_id r \<in> row_id ` set (st_memories (en_store en))"
    by (auto simp: chunks mems_def)
  from apply_known_rows [OF inv this]
  obtain en1 where ap: "memory_apply_rows_batch (map (expired_row now) ?ms) en = Inr (length ?ms, en1)" by auto
  have run: "document_prune now scope project keep en = Inr (length ?ms, en1)"
    using ap by (cases "?ms = []") (simp_all add: document_prune_def Let_def memory_apply_rows_batch_def)
  note mems1 = mems_expired [OF ap inv dist]
  have sub: "set ?ms \<subseteq> mems (en_store en)" by (auto simp: chunks)
  have ids: "m_id m \<in> m_id ` set ?ms \<longleftrightarrow> m \<in> set ?ms" if m: "m \<in> mems (en_store en)" for m
  proof
    assume "m_id m \<in> m_id ` set ?ms"
    then obtain x where x: "x \<in> set ?ms" "m_id m = m_id x" by (rule imageE) simp
    then have "m = x" using ms_inv_inj [OF inv m] sub by blast
    then show "m \<in> set ?ms" using x(1) by simp
  qed simp
  define E where "E = (\<lambda>m. mr_memory (expired_row now m)) ` set ?ms"
  have new: "m_state m = Expired \<and> m_project m = Some project \<and> m_mem_type m = ''chunk''" if "m \<in> E" for m
    using that unfolding E_def by (rule imageE) (simp add: chunks expired_row_def)
  have mems2: "m \<in> mems (en_store en1) \<longleftrightarrow> m \<in> E \<or> m \<in> mems (en_store en) \<and> m \<notin> set ?ms" for m
    using ids [of m] unfolding mems1 E_def by blast
  have "m \<in> set (list_project_chunks scope project (en_store en1)) \<longleftrightarrow>
      m \<in> set (list_project_chunks scope project (en_store en)) \<and> \<not> ?gone m" for m
    using new [of m] unfolding chunks mems2 by (auto simp: chunks)
  moreover have "m \<in> mems (en_store en1) \<longleftrightarrow> m \<in> mems (en_store en)"
    if "\<not> (m_project m = Some project \<and> m_mem_type m = ''chunk'')" for m
    using new [of m] that unfolding mems2 by (auto simp: chunks)
  ultimately show ?thesis using run by (auto simp: outside_def split: option.splits)
qed

end
