(* ===== verification/Memory_Maintenance.thy ===== *)
theory Memory_Maintenance
  imports Memory_Search Document_Import Knowledge_Graph
begin

text \<open>
  Housekeeping and reading operations of \<open>src/crates/ecphoria-core/src/engine/mod.rs\<close>: remembering raw
  text, re-embedding, folding memories into summaries (by importance and by similarity), grants, paged
  and published listings, provenance, and graphs from text.

  A completion provider answers a request for extraction, a summary or triples; \<open>None\<close> is a failed call.
  A loop that stops at an error returns the engine as it is then.
\<close>

datatype llm_task = Extract_Facts | Summarize | Extract_Triples

record llm_ports =
  lp_extraction :: string
  lp_provider :: "(llm_task \<Rightarrow> string \<Rightarrow> string option) option"
  lp_parse_array :: "string \<Rightarrow> json list option"

definition ask_llm :: "llm_ports \<Rightarrow> llm_task \<Rightarrow> string \<Rightarrow> string option" where
  "ask_llm L task text =
    (if lp_extraction L = ''llm'' then Option.bind (lp_provider L) (\<lambda>complete. complete task text) else None)"

subsection \<open>Remembering raw text\<close>

definition fact_of_item :: "json \<Rightarrow> (string option \<times> string) option" where
  "fact_of_item item =
    (case Option.bind (json_get item ''content'') json_as_str of
       None \<Rightarrow> None
     | Some c \<Rightarrow>
         (if str_trim c = [] then None
          else Some (case Option.bind (json_get item ''subject'') json_as_str of
                       Some s \<Rightarrow> if s = [] then None else Some s | None \<Rightarrow> None, str_trim c)))"

text \<open>The outermost bracketed part of the answer is parsed as a JSON array.\<close>

definition parse_extracted_facts :: "llm_ports \<Rightarrow> string \<Rightarrow> (string option \<times> string) list option" where
  "parse_extracted_facts L text =
    (if CHR ''['' \<in> set text \<and> CHR '']'' \<in> set text
     then let from_first = dropWhile (\<lambda>c. c \<noteq> CHR ''['') text;
              start = length text - length from_first;
              fin = length text - 1 - length (takeWhile (\<lambda>c. c \<noteq> CHR '']'') (rev text))
          in if fin \<le> start then None
             else map_option (List.map_filter fact_of_item) (lp_parse_array L (take (fin + 1 - start) from_first))
     else None)"

definition extract_facts :: "llm_ports \<Rightarrow> string \<Rightarrow> (string option \<times> string) list" where
  "extract_facts L raw_text =
    (case Option.bind (ask_llm L Extract_Facts raw_text) (parse_extracted_facts L) of
       Some facts \<Rightarrow> if facts \<noteq> [] then facts else [(None, raw_text)]
     | None \<Rightarrow> [(None, raw_text)])"

definition fact_input :: "memory_scope \<Rightarrow> string option \<times> string \<Rightarrow> memory_input" where
  "fact_input scope f = (memory_input_new scope (snd f))\<lparr>i_subject := fst f\<rparr>"

fun remember_each ::
  "ports \<Rightarrow> cognition_config \<Rightarrow> (nat \<Rightarrow> tick) \<Rightarrow> memory_input list \<Rightarrow> memory_add_result list \<Rightarrow> engine \<Rightarrow>
   (error + memory_add_result list) \<times> engine" where
  "remember_each P cfg tk [] out en = (Inr out, en)"
| "remember_each P cfg tk (i # is) out en =
    (case memory_add P cfg (tk (length out)) i en of
       Inl e \<Rightarrow> (Inl e, en)
     | Inr (added, en') \<Rightarrow> remember_each P cfg tk is (out @ [added]) en')"

definition memory_remember ::
  "llm_ports \<Rightarrow> ports \<Rightarrow> cognition_config \<Rightarrow> (nat \<Rightarrow> tick) \<Rightarrow> string \<Rightarrow> memory_scope \<Rightarrow> engine \<Rightarrow>
   (error + memory_add_result list) \<times> engine" where
  "memory_remember L P cfg tk raw_text scope en =
    remember_each P cfg tk (map (fact_input scope) (extract_facts L raw_text)) [] en"

fun plan_each ::
  "ports \<Rightarrow> cognition_config \<Rightarrow> (nat \<Rightarrow> tick) \<Rightarrow> memory_input list \<Rightarrow> (memory_add_result \<times> memory_row list) list \<Rightarrow> engine \<Rightarrow>
   error + (memory_add_result \<times> memory_row list) list" where
  "plan_each P cfg tk [] out en = Inr out"
| "plan_each P cfg tk (i # is) out en =
    res_bind (memory_plan P cfg (tk (length out)) i en) (\<lambda>p. plan_each P cfg tk is (out @ [p]) en)"

definition memory_remember_plan ::
  "llm_ports \<Rightarrow> ports \<Rightarrow> cognition_config \<Rightarrow> (nat \<Rightarrow> tick) \<Rightarrow> string \<Rightarrow> memory_scope \<Rightarrow> engine \<Rightarrow>
   error + (memory_add_result \<times> memory_row list) list" where
  "memory_remember_plan L P cfg tk raw_text scope en =
    plan_each P cfg tk (map (fact_input scope) (extract_facts L raw_text)) [] en"

subsection \<open>Re-embedding\<close>

text \<open>\<open>embeds\<close> says whether an embedding provider is configured; a failed embedding skips its memory.\<close>

definition memory_reembed_plan :: "bool \<Rightarrow> ports \<Rightarrow> nat \<Rightarrow> engine \<Rightarrow> memory_row list" where
  "memory_reembed_plan embeds P limit en =
    (if \<not> embeds then []
     else List.map_filter (\<lambda>m. map_option (\<lambda>v. \<lparr>mr_memory = m, mr_embedding = Some v\<rparr>) (pt_embed P (m_content m)))
            (all_active limit (en_store en)))"

definition memory_reembed :: "bool \<Rightarrow> ports \<Rightarrow> cognition_config \<Rightarrow> nat \<Rightarrow> engine \<Rightarrow> nat \<times> engine" where
  "memory_reembed embeds P cfg limit en =
    (let rows = memory_reembed_plan embeds P limit en; n = length rows
     in (n, if n > 0 then snd (memory_apply_rows P cfg rows en) else en))"

subsection \<open>Folding memories into summaries\<close>

definition bullet_list :: "memory list \<Rightarrow> string" where
  "bullet_list ms = str_join [CHR 0x0A] (map (\<lambda>m. ''- '' @ m_content m) ms)"

definition summarize_memories :: "llm_ports \<Rightarrow> memory list \<Rightarrow> string" where
  "summarize_memories L ms =
    (let fallback = ''Consolidated '' @ show_nat (length ms) @ '' memories:'' @ [CHR 0x0A] @ bullet_list ms
     in case ask_llm L Summarize (bullet_list ms) of
          Some text \<Rightarrow> if str_trim text \<noteq> [] then str_trim text else fallback
        | None \<Rightarrow> fallback)"

definition consolidation_metadata :: "ports \<Rightarrow> (string \<times> json) list \<Rightarrow> memory list \<Rightarrow> json" where
  "consolidation_metadata P tags ms =
    JObj ([(''consolidated'', JBool True)] @ tags @
      [(''source_memory_ids'', JArr (map (\<lambda>m. JStr (pt_uuid_str P (m_id m))) ms)),
       (''provenance'', JObj [(''source'', JStr ''ecphoria:consolidation'')])])"

definition memory_consolidate_plan ::
  "llm_ports \<Rightarrow> ports \<Rightarrow> cognition_config \<Rightarrow> memory_scope \<Rightarrow> nat \<Rightarrow> engine \<Rightarrow> (memory_input \<times> uuid list) option" where
  "memory_consolidate_plan L P cfg scope keep en =
    (let actives = list_active scope (cg_max_rows cfg) (en_store en); to_fold = drop keep actives
     in if length actives \<le> keep \<or> to_fold = [] then None
        else Some ((memory_input_new scope (summarize_memories L to_fold))
               \<lparr>i_importance := Some (3/5), i_metadata := consolidation_metadata P [] to_fold\<rparr>,
             map m_id to_fold))"

definition memory_consolidate ::
  "llm_ports \<Rightarrow> ports \<Rightarrow> cognition_config \<Rightarrow> tick \<Rightarrow> (nat \<Rightarrow> ts) \<Rightarrow> memory_scope \<Rightarrow> nat \<Rightarrow> engine \<Rightarrow>
   (error + memory_add_result option) \<times> engine" where
  "memory_consolidate L P cfg tk clock scope keep en =
    (case memory_consolidate_plan L P cfg scope keep en of
       None \<Rightarrow> (Inr None, en)
     | Some (input, expired) \<Rightarrow>
         (case memory_add P cfg tk input en of
            Inl e \<Rightarrow> (Inl e, en)
          | Inr (added, en1) \<Rightarrow> (Inr (Some added), expire_ids clock expired en1)))"

text \<open>Memories with their vectors; one cluster is what the index finds near a memory that is not grouped yet.\<close>

definition with_vectors :: "cognition_config \<Rightarrow> memory_scope \<Rightarrow> engine \<Rightarrow> (memory \<times> embedding) list" where
  "with_vectors cfg scope en =
    List.map_filter (\<lambda>m. map_option (Pair m) (get_embedding (m_id m) (en_store en)))
      (list_active scope (cg_max_rows cfg) (en_store en))"

definition add_new :: "'a \<Rightarrow> 'a list \<Rightarrow> 'a list" where
  "add_new x xs = (if x \<in> set xs then xs else xs @ [x])"

definition cluster_input :: "llm_ports \<Rightarrow> ports \<Rightarrow> memory_scope \<Rightarrow> memory list \<Rightarrow> memory_input" where
  "cluster_input L P scope cluster =
    (memory_input_new scope (summarize_memories L cluster))
      \<lparr>i_importance := Some (fold (\<lambda>m acc. max acc (m_importance m)) cluster 0),
       i_source_event_ids := fold (\<lambda>m acc. fold add_new (m_source_event_ids m) acc) cluster [],
       i_metadata := consolidation_metadata P [(''consolidation'', JStr ''semantic'')] cluster\<rparr>"

fun similar_loop ::
  "llm_ports \<Rightarrow> ports \<Rightarrow> memory_scope \<Rightarrow> float32 \<Rightarrow> nat \<Rightarrow> engine \<Rightarrow> (memory \<times> embedding) list \<Rightarrow> uuid set \<Rightarrow>
   (memory_input \<times> uuid list) list \<Rightarrow> error + (memory_input \<times> uuid list) list" where
  "similar_loop L P scope threshold k en [] grouped plans = Inr plans"
| "similar_loop L P scope threshold k en ((m, v) # rest) grouped plans =
    (if m_id m \<in> grouped then similar_loop L P scope threshold k en rest grouped plans
     else res_bind (memory_index_search P v scope k en) (\<lambda>hits.
       let cluster = map h_memory (filter (\<lambda>h. h_score h \<ge> threshold \<and> m_id (h_memory h) \<notin> grouped) hits)
       in if length cluster < 2 then similar_loop L P scope threshold k en rest (insert (m_id m) grouped) plans
          else similar_loop L P scope threshold k en rest (grouped \<union> m_id ` set cluster)
                 (plans @ [(cluster_input L P scope cluster, map m_id cluster)])))"

definition memory_consolidate_similar_plan ::
  "llm_ports \<Rightarrow> ports \<Rightarrow> search_config \<Rightarrow> memory_scope \<Rightarrow> float32 \<Rightarrow> engine \<Rightarrow> error + (memory_input \<times> uuid list) list" where
  "memory_consolidate_similar_plan L P cfg scope threshold en =
    similar_loop L P scope threshold (max (cg_retrieval_scan_cap cfg) 8) en
      (with_vectors (cognition_config.truncate cfg) scope en) {} []"

fun fold_plans ::
  "ports \<Rightarrow> cognition_config \<Rightarrow> (nat \<Rightarrow> tick) \<Rightarrow> (nat \<Rightarrow> nat \<Rightarrow> ts) \<Rightarrow> nat \<Rightarrow> (memory_input \<times> uuid list) list \<Rightarrow> engine \<Rightarrow>
   error option \<times> engine" where
  "fold_plans P cfg tk clock n [] en = (None, en)"
| "fold_plans P cfg tk clock n ((input, expired) # plans) en =
    (case memory_add P cfg (tk n) input en of
       Inl e \<Rightarrow> (Some e, en)
     | Inr (_, en1) \<Rightarrow> fold_plans P cfg tk clock (n + 1) plans (expire_ids (clock n) expired en1))"

definition memory_consolidate_similar ::
  "llm_ports \<Rightarrow> ports \<Rightarrow> search_config \<Rightarrow> (nat \<Rightarrow> tick) \<Rightarrow> (nat \<Rightarrow> nat \<Rightarrow> ts) \<Rightarrow> memory_scope \<Rightarrow> float32 \<Rightarrow> engine \<Rightarrow>
   (error + nat) \<times> engine" where
  "memory_consolidate_similar L P cfg tk clock scope threshold en =
    (case memory_consolidate_similar_plan L P cfg scope threshold en of
       Inl e \<Rightarrow> (Inl e, en)
     | Inr plans \<Rightarrow>
         (case fold_plans P (cognition_config.truncate cfg) tk clock 0 plans en of
            (Some e, en') \<Rightarrow> (Inl e, en') | (None, en') \<Rightarrow> (Inr (length plans), en')))"

subsection \<open>Grants, listings, provenance\<close>

definition grant_share :: "uuid \<Rightarrow> ts \<Rightarrow> string \<Rightarrow> string \<Rightarrow> string \<Rightarrow> engine \<Rightarrow> uuid \<times> engine" where
  "grant_share fresh now tenant grantee grantor en =
    (case add_grant fresh now tenant grantee grantor (en_store en) of (uid, st) \<Rightarrow> (uid, en\<lparr>en_store := st\<rparr>))"

definition engine_revoke_grant :: "string \<Rightarrow> uuid \<Rightarrow> engine \<Rightarrow> bool \<times> engine" where
  "engine_revoke_grant tenant uid en =
    (case revoke_grant tenant uid (en_store en) of (b, st) \<Rightarrow> (b, en\<lparr>en_store := st\<rparr>))"

definition memory_list ::
  "(json \<Rightarrow> string \<Rightarrow> string option) \<Rightarrow> cognition_config \<Rightarrow> memory_scope \<Rightarrow> nat \<Rightarrow> nat \<Rightarrow> memory_filter \<Rightarrow> engine \<Rightarrow> memory list" where
  "memory_list json_extract_string cfg scope limit offset flt en =
    list_paged json_extract_string scope (min limit (cg_max_rows cfg)) offset flt (en_store en)"

definition memory_published :: "(json \<Rightarrow> string \<Rightarrow> string option) \<Rightarrow> cognition_config \<Rightarrow> string \<Rightarrow> nat \<Rightarrow> engine \<Rightarrow> memory list" where
  "memory_published json_extract_string cfg tenant limit en =
    list_published json_extract_string tenant (min limit (cg_max_rows cfg)) (en_store en)"

record memory_provenance =
  pv_memory :: memory
  pv_source_events :: "event list"
  pv_history :: "memory list"

definition memory_provenance_of :: "uuid \<Rightarrow> string option \<Rightarrow> node \<Rightarrow> memory_provenance option" where
  "memory_provenance_of uid tenant nd =
    map_option (\<lambda>m. \<lparr>pv_memory = m, pv_source_events = events_by_ids (m_source_event_ids m) tenant (nd_episodic nd),
        pv_history = (case m_subject m of
          Some subject \<Rightarrow> history (m_scope m) subject (en_store (nd_memory nd)) | None \<Rightarrow> [m])\<rparr>)
      (get_for uid tenant (nd_memory nd))"

subsection \<open>Graphs from text\<close>

definition triple_of_line :: "string \<Rightarrow> (string \<times> string \<times> string) option" where
  "triple_of_line line =
    (case map str_trim (split_on (\<lambda>c. c = CHR ''|'') line) of
       [a, r, b] \<Rightarrow> if a \<noteq> [] \<and> b \<noteq> []
         then Some (a, map (\<lambda>c. if c = CHR '' '' then CHR ''_'' else c) (to_lowercase r), b) else None
     | _ \<Rightarrow> None)"

definition parse_triple_lines :: "string \<Rightarrow> (string \<times> string \<times> string) list" where
  "parse_triple_lines text = List.map_filter triple_of_line (str_lines text)"

definition extract_triples_any :: "llm_ports \<Rightarrow> string \<Rightarrow> (string \<times> string \<times> string) list" where
  "extract_triples_any L text =
    (case ask_llm L Extract_Triples text of
       Some out \<Rightarrow> if parse_triple_lines out \<noteq> [] then parse_triple_lines out else extract_triples text
     | None \<Rightarrow> extract_triples text)"

fun link_each :: "(nat \<Rightarrow> uuid) \<Rightarrow> (nat \<Rightarrow> ts) \<Rightarrow> string \<Rightarrow> uuid option \<Rightarrow> nat \<Rightarrow> (string \<times> string \<times> string) list \<Rightarrow> engine \<Rightarrow> engine" where
  "link_each fresh clock tenant source n [] en = en"
| "link_each fresh clock tenant source n ((s, r, d) # ts) en =
    link_each fresh clock tenant source (n + 1) ts (memory_link (fresh n) (clock n) tenant s r d source en)"

definition memory_graph_from_text ::
  "llm_ports \<Rightarrow> (nat \<Rightarrow> uuid) \<Rightarrow> (nat \<Rightarrow> ts) \<Rightarrow> string \<Rightarrow> string \<Rightarrow> uuid option \<Rightarrow> engine \<Rightarrow> nat \<times> engine" where
  "memory_graph_from_text L fresh clock tenant text source en =
    (let triples = extract_triples_any L text
     in (length triples, link_each fresh clock tenant source 0 triples en))"

subsection \<open>Re-embedding does not move forward\<close>

lemma put_same_memory:
  assumes "tbl_inv row_id rows" and "mr_memory r \<in> mr_memory ` set rows"
  shows "map mr_memory (tbl_put row_id r rows) = map mr_memory rows"
proof -
  obtain x where x: "x \<in> set rows" "mr_memory x = mr_memory r" using assms(2) by auto
  then have "tbl_put row_id r rows = map (\<lambda>y. if row_id y = row_id r then r else y) rows"
    by (intro tbl_put_existing [OF assms(1)]) (metis imageI)
  moreover have "mr_memory y = mr_memory r" if "y \<in> set rows" "row_id y = row_id r" for y
  proof -
    have "row_id y = row_id x" using that(2) x(2) by simp
    then have "y = x" using assms(1) that(1) x(1) by (auto simp: tbl_inv_def distinct_map dest: inj_onD)
    then show ?thesis using x(2) by simp
  qed
  ultimately show ?thesis by (simp add: eq_commute [of "mr_memory r"])
qed

lemma fold_put_same_memories:
  assumes "tbl_inv row_id rows" and "mr_memory ` set rs \<subseteq> mr_memory ` set rows"
  shows "map mr_memory (fold (tbl_put row_id) rs rows) = map mr_memory rows"
  using assms
proof (induction rs arbitrary: rows)
  case (Cons r rs)
  have same: "map mr_memory (tbl_put row_id r rows) = map mr_memory rows" using put_same_memory Cons.prems by simp
  then have "mr_memory ` set (tbl_put row_id r rows) = mr_memory ` set rows" by (metis set_map)
  then show ?case using Cons.IH [of "tbl_put row_id r rows"] Cons.prems same by simp
qed simp

lemma reembed_rows_stored: "mr_memory ` set (memory_reembed_plan embeds P limit en) \<subseteq> mems (en_store en)"
  by (auto simp: memory_reembed_plan_def all_active_def dest!: in_set_takeD)

text \<open>Calling the operation again re-embeds the same memories: it leaves their update times as they are, and they
  are taken oldest first.\<close>

lemma memory_reembed_repeats:
  assumes "ms_inv (en_store en)"
  shows "memory_reembed_plan embeds P limit (snd (memory_reembed embeds P cfg limit en)) = memory_reembed_plan embeds P limit en"
proof -
  let ?rows = "memory_reembed_plan embeds P limit en"
  have "map mr_memory (st_memories (en_store (fold (apply_row P cfg) ?rows en))) = map mr_memory (st_memories (en_store en))"
    unfolding fold_apply_memories
    by (rule fold_put_same_memories [OF ms_inv_rows [OF assms]]) (use reembed_rows_stored in \<open>simp add: mems_def\<close>)
  then have "all_active limit (en_store (snd (memory_reembed embeds P cfg limit en))) = all_active limit (en_store en)"
    by (simp add: memory_reembed_def Let_def memory_apply_rows_def all_active_def ms_select_def)
  then show ?thesis by (simp only: memory_reembed_plan_def)
qed

end
