(* ===== verification/Gateway_Auth.thy ===== *)
theory Gateway_Auth
  imports Ecphoria_Prelude
begin

text \<open>
  Authentication and authorization of HTTP requests, \<open>src/crates/ecphoria-gateway/src/auth/\<close>: roles,
  API keys, the chain OIDC, shared-secret token, API key (\<open>AuthState::authenticate\<close>), the token-bucket
  rate limiter, the audit log and the middleware \<open>require_auth\<close>.

  Signatures and hashes are parameters (\<open>auth_ports\<close>): SHA-256, the decoders of signed tokens, the
  construction of RSA keys and the download of the provider's keys. The handler behind the middleware is
  a parameter too; its state passes through unchanged when a request is denied. An \<open>Instant\<close> is an
  integer number of nanoseconds and token counts are exact rationals.
\<close>

unbundle bit_operations_syntax

subsection \<open>Requests and responses\<close>

datatype http_method = GET | HEAD | OPTIONS | POST | PUT | PATCH | DELETE | OtherMethod string

datatype role = Admin | Writer | Reader | Agent

record auth_context =
  ac_identity :: string
  ac_role :: role
  ac_agent_id :: "string option"
  ac_tenant_id :: "string option"

text \<open>A request: the path the router shows, the path the client sent when the router is nested, the query,
  the headers by lower-case name, the body (\<open>None\<close> when it cannot be read or exceeds the limit), and the
  extensions the layers add.\<close>

record request =
  rq_method :: http_method
  rq_path :: string
  rq_original_path :: "string option"
  rq_query :: "string option"
  rq_headers :: "(string \<times> string) list"
  rq_body :: "string option"
  rq_auth :: "auth_context option"
  rq_tenant_header :: "string option"
  rq_rate_limit :: "nat option"

record 'b response =
  rs_status :: nat
  rs_headers :: "(string \<times> string) list"
  rs_body :: "'b option"
  rs_rate_limit :: "nat option"

definition status_response :: "nat \<Rightarrow> 'b response" where
  "status_response status = \<lparr>rs_status = status, rs_headers = [], rs_body = None, rs_rate_limit = None\<rparr>"

text \<open>\<open>HeaderValue::to_str\<close>: only visible ASCII and tabs.\<close>

definition header_str :: "string \<Rightarrow> string option" where
  "header_str v = (if \<forall>c \<in> set v. of_char c = (9::nat) \<or> 32 \<le> (of_char c :: nat) \<and> of_char c < (127::nat) then Some v else None)"

definition header_get :: "request \<Rightarrow> string \<Rightarrow> string option" where
  "header_get req name = map_of (rq_headers req) name"

fun method_str :: "http_method \<Rightarrow> string" where
  "method_str GET = ''GET''" | "method_str HEAD = ''HEAD''" | "method_str OPTIONS = ''OPTIONS''"
| "method_str POST = ''POST''" | "method_str PUT = ''PUT''" | "method_str PATCH = ''PATCH''"
| "method_str DELETE = ''DELETE''" | "method_str (OtherMethod m) = m"

subsection \<open>Roles\<close>

definition role_from_str_loose :: "string \<Rightarrow> role option" where
  "role_from_str_loose s =
    (let l = to_lowercase s
     in if l = ''admin'' then Some Admin else if l = ''writer'' then Some Writer
        else if l = ''reader'' then Some Reader else if l = ''agent'' then Some Agent else None)"

fun allows_method :: "role \<Rightarrow> http_method \<Rightarrow> bool" where
  "allows_method Admin m = True"
| "allows_method Writer m = (m \<in> {GET, HEAD, OPTIONS, POST, PUT})"
| "allows_method Reader m = (m \<in> {GET, HEAD, OPTIONS})"
| "allows_method Agent m = (m \<in> {GET, HEAD, OPTIONS, POST, PUT})"

definition allows_admin_path :: "role \<Rightarrow> bool" where
  "allows_admin_path r \<longleftrightarrow> r = Admin"

subsection \<open>API keys\<close>

type_synonym key_digest = "8 word list"

record api_key_info =
  ki_tenant :: "string option"
  ki_role :: role

definition is_hexdigit :: "char \<Rightarrow> bool" where
  "is_hexdigit c \<longleftrightarrow> is_digit_ascii c \<or> 97 \<le> (of_char c :: nat) \<and> (of_char c :: nat) \<le> 102 \<or>
    65 \<le> (of_char c :: nat) \<and> (of_char c :: nat) \<le> 70"

definition hex_value :: "char \<Rightarrow> nat" where
  "hex_value c = (if is_digit_ascii c then of_char c - 48 else if (of_char c :: nat) \<ge> 97 then of_char c - 87 else of_char c - 55)"

fun hex_bytes :: "string \<Rightarrow> 8 word list" where
  "hex_bytes (a # b # s) = of_nat (hex_value a * 16 + hex_value b) # hex_bytes s"
| "hex_bytes _ = []"

definition hex_to_digest :: "string \<Rightarrow> key_digest option" where
  "hex_to_digest s = (if length s \<noteq> 64 \<or> \<not> list_all is_hexdigit s then None else Some (hex_bytes s))"

definition parse_api_key :: "(string \<Rightarrow> key_digest) \<Rightarrow> string \<Rightarrow> (key_digest \<times> api_key_info) option" where
  "parse_api_key sha256 entry =
    (let (secret, info) = (case split_once_at (CHR ''@'') entry of
           None \<Rightarrow> (entry, \<lparr>ki_tenant = None, ki_role = Writer\<rparr>)
         | Some (key, rest) \<Rightarrow>
             (let (tenant, role) = (case split_once_at (CHR '':'') rest of
                    Some (t, r) \<Rightarrow> (t, case role_from_str_loose r of Some x \<Rightarrow> x | None \<Rightarrow> Writer)
                  | None \<Rightarrow> (rest, Writer))
              in (key, \<lparr>ki_tenant = (if tenant \<noteq> [] then Some tenant else None), ki_role = role\<rparr>)))
     in case strip_prefix_of ''sha256:'' secret of
          Some hex \<Rightarrow> map_option (\<lambda>d. (d, info)) (hex_to_digest hex)
        | None \<Rightarrow> Some (sha256 secret, info))"

definition ct_eq :: "8 word list \<Rightarrow> 8 word list \<Rightarrow> bool" where
  "ct_eq a b = (if length a \<noteq> length b then False
    else fold (\<lambda>(x, y) diff. diff OR (x XOR y)) (zip a b) 0 = 0)"

subsection \<open>Tokens\<close>

datatype gateway_error = PgWire string | Rest string | Grpc string | Mcp string | LlmProxy string
  | Auth string | Bind string | CoreError error | InternalError string

record claims =
  cl_sub :: string
  cl_role :: string
  cl_exp :: nat
  cl_agent_id :: "string option"
  cl_tenant_id :: "string option"

record oidc_config =
  oc_enabled :: bool
  oc_issuer_url :: string
  oc_jwks_uri :: string
  oc_audience :: string
  oc_role_claim :: string
  oc_jwks_cache_ttl_secs :: nat

text \<open>\<open>'k\<close> is the decoding key of the token library.\<close>

record 'k oidc_validator =
  ov_config :: oidc_config
  ov_key_cache :: "(string \<times> 'k \<times> int) list"

record jwk_key =
  jk_kid :: "string option"
  jk_n :: "string option"
  jk_e :: "string option"

record 'k auth_ports =
  ap_sha256 :: "string \<Rightarrow> key_digest"
  ap_jwt_decode :: "string \<Rightarrow> string \<Rightarrow> string + claims"
  ap_decode_header :: "string \<Rightarrow> string + string option"
  ap_oidc_decode :: "string \<Rightarrow> 'k \<Rightarrow> string \<Rightarrow> string option \<Rightarrow> string + json"
  ap_fetch_jwks :: "string \<Rightarrow> string + jwk_key list"
  ap_rsa_key :: "string \<Rightarrow> string \<Rightarrow> 'k option"
  ap_now :: int
  ap_fetched :: int

definition jwt_validate_token :: "'k auth_ports \<Rightarrow> string \<Rightarrow> string \<Rightarrow> gateway_error + claims" where
  "jwt_validate_token P token secret =
    (case ap_jwt_decode P token secret of
       Inl e \<Rightarrow> Inl (Auth (''JWT validation failed: '' @ e)) | Inr c \<Rightarrow> Inr c)"

definition jwks_uri :: "oidc_config \<Rightarrow> string" where
  "jwks_uri c = (if oc_jwks_uri c \<noteq> [] then oc_jwks_uri c
    else trim_end_matches (\<lambda>x. x = CHR ''/'') (oc_issuer_url c) @ ''/.well-known/jwks.json'')"

definition cache_jwk :: "'k auth_ports \<Rightarrow> jwk_key \<Rightarrow> (string \<times> 'k \<times> int) list \<Rightarrow> (string \<times> 'k \<times> int) list" where
  "cache_jwk P key cache =
    (case (jk_kid key, jk_n key, jk_e key) of
       (Some kid, Some n, Some e) \<Rightarrow>
         (case ap_rsa_key P n e of Some dk \<Rightarrow> alist_put kid (dk, ap_fetched P) cache | None \<Rightarrow> cache)
     | _ \<Rightarrow> cache)"

definition refresh_jwks :: "'k auth_ports \<Rightarrow> 'k oidc_validator \<Rightarrow> (gateway_error + unit) \<times> 'k oidc_validator" where
  "refresh_jwks P v =
    (case ap_fetch_jwks P (jwks_uri (ov_config v)) of
       Inl e \<Rightarrow> (Inl (Auth e), v)
     | Inr keys \<Rightarrow> (Inr (), v\<lparr>ov_key_cache := fold (cache_jwk P) keys (ov_key_cache v)\<rparr>))"

definition oidc_get_key :: "'k auth_ports \<Rightarrow> string \<Rightarrow> 'k oidc_validator \<Rightarrow> (gateway_error + 'k) \<times> 'k oidc_validator" where
  "oidc_get_key P kid v =
    (let refetch = (case refresh_jwks P v of
           (Inl e, v1) \<Rightarrow> (Inl e, v1)
         | (Inr _, v1) \<Rightarrow>
             (case map_of (ov_key_cache v1) kid of
                Some (k, _) \<Rightarrow> (Inr k, v1)
              | None \<Rightarrow> (Inl (Auth (''key ID '' @ [CHR 0x27] @ kid @ [CHR 0x27] @ '' not found in JWKS'')), v1)))
     in case map_of (ov_key_cache v) kid of
          Some (k, fetched_at) \<Rightarrow>
            if ap_now P - fetched_at < int (oc_jwks_cache_ttl_secs (ov_config v)) * 1000000000 then (Inr k, v) else refetch
        | None \<Rightarrow> refetch)"

definition claim_str :: "json \<Rightarrow> string \<Rightarrow> string option" where
  "claim_str raw k = Option.bind (json_get raw k) json_as_str"

definition claims_from_oidc :: "oidc_config \<Rightarrow> json \<Rightarrow> claims" where
  "claims_from_oidc cfg raw =
    \<lparr>cl_sub = (case claim_str raw ''sub'' of Some s \<Rightarrow> s | None \<Rightarrow> []),
     cl_role = (case claim_str raw (oc_role_claim cfg) of Some s \<Rightarrow> s | None \<Rightarrow> ''reader''),
     cl_exp = (case json_get raw ''exp'' of Some (JInt n) \<Rightarrow> (if 0 \<le> n \<and> n < 2 ^ 64 then nat n else 0) | _ \<Rightarrow> 0),
     cl_agent_id = claim_str raw ''agent_id'', cl_tenant_id = claim_str raw ''tenant_id''\<rparr>"

definition oidc_validate_token ::
  "'k auth_ports \<Rightarrow> string \<Rightarrow> 'k oidc_validator \<Rightarrow> (gateway_error + claims) \<times> 'k oidc_validator" where
  "oidc_validate_token P token v =
    (case ap_decode_header P token of
       Inl e \<Rightarrow> (Inl (Auth (''invalid JWT header: '' @ e)), v)
     | Inr None \<Rightarrow> (Inl (Auth ''JWT missing kid header''), v)
     | Inr (Some kid) \<Rightarrow>
         (case oidc_get_key P kid v of
            (Inl e, v1) \<Rightarrow> (Inl e, v1)
          | (Inr key, v1) \<Rightarrow>
              (let cfg = ov_config v
               in case ap_oidc_decode P token key (oc_issuer_url cfg) (if oc_audience cfg \<noteq> [] then Some (oc_audience cfg) else None) of
                    Inl e \<Rightarrow> (Inl (Auth (''OIDC token validation failed: '' @ e)), v1)
                  | Inr raw \<Rightarrow> (Inr (claims_from_oidc cfg raw), v1))))"

subsection \<open>The rate limiter\<close>

record token_bucket =
  tb_tokens :: rat
  tb_last_refill :: int

record rate_limiter =
  rl_tokens_per_sec :: nat
  rl_buckets :: "(string \<times> token_bucket) list"

definition secs_f64 :: "int \<Rightarrow> rat" where
  "secs_f64 ns = of_int (max 0 ns) / 1000000000"

definition refill :: "nat \<Rightarrow> int \<Rightarrow> token_bucket \<Rightarrow> token_bucket" where
  "refill cap now b =
    \<lparr>tb_tokens = min (tb_tokens b + secs_f64 (now - tb_last_refill b) * of_nat cap) (of_nat cap), tb_last_refill = now\<rparr>"

text \<open>
  One attempt at an instant \<open>now\<close>. The code reads the clock before it takes the lock of the bucket, so under
  contention two attempts may reach the bucket in another order than their instants.
\<close>

definition try_acquire :: "string \<Rightarrow> int \<Rightarrow> rate_limiter \<Rightarrow> (bool \<times> nat) \<times> rate_limiter" where
  "try_acquire key now rl =
    (let cap = rl_tokens_per_sec rl;
         entry = (case map_of (rl_buckets rl) key of Some b \<Rightarrow> b | None \<Rightarrow> \<lparr>tb_tokens = of_nat cap, tb_last_refill = now\<rparr>);
         bucket = refill cap now entry
     in if tb_tokens bucket \<ge> 1
        then (let b = bucket\<lparr>tb_tokens := tb_tokens bucket - 1\<rparr>
              in ((True, nat \<lfloor>tb_tokens b\<rfloor>), rl\<lparr>rl_buckets := alist_put key b (rl_buckets rl)\<rparr>))
        else ((False, 0), rl\<lparr>rl_buckets := alist_put key bucket (rl_buckets rl)\<rparr>))"

subsection \<open>The audit log\<close>

record audit_entry =
  au_timestamp :: int
  au_identity :: string
  au_method :: string
  au_path :: string
  au_status :: nat
  au_duration_ms :: rat
  au_tenant :: "string option"
  au_ip :: "string option"

type_synonym audit_log = "audit_entry list"

text \<open>A failed insert is logged and dropped: \<open>writes\<close> answers whether the insert succeeds. The column
  default is the clock.\<close>

definition audit_record ::
  "bool \<Rightarrow> int \<Rightarrow> string \<Rightarrow> string \<Rightarrow> string \<Rightarrow> nat \<Rightarrow> int \<Rightarrow> string option \<Rightarrow> string option \<Rightarrow> audit_log \<Rightarrow> audit_log" where
  "audit_record writes now identity method path status duration tenant ip rows =
    (if writes
     then rows @ [\<lparr>au_timestamp = now, au_identity = identity, au_method = method, au_path = path, au_status = status,
            au_duration_ms = secs_f64 duration * 1000, au_tenant = tenant, au_ip = ip\<rparr>]
     else rows)"

definition query_since :: "int \<Rightarrow> string option \<Rightarrow> audit_log \<Rightarrow> audit_log" where
  "query_since since tenant rows =
    take 1000 (order_by_desc au_timestamp (filter (\<lambda>e. au_timestamp e \<ge> since \<and>
      (case tenant of Some t \<Rightarrow> au_tenant e = Some t | None \<Rightarrow> True)) rows))"

subsection \<open>The authentication state\<close>

record 'k auth_state =
  as_keys :: "(key_digest \<times> api_key_info) list"
  as_jwt_secret :: "string option"
  as_oidc :: "'k oidc_validator option"
  as_rate_limiter :: "rate_limiter option"
  as_audit_log :: "audit_log option"
  as_require_tenant :: bool
  as_shard_forward_secret :: "string option"

text \<open>\<open>audit_opens\<close> answers whether the audit table could be created.\<close>

definition auth_state_new :: "(string \<Rightarrow> key_digest) \<Rightarrow> bool \<Rightarrow> string list \<Rightarrow> string option \<Rightarrow> nat \<Rightarrow> 'k auth_state" where
  "auth_state_new sha256 audit_opens api_keys jwt_secret rate_limit_per_key =
    \<lparr>as_keys = List.map_filter (parse_api_key sha256) api_keys, as_jwt_secret = jwt_secret, as_oidc = None,
     as_rate_limiter = (if rate_limit_per_key > 0 then Some \<lparr>rl_tokens_per_sec = rate_limit_per_key, rl_buckets = []\<rparr> else None),
     as_audit_log = (if audit_opens then Some [] else None), as_require_tenant = False, as_shard_forward_secret = None\<rparr>"

definition auth_state_with_oidc ::
  "(string \<Rightarrow> key_digest) \<Rightarrow> bool \<Rightarrow> string list \<Rightarrow> string option \<Rightarrow> oidc_config \<Rightarrow> nat \<Rightarrow> 'k auth_state" where
  "auth_state_with_oidc sha256 audit_opens api_keys jwt_secret cfg rate_limit_per_key =
    (let st = auth_state_new sha256 audit_opens api_keys jwt_secret rate_limit_per_key
     in if oc_enabled cfg \<and> oc_issuer_url cfg \<noteq> [] then st\<lparr>as_oidc := Some \<lparr>ov_config = cfg, ov_key_cache = []\<rparr>\<rparr> else st)"

definition with_require_tenant :: "bool \<Rightarrow> 'k auth_state \<Rightarrow> 'k auth_state" where
  "with_require_tenant require st = st\<lparr>as_require_tenant := require\<rparr>"

definition with_shard_forward_secret :: "string option \<Rightarrow> 'k auth_state \<Rightarrow> 'k auth_state" where
  "with_shard_forward_secret secret st = st\<lparr>as_shard_forward_secret := secret\<rparr>"

definition auth_state_is_empty :: "'k auth_state \<Rightarrow> bool" where
  "auth_state_is_empty st \<longleftrightarrow> as_keys st = [] \<and> as_jwt_secret st = None"

definition enforce_tenant :: "'k auth_state \<Rightarrow> auth_context \<Rightarrow> auth_context option" where
  "enforce_tenant st ctx =
    (if as_require_tenant st \<and> ac_tenant_id ctx = None \<and> ac_role ctx \<noteq> Admin then None else Some ctx)"

fun scan_keys :: "key_digest \<Rightarrow> (key_digest \<times> api_key_info) list \<Rightarrow> api_key_info option \<Rightarrow> api_key_info option" where
  "scan_keys digest [] found = found"
| "scan_keys digest ((stored, info) # keys) found =
    scan_keys digest keys (if ct_eq stored digest \<and> found = None then Some info else found)"

definition find_key :: "'k auth_ports \<Rightarrow> string \<Rightarrow> 'k auth_state \<Rightarrow> api_key_info option" where
  "find_key P token st = scan_keys (ap_sha256 P token) (as_keys st) None"

definition context_of_claims :: "claims \<Rightarrow> auth_context" where
  "context_of_claims c =
    \<lparr>ac_identity = cl_sub c,
     ac_role = (case role_from_str_loose (cl_role c) of Some r \<Rightarrow> r | None \<Rightarrow> Reader),
     ac_agent_id = (case cl_agent_id c of Some a \<Rightarrow> Some a | None \<Rightarrow> if cl_role c = ''agent'' then Some (cl_sub c) else None),
     ac_tenant_id = cl_tenant_id c\<rparr>"

definition authenticate_local :: "'k auth_ports \<Rightarrow> string \<Rightarrow> 'k auth_state \<Rightarrow> auth_context option" where
  "authenticate_local P token st =
    (case (case as_jwt_secret st of None \<Rightarrow> Inl (Auth []) | Some secret \<Rightarrow> jwt_validate_token P token secret) of
       Inr c \<Rightarrow> enforce_tenant st (context_of_claims c)
     | Inl _ \<Rightarrow>
         (case find_key P token st of
            Some info \<Rightarrow> enforce_tenant st \<lparr>ac_identity = ''api-key-user'', ac_role = ki_role info, ac_agent_id = None,
                ac_tenant_id = ki_tenant info\<rparr>
          | None \<Rightarrow> None))"

definition authenticate :: "'k auth_ports \<Rightarrow> string \<Rightarrow> 'k auth_state \<Rightarrow> auth_context option \<times> 'k auth_state" where
  "authenticate P token st =
    (case as_oidc st of
       None \<Rightarrow> (authenticate_local P token st, st)
     | Some oidc \<Rightarrow>
         (case oidc_validate_token P token oidc of (r, oidc') \<Rightarrow>
            let st' = st\<lparr>as_oidc := Some oidc'\<rparr>
            in case r of
                 Inr c \<Rightarrow> (enforce_tenant st (context_of_claims c), st')
               | Inl _ \<Rightarrow> (authenticate_local P token st', st')))"

subsection \<open>The middleware\<close>

definition client_ip :: "request \<Rightarrow> string option" where
  "client_ip req =
    (case Option.bind (Option.bind (header_get req ''x-forwarded-for'') header_str)
        (\<lambda>s. let f = str_trim (hd (split_on (\<lambda>c. c = CHR '','') s)) in if f \<noteq> [] then Some f else None) of
       Some ip \<Rightarrow> Some ip
     | None \<Rightarrow> Option.bind (header_get req ''x-real-ip'') header_str)"

definition request_path :: "request \<Rightarrow> string" where
  "request_path req = (case rq_original_path req of Some p \<Rightarrow> p | None \<Rightarrow> rq_path req)"

text \<open>The agent named by a path \<open>.../state/{agent_id}/{key}\<close>: the segment after the first \<open>state\<close>.\<close>

definition state_path_agent :: "string \<Rightarrow> string option" where
  "state_path_agent path =
    (if prefix ''/state/'' path \<or> sublist ''/state/'' path
     then (case dropWhile (\<lambda>s. s \<noteq> ''state'') (split_on (\<lambda>c. c = CHR ''/'') path) of
             _ # agent # _ \<Rightarrow> Some agent | _ \<Rightarrow> None)
     else None)"

definition agent_scope_ok :: "auth_context \<Rightarrow> string \<Rightarrow> bool" where
  "agent_scope_ok ctx path =
    (if ac_role ctx = Agent
     then (case ac_agent_id ctx of
             None \<Rightarrow> True
           | Some scoped \<Rightarrow> (case state_path_agent path of Some a \<Rightarrow> a = scoped | None \<Rightarrow> True))
     else True)"

definition bytes_of :: "string \<Rightarrow> 8 word list" where
  "bytes_of s = map (\<lambda>c. of_nat (of_char c)) s"

definition is_shard_forwarded :: "request \<Rightarrow> 'k auth_state \<Rightarrow> bool" where
  "is_shard_forwarded req st =
    (case as_shard_forward_secret st of
       None \<Rightarrow> False
     | Some secret \<Rightarrow>
         (case header_get req ''x-ecphoria-shard-forwarded'' of
            Some v \<Rightarrow> ct_eq (bytes_of v) (bytes_of secret) | None \<Rightarrow> False))"

definition rl_key :: "auth_context \<Rightarrow> string" where
  "rl_key ctx = (case ac_tenant_id ctx of Some t \<Rightarrow> ac_identity ctx @ [CHR 0x1F] @ t | None \<Rightarrow> ac_identity ctx)"

text \<open>The instants at which the middleware reads a clock, and whether an audit insert succeeds.\<close>

record auth_clock =
  ck_acquire :: int
  ck_start :: int
  ck_end :: int
  ck_audit :: int
  ck_audit_writes :: bool

definition audit_with :: "(audit_log \<Rightarrow> audit_log) \<Rightarrow> 'k auth_state \<Rightarrow> 'k auth_state" where
  "audit_with f st = st\<lparr>as_audit_log := map_option f (as_audit_log st)\<rparr>"

definition deny :: "auth_clock \<Rightarrow> request \<Rightarrow> nat \<Rightarrow> string \<Rightarrow> string option \<Rightarrow> 'k auth_state \<Rightarrow> 'b response \<times> 'k auth_state" where
  "deny C req status identity tenant st =
    (status_response status,
     audit_with (audit_record (ck_audit_writes C) (ck_audit C) identity (method_str (rq_method req)) (request_path req) status 0
       tenant (client_ip req)) st)"

definition bearer_token :: "request \<Rightarrow> string option" where
  "bearer_token req = Option.bind (Option.bind (header_get req ''authorization'') header_str) (strip_prefix_of ''Bearer '')"

text \<open>The admission of a request: a denial is a response, an admitted request carries its context and what
  is left in its bucket.\<close>

definition admit ::
  "'k auth_ports \<Rightarrow> auth_clock \<Rightarrow> request \<Rightarrow> 'k auth_state \<Rightarrow> ('b response + auth_context \<times> nat option) \<times> 'k auth_state" where
  "admit P C req st =
    (case bearer_token req of
       None \<Rightarrow> (case deny C req 401 ''anonymous'' None st of (r, st') \<Rightarrow> (Inl r, st'))
     | Some token \<Rightarrow>
         (case authenticate P token st of
            (None, st1) \<Rightarrow> (case deny C req 401 ''invalid-token'' None st1 of (r, st') \<Rightarrow> (Inl r, st'))
          | (Some ctx, st1) \<Rightarrow>
              (let forbidden = (case deny C req 403 (ac_identity ctx) (ac_tenant_id ctx) st1 of (r, st') \<Rightarrow> (Inl r, st'));
                   path = rq_path req
               in if \<not> allows_method (ac_role ctx) (rq_method req) then forbidden
                  else if (sublist ''/admin/'' path \<or> sublist ''/cluster/'' path) \<and> \<not> allows_admin_path (ac_role ctx) then forbidden
                  else if \<not> agent_scope_ok ctx path then forbidden
                  else (case as_rate_limiter st1 of
                          None \<Rightarrow> (Inr (ctx, None), st1)
                        | Some rl \<Rightarrow>
                            if is_shard_forwarded req st1 then (Inr (ctx, None), st1)
                            else (case try_acquire (rl_key ctx) (ck_acquire C) rl of
                                    ((allowed, remaining), rl') \<Rightarrow>
                                      let st2 = st1\<lparr>as_rate_limiter := Some rl'\<rparr>
                                      in if allowed then (Inr (ctx, Some remaining), st2)
                                         else (case deny C req 429 (ac_identity ctx) (ac_tenant_id ctx) st2 of
                                                 (r, st') \<Rightarrow> (Inl (r\<lparr>rs_headers := [(''X-RateLimit-Remaining'', ''0'')]\<rparr>), st')))))))"

definition with_rate_header :: "'k auth_state \<Rightarrow> 'b response \<Rightarrow> 'b response" where
  "with_rate_header st resp =
    (if as_rate_limiter st \<noteq> None
     then (case rs_rate_limit resp of
             Some n \<Rightarrow> resp\<lparr>rs_headers := alist_put ''X-RateLimit-Remaining'' (show_nat n) (rs_headers resp)\<rparr>
           | None \<Rightarrow> resp)
     else resp)"

text \<open>\<open>next\<close> is the rest of the stack; \<open>h\<close> is the state it works on.\<close>

definition require_auth ::
  "'k auth_ports \<Rightarrow> auth_clock \<Rightarrow> (request \<Rightarrow> 'h \<Rightarrow> 'b response \<times> 'h) \<Rightarrow> request \<Rightarrow> 'k auth_state \<times> 'h \<Rightarrow> 'b response \<times> 'k auth_state \<times> 'h" where
  "require_auth P C next req = (\<lambda>(st, h).
    case admit P C req st of
      (Inl r, st') \<Rightarrow> (r, st', h)
    | (Inr (ctx, remaining), st1) \<Rightarrow>
        (case next (req\<lparr>rq_auth := Some ctx, rq_rate_limit := (case remaining of Some n \<Rightarrow> Some n | None \<Rightarrow> rq_rate_limit req)\<rparr>) h of
           (resp0, h') \<Rightarrow>
             let resp = with_rate_header st1 resp0
             in (resp,
                 audit_with (audit_record (ck_audit_writes C) (ck_audit C) (ac_identity ctx) (method_str (rq_method req)) (request_path req)
                   (rs_status resp) (ck_end C - ck_start C) (ac_tenant_id ctx) (client_ip req)) st1,
                 h')))"

subsection \<open>Comparison and lookup of keys\<close>

lemma xor_zero_iff: "a XOR b = 0 \<longleftrightarrow> a = (b :: 8 word)"
proof
  assume "a XOR b = 0"
  then have "(a XOR b) XOR b = b" by simp
  then show "a = b" by (simp add: xor.assoc)
qed simp

lemma fold_or_zero: "fold (\<lambda>(x, y) diff. diff OR (x XOR y)) ps (d :: 8 word) = 0 \<longleftrightarrow> d = 0 \<and> (\<forall>(x, y) \<in> set ps. x = y)"
  by (induction ps arbitrary: d) (auto simp: or_eq_0_iff xor_zero_iff)

lemma ct_eq_iff: "ct_eq a b \<longleftrightarrow> a = b"
  by (auto simp: ct_eq_def fold_or_zero list_eq_iff_zip_eq in_set_zip)

lemma scan_keys_first:
  "scan_keys d keys found = (case found of Some i \<Rightarrow> Some i | None \<Rightarrow> map_of keys d)"
  by (induction d keys found rule: scan_keys.induct) (auto simp: ct_eq_iff split: option.split)

lemma find_key_map_of: "find_key P token st = map_of (as_keys st) (ap_sha256 P token)"
  by (simp add: find_key_def scan_keys_first)

subsection \<open>What a request needs to reach its handler\<close>

definition authorised :: "auth_context \<Rightarrow> request \<Rightarrow> bool" where
  "authorised ctx req \<longleftrightarrow> allows_method (ac_role ctx) (rq_method req) \<and>
    (sublist ''/admin/'' (rq_path req) \<or> sublist ''/cluster/'' (rq_path req) \<longrightarrow> ac_role ctx = Admin) \<and>
    agent_scope_ok ctx (rq_path req)"

definition over_limit :: "auth_clock \<Rightarrow> auth_context \<Rightarrow> request \<Rightarrow> 'k auth_state \<Rightarrow> bool" where
  "over_limit C ctx req st \<longleftrightarrow> (case as_rate_limiter st of
     None \<Rightarrow> False | Some rl \<Rightarrow> \<not> is_shard_forwarded req st \<and> \<not> fst (fst (try_acquire (rl_key ctx) (ck_acquire C) rl)))"

lemma admit_denied:
  "bearer_token req = None \<Longrightarrow> admit P C req st = map_prod Inl id (deny C req 401 ''anonymous'' None st)"
  "bearer_token req = Some token \<Longrightarrow> authenticate P token st = (None, st1) \<Longrightarrow>
    admit P C req st = map_prod Inl id (deny C req 401 ''invalid-token'' None st1)"
  "bearer_token req = Some token \<Longrightarrow> authenticate P token st = (Some ctx, st1) \<Longrightarrow> \<not> authorised ctx req \<Longrightarrow>
    admit P C req st = map_prod Inl id (deny C req 403 (ac_identity ctx) (ac_tenant_id ctx) st1)"
  by (auto simp: admit_def authorised_def allows_admin_path_def Let_def split: prod.split)

lemma admit_admitted:
  assumes "bearer_token req = Some token" and "authenticate P token st = (Some ctx, st1)" and "authorised ctx req"
  shows "admit P C req st = (case as_rate_limiter st1 of
      None \<Rightarrow> (Inr (ctx, None), st1)
    | Some rl \<Rightarrow> if is_shard_forwarded req st1 then (Inr (ctx, None), st1)
        else (case try_acquire (rl_key ctx) (ck_acquire C) rl of ((allowed, remaining), rl') \<Rightarrow>
          if allowed then (Inr (ctx, Some remaining), st1\<lparr>as_rate_limiter := Some rl'\<rparr>)
          else map_prod (\<lambda>r. Inl (r\<lparr>rs_headers := [(''X-RateLimit-Remaining'', ''0'')]\<rparr>)) id
            (deny C req 429 (ac_identity ctx) (ac_tenant_id ctx) (st1\<lparr>as_rate_limiter := Some rl'\<rparr>))))"
  using assms by (auto simp: admit_def authorised_def allows_admin_path_def Let_def split: prod.split option.split)

lemma authenticate_frame:
  "as_audit_log (snd (authenticate P token st)) = as_audit_log st"
  "as_rate_limiter (snd (authenticate P token st)) = as_rate_limiter st"
  "as_shard_forward_secret (snd (authenticate P token st)) = as_shard_forward_secret st"
  by (auto simp: authenticate_def Let_def split: option.split prod.split sum.split)

lemma deny_effect [simp]:
  "rs_status (fst (deny C req n i t st)) = n"
  "as_audit_log (snd (deny C req n i t st)) = map_option (audit_record (ck_audit_writes C) (ck_audit C) i (method_str (rq_method req))
     (request_path req) n 0 t (client_ip req)) (as_audit_log st)"
  by (simp_all add: deny_def status_response_def audit_with_def)

lemma with_rate_header_status [simp]: "rs_status (with_rate_header st r) = rs_status r"
  by (simp add: with_rate_header_def split: option.split)

lemma admit_limited:
  assumes "bearer_token req = Some token" and "authenticate P token st = (Some ctx, st1)" and "authorised ctx req"
  shows "if over_limit C ctx req st
    then (\<exists>r st2. admit P C req st = (Inl r, st2) \<and> rs_status r = 429 \<and>
      as_audit_log st2 = map_option (audit_record (ck_audit_writes C) (ck_audit C) (ac_identity ctx) (method_str (rq_method req))
        (request_path req) 429 0 (ac_tenant_id ctx) (client_ip req)) (as_audit_log st))
    else (\<exists>left st2. admit P C req st = (Inr (ctx, left), st2) \<and> as_audit_log st2 = as_audit_log st)"
proof -
  note keep = authenticate_frame [of P token st, unfolded assms(2) snd_conv]
  have fwd: "is_shard_forwarded req st1 = is_shard_forwarded req st" by (simp add: is_shard_forwarded_def keep)
  show ?thesis
    unfolding admit_admitted [OF assms] over_limit_def keep(2) fwd
    by (auto simp: keep deny_def audit_with_def status_response_def split: option.split prod.splits)
qed

definition audited :: "auth_clock \<Rightarrow> request \<Rightarrow> nat \<Rightarrow> audit_log option \<Rightarrow> audit_log option \<Rightarrow> bool" where
  "audited C req status before after \<longleftrightarrow>
    (case before of None \<Rightarrow> after = None
     | Some rows \<Rightarrow> if ck_audit_writes C then (\<exists>e. after = Some (rows @ [e]) \<and> au_status e = status \<and>
           au_method e = method_str (rq_method req) \<and> au_path e = request_path req)
         else after = Some rows)"

lemma audited_record:
  "audited C req n rows (map_option (audit_record (ck_audit_writes C) (ck_audit C) i (method_str (rq_method req)) (request_path req) n d t ip) rows)"
  by (simp add: audited_def audit_record_def split: option.split)

lemma require_auth_denied:
  fixes resp :: "'b response" and st' :: "'k auth_state"
  assumes "admit P C req st = map_prod Inl id (deny C req n i t st1 :: 'b response \<times> 'k auth_state)" and "as_audit_log st1 = as_audit_log st"
    and "require_auth P C next req (st, h) = (resp, st', h')"
  shows "rs_status resp = n \<and> h' = h \<and> audited C req (rs_status resp) (as_audit_log st) (as_audit_log st')"
  using assms(1,3) audited_record [of C req n "as_audit_log st"]
  by (auto simp: require_auth_def deny_def audit_with_def status_response_def assms(2))

lemma require_auth_admitted:
  fixes resp :: "'b response" and st' :: "'k auth_state"
  assumes "admit P C req st = (Inr (ctx, left) :: 'b response + auth_context \<times> nat option, st1)" and "as_audit_log st1 = as_audit_log st"
    and "require_auth P C next req (st, h) = (resp, st', h')"
  shows "(\<exists>left r. next (req\<lparr>rq_auth := Some ctx, rq_rate_limit := left\<rparr>) h = (r, h') \<and> rs_status resp = rs_status r) \<and>
    audited C req (rs_status resp) (as_audit_log st) (as_audit_log st')"
proof -
  let ?q = "req\<lparr>rq_auth := Some ctx, rq_rate_limit := (case left of Some n \<Rightarrow> Some n | None \<Rightarrow> rq_rate_limit req)\<rparr>"
  obtain r where "next ?q h = (r, h')" "resp = with_rate_header st1 r"
    and "as_audit_log st' = map_option (audit_record (ck_audit_writes C) (ck_audit C) (ac_identity ctx) (method_str (rq_method req))
      (request_path req) (rs_status resp) (ck_end C - ck_start C) (ac_tenant_id ctx) (client_ip req)) (as_audit_log st)"
    using assms by (auto simp: require_auth_def audit_with_def Let_def split: prod.splits)
  then show ?thesis using audited_record [of C req "rs_status resp" "as_audit_log st"] by auto
qed

lemma require_auth_cases:
  fixes resp :: "'b response"
  assumes run: "require_auth P C next req (st, h) = (resp, st', h')"
  shows "(case Option.bind (bearer_token req) (\<lambda>token. fst (authenticate P token st)) of
      None \<Rightarrow> rs_status resp = 401 \<and> h' = h
    | Some ctx \<Rightarrow>
        if \<not> authorised ctx req then rs_status resp = 403 \<and> h' = h
        else if over_limit C ctx req st then rs_status resp = 429 \<and> h' = h
        else (\<exists>left r. next (req\<lparr>rq_auth := Some ctx, rq_rate_limit := left\<rparr>) h = (r, h') \<and> rs_status resp = rs_status r)) \<and>
    audited C req (rs_status resp) (as_audit_log st) (as_audit_log st')"
proof (cases "bearer_token req")
  case None
  then show ?thesis using require_auth_denied [OF admit_denied(1) [OF None] refl run] by auto
next
  case (Some token)
  obtain who st1 where auth: "authenticate P token st = (who, st1)" by fastforce
  note keep = authenticate_frame [of P token st, unfolded auth snd_conv]
  show ?thesis
  proof (cases who)
    case None
    then show ?thesis using require_auth_denied [OF admit_denied(2) [OF Some auth [unfolded None]] keep(1) run] Some auth by auto
  next
    case who: (Some ctx)
    show ?thesis
    proof (cases "authorised ctx req")
      case False
      then show ?thesis using require_auth_denied [OF admit_denied(3) [OF Some auth [unfolded who]] keep(1) run] Some auth who by auto
    next
      case True
      note limited = admit_limited [where ?'b = 'b, OF Some auth [unfolded who] True, of C]
      show ?thesis
      proof (cases "over_limit C ctx req st")
        case over: True
        then show ?thesis using limited run audited_record [of C req 429 "as_audit_log st"] Some auth who True
          by (auto simp: require_auth_def)
      next
        case False
        then show ?thesis using limited require_auth_admitted [OF _ _ run] Some auth who True by auto
      qed
    qed
  qed
qed

text \<open>C33: The middleware decides exactly as documented and leaves a trace. Without a valid bearer token the
  answer is 401; with one, 403 exactly when the role may not use the method, the path is an admin or
  cluster path and the role is not Admin, or an agent reaches for the state of another agent; then 429
  exactly when the caller's bucket is empty and the request is not an authenticated forward. In all these
  cases the rest of the stack does not run. Otherwise it runs once, on the request with the
  authenticated context. Whenever an audit log is configured and its insert succeeds, exactly one entry
  is added, with the method, the client's path and the status of the answer.\<close>

theorem require_auth_exact:
  "case require_auth P C next req (st, h) of (resp, st', h') \<Rightarrow>
    (case Option.bind (bearer_token req) (\<lambda>token. fst (authenticate P token st)) of
      None \<Rightarrow> rs_status resp = 401 \<and> h' = h
    | Some ctx \<Rightarrow>
        if \<not> authorised ctx req then rs_status resp = 403 \<and> h' = h
        else if over_limit C ctx req st then rs_status resp = 429 \<and> h' = h
        else (\<exists>left r. next (req\<lparr>rq_auth := Some ctx, rq_rate_limit := left\<rparr>) h = (r, h') \<and> rs_status resp = rs_status r)) \<and>
    audited C req (rs_status resp) (as_audit_log st) (as_audit_log st')"
proof (cases "require_auth P C next req (st, h)" rule: prod_cases3)
  case (fields resp st' h')
  show ?thesis unfolding fields prod.case by (rule require_auth_cases [OF fields])
qed

subsection \<open>The rate limit\<close>

text \<open>The attempts on a limiter in the order they are made, and how many of those on a key are allowed.\<close>

fun allowed_on :: "string \<Rightarrow> (string \<times> int) list \<Rightarrow> rate_limiter \<Rightarrow> nat" where
  "allowed_on k [] rl = 0"
| "allowed_on k ((k', now) # evs) rl =
    (case try_acquire k' now rl of ((ok, _), rl') \<Rightarrow> (if ok \<and> k' = k then 1 else 0) + allowed_on k evs rl')"

definition limiter_inv :: "int \<Rightarrow> rate_limiter \<Rightarrow> bool" where
  "limiter_inv now rl \<longleftrightarrow> (\<forall>k b. map_of (rl_buckets rl) k = Some b \<longrightarrow> 0 \<le> tb_tokens b \<and> tb_last_refill b \<le> now)"

definition available :: "string \<Rightarrow> int \<Rightarrow> rate_limiter \<Rightarrow> rat" where
  "available k now rl = (case map_of (rl_buckets rl) k of
     Some b \<Rightarrow> tb_tokens (refill (rl_tokens_per_sec rl) now b) | None \<Rightarrow> of_nat (rl_tokens_per_sec rl))"

lemma secs_f64_simps: "0 \<le> secs_f64 d" "a \<le> b \<Longrightarrow> b \<le> c \<Longrightarrow> secs_f64 (c - a) = secs_f64 (b - a) + secs_f64 (c - b)" "secs_f64 0 = 0"
  by (simp_all add: secs_f64_def field_simps)

lemma try_acquire_cap [simp]: "rl_tokens_per_sec (snd (try_acquire k now rl)) = rl_tokens_per_sec rl"
  by (simp add: try_acquire_def Let_def)

lemma try_acquire_other: "k \<noteq> k' \<Longrightarrow> map_of (rl_buckets (snd (try_acquire k' now rl))) k = map_of (rl_buckets rl) k"
  by (simp add: try_acquire_def Let_def)

lemma try_acquire_bucket:
  assumes "0 \<le> available k now rl"
  shows "fst (fst (try_acquire k now rl)) \<longleftrightarrow> available k now rl \<ge> 1"
    "map_of (rl_buckets (snd (try_acquire k now rl))) k =
      Some \<lparr>tb_tokens = available k now rl - (if available k now rl \<ge> 1 then 1 else 0), tb_last_refill = now\<rparr>"
  by (auto simp: try_acquire_def available_def Let_def refill_def secs_f64_simps split: option.splits)

lemma available_bounds:
  assumes "limiter_inv t rl" and "t \<le> now"
  shows "0 \<le> available k now rl" "available k now rl \<le> available k t rl + of_nat (rl_tokens_per_sec rl) * secs_f64 (now - t)"
proof -
  let ?c = "of_nat (rl_tokens_per_sec rl) :: rat"
  have inc: "min (x + (u + v) * ?c) ?c \<le> min (x + u * ?c) ?c + ?c * v" if "0 \<le> v" for x u v
  proof -
    have le: "min (y + w) c \<le> min y c + w" if "0 \<le> w" for y w c :: rat using that by (simp add: min_def)
    have "x + (u + v) * ?c = (x + u * ?c) + ?c * v" by (simp add: algebra_simps)
    then show ?thesis using le [of "?c * v" "x + u * ?c" ?c] that by (simp only: mult_nonneg_nonneg of_nat_0_le_iff)
  qed
  show "0 \<le> available k now rl"
    using assms by (auto simp: available_def limiter_inv_def refill_def secs_f64_simps split: option.split)
  show "available k now rl \<le> available k t rl + ?c * secs_f64 (now - t)"
  proof (cases "map_of (rl_buckets rl) k")
    case (Some b)
    then have "tb_last_refill b \<le> t" using assms(1) by (auto simp: limiter_inv_def)
    then show ?thesis using Some inc [OF secs_f64_simps(1)] assms(2)
      by (simp add: available_def refill_def secs_f64_simps(2) [of "tb_last_refill b" t now])
  qed (simp add: available_def secs_f64_simps)
qed

lemma try_acquire_inv:
  assumes "limiter_inv t rl" and "t \<le> now"
  shows "limiter_inv now (snd (try_acquire k now rl))"
  unfolding limiter_inv_def
proof (intro allI impI)
  fix k' b
  assume b: "map_of (rl_buckets (snd (try_acquire k now rl))) k' = Some b"
  show "0 \<le> tb_tokens b \<and> tb_last_refill b \<le> now"
  proof (cases "k' = k")
    case True
    then show ?thesis using b try_acquire_bucket(2) [OF available_bounds(1) [OF assms, of k]] available_bounds(1) [OF assms, of k] by auto
  next
    case False
    then show ?thesis using b assms try_acquire_other [of k' k now rl] by (fastforce simp: limiter_inv_def)
  qed
qed

text \<open>C34: The token bucket bounds the traffic of a key. From any state the limiter can be in at an instant,
  and whatever the other keys do, the number of requests of a key it allows until a later instant is at
  most the capacity plus the rate times the time that passed.\<close>

theorem rate_limit_bound:
  assumes "limiter_inv t rl" and "sorted (t # map snd evs)"
  shows "of_nat (allowed_on k evs rl) \<le> of_nat (rl_tokens_per_sec rl) * (1 + secs_f64 (last (t # map snd evs) - t))"
proof -
  have "of_nat (allowed_on k evs rl) \<le> available k t rl + of_nat (rl_tokens_per_sec rl) * secs_f64 (last (t # map snd evs) - t)"
    using assms
  proof (induction evs arbitrary: t rl)
    case Nil
    then show ?case using available_bounds(1) [OF Nil.prems(1) order_refl] by (simp add: secs_f64_simps)
  next
    case (Cons ev evs)
    obtain k' now where ev: "ev = (k', now)" by (cases ev)
    have "last (now # map snd evs) \<in> set (now # map snd evs)" by (rule last_in_set) simp
    then have le: "t \<le> now" "now \<le> last (now # map snd evs)" using Cons.prems(2) ev by auto
    let ?rl = "snd (try_acquire k' now rl)" and ?c = "of_nat (rl_tokens_per_sec rl) :: rat"
    have IH: "of_nat (allowed_on k evs ?rl) \<le> available k now ?rl + ?c * secs_f64 (last (now # map snd evs) - now)"
      using Cons.IH [OF try_acquire_inv [OF Cons.prems(1) le(1)]] Cons.prems(2) ev by simp
    have step: "(if fst (fst (try_acquire k' now rl)) \<and> k' = k then 1 else 0) + available k now ?rl \<le> available k now rl"
    proof (cases "k' = k")
      case True
      note b = try_acquire_bucket [OF available_bounds(1) [OF Cons.prems(1) le(1)], of k]
      have "available k now ?rl = min (available k now rl - (if available k now rl \<ge> 1 then 1 else 0)) ?c"
        using True by (simp add: available_def [of k now "snd (try_acquire k now rl)"] b(2) refill_def secs_f64_simps)
      then show ?thesis using b(1) True by simp
    next
      case False
      then show ?thesis using try_acquire_other [of k k' now rl] by (simp add: available_def split: option.split)
    qed
    have "available k now rl \<le> available k t rl + ?c * secs_f64 (now - t)" by (rule available_bounds(2) [OF Cons.prems(1) le(1)])
    moreover have "?c * secs_f64 (last (t # map snd (ev # evs)) - t) = ?c * secs_f64 (now - t) + ?c * secs_f64 (last (now # map snd evs) - now)"
      using secs_f64_simps(2) [OF le] ev by (simp add: algebra_simps)
    moreover have "(of_nat (allowed_on k (ev # evs) rl) :: rat) =
        (if fst (fst (try_acquire k' now rl)) \<and> k' = k then 1 else 0) + of_nat (allowed_on k evs ?rl)" by (auto simp: ev split_def)
    ultimately show ?case using IH step by linarith
  qed
  moreover have "available k t rl \<le> of_nat (rl_tokens_per_sec rl)" by (simp add: available_def refill_def split: option.split)
  ultimately show ?thesis by (simp add: algebra_simps)
qed

theorem rate_limit_bound_witness:
  "allowed_on ''a'' [(''a'', 0), (''a'', 0), (''b'', 0), (''a'', 500000000)] \<lparr>rl_tokens_per_sec = 1, rl_buckets = []\<rparr> \<le> 1"
proof -
  let ?evs = "[(''a'', 0), (''a'', 0), (''b'', 0), (''a'', 500000000)] :: (string \<times> int) list"
  let ?rl = "\<lparr>rl_tokens_per_sec = 1, rl_buckets = []\<rparr>"
  have "of_nat (allowed_on ''a'' ?evs ?rl) \<le> of_nat (rl_tokens_per_sec ?rl) * (1 + secs_f64 (last (0 # map snd ?evs) - 0))"
    by (rule rate_limit_bound) (simp_all add: limiter_inv_def)
  then have "(of_nat (allowed_on ''a'' ?evs ?rl) :: rat) < 2" by (simp add: secs_f64_def)
  then show ?thesis by linarith
qed

text \<open>A token whose role is written with a capital letter is an agent, but it is not bound to the state of one.\<close>

lemma capital_agent_unscoped:
  assumes "cl_role c = ''Agent''" and "cl_agent_id c = None"
  shows "ac_role (context_of_claims c) = Agent \<and> agent_scope_ok (context_of_claims c) path"
proof -
  have "role_from_str_loose ''Agent'' = Some Agent" by code_simp
  then show ?thesis using assms by (simp add: context_of_claims_def agent_scope_ok_def)
qed

text \<open>The remaining budget is put into the extensions of the request and looked for in those of the response, so
  a handler that does not know of it answers without the header.\<close>

lemma no_rate_header: "rs_rate_limit resp = None \<Longrightarrow> with_rate_header st resp = resp"
  by (simp add: with_rate_header_def)

end
