(* ===== verification/Gateway_Routing.thy ===== *)
theory Gateway_Routing
  imports Gateway_Auth Shard_Router
begin

text \<open>
  Routing of HTTP requests between the pods of a fleet: \<open>cluster/shard_route.rs\<close> (a request goes to the
  shard that owns its tenant), \<open>cluster/leader_forward.rs\<close> (a write goes to the leader of its shard) and
  the order in which \<open>rest/routes.rs\<close> stacks these layers.

  The layers are functions of the rest of the stack (\<open>next\<close>) and of the HTTP client (\<open>send\<close>), both of
  which act on a world \<open>'w\<close>; the coordinator's view of the leader is read from the world. A failed call of
  the client is \<open>Inl\<close> with its message.
\<close>

subsection \<open>The shard of a request\<close>

definition json_response :: "nat \<Rightarrow> json \<Rightarrow> json response" where
  "json_response status body = (status_response status)\<lparr>rs_body := Some body\<rparr>"

definition FORWARD_MARKER :: string where
  "FORWARD_MARKER = ''x-ecphoria-shard-forwarded''"

datatype shard_target = Local_Shard | Forward_To string | Unroutable

definition route_decision :: "string \<Rightarrow> shard_router \<Rightarrow> nat \<Rightarrow> string list \<Rightarrow> shard_target" where
  "route_decision tenant router my_shard base_urls =
    (let owner = shard_for router tenant
     in if owner = my_shard then Local_Shard
        else if owner < length base_urls then Forward_To (trim_end_matches (\<lambda>c. c = CHR ''/'') (base_urls ! owner))
        else Unroutable)"

text \<open>What follows the first occurrence of a pattern.\<close>

fun after_first :: "string \<Rightarrow> string \<Rightarrow> string option" where
  "after_first pat [] = strip_prefix_of pat []"
| "after_first pat (c # s) =
    (case strip_prefix_of pat (c # s) of Some rest \<Rightarrow> Some rest | None \<Rightarrow> after_first pat s)"

definition routing_key :: "request \<Rightarrow> string" where
  "routing_key req =
    (let own = (case Option.bind (rq_auth req) ac_tenant_id of Some t \<Rightarrow> t | None \<Rightarrow> ''default'')
     in if rq_method req = DELETE
        then (case after_first ''/admin/tenants/'' (rq_path req) of
                Some rest \<Rightarrow> (let uid = takeWhile (\<lambda>c. c \<noteq> CHR ''/'') rest in if uid \<noteq> [] then uid else own)
              | None \<Rightarrow> own)
        else own)"

record shard_routing_state =
  sh_router :: shard_router
  sh_my_shard :: nat
  sh_base_urls :: "string list"
  sh_forward_secret :: "string option"

subsection \<open>The proxy\<close>

definition is_hop_by_hop :: "string \<Rightarrow> bool" where
  "is_hop_by_hop name \<longleftrightarrow> to_lowercase name \<in>
    {''connection'', ''keep-alive'', ''proxy-authenticate'', ''proxy-authorization'', ''te'', ''trailer'', ''trailers'',
     ''transfer-encoding'', ''upgrade''}"

text \<open>\<open>HeaderMap::insert\<close> replaces, so of a header sent several times the last value is kept.\<close>

definition forward_headers :: "string \<Rightarrow> string \<Rightarrow> (string \<times> string) list \<Rightarrow> (string \<times> string) list" where
  "forward_headers marker_header marker_val headers =
    alist_put marker_header marker_val
      (fold (\<lambda>(n, v) acc. if is_hop_by_hop n \<or> to_lowercase n = ''host'' \<or> to_lowercase n = ''content-length'' then acc
                          else alist_put n v acc) headers [])"

text \<open>\<open>HeaderValue::from_str\<close> accepts bytes from 32 on except 127, and the tab.\<close>

definition valid_header_value :: "string \<Rightarrow> bool" where
  "valid_header_value v \<longleftrightarrow> (\<forall>c \<in> set v. of_char c = (9::nat) \<or> 32 \<le> (of_char c :: nat) \<and> of_char c \<noteq> (127::nat))"

definition marker_value :: "string option \<Rightarrow> string" where
  "marker_value marker = (case marker of Some m \<Rightarrow> if valid_header_value m then m else ''1'' | None \<Rightarrow> ''1'')"

text \<open>The request the HTTP client is asked to send; its URL is the base followed by the path and query.\<close>

record proxied =
  px_base :: string
  px_path :: string
  px_query :: "string option"
  px_method :: http_method
  px_headers :: "(string \<times> string) list"
  px_body :: string

definition proxied_of :: "string \<Rightarrow> request \<Rightarrow> string \<Rightarrow> string option \<Rightarrow> string \<Rightarrow> proxied" where
  "proxied_of base req marker_header marker body =
    \<lparr>px_base = base, px_path = request_path req, px_query = rq_query req, px_method = rq_method req,
     px_headers = forward_headers marker_header (marker_value marker) (rq_headers req), px_body = body\<rparr>"

definition reqwest_to_axum :: "json response \<Rightarrow> json response" where
  "reqwest_to_axum resp =
    \<lparr>rs_status = rs_status resp,
     rs_headers = fold (\<lambda>(n, v) acc. if is_hop_by_hop n \<or> to_lowercase n = ''content-length'' then acc else alist_put n v acc)
       (rs_headers resp) [],
     rs_body = rs_body resp, rs_rate_limit = None\<rparr>"

fun send_retry ::
  "(proxied \<Rightarrow> 'w \<Rightarrow> (string + json response) \<times> 'w) \<Rightarrow> nat \<Rightarrow> proxied \<Rightarrow> json response option \<Rightarrow> 'w \<Rightarrow> json response \<times> 'w" where
  "send_retry send 0 p prev w = ((case prev of Some resp \<Rightarrow> reqwest_to_axum resp | None \<Rightarrow> status_response 502), w)"
| "send_retry send (Suc n) p prev w =
    (case send p w of
       (Inl detail, w') \<Rightarrow> (json_response 502 (JObj [(''error'', JStr ''shard_proxy_failed''), (''detail'', JStr detail)]), w')
     | (Inr resp, w') \<Rightarrow>
         if rs_status resp = 307 then send_retry send n p (Some resp) w' else (reqwest_to_axum resp, w'))"

definition proxy ::
  "(proxied \<Rightarrow> 'w \<Rightarrow> (string + json response) \<times> 'w) \<Rightarrow> string \<Rightarrow> request \<Rightarrow> string \<Rightarrow> string option \<Rightarrow> 'w \<Rightarrow> json response \<times> 'w" where
  "proxy send base req marker_header marker w =
    (case rq_body req of
       None \<Rightarrow> (status_response 400, w)
     | Some body \<Rightarrow> send_retry send 4 (proxied_of base req marker_header marker body) None w)"

definition admin_local :: "request \<Rightarrow> bool" where
  "admin_local req \<longleftrightarrow> sublist ''/admin/'' (rq_path req) \<and>
    \<not> (rq_method req = DELETE \<and> sublist ''/admin/tenants/'' (rq_path req))"

definition route_to_owning_shard ::
  "shard_routing_state \<Rightarrow> (proxied \<Rightarrow> 'w \<Rightarrow> (string + json response) \<times> 'w) \<Rightarrow> (request \<Rightarrow> 'w \<Rightarrow> json response \<times> 'w) \<Rightarrow>
   request \<Rightarrow> 'w \<Rightarrow> json response \<times> 'w" where
  "route_to_owning_shard st send next req w =
    (if admin_local req then next req w
     else let tenant = routing_key req
          in case route_decision tenant (sh_router st) (sh_my_shard st) (sh_base_urls st) of
               Local_Shard \<Rightarrow> next req w
             | Unroutable \<Rightarrow> (json_response 503 (JObj [(''error'', JStr ''shard_unroutable''), (''tenant'', JStr tenant)]), w)
             | Forward_To base \<Rightarrow>
                 if header_get req FORWARD_MARKER \<noteq> None
                 then (json_response 502 (JObj [(''error'', JStr ''shard_proxy_loop'')]), w)
                 else proxy send base req FORWARD_MARKER (sh_forward_secret st) w)"

subsection \<open>The leader of a shard\<close>

definition LEADER_FORWARD_MARKER :: string where
  "LEADER_FORWARD_MARKER = ''x-ecphoria-leader-forwarded''"

text \<open>The coordinator tells whether this node is the leader and who the leader is.\<close>

record 'w cluster_state =
  cs_coordinator :: "'w \<Rightarrow> bool \<times> nat option"
  cs_peer_http :: "(nat \<times> string) list"

definition READ_ONLY :: "string list" where
  "READ_ONLY = [''/query'', ''/search'', ''/embed-and-search'', ''/memories/search'', ''/context-pack'', ''/attachments/search-image'']"

definition is_read_only_post :: "request \<Rightarrow> bool" where
  "is_read_only_post req =
    (if rq_method req \<noteq> POST then False
     else list_ex (\<lambda>p. rq_path req = p \<or>
            (case rq_original_path req of None \<Rightarrow> False | Some o' \<Rightarrow> o' = p \<or> suffix (''/api/v1'' @ p) o')) READ_ONLY)"

definition not_leader_307 :: "nat \<Rightarrow> json response" where
  "not_leader_307 leader_id =
    json_response 307 (JObj [(''error'', JStr ''not_leader''), (''leader_id'', JInt (int leader_id)),
      (''message'', JStr ''This node is not the leader. Retry on the leader node, or configure                     cluster.peer_http so followers can forward writes for you.'')])"

definition require_leader_for_writes ::
  "'w cluster_state \<Rightarrow> (proxied \<Rightarrow> 'w \<Rightarrow> (string + json response) \<times> 'w) \<Rightarrow> (request \<Rightarrow> 'w \<Rightarrow> json response \<times> 'w) \<Rightarrow>
   request \<Rightarrow> 'w \<Rightarrow> json response \<times> 'w" where
  "require_leader_for_writes st send next req w =
    (if rq_method req = GET \<or> is_read_only_post req then next req w
     else case cs_coordinator st w of
       (True, _) \<Rightarrow> next req w
     | (False, Some leader_id) \<Rightarrow>
         (case map_of (cs_peer_http st) leader_id of
            Some base \<Rightarrow>
              if header_get req LEADER_FORWARD_MARKER \<noteq> None then (not_leader_307 leader_id, w)
              else proxy send base req LEADER_FORWARD_MARKER None w
          | None \<Rightarrow> (not_leader_307 leader_id, w))
     | (False, None) \<Rightarrow>
         (json_response 503 (JObj [(''error'', JStr ''no_leader''), (''message'', JStr ''No leader elected yet. Retry later.'')]), w))"

text \<open>The layers of the API router inside authentication: shard routing, only when there is more than one
  shard, around the leader check, around the handler.\<close>

definition api_layers ::
  "'w cluster_state option \<Rightarrow> shard_routing_state option \<Rightarrow> (proxied \<Rightarrow> 'w \<Rightarrow> (string + json response) \<times> 'w) \<Rightarrow>
   (request \<Rightarrow> 'w \<Rightarrow> json response \<times> 'w) \<Rightarrow> request \<Rightarrow> 'w \<Rightarrow> json response \<times> 'w" where
  "api_layers cluster shard send handler =
    (let led = (case cluster of Some cs \<Rightarrow> require_leader_for_writes cs send handler | None \<Rightarrow> handler)
     in case shard of
          Some st \<Rightarrow> if sr_shards (sh_router st) > 1 then route_to_owning_shard st send led else led
        | None \<Rightarrow> led)"

subsection \<open>A fleet of pods\<close>

text \<open>The pods of a deployment are numbered. A base URL leads to some pod (a load balancer may choose another one
  at each call, or none), the pod authenticates the request again, and its layers handle it; its answer may
  be lost on the way back (\<open>fl_lost\<close>), also when its handler ran. The world
  counts the calls and records which pod ran its handler, whether it then was the leader of its shard, and
  for which request. \<open>deliver\<close> follows a call for at most \<open>n\<close> hops.\<close>

record 'h world =
  wd_calls :: nat
  wd_runs :: "(nat \<times> bool \<times> request) list"
  wd_state :: 'h

record 'h fleet =
  fl_router :: shard_router
  fl_base_urls :: "string list"
  fl_secret :: "string option"
  fl_shard_of :: "nat \<Rightarrow> nat"
  fl_coordinator :: "nat \<Rightarrow> 'h world \<Rightarrow> bool \<times> nat option"
  fl_peer_http :: "nat \<Rightarrow> (nat \<times> string) list"
  fl_pick :: "string \<Rightarrow> 'h world \<Rightarrow> nat option"
  fl_denies :: "nat \<Rightarrow> request \<Rightarrow> 'h world \<Rightarrow> json response option"
  fl_lost :: "nat \<Rightarrow> request \<Rightarrow> 'h world \<Rightarrow> bool"
  fl_who :: "string option \<Rightarrow> auth_context option"
  fl_handler :: "nat \<Rightarrow> request \<Rightarrow> 'h \<Rightarrow> json response \<times> 'h"

definition run_handler :: "'h fleet \<Rightarrow> nat \<Rightarrow> request \<Rightarrow> 'h world \<Rightarrow> json response \<times> 'h world" where
  "run_handler F i req w =
    (case fl_handler F i req (wd_state w) of
       (resp, h) \<Rightarrow> (resp, w\<lparr>wd_runs := wd_runs w @ [(i, fst (fl_coordinator F i w), req)], wd_state := h\<rparr>))"

definition pod_layers ::
  "'h fleet \<Rightarrow> (proxied \<Rightarrow> 'h world \<Rightarrow> (string + json response) \<times> 'h world) \<Rightarrow> nat \<Rightarrow> request \<Rightarrow> 'h world \<Rightarrow> json response \<times> 'h world" where
  "pod_layers F send i =
    api_layers (Some \<lparr>cs_coordinator = fl_coordinator F i, cs_peer_http = fl_peer_http F i\<rparr>)
      (Some \<lparr>sh_router = fl_router F, sh_my_shard = fl_shard_of F i, sh_base_urls = fl_base_urls F, sh_forward_secret = fl_secret F\<rparr>)
      send (run_handler F i)"

text \<open>A request as the receiving pod sees it: the router strips its prefix and keeps the original path.\<close>

definition arrived :: "'h fleet \<Rightarrow> proxied \<Rightarrow> request option" where
  "arrived F p =
    map_option (\<lambda>path. \<lparr>rq_method = px_method p, rq_path = path, rq_original_path = Some (px_path p), rq_query = px_query p,
        rq_headers = px_headers p, rq_body = Some (px_body p), rq_auth = fl_who F (map_of (px_headers p) ''authorization''),
        rq_tenant_header = None, rq_rate_limit = None\<rparr>)
      (strip_prefix_of ''/api/v1'' (px_path p))"

primrec deliver :: "'h fleet \<Rightarrow> nat \<Rightarrow> proxied \<Rightarrow> 'h world \<Rightarrow> (string + json response) \<times> 'h world" where
  "deliver F 0 = (\<lambda>p w. (Inl ''hop limit'', w))"
| "deliver F (Suc n) = (\<lambda>p w.
    let w' = w\<lparr>wd_calls := wd_calls w + 1\<rparr>
    in case fl_pick F (px_base p) w' of
         None \<Rightarrow> (Inl ''connect'', w')
       | Some j \<Rightarrow>
           (case arrived F p of
              None \<Rightarrow> (Inr (status_response 404), w')
            | Some req \<Rightarrow>
                (case fl_denies F j req w' of
                   Some resp \<Rightarrow> (Inr resp, w')
                 | None \<Rightarrow> (case pod_layers F (deliver F n) j req w' of
                     (resp, w2) \<Rightarrow> (if fl_lost F j req w2 then Inl ''operation timed out'' else Inr resp, w2)))))"

definition serve :: "'h fleet \<Rightarrow> nat \<Rightarrow> nat \<Rightarrow> request \<Rightarrow> 'h world \<Rightarrow> json response \<times> 'h world" where
  "serve F n i = pod_layers F (deliver F n) i"

subsection \<open>Forwarding ends\<close>

text \<open>The number of hops a request can still make: each layer forwards only what does not carry its marker.\<close>

definition hops_left :: "(string \<times> string) list \<Rightarrow> nat" where
  "hops_left hs = (if map_of hs FORWARD_MARKER = None then 1 else 0) + (if map_of hs LEADER_FORWARD_MARKER = None then 1 else 0)"

lemma map_of_kept_headers:
  assumes "distinct (map fst hs)"
  shows "map_of (fold (\<lambda>(n, v) acc. if skip n then acc else alist_put n v acc) hs acc) k =
    (if skip k then map_of acc k else case map_of hs k of Some v \<Rightarrow> Some v | None \<Rightarrow> map_of acc k)"
  using assms
proof (induction hs arbitrary: acc)
  case (Cons h hs)
  obtain n v where "h = (n, v)" by fastforce
  moreover have "k = n \<Longrightarrow> map_of hs k = None" using Cons.prems \<open>h = (n, v)\<close> by (auto simp: map_of_eq_None_iff)
  ultimately show ?case using Cons by (auto split: option.split)
qed simp

lemma kept_headers_dom:
  "map_of (fold (\<lambda>(n, v) acc. if skip n then acc else alist_put n v acc) hs acc) k = None \<longleftrightarrow>
    map_of acc k = None \<and> (skip k \<or> map_of hs k = None)"
  by (induction hs arbitrary: acc) (auto split: prod.split if_splits)

lemma forward_keeps_marker:
  "map_of (forward_headers m v hs) FORWARD_MARKER = None \<longleftrightarrow> m \<noteq> FORWARD_MARKER \<and> map_of hs FORWARD_MARKER = None"
  "map_of (forward_headers m v hs) LEADER_FORWARD_MARKER = None \<longleftrightarrow> m \<noteq> LEADER_FORWARD_MARKER \<and> map_of hs LEADER_FORWARD_MARKER = None"
proof -
  have skip: "\<not> (is_hop_by_hop k \<or> to_lowercase k = ''host'' \<or> to_lowercase k = ''content-length'')"
    if "k \<in> {FORWARD_MARKER, LEADER_FORWARD_MARKER}" for k
    using that unfolding FORWARD_MARKER_def LEADER_FORWARD_MARKER_def is_hop_by_hop_def by (elim insertE emptyE; simp; code_simp)
  show "map_of (forward_headers m v hs) FORWARD_MARKER = None \<longleftrightarrow> m \<noteq> FORWARD_MARKER \<and> map_of hs FORWARD_MARKER = None"
    "map_of (forward_headers m v hs) LEADER_FORWARD_MARKER = None \<longleftrightarrow> m \<noteq> LEADER_FORWARD_MARKER \<and> map_of hs LEADER_FORWARD_MARKER = None"
    using skip by (auto simp: forward_headers_def kept_headers_dom)
qed

lemma markers_differ [simp]: "FORWARD_MARKER \<noteq> LEADER_FORWARD_MARKER" "LEADER_FORWARD_MARKER \<noteq> FORWARD_MARKER"
  by (simp_all add: FORWARD_MARKER_def LEADER_FORWARD_MARKER_def)

lemma send_retry_cong:
  assumes "\<And>w. send p w = send' p w"
  shows "send_retry send n p prev w = send_retry send' n p prev w"
  by (induction n arbitrary: prev w) (auto simp: assms split: prod.split sum.split)

lemma pod_layers_cong:
  assumes "\<And>p w. hops_left (px_headers p) < hops_left (rq_headers req) \<Longrightarrow> send p w = send' p w"
  shows "pod_layers F send i req w = pod_layers F send' i req w"
proof -
  have fwd: "proxy send base req m v w = proxy send' base req m v w"
    if "header_get req m = None" "m \<in> {FORWARD_MARKER, LEADER_FORWARD_MARKER}" for base m v and w :: "'a world"
  proof -
    have "hops_left (forward_headers m v' (rq_headers req)) < hops_left (rq_headers req)" for v'
      using that by (auto simp: hops_left_def forward_keeps_marker header_get_def)
    then show ?thesis by (auto simp: proxy_def proxied_of_def intro!: send_retry_cong assms split: option.split)
  qed
  have led: "require_leader_for_writes cs send k req w = require_leader_for_writes cs send' k req w" for cs k and w :: "'a world"
    by (auto simp: require_leader_for_writes_def fwd split: prod.split option.split bool.split)
  show ?thesis
    by (auto simp: pod_layers_def api_layers_def Let_def route_to_owning_shard_def fwd led split: shard_target.split)
qed

lemma deliver_stable: "hops_left (px_headers p) < n \<Longrightarrow> deliver F (Suc n) p w = deliver F n p w"
proof (induction n arbitrary: p w)
  case (Suc n)
  have "pod_layers F (deliver F (Suc n)) j req w' = pod_layers F (deliver F n) j req w'"
    if "arrived F p = Some req" for j req w'
    by (rule pod_layers_cong, rule Suc.IH) (use that Suc.prems in \<open>auto simp: arrived_def\<close>)
  then show ?case
    by (subst (1 2) deliver.simps) (simp add: Let_def del: deliver.simps split: option.split)
qed simp

lemma serve_stable: "serve F (n + 2) i req w = serve F 2 i req w"
proof (induction n)
  case (Suc n)
  have "serve F (Suc (n + 2)) i req w = serve F (n + 2) i req w"
    unfolding serve_def
    by (rule pod_layers_cong, rule deliver_stable) (auto simp: hops_left_def split: if_splits)
  then show ?case using Suc by simp
qed (simp add: numeral_2_eq_2)

subsection \<open>Where a request is handled\<close>

definition is_write :: "request \<Rightarrow> bool" where
  "is_write req \<longleftrightarrow> \<not> (rq_method req = GET \<or> is_read_only_post req)"

definition same_request :: "request \<Rightarrow> request \<Rightarrow> bool" where
  "same_request q req \<longleftrightarrow> rq_method q = rq_method req \<and> rq_path q = rq_path req \<and> rq_original_path q = rq_original_path req \<and>
    rq_query q = rq_query req \<and> rq_body q = rq_body req \<and> rq_auth q = rq_auth req"

lemma same_request_facts:
  assumes "same_request q req"
  shows "routing_key q = routing_key req" and "admin_local q = admin_local req" and "is_write q = is_write req"
  using assms
  by (simp_all add: same_request_def routing_key_def admin_local_def is_write_def is_read_only_post_def
    cong: if_cong option.case_cong)

text \<open>A request as it enters a pod behind authentication.\<close>

definition entered :: "'h fleet \<Rightarrow> request \<Rightarrow> bool" where
  "entered F req \<longleftrightarrow> rq_original_path req = Some (''/api/v1'' @ rq_path req) \<and> distinct (map fst (rq_headers req)) \<and>
    rq_auth req = fl_who F (header_get req ''authorization'')"

text \<open>A fleet configured as documented: more than one shard, the URL of a shard leads to its pods, the URL of a
  peer to a pod of the same shard; denials are errors and handlers do not redirect.\<close>

definition fleet_ok :: "'h fleet \<Rightarrow> bool" where
  "fleet_ok F \<longleftrightarrow> sr_shards (fl_router F) > 1 \<and>
    (\<forall>s < length (fl_base_urls F). \<forall>w j. fl_pick F (trim_end_matches (\<lambda>c. c = CHR ''/'') (fl_base_urls F ! s)) w = Some j \<longrightarrow> fl_shard_of F j = s) \<and>
    (\<forall>i k base w j. map_of (fl_peer_http F i) k = Some base \<longrightarrow> fl_pick F base w = Some j \<longrightarrow> fl_shard_of F j = fl_shard_of F i) \<and>
    (\<forall>i q w r. fl_denies F i q w = Some r \<longrightarrow> 300 \<le> rs_status r) \<and>
    (\<forall>i q h. rs_status (fst (fl_handler F i q h)) \<noteq> 307)"

definition handled_in :: "'h fleet \<Rightarrow> nat \<Rightarrow> request \<Rightarrow> nat \<times> bool \<times> request \<Rightarrow> bool" where
  "handled_in F s req = (\<lambda>(j, led, q). fl_shard_of F j = s \<and> (is_write req \<longrightarrow> led) \<and> same_request q req)"

text \<open>At most one handler runs, and if none runs the answer is an error.\<close>

definition once :: "(nat \<times> bool \<times> request \<Rightarrow> bool) \<Rightarrow> 'h world \<Rightarrow> json response \<times> 'h world \<Rightarrow> bool" where
  "once P w = (\<lambda>(r, w'). wd_runs w' = wd_runs w \<and> 300 \<le> rs_status r \<or>
    (\<exists>e. wd_runs w' = wd_runs w @ [e] \<and> P e \<and> rs_status r \<noteq> 307))"

definition once_sent :: "(nat \<times> bool \<times> request \<Rightarrow> bool) \<Rightarrow> 'h world \<Rightarrow> (string + json response) \<times> 'h world \<Rightarrow> bool" where
  "once_sent P w = (\<lambda>(x, w'). case x of Inl d \<Rightarrow> wd_runs w' = wd_runs w \<or> (\<exists>e. wd_runs w' = wd_runs w @ [e] \<and> P e) | Inr r \<Rightarrow> once P w (r, w'))"

lemma response_status [simp]:
  "rs_status (status_response n) = n" "rs_status (json_response n b) = n" "rs_status (reqwest_to_axum r) = rs_status r"
  "rs_status (not_leader_307 k) = 307"
  by (simp_all add: status_response_def json_response_def reqwest_to_axum_def not_leader_307_def)

lemma once_error [simp]: "300 \<le> rs_status r \<Longrightarrow> once P w (r, w)"
  by (simp add: once_def)

lemma once_after: "wd_runs w' = wd_runs w \<Longrightarrow> once P w' x \<Longrightarrow> once P w x"
  by (auto simp: once_def)

lemma send_retry_once:
  assumes "\<And>w. once_sent P w (send p w)" and "\<And>r. prev = Some r \<Longrightarrow> 300 \<le> rs_status r"
  shows "once P w (send_retry send n p prev w)"
  using assms(2)
proof (induction n arbitrary: prev w)
  case (Suc n)
  obtain x w' where sent: "send p w = (x, w')" by fastforce
  show ?case
  proof (cases x)
    case (Inl d)
    then show ?thesis using assms(1) [of w] sent by (auto simp: once_sent_def once_def)
  next
    case (Inr r)
    then have one: "once P w (r, w')" using assms(1) [of w] sent by (simp add: once_sent_def)
    then have "rs_status r = 307 \<Longrightarrow> wd_runs w' = wd_runs w" by (auto simp: once_def)
    moreover have "rs_status r = 307 \<Longrightarrow> once P w' (send_retry send n p (Some r) w')" by (rule Suc.IH) simp
    ultimately show ?thesis using one sent Inr by (auto simp: once_def intro: once_after)
  qed
qed (auto split: option.split)

lemma arrived_same:
  assumes "entered F req" and "rq_body req = Some body" and "m \<in> {FORWARD_MARKER, LEADER_FORWARD_MARKER}"
  shows "\<exists>q. arrived F (proxied_of base req m v body) = Some q \<and> entered F q \<and> same_request q req"
proof -
  have path: "request_path req = ''/api/v1'' @ rq_path req" using assms(1) by (simp add: entered_def request_path_def)
  then have strip: "strip_prefix_of ''/api/v1'' (request_path req) = Some (rq_path req)" by (simp only: strip_prefix_of_Some)
  have "m \<noteq> ''authorization''" using assms(3) by (auto simp: FORWARD_MARKER_def LEADER_FORWARD_MARKER_def)
  moreover have "\<not> (is_hop_by_hop ''authorization'' \<or> to_lowercase ''authorization'' = ''host'' \<or> to_lowercase ''authorization'' = ''content-length'')"
    unfolding is_hop_by_hop_def by code_simp
  ultimately have auth: "map_of (forward_headers m x (rq_headers req)) ''authorization'' = header_get req ''authorization''" for x
    using assms(1) by (auto simp: forward_headers_def map_of_kept_headers entered_def header_get_def split: option.split)
  have "distinct (map fst (fold (\<lambda>(n, v) acc. if skip n then acc else alist_put n v acc) hs acc))" if "distinct (map fst acc)"
    for skip hs and acc :: "(string \<times> string) list"
    using that by (induction hs arbitrary: acc) (auto simp: keys_alist_put(2))
  then have "distinct (map fst (forward_headers m x (rq_headers req)))" for x
    by (simp add: forward_headers_def keys_alist_put(2))
  then show ?thesis
    using assms path by (simp add: arrived_def proxied_of_def strip auth entered_def same_request_def header_get_def)
qed

lemma pod_local:
  assumes "fleet_ok F" and "entered F q" and "same_request q req"
    and "admin_local req \<or> fl_shard_of F i = shard_for (fl_router F) (routing_key req)"
    and fwd: "\<And>base k w. map_of (fl_peer_http F i) k = Some base \<Longrightarrow>
      once (handled_in F (fl_shard_of F i) req) w (proxy send base q LEADER_FORWARD_MARKER None w)"
  shows "once (handled_in F (fl_shard_of F i) req) w (pod_layers F send i q w)"
proof -
  have run: "once (handled_in F (fl_shard_of F i) req) w (run_handler F i q w)" if "is_write req \<longrightarrow> fst (fl_coordinator F i w)"
  proof -
    obtain r h where out: "fl_handler F i q (wd_state w) = (r, h)" by fastforce
    then have "rs_status r \<noteq> 307" using assms(1) by (metis fleet_ok_def fst_conv)
    then show ?thesis using that assms(3) out by (simp add: run_handler_def once_def handled_in_def)
  qed
  have sharded: "sr_shards (fl_router F) > 1" using assms(1) by (simp add: fleet_ok_def)
  let ?cs = "\<lparr>cs_coordinator = fl_coordinator F i, cs_peer_http = fl_peer_http F i\<rparr>"
  obtain led who where view: "fl_coordinator F i w = (led, who)" by fastforce
  have "pod_layers F send i q w = require_leader_for_writes ?cs send (run_handler F i) q w"
    using sharded assms(4) same_request_facts [OF assms(3)]
    by (elim disjE) (simp_all add: pod_layers_def api_layers_def route_to_owning_shard_def route_decision_def)
  also have "once (handled_in F (fl_shard_of F i) req) w \<dots>"
  proof (cases "is_write q \<and> \<not> led")
    case True
    then show ?thesis using fwd view by (auto simp: require_leader_for_writes_def is_write_def split: option.split)
  next
    case False
    then have "require_leader_for_writes ?cs send (run_handler F i) q w = run_handler F i q w"
      using view by (auto simp: require_leader_for_writes_def is_write_def)
    then show ?thesis using run False view same_request_facts(3) [OF assms(3)] by simp
  qed
  finally show ?thesis .
qed

lemma deliver_once:
  assumes "fleet_ok F" and "entered F q" and "same_request q req" and "rq_body q = Some body"
    and "m \<in> {FORWARD_MARKER, LEADER_FORWARD_MARKER}" and "\<And>w j. fl_pick F base w = Some j \<Longrightarrow> fl_shard_of F j = s"
    and "admin_local req \<or> s = shard_for (fl_router F) (routing_key req)"
  shows "once_sent (handled_in F s req) w (deliver F n (proxied_of base q m v body) w)"
  using assms
proof (induction n arbitrary: q m v base body w)
  case (Suc n)
  obtain q' where q': "arrived F (proxied_of base q m v body) = Some q'" "entered F q'" "same_request q' q"
    using arrived_same [OF Suc.prems(2,4,5)] by blast
  then have same: "same_request q' req" using Suc.prems(3) by (simp add: same_request_def)
  let ?w = "w\<lparr>wd_calls := wd_calls w + 1\<rparr>"
  have pod: "once (handled_in F s req) ?w (pod_layers F (deliver F n) j q' ?w)" if "fl_pick F base ?w = Some j" for j
  proof -
    have s: "fl_shard_of F j = s" using Suc.prems(6) that by blast
    have "once (handled_in F s req) w' (proxy (deliver F n) base' q' LEADER_FORWARD_MARKER None w')"
      if "map_of (fl_peer_http F j) k = Some base'" for base' k w'
    proof (cases "rq_body q'")
      case (Some b)
      have "once_sent (handled_in F s req) w'' (deliver F n (proxied_of base' q' LEADER_FORWARD_MARKER None b) w'')" for w''
        by (rule Suc.IH [OF Suc.prems(1) q'(2) same Some _ _ Suc.prems(7)])
          (use Suc.prems(1) that s in \<open>auto simp: fleet_ok_def\<close>)
      then show ?thesis using Some by (auto simp: proxy_def intro!: send_retry_once)
    qed (simp add: proxy_def)
    then show ?thesis using pod_local [OF Suc.prems(1) q'(2) same, of j "deliver F n" ?w] Suc.prems(7) s by simp
  qed
  have base: "px_base (proxied_of base q m v body) = base" by (simp add: proxied_of_def)
  show ?case
  proof (cases "fl_pick F base ?w")
    case (Some j)
    obtain r w' where out: "pod_layers F (deliver F n) j q' ?w = (r, w')" by fastforce
    then have "once (handled_in F s req) w (r, w')" using pod [OF Some] once_after [of ?w w] by simp
    moreover have "fl_denies F j q' ?w = Some d \<Longrightarrow> 300 \<le> rs_status d" for d using Suc.prems(1) by (auto simp: fleet_ok_def)
    ultimately show ?thesis using Some base q'(1) out by (auto simp: once_sent_def once_def Let_def split: option.split)
  qed (simp add: base once_sent_def Let_def)
qed (simp add: once_sent_def)

lemma serve_once:
  assumes "fleet_ok F" and "entered F req"
  shows "once (handled_in F (if admin_local req then fl_shard_of F i else shard_for (fl_router F) (routing_key req)) req) w
    (serve F n i req w)"
proof -
  have same: "same_request req req" by (simp add: same_request_def)
  have proxied: "once (handled_in F s req) w (proxy (deliver F n) base req m v w)"
    if "m \<in> {FORWARD_MARKER, LEADER_FORWARD_MARKER}" "\<And>w j. fl_pick F base w = Some j \<Longrightarrow> fl_shard_of F j = s"
      "admin_local req \<or> s = shard_for (fl_router F) (routing_key req)" for s base m v w
  proof (cases "rq_body req")
    case (Some b)
    then show ?thesis using deliver_once [OF assms same Some that] by (auto simp: proxy_def intro!: send_retry_once)
  qed (simp add: proxy_def)
  show ?thesis
  proof (cases "admin_local req \<or> fl_shard_of F i = shard_for (fl_router F) (routing_key req)")
    case True
    have "once (handled_in F (fl_shard_of F i) req) w' (proxy (deliver F n) base req LEADER_FORWARD_MARKER None w')"
      if "map_of (fl_peer_http F i) k = Some base" for base k w'
      by (rule proxied) (use assms(1) that True in \<open>auto simp: fleet_ok_def\<close>)
    then have "once (handled_in F (fl_shard_of F i) req) w (serve F n i req w)"
      unfolding serve_def by (rule pod_local [OF assms same True])
    then show ?thesis using True by (elim disjE) simp_all
  next
    case False
    let ?s = "shard_for (fl_router F) (routing_key req)"
    have "?s < length (fl_base_urls F) \<Longrightarrow> once (handled_in F ?s req) w
        (proxy (deliver F n) (trim_end_matches (\<lambda>c. c = CHR ''/'') (fl_base_urls F ! ?s)) req FORWARD_MARKER (fl_secret F) w)"
      by (rule proxied) (use assms(1) in \<open>auto simp: fleet_ok_def\<close>)
    moreover have "sr_shards (fl_router F) > 1" using assms(1) by (simp add: fleet_ok_def)
    ultimately show ?thesis using False
      by (simp add: serve_def pod_layers_def api_layers_def route_to_owning_shard_def route_decision_def Let_def eq_commute)
  qed
qed

text \<open>The tenant a request is about, read from the request and not from the router: the credential's, which the
  handlers scope every data request to, or the one that a tenant deletion names in its path. Requests of a
  credential without tenant and the other admin requests are about none.\<close>

definition about_tenant :: "request \<Rightarrow> string \<Rightarrow> bool" where
  "about_tenant req t \<longleftrightarrow>
    \<not> sublist ''/admin/'' (rq_path req) \<and> (\<exists>ctx. rq_auth req = Some ctx \<and> ac_tenant_id ctx = Some t) \<or>
    rq_method req = DELETE \<and> rq_path req = ''/admin/tenants/'' @ t \<and> t \<noteq> [] \<and> CHR ''/'' \<notin> set t \<and> CHR ''%'' \<notin> set t"

lemma after_first_sublist: "after_first pat s \<noteq> None \<Longrightarrow> sublist pat s"
proof (induction s)
  case (Cons c s)
  then show ?case by (auto simp: strip_prefix_of_Some sublist_Cons_right prefix_def split: option.splits)
qed (auto simp: strip_prefix_of_Some)

lemma routing_key_tenant:
  assumes "about_tenant req t"
  shows "routing_key req = t \<and> \<not> admin_local req"
proof -
  have pre: "sublist ''/admin/'' s" if "sublist ''/admin/tenants/'' s" for s
    using that by (auto simp: sublist_def)
  consider (own) ctx where "\<not> sublist ''/admin/'' (rq_path req)" "rq_auth req = Some ctx" "ac_tenant_id ctx = Some t"
    | (deletion) "rq_method req = DELETE" "rq_path req = ''/admin/tenants/'' @ t" "t \<noteq> []" "CHR ''/'' \<notin> set t"
    using assms unfolding about_tenant_def by blast
  then show ?thesis
  proof cases
    case own
    then have "after_first ''/admin/tenants/'' (rq_path req) = None" using after_first_sublist pre by blast
    then show ?thesis using own by (simp add: routing_key_def admin_local_def)
  next
    case deletion
    have "after_first ''/admin/tenants/'' (rq_path req) = Some t" unfolding deletion(2) by (simp add: strip_prefix_of_Some)
    moreover have whole: "takeWhile (\<lambda>c. c \<noteq> CHR ''/'') t = t" using deletion(4) by (simp add: takeWhile_eq_all_conv) metis
    moreover have "sublist ''/admin/tenants/'' (rq_path req)" unfolding deletion(2) by (simp add: sublist_appendI)
    ultimately show ?thesis using deletion(1,3) unfolding routing_key_def admin_local_def Let_def by (simp only: option.case whole) simp
  qed
qed

text \<open>C32: In a fleet configured as documented, take a request about tenant \<open>t\<close>: a request of a credential of
  \<open>t\<close> outside the admin paths, or the deletion of tenant \<open>t\<close> (by a name that needs no percent-encoding).
  Whatever pod it enters and whatever the load balancers, elections, denials and lost answers do on its
  way: forwarding ends after at most two hops; at most one handler runs, in a pod of the shard that the
  router assigns to \<open>t\<close>, on the same method, path, query, body and identity; a write is handled only by a
  pod that is the leader of its shard at that moment; and an answer below 300 is given only if the handler
  ran. Requests of a credential without tenant are left out: they are routed as tenant default whatever
  tenant their header or body names; the admin paths are served where they enter.\<close>

theorem request_routed:
  assumes "fleet_ok F" and "entered F req" and "about_tenant req t"
  shows "serve F (n + 2) i req w = serve F 2 i req w \<and>
    (case serve F n i req w of (resp, w') \<Rightarrow>
      wd_runs w' = wd_runs w \<and> 300 \<le> rs_status resp \<or>
      (\<exists>j led q. wd_runs w' = wd_runs w @ [(j, led, q)] \<and> fl_shard_of F j = shard_for (fl_router F) t \<and>
        (is_write req \<longrightarrow> led) \<and> same_request q req \<and> rs_status resp \<noteq> 307))"
  using serve_stable [of F n i req w] serve_once [OF assms(1,2), of i w n] routing_key_tenant [OF assms(3)]
  by (auto simp: once_def handled_in_def)

text \<open>Two shards; pod 1 is a follower and pod 2 the leader of shard 1.\<close>

definition demo_fleet :: "nat fleet" where
  "demo_fleet = \<lparr>fl_router = router_new 2 1, fl_base_urls = [''http://s0'', ''http://s1/''], fl_secret = Some ''k'',
    fl_shard_of = (\<lambda>i. if i = 0 then 0 else 1), fl_coordinator = (\<lambda>i w. (i \<noteq> 1, Some (if i = 0 then 0 else 2))),
    fl_peer_http = (\<lambda>i. if i = 0 then [] else [(2, ''http://p2'')]),
    fl_pick = (\<lambda>base w. if base = ''http://s0'' then Some 0 else if base = ''http://s1'' then Some 1
      else if base = ''http://p2'' then Some 2 else None),
    fl_denies = (\<lambda>i q w. None), fl_lost = (\<lambda>i q w. False),
    fl_who = (\<lambda>token. Some \<lparr>ac_identity = ''u'', ac_role = Writer, ac_agent_id = None, ac_tenant_id = Some ''acme''\<rparr>),
    fl_handler = (\<lambda>i q h. (status_response 200, h + 1))\<rparr>"

definition demo_write :: request where
  "demo_write = \<lparr>rq_method = POST, rq_path = ''/memories'', rq_original_path = Some ''/api/v1/memories'', rq_query = None,
    rq_headers = [(''authorization'', ''Bearer t'')], rq_body = Some ''{}'',
    rq_auth = Some \<lparr>ac_identity = ''u'', ac_role = Writer, ac_agent_id = None, ac_tenant_id = Some ''acme''\<rparr>,
    rq_tenant_header = None, rq_rate_limit = None\<rparr>"

definition demo_world :: "nat world" where
  "demo_world = \<lparr>wd_calls = 0, wd_runs = [], wd_state = 0\<rparr>"

lemma demo_fleet_ok: "fleet_ok demo_fleet"
proof -
  have "sr_shards (router_new 2 1) > 1" by (simp add: router_new_def)
  moreover have "trim_end_matches (\<lambda>c. c = CHR ''/'') ''http://s0'' = ''http://s0''"
    "trim_end_matches (\<lambda>c. c = CHR ''/'') ''http://s1/'' = ''http://s1''" by code_simp+
  ultimately show ?thesis
    by (auto simp: fleet_ok_def demo_fleet_def less_2_cases_iff less_Suc_eq split: if_splits)
qed

theorem request_routed_witness:
  "rs_status (fst (serve demo_fleet 2 0 demo_write demo_world)) = 200 \<and>
   (\<exists>j q. wd_runs (snd (serve demo_fleet 2 0 demo_write demo_world)) = [(j, True, q)] \<and> j \<noteq> 0 \<and> same_request q demo_write)"
proof -
  have "entered demo_fleet demo_write" by (simp add: entered_def demo_fleet_def demo_write_def)
  moreover have "about_tenant demo_write ''acme''" by (simp add: about_tenant_def demo_write_def sublist_Cons_right)
  ultimately have routed: "serve demo_fleet (n + 2) i demo_write w = serve demo_fleet 2 i demo_write w \<and>
    (case serve demo_fleet n i demo_write w of (resp, w') \<Rightarrow>
      wd_runs w' = wd_runs w \<and> 300 \<le> rs_status resp \<or>
      (\<exists>j led q. wd_runs w' = wd_runs w @ [(j, led, q)] \<and> fl_shard_of demo_fleet j = shard_for (fl_router demo_fleet) ''acme'' \<and>
        (is_write demo_write \<longrightarrow> led) \<and> same_request q demo_write \<and> rs_status resp \<noteq> 307))" for n i w
    by (intro request_routed [OF demo_fleet_ok])
  have "rs_status (fst (serve demo_fleet 2 0 demo_write demo_world)) = 200" by code_simp
  moreover have "is_write demo_write" by code_simp
  moreover have "shard_for (fl_router demo_fleet) ''acme'' = 1" by code_simp
  moreover have "fl_shard_of demo_fleet j = 1 \<Longrightarrow> j \<noteq> 0" for j by (auto simp: demo_fleet_def split: if_splits)
  moreover have "wd_runs demo_world = []" by (simp add: demo_world_def)
  ultimately show ?thesis using routed [of 2 0 demo_world] by (auto split: prod.splits)
qed

end
