(* ===== verification/Memory_Tenancy.thy ===== *)
theory Memory_Tenancy
  imports Memory_Maintenance Memory_Batch
begin

text \<open>
  Which tenant's memories the operations of the engine can change. An assignment \<open>S\<close> gives every
  identifier its scope; an engine is placed by \<open>S\<close> when the stored memories and the partitions of the
  vector index agree with it. An operation that writes only rows placed in a tenant leaves the memories
  of all other tenants as they are, and the engine placed. The lemmas are used for the request handlers
  of the gateway.
\<close>

definition of_tenant :: "string \<Rightarrow> memory \<Rightarrow> bool" where
  "of_tenant t m \<longleftrightarrow> sc_tenant_id (m_scope m) = t"

definition placed :: "(uuid \<Rightarrow> memory_scope) \<Rightarrow> engine \<Rightarrow> bool" where
  "placed S en \<longleftrightarrow> ms_inv (en_store en) \<and> sv_inv (en_vec en) \<and> (\<forall>m \<in> mems (en_store en). m_scope m = S (m_id m)) \<and>
    (\<forall>u key. map_of (sv_id_partition (en_vec en)) u = Some key \<longrightarrow> key = scope_partition_key (S u))"

text \<open>No tenant contains the separator of partition keys, and none is empty.\<close>

definition clean :: "(uuid \<Rightarrow> memory_scope) \<Rightarrow> bool" where
  "clean S \<longleftrightarrow> (\<forall>u. CHR 0x1F \<notin> set (sc_tenant_id (S u)) \<and> sc_tenant_id (S u) \<noteq> [])"

definition row_in :: "(uuid \<Rightarrow> memory_scope) \<Rightarrow> string \<Rightarrow> memory_row \<Rightarrow> bool" where
  "row_in S t r \<longleftrightarrow> m_scope (mr_memory r) = S (row_id r) \<and> sc_tenant_id (S (row_id r)) = t"

definition stays :: "(uuid \<Rightarrow> memory_scope) \<Rightarrow> string \<Rightarrow> engine \<Rightarrow> engine \<Rightarrow> bool" where
  "stays S t en en' \<longleftrightarrow> placed S en' \<and> outside (of_tenant t) (en_store en') = outside (of_tenant t) (en_store en)"

lemma stays_refl: "placed S en \<Longrightarrow> stays S t en en"
  by (simp add: stays_def)

lemma stays_trans: "stays S t en en1 \<Longrightarrow> stays S t en1 en2 \<Longrightarrow> stays S t en en2"
  by (simp add: stays_def)

lemma stays_placed: "stays S t en en' \<Longrightarrow> placed S en'"
  by (simp add: stays_def)

subsection \<open>Changing, adding and removing rows\<close>

text \<open>What a step may do: memories of the tenant come, go and change; the vector index loses entries or gains
  placed ones.\<close>

lemma staysI:
  assumes "placed S en" and "ms_inv (en_store en')" and "sv_inv (en_vec en')"
    and new: "\<And>m. m \<in> mems (en_store en') \<Longrightarrow> m \<notin> mems (en_store en) \<Longrightarrow> m_scope m = S (m_id m) \<and> of_tenant t m"
    and gone: "\<And>m. m \<in> mems (en_store en) \<Longrightarrow> m \<notin> mems (en_store en') \<Longrightarrow> of_tenant t m"
    and vec: "\<And>u key. map_of (sv_id_partition (en_vec en')) u = Some key \<Longrightarrow>
      map_of (sv_id_partition (en_vec en)) u = Some key \<or> key = scope_partition_key (S u)"
  shows "stays S t en en'"
proof -
  have "m_scope m = S (m_id m)" if "m \<in> mems (en_store en')" for m
    using assms(1) new [OF that] by (auto simp: placed_def)
  moreover have "key = scope_partition_key (S u)" if "map_of (sv_id_partition (en_vec en')) u = Some key" for u key
    using assms(1) vec [OF that] by (auto simp: placed_def)
  moreover have "m \<in> outside (of_tenant t) (en_store en') \<longleftrightarrow> m \<in> outside (of_tenant t) (en_store en)" for m
    using new [of m] gone [of m] by (auto simp: outside_def)
  ultimately show ?thesis using assms(2,3) by (auto simp: stays_def placed_def)
qed

lemma placed_in_tenant: "placed S en \<Longrightarrow> m \<in> mems (en_store en) \<Longrightarrow> of_tenant t m \<longleftrightarrow> sc_tenant_id (S (m_id m)) = t"
  by (simp add: placed_def of_tenant_def)

lemma put_row_stays:
  assumes "placed S en" and "row_in S t r" and "ms_inv (en_store en')"
    and "mems (en_store en') = insert (mr_memory r) {x \<in> mems (en_store en). m_id x \<noteq> row_id r}"
    and "en_vec en' = en_vec en \<or> en_vec en' = sva.index_row r (en_vec en)"
  shows "stays S t en en'"
proof (rule staysI [OF assms(1,3)])
  show "sv_inv (en_vec en')" using assms(1,5) by (auto simp: placed_def sva.index_row_def sva.inv_index sva.inv_forget)
  show "m_scope m = S (m_id m) \<and> of_tenant t m" if "m \<in> mems (en_store en')" "m \<notin> mems (en_store en)" for m
    using that assms(2,4) by (auto simp: row_in_def of_tenant_def)
  show "of_tenant t m" if "m \<in> mems (en_store en)" "m \<notin> mems (en_store en')" for m
    using that assms(2,4) placed_in_tenant [OF assms(1) that(1)] by (auto simp: row_in_def)
  show "map_of (sv_id_partition (en_vec en)) u = Some key \<or> key = scope_partition_key (S u)"
    if "map_of (sv_id_partition (en_vec en')) u = Some key" for u key
    using that assms(2,5) index_row_partition [of r "en_vec en" u key] by (auto simp: row_in_def)
qed

lemma apply_rows_stay:
  assumes "placed S en" and "\<And>r. r \<in> set rows \<Longrightarrow> row_in S t r"
  shows "stays S t en (fold (apply_row P cfg) rows en)"
  using assms
proof (induction rows arbitrary: en)
  case (Cons r rows)
  have inv: "ms_inv (en_store en)" using Cons.prems(1) by (simp add: placed_def)
  have one: "stays S t en (apply_row P cfg r en)"
    by (rule put_row_stays [OF Cons.prems(1), of t r])
      (use Cons.prems(2) inv ms_inv_fold_apply [OF inv, of P cfg "[r]"] in \<open>auto simp: mems_apply_row apply_row_vec\<close>)
  have "stays S t (apply_row P cfg r en) (fold (apply_row P cfg) rows (apply_row P cfg r en))"
    using Cons.IH [OF stays_placed [OF one]] Cons.prems(2) by simp
  from stays_trans [OF one this] show ?case by simp
qed (simp add: stays_refl)

lemma upsert_raw_stays:
  assumes "placed S en" and "m_scope m = S (m_id m)" and "sc_tenant_id (S (m_id m)) = t"
  shows "stays S t en (publish_memory_change m (en\<lparr>en_store := ms_upsert_raw m e (en_store en)\<rparr>))"
proof -
  let ?r = "\<lparr>mr_memory = m, mr_embedding = e\<rparr>"
  have inv: "ms_inv (en_store en)" using assms(1) by (simp add: placed_def)
  show ?thesis
    by (rule put_row_stays [OF assms(1), of t ?r])
      (use assms(2,3) mems_put_row [OF inv, of ?r] inv in \<open>simp_all add: row_in_def ms_put_row_def ms_inv_upsert_raw\<close>)
qed

lemma removal_stays:
  assumes "placed S en" and "ms_inv (en_store en')" and "mems (en_store en') \<subseteq> mems (en_store en)"
    and "\<And>m. m \<in> mems (en_store en) \<Longrightarrow> m \<notin> mems (en_store en') \<Longrightarrow> of_tenant t m"
    and "en_vec en' = fold sv_delete us (en_vec en)"
  shows "stays S t en en'"
proof (rule staysI [OF assms(1,2)])
  have "sv_inv (fold sv_delete us v)" if "sv_inv v" for v
    using that by (induction us arbitrary: v) (auto simp: sv_inv_delete)
  then show "sv_inv (en_vec en')" using assms(1,5) by (simp add: placed_def)
qed (use assms(3,4,5) in \<open>auto dest: forget_partition\<close>)

subsection \<open>Planned writes\<close>

lemma tenant_of_key:
  assumes "scope_partition_key a = scope_partition_key b"
    and "CHR 0x1F \<notin> set (sc_tenant_id a)" "CHR 0x1F \<notin> set (sc_tenant_id b)" "sc_tenant_id a \<noteq> []" "sc_tenant_id b \<noteq> []"
  shows "sc_tenant_id a = sc_tenant_id b"
  using assms by (simp add: scope_partition_key_def sep_append_inj)

lemma index_hits_in:
  assumes "placed S en" and "clean S" and "memory_index_search P v scope k en = Inr hits" and "h \<in> set hits"
    and "CHR 0x1F \<notin> set (sc_tenant_id scope)" "sc_tenant_id scope \<noteq> []"
  shows "h_memory h \<in> mems (en_store en)" and "m_scope (h_memory h) = S (m_id (h_memory h))"
    and "sc_tenant_id (S (m_id (h_memory h))) = sc_tenant_id scope"
proof -
  have inv: "ms_inv (en_store en)" "sv_inv (en_vec en)" using assms(1) by (auto simp: placed_def)
  obtain rs where rs: "sv_search (pt_knn P) (scope_partition_key scope) v k (en_vec en) = Inr rs"
    using assms(3) by (auto simp: memory_index_search_def res_bind_Inr_iff)
  then obtain r where r: "r \<in> set rs" "(case ms_get (em_id (sr_entry r)) (en_store en) of
      None \<Rightarrow> None | Some m \<Rightarrow> if m_state m = Active
        then Some \<lparr>h_memory = m, h_score = sr_score r, h_similarity = Some (sr_score r), h_lexical = None\<rparr> else None) = Some h"
    using assms(3,4) by (auto simp: memory_index_search_def)
  then obtain m where m: "ms_get (em_id (sr_entry r)) (en_store en) = Some m" "h_memory h = m"
    by (cases "ms_get (em_id (sr_entry r)) (en_store en)") (auto split: if_splits)
  have key: "map_of (sv_id_partition (en_vec en)) (m_id m) = Some (scope_partition_key scope)" and st: "m \<in> mems (en_store en)"
    using sv_search_ids [OF inv(2) rs r(1)] ms_get_in [OF m(1)] by auto
  then have "scope_partition_key (S (m_id m)) = scope_partition_key scope" using assms(1) by (auto simp: placed_def)
  then have "sc_tenant_id (S (m_id m)) = sc_tenant_id scope"
    by (rule tenant_of_key) (use assms(2,5,6) in \<open>auto simp: clean_def\<close>)
  then show "h_memory h \<in> mems (en_store en)" "m_scope (h_memory h) = S (m_id (h_memory h))"
    "sc_tenant_id (S (m_id (h_memory h))) = sc_tenant_id scope"
    using st m(2) assms(1) by (auto simp: placed_def)
qed

text \<open>An input for a tenant, under the identifier it may get.\<close>

definition input_in :: "(uuid \<Rightarrow> memory_scope) \<Rightarrow> string \<Rightarrow> tick \<Rightarrow> memory_input \<Rightarrow> bool" where
  "input_in S t tk i \<longleftrightarrow> S (tk_id tk) = i_scope (canonical_input i) \<and> sc_tenant_id (S (tk_id tk)) = t"

lemma planned_in:
  assumes plan: "memory_plan_with_embedding P cfg tk input emb en = Inr (res, rows)"
    and en: "placed S en" "clean S" and i: "input_in S t tk input"
  shows "(\<forall>r \<in> set rows. row_in S t r) \<and> of_tenant t (ma_memory res)"
proof -
  let ?i = "canonical_input input"
  have scope: "i_scope ?i = S (tk_id tk)" "sc_tenant_id (S (tk_id tk)) = t" using i by (auto simp: input_in_def)
  have t: "CHR 0x1F \<notin> set (sc_tenant_id (i_scope ?i))" "sc_tenant_id (i_scope ?i) \<noteq> []"
    using en(2) scope(1) by (simp_all add: clean_def)
  have norm: "norm_scope (S (tk_id tk)) = S (tk_id tk)" using norm_canonical [of input] scope(1) by simp
  have active: "m_scope m = S (m_id m)" "sc_tenant_id (S (m_id m)) = t"
    if "m \<in> set (find_active_by_subject (i_scope ?i) s (i_project ?i) (en_store en))" for m s
    using that en(1) norm scope by (auto simp: in_find_active placed_def)
  show ?thesis
    using plan refl refl
  proof (cases rule: plan_cases)
    case inserted
    from inserted(1) show ?thesis by (rule plan_inserted_rows) (simp add: row_in_def of_tenant_def scope)
  next
    case (confirmed s existing rest)
    then have "m_scope existing = S (m_id existing)" "sc_tenant_id (S (m_id existing)) = t" using active [of existing s] by simp_all
    with confirmed(4) show ?thesis by (elim plan_confirmed_rows) (simp add: row_in_def of_tenant_def scope)
  next
    case (conflict s existing rest)
    from conflict(5) show ?thesis by (rule plan_conflict_rows) (simp add: row_in_def of_tenant_def scope)
  next
    case (superseded s existing rest)
    then have "m_scope m = S (m_id m)" "sc_tenant_id (S (m_id m)) = t" if "m \<in> set (existing # rest)" for m
      using active [of m s] that by simp_all
    with superseded(5) show ?thesis by (elim plan_superseded_rows) (auto simp: row_in_def of_tenant_def scope)
  next
    case (merged e hit hits)
    note h = index_hits_in [OF en merged(3) list.set_intros(1) t]
    from merged(5) show ?thesis using h(2,3) by (elim plan_merged_rows) (auto simp: row_in_def of_tenant_def scope)
  qed
qed

lemma enforce_cap_stays:
  assumes "placed S en" and "sc_tenant_id scope = t" "t \<noteq> []"
  shows "stays S t en (enforce_cap scope cap en)"
proof -
  have inv: "ms_inv (en_store en)" using assms(1) by (simp add: placed_def)
  have gone: "of_tenant t m" if "m \<in> mems (en_store en)" "m \<notin> mems (snd (enforce_scope_cap scope cap (en_store en)))" for m
  proof -
    let ?ids = "map m_id (order_by_desc m_importance (order_by_desc m_updated_at
      (ms_select (\<lambda>m. scope_where scope m \<and> m_state m = Active) (en_store en))))"
    have keep: "m \<in> mems (fold ms_delete us st)" if "m \<in> mems st" "m_id m \<notin> set us" for us st
      using that by (induction us arbitrary: st) (auto simp: ms_delete_def mems_def)
    have "m_id m \<in> set (drop cap ?ids)"
      using that keep [of "en_store en" "drop cap ?ids"] by (auto simp: enforce_scope_cap_def Let_def split: if_splits)
    then have "m_id m \<in> set ?ids" by (rule in_set_dropD)
    then obtain m' where "m' \<in> mems (en_store en)" "m_id m' = m_id m" "m_scope m' = norm_scope scope"
      by (auto simp: scope_where_iff)
    moreover from this have "m' = m" using ms_inv_inj [OF inv] that(1) by blast
    ultimately show ?thesis using assms(2,3) by (simp add: of_tenant_def norm_scope_def)
  qed
  have "stays S t en (fold forget_indexes us (en\<lparr>en_store := st\<rparr>))" if "enforce_scope_cap scope cap (en_store en) = (us, st)" for us st
    by (rule removal_stays [OF assms(1), of _ _ us])
      (use that gone ms_inv_enforce_scope_cap [OF inv, of scope cap] mems_fold_delete in
        \<open>auto simp: enforce_scope_cap_def Let_def split: if_splits\<close>)
  then show ?thesis using assms(1) by (auto simp: enforce_cap_def stays_refl split: prod.split)
qed

lemma memory_add_stays:
  assumes "memory_add P cfg tk input en = Inr (res, en')" and "placed S en" "clean S" and "input_in S t tk input"
  shows "stays S t en en'" and "of_tenant t (ma_memory res)"
proof -
  obtain rows where rows: "memory_plan_with_embedding P cfg tk input (pt_embed P (i_content input)) en = Inr (res, rows)"
    and en': "en' = enforce_cap (m_scope (ma_memory res)) (cg_max_memories_per_scope cfg) (fold (apply_row P cfg) rows en)"
    using assms(1) by (rule memory_addE)
  note p = planned_in [OF rows assms(2-4)]
  then show "of_tenant t (ma_memory res)" by simp
  have "stays S t en (fold (apply_row P cfg) rows en)" using apply_rows_stay [OF assms(2)] p by blast
  moreover have "t \<noteq> []" using assms(3,4) by (auto simp: clean_def input_in_def)
  ultimately show "stays S t en en'"
    unfolding en' using enforce_cap_stays p stays_placed stays_trans unfolding of_tenant_def by meson
qed

subsection \<open>Bulk writes\<close>

lemma apply_batch_stays:
  assumes "placed S en" and "\<And>r. r \<in> set rows \<Longrightarrow> row_in S t r" and "memory_apply_rows_batch rows en = Inr (n, en')"
  shows "stays S t en en'"
proof -
  have inv: "ms_inv (en_store en)" using assms(1) by (simp add: placed_def)
  have st: "en_store en' = fold ms_put_row rows (en_store en)" using apply_rows_batch_store [OF assms(3) inv] .
  have vec: "en_vec en' = fold sva.index_row rows (en_vec en)"
    using assms(3) by (cases "rows = []") (auto simp: memory_apply_rows_batch_def Let_def fold_batch_index res_bind_Inr_iff)
  have "stays S t en \<lparr>en_store = fold ms_put_row rows (en_store en), en_lex = en_lex en, en_vec = fold sva.index_row rows (en_vec en),
      en_changes = en_changes en\<rparr>"
    using assms(1,2)
  proof (induction rows arbitrary: en)
    case Nil
    then show ?case by (simp add: stays_def placed_def)
  next
    case (Cons r rows)
    let ?en = "\<lparr>en_store = ms_put_row r (en_store en), en_lex = en_lex en, en_vec = sva.index_row r (en_vec en), en_changes = en_changes en\<rparr>"
    have inv: "ms_inv (en_store en)" using Cons.prems(1) by (simp add: placed_def)
    have one: "stays S t en ?en"
      by (rule put_row_stays [OF Cons.prems(1), of t r]) (use Cons.prems(2) mems_put_row [OF inv, of r] inv in auto)
    then show ?case using stays_trans [OF one Cons.IH [OF stays_placed [OF one]]] Cons.prems(2) by simp
  qed
  then show ?thesis by (simp add: stays_def placed_def st vec)
qed

definition batch_in :: "(uuid \<Rightarrow> memory_scope) \<Rightarrow> string \<Rightarrow> engine \<Rightarrow> batch_state \<Rightarrow> bool" where
  "batch_in S t en b \<longleftrightarrow> stays S t en (b_engine b) \<and> (\<forall>r \<in> set (b_pending b). row_in S t r) \<and>
    (\<forall>a \<in> set (b_adds b). of_tenant t (ma_memory a))"

lemma batch_step_in:
  assumes "batch_in S t en b" and "clean S" and "input_in S t tk input" and "batch_step P cfg (tk, input, emb) b = Inr b'"
  shows "batch_in S t en b'"
proof -
  obtain b1 where b1: "batch_flush (batch_key input) b = Inr b1"
    using assms(4) by (auto simp: batch_step_def Let_def res_bind_Inr_iff)
  have "stays S t en en1" if "memory_apply_rows_batch (b_pending b) (b_engine b) = Inr (n, en1)" for n en1
    using apply_batch_stays [OF _ _ that, of S t] assms(1) by (auto simp: batch_in_def intro: stays_trans stays_placed)
  then have in1: "batch_in S t en b1"
    using b1 assms(1) by (auto simp: batch_flush_def batch_in_def res_bind_Inr_iff split: option.splits if_splits)
  obtain res rows where plan: "memory_plan_with_embedding P cfg tk input emb (b_engine b1) = Inr (res, rows)"
    and b': "b_engine b' = b_engine b1" "b_pending b' = b_pending b1 @ rows" "b_adds b' = b_adds b1 @ [res]"
    using assms(4) b1 by (auto simp: batch_step_def Let_def res_bind_Inr_iff)
  have "placed S (b_engine b1)" using in1 by (auto simp: batch_in_def intro: stays_placed)
  from planned_in [OF plan this assms(2,3)] show ?thesis using in1 b' by (auto simp: batch_in_def)
qed

lemma batch_loop_in:
  assumes "batch_in S t en b" and "clean S" and "\<And>tk i e. (tk, i, e) \<in> set xs \<Longrightarrow> input_in S t tk i" and "batch_loop P cfg xs b = Inr b'"
  shows "batch_in S t en b'"
  using assms
proof (induction xs arbitrary: b)
  case (Cons x xs)
  obtain tk i e where x: "x = (tk, i, e)" by (cases x) auto
  obtain b1 where b1: "batch_step P cfg x b = Inr b1" "batch_loop P cfg xs b1 = Inr b'"
    using Cons.prems(4) by (auto simp: res_bind_Inr_iff)
  have "batch_in S t en b1" by (rule batch_step_in [OF Cons.prems(1,2) Cons.prems(3) [of tk i e] b1(1) [unfolded x]]) (simp add: x)
  then show ?case using Cons.IH Cons.prems(2,3) b1(2) by auto
qed simp

lemma add_batch_stays:
  assumes "memory_add_batch P cfg tks inputs en = Inr (added, en')" and "placed S en" "clean S"
    and "\<And>tk i. (tk, i) \<in> set (zip tks inputs) \<Longrightarrow> input_in S t tk i"
  shows "stays S t en en'" and "\<forall>a \<in> set added. of_tenant t (ma_memory a)"
proof -
  have pairs: "(tk, i) \<in> set (zip ts is)" if "(tk, i, e) \<in> set (zip ts (zip is es))" for tk i e ts "is" and es :: "embedding option list"
    using that by (auto simp: in_set_zip)
  have "stays S t en en' \<and> (\<forall>a \<in> set added. of_tenant t (ma_memory a))"
  proof (cases "inputs = []")
    case False
    let ?b = "\<lparr>b_adds = [], b_pending = [], b_subjects = {}, b_engine = en\<rparr>"
    obtain b n where b: "batch_loop P cfg (zip tks (zip inputs (batch_embeddings P cfg inputs))) ?b = Inr b"
      "memory_apply_rows_batch (b_pending b) (b_engine b) = Inr (n, en')" "added = b_adds b"
      using assms(1) False by (auto simp: memory_add_batch_def res_bind_Inr_iff)
    have "batch_in S t en b"
      by (rule batch_loop_in [OF _ assms(3) assms(4) [OF pairs] b(1)]) (use assms(2) in \<open>auto simp: batch_in_def stays_refl\<close>)
    then show ?thesis using apply_batch_stays [OF _ _ b(2), of S t] b(3) by (auto simp: batch_in_def intro: stays_trans stays_placed)
  qed (use assms(1,2) in \<open>simp add: memory_add_batch_def stays_refl\<close>)
  then show "stays S t en en'" "\<forall>a \<in> set added. of_tenant t (ma_memory a)" by simp_all
qed

text \<open>Expiring the sections of a document, or of the documents of a project.\<close>

lemma expired_row_in: "placed S en \<Longrightarrow> m \<in> mems (en_store en) \<Longrightarrow> of_tenant t m \<Longrightarrow> row_in S t (expired_row now m)"
  by (simp add: row_in_def expired_row_def placed_def of_tenant_def)

lemma document_ingest_stays:
  assumes "document_ingest P cfg tks now doc scope opts en = Inr (res, en')" and "placed S en" "clean S"
    and "sc_tenant_id scope = t" "t \<noteq> []" and "\<And>tk i. (tk, i) \<in> set (zip tks (document_inputs doc scope opts)) \<Longrightarrow> input_in S t tk i"
  shows "stays S t en en'"
proof -
  let ?stale = "map (expired_row now) (stale_sections doc scope opts (en_store en))"
  obtain added en1 where add: "memory_add_batch P cfg tks (document_inputs doc scope opts) en = Inr (added, en1)"
    and rest: "?stale = [] \<and> en' = en1 \<or> (\<exists>n. memory_apply_rows_batch ?stale en1 = Inr (n, en'))"
    using assms(1) by (auto simp: document_ingest_def Let_def res_bind_Inr_iff split: if_splits)
  have one: "stays S t en en1" by (rule add_batch_stays(1) [OF add assms(2,3,6)])
  have "row_in S t r" if "r \<in> set ?stale" for r
    using that assms(2,4,5) expired_row_in [OF assms(2)]
    by (auto simp: stale_sections_def Let_def find_active_by_document_def scope_where_iff of_tenant_def norm_scope_def)
  then show ?thesis using rest one apply_batch_stays [OF stays_placed [OF one], of ?stale t _ en'] stays_trans [OF one] by blast
qed

lemma document_prune_stays:
  assumes "document_prune now scope project keep en = Inr (n, en')" and "placed S en" and "sc_tenant_id scope = t" "t \<noteq> []"
  shows "stays S t en en'"
proof -
  let ?stale = "map (expired_row now)
      (filter (\<lambda>m. case m_subject m of Some s \<Rightarrow> document_of s \<notin> normalize_subject ` set keep | None \<Rightarrow> False)
        (list_project_chunks scope project (en_store en)))"
  have "row_in S t r" if "r \<in> set ?stale" for r
    using that assms(2,3,4) expired_row_in [OF assms(2)]
    by (auto simp: list_project_chunks_def scope_where_iff of_tenant_def norm_scope_def)
  then show ?thesis using assms(1,2) apply_batch_stays [OF assms(2), of ?stale t _ en']
    by (auto simp: document_prune_def Let_def res_bind_Inr_iff stays_refl split: if_splits)
qed

subsection \<open>One memory at a time\<close>

lemma get_for_in: "placed S en \<Longrightarrow> get_for u (Some t) en = Some m \<Longrightarrow> m \<in> mems (en_store en) \<and> m_id m = u \<and> of_tenant t m"
  by (auto simp: get_for_def placed_def get_scoped_iff of_tenant_def)

lemma update_plan_in:
  assumes "memory_update_plan re now u patch (Some t) en = Some (m, rows)" and "placed S en"
  shows "(\<forall>r \<in> set rows. row_in S t r) \<and> of_tenant t m"
proof -
  obtain m0 where m0: "get_for u (Some t) en = Some m0" using assms(1) by (auto simp: memory_update_plan_def split: option.splits)
  then have "m_scope m0 = S (m_id m0)" "sc_tenant_id (m_scope m0) = t" using get_for_in [OF assms(2) m0] assms(2)
    by (auto simp: placed_def of_tenant_def)
  moreover from assms(1) m0 have "m_scope m = m_scope m0" "m_id m = m_id m0" "\<forall>r \<in> set rows. mr_memory r = m"
    by (auto simp: memory_update_plan_def Let_def split: if_splits)
  ultimately show ?thesis by (auto simp: row_in_def of_tenant_def)
qed

lemma resolve_plan_in:
  assumes "memory_resolve_plan now scope subject keep_id en = Inr rows" and "placed S en" and "sc_tenant_id scope = t" "t \<noteq> []"
  shows "\<forall>r \<in> set rows. row_in S t r"
  using assms
  by (auto simp: memory_resolve_plan_def Let_def loser_row_def row_in_def in_find_active placed_def norm_scope_def split: if_splits)

lemma delete_scoped_stays:
  assumes "placed S en" shows "stays S t en (snd (memory_delete_scoped u t en))"
proof -
  obtain b st where del: "delete_scoped u t (en_store en) = (b, st)" by fastforce
  have st: "mems st = {m \<in> mems (en_store en). \<not> (m_id m = u \<and> sc_tenant_id (m_scope m) = t)}"
    using del by (auto simp: delete_scoped_def Let_def mems_def tbl_delete_def)
  have inv: "ms_inv st" using assms del ms_inv_delete_by(1) [of "en_store en" u t] by (simp add: placed_def)
  have "stays S t en (fold forget_indexes (if b then [u] else []) (en\<lparr>en_store := st\<rparr>))"
    by (rule removal_stays [OF assms, of _ _ "if b then [u] else []"]) (use inv st in \<open>auto simp: of_tenant_def\<close>)
  then show ?thesis by (cases b) (simp_all add: memory_delete_scoped_def del Let_def)
qed

lemma mems_set_memory: "mems (set_memory Q f st) = (\<lambda>m. if Q m then f m else m) ` mems st"
proof -
  have eq: "mr_memory (if Q (mr_memory r) then r\<lparr>mr_memory := f (mr_memory r)\<rparr> else r) = (if Q (mr_memory r) then f (mr_memory r) else mr_memory r)"
    for r :: memory_row by simp
  show ?thesis by (simp add: mems_def set_memory_def tbl_update_def image_image eq del: if_image_distrib)
qed

lemma expire_one_stays:
  assumes "placed S en" and "\<And>m. m \<in> mems (en_store en) \<Longrightarrow> m_id m = u \<Longrightarrow> of_tenant t m"
  shows "stays S t en (expire_one now u en)"
proof -
  let ?f = "\<lambda>m::memory. m\<lparr>m_state := Expired, m_valid_to := Some now, m_updated_at := now\<rparr>"
  have st: "mems (snd (ms_expire now u (en_store en))) =
      (\<lambda>m. if m_id m = u \<and> m_state m = Active then ?f m else m) ` mems (en_store en)"
    by (simp add: ms_expire_def Let_def mems_set_memory)
  have store: "en_store (expire_one now u en) = snd (ms_expire now u (en_store en))"
    and vec: "en_vec (expire_one now u en) = sv_delete u (en_vec en)"
    by (auto simp: expire_one_def Let_def forget_indexes_def split: option.split)
  show ?thesis
  proof (rule staysI [OF assms(1)])
    show "ms_inv (en_store (expire_one now u en))" unfolding store using assms(1) by (simp add: placed_def ms_inv_expire)
    show "sv_inv (en_vec (expire_one now u en))" unfolding vec using assms(1) by (simp add: placed_def sv_inv_delete)
    show "m_scope m = S (m_id m) \<and> of_tenant t m" if new: "m \<in> mems (en_store (expire_one now u en))" "m \<notin> mems (en_store en)" for m
    proof -
      obtain x where x: "x \<in> mems (en_store en)" "m_id x = u" "m = ?f x"
        using new unfolding store st by (auto simp del: if_image_distrib split: if_splits)
      then show ?thesis using assms(2) [OF x(1,2)] assms(1) by (auto simp: placed_def of_tenant_def)
    qed
    show "of_tenant t m" if "m \<in> mems (en_store en)" "m \<notin> mems (en_store (expire_one now u en))" for m
      by (rule assms(2) [OF that(1)]) (use that in \<open>auto simp: store st image_iff split: if_splits\<close>)
    show "map_of (sv_id_partition (en_vec en)) w = Some key \<or> key = scope_partition_key (S w)"
      if "map_of (sv_id_partition (en_vec (expire_one now u en))) w = Some key" for w key
      using that sv_delete_partition unfolding vec by blast
  qed
qed

lemma expire_stays:
  assumes "placed S en" and "\<And>u. u \<in> snd ` set ids \<Longrightarrow> sc_tenant_id (S u) = t"
  shows "stays S t en (memory_expire ids en)"
  using assms
proof (induction ids arbitrary: en)
  case (Cons x ids)
  obtain now u where x: "x = (now, u)" by fastforce
  have one: "stays S t en (expire_one now u en)"
    by (rule expire_one_stays [OF Cons.prems(1)]) (use Cons.prems x in \<open>auto simp: placed_in_tenant\<close>)
  have "stays S t (expire_one now u en) (memory_expire ids (expire_one now u en))"
    using Cons.IH [OF stays_placed [OF one]] Cons.prems(2) by simp
  from stays_trans [OF one this] show ?case by (simp add: memory_expire_def x)
qed (simp add: memory_expire_def stays_refl)

lemma expire_ids_stay:
  assumes "placed S en" and "\<And>u. u \<in> set ids \<Longrightarrow> sc_tenant_id (S u) = t"
  shows "stays S t en (expire_ids clock ids en)"
  unfolding expire_ids_def by (rule expire_stays [OF assms(1)]) (use assms(2) in \<open>auto simp: in_set_enumerate_eq\<close>)

lemma feedback_in:
  assumes "memory_feedback_plan now u (Some t) v en = Some (m, act)" and "placed S en"
  shows "of_tenant t m" and "act = Reinforce rows \<Longrightarrow> \<forall>r \<in> set rows. row_in S t r"
    and "act = Retire ids \<Longrightarrow> \<forall>x \<in> set ids. sc_tenant_id (S x) = t"
proof -
  obtain m0 where m0: "get_for u (Some t) en = Some m0" using assms(1) by (auto simp: memory_feedback_plan_def split: option.splits)
  have s: "m_scope m0 = S (m_id m0)" "sc_tenant_id (m_scope m0) = t"
    using get_for_in [OF assms(2) m0] assms(2) by (auto simp: placed_def of_tenant_def)
  show "of_tenant t m" "act = Reinforce rows \<Longrightarrow> \<forall>r \<in> set rows. row_in S t r" "act = Retire ids \<Longrightarrow> \<forall>x \<in> set ids. sc_tenant_id (S x) = t"
    using assms(1) m0 s by (auto simp: memory_feedback_plan_def Let_def row_in_def of_tenant_def split: memory_feedback.splits)
qed

lemma feedback_stays:
  assumes "memory_feedback_plan now u (Some t) v en = Some (m, act)" and "placed S en"
  shows "stays S t en (memory_feedback_apply P cfg now' act en)"
proof (cases act)
  case (Reinforce rows)
  then show ?thesis using feedback_in(2) [OF assms Reinforce]
    by (simp add: memory_feedback_apply_def memory_apply_rows_def apply_rows_stay [OF assms(2)])
next
  case (Retire ids)
  have "stays S t en (memory_expire (map (Pair now') ids) en)"
    by (rule expire_stays [OF assms(2)]) (use feedback_in(3) [OF assms Retire] in auto)
  then show ?thesis by (simp add: memory_feedback_apply_def Retire)
qed

subsection \<open>Proposals\<close>

lemma propose_stays:
  assumes "memory_propose P cfg tk input en = Inr (m, en')" and "placed S en" and "input_in S t tk input"
  shows "stays S t en en'" and "of_tenant t m"
proof -
  have m: "m = proposal_of tk (canonical_input input)"
    and en': "en' = publish_memory_change m (en\<lparr>en_store := ms_upsert_raw m None (en_store en)\<rparr>)"
    using assms(1) by (auto simp: memory_propose_def Let_def res_bind_Inr_iff)
  have s: "m_scope m = S (m_id m)" "sc_tenant_id (S (m_id m)) = t"
    using assms(3) by (auto simp: m proposal_of_def Let_def input_in_def)
  then show "of_tenant t m" by (simp add: of_tenant_def)
  show "stays S t en en'" unfolding en' by (rule upsert_raw_stays [OF assms(2) s])
qed

lemma retire_stays:
  assumes "placed S en" and "m_scope p = S (m_id p)" "sc_tenant_id (S (m_id p)) = t"
  shows "stays S t en (retire_proposal P now p decision who en)"
  unfolding retire_proposal_def Let_def
  by (rule upsert_raw_stays [OF assms(1)]) (use assms(2,3) in simp_all)

lemma pending_in: "placed S en \<Longrightarrow> pending_of u t en = Some p \<Longrightarrow>
    p \<in> mems (en_store en) \<and> m_scope p = S (m_id p) \<and> sc_tenant_id (S (m_id p)) = t"
  by (auto simp: placed_def pending_of_iff)

lemma accept_stays:
  assumes "memory_accept P cfg tk now u t en = Inr (r, en')" and "placed S en" "clean S"
    and "\<And>p. pending_of u t en = Some p \<Longrightarrow> input_in S t tk (input_of_proposal p)"
  shows "stays S t en en'" and "r = Some a \<Longrightarrow> of_tenant t (ma_memory a)"
proof -
  have "stays S t en en' \<and> (r = Some a \<longrightarrow> of_tenant t (ma_memory a))"
  proof (cases "pending_of u t en")
    case (Some p)
    obtain added en1 where add: "memory_add P cfg tk (input_of_proposal p) en = Inr (added, en1)"
      and rest: "r = Some added" "en' = retire_proposal P now p ''accepted'' (Some (m_id (ma_memory added))) en1"
      using assms(1) Some by (auto simp: memory_accept_def res_bind_Inr_iff)
    note one = memory_add_stays [OF add assms(2,3) assms(4) [OF Some]]
    have "stays S t en1 en'" unfolding rest(2)
      by (rule retire_stays [OF stays_placed [OF one(1)]]) (use pending_in [OF assms(2) Some] in simp_all)
    then show ?thesis using one rest(1) stays_trans by blast
  qed (use assms(1,2) in \<open>simp add: memory_accept_def stays_refl\<close>)
  then show "stays S t en en'" "r = Some a \<Longrightarrow> of_tenant t (ma_memory a)" by simp_all
qed

lemma reject_stays:
  assumes "placed S en" shows "stays S t en (snd (memory_reject P now u t en))"
  using pending_in [OF assms] retire_stays [OF assms] assms
  by (auto simp: memory_reject_def stays_refl split: option.split)

end
