(* ===== verification/Gateway_Memory.thy ===== *)
theory Gateway_Memory
  imports Gateway_Auth Memory_Tenancy
begin

text \<open>
  The memory endpoints of the REST gateway: \<open>rest/handlers/memory.rs\<close>, with the scope resolution and the
  error responses of \<open>rest/handlers/mod.rs\<close> and the request bodies of \<open>rest/models.rs\<close>. One definition per
  handler, on the node of \<open>Raft_Apply\<close>; a body is a value of \<open>api_body\<close> instead of JSON text, and the
  random request identifier of an error is left out.

  The environment of a request: the services of the engine, the clock readings and identifiers the
  handler draws, the parsers of identifiers and instants, and in cluster mode the outcome of consensus
  writes (\<open>None\<close> when the entry was committed, otherwise the error; an entry that is reported as failed
  is not applied here). A bulk write that fails is modelled without the rows it flushed before.
\<close>

record gateway_env =
  ge_ports :: ports
  ge_search :: search_ports
  ge_cfg :: search_config
  ge_llm :: llm_ports
  ge_embeds :: bool
  ge_tick :: "nat \<Rightarrow> tick"
  ge_now :: "nat \<Rightarrow> ts"
  ge_clock :: "nat \<Rightarrow> nat \<Rightarrow> ts"
  ge_fresh :: uuid
  ge_parse_uuid :: "string \<Rightarrow> uuid option"
  ge_parse_instant :: "string \<Rightarrow> ts option"
  ge_error_str :: "error \<Rightarrow> string"
  ge_json_extract :: "json \<Rightarrow> string \<Rightarrow> string option"
  ge_cluster :: "(nat \<Rightarrow> app_request \<Rightarrow> string option) option"

abbreviation ge_cognition :: "gateway_env \<Rightarrow> cognition_config" where
  "ge_cognition E \<equiv> cognition_config.truncate (ge_cfg E)"

subsection \<open>Request bodies\<close>

record scope_fields =
  sf_tenant_id :: "string option"
  sf_user_id :: "string option"
  sf_agent_id :: "string option"
  sf_session_id :: "string option"

record memory_add_request = scope_fields +
  ar_content :: string
  ar_subject :: "string option"
  ar_importance :: "float32 option"
  ar_metadata :: "json option"
  ar_mem_type :: "string option"
  ar_project :: "string option"
  ar_valid_from :: "ts option"

record memory_external_upsert_request = scope_fields +
  xr_external_id :: string
  xr_source :: string
  xr_content :: string
  xr_subject :: "string option"
  xr_importance :: "float32 option"
  xr_metadata :: "json option"
  xr_mem_type :: "string option"
  xr_valid_from :: "ts option"
  xr_project :: "string option"

record document_ingest_request = scope_fields +
  dq_path :: string
  dq_content :: string
  dq_valid_from :: "ts option"
  dq_metadata :: "json option"
  dq_target_chars :: "nat option"
  dq_project :: "string option"

record document_prune_request = scope_fields +
  dp_project :: string
  dp_keep_paths :: "string list"

record memory_search_request = scope_fields +
  sq_query :: string
  sq_k :: nat
  sq_shared :: bool
  sq_project :: "string option"
  sq_min_similarity :: "float32 option"

record memory_list_params = scope_fields +
  lp_limit :: nat
  lp_offset :: nat
  lp_mem_type :: "string option"
  lp_min_importance :: "float32 option"
  lp_updated_after :: "string option"
  lp_updated_before :: "string option"
  lp_metadata_key :: "string option"
  lp_metadata_value :: "string option"

record context_pack_request = scope_fields +
  cp_query :: string
  cp_paths :: "string list"
  cp_kinds :: "string list"
  cp_budget_tokens :: nat
  cp_k :: nat
  cp_project :: "string option"

record pack_item =
  pi_id :: uuid
  pi_kind :: string
  pi_subject :: string
  pi_content :: string
  pi_score :: float32
  pi_valid_from :: ts
  pi_valid_to :: "ts option"
  pi_provenance :: json

record context_pack =
  pk_memories :: "pack_item list"
  pk_incidents :: "pack_item list"
  pk_tokens_estimated :: nat
  pk_truncated :: bool
  pk_candidates :: nat

datatype api_body =
    Api_Error string string
  | Body_Added memory_add_result
  | Body_Batch "memory_add_result list"
  | Body_Document document_result
  | Body_Pruned nat
  | Body_Hits "memory_hit list"
  | Body_Granted uuid
  | Body_Grants "grant_row list"
  | Body_Revoked bool
  | Body_Memories "memory list"
  | Body_Memory memory
  | Body_Deleted
  | Body_Provenance memory_provenance
  | Body_Feedback string memory
  | Body_Contradictions "(string \<times> memory list) list"
  | Body_Resolved uuid nat
  | Body_Count nat
  | Body_Consolidated "memory_add_result option"
  | Body_Semantic uuid
  | Body_Results "search_result list"
  | Body_Status
  | Body_Edges "edge list"
  | Body_Rejected
  | Body_Pack context_pack

type_synonym reply = "api_body response \<times> node"

subsection \<open>Responses and scopes\<close>

definition api_ok :: "api_body \<Rightarrow> api_body response" where
  "api_ok body = (status_response 200)\<lparr>rs_body := Some body\<rparr>"

definition api_error :: "nat \<Rightarrow> string \<Rightarrow> string \<Rightarrow> api_body response" where
  "api_error status code message = (status_response status)\<lparr>rs_body := Some (Api_Error code message)\<rparr>"

definition memory_error :: "gateway_env \<Rightarrow> error \<Rightarrow> api_body response" where
  "memory_error E e =
    (case e of Validation message \<Rightarrow> api_error 422 ''VALIDATION_FAILED'' message
     | _ \<Rightarrow> api_error 500 ''MEMORY_ERROR'' (ge_error_str E e))"

definition cluster_write_error :: "string \<Rightarrow> api_body response" where
  "cluster_write_error msg =
    (if sublist ''ForwardToLeader'' msg \<or> sublist ''not leader'' (to_lowercase msg)
     then api_error 503 ''NOT_LEADER'' (''not the current leader '' @ em_dash @ '' retry; '' @ msg)
     else api_error 500 ''CLUSTER_WRITE_ERROR'' msg)"

definition missing_field :: "string \<Rightarrow> api_body response" where
  "missing_field what = api_error 400 ''MISSING_FIELD'' (what @ '' is required'')"

definition invalid_id :: "string \<Rightarrow> api_body response" where
  "invalid_id uid = api_error 400 ''INVALID_ID'' (CHR 0x27 # uid @ CHR 0x27 # '' is not a valid memory id'')"

definition not_found :: "string \<Rightarrow> api_body response" where
  "not_found uid = api_error 404 ''NOT_FOUND'' (''memory '' @ CHR 0x27 # uid @ CHR 0x27 # '' not found'')"

definition tenant_header_layer :: "(request \<Rightarrow> 'h \<Rightarrow> 'r) \<Rightarrow> request \<Rightarrow> 'h \<Rightarrow> 'r" where
  "tenant_header_layer next req =
    next (case map_option str_trim (Option.bind (header_get req ''x-ecphoria-tenant'') header_str) of
            Some s \<Rightarrow> if s \<noteq> [] \<and> length s \<le> 200 then req\<lparr>rq_tenant_header := Some s\<rparr> else req
          | None \<Rightarrow> req)"

definition auth_tenant :: "auth_context option \<Rightarrow> string option" where
  "auth_tenant auth = Option.bind auth ac_tenant_id"

definition tenant_or_default_of :: "auth_context option \<Rightarrow> string" where
  "tenant_or_default_of auth = (case auth_tenant auth of Some t \<Rightarrow> t | None \<Rightarrow> ''default'')"

definition scope_from ::
  "auth_context option \<Rightarrow> string option \<Rightarrow> string option \<Rightarrow> string option \<Rightarrow> string option \<Rightarrow> memory_scope" where
  "scope_from auth tenant_id user_id agent_id session_id =
    \<lparr>sc_tenant_id = (case auth_tenant auth of Some t \<Rightarrow> t | None \<Rightarrow> (case tenant_id of Some t \<Rightarrow> t | None \<Rightarrow> ''default'')),
     sc_user_id = user_id, sc_agent_id = agent_id, sc_session_id = session_id\<rparr>"

definition scope_with_header ::
  "auth_context option \<Rightarrow> string option \<Rightarrow> string option \<Rightarrow> string option \<Rightarrow> string option \<Rightarrow> string option \<Rightarrow> memory_scope" where
  "scope_with_header auth header tenant_id user_id agent_id session_id =
    scope_from auth (case tenant_id of Some t \<Rightarrow> Some t | None \<Rightarrow> header) user_id agent_id session_id"

definition scope_of :: "auth_context option \<Rightarrow> string option \<Rightarrow> scope_fields \<Rightarrow> memory_scope" where
  "scope_of auth header f = scope_with_header auth header (sf_tenant_id f) (sf_user_id f) (sf_agent_id f) (sf_session_id f)"

text \<open>Replicating one entry: when it is committed, this node applies it.\<close>

definition replicate_write :: "gateway_env \<Rightarrow> (nat \<Rightarrow> app_request \<Rightarrow> string option) \<Rightarrow> nat \<Rightarrow> app_request \<Rightarrow> node \<Rightarrow> string option \<times> node" where
  "replicate_write E coord n ar nd =
    (case coord n ar of
       Some msg \<Rightarrow> (Some msg, nd)
     | None \<Rightarrow> (case apply_request (ge_ports E) (ge_cognition E) True (ge_clock E n) ar nd of
                 Inl e \<Rightarrow> (Some (ge_error_str E e), nd) | Inr (_, nd') \<Rightarrow> (None, nd')))"

definition on_memory :: "node \<Rightarrow> engine \<Rightarrow> node" where
  "on_memory nd en = nd\<lparr>nd_memory := en\<rparr>"

subsection \<open>Adding memories\<close>

definition add_input :: "auth_context option \<Rightarrow> string option \<Rightarrow> memory_add_request \<Rightarrow> memory_input" where
  "add_input auth header req =
    \<lparr>i_scope = scope_of auth header (scope_fields.truncate req), i_subject = ar_subject req, i_content = ar_content req,
     i_importance = ar_importance req, i_source_event_ids = [],
     i_metadata = (case ar_metadata req of Some m \<Rightarrow> m | None \<Rightarrow> JObj []), i_mem_type = ar_mem_type req,
     i_valid_from = ar_valid_from req, i_project = ar_project req\<rparr>"

definition memory_add_handler ::
  "gateway_env \<Rightarrow> auth_context option \<Rightarrow> string option \<Rightarrow> memory_add_request \<Rightarrow> node \<Rightarrow> reply" where
  "memory_add_handler E auth header req nd =
    (if str_trim (ar_content req) = [] then (missing_field ''content'', nd)
     else let input = add_input auth header req
          in case ge_cluster E of
               Some coord \<Rightarrow>
                 (case memory_plan (ge_ports E) (ge_cognition E) (ge_tick E 0) input (nd_memory nd) of
                    Inl e \<Rightarrow> (memory_error E e, nd)
                  | Inr (result, rows) \<Rightarrow>
                      (case replicate_write E coord 0 (Req_MemoryUpsert rows) nd of
                         (None, nd') \<Rightarrow> (api_ok (Body_Added result), nd')
                       | (Some msg, nd') \<Rightarrow> (cluster_write_error msg, nd')))
             | None \<Rightarrow>
                 (case memory_add (ge_ports E) (ge_cognition E) (ge_tick E 0) input (nd_memory nd) of
                    Inl e \<Rightarrow> (memory_error E e, nd)
                  | Inr (added, en) \<Rightarrow> (api_ok (Body_Added added), on_memory nd en)))"

definition memory_propose_handler ::
  "gateway_env \<Rightarrow> auth_context option \<Rightarrow> string option \<Rightarrow> memory_add_request \<Rightarrow> node \<Rightarrow> reply" where
  "memory_propose_handler E auth header req nd =
    (if str_trim (ar_content req) = [] then (missing_field ''content'', nd)
     else case memory_propose (ge_ports E) (ge_cognition E) (ge_tick E 0) (add_input auth header req) (nd_memory nd) of
            Inl e \<Rightarrow> (memory_error E e, nd)
          | Inr (m, en) \<Rightarrow> (api_ok (Body_Memory m), on_memory nd en))"

definition memory_add_or_propose ::
  "gateway_env \<Rightarrow> auth_context option \<Rightarrow> string option \<Rightarrow> string option \<Rightarrow> memory_add_request \<Rightarrow> node \<Rightarrow> reply" where
  "memory_add_or_propose E auth header status req nd =
    (if status = Some ''pending'' then memory_propose_handler E auth header req nd
     else memory_add_handler E auth header req nd)"

definition MAX_BATCH_MEMORIES :: nat where
  "MAX_BATCH_MEMORIES = 10000"

text \<open>The bulk endpoint does not pass the validity start of an item on.\<close>

definition batch_input :: "auth_context option \<Rightarrow> string option \<Rightarrow> memory_add_request \<Rightarrow> memory_input" where
  "batch_input auth header req = (add_input auth header req)\<lparr>i_valid_from := None\<rparr>"

fun batch_replicate ::
  "gateway_env \<Rightarrow> (nat \<Rightarrow> app_request \<Rightarrow> string option) \<Rightarrow> memory_input list \<Rightarrow> memory_add_result list \<Rightarrow> node \<Rightarrow> reply" where
  "batch_replicate E coord [] results nd = (api_ok (Body_Batch results), nd)"
| "batch_replicate E coord (i # is) results nd =
    (case memory_plan (ge_ports E) (ge_cognition E) (ge_tick E (length results)) i (nd_memory nd) of
       Inl e \<Rightarrow> (memory_error E e, nd)
     | Inr (result, rows) \<Rightarrow>
         (case replicate_write E coord (length results) (Req_MemoryUpsert rows) nd of
            (None, nd') \<Rightarrow> batch_replicate E coord is (results @ [result]) nd'
          | (Some msg, nd') \<Rightarrow> (cluster_write_error msg, nd')))"

definition memory_add_batch_handler ::
  "gateway_env \<Rightarrow> auth_context option \<Rightarrow> string option \<Rightarrow> memory_add_request list \<Rightarrow> node \<Rightarrow> reply" where
  "memory_add_batch_handler E auth header ms nd =
    (if ms = [] then (api_error 400 ''MISSING_FIELD'' ''memories must not be empty'', nd)
     else if length ms > MAX_BATCH_MEMORIES
     then (api_error 413 ''BATCH_TOO_LARGE'' (show_nat (length ms) @ '' memories exceeds the 10000 limit''), nd)
     else if list_ex (\<lambda>m. str_trim (ar_content m) = []) ms
     then (missing_field (''memories['' @ show_nat (length (takeWhile (\<lambda>m. str_trim (ar_content m) \<noteq> []) ms)) @ ''].content''), nd)
     else let inputs = map (batch_input auth header) ms
          in case ge_cluster E of
               Some coord \<Rightarrow> batch_replicate E coord inputs [] nd
             | None \<Rightarrow>
                 (case memory_add_batch (ge_ports E) (ge_cognition E) (map (ge_tick E) [0..<length inputs]) inputs (nd_memory nd) of
                    Inl e \<Rightarrow> (memory_error E e, nd)
                  | Inr (added, en) \<Rightarrow> (api_ok (Body_Batch added), on_memory nd en)))"

definition external_input :: "auth_context option \<Rightarrow> string option \<Rightarrow> memory_external_upsert_request \<Rightarrow> memory_input" where
  "external_input auth header req =
    (let metadata = (case xr_metadata req of Some m \<Rightarrow> m | None \<Rightarrow> JObj [])
     in \<lparr>i_scope = scope_of auth header (scope_fields.truncate req),
         i_subject = Some (case xr_subject req of Some s \<Rightarrow> s
           | None \<Rightarrow> ''ext:'' @ xr_source req @ '':'' @ xr_external_id req),
         i_content = xr_content req, i_importance = xr_importance req, i_source_event_ids = [],
         i_metadata = (if json_is_object metadata
           then json_insert ''source'' (JStr (xr_source req)) (json_insert ''external_id'' (JStr (xr_external_id req)) metadata)
           else metadata),
         i_mem_type = xr_mem_type req, i_valid_from = xr_valid_from req, i_project = xr_project req\<rparr>)"

definition memory_upsert_by_external_id ::
  "gateway_env \<Rightarrow> auth_context option \<Rightarrow> string option \<Rightarrow> memory_external_upsert_request \<Rightarrow> node \<Rightarrow> reply" where
  "memory_upsert_by_external_id E auth header req nd =
    (if str_trim (xr_external_id req) = [] then (missing_field ''external_id'', nd)
     else if str_trim (xr_content req) = [] then (missing_field ''content'', nd)
     else case memory_add (ge_ports E) (ge_cognition E) (ge_tick E 0) (external_input auth header req) (nd_memory nd) of
            Inl e \<Rightarrow> (memory_error E e, nd)
          | Inr (added, en) \<Rightarrow> (api_ok (Body_Added added), on_memory nd en))"

subsection \<open>Documents\<close>

definition chunk_opts_of :: "nat option \<Rightarrow> chunk_options" where
  "chunk_opts_of target =
    (case target of
       Some n \<Rightarrow> if n > 0 then \<lparr>co_target_chars = n, co_max_chars = max (co_max_chars chunk_options_default) (n * 2)\<rparr>
                 else chunk_options_default
     | None \<Rightarrow> chunk_options_default)"

definition document_of_request :: "document_ingest_request \<Rightarrow> document" where
  "document_of_request req =
    \<lparr>dc_path = dq_path req, dc_content = dq_content req,
     dc_metadata = (case dq_metadata req of Some m \<Rightarrow> m | None \<Rightarrow> JObj []),
     dc_valid_from = dq_valid_from req, dc_project = dq_project req\<rparr>"

definition document_ingest_handler ::
  "gateway_env \<Rightarrow> auth_context option \<Rightarrow> string option \<Rightarrow> document_ingest_request \<Rightarrow> node \<Rightarrow> reply" where
  "document_ingest_handler E auth header req nd =
    (if str_trim (dq_path req) = [] then (missing_field ''path'', nd)
     else if str_trim (dq_content req) = [] then (missing_field ''content'', nd)
     else let scope = scope_of auth header (scope_fields.truncate req); opts = chunk_opts_of (dq_target_chars req);
              doc = document_of_request req
          in case document_ingest (ge_ports E) (ge_cognition E)
                 (map (ge_tick E) [0..<length (document_inputs doc scope opts)]) (ge_now E 0) doc scope opts (nd_memory nd) of
               Inl e \<Rightarrow> (api_error 500 ''DOCUMENT_ERROR'' (ge_error_str E e), nd)
             | Inr (r, en) \<Rightarrow> (api_ok (Body_Document r), on_memory nd en))"

definition document_prune_handler ::
  "gateway_env \<Rightarrow> auth_context option \<Rightarrow> string option \<Rightarrow> document_prune_request \<Rightarrow> node \<Rightarrow> reply" where
  "document_prune_handler E auth header req nd =
    (if str_trim (dp_project req) = [] then (missing_field ''project'', nd)
     else if dp_keep_paths req = []
     then (api_error 400 ''MISSING_FIELD'' (''keep_paths must not be empty '' @ em_dash @ '' refusing to expire an entire project''), nd)
     else case document_prune (ge_now E 0) (scope_of auth header (scope_fields.truncate req)) (dp_project req) (dp_keep_paths req)
                 (nd_memory nd) of
            Inl e \<Rightarrow> (api_error 500 ''DOCUMENT_ERROR'' (ge_error_str E e), nd)
          | Inr (n, en) \<Rightarrow> (api_ok (Body_Pruned n), on_memory nd en))"

subsection \<open>Searching and listing\<close>

definition memory_search_handler ::
  "gateway_env \<Rightarrow> auth_context option \<Rightarrow> string option \<Rightarrow> memory_search_request \<Rightarrow> node \<Rightarrow> reply" where
  "memory_search_handler E auth header req nd =
    (let scope = scope_of auth header (scope_fields.truncate req);
         hits = (if sq_shared req
           then memory_search_shared (ge_search E) (ge_ports E) (ge_cfg E) (ge_now E 0) (sq_query req) scope (sq_k req) (nd_memory nd)
           else fst (memory_search_filtered (ge_search E) (ge_ports E) (ge_cfg E) (ge_now E 0) (sq_query req) scope (sq_k req)
                  (sq_project req) (sq_min_similarity req) (nd_memory nd)))
     in (api_ok (Body_Hits hits), nd))"

definition grant_create :: "gateway_env \<Rightarrow> auth_context option \<Rightarrow> string \<Rightarrow> string \<Rightarrow> node \<Rightarrow> reply" where
  "grant_create E auth grantee grantor nd =
    (case grant_share (ge_fresh E) (ge_now E 0) (tenant_or_default_of auth) grantee grantor (nd_memory nd) of
       (uid, en) \<Rightarrow> (api_ok (Body_Granted uid), on_memory nd en))"

definition grant_list :: "auth_context option \<Rightarrow> string \<Rightarrow> node \<Rightarrow> reply" where
  "grant_list auth grantee nd =
    (api_ok (Body_Grants (list_grants (tenant_or_default_of auth) grantee (en_store (nd_memory nd)))), nd)"

definition grant_revoke :: "gateway_env \<Rightarrow> auth_context option \<Rightarrow> string \<Rightarrow> node \<Rightarrow> reply" where
  "grant_revoke E auth uid nd =
    (case ge_parse_uuid E uid of
       None \<Rightarrow> (api_error 400 ''INVALID_ID'' ''grant id must be a UUID'', nd)
     | Some u \<Rightarrow>
         (case engine_revoke_grant (tenant_or_default_of auth) u (nd_memory nd) of
            (removed, en) \<Rightarrow> (api_ok (Body_Revoked removed), on_memory nd en)))"

definition parse_as_of :: "gateway_env \<Rightarrow> string option \<Rightarrow> ts option" where
  "parse_as_of E s = Option.bind s (ge_parse_instant E)"

definition list_filter :: "gateway_env \<Rightarrow> memory_list_params \<Rightarrow> memory_filter" where
  "list_filter E params =
    \<lparr>f_mem_type = lp_mem_type params, f_min_importance = lp_min_importance params,
     f_updated_after = parse_as_of E (lp_updated_after params), f_updated_before = parse_as_of E (lp_updated_before params),
     f_metadata = (case (lp_metadata_key params, lp_metadata_value params) of (Some k, Some v) \<Rightarrow> Some (k, v) | _ \<Rightarrow> None)\<rparr>"

definition memory_list_handler ::
  "gateway_env \<Rightarrow> auth_context option \<Rightarrow> string option \<Rightarrow> memory_list_params \<Rightarrow> node \<Rightarrow> reply" where
  "memory_list_handler E auth header params nd =
    (api_ok (Body_Memories (memory_list (ge_json_extract E) (ge_cognition E) (scope_of auth header (scope_fields.truncate params))
       (lp_limit params) (lp_offset params) (list_filter E params) (nd_memory nd))), nd)"

definition memory_get_handler :: "gateway_env \<Rightarrow> auth_context option \<Rightarrow> string \<Rightarrow> node \<Rightarrow> reply" where
  "memory_get_handler E auth uid nd =
    (case ge_parse_uuid E uid of
       None \<Rightarrow> (invalid_id uid, nd)
     | Some u \<Rightarrow>
         (case get_for u (auth_tenant auth) (nd_memory nd) of
            Some m \<Rightarrow> (api_ok (Body_Memory m), nd) | None \<Rightarrow> (not_found uid, nd)))"

definition memory_history_by_subject ::
  "auth_context option \<Rightarrow> string option \<Rightarrow> scope_fields \<Rightarrow> string \<Rightarrow> node \<Rightarrow> reply" where
  "memory_history_by_subject auth header f subject nd =
    (if str_trim subject = [] then (missing_field ''subject'', nd)
     else (api_ok (Body_Memories (memory_history (scope_of auth header f) subject (nd_memory nd))), nd))"

definition memory_history_handler :: "gateway_env \<Rightarrow> auth_context option \<Rightarrow> string \<Rightarrow> node \<Rightarrow> reply" where
  "memory_history_handler E auth uid nd =
    (case ge_parse_uuid E uid of
       None \<Rightarrow> (invalid_id uid, nd)
     | Some u \<Rightarrow>
         (case get_for u (auth_tenant auth) (nd_memory nd) of
            None \<Rightarrow> (not_found uid, nd)
          | Some m \<Rightarrow>
              (api_ok (Body_Memories (case m_subject m of
                 Some subject \<Rightarrow> memory_history (m_scope m) subject (nd_memory nd) | None \<Rightarrow> [m])), nd)))"

definition memory_provenance_handler :: "gateway_env \<Rightarrow> auth_context option \<Rightarrow> string \<Rightarrow> node \<Rightarrow> reply" where
  "memory_provenance_handler E auth uid nd =
    (case ge_parse_uuid E uid of
       None \<Rightarrow> (invalid_id uid, nd)
     | Some u \<Rightarrow>
         (case memory_provenance_of u (auth_tenant auth) nd of
            Some prov \<Rightarrow> (api_ok (Body_Provenance prov), nd) | None \<Rightarrow> (not_found uid, nd)))"

subsection \<open>Changing one memory\<close>

definition memory_delete_handler :: "gateway_env \<Rightarrow> auth_context option \<Rightarrow> string \<Rightarrow> node \<Rightarrow> reply" where
  "memory_delete_handler E auth uid nd =
    (case ge_parse_uuid E uid of
       None \<Rightarrow> (invalid_id uid, nd)
     | Some u \<Rightarrow>
         (case (case auth_tenant auth of
                  Some t \<Rightarrow> memory_delete_scoped u t (nd_memory nd) | None \<Rightarrow> (True, memory_delete u (nd_memory nd))) of
            (True, en) \<Rightarrow> (api_ok Body_Deleted, on_memory nd en)
          | (False, en) \<Rightarrow> (not_found uid, on_memory nd en)))"

definition reembedding :: "gateway_env \<Rightarrow> memory_patch \<Rightarrow> embedding option option" where
  "reembedding E patch = (if ge_embeds E then Some (Option.bind (p_content patch) (pt_embed (ge_ports E))) else None)"

definition memory_update_handler ::
  "gateway_env \<Rightarrow> auth_context option \<Rightarrow> string \<Rightarrow> memory_patch \<Rightarrow> node \<Rightarrow> reply" where
  "memory_update_handler E auth uid patch nd =
    (case ge_parse_uuid E uid of
       None \<Rightarrow> (invalid_id uid, nd)
     | Some u \<Rightarrow>
         if patch_is_empty patch
         then (api_error 400 ''EMPTY_PATCH'' ''provide at least one of content / importance / mem_type / metadata'', nd)
         else case ge_cluster E of
           Some coord \<Rightarrow>
             (case memory_update_plan (reembedding E patch) (ge_now E 0) u patch (auth_tenant auth) (nd_memory nd) of
                None \<Rightarrow> (not_found uid, nd)
              | Some (updated, rows) \<Rightarrow>
                  (case replicate_write E coord 0 (Req_MemoryUpsert rows) nd of
                     (None, nd') \<Rightarrow> (api_ok (Body_Memory updated), nd')
                   | (Some msg, nd') \<Rightarrow> (cluster_write_error msg, nd')))
         | None \<Rightarrow>
             (case memory_update (ge_ports E) (ge_cognition E) (reembedding E patch) (ge_now E 0) u patch (auth_tenant auth) (nd_memory nd) of
                (Some m, en) \<Rightarrow> (api_ok (Body_Memory m), on_memory nd en)
              | (None, en) \<Rightarrow> (not_found uid, on_memory nd en)))"

definition memory_feedback_handler ::
  "gateway_env \<Rightarrow> auth_context option \<Rightarrow> string \<Rightarrow> string \<Rightarrow> node \<Rightarrow> reply" where
  "memory_feedback_handler E auth uid verdict nd =
    (case ge_parse_uuid E uid of
       None \<Rightarrow> (invalid_id uid, nd)
     | Some u \<Rightarrow>
         (case feedback_from_str_loose verdict of
            None \<Rightarrow> (api_error 400 ''INVALID_VERDICT'' ''verdict must be one of: helpful, wrong, obsolete'', nd)
          | Some v \<Rightarrow>
              (case memory_feedback_plan (ge_now E 0) u (auth_tenant auth) v (nd_memory nd) of
                 None \<Rightarrow> (not_found uid, nd)
               | Some (m, action) \<Rightarrow>
                   (case ge_cluster E of
                      Some coord \<Rightarrow>
                        (case replicate_write E coord 0
                            (case action of Reinforce rows \<Rightarrow> Req_MemoryUpsert rows | Retire ids \<Rightarrow> Req_MemoryExpire ids) nd of
                           (None, nd') \<Rightarrow> (api_ok (Body_Feedback verdict m), nd')
                         | (Some msg, nd') \<Rightarrow> (cluster_write_error msg, nd'))
                    | None \<Rightarrow>
                        (api_ok (Body_Feedback verdict m),
                         on_memory nd (memory_feedback_apply (ge_ports E) (ge_cognition E) (ge_now E 1) action (nd_memory nd)))))))"

definition review_scope :: "auth_context option \<Rightarrow> string option \<Rightarrow> string option \<Rightarrow> string option \<Rightarrow> string option \<Rightarrow> memory_scope" where
  "review_scope auth header user_id agent_id session_id = scope_with_header auth header None user_id agent_id session_id"

definition memory_contradictions_handler ::
  "gateway_env \<Rightarrow> memory_scope \<Rightarrow> node \<Rightarrow> reply" where
  "memory_contradictions_handler E scope nd =
    (api_ok (Body_Contradictions (memory_contradictions (ge_cognition E) scope (nd_memory nd))), nd)"

definition memory_resolve_contradiction ::
  "gateway_env \<Rightarrow> memory_scope \<Rightarrow> string \<Rightarrow> uuid \<Rightarrow> node \<Rightarrow> reply" where
  "memory_resolve_contradiction E scope subject keep_id nd =
    (case memory_resolve_plan (ge_now E 0) scope subject keep_id (nd_memory nd) of
       Inl e \<Rightarrow> (api_error 400 ''RESOLVE_ERROR'' (ge_error_str E e), nd)
     | Inr rows \<Rightarrow>
         (case ge_cluster E of
            Some coord \<Rightarrow>
              (case replicate_write E coord 0 (Req_MemoryUpsert rows) nd of
                 (None, nd') \<Rightarrow> (api_ok (Body_Resolved keep_id (length rows)), nd')
               | (Some msg, nd') \<Rightarrow> (cluster_write_error msg, nd'))
          | None \<Rightarrow>
              (api_ok (Body_Resolved keep_id (length rows)),
               on_memory nd (snd (memory_apply_rows (ge_ports E) (ge_cognition E) rows (nd_memory nd))))))"

subsection \<open>Proposals\<close>

definition pending_list :: "gateway_env \<Rightarrow> memory_scope \<Rightarrow> nat \<Rightarrow> node \<Rightarrow> reply" where
  "pending_list E scope limit nd = (api_ok (Body_Memories (memory_pending (ge_cognition E) scope limit (nd_memory nd))), nd)"

definition proposal_target :: "gateway_env \<Rightarrow> auth_context option \<Rightarrow> string option \<Rightarrow> string \<Rightarrow> api_body response + uuid \<times> string" where
  "proposal_target E auth header uid =
    (case ge_parse_uuid E uid of
       None \<Rightarrow> Inl (invalid_id uid)
     | Some u \<Rightarrow> Inr (u, sc_tenant_id (scope_with_header auth header None None None None)))"

definition not_pending :: "string \<Rightarrow> api_body response" where
  "not_pending uid = api_error 404 ''NOT_PENDING'' (''no pending proposal '' @ uid @ '' for this tenant'')"

definition pending_accept :: "gateway_env \<Rightarrow> auth_context option \<Rightarrow> string option \<Rightarrow> string \<Rightarrow> node \<Rightarrow> reply" where
  "pending_accept E auth header uid nd =
    (case proposal_target E auth header uid of
       Inl r \<Rightarrow> (r, nd)
     | Inr (u, tenant) \<Rightarrow>
         (case memory_accept (ge_ports E) (ge_cognition E) (ge_tick E 0) (ge_now E 0) u tenant (nd_memory nd) of
            Inl e \<Rightarrow> (memory_error E e, nd)
          | Inr (Some added, en) \<Rightarrow> (api_ok (Body_Memory (ma_memory added)), on_memory nd en)
          | Inr (None, en) \<Rightarrow> (not_pending uid, on_memory nd en)))"

definition pending_reject :: "gateway_env \<Rightarrow> auth_context option \<Rightarrow> string option \<Rightarrow> string \<Rightarrow> node \<Rightarrow> reply" where
  "pending_reject E auth header uid nd =
    (case proposal_target E auth header uid of
       Inl r \<Rightarrow> (r, nd)
     | Inr (u, tenant) \<Rightarrow>
         (case memory_reject (ge_ports E) (ge_now E 0) u tenant (nd_memory nd) of
            (True, en) \<Rightarrow> (api_ok Body_Rejected, on_memory nd en)
          | (False, en) \<Rightarrow> (not_pending uid, on_memory nd en)))"

subsection \<open>Maintenance\<close>

text \<open>The decay pass reads no credential and goes over the memories of every tenant.\<close>

definition memory_decay_handler :: "gateway_env \<Rightarrow> node \<Rightarrow> reply" where
  "memory_decay_handler E nd =
    (case memory_enforce_decay (ge_ports E) (ge_cognition E) (ge_now E 0) (nd_memory nd) of
       (n, en) \<Rightarrow> (api_ok (Body_Count n), on_memory nd en))"

definition memory_reembed_handler :: "gateway_env \<Rightarrow> nat option \<Rightarrow> node \<Rightarrow> reply" where
  "memory_reembed_handler E limit nd =
    (let rows = memory_reembed_plan (ge_embeds E) (ge_ports E) (case limit of Some n \<Rightarrow> n | None \<Rightarrow> 1000) (nd_memory nd)
     in if rows = [] then (api_ok (Body_Count 0), nd)
        else case ge_cluster E of
          Some coord \<Rightarrow>
            (case replicate_write E coord 0 (Req_MemoryUpsert rows) nd of
               (None, nd') \<Rightarrow> (api_ok (Body_Count (length rows)), nd')
             | (Some msg, nd') \<Rightarrow> (cluster_write_error msg, nd'))
        | None \<Rightarrow>
            (api_ok (Body_Count (length rows)),
             on_memory nd (snd (memory_apply_rows (ge_ports E) (ge_cognition E) rows (nd_memory nd)))))"

definition replicate_fold ::
  "gateway_env \<Rightarrow> (nat \<Rightarrow> app_request \<Rightarrow> string option) \<Rightarrow> nat \<Rightarrow> memory_input \<Rightarrow> uuid list \<Rightarrow> node \<Rightarrow>
   (api_body response + memory_add_result) \<times> node" where
  "replicate_fold E coord n input expired nd =
    (case memory_plan (ge_ports E) (ge_cognition E) (ge_tick E n) input (nd_memory nd) of
       Inl e \<Rightarrow> (Inl (memory_error E e), nd)
     | Inr (result, rows) \<Rightarrow>
         (case replicate_write E coord (2 * n) (Req_MemoryUpsert rows) nd of
            (Some msg, nd1) \<Rightarrow> (Inl (cluster_write_error msg), nd1)
          | (None, nd1) \<Rightarrow>
              (case replicate_write E coord (2 * n + 1) (Req_MemoryExpire expired) nd1 of
                 (Some msg, nd2) \<Rightarrow> (Inl (cluster_write_error msg), nd2)
               | (None, nd2) \<Rightarrow> (Inr result, nd2))))"

definition memory_consolidate_handler ::
  "gateway_env \<Rightarrow> memory_scope \<Rightarrow> nat option \<Rightarrow> node \<Rightarrow> reply" where
  "memory_consolidate_handler E scope keep0 nd =
    (let keep = (case keep0 of Some k \<Rightarrow> k | None \<Rightarrow> 20)
     in case ge_cluster E of
          Some coord \<Rightarrow>
            (case memory_consolidate_plan (ge_llm E) (ge_ports E) (ge_cognition E) scope keep (nd_memory nd) of
               None \<Rightarrow> (api_ok (Body_Consolidated None), nd)
             | Some (input, expired) \<Rightarrow>
                 (case replicate_fold E coord 0 input expired nd of
                    (Inl r, nd') \<Rightarrow> (r, nd') | (Inr result, nd') \<Rightarrow> (api_ok (Body_Consolidated (Some result)), nd')))
        | None \<Rightarrow>
            (case memory_consolidate (ge_llm E) (ge_ports E) (ge_cognition E) (ge_tick E 0) (ge_clock E 0) scope keep (nd_memory nd) of
               (Inr m, en) \<Rightarrow> (api_ok (Body_Consolidated m), on_memory nd en)
             | (Inl e, en) \<Rightarrow> (memory_error E e, on_memory nd en)))"

fun replicate_folds ::
  "gateway_env \<Rightarrow> (nat \<Rightarrow> app_request \<Rightarrow> string option) \<Rightarrow> nat \<Rightarrow> nat \<Rightarrow> (memory_input \<times> uuid list) list \<Rightarrow> node \<Rightarrow> reply" where
  "replicate_folds E coord clusters n [] nd = (api_ok (Body_Count clusters), nd)"
| "replicate_folds E coord clusters n ((input, expired) # plans) nd =
    (case replicate_fold E coord n input expired nd of
       (Inl r, nd') \<Rightarrow> (r, nd') | (Inr _, nd') \<Rightarrow> replicate_folds E coord clusters (n + 1) plans nd')"

definition memory_consolidate_similar_handler ::
  "gateway_env \<Rightarrow> memory_scope \<Rightarrow> float32 option \<Rightarrow> node \<Rightarrow> reply" where
  "memory_consolidate_similar_handler E scope threshold0 nd =
    (let threshold = (case threshold0 of Some t \<Rightarrow> t | None \<Rightarrow> 92/100)
     in case memory_consolidate_similar_plan (ge_llm E) (ge_ports E) (ge_cfg E) scope threshold (nd_memory nd) of
          Inl e \<Rightarrow> (memory_error E e, nd)
        | Inr plans \<Rightarrow>
            (case ge_cluster E of
               Some coord \<Rightarrow> replicate_folds E coord (length plans) 0 plans nd
             | None \<Rightarrow>
                 (case fold_plans (ge_ports E) (ge_cognition E) (ge_tick E) (ge_clock E) 0 plans (nd_memory nd) of
                    (Some e, en) \<Rightarrow> (memory_error E e, on_memory nd en)
                  | (None, en) \<Rightarrow> (api_ok (Body_Count (length plans)), on_memory nd en))))"

subsection \<open>Vectors and the graph\<close>

text \<open>The multi-modal vectors are a store of their own, without tenants.\<close>

definition semantic_upsert_modal :: "uuid \<Rightarrow> string \<Rightarrow> string \<Rightarrow> embedding \<Rightarrow> json \<Rightarrow> multi_modal_store \<Rightarrow> error option \<times> multi_modal_store" where
  "semantic_upsert_modal uid modality content embedding metadata mm =
    mm_upsert modality \<lparr>se_id = uid, se_content = content, se_embedding = embedding,
      se_metadata = json_insert ''modality'' (JStr modality) (if json_is_object metadata then metadata else JObj [])\<rparr> mm"

definition semantic_search_modal ::
  "ports \<Rightarrow> (multi_modal_store \<Rightarrow> multi_modal_store) \<Rightarrow> embedding \<Rightarrow> nat \<Rightarrow> string option \<Rightarrow> multi_modal_store \<Rightarrow> error + search_result list" where
  "semantic_search_modal P iter vector k modality mm =
    (case modality of Some m \<Rightarrow> mm_search (pt_knn P) m vector k mm | None \<Rightarrow> Inr (mm_search_all (pt_knn P) iter vector k mm))"

definition semantic_upsert ::
  "gateway_env \<Rightarrow> string option \<Rightarrow> string \<Rightarrow> string \<Rightarrow> embedding \<Rightarrow> json option \<Rightarrow> multi_modal_store \<Rightarrow> api_body response \<times> multi_modal_store" where
  "semantic_upsert E id0 modality content embedding metadata mm =
    (let uid = (case Option.bind id0 (ge_parse_uuid E) of Some u \<Rightarrow> u | None \<Rightarrow> ge_fresh E)
     in case semantic_upsert_modal uid modality content embedding (case metadata of Some m \<Rightarrow> m | None \<Rightarrow> JObj []) mm of
          (None, mm') \<Rightarrow> (api_ok (Body_Semantic uid), mm')
        | (Some e, mm') \<Rightarrow> (api_error 400 ''SEMANTIC_ERROR'' (ge_error_str E e), mm'))"

definition semantic_modal_search ::
  "gateway_env \<Rightarrow> (multi_modal_store \<Rightarrow> multi_modal_store) \<Rightarrow> embedding \<Rightarrow> nat option \<Rightarrow> string option \<Rightarrow> multi_modal_store \<Rightarrow> api_body response" where
  "semantic_modal_search E iter vector k modality mm =
    (case semantic_search_modal (ge_ports E) iter vector (case k of Some n \<Rightarrow> n | None \<Rightarrow> 5) modality mm of
       Inr results \<Rightarrow> api_ok (Body_Results results)
     | Inl e \<Rightarrow> api_error 400 ''SEMANTIC_ERROR'' (ge_error_str E e))"

definition memory_link_handler ::
  "gateway_env \<Rightarrow> auth_context option \<Rightarrow> string \<Rightarrow> string \<Rightarrow> string \<Rightarrow> bool \<Rightarrow> node \<Rightarrow> reply" where
  "memory_link_handler E auth src relation dst supersede nd =
    (let tenant = tenant_or_default_of auth; now = ge_now E 0; uid = ge_fresh E
     in case ge_cluster E of
          Some coord \<Rightarrow>
            (let add = (\<lambda>n nd1. case replicate_write E coord n (Req_GraphAddEdge (Some tenant) (new_edge uid now src relation dst None)) nd1 of
                   (None, nd2) \<Rightarrow> (api_ok Body_Status, nd2) | (Some msg, nd2) \<Rightarrow> (cluster_write_error msg, nd2))
             in if supersede
                then (case replicate_write E coord 0 (Req_GraphSupersede (Some tenant) src relation now (Some uid)) nd of
                        (Some msg, nd1) \<Rightarrow> (cluster_write_error msg, nd1) | (None, nd1) \<Rightarrow> add 1 nd1)
                else add 0 nd)
        | None \<Rightarrow>
            (api_ok Body_Status,
             on_memory nd (if supersede then memory_link_functional uid now tenant src relation dst None (nd_memory nd)
                           else memory_link uid now tenant src relation dst None (nd_memory nd))))"

definition memory_edges_handler :: "gateway_env \<Rightarrow> auth_context option \<Rightarrow> nat option \<Rightarrow> node \<Rightarrow> reply" where
  "memory_edges_handler E auth limit nd =
    (api_ok (Body_Edges (memory_edges (ge_cognition E) (tenant_or_default_of auth) (case limit of Some n \<Rightarrow> n | None \<Rightarrow> 10000) (nd_memory nd))), nd)"

subsection \<open>Context packs\<close>

definition estimate_tokens :: "string \<Rightarrow> nat" where
  "estimate_tokens text = (char_count text + 3) div 4"

definition kind_of :: "memory \<Rightarrow> string option" where
  "kind_of m = Option.bind (json_get (m_metadata m) ''kind'') json_as_str"

definition kind_allowed :: "memory \<Rightarrow> string list \<Rightarrow> bool" where
  "kind_allowed m kinds \<longleftrightarrow> kinds = [] \<or> (case kind_of m of Some k \<Rightarrow> k \<in> set kinds | None \<Rightarrow> False)"

definition strip_suffix_of :: "string \<Rightarrow> string \<Rightarrow> string option" where
  "strip_suffix_of suf s = map_option rev (strip_prefix_of (rev suf) (rev s))"

definition path_matches :: "string \<Rightarrow> string \<Rightarrow> bool" where
  "path_matches path pattern =
    (case strip_suffix_of ''/**'' pattern of
       Some pre \<Rightarrow> path = pre \<or> prefix (pre @ ''/'') path
     | None \<Rightarrow>
         (case strip_suffix_of ''**'' pattern of
            Some pre \<Rightarrow> prefix pre path
          | None \<Rightarrow>
              (case split_once_at (CHR ''*'') pattern of
                 Some (pre, suf) \<Rightarrow> prefix pre path \<and> suffix suf path
               | None \<Rightarrow> path = pattern)))"

definition overlaps :: "string \<Rightarrow> string \<Rightarrow> bool" where
  "overlaps path pattern \<longleftrightarrow> path_matches path pattern \<or> path_matches pattern path"

definition paths_allow :: "memory \<Rightarrow> string list \<Rightarrow> bool" where
  "paths_allow m allowed =
    (if allowed = [] then True
     else case Option.bind (json_get (m_metadata m) ''paths'') json_as_array of
       None \<Rightarrow> True
     | Some paths \<Rightarrow> paths = [] \<or>
         list_ex (\<lambda>path. list_ex (overlaps path) allowed) (List.map_filter json_as_str paths))"

definition pack_item_of :: "memory \<Rightarrow> float32 \<Rightarrow> pack_item" where
  "pack_item_of m score =
    \<lparr>pi_id = m_id m, pi_kind = (case kind_of m of Some k \<Rightarrow> k | None \<Rightarrow> m_mem_type m),
     pi_subject = (case m_subject m of Some s \<Rightarrow> s | None \<Rightarrow> []), pi_content = m_content m, pi_score = score,
     pi_valid_from = m_valid_from m, pi_valid_to = m_valid_to m,
     pi_provenance = (case json_get (m_metadata m) ''provenance'' of Some p \<Rightarrow> p | None \<Rightarrow> JObj [])\<rparr>"

fun pack_hits :: "string list \<Rightarrow> string list \<Rightarrow> nat \<Rightarrow> memory_hit list \<Rightarrow> context_pack \<Rightarrow> context_pack" where
  "pack_hits kinds paths budget [] pk = pk"
| "pack_hits kinds paths budget (h # hs) pk =
    (let m = h_memory h; cost = estimate_tokens (m_content m)
     in if \<not> kind_allowed m kinds \<or> \<not> paths_allow m paths then pack_hits kinds paths budget hs pk
        else if pk_tokens_estimated pk + cost > budget then pk\<lparr>pk_truncated := True\<rparr>
        else let pk1 = pk\<lparr>pk_tokens_estimated := pk_tokens_estimated pk + cost\<rparr>; item = pack_item_of m (h_score h)
             in pack_hits kinds paths budget hs
                  (if kind_of m = Some ''incident'' then pk1\<lparr>pk_incidents := pk_incidents pk1 @ [item]\<rparr>
                   else pk1\<lparr>pk_memories := pk_memories pk1 @ [item]\<rparr>))"

definition context_pack_handler ::
  "gateway_env \<Rightarrow> auth_context option \<Rightarrow> string option \<Rightarrow> context_pack_request \<Rightarrow> node \<Rightarrow> reply" where
  "context_pack_handler E auth header req nd =
    (if str_trim (cp_query req) = [] then (missing_field ''query'', nd)
     else let hits = fst (memory_search_filtered (ge_search E) (ge_ports E) (ge_cfg E) (ge_now E 0) (cp_query req)
                (scope_of auth header (scope_fields.truncate req)) (max 1 (min (cp_k req) 200)) (cp_project req) None (nd_memory nd))
          in (api_ok (Body_Pack (pack_hits (cp_kinds req) (cp_paths req) (cp_budget_tokens req) hits
                \<lparr>pk_memories = [], pk_incidents = [], pk_tokens_estimated = 0, pk_truncated = False, pk_candidates = length hits\<rparr>)), nd))"

subsection \<open>The routes\<close>

text \<open>
  The calls on memories; the stream of changes and the graph reads registered beside them are not
  among them, and the semantic endpoints work on a store of their own (\<open>multi_modal_store\<close>).
\<close>

datatype memory_call =
    Add_Or_Propose "string option" memory_add_request
  | Add_Batch "memory_add_request list"
  | Upsert_External memory_external_upsert_request
  | Ingest_Document document_ingest_request
  | Prune_Documents document_prune_request
  | Search_Memories memory_search_request
  | Context_Pack context_pack_request
  | Create_Grant string string
  | List_Grants string
  | Revoke_Grant string
  | List_Memories memory_list_params
  | Get_Memory string
  | Delete_Memory string
  | Update_Memory string memory_patch
  | History_By_Subject scope_fields string
  | Get_History string
  | Get_Provenance string
  | Give_Feedback string string
  | List_Contradictions "string option" "string option" "string option"
  | Resolve_Contradiction "string option" "string option" "string option" string uuid
  | List_Pending scope_fields nat
  | Accept_Pending string
  | Reject_Pending string
  | Link_Entities string string string bool
  | List_Edges "nat option"
  | Decay
  | Reembed "nat option"
  | Consolidate scope_fields "nat option"
  | Consolidate_Similar scope_fields "float32 option"

fun memory_routes :: "gateway_env \<Rightarrow> auth_context option \<Rightarrow> string option \<Rightarrow> memory_call \<Rightarrow> node \<Rightarrow> reply" where
  "memory_routes E auth th (Add_Or_Propose status req) nd = memory_add_or_propose E auth th status req nd"
| "memory_routes E auth th (Add_Batch ms) nd = memory_add_batch_handler E auth th ms nd"
| "memory_routes E auth th (Upsert_External req) nd = memory_upsert_by_external_id E auth th req nd"
| "memory_routes E auth th (Ingest_Document req) nd = document_ingest_handler E auth th req nd"
| "memory_routes E auth th (Prune_Documents req) nd = document_prune_handler E auth th req nd"
| "memory_routes E auth th (Search_Memories req) nd = memory_search_handler E auth th req nd"
| "memory_routes E auth th (Context_Pack req) nd = context_pack_handler E auth th req nd"
| "memory_routes E auth th (Create_Grant grantee grantor) nd = grant_create E auth grantee grantor nd"
| "memory_routes E auth th (List_Grants grantee) nd = grant_list auth grantee nd"
| "memory_routes E auth th (Revoke_Grant uid) nd = grant_revoke E auth uid nd"
| "memory_routes E auth th (List_Memories params) nd = memory_list_handler E auth th params nd"
| "memory_routes E auth th (Get_Memory uid) nd = memory_get_handler E auth uid nd"
| "memory_routes E auth th (Delete_Memory uid) nd = memory_delete_handler E auth uid nd"
| "memory_routes E auth th (Update_Memory uid patch) nd = memory_update_handler E auth uid patch nd"
| "memory_routes E auth th (History_By_Subject f subject) nd = memory_history_by_subject auth th f subject nd"
| "memory_routes E auth th (Get_History uid) nd = memory_history_handler E auth uid nd"
| "memory_routes E auth th (Get_Provenance uid) nd = memory_provenance_handler E auth uid nd"
| "memory_routes E auth th (Give_Feedback uid verdict) nd = memory_feedback_handler E auth uid verdict nd"
| "memory_routes E auth th (List_Contradictions u a s) nd = memory_contradictions_handler E (review_scope auth th u a s) nd"
| "memory_routes E auth th (Resolve_Contradiction u a s subject keep) nd = memory_resolve_contradiction E (review_scope auth th u a s) subject keep nd"
| "memory_routes E auth th (List_Pending f limit) nd = pending_list E (scope_of auth th f) limit nd"
| "memory_routes E auth th (Accept_Pending uid) nd = pending_accept E auth th uid nd"
| "memory_routes E auth th (Reject_Pending uid) nd = pending_reject E auth th uid nd"
| "memory_routes E auth th (Link_Entities src rel dst close) nd = memory_link_handler E auth src rel dst close nd"
| "memory_routes E auth th (List_Edges limit) nd = memory_edges_handler E auth limit nd"
| "memory_routes E auth th Decay nd = memory_decay_handler E nd"
| "memory_routes E auth th (Reembed limit) nd = memory_reembed_handler E limit nd"
| "memory_routes E auth th (Consolidate f keep) nd = memory_consolidate_handler E (scope_of auth th f) keep nd"
| "memory_routes E auth th (Consolidate_Similar f threshold) nd = memory_consolidate_similar_handler E (scope_of auth th f) threshold nd"

end
