(* ===== verification/Gateway_Isolation.thy ===== *)
theory Gateway_Isolation
  imports Gateway_Memory
begin

text \<open>
  Tenant isolation of the memory endpoints. Whatever a request of a tenant-scoped credential names in its
  path, query, header or body, the handlers of \<open>Gateway_Memory\<close> change no memory of another tenant and
  answer with none. A context pack stays within its token budget and follows the ranking.
\<close>

subsection \<open>What a response shows\<close>

fun body_memories :: "api_body \<Rightarrow> memory set" where
  "body_memories (Body_Added r) = {ma_memory r}"
| "body_memories (Body_Batch rs) = ma_memory ` set rs"
| "body_memories (Body_Hits hs) = h_memory ` set hs"
| "body_memories (Body_Memories ms) = set ms"
| "body_memories (Body_Memory m) = {m}"
| "body_memories (Body_Provenance p) = insert (pv_memory p) (set (pv_history p))"
| "body_memories (Body_Feedback v m) = {m}"
| "body_memories (Body_Contradictions gs) = (\<Union>g \<in> set gs. set (snd g))"
| "body_memories (Body_Consolidated (Some r)) = {ma_memory r}"
| "body_memories _ = {}"

fun body_items :: "api_body \<Rightarrow> pack_item set" where
  "body_items (Body_Pack pk) = set (pk_memories pk) \<union> set (pk_incidents pk)"
| "body_items _ = {}"

fun body_grants :: "api_body \<Rightarrow> grant_row set" where
  "body_grants (Body_Grants gs) = set gs"
| "body_grants _ = {}"

definition shows_only :: "string \<Rightarrow> api_body response \<Rightarrow> bool" where
  "shows_only t resp \<longleftrightarrow> (case rs_body resp of None \<Rightarrow> True | Some b \<Rightarrow>
     (\<forall>m \<in> body_memories b. of_tenant t m) \<and> (\<forall>i \<in> body_items b. \<exists>m score. of_tenant t m \<and> i = pack_item_of m score) \<and>
     (\<forall>g \<in> body_grants b. g_tenant g = t))"

definition isolated :: "string \<Rightarrow> node \<Rightarrow> reply \<Rightarrow> bool" where
  "isolated t nd = (\<lambda>(resp, nd'). shows_only t resp \<and>
    outside (of_tenant t) (en_store (nd_memory nd')) = outside (of_tenant t) (en_store (nd_memory nd)))"

lemma isolated_error [simp]:
  "isolated t nd (api_error n c m, nd)" "isolated t nd (memory_error E e, nd)" "isolated t nd (cluster_write_error msg, nd)"
  "isolated t nd (missing_field w, nd)" "isolated t nd (invalid_id u, nd)" "isolated t nd (not_found u, nd)" "isolated t nd (not_pending u, nd)"
  by (simp_all add: isolated_def shows_only_def api_error_def memory_error_def cluster_write_error_def missing_field_def
      invalid_id_def not_found_def not_pending_def split: error.split)

lemma error_shows [simp]:
  "shows_only t (api_error n c m)" "shows_only t (memory_error E e)" "shows_only t (cluster_write_error msg)"
  "shows_only t (not_found u)" "shows_only t (not_pending u)"
  by (simp_all add: shows_only_def api_error_def memory_error_def cluster_write_error_def not_found_def not_pending_def split: error.split)

lemma ok_shows: "shows_only t (api_ok b) \<longleftrightarrow> (\<forall>m \<in> body_memories b. of_tenant t m) \<and>
    (\<forall>i \<in> body_items b. \<exists>m score. of_tenant t m \<and> i = pack_item_of m score) \<and> (\<forall>g \<in> body_grants b. g_tenant g = t)"
  by (simp add: shows_only_def api_ok_def)

lemma isolated_stays: "stays S t (nd_memory nd) (nd_memory nd') \<Longrightarrow> shows_only t r \<Longrightarrow> isolated t nd (r, nd')"
  by (simp add: isolated_def stays_def)

lemma isolated_read: "shows_only t r \<Longrightarrow> isolated t nd (r, nd)"
  by (simp add: isolated_def)

subsection \<open>A request of a tenant\<close>

text \<open>What is assumed of the node and of the environment: the primary keys hold, every vector belongs to a stored
  memory and sits in its partition, the tenant and the stored tenants are not empty and do not contain the
  separator of partition keys, and the identifiers drawn for new memories are new and, within a batch, different.
  Nothing is assumed of the full-text index, which a bulk write can leave with retired memories.\<close>

definition filed :: "engine \<Rightarrow> bool" where
  "filed en \<longleftrightarrow> (\<forall>(u, _) \<in> set (sv_id_partition (en_vec en)). \<exists>m \<in> mems (en_store en).
    m_id m = u \<and> map_of (sv_id_partition (en_vec en)) u = Some (scope_partition_key (m_scope m)))"

lemma filedD: "filed en \<Longrightarrow> map_of (sv_id_partition (en_vec en)) u = Some key \<Longrightarrow>
    \<exists>m \<in> mems (en_store en). m_id m = u \<and> key = scope_partition_key (m_scope m)"
  using map_of_SomeD [of "sv_id_partition (en_vec en)" u key] by (fastforce simp: filed_def)

lemma filed_routed:
  assumes "indexed_ok en" "filed en"
  shows "routed en"
proof -
  have inv: "ms_inv (en_store en)" using assms(1) by (simp add: indexed_ok_def)
  have "key = scope_partition_key (m_scope m)" if m: "m \<in> mems (en_store en)" "map_of (sv_id_partition (en_vec en)) (m_id m) = Some key" for m key
  proof -
    obtain m' where m': "m' \<in> mems (en_store en)" "m_id m' = m_id m" "key = scope_partition_key (m_scope m')"
      using filedD [OF assms(2) m(2)] by blast
    then show ?thesis using ms_inv_inj [OF inv m'(1) m(1)] by simp
  qed
  then show ?thesis by (auto simp: routed_def split: option.split)
qed


definition ready :: "gateway_env \<Rightarrow> string \<Rightarrow> node \<Rightarrow> bool" where
  "ready E t nd \<longleftrightarrow> t \<noteq> [] \<and> CHR 0x1F \<notin> set t \<and> indexed_ok (nd_memory nd) \<and> filed (nd_memory nd) \<and>
    (\<forall>m \<in> mems (en_store (nd_memory nd)). CHR 0x1F \<notin> set (sc_tenant_id (m_scope m)) \<and> sc_tenant_id (m_scope m) \<noteq> []) \<and>
    inj_on (\<lambda>n. tk_id (ge_tick E n)) {..<MAX_BATCH_MEMORIES} \<and> (\<forall>n. tk_id (ge_tick E n) \<notin> store_ids (en_store (nd_memory nd))) \<and>
    permutes (sq_iter (ge_search E)) \<and> permutes (sq_values (ge_search E))"

lemma filed_advisory:
  assumes "advisory en" "routed en"
  shows "filed en"
proof -
  have "\<exists>m \<in> mems (en_store en). m_id m = u \<and> map_of (sv_id_partition (en_vec en)) u = Some (scope_partition_key (m_scope m))"
    if ux: "(u, x) \<in> set (sv_id_partition (en_vec en))" for u x
  proof -
    have "map_of (sv_id_partition (en_vec en)) u \<noteq> None" using ux unfolding map_of_eq_None_iff by force
    then obtain key where key: "map_of (sv_id_partition (en_vec en)) u = Some key" by blast
    obtain m where m: "m \<in> mems (en_store en)" "m_id m = u" "m_state m = Active" using indexed_active [OF assms(1) key] .
    then show ?thesis using routedD [OF assms(2) m(1,3)] key by auto
  qed
  then show ?thesis by (auto simp: filed_def)
qed

lemma place:
  assumes "ready E t nd" and "\<And>u. sc_tenant_id (sc u) = t"
  shows "\<exists>S. placed S (nd_memory nd) \<and> clean S \<and> (\<forall>n. S (tk_id (ge_tick E n)) = sc (tk_id (ge_tick E n)))"
proof -
  let ?st = "en_store (nd_memory nd)"
  let ?f = "\<lambda>n. tk_id (ge_tick E n)"
  define S where "S = (\<lambda>u. case ms_get u ?st of Some m \<Rightarrow> m_scope m | None \<Rightarrow> sc u)"
  have adv: "indexed_ok (nd_memory nd)" "filed (nd_memory nd)" using assms(1) by (simp_all add: ready_def)
  then have invs: "ms_inv ?st" "sv_inv (en_vec (nd_memory nd))" by (auto simp: indexed_ok_def)
  have stored: "m_scope m = S (m_id m)" if "m \<in> mems ?st" for m
    using that ms_get_iff [OF invs(1), of "m_id m" m] by (simp add: S_def)
  have "key = scope_partition_key (S u)" if key: "map_of (sv_id_partition (en_vec (nd_memory nd))) u = Some key" for u key
  proof -
    obtain m where m: "m \<in> mems ?st" "m_id m = u" "key = scope_partition_key (m_scope m)"
      using filedD [OF adv(2) key] by blast
    then show ?thesis using stored [OF m(1)] by simp
  qed
  then have "placed S (nd_memory nd)" using invs stored by (simp add: placed_def)
  moreover have "CHR 0x1F \<notin> set (sc_tenant_id (S u)) \<and> sc_tenant_id (S u) \<noteq> []" for u
  proof (cases "ms_get u ?st")
    case None
    then show ?thesis using assms by (simp add: S_def ready_def)
  next
    case (Some m)
    then show ?thesis using assms(1) ms_get_in [OF Some] by (simp add: S_def ready_def)
  qed
  then have "clean S" by (simp add: clean_def)
  moreover have "S (?f n) = sc (?f n)" for n
  proof -
    have "?f n \<notin> store_ids ?st" using assms(1) by (simp add: ready_def)
    then have "ms_get (?f n) ?st = None" using ms_get_in [of "?f n" ?st] by (metis image_eqI not_None_eq store_ids_mems)
    then show ?thesis by (simp add: S_def)
  qed
  ultimately show ?thesis by blast
qed

lemma scope_tenant:
  assumes "ac_tenant_id ctx = Some t"
  shows "sc_tenant_id (scope_of (Some ctx) th f) = t" "sc_tenant_id (review_scope (Some ctx) th u a s) = t"
    "sc_tenant_id (scope_with_header (Some ctx) th x u a s) = t" "auth_tenant (Some ctx) = Some t"
  using assms by (simp_all add: scope_of_def review_scope_def scope_with_header_def scope_from_def auth_tenant_def)

lemma input_inI: "sc_tenant_id (i_scope i) = t \<Longrightarrow> t \<noteq> [] \<Longrightarrow> S (tk_id tk) = i_scope i \<Longrightarrow> input_in S t tk i"
  by (simp add: input_in_def canonical_input_def)

lemma place_input:
  assumes "ready E t nd" and "sc_tenant_id sc = t"
  shows "\<exists>S. placed S (nd_memory nd) \<and> clean S \<and> (\<forall>n i. i_scope i = sc \<longrightarrow> input_in S t (ge_tick E n) i)"
proof -
  have t: "t \<noteq> []" "\<And>u::uuid. sc_tenant_id ((\<lambda>_. sc) u) = t" using assms by (simp_all add: ready_def)
  obtain S where "placed S (nd_memory nd)" "clean S" "\<And>n. S (tk_id (ge_tick E n)) = sc" using place [OF assms(1) t(2)] by blast
  then show ?thesis using input_inI [OF _ t(1)] assms(2) by metis
qed

lemma add_input_scope [simp]:
  "i_scope (add_input auth th req) = scope_of auth th (scope_fields.truncate req)"
  "i_scope (batch_input auth th req) = scope_of auth th (scope_fields.truncate req)"
  "i_scope (external_input auth th x) = scope_of auth th (scope_fields.truncate x)"
  by (simp_all add: add_input_def batch_input_def external_input_def Let_def)

lemma on_memory_simp [simp]: "nd_memory (on_memory nd en) = en"
  by (simp add: on_memory_def)

lemma client_upsert:
  assumes "replicate_write E coord n (Req_MemoryUpsert rows) nd = (r, nd')" and "placed S (nd_memory nd)" and "\<forall>x \<in> set rows. row_in S t x"
  shows "stays S t (nd_memory nd) (nd_memory nd')"
  using assms apply_rows_stay [OF assms(2), of rows t]
  by (auto simp: replicate_write_def apply_request_def memory_apply_rows_def stays_refl split: option.splits prod.splits sum.splits)

lemma client_expire:
  assumes "replicate_write E coord n (Req_MemoryExpire ids) nd = (r, nd')" and "placed S (nd_memory nd)" and "\<forall>u \<in> set ids. sc_tenant_id (S u) = t"
  shows "stays S t (nd_memory nd) (nd_memory nd')"
  using assms expire_ids_stay [OF assms(2), of ids t]
  by (auto simp: replicate_write_def apply_request_def stays_refl split: option.splits prod.splits sum.splits)

lemma plan_stays:
  assumes "memory_plan P cfg tk i en = Inr (res, rows)" and "placed S en" "clean S" "input_in S t tk i"
  shows "\<forall>r \<in> set rows. row_in S t r" and "of_tenant t (ma_memory res)"
  using planned_in [OF assms(1) [unfolded memory_plan_def] assms(2-4)] by simp_all

subsection \<open>Writes\<close>

lemma add_isolated:
  assumes "placed S (nd_memory nd)" "clean S" "input_in S t (ge_tick E 0) i"
  shows "isolated t nd (case memory_add (ge_ports E) cfg (ge_tick E 0) i (nd_memory nd) of
      Inl e \<Rightarrow> (memory_error E e, nd) | Inr (added, en) \<Rightarrow> (api_ok (Body_Added added), on_memory nd en))"
  using memory_add_stays [OF _ assms]
  by (auto simp: ok_shows intro!: isolated_stays split: sum.split prod.split)

lemma replicated_isolated:
  assumes "placed S (nd_memory nd)" and "\<forall>r \<in> set rows. row_in S t r" and "shows_only t ok"
  shows "isolated t nd (case replicate_write E coord n (Req_MemoryUpsert rows) nd of
      (None, nd') \<Rightarrow> (ok, nd') | (Some msg, nd') \<Rightarrow> (cluster_write_error msg, nd'))"
  using client_upsert [OF _ assms(1,2)] assms(3) by (auto intro!: isolated_stays split: prod.split option.split)

lemma memory_add_isolated:
  assumes "ready E t nd" and "ac_tenant_id ctx = Some t"
  shows "isolated t nd (memory_add_handler E (Some ctx) th req nd)"
proof -
  let ?i = "add_input (Some ctx) th req"
  have t: "sc_tenant_id (i_scope ?i) = t" using assms by (simp add: scope_tenant)
  obtain S where S: "placed S (nd_memory nd)" "clean S" "\<And>n i. i_scope i = i_scope ?i \<Longrightarrow> input_in S t (ge_tick E n) i"
    using place_input [OF assms(1) t] by blast
  have i: "input_in S t (ge_tick E 0) ?i" by (rule S(3)) simp
  have "isolated t nd (case memory_plan (ge_ports E) (ge_cognition E) (ge_tick E 0) ?i (nd_memory nd) of
      Inl e \<Rightarrow> (memory_error E e, nd)
    | Inr (result, rows) \<Rightarrow> (case replicate_write E coord 0 (Req_MemoryUpsert rows) nd of
        (None, nd') \<Rightarrow> (api_ok (Body_Added result), nd') | (Some msg, nd') \<Rightarrow> (cluster_write_error msg, nd')))" for coord
    using plan_stays [OF _ S(1,2) i, of "ge_ports E" "ge_cognition E"] replicated_isolated [OF S(1)]
    by (auto simp: ok_shows split: sum.split)
  then show ?thesis using add_isolated [OF S(1,2) i, of "ge_cognition E"] by (simp add: memory_add_handler_def Let_def split: option.split)
qed

lemma propose_isolated:
  assumes "ready E t nd" and "ac_tenant_id ctx = Some t"
  shows "isolated t nd (memory_propose_handler E (Some ctx) th req nd)"
proof -
  let ?i = "add_input (Some ctx) th req"
  have t: "sc_tenant_id (i_scope ?i) = t" using assms by (simp add: scope_tenant)
  obtain S where S: "placed S (nd_memory nd)" "clean S" "\<And>n i. i_scope i = i_scope ?i \<Longrightarrow> input_in S t (ge_tick E n) i"
    using place_input [OF assms(1) t] by blast
  have i: "input_in S t (ge_tick E 0) ?i" by (rule S(3)) simp
  show ?thesis using propose_stays [OF _ S(1) i, of "ge_ports E" "ge_cognition E"]
    by (auto simp: memory_propose_handler_def ok_shows intro!: isolated_stays split: sum.split)
qed

lemma external_isolated:
  assumes "ready E t nd" and "ac_tenant_id ctx = Some t"
  shows "isolated t nd (memory_upsert_by_external_id E (Some ctx) th req nd)"
proof -
  let ?i = "external_input (Some ctx) th req"
  have t: "sc_tenant_id (i_scope ?i) = t" using assms by (simp add: scope_tenant)
  obtain S where S: "placed S (nd_memory nd)" "clean S" "\<And>n i. i_scope i = i_scope ?i \<Longrightarrow> input_in S t (ge_tick E n) i"
    using place_input [OF assms(1) t] by blast
  have i: "input_in S t (ge_tick E 0) ?i" by (rule S(3)) simp
  show ?thesis using add_isolated [OF S(1,2) i, of "ge_cognition E"] by (simp add: memory_upsert_by_external_id_def)
qed

lemma batch_replicate_isolated:
  assumes "placed S (nd_memory nd)" "clean S" "\<forall>r \<in> set results. of_tenant t (ma_memory r)"
    and "\<And>n. n < length is \<Longrightarrow> input_in S t (ge_tick E (length results + n)) (is ! n)"
  shows "isolated t nd (batch_replicate E coord is results nd)"
  using assms
proof (induction E coord "is" results nd rule: batch_replicate.induct)
  case (1 E coord results nd)
  then show ?case by (auto simp: ok_shows intro!: isolated_read)
next
  case (2 E coord i "is" results nd)
  show ?case
  proof (cases "memory_plan (ge_ports E) (ge_cognition E) (ge_tick E (length results)) i (nd_memory nd)")
    case (Inr p)
    obtain result rows where p: "p = (result, rows)" by fastforce
    have i: "input_in S t (ge_tick E (length results)) i" using 2(5) [of 0] by simp
    note pl = plan_stays [OF Inr [unfolded p] 2(2,3) i]
    obtain r nd' where w: "replicate_write E coord (length results) (Req_MemoryUpsert rows) nd = (r, nd')" by fastforce
    have one: "stays S t (nd_memory nd) (nd_memory nd')" by (rule client_upsert [OF w 2(2) pl(1)])
    have "isolated t nd' (batch_replicate E coord is (results @ [result]) nd')" if "r = None"
      by (rule 2(1) [OF Inr p [symmetric] w [symmetric] that stays_placed [OF one] 2(3)])
        (use 2(4) 2(5) [of "Suc _"] pl(2) in auto)
    then show ?thesis using Inr p w one by (cases r) (auto simp: isolated_def stays_def intro!: isolated_stays)
  qed simp
qed

lemma batch_isolated:
  assumes "ready E t nd" and "ac_tenant_id ctx = Some t"
  shows "isolated t nd (memory_add_batch_handler E (Some ctx) th ms nd)"
proof (cases "length ms \<le> MAX_BATCH_MEMORIES")
  case len: True
  let ?is = "map (batch_input (Some ctx) th) ms"
  let ?f = "\<lambda>n. tk_id (ge_tick E n)"
  let ?sc = "\<lambda>u. let n = the_inv_into {..<MAX_BATCH_MEMORIES} ?f u
    in if n < length ?is then i_scope (?is ! n) else scope_with_header (Some ctx) th None None None None"
  have t: "t \<noteq> []" "\<And>u. sc_tenant_id (?sc u) = t" and inj: "inj_on ?f {..<MAX_BATCH_MEMORIES}"
    using assms by (simp_all add: ready_def scope_tenant Let_def)
  obtain S where S: "placed S (nd_memory nd)" "clean S" "\<And>n. S (?f n) = ?sc (?f n)"
    using place [where sc = ?sc, OF assms(1) t(2)] by blast
  have i: "input_in S t (ge_tick E n) (?is ! n)" if "n < length ?is" for n
    by (rule input_inI) (use t(1) S(3) [of n] that len the_inv_into_f_f [OF inj, of n] assms(2) in \<open>simp_all add: scope_tenant Let_def\<close>)
  have zip: "input_in S t tk x" if "(tk, x) \<in> set (zip (map (ge_tick E) [0..<length ?is]) ?is)" for tk x
    using that i by (auto simp: in_set_zip)
  have "isolated t nd (case memory_add_batch (ge_ports E) (ge_cognition E) (map (ge_tick E) [0..<length ?is]) ?is (nd_memory nd) of
      Inl e \<Rightarrow> (memory_error E e, nd) | Inr (added, en) \<Rightarrow> (api_ok (Body_Batch added), on_memory nd en))"
    using add_batch_stays [OF _ S(1,2) zip, of "ge_ports E" "ge_cognition E"]
    by (auto simp: ok_shows intro!: isolated_stays split: sum.split prod.split)
  moreover have "isolated t nd (batch_replicate E coord ?is [] nd)" for coord
    by (rule batch_replicate_isolated [OF S(1,2)]) (use i in simp_all)
  ultimately show ?thesis by (simp add: memory_add_batch_handler_def Let_def split: option.split)
qed (simp add: memory_add_batch_handler_def)

lemma document_ingest_isolated:
  assumes "ready E t nd" and "ac_tenant_id ctx = Some t"
  shows "isolated t nd (document_ingest_handler E (Some ctx) th req nd)"
proof -
  let ?sc = "scope_of (Some ctx) th (scope_fields.truncate req)"
  let ?doc = "document_of_request req" and ?opts = "chunk_opts_of (dq_target_chars req)"
  have t: "sc_tenant_id ?sc = t" "t \<noteq> []" using assms by (simp_all add: scope_tenant ready_def)
  obtain S where S: "placed S (nd_memory nd)" "clean S" "\<And>n i. i_scope i = ?sc \<Longrightarrow> input_in S t (ge_tick E n) i"
    using place_input [OF assms(1) t(1)] by blast
  have "input_in S t tk i" if "(tk, i) \<in> set (zip (map (ge_tick E) [0..<length (document_inputs ?doc ?sc ?opts)]) (document_inputs ?doc ?sc ?opts))" for tk i
  proof -
    have "i \<in> set (document_inputs ?doc ?sc ?opts)" "tk \<in> ge_tick E ` UNIV" using that by (auto simp: in_set_zip)
    then show ?thesis using S(3) by (auto simp: document_inputs_def chunk_input_def split: prod.splits)
  qed
  from document_ingest_stays [OF _ S(1,2) t this]
  show ?thesis by (auto simp: document_ingest_handler_def Let_def ok_shows intro!: isolated_stays split: sum.split)
qed

lemma document_prune_isolated:
  assumes "ready E t nd" and "ac_tenant_id ctx = Some t"
  shows "isolated t nd (document_prune_handler E (Some ctx) th req nd)"
proof -
  let ?sc = "scope_of (Some ctx) th (scope_fields.truncate req)"
  have t: "sc_tenant_id ?sc = t" "t \<noteq> []" using assms by (simp_all add: scope_tenant ready_def)
  obtain S where S: "placed S (nd_memory nd)" using place_input [OF assms(1) t(1)] by blast
  from document_prune_stays [OF _ S t, of "ge_now E 0"]
  show ?thesis by (auto simp: document_prune_handler_def ok_shows intro!: isolated_stays split: sum.split)
qed

lemma delete_isolated:
  assumes "placed S (nd_memory nd)" and "ac_tenant_id ctx = Some t"
  shows "isolated t nd (memory_delete_handler E (Some ctx) uid nd)"
proof -
  have "isolated t nd (case memory_delete_scoped u t (nd_memory nd) of
      (True, en) \<Rightarrow> (api_ok Body_Deleted, on_memory nd en) | (False, en) \<Rightarrow> (not_found uid, on_memory nd en))" for u
    using delete_scoped_stays [OF assms(1), of t u] by (auto simp: ok_shows intro!: isolated_stays split: prod.split bool.split)
  then show ?thesis using assms(2) by (simp add: memory_delete_handler_def scope_tenant split: option.split)
qed

lemma update_isolated:
  assumes "placed S (nd_memory nd)" and "ac_tenant_id ctx = Some t"
  shows "isolated t nd (memory_update_handler E (Some ctx) uid patch nd)"
proof (cases "ge_parse_uuid E uid")
  case (Some u)
  let ?plan = "memory_update_plan (reembedding E patch) (ge_now E 0) u patch (Some t) (nd_memory nd)"
  have local: "isolated t nd (case memory_update (ge_ports E) (ge_cognition E) (reembedding E patch) (ge_now E 0) u patch (Some t) (nd_memory nd) of
      (Some m, en) \<Rightarrow> (api_ok (Body_Memory m), on_memory nd en) | (None, en) \<Rightarrow> (not_found uid, on_memory nd en))"
    using update_plan_in [OF _ assms(1)] apply_rows_stay [OF assms(1)] stays_refl [OF assms(1)]
    by (auto simp: memory_update_def memory_apply_rows_def ok_shows intro!: isolated_stays [where S = S] split: option.split)
  have "isolated t nd (case ?plan of None \<Rightarrow> (not_found uid, nd) | Some (updated, rows) \<Rightarrow>
      (case replicate_write E coord 0 (Req_MemoryUpsert rows) nd of
         (None, nd') \<Rightarrow> (api_ok (Body_Memory updated), nd') | (Some msg, nd') \<Rightarrow> (cluster_write_error msg, nd')))" for coord
    using update_plan_in [OF _ assms(1)] replicated_isolated [OF assms(1)] by (auto simp: ok_shows split: option.split)
  then show ?thesis using local Some assms(2) by (simp add: memory_update_handler_def scope_tenant split: option.split)
qed (simp add: memory_update_handler_def)

lemma feedback_isolated:
  assumes "placed S (nd_memory nd)" and "ac_tenant_id ctx = Some t"
  shows "isolated t nd (memory_feedback_handler E (Some ctx) uid verdict nd)"
proof (cases "ge_parse_uuid E uid")
  case (Some u)
  have "isolated t nd (case ge_cluster E of
        Some coord \<Rightarrow> (case replicate_write E coord 0 (case action of Reinforce rows \<Rightarrow> Req_MemoryUpsert rows | Retire ids \<Rightarrow> Req_MemoryExpire ids) nd of
           (None, nd') \<Rightarrow> (api_ok (Body_Feedback verdict m), nd') | (Some msg, nd') \<Rightarrow> (cluster_write_error msg, nd'))
      | None \<Rightarrow> (api_ok (Body_Feedback verdict m),
          on_memory nd (memory_feedback_apply (ge_ports E) (ge_cognition E) (ge_now E 1) action (nd_memory nd))))"
    if plan: "memory_feedback_plan (ge_now E 0) u (Some t) v (nd_memory nd) = Some (m, action)" for v m action
  proof -
    note f = feedback_in [OF plan assms(1)]
    have "stays S t (nd_memory nd) (nd_memory nd')"
      if "replicate_write E coord 0 (case action of Reinforce rows \<Rightarrow> Req_MemoryUpsert rows | Retire ids \<Rightarrow> Req_MemoryExpire ids) nd = (r, nd')" for coord r nd'
      using that client_upsert [OF _ assms(1)] client_expire [OF _ assms(1)] f(2,3) by (cases action) auto
    then show ?thesis using f(1) feedback_stays [OF plan assms(1), of "ge_ports E" "ge_cognition E" "ge_now E 1"]
      by (auto simp: ok_shows intro!: isolated_stays split: option.split prod.split)
  qed
  then show ?thesis using Some assms(2)
    by (auto simp: memory_feedback_handler_def scope_tenant split: option.split prod.split)
qed (simp add: memory_feedback_handler_def)

lemma resolve_isolated:
  assumes "placed S (nd_memory nd)" and "sc_tenant_id scope = t" "t \<noteq> []"
  shows "isolated t nd (memory_resolve_contradiction E scope subject keep nd)"
proof (cases "memory_resolve_plan (ge_now E 0) scope subject keep (nd_memory nd)")
  case (Inr rows)
  note rows = resolve_plan_in [OF Inr assms]
  have "stays S t (nd_memory nd) (snd (memory_apply_rows (ge_ports E) (ge_cognition E) rows (nd_memory nd)))"
    using apply_rows_stay [OF assms(1), of rows t] rows by (simp add: memory_apply_rows_def)
  then show ?thesis using replicated_isolated [OF assms(1) rows] Inr
    by (auto simp: memory_resolve_contradiction_def ok_shows intro!: isolated_stays split: option.split)
qed (simp add: memory_resolve_contradiction_def)

lemma accept_isolated:
  assumes "ready E t nd" and "ac_tenant_id ctx = Some t"
  shows "isolated t nd (pending_accept E (Some ctx) th uid nd)"
proof (cases "ge_parse_uuid E uid")
  case (Some u)
  let ?sc = "case pending_of u t (nd_memory nd) of Some p \<Rightarrow> m_scope p | None \<Rightarrow> scope_with_header (Some ctx) th None None None None"
  have "ms_inv (en_store (nd_memory nd))" using assms(1) by (auto simp: ready_def indexed_ok_def)
  then have "sc_tenant_id ?sc = t" using assms(2) by (auto simp: scope_tenant pending_of_iff split: option.split)
  then obtain S where S: "placed S (nd_memory nd)" "clean S" "\<And>n i. i_scope i = ?sc \<Longrightarrow> input_in S t (ge_tick E n) i"
    using place_input [OF assms(1)] by blast
  have "input_in S t (ge_tick E 0) (input_of_proposal p)" if "pending_of u t (nd_memory nd) = Some p" for p
    by (rule S(3)) (simp add: that input_of_proposal_def)
  from accept_stays [OF _ S(1,2) this, of "ge_ports E" "ge_cognition E" "ge_now E 0"]
  show ?thesis using Some assms(2)
    by (auto simp: pending_accept_def proposal_target_def scope_tenant ok_shows intro!: isolated_stays split: sum.split option.split)
qed (simp add: pending_accept_def proposal_target_def)

lemma reject_isolated:
  assumes "placed S (nd_memory nd)" and "ac_tenant_id ctx = Some t"
  shows "isolated t nd (pending_reject E (Some ctx) th uid nd)"
proof (cases "ge_parse_uuid E uid")
  case (Some u)
  have "isolated t nd (case memory_reject (ge_ports E) (ge_now E 0) u t (nd_memory nd) of
      (True, en) \<Rightarrow> (api_ok Body_Rejected, on_memory nd en) | (False, en) \<Rightarrow> (not_pending uid, on_memory nd en))"
    using reject_stays [OF assms(1), of t "ge_ports E" "ge_now E 0" u] by (auto simp: ok_shows intro!: isolated_stays split: prod.split bool.split)
  then show ?thesis using Some assms(2) by (simp add: pending_reject_def proposal_target_def scope_tenant)
qed (simp add: pending_reject_def proposal_target_def)

subsection \<open>Maintenance\<close>

lemma same_memories: "mems (en_store (nd_memory nd')) = mems (en_store (nd_memory nd)) \<Longrightarrow> shows_only t r \<Longrightarrow> isolated t nd (r, nd')"
  by (simp add: isolated_def outside_def)

lemma restored_rows:
  assumes "ms_inv (en_store en)" and "mr_memory ` set rows \<subseteq> mems (en_store en)"
  shows "mems (en_store (fold (apply_row P cfg) rows en)) = mems (en_store en)"
proof -
  have "map mr_memory (st_memories (en_store (fold (apply_row P cfg) rows en))) = map mr_memory (st_memories (en_store en))"
    unfolding fold_apply_memories
    by (rule fold_put_same_memories [OF ms_inv_rows [OF assms(1)]]) (use assms(2) in \<open>simp add: mems_def\<close>)
  then show ?thesis unfolding mems_def by (metis set_map)
qed

lemma reembed_isolated:
  assumes "placed S (nd_memory nd)"
  shows "isolated t nd (memory_reembed_handler E limit nd)"
proof -
  have inv: "ms_inv (en_store (nd_memory nd))" using assms by (simp add: placed_def)
  note same = restored_rows [OF inv reembed_rows_stored]
  have "mems (en_store (nd_memory nd')) = mems (en_store (nd_memory nd))"
    if "replicate_write E coord 0 (Req_MemoryUpsert (memory_reembed_plan em P n (nd_memory nd))) nd = (r, nd')" for coord r nd' em P n
    using that same
    by (auto simp: replicate_write_def apply_request_def memory_apply_rows_def split: option.splits prod.splits sum.splits)
  then show ?thesis using same
    by (auto simp: memory_reembed_handler_def Let_def memory_apply_rows_def ok_shows intro!: same_memories isolated_read
        split: option.split prod.split)
qed

text \<open>A summary of memories of the tenant, written before they expire.\<close>

lemma fold_stays:
  assumes "memory_add P cfg tk input en = Inr (res, en1)" and "placed S en" "clean S" "input_in S t tk input"
    and "\<forall>u \<in> set expired. sc_tenant_id (S u) = t"
  shows "stays S t en (expire_ids clock expired en1)" and "of_tenant t (ma_memory res)"
proof -
  note one = memory_add_stays [OF assms(1-4)]
  show "of_tenant t (ma_memory res)" by (rule one(2))
  show "stays S t en (expire_ids clock expired en1)"
    using stays_trans [OF one(1) expire_ids_stay [OF stays_placed [OF one(1)]]] assms(5) by blast
qed

definition plans_in :: "(uuid \<Rightarrow> memory_scope) \<Rightarrow> string \<Rightarrow> (nat \<Rightarrow> tick) \<Rightarrow> (memory_input \<times> uuid list) list \<Rightarrow> bool" where
  "plans_in S t tk plans \<longleftrightarrow> (\<forall>p \<in> set plans. (\<forall>n. input_in S t (tk n) (fst p)) \<and> (\<forall>u \<in> set (snd p). sc_tenant_id (S u) = t))"

lemma fold_plans_stays:
  assumes "placed S en" "clean S" and "plans_in S t tk plans"
  shows "stays S t en (snd (fold_plans P cfg tk clock n plans en))"
  using assms
proof (induction plans arbitrary: n en)
  case (Cons p plans)
  obtain input expired where p: "p = (input, expired)" by fastforce
  show ?case
  proof (cases "memory_add P cfg (tk n) input en")
    case (Inr q)
    obtain res en1 where q: "q = (res, en1)" by fastforce
    have one: "stays S t en (expire_ids (clock n) expired en1)"
      by (rule fold_stays(1) [OF Inr [unfolded q] Cons.prems(1,2)]) (use Cons.prems(3) p in \<open>auto simp: plans_in_def\<close>)
    have "stays S t (expire_ids (clock n) expired en1) (snd (fold_plans P cfg tk clock (n + 1) plans (expire_ids (clock n) expired en1)))"
      using Cons.IH [OF stays_placed [OF one] Cons.prems(2)] Cons.prems(3) by (simp add: plans_in_def)
    from stays_trans [OF one this] show ?thesis by (simp add: p Inr q)
  qed (simp add: p stays_refl Cons.prems(1))
qed (simp add: stays_refl)

lemma replicate_fold_stays:
  assumes "replicate_fold E coord n input expired nd = (r, nd')" and "placed S (nd_memory nd)" "clean S" "input_in S t (ge_tick E n) input"
    and "\<forall>u \<in> set expired. sc_tenant_id (S u) = t"
  shows "stays S t (nd_memory nd) (nd_memory nd')" and "r = Inr res \<Longrightarrow> of_tenant t (ma_memory res)" and "r = Inl resp \<Longrightarrow> shows_only t resp"
proof -
  have "stays S t (nd_memory nd) (nd_memory nd') \<and> (case r of Inr res \<Rightarrow> of_tenant t (ma_memory res) | Inl resp \<Rightarrow> shows_only t resp)"
  proof (cases "memory_plan (ge_ports E) (ge_cognition E) (ge_tick E n) input (nd_memory nd)")
    case (Inl e)
    then show ?thesis using assms(1,2) by (auto simp: replicate_fold_def stays_refl)
  next
    case (Inr p)
    obtain result rows where p: "p = (result, rows)" by fastforce
    note pl = plan_stays [OF Inr [unfolded p] assms(2-4)]
    obtain r1 nd1 where w1: "replicate_write E coord (2 * n) (Req_MemoryUpsert rows) nd = (r1, nd1)" by fastforce
    have one: "stays S t (nd_memory nd) (nd_memory nd1)" by (rule client_upsert [OF w1 assms(2) pl(1)])
    obtain r2 nd2 where w2: "replicate_write E coord (2 * n + 1) (Req_MemoryExpire expired) nd1 = (r2, nd2)" by fastforce
    have two: "stays S t (nd_memory nd1) (nd_memory nd2)" by (rule client_expire [OF w2 stays_placed [OF one] assms(5)])
    show ?thesis using assms(1) Inr p w1 w2 one stays_trans [OF one two] pl(2)
      by (cases r1; cases r2) (auto simp: replicate_fold_def)
  qed
  then show "stays S t (nd_memory nd) (nd_memory nd')" "r = Inr res \<Longrightarrow> of_tenant t (ma_memory res)" "r = Inl resp \<Longrightarrow> shows_only t resp"
    by auto
qed

lemma replicate_folds_stays:
  assumes "placed S (nd_memory nd)" "clean S" and "plans_in S t (ge_tick E) plans"
    and "replicate_folds E coord c n plans nd = (resp, nd')"
  shows "stays S t (nd_memory nd) (nd_memory nd') \<and> shows_only t resp"
  using assms
proof (induction plans arbitrary: n nd)
  case (Cons p plans)
  obtain input expired where p: "p = (input, expired)" by fastforce
  obtain r nd1 where w: "replicate_fold E coord n input expired nd = (r, nd1)" by fastforce
  have i: "input_in S t (ge_tick E n) input" "\<forall>u \<in> set expired. sc_tenant_id (S u) = t"
    using Cons.prems(3) p by (auto simp: plans_in_def)
  note one = replicate_fold_stays [OF w Cons.prems(1,2) i]
  show ?case
  proof (cases r)
    case (Inl e)
    then show ?thesis using Cons.prems(4) p w one by auto
  next
    case (Inr res)
    then have "replicate_folds E coord c (n + 1) plans nd1 = (resp, nd')" using Cons.prems(4) p w by simp
    then have "stays S t (nd_memory nd1) (nd_memory nd') \<and> shows_only t resp"
      using Cons.IH [OF stays_placed [OF one(1)] Cons.prems(2)] Cons.prems(3) by (simp add: plans_in_def)
    then show ?thesis using stays_trans [OF one(1)] by blast
  qed
qed (auto simp: stays_refl ok_shows)

lemma active_in:
  assumes "placed S en" and "sc_tenant_id scope = t" "t \<noteq> []" and "m \<in> set (list_active scope n (en_store en))"
  shows "of_tenant t m" and "sc_tenant_id (S (m_id m)) = t"
proof -
  have "m \<in> mems (en_store en)" "m_scope m = norm_scope scope"
    using assms(4) by (auto simp: list_active_def scope_where_iff dest!: in_set_takeD)
  then show "of_tenant t m" "sc_tenant_id (S (m_id m)) = t" using assms(1-3) by (auto simp: placed_def of_tenant_def norm_scope_def)
qed

lemma consolidate_plan_in:
  assumes "memory_consolidate_plan L P cfg scope keep en = Some (input, expired)" and "placed S en" "sc_tenant_id scope = t" "t \<noteq> []"
  shows "i_scope input = scope" and "\<forall>u \<in> set expired. sc_tenant_id (S u) = t"
  using assms(1) active_in(2) [OF assms(2-4)]
  by (auto simp: memory_consolidate_plan_def Let_def memory_input_new_def split: if_splits dest!: in_set_dropD)

lemma similar_loop_in:
  assumes "similar_loop L P scope threshold k en ms grouped plans = Inr plans'" and "placed S en" "clean S"
    and "sc_tenant_id scope = t" "t \<noteq> []" "CHR 0x1F \<notin> set t"
    and "\<forall>p \<in> set plans. i_scope (fst p) = scope \<and> (\<forall>u \<in> set (snd p). sc_tenant_id (S u) = t)"
  shows "\<forall>p \<in> set plans'. i_scope (fst p) = scope \<and> (\<forall>u \<in> set (snd p). sc_tenant_id (S u) = t)"
  using assms
proof (induction L P scope threshold k en ms grouped plans rule: similar_loop.induct)
  case (2 L P scope threshold k en m v rest grouped plans)
  show ?case
  proof (cases "m_id m \<in> grouped")
    case False
    then obtain hits where hits: "memory_index_search P v scope k en = Inr hits" using 2(4) by (auto simp: res_bind_Inr_iff)
    let ?cluster = "map h_memory (filter (\<lambda>h. h_score h \<ge> threshold \<and> m_id (h_memory h) \<notin> grouped) hits)"
    have "sc_tenant_id (S (m_id (h_memory h))) = t" if "h \<in> set hits" for h
      using index_hits_in(3) [OF 2(5,6) hits that] 2(7-9) by simp
    then have ok: "\<forall>p \<in> set (plans @ [(cluster_input L P scope ?cluster, map m_id ?cluster)]).
        i_scope (fst p) = scope \<and> (\<forall>u \<in> set (snd p). sc_tenant_id (S u) = t)"
      using 2(10) by (auto simp: cluster_input_def memory_input_new_def)
    show ?thesis
    proof (cases "length ?cluster < 2")
      case True
      show ?thesis by (rule 2(2) [OF False refl True]) (use 2(4-10) False hits True in \<open>simp_all add: Let_def\<close>)
    next
      case less: False
      show ?thesis by (rule 2(3) [OF False refl less]) (use 2(4-9) False hits less ok in \<open>simp_all add: Let_def\<close>)
    qed
  qed (use 2(1,4-10) in simp)
qed simp

lemma consolidate_isolated:
  assumes "ready E t nd" and "sc_tenant_id scope = t"
  shows "isolated t nd (memory_consolidate_handler E scope keep nd)"
proof -
  have t: "t \<noteq> []" using assms(1) by (simp add: ready_def)
  obtain S where S: "placed S (nd_memory nd)" "clean S" "\<And>n i. i_scope i = scope \<Longrightarrow> input_in S t (ge_tick E n) i"
    using place_input [OF assms] by blast
  let ?keep = "case keep of Some k \<Rightarrow> k | None \<Rightarrow> 20"
  show ?thesis
  proof (cases "memory_consolidate_plan (ge_llm E) (ge_ports E) (ge_cognition E) scope ?keep (nd_memory nd)")
    case None
    then show ?thesis by (auto simp: memory_consolidate_handler_def Let_def memory_consolidate_def on_memory_def ok_shows intro!: isolated_read split: option.split)
  next
    case (Some p)
    obtain input expired where p: "p = (input, expired)" by fastforce
    note pl = consolidate_plan_in [OF Some [unfolded p] S(1) assms(2) t]
    have i: "input_in S t (ge_tick E n) input" for n by (rule S(3) [OF pl(1)])
    have "isolated t nd (case replicate_fold E coord 0 input expired nd of
        (Inl r, nd') \<Rightarrow> (r, nd') | (Inr result, nd') \<Rightarrow> (api_ok (Body_Consolidated (Some result)), nd'))" for coord
      using replicate_fold_stays [OF _ S(1,2) i pl(2)]
      by (auto simp: ok_shows intro!: isolated_stays [where S = S] split: prod.split sum.split)
    moreover have "isolated t nd (case memory_consolidate (ge_llm E) (ge_ports E) (ge_cognition E) (ge_tick E 0) (ge_clock E 0) scope ?keep (nd_memory nd) of
        (Inr m, en) \<Rightarrow> (api_ok (Body_Consolidated m), on_memory nd en) | (Inl e, en) \<Rightarrow> (memory_error E e, on_memory nd en))"
      using fold_stays [OF _ S(1,2) i pl(2)] stays_refl [OF S(1)]
      by (auto simp: memory_consolidate_def Some p ok_shows intro!: isolated_stays [where S = S] split: sum.split)
    ultimately show ?thesis using Some p by (simp add: memory_consolidate_handler_def Let_def split: option.split)
  qed
qed

lemma consolidate_similar_isolated:
  assumes "ready E t nd" and "sc_tenant_id scope = t"
  shows "isolated t nd (memory_consolidate_similar_handler E scope threshold nd)"
proof -
  have t: "t \<noteq> []" "CHR 0x1F \<notin> set t" using assms(1) by (simp_all add: ready_def)
  obtain S where S: "placed S (nd_memory nd)" "clean S" "\<And>n i. i_scope i = scope \<Longrightarrow> input_in S t (ge_tick E n) i"
    using place_input [OF assms] by blast
  let ?th = "case threshold of Some t \<Rightarrow> t | None \<Rightarrow> 92/100"
  show ?thesis
  proof (cases "memory_consolidate_similar_plan (ge_llm E) (ge_ports E) (ge_cfg E) scope ?th (nd_memory nd)")
    case (Inr plans)
    then have pl: "\<forall>p \<in> set plans. i_scope (fst p) = scope \<and> (\<forall>u \<in> set (snd p). sc_tenant_id (S u) = t)"
      unfolding memory_consolidate_similar_plan_def by (rule similar_loop_in [OF _ S(1,2) assms(2) t]) simp
    then have ins: "plans_in S t (ge_tick E) plans" using S(3) by (simp add: plans_in_def)
    have "isolated t nd (replicate_folds E coord c n plans nd)" for coord c n
      using replicate_folds_stays [OF S(1,2) ins] by (cases "replicate_folds E coord c n plans nd") (auto intro!: isolated_stays [where S = S])
    moreover have "isolated t nd (case fold_plans (ge_ports E) (ge_cognition E) (ge_tick E) (ge_clock E) 0 plans (nd_memory nd) of
        (Some e, en) \<Rightarrow> (memory_error E e, on_memory nd en) | (None, en) \<Rightarrow> (api_ok (Body_Count (length plans)), on_memory nd en))"
      using fold_plans_stays [OF S(1,2) ins, of "ge_ports E" "ge_cognition E" "ge_clock E" 0]
      by (auto simp: ok_shows intro!: isolated_stays [where S = S] split: prod.split option.split)
    ultimately show ?thesis using Inr by (simp add: memory_consolidate_similar_handler_def Let_def split: option.split)
  qed (simp add: memory_consolidate_similar_handler_def)
qed

subsection \<open>Edges and grants\<close>

lemma edge_memories [simp]: "mems (add_edge tenant e st) = mems st" "mems (snd (supersede_edges tenant src rel now by_id st)) = mems st"
  by (simp_all add: add_edge_def supersede_edges_def mems_def Let_def)

lemma link_isolated: "isolated t nd (memory_link_handler E auth src rel dst close nd)"
proof -
  have add: "mems (en_store (nd_memory nd')) = mems (en_store (nd_memory nd))"
    if "replicate_write E coord n (Req_GraphAddEdge tn e) nd = (r, nd')" for coord n tn e r nd nd'
    using that by (auto simp: replicate_write_def apply_request_def graph_apply_edge_def split: option.splits)
  have sup: "mems (en_store (nd_memory nd')) = mems (en_store (nd_memory nd))"
    if "replicate_write E coord n (Req_GraphSupersede tn a b c d) nd = (r, nd')" for coord n tn a b c d r nd nd'
    using that edge_memories(2) unfolding replicate_write_def apply_request_def graph_supersede_apply_def
    by (auto split: option.splits prod.splits) (metis edge_memories(2) snd_conv)+
  have "isolated t nd (case replicate_write E coord 0 (Req_GraphSupersede tn a b c d) nd of
        (Some msg, nd1) \<Rightarrow> (cluster_write_error msg, nd1)
      | (None, nd1) \<Rightarrow> (case replicate_write E coord 1 (Req_GraphAddEdge tn e) nd1 of
          (None, nd2) \<Rightarrow> (api_ok Body_Status, nd2) | (Some msg, nd2) \<Rightarrow> (cluster_write_error msg, nd2)))" for coord tn a b c d e
    using add sup by (auto simp: ok_shows intro!: same_memories split: prod.split option.split)
  moreover have "isolated t nd (case replicate_write E coord 0 (Req_GraphAddEdge tn e) nd of
          (None, nd2) \<Rightarrow> (api_ok Body_Status, nd2) | (Some msg, nd2) \<Rightarrow> (cluster_write_error msg, nd2))" for coord tn e
    using add by (auto simp: ok_shows intro!: same_memories split: prod.split option.split)
  moreover have "mems (en_store (memory_link_functional uid now tn src rel dst sc en)) = mems (en_store en)"
    "mems (en_store (memory_link uid now tn src rel dst sc en)) = mems (en_store en)" for uid now tn sc en
    using edge_memories(2) [of tn src rel now "Some uid" "en_store en"]
    by (cases "supersede_edges tn src rel now (Some uid) (en_store en)"; simp add: memory_link_functional_def memory_link_def)+
  then have "isolated t nd (api_ok Body_Status, on_memory nd (if close then memory_link_functional uid now tn src rel dst None (nd_memory nd)
      else memory_link uid now tn src rel dst None (nd_memory nd)))" for uid now tn
    by (auto simp: ok_shows intro!: same_memories)
  ultimately show ?thesis by (cases close) (simp_all add: memory_link_handler_def Let_def split: option.split)
qed

lemma grant_isolated:
  assumes "ac_tenant_id ctx = Some t"
  shows "isolated t nd (grant_create E (Some ctx) grantee grantor nd)" "isolated t nd (grant_revoke E (Some ctx) uid nd)"
    "isolated t nd (grant_list (Some ctx) grantee nd)"
  using assms
  by (auto simp: grant_create_def grant_revoke_def grant_list_def grant_share_def engine_revoke_grant_def add_grant_def revoke_grant_def
      list_grants_def tenant_or_default_of_def scope_tenant Let_def ok_shows mems_def intro!: same_memories split: option.split)

subsection \<open>Reads\<close>

lemma in_scope_of_tenant: "m_scope m = norm_scope scope \<Longrightarrow> sc_tenant_id scope = t \<Longrightarrow> t \<noteq> [] \<Longrightarrow> of_tenant t m"
  by (simp add: of_tenant_def norm_scope_def)

lemma history_in: "sc_tenant_id scope = t \<Longrightarrow> t \<noteq> [] \<Longrightarrow> m \<in> set (history scope subject st) \<Longrightarrow> of_tenant t m"
  by (auto simp: history_def scope_where_iff intro: in_scope_of_tenant)

lemma list_isolated:
  assumes "sc_tenant_id scope = t" "t \<noteq> []"
  shows "m \<in> set (list_paged jx scope n off flt st) \<Longrightarrow> of_tenant t m"
    and "m \<in> set (list_pending scope n st) \<Longrightarrow> of_tenant t m"
    and "m \<in> set (list_active scope n st) \<Longrightarrow> of_tenant t m"
  using in_scope_of_tenant [OF _ assms]
  by (auto simp: list_paged_def list_pending_def list_active_def scope_where_iff split: if_splits dest!: in_set_takeD in_set_dropD)

lemma read_isolated:
  assumes "ready E t nd" and "ac_tenant_id ctx = Some t"
  shows "isolated t nd (memory_list_handler E (Some ctx) th params nd)" "isolated t nd (memory_get_handler E (Some ctx) uid nd)"
    "isolated t nd (memory_history_by_subject (Some ctx) th f subject nd)" "isolated t nd (memory_history_handler E (Some ctx) uid nd)"
    "isolated t nd (memory_provenance_handler E (Some ctx) uid nd)"
    "sc_tenant_id scope = t \<Longrightarrow> isolated t nd (memory_contradictions_handler E scope nd)"
    "sc_tenant_id scope = t \<Longrightarrow> isolated t nd (pending_list E scope limit nd)"
    "isolated t nd (memory_edges_handler E (Some ctx) limit' nd)"
proof -
  have t: "t \<noteq> []" and inv: "ms_inv (en_store (nd_memory nd))" using assms(1) by (auto simp: ready_def indexed_ok_def)
  have get: "of_tenant t m" "sc_tenant_id (m_scope m) = t" if "get_for u (Some t) (nd_memory nd) = Some m" for u m
    using that by (auto simp: get_for_def get_scoped_iff [OF inv] of_tenant_def)
  show "isolated t nd (memory_list_handler E (Some ctx) th params nd)"
    using list_isolated(1) [OF scope_tenant(1) [OF assms(2)] t]
    by (auto simp: memory_list_handler_def memory_list_def ok_shows intro!: isolated_read)
  show "isolated t nd (memory_get_handler E (Some ctx) uid nd)"
    using get by (auto simp: memory_get_handler_def scope_tenant [OF assms(2)] ok_shows intro!: isolated_read split: option.split)
  show "isolated t nd (memory_history_by_subject (Some ctx) th f subject nd)"
    using history_in [OF scope_tenant(1) [OF assms(2)] t]
    by (auto simp: memory_history_by_subject_def memory_history_def ok_shows intro!: isolated_read)
  show "isolated t nd (memory_history_handler E (Some ctx) uid nd)"
    using get(1) history_in [OF get(2) t]
    by (auto simp: memory_history_handler_def memory_history_def scope_tenant [OF assms(2)] ok_shows intro!: isolated_read split: option.split)
  show "isolated t nd (memory_provenance_handler E (Some ctx) uid nd)"
    using get(1) history_in [OF get(2) t]
    by (auto simp: memory_provenance_handler_def memory_provenance_of_def scope_tenant [OF assms(2)] ok_shows intro!: isolated_read split: option.splits)
  show "isolated t nd (memory_contradictions_handler E scope nd)" if "sc_tenant_id scope = t"
    using list_isolated(3) [OF that t]
    by (auto simp: memory_contradictions_handler_def memory_contradictions_def Let_def ok_shows intro!: isolated_read)
  show "isolated t nd (pending_list E scope limit nd)" if "sc_tenant_id scope = t"
    using list_isolated(2) [OF that t] by (auto simp: pending_list_def memory_pending_def ok_shows intro!: isolated_read)
  show "isolated t nd (memory_edges_handler E (Some ctx) limit' nd)"
    by (auto simp: memory_edges_handler_def ok_shows intro!: isolated_read)
qed

lemma showable_of_tenant:
  assumes "ready E t nd" and "showable (nd_memory nd) scope m" and "sc_tenant_id scope = t"
  shows "of_tenant t m"
proof -
  have "m \<in> mems (en_store (nd_memory nd))" using assms(2) ms_get_in by (fastforce simp: showable_def)
  then show ?thesis unfolding of_tenant_def
    using tenant_of_key [of "m_scope m" scope] assms by (auto simp: showable_def ready_def)
qed

lemma filtered_hits:
  assumes "ready E t nd" and "sc_tenant_id scope = t"
    and "h \<in> set (fst (memory_search_filtered (ge_search E) P cfg now query scope k project ms (nd_memory nd)))"
  shows "of_tenant t (h_memory h)"
proof -
  have r: "indexed_ok (nd_memory nd)" "routed (nd_memory nd)" "permutes (sq_iter (ge_search E))"
    using assms(1) filed_routed by (simp_all add: ready_def)
  obtain hits matched where inner: "memory_search_inner (ge_search E) P cfg now query scope k project ms (nd_memory nd) = (hits, matched)" by fastforce
  then have "h \<in> set hits" using assms(3) by (simp add: memory_search_filtered_def)
  then have "showable (nd_memory nd) scope (h_memory h)" using search_shows [OF r inner] by blast
  then show ?thesis by (rule showable_of_tenant [OF assms(1) _ assms(2)])
qed

lemma shared_hits_in:
  assumes "ready E t nd" and "sc_tenant_id scope = t"
    and "h \<in> set (memory_search_shared (ge_search E) P cfg now query scope k (nd_memory nd))"
  shows "of_tenant t (h_memory h)"
proof -
  have r: "indexed_ok (nd_memory nd)" "routed (nd_memory nd)" "permutes (sq_iter (ge_search E))" "permutes (sq_values (ge_search E))"
    using assms(1) filed_routed by (simp_all add: ready_def)
  show ?thesis
  proof (cases "sc_user_id scope")
    case None
    then have "h \<in> set (memory_search (ge_search E) P cfg now query scope k (nd_memory nd))"
      using assms(3) by (simp add: memory_search_shared_def Let_def)
    then show ?thesis using showable_of_tenant [OF assms(1) memory_search_hits [OF r(1-3)] assms(2)] by blast
  next
    case (Some grantee)
    have granted: "of_tenant t m" if "showable (nd_memory nd) (grantor_scope scope u) m" for u m
      by (rule showable_of_tenant [OF assms(1) that]) (simp add: grantor_scope_def assms(2))
    from shared_hits [OF r Some, of P cfg now query k] assms(3)
    have "showable (nd_memory nd) scope (h_memory h) \<or> (\<exists>u. showable (nd_memory nd) (grantor_scope scope u) (h_memory h))" by blast
    then show ?thesis using showable_of_tenant [OF assms(1) _ assms(2)] granted by blast
  qed
qed

subsection \<open>Context packs\<close>

text \<open>The hits a pack may use, and the pack made of the first \<open>n\<close> of them.\<close>

definition wanted :: "string list \<Rightarrow> string list \<Rightarrow> memory_hit \<Rightarrow> bool" where
  "wanted kinds paths h \<longleftrightarrow> kind_allowed (h_memory h) kinds \<and> paths_allow (h_memory h) paths"

definition incident :: "memory_hit \<Rightarrow> bool" where
  "incident h \<longleftrightarrow> kind_of (h_memory h) = Some ''incident''"

definition item_of :: "memory_hit \<Rightarrow> pack_item" where
  "item_of h = pack_item_of (h_memory h) (h_score h)"

definition hit_cost :: "memory_hit \<Rightarrow> nat" where
  "hit_cost h = estimate_tokens (m_content (h_memory h))"

lemma pack_wanted: "pack_hits kinds paths budget hs pk = pack_hits [] [] budget (filter (wanted kinds paths) hs) pk"
  by (induction kinds paths budget hs pk rule: pack_hits.induct)
    (auto simp: wanted_def Let_def kind_allowed_def [of _ "[]"] paths_allow_def [of _ "[]"])

lemma pack_step:
  "pack_hits [] [] budget (h # hs) pk =
    (if pk_tokens_estimated pk + hit_cost h > budget then pk\<lparr>pk_truncated := True\<rparr>
     else pack_hits [] [] budget hs (if incident h
       then pk\<lparr>pk_tokens_estimated := pk_tokens_estimated pk + hit_cost h, pk_incidents := pk_incidents pk @ [item_of h]\<rparr>
       else pk\<lparr>pk_tokens_estimated := pk_tokens_estimated pk + hit_cost h, pk_memories := pk_memories pk @ [item_of h]\<rparr>))"
  by (simp add: Let_def kind_allowed_def paths_allow_def hit_cost_def incident_def item_of_def)

text \<open>Packing is greedy: it takes hits in their order until one does not fit.\<close>

lemma pack_greedy:
  assumes "pk_tokens_estimated pk \<le> budget"
  shows "\<exists>n \<le> length hs. pack_hits [] [] budget hs pk = pk
      \<lparr>pk_memories := pk_memories pk @ map item_of (filter (\<lambda>h. \<not> incident h) (take n hs)),
       pk_incidents := pk_incidents pk @ map item_of (filter incident (take n hs)),
       pk_tokens_estimated := pk_tokens_estimated pk + sum_list (map hit_cost (take n hs)),
       pk_truncated := (pk_truncated pk \<or> n < length hs)\<rparr> \<and>
    pk_tokens_estimated pk + sum_list (map hit_cost (take n hs)) \<le> budget \<and>
    (n < length hs \<longrightarrow> budget < pk_tokens_estimated pk + sum_list (map hit_cost (take (Suc n) hs)))"
  using assms
proof (induction hs arbitrary: pk)
  case (Cons h hs)
  show ?case
  proof (cases "pk_tokens_estimated pk + hit_cost h > budget")
    case True
    then show ?thesis using Cons.prems by (intro exI [of _ 0]) (simp add: pack_step del: pack_hits.simps)
  next
    case False
    let ?pk = "if incident h
       then pk\<lparr>pk_tokens_estimated := pk_tokens_estimated pk + hit_cost h, pk_incidents := pk_incidents pk @ [item_of h]\<rparr>
       else pk\<lparr>pk_tokens_estimated := pk_tokens_estimated pk + hit_cost h, pk_memories := pk_memories pk @ [item_of h]\<rparr>"
    have "pk_tokens_estimated ?pk \<le> budget" using False by simp
    from Cons.IH [OF this] obtain n where n: "n \<le> length hs" and
      "pack_hits [] [] budget hs ?pk = ?pk
      \<lparr>pk_memories := pk_memories ?pk @ map item_of (filter (\<lambda>h. \<not> incident h) (take n hs)),
       pk_incidents := pk_incidents ?pk @ map item_of (filter incident (take n hs)),
       pk_tokens_estimated := pk_tokens_estimated ?pk + sum_list (map hit_cost (take n hs)),
       pk_truncated := (pk_truncated ?pk \<or> n < length hs)\<rparr>"
      "pk_tokens_estimated ?pk + sum_list (map hit_cost (take n hs)) \<le> budget"
      "n < length hs \<longrightarrow> budget < pk_tokens_estimated ?pk + sum_list (map hit_cost (take (Suc n) hs))" by blast
    then show ?thesis using False
      by (intro exI [of _ "Suc n"]) (cases "incident h"; simp add: pack_step add.assoc del: pack_hits.simps)
  qed
qed simp

lemma pack_hits_items:
  assumes "\<forall>h \<in> set hs. Q (h_memory h)" and "i \<in> body_items (Body_Pack (pack_hits kinds paths budget hs
      \<lparr>pk_memories = [], pk_incidents = [], pk_tokens_estimated = 0, pk_truncated = False, pk_candidates = c\<rparr>))"
  shows "\<exists>m score. Q m \<and> i = pack_item_of m score"
proof -
  let ?W = "filter (wanted kinds paths) hs"
  let ?pk = "\<lparr>pk_memories = [], pk_incidents = [], pk_tokens_estimated = 0, pk_truncated = False, pk_candidates = c\<rparr>"
  obtain n where "pack_hits [] [] budget ?W ?pk = ?pk
      \<lparr>pk_memories := map item_of (filter (\<lambda>h. \<not> incident h) (take n ?W)),
       pk_incidents := map item_of (filter incident (take n ?W)),
       pk_tokens_estimated := sum_list (map hit_cost (take n ?W)), pk_truncated := (n < length ?W)\<rparr>"
    using pack_greedy [of ?pk budget ?W] by auto
  then obtain h where h: "h \<in> set (take n ?W)" "i = item_of h"
    using assms(2) unfolding pack_wanted [of kinds paths] by (auto simp del: pack_hits.simps)
  then have "h \<in> set hs" by (auto dest: in_set_takeD)
  then show ?thesis using assms(1) h(2) by (auto simp: item_of_def)
qed

lemma search_isolated:
  assumes "ready E t nd" and "ac_tenant_id ctx = Some t"
  shows "isolated t nd (memory_search_handler E (Some ctx) th req nd)" "isolated t nd (context_pack_handler E (Some ctx) th preq nd)"
proof -
  note sc = scope_tenant(1) [OF assms(2)]
  show "isolated t nd (memory_search_handler E (Some ctx) th req nd)"
    using filtered_hits [OF assms(1) sc] shared_hits_in [OF assms(1) sc]
    by (auto simp: memory_search_handler_def Let_def ok_shows intro!: isolated_read)
  let ?hits = "fst (memory_search_filtered (ge_search E) (ge_ports E) (ge_cfg E) (ge_now E 0) (cp_query preq)
      (scope_of (Some ctx) th (scope_fields.truncate preq)) (max 1 (min (cp_k preq) 200)) (cp_project preq) None (nd_memory nd))"
  have "\<forall>h \<in> set ?hits. of_tenant t (h_memory h)" using filtered_hits [OF assms(1) sc] by blast
  from pack_hits_items [OF this] show "isolated t nd (context_pack_handler E (Some ctx) th preq nd)"
    by (simp add: context_pack_handler_def Let_def isolated_read ok_shows del: body_items.simps pack_hits.simps)
qed

subsection \<open>A node with a memory of one tenant\<close>

definition demo_env :: gateway_env where
  "demo_env = \<lparr>ge_ports = search_demo_ports, ge_search = search_demo, ge_cfg = search_demo_cfg,
     ge_llm = \<lparr>lp_extraction = ''none'', lp_provider = None, lp_parse_array = (\<lambda>_. None)\<rparr>, ge_embeds = True,
     ge_tick = (\<lambda>n. demo_tick (100 + n mod 10000)), ge_now = (\<lambda>_. 500), ge_clock = (\<lambda>_ _. 500), ge_fresh = 7,
     ge_parse_uuid = (\<lambda>s. if s = ''one'' then Some 1 else None), ge_parse_instant = (\<lambda>_. None),
     ge_error_str = (\<lambda>_. ''error''), ge_json_extract = (\<lambda>_ _. None), ge_cluster = None\<rparr>"

definition demo_node :: node where
  "demo_node = (node_new 2)\<lparr>nd_memory := search_demo_engine\<rparr>"

definition tenant_context :: "string \<Rightarrow> auth_context" where
  "tenant_context t = \<lparr>ac_identity = ''svc'', ac_role = Agent, ac_agent_id = None, ac_tenant_id = Some t\<rparr>"

lemma demo_ready:
  assumes "t = ''acme'' \<or> t = ''globex''"
  shows "ready demo_env t demo_node"
proof -
  have word: "unat (of_nat (100 + n mod 10000) :: uuid) = 100 + n mod 10000" for n
  proof -
    have "100 + n mod 10000 < 2 ^ 128" using mod_less_divisor [of 10000 n] by simp
    then show ?thesis by (simp only: unsigned_of_nat take_bit_nat_eq_self len_of_numeral_defs) (simp add: take_bit_nat_eq_self)
  qed
  have inj: "inj_on (\<lambda>n. tk_id (ge_tick demo_env n)) {..<MAX_BATCH_MEMORIES}"
  proof (rule inj_onI)
    fix a b assume ab: "a \<in> {..<MAX_BATCH_MEMORIES}" "b \<in> {..<MAX_BATCH_MEMORIES}" "tk_id (ge_tick demo_env a) = tk_id (ge_tick demo_env b)"
    then have "100 + a mod 10000 = 100 + b mod 10000" using word [of a] word [of b] by (simp add: demo_env_def demo_tick_def)
    then show "a = b" using ab(1,2) by (simp add: MAX_BATCH_MEMORIES_def)
  qed
  have ids: "store_ids (en_store search_demo_engine) = {1}" by code_simp
  have "tk_id (ge_tick demo_env n) \<noteq> 1" for n
  proof
    assume "tk_id (ge_tick demo_env n) = 1"
    then have "(of_nat (100 + n mod 10000) :: uuid) = 1" by (simp only: demo_env_def demo_tick_def gateway_env.simps tick.simps)
    then have "unat (of_nat (100 + n mod 10000) :: uuid) = unat (1 :: uuid)" by (rule arg_cong)
    then show False unfolding word by simp
  qed
  moreover have "list_all (\<lambda>r. CHR 0x1F \<notin> set (sc_tenant_id (m_scope (mr_memory r))) \<and> sc_tenant_id (m_scope (mr_memory r)) \<noteq> [])
      (st_memories (en_store search_demo_engine))" by code_simp
  moreover have "filed search_demo_engine" "indexed_ok search_demo_engine"
    using filed_advisory [OF search_demo_ok(1,2)] advisory_indexed [OF search_demo_ok(1)] by simp_all
  ultimately show ?thesis using assms inj search_demo_ok(3,4) ids
    by (auto simp: ready_def demo_node_def demo_env_def mems_def list_all_iff)
qed

text \<open>The decay pass is not a tenant's own: called with a credential of one tenant, it expires a memory of another.\<close>

lemma decay_crosses_tenants:
  "let E = demo_env\<lparr>ge_ports := (ge_ports demo_env)\<lparr>pt_power := (\<lambda>_ _. 0)\<rparr>\<rparr>;
       nd' = snd (memory_routes E (Some (tenant_context ''globex'')) None Decay demo_node)
   in map (\<lambda>r. (sc_tenant_id (m_scope (mr_memory r)), m_state (mr_memory r))) (st_memories (en_store (nd_memory demo_node))) = [(''acme'', Active)] \<and>
      map (\<lambda>r. (sc_tenant_id (m_scope (mr_memory r)), m_state (mr_memory r))) (st_memories (en_store (nd_memory nd'))) = [(''acme'', Expired)]"
  by code_simp

text \<open>C5: Tenant isolation of the memory endpoints. On a node whose vectors sit in the partitions of their
  memories (what the full-text index names does not matter), with tenant names that are not empty and do
  not contain the separator of partition keys and with fresh identifiers, a request whose credential
  belongs to tenant \<open>t\<close> - whatever its path, query, header and body name, on a single node or in a cluster -
  leaves every memory of every other tenant as it is, and the memories, pack items and grants it answers
  with are those of \<open>t\<close>. The one call left out is the decay pass, which is not confined to a tenant
  (\<open>decay_crosses_tenants\<close>).\<close>

theorem tenant_isolated:
  assumes "ready E t nd" and "ac_tenant_id ctx = Some t" and "call \<noteq> Decay"
  shows "isolated t nd (memory_routes E (Some ctx) th call nd)"
proof -
  obtain S where S: "placed S (nd_memory nd)" using place_input [OF assms(1) scope_tenant(3) [OF assms(2)]] by blast
  have t: "t \<noteq> []" using assms(1) by (simp add: ready_def)
  note writes = memory_add_isolated [OF assms(1,2)] propose_isolated [OF assms(1,2)] external_isolated [OF assms(1,2)] batch_isolated [OF assms(1,2)]
    document_ingest_isolated [OF assms(1,2)] document_prune_isolated [OF assms(1,2)] delete_isolated [OF S assms(2)]
    update_isolated [OF S assms(2)] feedback_isolated [OF S assms(2)] resolve_isolated [OF S scope_tenant(2) [OF assms(2)] t]
    accept_isolated [OF assms(1,2)] reject_isolated [OF S assms(2)] reembed_isolated [OF S]
    consolidate_isolated [OF assms(1) scope_tenant(1) [OF assms(2)]] consolidate_similar_isolated [OF assms(1) scope_tenant(1) [OF assms(2)]]
  note reads = read_isolated(1-5,8) [OF assms(1,2)] read_isolated(6) [OF assms(1,2) scope_tenant(2) [OF assms(2)]]
    read_isolated(7) [OF assms(1,2) scope_tenant(1) [OF assms(2)]] search_isolated [OF assms(1,2)] link_isolated grant_isolated [OF assms(2)]
  show ?thesis using assms(3) by (cases call) (simp_all add: memory_add_or_propose_def writes reads)
qed

theorem tenant_isolated_witness:
  "isolated ''globex'' demo_node (memory_routes demo_env (Some (tenant_context ''globex'')) (Some ''acme'') (Delete_Memory ''one'') demo_node) \<and>
   rs_status (fst (memory_routes demo_env (Some (tenant_context ''globex'')) (Some ''acme'') (Delete_Memory ''one'') demo_node)) = 404 \<and>
   rs_status (fst (memory_routes demo_env (Some (tenant_context ''acme'')) None (Delete_Memory ''one'') demo_node)) = 200"
proof -
  have "rs_status (fst (memory_routes demo_env (Some (tenant_context ''globex'')) (Some ''acme'') (Delete_Memory ''one'') demo_node)) = 404"
    "rs_status (fst (memory_routes demo_env (Some (tenant_context ''acme'')) None (Delete_Memory ''one'') demo_node)) = 200"
    by code_simp+
  then show ?thesis using tenant_isolated [OF demo_ready, of "''globex''" "tenant_context ''globex''" "Delete_Memory ''one''" "Some ''acme''"]
    by (simp add: tenant_context_def)
qed

text \<open>C29: A context pack follows the ranking and its budget. The pack is made of the first \<open>n\<close> search hits of a wanted
  kind and path, incidents apart; their estimated tokens are the total it reports, within the budget, and
  it is marked as truncated exactly when a wanted hit is left, the next of which would exceed the budget.\<close>

theorem context_pack_greedy:
  assumes "hits = fst (memory_search_filtered (ge_search E) (ge_ports E) (ge_cfg E) (ge_now E 0) (cp_query req)
      (scope_of auth th (scope_fields.truncate req)) (max 1 (min (cp_k req) 200)) (cp_project req) None (nd_memory nd))"
    and "W = filter (wanted (cp_kinds req) (cp_paths req)) hits" and "str_trim (cp_query req) \<noteq> []"
  shows "\<exists>n \<le> length W. context_pack_handler E auth th req nd = (api_ok (Body_Pack
      \<lparr>pk_memories = map item_of (filter (\<lambda>h. \<not> incident h) (take n W)), pk_incidents = map item_of (filter incident (take n W)),
       pk_tokens_estimated = sum_list (map hit_cost (take n W)), pk_truncated = (n < length W), pk_candidates = length hits\<rparr>), nd) \<and>
    sum_list (map hit_cost (take n W)) \<le> cp_budget_tokens req \<and>
    (n = length W \<or> cp_budget_tokens req < sum_list (map hit_cost (take (Suc n) W)))"
proof -
  let ?pk = "\<lparr>pk_memories = [], pk_incidents = [], pk_tokens_estimated = 0, pk_truncated = False, pk_candidates = length hits\<rparr>"
  have pk: "context_pack_handler E auth th req nd = (api_ok (Body_Pack (pack_hits [] [] (cp_budget_tokens req) W ?pk)), nd)"
    using assms(3) pack_wanted [of "cp_kinds req" "cp_paths req" "cp_budget_tokens req" hits]
    by (simp add: context_pack_handler_def Let_def assms(1,2))
  obtain n where "n \<le> length W" "pack_hits [] [] (cp_budget_tokens req) W ?pk = ?pk
      \<lparr>pk_memories := map item_of (filter (\<lambda>h. \<not> incident h) (take n W)), pk_incidents := map item_of (filter incident (take n W)),
       pk_tokens_estimated := sum_list (map hit_cost (take n W)), pk_truncated := (n < length W)\<rparr>"
    "sum_list (map hit_cost (take n W)) \<le> cp_budget_tokens req"
    "n < length W \<longrightarrow> cp_budget_tokens req < sum_list (map hit_cost (take (Suc n) W))"
    using pack_greedy [of ?pk "cp_budget_tokens req" W] by auto
  then show ?thesis using pk by (intro exI [of _ n]) auto
qed

definition demo_pack :: "nat \<Rightarrow> context_pack_request" where
  "demo_pack budget = \<lparr>sf_tenant_id = None, sf_user_id = Some ''alice'', sf_agent_id = None, sf_session_id = None,
     cp_query = ''plan'', cp_paths = [], cp_kinds = [], cp_budget_tokens = budget, cp_k = 5, cp_project = None\<rparr>"

theorem context_pack_greedy_witness:
  "let reply = (\<lambda>budget. fst (context_pack_handler demo_env (Some (tenant_context ''acme'')) None (demo_pack budget) demo_node));
       contents = (\<lambda>r. case rs_body r of Some (Body_Pack pk) \<Rightarrow> (map pi_content (pk_memories pk), pk_truncated pk) | _ \<Rightarrow> ([], False))
   in contents (reply 3) = ([''free plan''], False) \<and> contents (reply 2) = ([], True) \<and>
     (\<exists>pk. rs_body (reply 2) = Some (Body_Pack pk) \<and> pk_tokens_estimated pk \<le> 2)"
proof -
  let ?hits = "fst (memory_search_filtered (ge_search demo_env) (ge_ports demo_env) (ge_cfg demo_env) (ge_now demo_env 0) (cp_query (demo_pack 2))
      (scope_of (Some (tenant_context ''acme'')) None (scope_fields.truncate (demo_pack 2))) (max 1 (min (cp_k (demo_pack 2)) 200))
      (cp_project (demo_pack 2)) None (nd_memory demo_node))"
  have "str_trim (cp_query (demo_pack 2)) \<noteq> []" by code_simp
  from context_pack_greedy [OF refl refl this, of demo_env "Some (tenant_context ''acme'')" None demo_node]
  have "\<exists>pk. rs_body (fst (context_pack_handler demo_env (Some (tenant_context ''acme'')) None (demo_pack 2) demo_node)) = Some (Body_Pack pk) \<and>
      pk_tokens_estimated pk \<le> 2"
    by (auto simp: api_ok_def demo_pack_def)
  moreover have "let reply = (\<lambda>budget. fst (context_pack_handler demo_env (Some (tenant_context ''acme'')) None (demo_pack budget) demo_node));
       contents = (\<lambda>r. case rs_body r of Some (Body_Pack pk) \<Rightarrow> (map pi_content (pk_memories pk), pk_truncated pk) | _ \<Rightarrow> ([], False))
   in contents (reply 3) = ([''free plan''], False) \<and> contents (reply 2) = ([], True)" by code_simp
  ultimately show ?thesis by (simp add: Let_def)
qed

end
