(* ===== verification/Webhook_Events.thy ===== *)
theory Webhook_Events
  imports Document_Import Episodic_Store
begin

text \<open>
  Webhook payloads in the core: normalisation of a vendor's payload into events
  (\<open>ingest/webhook.rs\<close>), the rules and the extraction that promote an event to a memory
  (\<open>ingest/promote.rs\<close>), and \<open>promote_events\<close> of the engine. Fresh identifiers and the clock are
  arguments.
\<close>

subsection \<open>Reading a payload\<close>

text \<open>A JSON pointer of object keys; none of the keys the sources use is an array index.\<close>

fun json_pointer :: "json \<Rightarrow> string list \<Rightarrow> json option" where
  "json_pointer j [] = Some j"
| "json_pointer j (k # ks) = (case json_get j k of Some v \<Rightarrow> json_pointer v ks | None \<Rightarrow> None)"

definition or_else :: "'a option \<Rightarrow> 'a option \<Rightarrow> 'a option" where
  "or_else a b = (case a of Some x \<Rightarrow> Some x | None \<Rightarrow> b)"

definition str_or :: "string \<Rightarrow> json option \<Rightarrow> string" where
  "str_or fallback v = (case Option.bind v json_as_str of Some s \<Rightarrow> s | None \<Rightarrow> fallback)"

subsection \<open>Normalisation\<close>

definition webhook_event :: "uuid \<Rightarrow> ts \<Rightarrow> string \<Rightarrow> string \<Rightarrow> json \<Rightarrow> event" where
  "webhook_event fresh now source event_type payload =
    \<lparr>ev_id = fresh, ev_source = source, ev_event_type = event_type, ev_payload = payload, ev_timestamp = now,
     ev_parent_id = None, ev_trace_id = None, ev_tags = [], ev_idempotency_key = None\<rparr>"

definition normalize_github :: "uuid \<Rightarrow> ts \<Rightarrow> json \<Rightarrow> error + event list" where
  "normalize_github fresh now payload =
    (let action = str_or ''unknown'' (json_get payload ''action'');
         repo = str_or ''unknown'' (json_pointer payload [''repository'', ''full_name'']);
         sender = str_or ''unknown'' (json_pointer payload [''sender'', ''login'']);
         event_type = (if json_get payload ''pull_request'' \<noteq> None then ''pull_request.'' @ action
           else if json_get payload ''issue'' \<noteq> None then ''issue.'' @ action
           else if json_get payload ''commits'' \<noteq> None then ''push''
           else if json_get payload ''release'' \<noteq> None then ''release.'' @ action
           else ''github.'' @ action)
     in Inr [webhook_event fresh now (''github/'' @ repo) event_type
          (JObj [(''action'', JStr action), (''repository'', JStr repo), (''sender'', JStr sender), (''raw'', payload)])])"

definition normalize_sentry :: "uuid \<Rightarrow> ts \<Rightarrow> json \<Rightarrow> error + event list" where
  "normalize_sentry fresh now payload =
    (let action = str_or ''triggered'' (json_get payload ''action'');
         project = str_or ''unknown'' (or_else (json_pointer payload [''data'', ''issue'', ''project'', ''slug''])
           (json_pointer payload [''project_slug'']));
         title = str_or [] (or_else (json_pointer payload [''data'', ''issue'', ''title'']) (json_pointer payload [''message'']));
         level = str_or ''error'' (json_pointer payload [''data'', ''issue'', ''level''])
     in Inr [webhook_event fresh now (''sentry/'' @ project) (''issue.'' @ action)
          (JObj [(''project'', JStr project), (''title'', JStr title), (''level'', JStr level), (''action'', JStr action)])])"

definition normalize_slack :: "uuid \<Rightarrow> ts \<Rightarrow> json \<Rightarrow> error + event list" where
  "normalize_slack fresh now payload =
    (let event_type = str_or ''message'' (json_pointer payload [''event'', ''type'']);
         channel = str_or ''unknown'' (json_pointer payload [''event'', ''channel'']);
         user = str_or ''unknown'' (json_pointer payload [''event'', ''user'']);
         text = str_or [] (json_pointer payload [''event'', ''text''])
     in Inr [webhook_event fresh now (''slack/'' @ channel) event_type
          (JObj [(''channel'', JStr channel), (''user'', JStr user), (''text'', JStr text)])])"

definition normalize_pagerduty :: "uuid \<Rightarrow> ts \<Rightarrow> json \<Rightarrow> error + event list" where
  "normalize_pagerduty fresh now payload =
    (let event_type = str_or ''incident.trigger'' (json_pointer payload [''event'', ''event_type'']);
         service = str_or ''unknown'' (json_pointer payload [''event'', ''data'', ''service'', ''name'']);
         title = str_or [] (json_pointer payload [''event'', ''data'', ''title''])
     in Inr [webhook_event fresh now (''pagerduty/'' @ service) event_type
          (JObj [(''service'', JStr service), (''title'', JStr title), (''event_type'', JStr event_type)])])"

definition normalize_generic :: "uuid \<Rightarrow> ts \<Rightarrow> string \<Rightarrow> json \<Rightarrow> error + event list" where
  "normalize_generic fresh now source payload =
    Inr [webhook_event fresh now source
      (str_or ''webhook'' (or_else (or_else (json_get payload ''event_type'') (json_get payload ''type'')) (json_get payload ''action'')))
      payload]"

definition normalize_webhook :: "uuid \<Rightarrow> ts \<Rightarrow> string \<Rightarrow> json \<Rightarrow> error + event list" where
  "normalize_webhook fresh now source payload =
    (if source = ''github'' then normalize_github fresh now payload
     else if source = ''sentry'' then normalize_sentry fresh now payload
     else if source = ''slack'' then normalize_slack fresh now payload
     else if source = ''pagerduty'' then normalize_pagerduty fresh now payload
     else normalize_generic fresh now source payload)"

subsection \<open>Promotion\<close>

record promotion =
  pr_subject :: string
  pr_content :: string

definition vendor :: "string \<Rightarrow> string" where
  "vendor source = takeWhile (\<lambda>c. c \<noteq> CHR ''/'') source"

definition promotion_matches :: "event \<Rightarrow> string list \<Rightarrow> bool" where
  "promotion_matches ev rules =
    list_ex (\<lambda>rule. case split_once_at (CHR '':'') rule of
        None \<Rightarrow> False
      | Some (want_vendor, want_type) \<Rightarrow>
          (want_vendor = ''*'' \<or> eq_ignore_ascii_case want_vendor (vendor (ev_source ev))) \<and>
          (want_type = ''*'' \<or> want_type = ev_event_type ev \<or>
           (want_type \<noteq> [] \<and> last want_type = CHR ''*'' \<and> prefix (butlast want_type) (ev_event_type ev)))) rules"

definition default_rules :: "string list" where
  "default_rules = [''github:pull_request.closed'', ''github:issue.closed'', ''sentry:issue.resolved'',
     ''pagerduty:incident.resolved'', ''pagerduty:incident.resolve'']"

text \<open>One step of the loop of \<open>slug\<close>: the text so far and whether it ends in a dash.\<close>

definition slug_step :: "char \<Rightarrow> string \<times> bool \<Rightarrow> string \<times> bool" where
  "slug_step c acc = (case acc of (out, last_dash) \<Rightarrow>
     if is_alnum c then (out @ [lower_char c], False)
     else if \<not> last_dash then (out @ ''-'', True) else (out, last_dash))"

definition slug :: "string \<Rightarrow> string" where
  "slug s = trim_matches (\<lambda>c. c = CHR ''-'') (fst (fold slug_step (take 120 s) ([], True)))"

definition quoted :: "string \<Rightarrow> string" where
  "quoted s = [CHR 0x22] @ s @ [CHR 0x22]"

definition promote :: "event \<Rightarrow> promotion option" where
  "promote ev =
    (let p = ev_payload ev;
         str_at = (\<lambda>ks. Option.bind (json_pointer p ks) json_as_str);
         repo = str_or ''unknown'' (json_pointer p [''repository'']);
         v = vendor (ev_source ev)
     in if v = ''github'' \<and> prefix ''pull_request.'' (ev_event_type ev)
        then Option.bind (Option.bind (json_pointer p [''raw'', ''pull_request'', ''number'']) json_as_u64) (\<lambda>number.
          let title = str_or ''(no title)'' (json_pointer p [''raw'', ''pull_request'', ''title'']);
              merged = (case Option.bind (json_pointer p [''raw'', ''pull_request'', ''merged'']) json_as_bool of Some b \<Rightarrow> b | None \<Rightarrow> False);
              who = str_or ''someone'' (json_pointer p [''sender'']);
              result = (if merged then ''merged'' else ''closed without merging'')
          in Some \<lparr>pr_subject = repo @ ''#pr-'' @ show_nat number,
               pr_content = ''Pull request #'' @ show_nat number @ '' in '' @ repo @ '' '' @ em_dash @ '' '' @ quoted title @ '' '' @ em_dash
                 @ '' '' @ result @ '' by '' @ who @ ''.''\<rparr>)
        else if v = ''github'' \<and> prefix ''issue.'' (ev_event_type ev)
        then Option.bind (Option.bind (json_pointer p [''raw'', ''issue'', ''number'']) json_as_u64) (\<lambda>number.
          let title = str_or ''(no title)'' (json_pointer p [''raw'', ''issue'', ''title'']);
              who = str_or ''someone'' (json_pointer p [''sender'']);
              body = str_or [] (json_pointer p [''raw'', ''issue'', ''body'']);
              content = ''Issue #'' @ show_nat number @ '' in '' @ repo @ '' '' @ em_dash @ '' '' @ quoted title @ '' '' @ em_dash
                @ '' closed by '' @ who @ ''.''
          in Some \<lparr>pr_subject = repo @ ''#issue-'' @ show_nat number,
               pr_content = (if str_trim body \<noteq> [] then content @ [CHR 0x0A, CHR 0x0A] @ str_trim body else content)\<rparr>)
        else if v = ''sentry''
        then Option.bind (str_at [''title'']) (\<lambda>title. if title = [] then None else
          let project = str_or ''unknown'' (json_pointer p [''project'']); level = str_or ''error'' (json_pointer p [''level'']);
              action = str_or ''resolved'' (json_pointer p [''action''])
          in Some \<lparr>pr_subject = ''sentry/'' @ project @ ''#'' @ slug title,
               pr_content = ''Sentry '' @ level @ '' in '' @ project @ '' '' @ em_dash @ '' '' @ quoted title @ '' '' @ em_dash @ '' '' @ action @ ''.''\<rparr>)
        else if v = ''pagerduty''
        then Option.bind (str_at [''title'']) (\<lambda>title. if title = [] then None else
          let service = str_or ''unknown'' (json_pointer p [''service''])
          in Some \<lparr>pr_subject = ''pagerduty/'' @ service @ ''#'' @ slug title,
               pr_content = ''PagerDuty incident on '' @ service @ '' '' @ em_dash @ '' '' @ quoted title @ '' '' @ em_dash @ '' '' @ ev_event_type ev @ ''.''\<rparr>)
        else None)"

record promotion_config =
  pc_enabled :: bool
  pc_rules :: "string list"

definition promoted_input :: "memory_scope \<Rightarrow> event \<Rightarrow> promotion \<Rightarrow> memory_input" where
  "promoted_input scope ev p =
    \<lparr>i_scope = scope, i_subject = Some (pr_subject p), i_content = pr_content p, i_importance = None,
     i_source_event_ids = [ev_id ev],
     i_metadata = JObj [(''source'', JStr (ev_source ev)), (''event_type'', JStr (ev_event_type ev)), (''promoted'', JBool True)],
     i_mem_type = Some ''episodic'', i_valid_from = Some (ev_timestamp ev), i_project = None\<rparr>"

definition promotion_inputs :: "promotion_config \<Rightarrow> string \<Rightarrow> event list \<Rightarrow> memory_input list" where
  "promotion_inputs cfg tenant events =
    List.map_filter (\<lambda>ev. map_option (promoted_input (tenant_scope tenant) ev) (promote ev))
      (filter (\<lambda>ev. promotion_matches ev (pc_rules cfg)) events)"

text \<open>A failed batch is logged and counts as zero; a batch that fails is modelled without the rows it flushed before.\<close>

definition promote_events ::
  "promotion_config \<Rightarrow> ports \<Rightarrow> cognition_config \<Rightarrow> tick list \<Rightarrow> string \<Rightarrow> event list \<Rightarrow> engine \<Rightarrow> nat \<times> engine" where
  "promote_events pcfg P cfg tks tenant events en =
    (if \<not> pc_enabled pcfg then (0, en)
     else let inputs = promotion_inputs pcfg tenant events
          in if inputs = [] then (0, en)
             else case memory_add_batch P cfg tks inputs en of
               Inr (added, en') \<Rightarrow> (length added, en') | Inl _ \<Rightarrow> (0, en))"

subsection \<open>Two deliveries of one payload\<close>

lemma normalize_cases:
  "\<exists>src et p. \<forall>u t. normalize_webhook u t source payload = Inr [webhook_event u t src et p]"
proof -
  have "\<exists>src et p. \<forall>u t. normalize_github u t payload = Inr [webhook_event u t src et p]"
    "\<exists>src et p. \<forall>u t. normalize_sentry u t payload = Inr [webhook_event u t src et p]"
    "\<exists>src et p. \<forall>u t. normalize_slack u t payload = Inr [webhook_event u t src et p]"
    "\<exists>src et p. \<forall>u t. normalize_pagerduty u t payload = Inr [webhook_event u t src et p]"
    "\<exists>src et p. \<forall>u t. normalize_generic u t source payload = Inr [webhook_event u t src et p]"
    unfolding normalize_github_def normalize_sentry_def normalize_slack_def normalize_pagerduty_def normalize_generic_def Let_def by blast+
  then show ?thesis unfolding normalize_webhook_def
    by (cases "source = ''github''"; cases "source = ''sentry''"; cases "source = ''slack''"; cases "source = ''pagerduty''") simp_all
qed

lemma webhook_event_simps [simp]:
  "ev_id (webhook_event u t src et p) = u" "ev_source (webhook_event u t src et p) = src"
  "ev_event_type (webhook_event u t src et p) = et" "ev_payload (webhook_event u t src et p) = p"
  "ev_timestamp (webhook_event u t src et p) = t"
  by (simp_all add: webhook_event_def)

lemma same_promotion:
  "promote (webhook_event u t src et p) = promote (webhook_event u' t' src et p)"
  "promotion_matches (webhook_event u t src et p) rules = promotion_matches (webhook_event u' t' src et p) rules"
  unfolding promote_def promotion_matches_def webhook_event_simps by (rule refl)+

lemma promoted_subject: "promote ev = Some p \<Longrightarrow> CHR ''#'' \<in> set (pr_subject p)"
  by (auto simp: promote_def Let_def bind_eq_Some_conv split: if_splits)

lemma promoted_canonical:
  assumes "promote ev = Some p" and "tenant \<noteq> []"
  shows "i_subject (canonical_input (promoted_input (tenant_scope tenant) ev p)) = Some (normalize_subject (pr_subject p))"
    "i_scope (canonical_input (promoted_input (tenant_scope tenant) ev p)) = tenant_scope tenant"
    "i_project (canonical_input (promoted_input (tenant_scope tenant) ev p)) = None"
    "i_metadata (canonical_input (promoted_input (tenant_scope tenant) ev p)) = i_metadata (promoted_input (tenant_scope tenant) ev p)"
    "i_content (canonical_input (promoted_input (tenant_scope tenant) ev p)) = pr_content p"
    "i_source_event_ids (canonical_input (promoted_input (tenant_scope tenant) ev p)) = [ev_id ev]"
proof -
  have "normalize_subject (pr_subject p) \<noteq> []"
  proof
    assume "normalize_subject (pr_subject p) = []"
    then have "ink (pr_subject p) = []" by (simp add: normalize_subject_Nil)
    then show False using promoted_subject [OF assms(1)] by (auto simp: ink_def filter_empty_conv is_ws_def)
  qed
  then show "i_subject (canonical_input (promoted_input (tenant_scope tenant) ev p)) = Some (normalize_subject (pr_subject p))"
    "i_scope (canonical_input (promoted_input (tenant_scope tenant) ev p)) = tenant_scope tenant"
    "i_project (canonical_input (promoted_input (tenant_scope tenant) ev p)) = None"
    "i_metadata (canonical_input (promoted_input (tenant_scope tenant) ev p)) = i_metadata (promoted_input (tenant_scope tenant) ev p)"
    "i_content (canonical_input (promoted_input (tenant_scope tenant) ev p)) = pr_content p"
    "i_source_event_ids (canonical_input (promoted_input (tenant_scope tenant) ev p)) = [ev_id ev]"
    using assms(2) by (auto simp: canonical_input_def promoted_input_def tenant_scope_def Let_def)
qed

lemma one_input_batch:
  assumes "i_subject (canonical_input i) = Some s"
  shows "memory_add_batch P cfg [tk] [i] en =
    res_bind (memory_plan_with_embedding P cfg tk i (batch_embeddings P cfg [i] ! 0) en) (\<lambda>(res, rows).
      res_bind (memory_apply_rows_batch rows en) (\<lambda>(_, en'). Inr ([res], en')))"
proof -
  obtain e where e: "batch_embeddings P cfg [i] = [e]"
    using length_batch_embeddings [of P cfg "[i]"] by (metis One_nat_def length_0_conv length_Suc_conv list.size(3,4))
  then show ?thesis
    by (simp add: memory_add_batch_def batch_step_fresh [OF batch_key_canonical [OF assms]] res_bind_def split: sum.split)
qed

lemma plan_confirms:
  assumes "check_governance P cfg (i_scope (canonical_input i)) (i_subject (canonical_input i))
      (i_metadata (canonical_input i)) (i_source_event_ids (canonical_input i)) = Inr ()"
    and "i_subject (canonical_input i) = Some s"
    and "find_active_by_subject (i_scope (canonical_input i)) s (i_project (canonical_input i)) (en_store en) = [m]"
    and "str_trim (m_content m) = str_trim (i_content i)"
  shows "\<exists>r row. memory_plan_with_embedding P cfg tk i e en = Inr (r, [row]) \<and> ma_outcome r = Confirmed \<and>
    row_id row = m_id m \<and> belief (mr_memory row) = belief m"
proof -
  have "i_content (canonical_input i) = i_content i" by (simp add: canonical_input_def)
  then show ?thesis using assms by (simp add: memory_plan_with_embedding_def Let_def plan_confirmed_def)
qed

lemma governed_plan:
  "memory_plan_with_embedding P cfg tk i e en = Inr p \<Longrightarrow>
    check_governance P cfg (i_scope (canonical_input i)) (i_subject (canonical_input i))
      (i_metadata (canonical_input i)) (i_source_event_ids (canonical_input i)) = Inr ()"
  by (cases "check_governance P cfg (i_scope (canonical_input i)) (i_subject (canonical_input i))
      (i_metadata (canonical_input i)) (i_source_event_ids (canonical_input i))")
    (simp_all add: memory_plan_with_embedding_def Let_def)

lemma governed_by_event:
  "check_governance P cfg scope subject md [u] = check_governance P cfg scope subject md [u']"
proof -
  have "has_provenance md [x]" for x by (simp add: has_provenance_def)
  then show ?thesis by (simp add: check_governance_def Let_def)
qed

text \<open>What a write of one keyed memory leaves: it is believed, alone.\<close>

lemma believed_after_one:
  assumes plan: "memory_plan_with_embedding P cfg tk i e en = Inr (res, rows)" and app: "memory_apply_rows_batch rows en = Inr (n, en')"
    and s: "i_subject (canonical_input i) = Some s" and off: "\<not> cg_contradiction_review cfg"
    and inv: "ms_inv (en_store en)" "unique_active (en_store en)" and fresh: "tk_id tk \<notin> store_ids (en_store en)"
  shows "find_active_by_subject (i_scope (canonical_input i)) s (i_project (canonical_input i)) (en_store en') = [ma_memory res]"
    and "str_trim (m_content (ma_memory res)) = str_trim (i_content i)" and "ms_inv (en_store en')"
proof -
  let ?sc = "i_scope (canonical_input i)" and ?pj = "i_project (canonical_input i)"
  note st = plan_settles [OF plan s off inv(2)]
  show "str_trim (m_content (ma_memory res)) = str_trim (i_content i)" using st(1) by simp
  have store: "en_store en' = fold ms_put_row rows (en_store en)" by (rule apply_rows_batch_store [OF app inv(1)])
  show inv': "ms_inv (en_store en')" unfolding store by (rule ms_inv_fold_put [OF inv(1)])
  have mems: "mems (en_store en') = mr_memory ` set rows \<union> {x \<in> mems (en_store en). m_id x \<notin> row_id ` set rows}"
    unfolding store by (rule mems_fold_put [OF inv(1) plan_rows(1) [OF plan inv(1) fresh]])
  have norm: "norm_scope ?sc = ?sc" by (rule norm_canonical)
  have found: "y \<in> set (find_active_by_subject ?sc s ?pj (en_store en')) \<longleftrightarrow>
      y \<in> mems (en_store en') \<and> m_scope y = ?sc \<and> m_subject y = Some s \<and> m_project y = ?pj \<and> m_state y = Active" for y
    by (simp add: in_find_active norm)
  have "y = ma_memory res" if y: "y \<in> set (find_active_by_subject ?sc s ?pj (en_store en'))" for y
  proof (cases "y \<in> mr_memory ` set rows")
    case True
    then show ?thesis using st(2) y found by auto
  next
    case False
    then have old: "y \<in> mems (en_store en)" "m_id y \<notin> row_id ` set rows" using y found mems by auto
    then have "y \<in> set (find_active_by_subject ?sc s ?pj (en_store en))" using y found by (simp add: in_find_active norm)
    then show ?thesis using st(3) old(2) by blast
  qed
  moreover have "ma_memory res \<in> set (find_active_by_subject ?sc s ?pj (en_store en'))" using st(1) mems by (simp add: found)
  ultimately have "set (find_active_by_subject ?sc s ?pj (en_store en')) = {ma_memory res}" by blast
  moreover have "distinct (find_active_by_subject ?sc s ?pj (en_store en'))"
    using distinct_find_active [OF inv'] by (simp add: distinct_map)
  ultimately show "find_active_by_subject ?sc s ?pj (en_store en') = [ma_memory res]"
    using distinct_singleton [of "find_active_by_subject ?sc s ?pj (en_store en')" "ma_memory res"] by simp
qed

text \<open>C31: A redelivered webhook changes no belief. When contradiction review is off, the store had at most one
  active memory per scope, project and subject, and the first delivery of a payload was promoted to a
  memory with a fresh identifier, then a second delivery right after it, under any event identifier and
  at any time, is accepted as a confirmation of the memory the first one made. No memory is added,
  removed, superseded or expired, and every stored one keeps its scope, subject, text, state and
  validity: only importance, version and update time may move.\<close>

theorem webhook_redelivery_confirms:
  assumes first: "normalize_webhook u t source payload = Inr evs" "promote_events pcfg P cfg [tk] tenant evs en = (1, en1)"
    and again: "normalize_webhook u' t' source payload = Inr evs'"
    and inv: "ms_inv (en_store en)" "unique_active (en_store en)" and fresh: "tk_id tk \<notin> store_ids (en_store en)"
    and off: "\<not> cg_contradiction_review cfg" and tenant: "tenant \<noteq> []"
  shows "\<exists>r en2. memory_add_batch P cfg [tk'] (promotion_inputs pcfg tenant evs') en1 = Inr ([r], en2) \<and> ma_outcome r = Confirmed \<and>
    promote_events pcfg P cfg [tk'] tenant evs' en1 = (1, en2) \<and>
    store_ids (en_store en2) = store_ids (en_store en1) \<and> belief ` mems (en_store en2) = belief ` mems (en_store en1)"
proof -
  obtain src et pl where ev: "evs = [webhook_event u t src et pl]" "evs' = [webhook_event u' t' src et pl]"
    using normalize_cases [of source payload] first(1) again by auto
  let ?e = "webhook_event u t src et pl" and ?e' = "webhook_event u' t' src et pl"
  have "promotion_inputs pcfg tenant evs \<noteq> []" and en: "pc_enabled pcfg" using first(2) by (auto simp: promote_events_def split: if_splits)
  then obtain p where p: "promotion_matches ?e (pc_rules pcfg)" "promote ?e = Some p"
    by (auto simp: promotion_inputs_def ev map_filter_simps split: if_splits option.splits)
  have p': "promotion_matches ?e' (pc_rules pcfg)" "promote ?e' = Some p" using p same_promotion [of u t src et pl] by metis+
  let ?i = "promoted_input (tenant_scope tenant) ?e p" and ?i' = "promoted_input (tenant_scope tenant) ?e' p"
  have is': "promotion_inputs pcfg tenant evs = [?i]" "promotion_inputs pcfg tenant evs' = [?i']"
    using p p' by (simp_all add: promotion_inputs_def ev map_filter_simps)
  note c = promoted_canonical [OF p(2) tenant] and c' = promoted_canonical [OF p'(2) tenant]
  obtain added where "memory_add_batch P cfg [tk] [?i] en = Inr (added, en1)"
    using first(2) en is'(1) by (auto simp: promote_events_def split: sum.splits)
  then obtain res rows n where plan: "memory_plan_with_embedding P cfg tk ?i (batch_embeddings P cfg [?i] ! 0) en = Inr (res, rows)"
    and app: "memory_apply_rows_batch rows en = Inr (n, en1)"
    by (auto simp: one_input_batch [OF c(1)] res_bind_Inr_iff)
  note b = believed_after_one [OF plan app c(1) off inv fresh]
  have gov: "check_governance P cfg (i_scope (canonical_input ?i')) (i_subject (canonical_input ?i'))
      (i_metadata (canonical_input ?i')) (i_source_event_ids (canonical_input ?i')) = Inr ()"
    using governed_plan [OF plan] governed_by_event [of P cfg "tenant_scope tenant" _ _ u u']
    unfolding c c' by (simp add: promoted_input_def)
  have "find_active_by_subject (i_scope (canonical_input ?i')) (normalize_subject (pr_subject p)) (i_project (canonical_input ?i')) (en_store en1) = [ma_memory res]"
    "str_trim (m_content (ma_memory res)) = str_trim (i_content ?i')" using b(1,2) c c' by (simp_all add: promoted_input_def)
  from plan_confirms [OF gov c'(1) this] obtain r row where
    plan': "memory_plan_with_embedding P cfg tk' ?i' (batch_embeddings P cfg [?i'] ! 0) en1 = Inr (r, [row])"
    and r: "ma_outcome r = Confirmed" "row_id row = m_id (ma_memory res)" "belief (mr_memory row) = belief (ma_memory res)" by blast
  have stored: "ma_memory res \<in> mems (en_store en1)" using b(1) in_find_active by (metis list.set_intros(1))
  then have old: "\<forall>x \<in> set [row]. row_id x \<in> row_id ` set (st_memories (en_store en1))" using r(2) by (auto simp: mems_def)
  obtain en2 where app': "memory_apply_rows_batch [row] en1 = Inr (1, en2)" using apply_known_rows [OF b(3) old] by auto
  have "store_ids (en_store en2) = store_ids (en_store en1)"
    unfolding apply_rows_batch_store [OF app' b(3)] store_ids_fold_put using old by (auto simp: store_ids_def)
  moreover have "memory_add_batch P cfg [tk'] [?i'] en1 = Inr ([r], en2)"
    by (simp add: one_input_batch [OF c'(1)] plan' app')
  moreover have "belief ` mems (en_store en2) = belief ` mems (en_store en1)"
    unfolding apply_rows_batch_store [OF app' b(3)] by (rule beliefs_fold_put [OF b(3)]) (use stored r(3) in auto)
  ultimately show ?thesis using r(1) en by (auto simp: promote_events_def is'(2))
qed

definition demo_closed_issue :: json where
  "demo_closed_issue = JObj [(''action'', JStr ''closed''), (''repository'', JObj [(''full_name'', JStr ''acme/api'')]),
     (''sender'', JObj [(''login'', JStr ''bob'')]),
     (''issue'', JObj [(''number'', JInt 7), (''title'', JStr ''Quorum lost''), (''body'', JStr ''Restarted.'')])]"

definition demo_promotion :: promotion_config where
  "demo_promotion = \<lparr>pc_enabled = True, pc_rules = default_rules\<rparr>"

theorem webhook_redelivery_confirms_witness:
  "\<exists>en1 r en2. promote_events demo_promotion demo_ports demo_cfg [demo_tick 11] ''acme''
       (projr (normalize_webhook 1 5 ''github'' demo_closed_issue)) demo_engine1 = (1, en1) \<and>
     memory_add_batch demo_ports demo_cfg [demo_tick 12] (promotion_inputs demo_promotion ''acme''
       (projr (normalize_webhook 2 9 ''github'' demo_closed_issue))) en1 = Inr ([r], en2) \<and> ma_outcome r = Confirmed \<and>
     store_ids (en_store en2) = store_ids (en_store en1) \<and> belief ` mems (en_store en2) = belief ` mems (en_store en1)"
proof -
  let ?evs = "projr (normalize_webhook 1 5 ''github'' demo_closed_issue)" and ?evs' = "projr (normalize_webhook 2 9 ''github'' demo_closed_issue)"
  have n: "normalize_webhook 1 5 ''github'' demo_closed_issue = Inr ?evs" "normalize_webhook 2 9 ''github'' demo_closed_issue = Inr ?evs'"
    by (simp_all add: normalize_webhook_def normalize_github_def Let_def)
  obtain k en1 where p: "promote_events demo_promotion demo_ports demo_cfg [demo_tick 11] ''acme'' ?evs demo_engine1 = (k, en1)" by fastforce
  have "fst (promote_events demo_promotion demo_ports demo_cfg [demo_tick 11] ''acme'' ?evs demo_engine1) = 1" by code_simp
  then have p1: "promote_events demo_promotion demo_ports demo_cfg [demo_tick 11] ''acme'' ?evs demo_engine1 = (1, en1)" using p by simp
  have ok: "ms_inv (en_store demo_engine1)" "unique_active (en_store demo_engine1)"
    "tk_id (demo_tick 11) \<notin> store_ids (en_store demo_engine1)" "\<not> cg_contradiction_review demo_cfg" by code_simp+
  have "''acme'' \<noteq> ([] :: string)" by simp
  from webhook_redelivery_confirms [OF n(1) p1 n(2) ok this, of "demo_tick 12"]
  obtain r en2 where "memory_add_batch demo_ports demo_cfg [demo_tick 12] (promotion_inputs demo_promotion ''acme'' ?evs') en1 = Inr ([r], en2)"
    "ma_outcome r = Confirmed" "store_ids (en_store en2) = store_ids (en_store en1)"
    "belief ` mems (en_store en2) = belief ` mems (en_store en1)" by (elim exE conjE)
  then show ?thesis using p1 by (intro exI [of _ en1] exI [of _ r] exI [of _ en2] conjI)
qed

end
