(* ===== verification/Gateway_Webhook.thy ===== *)
theory Gateway_Webhook
  imports Gateway_Memory Webhook_Events Agent_Driver
begin

text \<open>
  The ingestion endpoints of the gateway, in \<open>rest/handlers/mod.rs\<close>: the verification of vendor
  signatures, the webhook handler (verify, normalise, ingest, promote, fire triggers) and the event
  endpoint. HMAC-SHA256 and the JSON parser are parameters; a handler is an operation of the agent driver's
  kind, so that a panic is an outcome. Arithmetic on Unix seconds is that of a release build.
\<close>

record webhook_env = agent_env +
  we_hmac :: "string \<Rightarrow> string \<Rightarrow> string"
  we_parse_body :: "string \<Rightarrow> string + json"
  we_promotion :: promotion_config
  we_ticks :: "nat \<Rightarrow> nat \<Rightarrow> tick"
  we_unix_now :: "nat \<Rightarrow> int"
  we_agentic :: bool

abbreviation we_agent :: "webhook_env \<Rightarrow> agent_env" where
  "we_agent E \<equiv> agent_env.truncate E"

type_synonym headers = "(string \<times> string) list"

subsection \<open>Responses in JSON\<close>

definition json_ok :: "json \<Rightarrow> json response" where
  "json_ok body = (status_response 200)\<lparr>rs_body := Some body\<rparr>"

definition error_json :: "api_body response \<Rightarrow> json response" where
  "error_json r = (status_response (rs_status r))\<lparr>rs_body := (case rs_body r of
     Some (Api_Error code message) \<Rightarrow> Some (JObj [(''error'', JObj [(''code'', JStr code), (''message'', JStr message)])])
   | _ \<Rightarrow> None)\<rparr>"

definition json_error :: "nat \<Rightarrow> string \<Rightarrow> string \<Rightarrow> json response" where
  "json_error status code message = error_json (api_error status code message)"

subsection \<open>Signatures\<close>

record webhook_verifier =
  wv_per_source :: "(string \<times> string) list"
  wv_default :: "string option"
  wv_require :: bool

definition verifier_entry :: "string \<Rightarrow> (string \<times> string) list \<Rightarrow> (string \<times> string) list" where
  "verifier_entry entry per_source =
    (case split_once_at (CHR ''='') entry of
       Some (src, secret) \<Rightarrow> if str_trim src \<noteq> [] \<and> secret \<noteq> [] then alist_put (str_trim src) secret per_source else per_source
     | None \<Rightarrow> per_source)"

definition verifier_from_config :: "string option \<Rightarrow> string list \<Rightarrow> bool \<Rightarrow> webhook_verifier" where
  "verifier_from_config default_secret entries require =
    \<lparr>wv_per_source = fold verifier_entry entries [], wv_default = default_secret, wv_require = require\<rparr>"

definition secret_for :: "webhook_verifier \<Rightarrow> string \<Rightarrow> string option" where
  "secret_for v source = or_else (map_of (wv_per_source v) source) (wv_default v)"

text \<open>\<open>u8::from_str_radix\<close> on two characters accepts a plus sign before one digit.\<close>

definition hex_value :: "char \<Rightarrow> nat option" where
  "hex_value c =
    (if is_digit_ascii c then Some (of_char c - 48)
     else if is_hexdigit c then Some (of_char (lower_char c) - 87) else None)"

definition hex_byte :: "char \<Rightarrow> char \<Rightarrow> char option" where
  "hex_byte a b =
    (case hex_value b of
       None \<Rightarrow> None
     | Some y \<Rightarrow> (case hex_value a of Some x \<Rightarrow> Some (char_of (16 * x + y)) | None \<Rightarrow> if a = CHR ''+'' then Some (char_of y) else None))"

fun hex_decode :: "string \<Rightarrow> string option" where
  "hex_decode [] = Some []"
| "hex_decode [c] = None"
| "hex_decode (a # b # rest) =
    (case hex_byte a b of None \<Rightarrow> None | Some x \<Rightarrow> map_option ((#) x) (hex_decode rest))"

definition verify_hex_hmac :: "webhook_env \<Rightarrow> string \<Rightarrow> string \<Rightarrow> string \<Rightarrow> bool" where
  "verify_hex_hmac E secret msg sig_hex \<longleftrightarrow> hex_decode (str_trim sig_hex) = Some (we_hmac E secret msg)"

definition verify_webhook_signature :: "webhook_env \<Rightarrow> string \<Rightarrow> string option \<Rightarrow> string \<Rightarrow> bool" where
  "verify_webhook_signature E secret signature_header body =
    (case signature_header of
       None \<Rightarrow> False
     | Some sg \<Rightarrow> verify_hex_hmac E secret body (case strip_prefix_of ''sha256='' sg of Some h \<Rightarrow> h | None \<Rightarrow> sg))"

definition header_text :: "headers \<Rightarrow> string \<Rightarrow> string option" where
  "header_text hs name = Option.bind (map_of hs name) header_str"

definition digits_value :: "string \<Rightarrow> int" where
  "digits_value ds = fold (\<lambda>c n. 10 * n + (int (of_char c) - 48)) ds 0"

definition parse_i64 :: "string \<Rightarrow> int option" where
  "parse_i64 s =
    (let neg = (take 1 s = ''-''); ds = (if take 1 s = ''-'' \<or> take 1 s = ''+'' then drop 1 s else s);
         n = (if neg then - digits_value ds else digits_value ds)
     in if ds \<noteq> [] \<and> list_all is_digit_ascii ds \<and> - (2 ^ 63) \<le> n \<and> n < 2 ^ 63 then Some n else None)"

definition i64_wrap :: "int \<Rightarrow> int" where
  "i64_wrap i = (i + 2 ^ 63) mod 2 ^ 64 - 2 ^ 63"

definition stale :: "int \<Rightarrow> int \<Rightarrow> bool" where
  "stale now stamp \<longleftrightarrow> i64_wrap \<bar>i64_wrap (now - stamp)\<bar> > 300"

definition verify_slack_signature :: "webhook_env \<Rightarrow> string \<Rightarrow> headers \<Rightarrow> string \<Rightarrow> int \<Rightarrow> bool" where
  "verify_slack_signature E secret hs body now =
    (case header_text hs ''x-slack-request-timestamp'' of
       None \<Rightarrow> False
     | Some stamp \<Rightarrow>
         (case parse_i64 stamp of
            None \<Rightarrow> False
          | Some n \<Rightarrow>
              if stale now n then False
              else case Option.bind (header_text hs ''x-slack-signature'') (strip_prefix_of ''v0='') of
                None \<Rightarrow> False
              | Some sg \<Rightarrow> verify_hex_hmac E secret (''v0:'' @ stamp @ '':'' @ body) sg))"

definition verify_vendor_signature :: "webhook_env \<Rightarrow> string \<Rightarrow> string \<Rightarrow> headers \<Rightarrow> string \<Rightarrow> int \<Rightarrow> bool" where
  "verify_vendor_signature E source secret hs body now =
    (if source = ''slack'' then verify_slack_signature E secret hs body now
     else if source = ''sentry''
     then (case header_text hs ''sentry-hook-signature'' of Some s \<Rightarrow> verify_hex_hmac E secret body s | None \<Rightarrow> False)
     else if source = ''pagerduty''
     then (case header_text hs ''x-pagerduty-signature'' of
             Some h \<Rightarrow> list_ex (verify_hex_hmac E secret body)
               (List.map_filter (\<lambda>p. strip_prefix_of ''v1='' (str_trim p)) (split_on (\<lambda>c. c = CHR '','') h))
           | None \<Rightarrow> False)
     else verify_webhook_signature E secret
       (or_else (header_text hs ''x-hub-signature-256'') (header_text hs ''x-signature-256'')) body)"

subsection \<open>Ingestion\<close>

definition engine_ingest :: "webhook_env \<Rightarrow> string option \<Rightarrow> event list \<Rightarrow> nat act" where
  "engine_ingest E tenant events s =
    (let nd = ag_node s;
         pl = \<lparr>pl_episodic = nd_episodic nd, pl_semantic = Some (nd_semantic nd), pl_batch_size = ae_batch_size E\<rparr>
     in case (case tenant of
                Some t \<Rightarrow> ingest_for_tenant (ae_json_str E) (ae_rfc3339 E) (ae_embed_documents E) events t pl
              | None \<Rightarrow> ingest (ae_json_str E) (ae_rfc3339 E) (ae_embed_documents E) events pl) of (r, pl') \<Rightarrow>
          let s' = s\<lparr>ag_node := nd\<lparr>nd_episodic := pl_episodic pl',
                nd_semantic := (case pl_semantic pl' of Some ss \<Rightarrow> ss | None \<Rightarrow> nd_semantic nd)\<rparr>\<rparr>
          in case r of None \<Rightarrow> (Panicked, s') | Some (Inl e) \<Rightarrow> (Raised e, s') | Some (Inr n) \<Rightarrow> (Done n, s'))"

definition act_try :: "'a act \<Rightarrow> (error + 'a) act" where
  "act_try m s = (case m s of
     (Done x, s') \<Rightarrow> (Done (Inr x), s') | (Raised e, s') \<Rightarrow> (Done (Inl e), s') | (Panicked, s') \<Rightarrow> (Panicked, s'))"

definition promote_act :: "webhook_env \<Rightarrow> string \<Rightarrow> event list \<Rightarrow> nat act" where
  "promote_act E tenant events =
    act_bind (read_env (we_ticks E)) (\<lambda>tick s.
      case promote_events (we_promotion E) (ae_ports E) (cognition_config.truncate (ae_cfg E)) (map tick [0..<length events])
          tenant events (nd_memory (ag_node s)) of
        (n, en) \<Rightarrow> (Done n, s\<lparr>ag_node := (ag_node s)\<lparr>nd_memory := en\<rparr>\<rparr>))"

text \<open>An error of one trigger round is dropped.\<close>

fun fire_all :: "webhook_env \<Rightarrow> string \<Rightarrow> event list \<Rightarrow> uuid list act" where
  "fire_all E tenant [] = act_ret []"
| "fire_all E tenant (ev # evs) =
    act_bind (act_try (fire_triggers (we_agent E) tenant (ev_source ev) (ev_event_type ev) (ev_payload ev))) (\<lambda>r.
      act_bind (fire_all E tenant evs) (\<lambda>rest. act_ret ((case r of Inr ids \<Rightarrow> ids | Inl _ \<Rightarrow> []) @ rest)))"

definition webhook_accepted :: "webhook_env \<Rightarrow> string option \<Rightarrow> string \<Rightarrow> event list \<Rightarrow> json response act" where
  "webhook_accepted E tenant source events =
    act_bind (act_try (engine_ingest E tenant events)) (\<lambda>r. case r of
      Inl e \<Rightarrow> act_ret (json_error 500 ''INGEST_ERROR'' (ae_error_str E e))
    | Inr ingested \<Rightarrow>
        let tenant_str = (case tenant of Some t \<Rightarrow> t | None \<Rightarrow> ''default'')
        in act_bind (promote_act E tenant_str events) (\<lambda>promoted.
             act_bind (if we_agentic E then fire_all E tenant_str events else act_ret []) (\<lambda>runs.
               act_ret (json_ok (JObj [(''source'', JStr source), (''normalized'', JInt (int (length events))),
                 (''ingested'', JInt (int ingested)), (''promoted'', JInt (int promoted)),
                 (''triggered_runs'', JArr (map (\<lambda>u. JStr (ae_uuid_str E u)) runs))])))))"

definition webhook_verified :: "webhook_env \<Rightarrow> auth_context option \<Rightarrow> string \<Rightarrow> string \<Rightarrow> json response act" where
  "webhook_verified E auth source body =
    (case we_parse_body E body of
       Inl msg \<Rightarrow> act_ret (json_error 400 ''INVALID_JSON'' msg)
     | Inr payload \<Rightarrow>
         act_bind (read_env (ae_uuid E)) (\<lambda>fresh. act_bind (read_env (ae_now E)) (\<lambda>now.
           case normalize_webhook fresh now source payload of
             Inl e \<Rightarrow> act_ret (json_error 422 ''WEBHOOK_NORMALIZE_ERROR'' (ae_error_str E e))
           | Inr events \<Rightarrow> webhook_accepted E (auth_tenant auth) source events)))"

definition signature_required :: "string \<Rightarrow> json response" where
  "signature_required source = json_error 401 ''SIGNATURE_REQUIRED''
    (''no webhook secret configured for source '' @ CHR 0x27 # source @ CHR 0x27 # '' and signatures are required; ''
      @ ''configure gateway.webhook_secrets = ['' @ quoted (source @ ''=<secret>'') @ '']'')"

definition webhook ::
  "webhook_env \<Rightarrow> webhook_verifier option \<Rightarrow> auth_context option \<Rightarrow> string \<Rightarrow> headers \<Rightarrow> string \<Rightarrow> json response act" where
  "webhook E verifier auth source hs body =
    (case verifier of
       None \<Rightarrow> webhook_verified E auth source body
     | Some v \<Rightarrow>
         (case secret_for v source of
            Some secret \<Rightarrow>
              act_bind (read_env (we_unix_now E)) (\<lambda>now.
                if verify_vendor_signature E source secret hs body now then webhook_verified E auth source body
                else act_ret (json_error 401 ''INVALID_SIGNATURE'' ''webhook signature verification failed''))
          | None \<Rightarrow> if wv_require v then act_ret (signature_required source) else webhook_verified E auth source body))"

text \<open>The event endpoint: the events of the body under one source, replicated in a cluster.\<close>

definition MAX_INGEST_EVENTS :: nat where
  "MAX_INGEST_EVENTS = 10000"

definition ingest_event :: "string \<Rightarrow> uuid \<Rightarrow> ts \<Rightarrow> json \<Rightarrow> event" where
  "ingest_event source fresh now payload =
    \<lparr>ev_id = fresh, ev_source = source, ev_event_type = str_or ''unknown'' (json_get payload ''event_type''), ev_payload = payload,
     ev_timestamp = now, ev_parent_id = None, ev_trace_id = None, ev_tags = [],
     ev_idempotency_key = Option.bind (json_get payload ''idempotency_key'') json_as_str\<rparr>"

fun ingest_events :: "webhook_env \<Rightarrow> string \<Rightarrow> json list \<Rightarrow> event list act" where
  "ingest_events E source [] = act_ret []"
| "ingest_events E source (p # ps) =
    act_bind (read_env (ae_uuid E)) (\<lambda>fresh. act_bind (read_env (ae_now E)) (\<lambda>now.
      act_bind (ingest_events E source ps) (\<lambda>evs. act_ret (ingest_event source fresh now p # evs))))"

text \<open>A consensus write with the answer of the state machine, or the text of the error.\<close>

definition cluster_request :: "webhook_env \<Rightarrow> app_request \<Rightarrow> (string + app_response) act" where
  "cluster_request E req s =
    (let s1 = s\<lparr>ag_tick := ag_tick s + 1\<rparr>
     in case ae_replicate E (ag_tick s) req of
          Some e \<Rightarrow> (Done (Inl (ae_error_str E e)), s1)
        | None \<Rightarrow>
            (case apply_request (ae_ports E) (cognition_config.truncate (ae_cfg E)) (we_agentic E) (\<lambda>_. ae_now E (ag_tick s)) req (ag_node s) of
               Inl e \<Rightarrow> (Done (Inl (ae_error_str E e)), s1)
             | Inr (resp, nd) \<Rightarrow> (Done (Inr resp), s1\<lparr>ag_node := nd\<rparr>)))"

definition ingest_handler :: "webhook_env \<Rightarrow> auth_context option \<Rightarrow> string \<Rightarrow> json list \<Rightarrow> json response act" where
  "ingest_handler E auth source payloads =
    (if length payloads > MAX_INGEST_EVENTS
     then act_ret (json_error 422 ''BATCH_TOO_LARGE''
       (''batch contains '' @ show_nat (length payloads) @ '' events, maximum is '' @ show_nat MAX_INGEST_EVENTS))
     else act_bind (ingest_events E source payloads) (\<lambda>events.
       if ae_replicator E
       then act_bind (cluster_request E (Req_Ingest events (auth_tenant auth))) (\<lambda>r. act_ret (case r of
         Inr (Resp_Ingested n) \<Rightarrow> json_ok (JObj [(''ingested'', JInt (int n))])
       | Inr _ \<Rightarrow> json_ok (JObj [(''ingested'', JInt 0)])
       | Inl msg \<Rightarrow> error_json (cluster_write_error msg)))
       else act_bind (act_try (engine_ingest E (auth_tenant auth) events)) (\<lambda>r. act_ret (case r of
         Inr n \<Rightarrow> json_ok (JObj [(''ingested'', JInt (int n))])
       | Inl e \<Rightarrow> json_error 500 ''INGEST_ERROR'' (ae_error_str E e)))))"

subsection \<open>What an accepted signature means\<close>

text \<open>The specification of a signed request: some part of a signature header of the vendor is the hexadecimal form of
  the HMAC, under the secret of the source, of the body, which Slack extends by its time stamp.\<close>

definition signature_headers :: "string \<Rightarrow> string list" where
  "signature_headers source =
    (if source = ''slack'' then [''x-slack-signature''] else if source = ''sentry'' then [''sentry-hook-signature'']
     else if source = ''pagerduty'' then [''x-pagerduty-signature''] else [''x-hub-signature-256'', ''x-signature-256''])"

definition signed_text :: "string \<Rightarrow> headers \<Rightarrow> string \<Rightarrow> string" where
  "signed_text source hs body =
    (if source = ''slack'' then ''v0:'' @ (case map_of hs ''x-slack-request-timestamp'' of Some t \<Rightarrow> t | None \<Rightarrow> []) @ '':'' @ body else body)"

definition authentic :: "webhook_env \<Rightarrow> string \<Rightarrow> string \<Rightarrow> headers \<Rightarrow> string \<Rightarrow> bool" where
  "authentic E secret source hs body \<longleftrightarrow>
    (\<exists>name \<in> set (signature_headers source). \<exists>v sg. map_of hs name = Some v \<and> sublist sg v \<and>
       hex_decode sg = Some (we_hmac E secret (signed_text source hs body)))"

text \<open>Within five minutes; the absolute value of the smallest number wraps around, so one more stamp passes.\<close>

definition recent :: "int \<Rightarrow> headers \<Rightarrow> bool" where
  "recent now hs \<longleftrightarrow> (\<exists>t n. map_of hs ''x-slack-request-timestamp'' = Some t \<and> parse_i64 t = Some n \<and>
     (\<bar>now - n\<bar> \<le> 300 \<or> n = now - 2 ^ 63))"

lemma header_text_Some: "header_text hs name = Some v \<longleftrightarrow> map_of hs name = Some v \<and> header_str v = Some v"
  by (auto simp: header_text_def header_str_def bind_eq_Some_conv split: if_splits)

lemma sublist_dropWhile: "sublist (dropWhile P s) s"
  by (metis sublist_appendI append_Nil2 takeWhile_dropWhile_id)

lemma sublist_str_trim: "sublist (str_trim s) s"
proof -
  have "sublist (rev (dropWhile P (rev t))) t" for P and t :: string
    using sublist_dropWhile [of P "rev t"] by (metis rev_rev_ident sublist_rev)
  then show ?thesis unfolding str_trim_def trim_matches_def trim_end_matches_def trim_start_matches_def
    using sublist_dropWhile sublist_order.order_trans by blast
qed

lemma sublist_strip: "strip_prefix_of pre s = Some rest \<Longrightarrow> sublist rest s"
  by (metis append_Nil2 strip_prefix_of_Some sublist_appendI)

lemma sublist_split_on: "w \<in> set (split_on P s) \<Longrightarrow> sublist w s"
proof -
  have "prefix (hd (split_on P s)) s \<and> (\<forall>w \<in> set (split_on P s). sublist w s)"
  proof (induction s)
    case (Cons c cs)
    obtain v vs where v: "split_on P cs = v # vs" by (cases "split_on P cs") auto
    then show ?case using Cons by (auto simp: sublist_Cons_right)
  qed simp
  then show "w \<in> set (split_on P s) \<Longrightarrow> sublist w s" by blast
qed

lemma verified_sublist:
  assumes "verify_hex_hmac E secret msg sg" and "sublist sg v"
  shows "\<exists>x. sublist x v \<and> hex_decode x = Some (we_hmac E secret msg)"
  using assms sublist_str_trim [of sg] sublist_order.order_trans unfolding verify_hex_hmac_def by blast

lemma i64_range: "parse_i64 s = Some n \<Longrightarrow> - (2 ^ 63) \<le> n \<and> n < 2 ^ 63"
  by (auto simp: parse_i64_def Let_def split: if_splits)

lemma i64_wrap_id: "- (2 ^ 63) \<le> i \<Longrightarrow> i < 2 ^ 63 \<Longrightarrow> i64_wrap i = i"
  by (simp add: i64_wrap_def)

lemma not_stale:
  assumes "\<not> stale now n" "0 \<le> now" "now < 2 ^ 62" "- (2 ^ 63) \<le> n" "n < 2 ^ 63"
  shows "\<bar>now - n\<bar> \<le> 300 \<or> n = now - 2 ^ 63"
proof (cases "now - n < 2 ^ 63")
  case True
  then have "i64_wrap (now - n) = now - n" using assms by (intro i64_wrap_id) simp_all
  moreover have "i64_wrap \<bar>now - n\<bar> = \<bar>now - n\<bar>" using True assms by (intro i64_wrap_id) simp_all
  ultimately show ?thesis using assms(1) by (simp add: stale_def)
next
  case False
  then have "i64_wrap (now - n) = now - n - 2 ^ 64"
  proof -
    have "(now - n + 2 ^ 63) mod 2 ^ 64 = (now - n + 2 ^ 63 - 2 ^ 64) mod 2 ^ 64" by (rule minus_mod_self2 [symmetric])
    also have "\<dots> = now - n + 2 ^ 63 - 2 ^ 64" using False assms by (intro mod_pos_pos_trivial) simp_all
    finally show ?thesis by (simp add: i64_wrap_def)
  qed
  moreover have "i64_wrap (2 ^ 64 - (now - n)) = 2 ^ 64 - (now - n)" if "n \<noteq> now - 2 ^ 63"
    using False assms that by (intro i64_wrap_id) simp_all
  ultimately show ?thesis using assms False by (auto simp: stale_def)
qed

lemma verified_authentic:
  assumes "verify_vendor_signature E source secret hs body now" and "0 \<le> now" "now < 2 ^ 62"
  shows "authentic E secret source hs body \<and> (source = ''slack'' \<longrightarrow> recent now hs)"
proof -
  consider (slack) "source = ''slack''" | (sentry) "source = ''sentry''" | (pagerduty) "source = ''pagerduty''"
    | (other) "source \<notin> {''slack'', ''sentry'', ''pagerduty''}" by blast
  then show ?thesis
  proof cases
    case slack
    then obtain st n v sg where h: "map_of hs ''x-slack-request-timestamp'' = Some st" "parse_i64 st = Some n" "\<not> stale now n"
      "map_of hs ''x-slack-signature'' = Some v" "strip_prefix_of ''v0='' v = Some sg"
      and ok: "verify_hex_hmac E secret (''v0:'' @ st @ '':'' @ body) sg"
      using assms(1) by (auto simp: verify_vendor_signature_def verify_slack_signature_def header_text_Some bind_eq_Some_conv
          split: option.splits if_splits)
    have "recent now hs" using not_stale [OF h(3) assms(2,3)] i64_range [OF h(2)] h(1,2) by (auto simp: recent_def)
    then show ?thesis using verified_sublist [OF ok sublist_strip [OF h(5)]] h(1,4) slack
      by (simp add: authentic_def signature_headers_def signed_text_def)
  next
    case sentry
    then obtain v where "map_of hs ''sentry-hook-signature'' = Some v" "verify_hex_hmac E secret body v"
      using assms(1) by (auto simp: verify_vendor_signature_def header_text_Some split: option.splits)
    then show ?thesis using verified_sublist [of E secret body v v] sentry by (simp add: authentic_def signature_headers_def signed_text_def)
  next
    case pagerduty
    then obtain v w sg where h: "map_of hs ''x-pagerduty-signature'' = Some v" "w \<in> set (split_on (\<lambda>c. c = CHR '','') v)"
      "strip_prefix_of ''v1='' (str_trim w) = Some sg" and ok: "verify_hex_hmac E secret body sg"
      using assms(1) by (auto simp: verify_vendor_signature_def header_text_Some list_ex_iff split: option.splits)
    have "sublist sg v" using sublist_strip [OF h(3)] sublist_str_trim [of w] sublist_split_on [OF h(2)] sublist_order.order_trans by metis
    from verified_sublist [OF ok this] show ?thesis using h(1) pagerduty by (simp add: authentic_def signature_headers_def signed_text_def)
  next
    case other
    then obtain v where v: "or_else (header_text hs ''x-hub-signature-256'') (header_text hs ''x-signature-256'') = Some v"
      and ok: "verify_hex_hmac E secret body (case strip_prefix_of ''sha256='' v of Some h \<Rightarrow> h | None \<Rightarrow> v)"
      using assms(1) by (cases "or_else (header_text hs ''x-hub-signature-256'') (header_text hs ''x-signature-256'')")
        (simp_all add: verify_vendor_signature_def verify_webhook_signature_def)
    obtain name where h: "name \<in> {''x-hub-signature-256'', ''x-signature-256''}" "map_of hs name = Some v"
      using v by (auto simp: or_else_def header_text_Some split: option.splits)
    have "sublist (case strip_prefix_of ''sha256='' v of Some h \<Rightarrow> h | None \<Rightarrow> v) v" using sublist_strip by (auto split: option.split)
    from verified_sublist [OF ok this] show ?thesis using h other by (auto simp: authentic_def signature_headers_def signed_text_def)
  qed
qed

text \<open>C30: Unsigned webhooks have no effect. When a secret is configured for the source, a delivery that carries no HMAC of
  the body under that secret in a signature header of the vendor - or, for Slack, a time stamp more
  than five minutes off - is answered 401 and changes no store: no event, memory or run. The same holds
  without a secret when signatures are required.\<close>

theorem webhook_unsigned_refused:
  assumes "webhook E (Some v) auth source hs body s = (r, s')"
    and "case secret_for v source of
        Some secret \<Rightarrow> \<not> (authentic E secret source hs body \<and> (source = ''slack'' \<longrightarrow> recent (we_unix_now E (ag_tick s)) hs))
      | None \<Rightarrow> wv_require v"
    and "0 \<le> we_unix_now E (ag_tick s)" "we_unix_now E (ag_tick s) < 2 ^ 62"
  shows "ag_node s' = ag_node s \<and> (\<exists>resp. r = Done resp \<and> rs_status resp = 401)"
  using assms verified_authentic [of E source _ hs body "we_unix_now E (ag_tick s)"]
  by (auto simp: webhook_def act_bind_def read_env_def act_ret_def signature_required_def json_error_def error_json_def api_error_def
      status_response_def split: option.splits if_splits)

text \<open>A trigger registered for a vendor by name, as the documentation shows, does not match the vendor's events: their
  source carries the repository, project, channel or service.\<close>

lemma vendor_trigger_silent:
  assumes "normalize_webhook u t vendor_name payload = Inr evs" and "vendor_name \<in> {''github'', ''sentry'', ''slack'', ''pagerduty''}"
    and "ev \<in> set evs" and "json_get trigger ''source'' = Some (JStr vendor_name)"
  shows "\<not> trigger_matches (ev_source ev) (ev_event_type ev) trigger"
proof -
  consider "vendor_name = ''github''" | "vendor_name = ''sentry''" | "vendor_name = ''slack''" | "vendor_name = ''pagerduty''"
    using assms(2) by blast
  then have "vendor_name \<noteq> ''*'' \<and> (\<exists>x. ev_source ev = vendor_name @ ''/'' @ x)"
    using assms(1,3) by cases (auto simp: normalize_webhook_def normalize_github_def normalize_sentry_def normalize_slack_def
        normalize_pagerduty_def Let_def)
  then show ?thesis using assms(4) by (auto simp: trigger_matches_def)
qed

subsection \<open>A signed and an unsigned delivery\<close>

definition demo_webhook :: webhook_env where
  "demo_webhook = \<lparr>ae_now = (\<lambda>n. int n), ae_sql_now = (\<lambda>_. ''0''), ae_uuid = (\<lambda>n. of_nat n), ae_uuid_str = (\<lambda>_. ''u''),
     ae_rfc3339 = (\<lambda>_. ''t''), ae_json_str = (\<lambda>_. []), ae_parse_json = (\<lambda>_. None), ae_error_str = (\<lambda>_. ''e''), ae_complete = None,
     ae_call_tool = None, ae_replicator = False, ae_replicate = (\<lambda>_ _. None), ae_is_leader = (\<lambda>_. True), ae_driver_id = ''d'',
     ae_ports = demo_ports, ae_search = search_demo, ae_cfg = search_demo_cfg, ae_batch_size = 8, ae_embed_documents = None, ae_runs_fail = (\<lambda>_. None),
     we_hmac = (\<lambda>k m. k @ m), we_parse_body = (\<lambda>_. Inr demo_closed_issue), we_promotion = demo_promotion,
     we_ticks = (\<lambda>n i. demo_tick (50 + i)), we_unix_now = (\<lambda>_. 1000), we_agentic = True\<rparr>"

definition demo_verifier :: webhook_verifier where
  "demo_verifier = verifier_from_config None [''github=k''] True"

definition webhook_start :: agent_state where
  "webhook_start = \<lparr>ag_node = node_new 2, ag_tick = 0, ag_calls = []\<rparr>"

theorem webhook_unsigned_refused_witness:
  "(\<exists>resp s'. webhook demo_webhook (Some demo_verifier) None ''github'' [(''x-hub-signature-256'', ''sha256=6b78'')] ''{}'' webhook_start = (Done resp, s') \<and>
      rs_status resp = 401 \<and> ag_node s' = node_new 2) \<and>
   (case webhook demo_webhook (Some demo_verifier) None ''github'' [(''x-hub-signature-256'', ''sha256=6b7b7d'')] ''{}'' webhook_start of
      (Done resp, s') \<Rightarrow> rs_status resp = 200 \<and> length (ep_events (nd_episodic (ag_node s'))) = 1 \<and>
        length (st_memories (en_store (nd_memory (ag_node s')))) = 1
    | _ \<Rightarrow> False)"
proof
  let ?hs = "[(''x-hub-signature-256'', ''sha256=6b78'')]"
  obtain r s' where run: "webhook demo_webhook (Some demo_verifier) None ''github'' ?hs ''{}'' webhook_start = (r, s')" by fastforce
  have secret: "secret_for demo_verifier ''github'' = Some ''k''" by code_simp
  have no: "\<not> sublist sg ''sha256=6b78''" if "hex_decode sg = Some ''k{}''" for sg
  proof
    assume "sublist sg ''sha256=6b78''"
    then have "sg \<in> set (sublists ''sha256=6b78'')" by (simp only: set_sublists_eq mem_Collect_eq)
    moreover have "list_all (\<lambda>x. hex_decode x \<noteq> Some ''k{}'') (sublists ''sha256=6b78'')" by code_simp
    ultimately show False using that by (auto simp: list_all_iff)
  qed
  have hmac: "we_hmac demo_webhook ''k'' (signed_text ''github'' ?hs ''{}'') = ''k{}''" by code_simp
  have "\<not> authentic demo_webhook ''k'' ''github'' ?hs ''{}''"
    using no by (auto simp: authentic_def signature_headers_def hmac [unfolded append_Cons])
  then have bad: "case secret_for demo_verifier ''github'' of
        Some secret \<Rightarrow> \<not> (authentic demo_webhook secret ''github'' ?hs ''{}'' \<and> (''github'' = ''slack'' \<longrightarrow> recent (we_unix_now demo_webhook (ag_tick webhook_start)) ?hs))
      | None \<Rightarrow> wv_require demo_verifier" by (simp add: secret)
  have now: "0 \<le> we_unix_now demo_webhook (ag_tick webhook_start)" "we_unix_now demo_webhook (ag_tick webhook_start) < 2 ^ 62"
    by (simp_all add: demo_webhook_def)
  from webhook_unsigned_refused [OF run bad now] run
  show "\<exists>resp s'. webhook demo_webhook (Some demo_verifier) None ''github'' ?hs ''{}'' webhook_start = (Done resp, s') \<and>
      rs_status resp = 401 \<and> ag_node s' = node_new 2" by (auto simp: webhook_start_def)
  show "case webhook demo_webhook (Some demo_verifier) None ''github'' [(''x-hub-signature-256'', ''sha256=6b7b7d'')] ''{}'' webhook_start of
      (Done resp, s') \<Rightarrow> rs_status resp = 200 \<and> length (ep_events (nd_episodic (ag_node s'))) = 1 \<and>
        length (st_memories (en_store (nd_memory (ag_node s')))) = 1
    | _ \<Rightarrow> False" by code_simp
qed

end
