(* ===== verification/Tenant_Data.thy ===== *)
theory Tenant_Data
  imports Raft_Apply Memory_Maintenance
begin

text \<open>
  Operations of \<open>src/crates/ecphoria-core/src/engine/mod.rs\<close> on the whole of a tenant's data: erasing, exporting,
  importing and moving a tenant, the retention of events, distilling a session into memories, attachments with
  their blobs (\<open>storage/local.rs\<close>), and the neighbourhood of an entity in the graph.

  A snapshot of a tenant travels as JSON; here it is its parts, where \<open>None\<close> is a part that is absent or does
  not decode. Errors of the databases themselves are not modelled; a Rust panic is \<open>None\<close>.
\<close>

record data_env =
  de_json_str :: "json \<Rightarrow> string"
  de_rfc3339 :: "ts \<Rightarrow> string"
  de_embed_documents :: "(string list \<Rightarrow> embedding list option) option"
  de_batch_size :: nat

subsection \<open>Erasing a tenant\<close>

record erasure =
  es_events :: nat
  es_memories :: nat
  es_state :: nat
  es_vectors :: nat

definition tenant_prefix :: "string \<Rightarrow> string" where
  "tenant_prefix tenant = tenant @ [CHR 0x1F]"

definition delete_tenant :: "string \<Rightarrow> node \<Rightarrow> erasure \<times> node" where
  "delete_tenant tenant nd =
    (let (events, ep) = ep_delete_by_tenant tenant (nd_episodic nd);
         (memories, en) = delete_tenant_memories tenant (nd_memory nd);
         (state, kv) = kv_delete_by_prefix (tenant_prefix tenant) (nd_state nd);
         (vectors, ss) = ss_delete_by_tenant tenant (nd_semantic nd)
     in (\<lparr>es_events = events, es_memories = memories, es_state = state, es_vectors = vectors\<rparr>,
         nd\<lparr>nd_episodic := ep, nd_memory := en, nd_state := kv, nd_semantic := ss\<rparr>))"

subsection \<open>Moving a tenant\<close>

record tenant_snapshot =
  tn_events :: "event list option"
  tn_memories :: "memory list option"
  tn_state :: "json list option"

definition export_tenant :: "string \<Rightarrow> node \<Rightarrow> tenant_snapshot" where
  "export_tenant tenant nd =
    \<lparr>tn_events = Some (events_by_tenant tenant 10000000 (nd_episodic nd)),
     tn_memories = Some (list_by_tenant tenant 10000000 (en_store (nd_memory nd))),
     tn_state = Some (map (\<lambda>(agent, key, value). JArr [JStr agent, JStr key, value])
       (kv_export_by_prefix (tenant_prefix tenant) (nd_state nd)))\<rparr>"

definition ingest_node ::
  "data_env \<Rightarrow> event list \<Rightarrow> string \<Rightarrow> node \<Rightarrow> (error + nat) option \<times> node" where
  "ingest_node E events tenant nd =
    (case ingest_for_tenant (de_json_str E) (de_rfc3339 E) (de_embed_documents E) events tenant
        \<lparr>pl_episodic = nd_episodic nd, pl_semantic = Some (nd_semantic nd), pl_batch_size = de_batch_size E\<rparr> of
       (r, pl) \<Rightarrow> (r, nd\<lparr>nd_episodic := pl_episodic pl,
         nd_semantic := (case pl_semantic pl of Some ss \<Rightarrow> ss | None \<Rightarrow> nd_semantic nd)\<rparr>))"

text \<open>An item of the state is an array of agent, key and value; anything else is skipped.\<close>

fun state_item :: "json \<Rightarrow> (string \<times> string \<times> json) option" where
  "state_item (JArr (JStr agent # JStr key # value # _)) = Some (agent, key, value)"
| "state_item _ = None"

definition import_state :: "json list \<Rightarrow> state_store \<Rightarrow> nat \<times> state_store" where
  "import_state items kv =
    fold (\<lambda>(agent, key, value) acc. (fst acc + 1, snd (kv_set agent key value (snd acc))))
      (List.map_filter state_item items) (0, kv)"

record import_counts =
  ic_events :: nat
  ic_memories :: nat
  ic_state :: nat

definition import_rest :: "nat \<Rightarrow> tenant_snapshot \<Rightarrow> node \<Rightarrow> import_counts \<times> node" where
  "import_rest events snap nd =
    (let (memories, en) = (case tn_memories snap of Some ms \<Rightarrow> import_memories ms (nd_memory nd) | None \<Rightarrow> (0, nd_memory nd));
         (state, kv) = (case tn_state snap of Some items \<Rightarrow> import_state items (nd_state nd) | None \<Rightarrow> (0, nd_state nd))
     in (\<lparr>ic_events = events, ic_memories = memories, ic_state = state\<rparr>, nd\<lparr>nd_memory := en, nd_state := kv\<rparr>))"

definition import_tenant ::
  "data_env \<Rightarrow> string \<Rightarrow> tenant_snapshot \<Rightarrow> node \<Rightarrow> (error + import_counts) option \<times> node" where
  "import_tenant E tenant snap nd =
    (case (case tn_events snap of Some (ev # evs) \<Rightarrow> ingest_node E (ev # evs) tenant nd | _ \<Rightarrow> (Some (Inr 0), nd)) of
       (None, nd1) \<Rightarrow> (None, nd1)
     | (Some (Inl e), nd1) \<Rightarrow> (Some (Inl e), nd1)
     | (Some (Inr n), nd1) \<Rightarrow> (case import_rest n snap nd1 of (counts, nd2) \<Rightarrow> (Some (Inr counts), nd2)))"

definition migrate_tenant_to ::
  "data_env \<Rightarrow> string \<Rightarrow> node \<Rightarrow> node \<Rightarrow> (error + import_counts) option \<times> node \<times> node" where
  "migrate_tenant_to E tenant src dest =
    (case import_tenant E tenant (export_tenant tenant src) dest of
       (Some (Inr counts), dest') \<Rightarrow> (Some (Inr counts), snd (delete_tenant tenant src), dest')
     | (r, dest') \<Rightarrow> (r, src, dest'))"

subsection \<open>Retention of events\<close>

text \<open>The policies are one JSON value of the agent \<open>_system\<close>; a value that does not decode counts as none. A
  cutoff before the first instant the clock can represent panics in the background task, which the caller sees
  as an internal error; what was deleted before stays deleted. The clock is read once per enforcement.\<close>

fun policy_of_json :: "json \<Rightarrow> (string \<times> nat) option" where
  "policy_of_json (JArr [JStr source, JInt days]) =
    (if 0 \<le> days \<and> days < 2 ^ 32 then Some (source, nat days) else None)"
| "policy_of_json _ = None"

definition policies_of_json :: "json \<Rightarrow> (string \<times> nat) list" where
  "policies_of_json v = (case v of
     JArr items \<Rightarrow> (let ps = map policy_of_json items in if None \<in> set ps then [] else map the ps)
   | _ \<Rightarrow> [])"

definition json_of_policies :: "(string \<times> nat) list \<Rightarrow> json" where
  "json_of_policies ps = JArr (map (\<lambda>(source, days). JArr [JStr source, JInt (int days)]) ps)"

definition retention_policies :: "string \<Rightarrow> state_store \<Rightarrow> (string \<times> nat) list \<times> state_store" where
  "retention_policies now_sql kv =
    (case kv_get now_sql ''_system'' ''retention_policies'' kv of
       (Some entry, kv') \<Rightarrow> (policies_of_json (ste_value entry), kv')
     | (None, kv') \<Rightarrow> ([], kv'))"

fun put_policy :: "string \<Rightarrow> nat \<Rightarrow> (string \<times> nat) list \<Rightarrow> (string \<times> nat) list" where
  "put_policy source days [] = [(source, days)]"
| "put_policy source days (p # ps) =
    (if fst p = source then (source, days) # ps else p # put_policy source days ps)"

definition set_retention_policy :: "string \<Rightarrow> string \<Rightarrow> nat \<Rightarrow> state_store \<Rightarrow> state_store" where
  "set_retention_policy now_sql source days kv =
    (case retention_policies now_sql kv of (ps, kv1) \<Rightarrow>
       snd (kv_set ''_system'' ''retention_policies'' (json_of_policies (put_policy source days ps)) kv1))"

definition remove_retention_policy :: "string \<Rightarrow> string \<Rightarrow> state_store \<Rightarrow> state_store" where
  "remove_retention_policy now_sql source kv =
    (case retention_policies now_sql kv of (ps, kv1) \<Rightarrow>
       snd (kv_set ''_system'' ''retention_policies'' (json_of_policies (filter (\<lambda>p. fst p \<noteq> source) ps)) kv1))"

definition day_micros :: int where
  "day_micros = 86400000000"

definition cutoff :: "ts \<Rightarrow> ts \<Rightarrow> nat \<Rightarrow> ts option" where
  "cutoff first_instant now days =
    (let t = now - int days * day_micros in if t < first_instant then None else Some t)"

definition delete_events :: "(event_row \<Rightarrow> bool) \<Rightarrow> nat \<times> episodic_store \<Rightarrow> nat \<times> episodic_store" where
  "delete_events hit acc = (case acc of (n, ep) \<Rightarrow>
    (n + length (filter hit (ep_events ep)), ep\<lparr>ep_events := tbl_delete hit (ep_events ep)\<rparr>))"

fun apply_policies ::
  "ts \<Rightarrow> ts \<Rightarrow> (string \<times> nat) list \<Rightarrow> nat \<times> episodic_store \<Rightarrow> bool \<times> nat \<times> episodic_store" where
  "apply_policies first_instant now [] acc = (True, acc)"
| "apply_policies first_instant now ((source, days) # ps) acc =
    (if days = 0 then apply_policies first_instant now ps acc
     else (case cutoff first_instant now days of
             None \<Rightarrow> (False, acc)
           | Some c \<Rightarrow> apply_policies first_instant now ps
               (delete_events (\<lambda>r. er_source r = source \<and> er_ts r < c) acc)))"

definition enforce_retention ::
  "ts \<Rightarrow> nat \<Rightarrow> string \<Rightarrow> ts \<Rightarrow> node \<Rightarrow> (error + nat) \<times> node" where
  "enforce_retention first_instant default_days now_sql now nd =
    (case retention_policies now_sql (nd_state nd) of (ps, kv) \<Rightarrow>
       let nd1 = nd\<lparr>nd_state := kv\<rparr>
       in case apply_policies first_instant now ps (0, nd_episodic nd) of
            (False, _, ep) \<Rightarrow> (Inl (Internal ''join''), nd1\<lparr>nd_episodic := ep\<rparr>)
          | (True, n, ep) \<Rightarrow>
              (if default_days = 0 then (Inr n, nd1\<lparr>nd_episodic := ep\<rparr>)
               else (case cutoff first_instant now default_days of
                  None \<Rightarrow> (Inl (Internal ''join''), nd1\<lparr>nd_episodic := ep\<rparr>)
                | Some c \<Rightarrow>
                    (case delete_events (\<lambda>r. er_ts r < c \<and> (ps = [] \<or> er_source r \<notin> fst ` set ps)) (n, ep) of
                       (m, ep') \<Rightarrow> (Inr m, nd1\<lparr>nd_episodic := ep'\<rparr>)))))"

subsection \<open>Distilling a session\<close>

text \<open>Recalled events are listed as source, type and payload; a payload is cut after 300 characters, that is before
  the byte that starts the next one.\<close>

fun take_chars :: "nat \<Rightarrow> string \<Rightarrow> string" where
  "take_chars n [] = []"
| "take_chars n (c # cs) =
    (if is_continuation c then c # take_chars n cs else case n of 0 \<Rightarrow> [] | Suc m \<Rightarrow> c # take_chars m cs)"

definition digest_line :: "(json \<Rightarrow> string) \<Rightarrow> event_row \<Rightarrow> string" where
  "digest_line json_str r =
    ''- ['' @ er_source r @ ''] '' @ er_event_type r @ '': '' @ take_chars 300 (json_str (er_payload r)) @ [CHR 0x0A]"

definition session_digest :: "(json \<Rightarrow> string) \<Rightarrow> string \<Rightarrow> event_row list \<Rightarrow> string" where
  "session_digest json_str session_id events =
    ''Session '' @ session_id @ '' summary. Events:'' @ [CHR 0x0A] @ concat (map (digest_line json_str) (take 200 events))"

definition distill_input :: "memory_scope \<Rightarrow> string option \<times> string \<Rightarrow> memory_input" where
  "distill_input scope f = (fact_input scope f)\<lparr>i_mem_type := Some ''episodic''\<rparr>"

definition session_distill_plan ::
  "data_env \<Rightarrow> llm_ports \<Rightarrow> ports \<Rightarrow> cognition_config \<Rightarrow> (nat \<Rightarrow> tick) \<Rightarrow> string \<Rightarrow> memory_scope \<Rightarrow> node \<Rightarrow>
   error + (memory_add_result \<times> memory_row list) list" where
  "session_distill_plan E L P cfg tk session_id scope nd =
    (let tenant = (if sc_tenant_id scope = [] then ''default'' else sc_tenant_id scope);
         events = recall_session_for_tenant session_id tenant (nd_episodic nd)
     in if events = [] then Inr []
        else plan_each P cfg tk
          (map (distill_input (scope\<lparr>sc_session_id := Some session_id\<rparr>))
            (extract_facts L (session_digest (de_json_str E) session_id events))) [] (nd_memory nd))"

definition apply_plans ::
  "ports \<Rightarrow> cognition_config \<Rightarrow> (memory_add_result \<times> memory_row list) list \<Rightarrow> engine \<Rightarrow> engine" where
  "apply_plans P cfg plans en = fold (\<lambda>p en. snd (memory_apply_rows P cfg (snd p) en)) plans en"

definition session_distill ::
  "data_env \<Rightarrow> llm_ports \<Rightarrow> ports \<Rightarrow> cognition_config \<Rightarrow> (nat \<Rightarrow> tick) \<Rightarrow> string \<Rightarrow> memory_scope \<Rightarrow> node \<Rightarrow>
   (error + memory_add_result list) \<times> node" where
  "session_distill E L P cfg tk session_id scope nd =
    (case session_distill_plan E L P cfg tk session_id scope nd of
       Inl e \<Rightarrow> (Inl e, nd)
     | Inr plans \<Rightarrow> (Inr (map fst plans), nd\<lparr>nd_memory := apply_plans P cfg plans (nd_memory nd)\<rparr>))"

subsection \<open>Attachments\<close>

text \<open>The local storage backend keeps one file per key, named by the key with its separators replaced. A file operation
  fails with the error that \<open>io\<close> gives for it.\<close>

type_synonym blob_store = "(string \<times> string) list"

datatype blob_op = Blob_Put | Blob_Get | Blob_Delete

definition key_path :: "string \<Rightarrow> string" where
  "key_path key = map (\<lambda>c. if c = CHR 0x2F \<or> c = CHR 0x5C then CHR 0x5F else c) key"

definition blob_put :: "(blob_op \<Rightarrow> error option) \<Rightarrow> string \<Rightarrow> string \<Rightarrow> blob_store \<Rightarrow> error + blob_store" where
  "blob_put io key data bs = (case io Blob_Put of Some e \<Rightarrow> Inl e | None \<Rightarrow> Inr (alist_put (key_path key) data bs))"

definition blob_get :: "(blob_op \<Rightarrow> error option) \<Rightarrow> string \<Rightarrow> blob_store \<Rightarrow> error + string option" where
  "blob_get io key bs =
    (case map_of bs (key_path key) of
       None \<Rightarrow> Inr None
     | Some data \<Rightarrow> (case io Blob_Get of Some e \<Rightarrow> Inl e | None \<Rightarrow> Inr (Some data)))"

definition blob_delete :: "(blob_op \<Rightarrow> error option) \<Rightarrow> string \<Rightarrow> blob_store \<Rightarrow> error + blob_store" where
  "blob_delete io key bs =
    (case map_of bs (key_path key) of
       None \<Rightarrow> Inr bs
     | Some _ \<Rightarrow> (case io Blob_Delete of Some e \<Rightarrow> Inl e | None \<Rightarrow> Inr (alist_del (key_path key) bs)))"

record attachment_env =
  at_io :: "blob_op \<Rightarrow> error option"
  at_uuid_str :: "uuid \<Rightarrow> string"
  at_embed_image :: "(string \<Rightarrow> error + embedding) option"

record attachments =
  an_store :: memory_store
  an_blobs :: blob_store
  an_modal :: multi_modal_store

definition attachment_key :: "attachment_env \<Rightarrow> string \<Rightarrow> uuid \<Rightarrow> string" where
  "attachment_key E tenant uid = ''attachments/'' @ tenant @ ''/'' @ at_uuid_str E uid"

definition image_entry :: "attachment_meta \<Rightarrow> embedding \<Rightarrow> semantic_entry" where
  "image_entry a vec =
    \<lparr>se_id = a_id a, se_content = (case a_filename a of Some f \<Rightarrow> f | None \<Rightarrow> []), se_embedding = vec,
     se_metadata = JObj [(''tenant_id'', JStr (a_tenant_id a)), (''attachment'', JBool True)]\<rparr>"

definition index_image :: "attachment_env \<Rightarrow> attachment_meta \<Rightarrow> string \<Rightarrow> multi_modal_store \<Rightarrow> multi_modal_store" where
  "index_image E a data mm =
    (case at_embed_image E of
       None \<Rightarrow> mm
     | Some provider \<Rightarrow>
         (if prefix ''image/'' (a_content_type a)
          then (case provider data of Inl _ \<Rightarrow> mm | Inr vec \<Rightarrow> snd (mm_upsert ''image'' (image_entry a vec) mm)) else mm))"

definition attachment_put ::
  "attachment_env \<Rightarrow> uuid \<Rightarrow> ts \<Rightarrow> string \<Rightarrow> uuid option \<Rightarrow> string \<Rightarrow> string option \<Rightarrow> string \<Rightarrow> attachments \<Rightarrow>
   (error + attachment_meta) \<times> attachments" where
  "attachment_put E fresh now tenant memory_id content_type filename data an =
    (let key = attachment_key E tenant fresh
     in case blob_put (at_io E) key data (an_blobs an) of
          Inl e \<Rightarrow> (Inl e, an)
        | Inr blobs \<Rightarrow>
            (let an1 = an\<lparr>an_blobs := blobs\<rparr>;
                 meta = \<lparr>a_id = fresh, a_tenant_id = tenant, a_memory_id = memory_id, a_content_type = content_type,
                   a_filename = filename, a_size = length data, a_storage_key = key, a_created_at = now\<rparr>
             in case attachment_insert meta (an_store an) of
                  Inl e \<Rightarrow> (Inl e, an1)
                | Inr st \<Rightarrow> (Inr meta, an1\<lparr>an_store := st, an_modal := index_image E meta data (an_modal an)\<rparr>)))"

definition attachment_search_image ::
  "attachment_env \<Rightarrow> knn \<Rightarrow> nat \<Rightarrow> string \<Rightarrow> string \<Rightarrow> nat \<Rightarrow> attachments \<Rightarrow> error + attachment_meta list" where
  "attachment_search_image E knn max_rows tenant query k an =
    (case at_embed_image E of
       None \<Rightarrow> Inr []
     | Some provider \<Rightarrow>
         res_bind (provider query) (\<lambda>vec. res_bind (mm_search knn ''image'' vec (min k max_rows) (an_modal an)) (\<lambda>hits.
           Inr (List.map_filter (\<lambda>h. attachment_get tenant (em_id (sr_entry h)) (an_store an)) hits))))"

definition attachment_fetch ::
  "attachment_env \<Rightarrow> string \<Rightarrow> uuid \<Rightarrow> attachments \<Rightarrow> error + (attachment_meta \<times> string) option" where
  "attachment_fetch E tenant uid an =
    (case attachment_get tenant uid (an_store an) of
       None \<Rightarrow> Inr None
     | Some meta \<Rightarrow> res_bind (blob_get (at_io E) (a_storage_key meta) (an_blobs an)) (\<lambda>d. Inr (map_option (Pair meta) d)))"

definition attachment_listing :: "nat \<Rightarrow> string \<Rightarrow> uuid option \<Rightarrow> nat \<Rightarrow> attachments \<Rightarrow> attachment_meta list" where
  "attachment_listing max_rows tenant memory_id limit an = attachment_list tenant memory_id (min limit max_rows) (an_store an)"

definition attachment_remove :: "attachment_env \<Rightarrow> string \<Rightarrow> uuid \<Rightarrow> attachments \<Rightarrow> bool \<times> attachments" where
  "attachment_remove E tenant uid an =
    (case attachment_delete tenant uid (an_store an) of
       (None, _) \<Rightarrow> (False, an)
     | (Some key, st) \<Rightarrow>
         (True, an\<lparr>an_store := st,
            an_blobs := (case blob_delete (at_io E) key (an_blobs an) of Inl _ \<Rightarrow> an_blobs an | Inr bs \<Rightarrow> bs)\<rparr>))"

subsection \<open>The neighbourhood of an entity\<close>

record neighbourhood =
  nb_entities :: "string list"
  nb_frontier :: "string list"
  nb_edges :: "edge list"

definition note_entity :: "string \<Rightarrow> neighbourhood \<Rightarrow> neighbourhood" where
  "note_entity x nb =
    (if x \<in> set (nb_entities nb) then nb
     else nb\<lparr>nb_entities := x # nb_entities nb, nb_frontier := nb_frontier nb @ [x]\<rparr>)"

text \<open>The visits stop as soon as the cap is reached; the edges already taken are the identifiers already seen.\<close>

fun visit_edges :: "nat \<Rightarrow> edge list \<Rightarrow> neighbourhood \<Rightarrow> bool \<times> neighbourhood" where
  "visit_edges cap [] nb = (False, nb)"
| "visit_edges cap (e # es) nb =
    (if e_id e \<in> e_id ` set (nb_edges nb) then visit_edges cap es nb
     else let nb1 = note_entity (e_dst e) (note_entity (e_src e) nb);
              nb2 = nb1\<lparr>nb_edges := nb_edges nb1 @ [e]\<rparr>
          in if length (nb_edges nb2) \<ge> cap then (True, nb2) else visit_edges cap es nb2)"

fun visit_entities :: "string \<Rightarrow> nat \<Rightarrow> memory_store \<Rightarrow> string list \<Rightarrow> neighbourhood \<Rightarrow> bool \<times> neighbourhood" where
  "visit_entities tenant cap st [] nb = (False, nb)"
| "visit_entities tenant cap st (x # xs) nb =
    (case visit_edges cap (neighbors tenant x cap st) nb of
       (True, nb1) \<Rightarrow> (True, nb1) | (False, nb1) \<Rightarrow> visit_entities tenant cap st xs nb1)"

fun visit_hops :: "string \<Rightarrow> nat \<Rightarrow> memory_store \<Rightarrow> nat \<Rightarrow> string list \<Rightarrow> neighbourhood \<Rightarrow> edge list" where
  "visit_hops tenant cap st 0 frontier nb = nb_edges nb"
| "visit_hops tenant cap st (Suc n) frontier nb =
    (case visit_entities tenant cap st frontier (nb\<lparr>nb_frontier := []\<rparr>) of
       (True, nb1) \<Rightarrow> nb_edges nb1
     | (False, nb1) \<Rightarrow>
         (if nb_frontier nb1 = [] then nb_edges nb1 else visit_hops tenant cap st n (nb_frontier nb1) nb1))"

definition memory_subgraph :: "nat \<Rightarrow> string \<Rightarrow> string \<Rightarrow> nat \<Rightarrow> nat \<Rightarrow> engine \<Rightarrow> edge list" where
  "memory_subgraph max_rows tenant entity depth max_edges en =
    visit_hops tenant (max (min max_edges max_rows) 1) (en_store en) (max depth 1) [entity]
      \<lparr>nb_entities = [entity], nb_frontier = [], nb_edges = []\<rparr>"

subsection \<open>What erasing a tenant leaves\<close>

definition entry_tenant :: "entry_metadata \<Rightarrow> string option" where
  "entry_tenant e = Option.bind (json_get (em_metadata e) ''tenant_id'') json_as_str"

lemma ss_delete_lookup:
  assumes "ss_inv ss"
  shows "map_of (ss_entries (ss_delete u ss)) k =
    Option.bind (map_of (ss_entries ss) k) (\<lambda>e. if em_id e = u then None else Some e)"
proof (cases "map_of (ss_uuid_to_key ss) u")
  case None
  then have "em_id e \<noteq> u" if "map_of (ss_entries ss) k = Some e" for e
    using assms that unfolding ss_inv_def by fastforce
  then show ?thesis using None by (cases "map_of (ss_entries ss) k") (simp_all add: ss_delete_def)
next
  case (Some key)
  then have "map_of (ss_entries ss) k = Some e \<Longrightarrow> em_id e = u \<longleftrightarrow> k = key" for e
    using assms ss_inv_inj [OF assms] unfolding ss_inv_def by (metis option.inject)
  then show ?thesis using Some by (cases "map_of (ss_entries ss) k") (auto simp: ss_delete_def)
qed

lemma fold_delete_lookup:
  assumes "ss_inv ss"
  shows "map_of (ss_entries (fold ss_delete ids ss)) k =
    Option.bind (map_of (ss_entries ss) k) (\<lambda>e. if em_id e \<in> set ids then None else Some e)"
  using assms
proof (induction ids arbitrary: ss)
  case Nil show ?case by (cases "map_of (ss_entries ss) k") simp_all
next
  case (Cons u ids)
  then show ?case by (cases "map_of (ss_entries ss) k") (simp_all add: ss_inv_delete ss_delete_lookup)
qed

lemma ss_delete_by_tenant_lookup:
  assumes "ss_inv ss" and "distinct (map fst (ss_entries ss))"
  shows "map_of (ss_entries (snd (ss_delete_by_tenant t ss))) k =
    Option.bind (map_of (ss_entries ss) k) (\<lambda>e. if entry_tenant e = Some t then None else Some e)"
proof (cases "map_of (ss_entries ss) k")
  case (Some e)
  have "em_id e \<in> em_id ` {x \<in> snd ` set (ss_entries ss). entry_tenant x = Some t} \<longleftrightarrow> entry_tenant e = Some t"
  proof
    assume "em_id e \<in> em_id ` {x \<in> snd ` set (ss_entries ss). entry_tenant x = Some t}"
    then obtain l x where "(l, x) \<in> set (ss_entries ss)" "entry_tenant x = Some t" "em_id x = em_id e" by force
    then have "map_of (ss_entries ss) l = Some x" using assms(2) by simp
    then show "entry_tenant e = Some t" using ss_inv_inj [OF assms(1) _ Some] \<open>em_id x = em_id e\<close> \<open>entry_tenant x = Some t\<close> Some by force
  next
    assume "entry_tenant e = Some t"
    then show "em_id e \<in> em_id ` {x \<in> snd ` set (ss_entries ss). entry_tenant x = Some t}" using map_of_SomeD [OF Some] by force
  qed
  then show ?thesis using Some fold_delete_lookup [OF assms(1)]
    by (simp add: ss_delete_by_tenant_def Let_def entry_tenant_def [abs_def] comp_def)
qed (simp add: ss_delete_by_tenant_def Let_def fold_delete_lookup [OF assms(1)])

lemma lower_char_other: "of_char d \<in> {92, 37, 95 :: nat} \<Longrightarrow> lower_char c = d \<longleftrightarrow> c = d"
  unfolding of_char_eq_iff [where 'a = nat, symmetric] by (auto simp: is_upper_ascii_def)

lemma lower_like_escape: "to_lowercase (like_escape p) = like_escape (to_lowercase p)"
proof (induction p)
  case (Cons c p)
  have esc: "like_escape (x # q) = (if x \<in> {CHR 0x5C, CHR ''%'', CHR ''_''} then [CHR 0x5C, x] else [x]) @ like_escape q" for x q
    by (simp add: like_escape_def str_replace_def)
  have "lower_char c \<in> {CHR 0x5C, CHR ''%'', CHR ''_''} \<longleftrightarrow> c \<in> {CHR 0x5C, CHR ''%'', CHR ''_''}"
    and "c \<in> {CHR 0x5C, CHR ''%'', CHR ''_''} \<Longrightarrow> lower_char c = c" and "lower_char (CHR 0x5C) = CHR 0x5C"
    using lower_char_other [of "CHR 0x5C"] lower_char_other [of "CHR ''%''"] lower_char_other [of "CHR ''_''"] by auto
  then show ?case using Cons by (auto simp: esc to_lowercase_def)
qed (simp add: like_escape_def str_replace_def to_lowercase_def)

lemma sqlite_like_prefix: "sqlite_like (like_escape p @ ''%'') s \<longleftrightarrow> prefix (to_lowercase p) (to_lowercase s)"
proof -
  have "to_lowercase (like_escape p @ ''%'') = like_escape (to_lowercase p) @ ''%''"
    using lower_like_escape [of p] by (simp add: to_lowercase_def lower_char_def is_upper_ascii_def)
  then show ?thesis unfolding sqlite_like_def by (simp only: like_prefix_pattern)
qed

lemma forget_keeps: "en_store (fold forget_indexes ids en) = en_store en"
  by (induction ids arbitrary: en) (simp_all add: forget_indexes_def)

text \<open>C25: Erasing a tenant removes its events, sessions, memories, edges, index entries, agent state and event vectors,
  and nothing of another tenant, except that agent state is matched without regard to the case of letters. It
  leaves attachments, grants and runs as they are.\<close>

theorem tenant_erased:
  assumes "advisory (nd_memory nd)" and "ss_inv (nd_semantic nd)" and "distinct (map fst (ss_entries (nd_semantic nd)))"
    and "delete_tenant t nd = (counts, nd')"
  shows "ep_events (nd_episodic nd') = filter (\<lambda>r. er_tenant_id r \<noteq> t) (ep_events (nd_episodic nd)) \<and>
    ep_sessions (nd_episodic nd') = filter (\<lambda>s. sn_tenant_id s \<noteq> t) (ep_sessions (nd_episodic nd)) \<and>
    mems (en_store (nd_memory nd')) = {m \<in> mems (en_store (nd_memory nd)). sc_tenant_id (m_scope m) \<noteq> t} \<and>
    st_edges (en_store (nd_memory nd')) = filter (\<lambda>e. er_tenant e \<noteq> t) (st_edges (en_store (nd_memory nd))) \<and>
    (\<forall>m \<in> mems (en_store (nd_memory nd)). sc_tenant_id (m_scope m) = t \<longrightarrow>
       m_id m \<notin> lx_ids (en_lex (nd_memory nd')) \<and> m_id m \<notin> sv_ids (en_vec (nd_memory nd'))) \<and>
    kv_db (nd_state nd') = filter (\<lambda>r. \<not> prefix (to_lowercase (tenant_prefix t)) (to_lowercase (sw_agent_id r))) (kv_db (nd_state nd)) \<and>
    kv_cache (nd_state nd') = [] \<and>
    (\<forall>k. map_of (ss_entries (nd_semantic nd')) k =
       Option.bind (map_of (ss_entries (nd_semantic nd)) k) (\<lambda>e. if entry_tenant e = Some t then None else Some e)) \<and>
    st_attachments (en_store (nd_memory nd')) = st_attachments (en_store (nd_memory nd)) \<and>
    st_grants (en_store (nd_memory nd')) = st_grants (en_store (nd_memory nd)) \<and> nd_runs nd' = nd_runs nd"
proof -
  have nd': "nd' = nd\<lparr>nd_episodic := snd (ep_delete_by_tenant t (nd_episodic nd)),
      nd_memory := snd (delete_tenant_memories t (nd_memory nd)), nd_state := snd (kv_delete_by_prefix (tenant_prefix t) (nd_state nd)),
      nd_semantic := snd (ss_delete_by_tenant t (nd_semantic nd))\<rparr>"
    using assms(4) by (simp add: delete_tenant_def case_prod_beta Let_def)
  have rest: "st_attachments (en_store (nd_memory nd')) = st_attachments (en_store (nd_memory nd)) \<and>
      st_grants (en_store (nd_memory nd')) = st_grants (en_store (nd_memory nd))"
    by (simp add: nd' delete_tenant_memories_def delete_by_tenant_def Let_def forget_keeps)
  obtain n where m: "delete_tenant_memories t (nd_memory nd) = (n, nd_memory nd')"
    by (cases "delete_tenant_memories t (nd_memory nd)") (simp add: nd')
  show ?thesis using delete_tenant_complete [OF assms(1) m] rest ss_delete_by_tenant_lookup [OF assms(2,3)]
    by (simp add: nd' ep_delete_by_tenant_def kv_delete_by_prefix_def Let_def tbl_delete_def sqlite_like_prefix)
qed

definition erased_node :: node where
  "erased_node = (node_new 2)\<lparr>nd_memory := demo_engine1,
     nd_state := snd (state_set_for_tenant ''acme'' ''bot'' ''k'' (JInt 1) (snd (state_set_for_tenant ''other'' ''bot'' ''k'' (JInt 2) kv_open)))\<rparr>"

theorem tenant_erased_witness:
  "(\<exists>nd'. delete_tenant ''acme'' erased_node = (\<lparr>es_events = 0, es_memories = 1, es_state = 1, es_vectors = 0\<rparr>, nd') \<and>
     map sw_agent_id (kv_db (nd_state nd')) = [scoped_agent ''other'' ''bot''] \<and>
     mems (en_store (nd_memory nd')) = {m \<in> mems (en_store (nd_memory erased_node)). sc_tenant_id (m_scope m) \<noteq> ''acme''})"
proof -
  have "advisory demo_engine1"
  proof -
    have "advisory demo_engine" unfolding demo_engine_def by (rule advisory_new)
    moreover have "\<exists>res. memory_add demo_ports demo_cfg (demo_tick 1) (demo_input ''plan'' ''free'') demo_engine =
        Inr (res, demo_engine1) \<or> demo_engine1 = demo_engine"
      by (auto simp: demo_engine1_def run_add_def split: sum.split)
    ultimately show ?thesis using advisory_memory_add by metis
  qed
  then have adv: "advisory (nd_memory erased_node)" by (simp add: erased_node_def)
  have ss: "ss_inv (nd_semantic erased_node)" "distinct (map fst (ss_entries (nd_semantic erased_node)))"
    by (simp_all add: erased_node_def node_new_def) (simp add: ss_with_dimension_def)
  obtain counts nd' where run: "delete_tenant ''acme'' erased_node = (counts, nd')" by fastforce
  have "fst (delete_tenant ''acme'' erased_node) = \<lparr>es_events = 0, es_memories = 1, es_state = 1, es_vectors = 0\<rparr>" by code_simp
  moreover have "map sw_agent_id (kv_db (nd_state (snd (delete_tenant ''acme'' erased_node)))) = [scoped_agent ''other'' ''bot'']" by code_simp
  ultimately show ?thesis using tenant_erased [OF adv ss run] run by (intro exI [of _ nd'] conjI) simp_all
qed

subsection \<open>What retention deletes\<close>

definition outdated :: "nat \<Rightarrow> ts \<Rightarrow> (string \<times> nat) list \<Rightarrow> event_row \<Rightarrow> bool" where
  "outdated default_days now ps r =
    (let days = (case map_of ps (er_source r) of Some d \<Rightarrow> d | None \<Rightarrow> default_days)
     in days \<noteq> 0 \<and> er_ts r < now - int days * day_micros)"

lemma filter_length_split: "length (filter P xs) + length (filter Q (filter (\<lambda>x. \<not> P x) xs)) = length (filter (\<lambda>x. P x \<or> Q x) xs)"
  by (induction xs) auto

lemma delete_events_twice:
  "delete_events Q (delete_events P acc) = delete_events (\<lambda>r. P r \<or> Q r) acc"
  by (auto simp: delete_events_def tbl_delete_def filter_length_split [symmetric] split: prod.split)

lemma delete_events_none: "delete_events (\<lambda>_. False) acc = acc"
  by (simp add: delete_events_def tbl_delete_def split: prod.split)

lemma apply_policies_exact:
  assumes "distinct (map fst ps)" and "list_all (\<lambda>p. first_instant \<le> now - int (snd p) * day_micros) ps"
  shows "apply_policies first_instant now ps acc =
    (True, delete_events (\<lambda>r. er_source r \<in> fst ` set ps \<and> outdated 0 now ps r) acc)"
  using assms
proof (induction ps arbitrary: acc)
  case (Cons p ps)
  obtain source days where p: "p = (source, days)" by fastforce
  have new: "source \<notin> fst ` set ps" using Cons.prems(1) p by simp
  have rest: "(\<lambda>r. (er_source r = source \<and> days \<noteq> 0 \<and> er_ts r < now - int days * day_micros) \<or>
        er_source r \<in> fst ` set ps \<and> outdated 0 now ps r) =
      (\<lambda>r. er_source r \<in> fst ` set (p # ps) \<and> outdated 0 now (p # ps) r)"
    using new by (auto simp: fun_eq_iff p outdated_def)
  show ?case using Cons new rest by (auto simp: p cutoff_def Let_def delete_events_twice not_less)
qed (simp add: delete_events_none)

text \<open>C26: Retention deletes exactly the events that are too old: an event of a source with its own policy when it is
  older than that policy, where zero days keep it for ever, and any other event when it is older than the default;
  everything else of the node stays. The clock must be able to represent the instants compared with.\<close>

theorem enforce_retention_exact:
  assumes "retention_policies now_sql (nd_state nd) = (ps, kv)" and "distinct (map fst ps)"
    and "list_all (\<lambda>days. first_instant \<le> now - int days * day_micros) (default_days # map snd ps)"
  shows "enforce_retention first_instant default_days now_sql now nd =
    (Inr (length (filter (outdated default_days now ps) (ep_events (nd_episodic nd)))),
     nd\<lparr>nd_state := kv, nd_episodic := (nd_episodic nd)\<lparr>ep_events := filter (\<lambda>r. \<not> outdated default_days now ps r) (ep_events (nd_episodic nd))\<rparr>\<rparr>)"
proof -
  let ?own = "\<lambda>r. er_source r \<in> fst ` set ps \<and> outdated 0 now ps r"
  let ?other = "\<lambda>r. er_ts r < now - int default_days * day_micros \<and> (ps = [] \<or> er_source r \<notin> fst ` set ps)"
  have loop: "apply_policies first_instant now ps acc = (True, delete_events ?own acc)" for acc
    using assms(2,3) by (intro apply_policies_exact) (simp_all add: list_all_iff)
  have all: "(\<lambda>r. ?own r \<or> default_days \<noteq> 0 \<and> ?other r) = outdated default_days now ps"
    by (auto simp: fun_eq_iff outdated_def Let_def split: option.splits simp flip: domIff dom_map_of_conv_image_fst)
  have cut: "cutoff first_instant now default_days = Some (now - int default_days * day_micros)"
    using assms(3) by (simp add: cutoff_def Let_def)
  have del: "delete_events (outdated default_days now ps) (0, nd_episodic nd) =
      (length (filter (outdated default_days now ps) (ep_events (nd_episodic nd))),
       (nd_episodic nd)\<lparr>ep_events := filter (\<lambda>r. \<not> outdated default_days now ps r) (ep_events (nd_episodic nd))\<rparr>)"
    by (simp add: delete_events_def tbl_delete_def)
  show ?thesis
  proof (cases "default_days = 0")
    case True
    then have "delete_events ?own (0, nd_episodic nd) = delete_events (outdated default_days now ps) (0, nd_episodic nd)"
      using all by simp
    then show ?thesis using True del by (simp add: enforce_retention_def assms(1) loop)
  next
    case False
    then have "delete_events ?other (delete_events ?own (0, nd_episodic nd)) = delete_events (outdated default_days now ps) (0, nd_episodic nd)"
      using all by (simp add: delete_events_twice)
    moreover obtain n ep where "delete_events ?own (0, nd_episodic nd) = (n, ep)" by fastforce
    ultimately show ?thesis using False del by (simp add: enforce_retention_def assms(1) loop cut Let_def)
  qed
qed

definition dated_event :: "uuid \<Rightarrow> string \<Rightarrow> ts \<Rightarrow> event_row" where
  "dated_event u source t = \<lparr>er_id = u, er_source = source, er_event_type = [], er_payload = JNull, er_ts = t, er_parent_id = None,
     er_trace_id = None, er_tags = None, er_idempotency_key = None, er_tenant_id = ''default'', er_session_id = None, er_embedded = False\<rparr>"

definition retention_node :: node where
  "retention_node = (node_new 2)\<lparr>nd_episodic := \<lparr>ep_events = [dated_event 1 ''ci'' 0, dated_event 2 ''audit'' 0, dated_event 3 ''web'' 0,
       dated_event 4 ''web'' (9 * day_micros)], ep_sessions = []\<rparr>,
     nd_state := set_retention_policy ''0'' ''audit'' 0 (set_retention_policy ''0'' ''ci'' 20 kv_open)\<rparr>"

theorem enforce_retention_exact_witness:
  "fst (enforce_retention 0 2 ''0'' (10 * day_micros) retention_node) = Inl (Internal ''join'') \<and>
   (\<exists>nd'. enforce_retention (- (10 ^ 15)) 2 ''0'' (10 * day_micros) retention_node = (Inr 1, nd') \<and>
      map er_id (ep_events (nd_episodic nd')) = [1, 2, 4])"
proof
  show "fst (enforce_retention 0 2 ''0'' (10 * day_micros) retention_node) = Inl (Internal ''join'')" by code_simp
  have ps: "fst (retention_policies ''0'' (nd_state retention_node)) = [(''ci'', 20), (''audit'', 0)]" by code_simp
  obtain kv where r: "retention_policies ''0'' (nd_state retention_node) = ([(''ci'', 20), (''audit'', 0)], kv)"
    using ps by (cases "retention_policies ''0'' (nd_state retention_node)") simp
  have d: "distinct (map fst [(''ci'', 20 :: nat), (''audit'', 0)])" by simp
  have c: "list_all (\<lambda>days. - (10 ^ 15) \<le> 10 * day_micros - int days * day_micros) (2 # map snd [(''ci'', 20 :: nat), (''audit'', 0)])"
    by (simp add: day_micros_def)
  have old: "map er_id (filter (\<lambda>r. \<not> outdated 2 (10 * day_micros) [(''ci'', 20), (''audit'', 0)] r) (ep_events (nd_episodic retention_node))) = [1, 2, 4]"
    "length (filter (outdated 2 (10 * day_micros) [(''ci'', 20), (''audit'', 0)]) (ep_events (nd_episodic retention_node))) = 1" by code_simp+
  show "\<exists>nd'. enforce_retention (- (10 ^ 15)) 2 ''0'' (10 * day_micros) retention_node = (Inr 1, nd') \<and>
      map er_id (ep_events (nd_episodic nd')) = [1, 2, 4]"
  proof (rule exI, rule conjI)
    show "enforce_retention (- (10 ^ 15)) 2 ''0'' (10 * day_micros) retention_node = (Inr 1, snd (enforce_retention (- (10 ^ 15)) 2 ''0'' (10 * day_micros) retention_node))"
      unfolding enforce_retention_exact [OF r d c] old(2) by simp
    show "map er_id (ep_events (nd_episodic (snd (enforce_retention (- (10 ^ 15)) 2 ''0'' (10 * day_micros) retention_node)))) = [1, 2, 4]"
      unfolding enforce_retention_exact [OF r d c] by (simp add: old(1))
  qed
qed

lemma policies_roundtrip:
  assumes "list_all (\<lambda>p. snd p < 2 ^ 32) ps"
  shows "policies_of_json (json_of_policies ps) = ps"
proof -
  have "map policy_of_json (map (\<lambda>(source, days). JArr [JStr source, JInt (int days)]) ps) = map Some ps"
    using assms by (induction ps) auto
  note items = this
  show ?thesis unfolding json_of_policies_def policies_of_json_def json.case Let_def items by (simp add: comp_def image_iff)
qed

lemma map_of_put_policy: "map_of (put_policy source days ps) = (map_of ps)(source \<mapsto> days)"
  by (induction ps) (auto simp: fun_eq_iff)

lemma put_policy_keys: "set (map fst (put_policy source days ps)) = insert source (set (map fst ps))"
  by (induction ps) auto

lemma put_policy_distinct: "distinct (map fst ps) \<Longrightarrow> distinct (map fst (put_policy source days ps))"
proof (induction ps)
  case (Cons p ps)
  have "fst p \<notin> set (map fst (put_policy source days ps))" if "fst p \<noteq> source"
    using Cons.prems that by (simp only: put_policy_keys) simp
  then show ?case using Cons by auto
qed simp

lemma put_policy_small: "list_all (\<lambda>p. snd p < n) ps \<Longrightarrow> days < n \<Longrightarrow> list_all (\<lambda>p. snd p < n) (put_policy source days ps)"
  by (induction ps) auto

lemma policies_of_json_small: "list_all (\<lambda>p. snd p < 2 ^ 32) (policies_of_json v)"
proof -
  have small: "policy_of_json j = Some p \<Longrightarrow> snd p < 2 ^ 32" for j p
    by (cases j rule: policy_of_json.cases) (auto split: if_splits simp: nat_less_iff)
  show ?thesis
  proof (cases v)
    case (JArr items)
    have "snd p < 2 ^ 32" if "p \<in> set (policies_of_json v)" for p
    proof -
      from that JArr have "\<exists>j. None \<noteq> policy_of_json j \<and> p = the (policy_of_json j)"
        by (simp add: policies_of_json_def Let_def image_iff del: split_paired_Ex not_None_eq split: if_splits) blast
      then obtain j where j: "None \<noteq> policy_of_json j" "p = the (policy_of_json j)" by (elim exE conjE)
      show ?thesis using j by (cases "policy_of_json j") (auto dest: small)
    qed
    then show ?thesis by (simp add: list_all_iff)
  qed (simp_all add: policies_of_json_def)
qed

text \<open>A policy that is set is the policy enforced from then on; the others stay.\<close>

lemma set_retention_policy_effective:
  assumes "days < 2 ^ 32"
  shows "fst (retention_policies now' (set_retention_policy now source days kv)) =
    put_policy source days (fst (retention_policies now kv))"
proof -
  obtain ps kv1 where r: "retention_policies now kv = (ps, kv1)" by fastforce
  have "list_all (\<lambda>p. snd p < 2 ^ 32) ps" using r policies_of_json_small
    by (auto simp: retention_policies_def split: prod.splits option.splits)
  then have "policies_of_json (json_of_policies (put_policy source days ps)) = put_policy source days ps"
    using assms by (intro policies_roundtrip put_policy_small)
  moreover have "fst (retention_policies now' (snd (kv_set ''_system'' ''retention_policies'' v kv1))) = policies_of_json v" for v
    by (simp add: retention_policies_def kv_get_def kv_set_def kv_notify_def case_prod_beta Let_def)
  ultimately show ?thesis by (simp add: set_retention_policy_def r)
qed

subsection \<open>Attachments come back to their tenant only\<close>

lemma attachment_roundtrip:
  assumes "attachment_put E u now t mid ct fn data an = (Inr meta, an')" and "at_io E Blob_Get = None"
  shows "attachment_fetch E t' u an' = Inr (if t' = t then Some (meta, data) else None)"
proof -
  let ?old = "an_store an"
  have fresh: "u \<notin> a_id ` set (st_attachments ?old)" and meta: "a_id meta = u" "a_tenant_id meta = t"
    "a_storage_key meta = attachment_key E t u" and blobs: "an_blobs an' = alist_put (key_path (attachment_key E t u)) data (an_blobs an)"
    and st: "st_attachments (an_store an') = st_attachments ?old @ [meta]"
    using assms(1) by (auto simp: attachment_put_def Let_def blob_put_def attachment_insert_def split: option.splits sum.splits if_splits)
  have "find (\<lambda>a. a_id a = u \<and> a_tenant_id a = t') (xs @ [meta]) = (if t' = t then Some meta else None)"
    if "u \<notin> a_id ` set xs" for xs using that meta by (induction xs) auto
  note found = this [OF fresh]
  show ?thesis using assms(2) meta blobs found
    by (simp add: attachment_fetch_def attachment_get_def st blob_get_def)
qed

subsection \<open>The neighbourhood is bounded and belongs to the tenant\<close>

definition nb_ok :: "string \<Rightarrow> nat \<Rightarrow> memory_store \<Rightarrow> neighbourhood \<Rightarrow> bool" where
  "nb_ok tenant cap st nb \<longleftrightarrow> distinct (map e_id (nb_edges nb)) \<and> length (nb_edges nb) \<le> cap \<and>
    set (nb_edges nb) \<subseteq> set (select_edges tenant (\<lambda>_. True) st)"

lemma nb_edges_note [simp]: "nb_edges (note_entity x nb) = nb_edges nb"
  by (simp add: note_entity_def)

lemma visit_edges_ok:
  assumes "nb_ok tenant cap st nb" and "length (nb_edges nb) < cap" and "set es \<subseteq> set (select_edges tenant (\<lambda>_. True) st)"
  shows "case visit_edges cap es nb of (full, nb') \<Rightarrow> nb_ok tenant cap st nb' \<and> (\<not> full \<longrightarrow> length (nb_edges nb') < cap)"
  using assms
proof (induction es arbitrary: nb)
  case (Cons e es)
  show ?case
  proof (cases "e_id e \<in> e_id ` set (nb_edges nb)")
    case False
    let ?nb = "note_entity (e_dst e) (note_entity (e_src e) nb)"
    have "nb_ok tenant cap st (?nb\<lparr>nb_edges := nb_edges nb @ [e]\<rparr>)" using Cons.prems False by (auto simp: nb_ok_def)
    then show ?thesis using False Cons.prems Cons.IH [of "?nb\<lparr>nb_edges := nb_edges nb @ [e]\<rparr>"] by (auto simp: Let_def)
  qed (use Cons in auto)
qed simp

lemma neighbors_select: "set (neighbors tenant x cap st) \<subseteq> set (select_edges tenant (\<lambda>_. True) st)"
  by (auto simp: neighbors_def select_edges_def dest!: in_set_takeD)

lemma visit_entities_ok:
  assumes "nb_ok tenant cap st nb" and "length (nb_edges nb) < cap"
  shows "case visit_entities tenant cap st xs nb of (full, nb') \<Rightarrow> nb_ok tenant cap st nb' \<and> (\<not> full \<longrightarrow> length (nb_edges nb') < cap)"
  using assms
proof (induction xs arbitrary: nb)
  case (Cons x xs)
  obtain full nb1 where v: "visit_edges cap (neighbors tenant x cap st) nb = (full, nb1)" by fastforce
  then show ?case using visit_edges_ok [OF Cons.prems neighbors_select [of tenant x cap st]] Cons.IH [of nb1] by (cases full) auto
qed simp

lemma visit_hops_ok:
  assumes "nb_ok tenant cap st nb" and "length (nb_edges nb) < cap"
  shows "distinct (map e_id (visit_hops tenant cap st n frontier nb)) \<and> length (visit_hops tenant cap st n frontier nb) \<le> cap \<and>
    set (visit_hops tenant cap st n frontier nb) \<subseteq> set (select_edges tenant (\<lambda>_. True) st)"
  using assms
proof (induction n arbitrary: frontier nb)
  case (Suc n)
  have "nb_ok tenant cap st (nb\<lparr>nb_frontier := []\<rparr>)" "length (nb_edges (nb\<lparr>nb_frontier := []\<rparr>)) < cap"
    using Suc.prems by (simp_all add: nb_ok_def)
  note ok = visit_entities_ok [OF this, of frontier]
  obtain full nb1 where v: "visit_entities tenant cap st frontier (nb\<lparr>nb_frontier := []\<rparr>) = (full, nb1)" by fastforce
  have nb1: "nb_ok tenant cap st nb1" "\<not> full \<Longrightarrow> length (nb_edges nb1) < cap" using ok v by auto
  show ?case
  proof (cases "full \<or> nb_frontier nb1 = []")
    case True
    then have "visit_hops tenant cap st (Suc n) frontier nb = nb_edges nb1" using v by (cases full) auto
    then show ?thesis using nb1 by (simp only: nb_ok_def)
  next
    case False
    then have "visit_hops tenant cap st (Suc n) frontier nb = visit_hops tenant cap st n (nb_frontier nb1) nb1" using v by auto
    moreover have "length (nb_edges nb1) < cap" using nb1(2) False by simp
    ultimately show ?thesis using Suc.IH [OF nb1(1)] by simp
  qed
qed (simp add: nb_ok_def)

lemma memory_subgraph_bounded:
  "distinct (map e_id (memory_subgraph max_rows tenant entity depth max_edges en)) \<and>
   length (memory_subgraph max_rows tenant entity depth max_edges en) \<le> max (min max_edges max_rows) 1 \<and>
   set (memory_subgraph max_rows tenant entity depth max_edges en) \<subseteq> set (select_edges tenant (\<lambda>_. True) (en_store en))"
  unfolding memory_subgraph_def by (rule visit_hops_ok) (simp_all add: nb_ok_def)

subsection \<open>Distilled facts are planned against the same state\<close>

text \<open>All facts of a session are planned before any is applied: two facts about one subject both become active, which
  no sequence of single writes leaves.\<close>

definition two_facts :: llm_ports where
  "two_facts = \<lparr>lp_extraction = ''llm'', lp_provider = Some (\<lambda>_ _. Some ''[]''), lp_parse_array = (\<lambda>_. Some
     [JObj [(''subject'', JStr ''plan''), (''content'', JStr ''free'')], JObj [(''subject'', JStr ''plan''), (''content'', JStr ''paid'')]])\<rparr>"

definition distill_env :: data_env where
  "distill_env = \<lparr>de_json_str = (\<lambda>_. []), de_rfc3339 = (\<lambda>_. []), de_embed_documents = None, de_batch_size = 8\<rparr>"

lemma session_distill_duplicates:
  "case session_distill distill_env two_facts demo_ports demo_cfg (\<lambda>i. demo_tick (i + 1)) ''s'' (tenant_scope ''acme'')
      ((node_new 2)\<lparr>nd_episodic := \<lparr>ep_events = [(dated_event 1 ''ci'' 0)\<lparr>er_tenant_id := ''acme'', er_session_id := Some ''s''\<rparr>], ep_sessions = []\<rparr>\<rparr>) of
    (r, nd) \<Rightarrow> map (\<lambda>r. (m_subject (mr_memory r), m_content (mr_memory r), m_state (mr_memory r))) (st_memories (en_store (nd_memory nd))) =
      [(Some ''plan'', ''free'', Active), (Some ''plan'', ''paid'', Active)]"
  by code_simp

subsection \<open>Moves\<close>

text \<open>A move that does not succeed leaves the source as it was. One that succeeds may still lose an event: idempotency
  keys are unique across tenants, so an event whose key another tenant used at the destination is ignored there,
  counted as not imported, and erased at the source.\<close>

lemma migrate_failure_keeps:
  assumes "migrate_tenant_to E t src dest = (r, src', dest')" and "\<not> (\<exists>counts. r = Some (Inr counts))"
  shows "src' = src"
  using assms by (auto simp: migrate_tenant_to_def split: prod.splits option.splits sum.splits)

definition keyed_event :: "uuid \<Rightarrow> string \<Rightarrow> event_row" where
  "keyed_event u tenant = (dated_event u ''ci'' 0)\<lparr>er_payload := JObj [(''_tenant_id'', JStr tenant)], er_tenant_id := tenant,
     er_idempotency_key := Some ''build-1''\<rparr>"

definition one_event :: "event_row \<Rightarrow> node" where
  "one_event r = (node_new 2)\<lparr>nd_episodic := \<lparr>ep_events = [r], ep_sessions = []\<rparr>\<rparr>"

lemma migrate_loses_event:
  "case migrate_tenant_to distill_env ''acme'' (one_event (keyed_event 1 ''acme'')) (one_event (keyed_event 2 ''other'')) of
    (r, src, dest) \<Rightarrow> r = Some (Inr \<lparr>ic_events = 0, ic_memories = 0, ic_state = 0\<rparr>) \<and> ep_events (nd_episodic src) = [] \<and>
      map er_id (ep_events (nd_episodic dest)) = [2]"
proof -
  have exported: "export_tenant ''acme'' (one_event (keyed_event 1 ''acme'')) =
      \<lparr>tn_events = Some [parse_event (keyed_event 1 ''acme'')], tn_memories = Some [], tn_state = Some []\<rparr>"
    by (simp add: export_tenant_def one_event_def events_by_tenant_def keyed_event_def dated_event_def node_new_def list_by_tenant_def
        ms_select_def ms_new_def order_by_desc_def kv_export_by_prefix_def kv_open_def)
  show ?thesis unfolding migrate_tenant_to_def exported by code_simp
qed

end
