(* ===== verification/Gateway_Data.thy ===== *)
theory Gateway_Data
  imports Gateway_Memory Tenant_Data
begin

text \<open>
  The handlers of \<open>src/crates/ecphoria-gateway/src/rest/handlers/mod.rs\<close> over the other stores of a node: vector search,
  agent state, sessions, the public view of published memories, templates, the knowledge graph, attachments and
  the listings of sources, agents and scopes.

  Bodies are values, as in \<open>Gateway_Memory\<close>; where the code builds a small JSON object the body is that object. White
  space is ASCII. The public page and the download of attachments are also read by browsers, so their bytes and
  headers are modelled.
\<close>

datatype data_body =
    Data_Json json
  | Data_Error string string
  | Data_Html string
  | Data_Bytes string
  | Data_Added memory_add_result
  | Data_Distilled string "memory_add_result list"
  | Data_Events string "event_row list"
  | Data_Results "search_result list"
  | Data_Published "(string option \<times> string \<times> ts) list"
  | Data_Nodes "node_centrality list"
  | Data_Path string string "string list option"
  | Data_Communities "string list list"
  | Data_Edges string "edge list"
  | Data_Attachment attachment_meta
  | Data_Attachments "attachment_meta list"

definition data_ok :: "data_body \<Rightarrow> data_body response" where
  "data_ok body = (status_response 200)\<lparr>rs_body := Some body\<rparr>"

definition data_error :: "nat \<Rightarrow> string \<Rightarrow> string \<Rightarrow> data_body response" where
  "data_error status code message = (status_response status)\<lparr>rs_body := Some (Data_Error code message)\<rparr>"

definition cluster_error :: "string \<Rightarrow> data_body response" where
  "cluster_error msg = (case rs_body (cluster_write_error msg) of
     Some (Api_Error code message) \<Rightarrow> data_error (rs_status (cluster_write_error msg)) code message
   | _ \<Rightarrow> status_response (rs_status (cluster_write_error msg)))"

definition quote_name :: "string \<Rightarrow> string" where
  "quote_name s = CHR 0x27 # s @ [CHR 0x27]"

text \<open>A replicated write with the answer of the state machine.\<close>

definition replicated_write ::
  "gateway_env \<Rightarrow> (nat \<Rightarrow> app_request \<Rightarrow> string option) \<Rightarrow> nat \<Rightarrow> app_request \<Rightarrow> node \<Rightarrow> (string + app_response) \<times> node" where
  "replicated_write E coord n ar nd =
    (case coord n ar of
       Some msg \<Rightarrow> (Inl msg, nd)
     | None \<Rightarrow> (case apply_request (ge_ports E) (ge_cognition E) True (ge_clock E n) ar nd of
                 Inl e \<Rightarrow> (Inl (ge_error_str E e), nd) | Inr (resp, nd') \<Rightarrow> (Inr resp, nd')))"

subsection \<open>Vector search over events\<close>

definition meta_is :: "string \<Rightarrow> entry_metadata \<Rightarrow> string option \<Rightarrow> bool" where
  "meta_is field e wanted = (case wanted of
     None \<Rightarrow> True | Some w \<Rightarrow> Option.bind (json_get (em_metadata e) field) json_as_str = Some w)"

definition semantic_search_filtered ::
  "ports \<Rightarrow> embedding \<Rightarrow> nat \<Rightarrow> string option \<Rightarrow> string option \<Rightarrow> semantic_store \<Rightarrow> error + search_result list" where
  "semantic_search_filtered P vector k source event_type ss =
    ss_search_filtered (pt_knn P) vector k (\<lambda>e. meta_is ''source'' e source \<and> meta_is ''event_type'' e event_type) ss"

definition semantic_search_for_tenant ::
  "ports \<Rightarrow> embedding \<Rightarrow> nat \<Rightarrow> string \<Rightarrow> string option \<Rightarrow> string option \<Rightarrow> semantic_store \<Rightarrow> error + search_result list" where
  "semantic_search_for_tenant P vector k tenant source event_type ss =
    ss_search_filtered (pt_knn P) vector k (\<lambda>e.
      (case entry_tenant e of Some t \<Rightarrow> t | None \<Rightarrow> ''default'') = tenant \<and>
      meta_is ''source'' e source \<and> meta_is ''event_type'' e event_type) ss"

definition min_score_ok :: "rat option \<Rightarrow> search_result \<Rightarrow> bool" where
  "min_score_ok min_score r = (case min_score of None \<Rightarrow> True | Some ms \<Rightarrow> sr_score r \<ge> ms)"

definition event_search ::
  "gateway_env \<Rightarrow> string option \<Rightarrow> embedding \<Rightarrow> nat \<Rightarrow> (string option \<times> string option) option \<Rightarrow> node \<Rightarrow> error + search_result list" where
  "event_search E tenant vector k filters nd =
    (case tenant of
       Some t \<Rightarrow> semantic_search_for_tenant (ge_ports E) vector k t (Option.bind filters fst) (Option.bind filters snd) (nd_semantic nd)
     | None \<Rightarrow>
         (case filters of
            Some (source, event_type) \<Rightarrow> semantic_search_filtered (ge_ports E) vector k source event_type (nd_semantic nd)
          | None \<Rightarrow> ss_search (pt_knn (ge_ports E)) vector k (nd_semantic nd)))"

definition search_handler ::
  "gateway_env \<Rightarrow> auth_context option \<Rightarrow> embedding option \<Rightarrow> nat \<Rightarrow> (string option \<times> string option) option \<Rightarrow> rat option \<Rightarrow> node \<Rightarrow>
   data_body response" where
  "search_handler E auth vector k filters min_score nd =
    (case vector of
       None \<Rightarrow> data_ok (Data_Results [])
     | Some v \<Rightarrow>
         (case event_search E (auth_tenant auth) v k filters nd of
            Inl e \<Rightarrow> data_error 500 ''SEARCH_ERROR'' (ge_error_str E e)
          | Inr results \<Rightarrow> data_ok (Data_Results (filter (min_score_ok min_score) results))))"

text \<open>\<open>embed_query\<close> is the embedding of the query text, or the error of the provider or of its absence.\<close>

definition embed_and_search_handler ::
  "gateway_env \<Rightarrow> (string \<Rightarrow> error + embedding) \<Rightarrow> auth_context option \<Rightarrow> string \<Rightarrow> nat \<Rightarrow> string option \<Rightarrow> string option \<Rightarrow> rat option \<Rightarrow>
   node \<Rightarrow> data_body response" where
  "embed_and_search_handler E embed_query auth text k source event_type min_score nd =
    (case res_bind (embed_query text) (\<lambda>v. event_search E (auth_tenant auth) v k
        (if source = None \<and> event_type = None \<and> auth_tenant auth = None then None else Some (source, event_type)) nd) of
       Inr results \<Rightarrow> data_ok (Data_Results (filter (min_score_ok min_score) results))
     | Inl e \<Rightarrow>
         (if sublist ''no embedding provider'' (ge_error_str E e)
          then data_error 503 ''NO_EMBEDDING_PROVIDER'' (''No embedding provider configured. To enable semantic search, set ''
            @ ''ECPHORIA_EMBEDDING__PROVIDER=ollama (local, requires Ollama) or ECPHORIA_EMBEDDING__PROVIDER=openai ''
            @ ''(cloud, requires OPENAI_API_KEY)'')
          else data_error 500 ''SEARCH_ERROR'' (ge_error_str E e)))"

subsection \<open>Agent state\<close>

definition state_get_handler ::
  "gateway_env \<Rightarrow> string \<Rightarrow> auth_context option \<Rightarrow> string \<Rightarrow> string \<Rightarrow> node \<Rightarrow> data_body response \<times> node" where
  "state_get_handler E now_sql auth agent_id key nd =
    (case (case auth_tenant auth of
             Some t \<Rightarrow> state_get_for_tenant now_sql t agent_id key (nd_state nd)
           | None \<Rightarrow> kv_get now_sql agent_id key (nd_state nd)) of
       (got, kv) \<Rightarrow>
         (case got of
            Some entry \<Rightarrow> data_ok (Data_Json (JObj [(''agent_id'', JStr (ste_agent_id entry)), (''key'', JStr (ste_key entry)),
              (''value'', ste_value entry), (''version'', JInt (int (ste_version entry)))]))
          | None \<Rightarrow> data_error 404 ''NOT_FOUND'' (''state key '' @ quote_name key @ '' not found for agent '' @ quote_name agent_id),
          nd\<lparr>nd_state := kv\<rparr>))"

definition state_version :: "nat \<Rightarrow> data_body response" where
  "state_version v = data_ok (Data_Json (JObj [(''version'', JInt (int v))]))"

definition state_set_handler ::
  "gateway_env \<Rightarrow> auth_context option \<Rightarrow> string \<Rightarrow> string \<Rightarrow> json \<Rightarrow> node \<Rightarrow> data_body response \<times> node" where
  "state_set_handler E auth agent_id key body nd =
    (case ge_cluster E of
       Some coord \<Rightarrow>
         (case replicated_write E coord 0 (Req_StateSet agent_id key body (auth_tenant auth)) nd of
            (Inr (Resp_StateVersion v), nd') \<Rightarrow> (state_version v, nd')
          | (Inr _, nd') \<Rightarrow> (state_version 0, nd')
          | (Inl msg, nd') \<Rightarrow> (cluster_error msg, nd'))
     | None \<Rightarrow>
         (case (case auth_tenant auth of
                  Some t \<Rightarrow> state_set_for_tenant t agent_id key body (nd_state nd)
                | None \<Rightarrow> kv_set agent_id key body (nd_state nd)) of
            (v, kv) \<Rightarrow> (state_version v, nd\<lparr>nd_state := kv\<rparr>)))"

text \<open>The agent whose changes a watcher is sent; the tenant's prefix keeps watchers apart.\<close>

definition watched_agent :: "auth_context option \<Rightarrow> string \<Rightarrow> string" where
  "watched_agent auth agent_id = (case auth_tenant auth of Some t \<Rightarrow> scoped_agent t agent_id | None \<Rightarrow> agent_id)"

definition watched_changes :: "auth_context option \<Rightarrow> string \<Rightarrow> state_change list \<Rightarrow> state_change list" where
  "watched_changes auth agent_id changes = filter (\<lambda>c. stc_agent_id c = watched_agent auth agent_id) changes"

definition watched_memories :: "auth_context option \<Rightarrow> memory_change list \<Rightarrow> memory_change list" where
  "watched_memories auth changes = filter (\<lambda>c. case auth_tenant auth of None \<Rightarrow> True | Some t \<Rightarrow> t = mc_tenant_id c) changes"

subsection \<open>Sessions\<close>

definition field_text :: "json \<Rightarrow> string \<Rightarrow> string option" where
  "field_text body field = Option.bind (json_get body field) json_as_str"

definition text_or_empty :: "string option \<Rightarrow> string" where
  "text_or_empty x = (case x of Some s \<Rightarrow> s | None \<Rightarrow> [])"

definition session_start_handler ::
  "gateway_env \<Rightarrow> auth_context option \<Rightarrow> json \<Rightarrow> node \<Rightarrow> data_body response \<times> node" where
  "session_start_handler E auth body nd =
    (let session_id = text_or_empty (field_text body ''session_id''); agent_id = text_or_empty (field_text body ''agent_id'');
         parent = field_text body ''parent_session_id''; metadata = json_get body ''metadata''
     in if session_id = [] \<or> agent_id = [] then (data_error 400 ''MISSING_FIELD'' ''session_id and agent_id are required'', nd)
        else (case (case auth_tenant auth of
                 Some t \<Rightarrow> start_session_for_tenant (ge_now E 0) session_id agent_id parent metadata t (nd_episodic nd)
               | None \<Rightarrow> start_session (ge_now E 0) session_id agent_id parent metadata (nd_episodic nd)) of
            Inl e \<Rightarrow> (data_error 500 ''SESSION_ERROR'' (ge_error_str E e), nd)
          | Inr ep \<Rightarrow> (data_ok (Data_Json (JObj [(''session_id'', JStr session_id), (''agent_id'', JStr agent_id), (''status'', JStr ''started'')])),
              nd\<lparr>nd_episodic := ep\<rparr>)))"

definition session_ended :: "string \<Rightarrow> data_body response" where
  "session_ended session_id = data_ok (Data_Json (JObj [(''session_id'', JStr session_id), (''status'', JStr ''ended'')]))"

definition session_end_handler ::
  "gateway_env \<Rightarrow> auth_context option \<Rightarrow> string \<Rightarrow> json \<Rightarrow> node \<Rightarrow> data_body response \<times> node" where
  "session_end_handler E auth session_id body nd =
    (let summary = field_text body ''summary''
     in case auth_tenant auth of
          Some t \<Rightarrow>
            (case end_session_for_tenant (ge_now E 0) session_id summary t (nd_episodic nd) of
               (True, ep) \<Rightarrow> (session_ended session_id, nd\<lparr>nd_episodic := ep\<rparr>)
             | (False, ep) \<Rightarrow> (data_error 404 ''NOT_FOUND'' (''session '' @ quote_name session_id @ '' not found''), nd\<lparr>nd_episodic := ep\<rparr>))
        | None \<Rightarrow> (session_ended session_id, nd\<lparr>nd_episodic := end_session (ge_now E 0) session_id summary (nd_episodic nd)\<rparr>))"

definition session_recall_handler :: "auth_context option \<Rightarrow> string \<Rightarrow> node \<Rightarrow> data_body response" where
  "session_recall_handler auth session_id nd =
    data_ok (Data_Events session_id (case auth_tenant auth of
      Some t \<Rightarrow> recall_session_for_tenant session_id t (nd_episodic nd)
    | None \<Rightarrow> recall_session session_id (nd_episodic nd)))"

text \<open>In a cluster each plan is one replicated entry; the first that is not committed ends the request.\<close>

fun replicate_plans ::
  "gateway_env \<Rightarrow> (nat \<Rightarrow> app_request \<Rightarrow> string option) \<Rightarrow> nat \<Rightarrow> (memory_add_result \<times> memory_row list) list \<Rightarrow> node \<Rightarrow> string option \<times> node" where
  "replicate_plans E coord n [] nd = (None, nd)"
| "replicate_plans E coord n (p # ps) nd =
    (case replicated_write E coord n (Req_MemoryUpsert (snd p)) nd of
       (Inl msg, nd') \<Rightarrow> (Some msg, nd') | (Inr _, nd') \<Rightarrow> replicate_plans E coord (n + 1) ps nd')"

definition session_distill_handler ::
  "gateway_env \<Rightarrow> data_env \<Rightarrow> auth_context option \<Rightarrow> string \<Rightarrow> node \<Rightarrow> data_body response \<times> node" where
  "session_distill_handler E D auth session_id nd =
    (let scope = \<lparr>sc_tenant_id = tenant_or_default_of auth, sc_user_id = None, sc_agent_id = None, sc_session_id = None\<rparr>
     in case session_distill_plan D (ge_llm E) (ge_ports E) (ge_cognition E) (ge_tick E) session_id scope nd of
          Inl e \<Rightarrow> (data_error 500 ''SESSION_ERROR'' (ge_error_str E e), nd)
        | Inr plans \<Rightarrow>
            (let done = data_ok (Data_Distilled session_id (map fst plans))
             in case ge_cluster E of
                  Some coord \<Rightarrow>
                    (case replicate_plans E coord 0 plans nd of
                       (Some msg, nd') \<Rightarrow> (cluster_error msg, nd') | (None, nd') \<Rightarrow> (done, nd'))
                | None \<Rightarrow> (done, nd\<lparr>nd_memory := apply_plans (ge_ports E) (ge_cognition E) plans (nd_memory nd)\<rparr>)))"

subsection \<open>The public view of published memories\<close>

text \<open>Instants of the server's monotonic clock are milliseconds. The scan is reused for fifteen seconds.\<close>

type_synonym published = "string option \<times> string \<times> ts"

record publish_state =
  ps_tenant :: string
  ps_cache :: "(int \<times> published list) option"

definition publish_new :: "string \<Rightarrow> publish_state" where
  "publish_new tenant = \<lparr>ps_tenant = tenant, ps_cache = None\<rparr>"

definition PUBLISH_CACHE_TTL :: int where
  "PUBLISH_CACHE_TTL = 15000"

definition published_of :: "gateway_env \<Rightarrow> string \<Rightarrow> engine \<Rightarrow> published list" where
  "published_of E tenant en =
    map (\<lambda>m. (m_subject m, m_content m, m_updated_at m)) (memory_published (ge_json_extract E) (ge_cognition E) tenant 500 en)"

definition published_items :: "gateway_env \<Rightarrow> int \<Rightarrow> engine \<Rightarrow> publish_state \<Rightarrow> published list \<times> publish_state" where
  "published_items E now en ps =
    (case ps_cache ps of
       Some (t, items) \<Rightarrow>
         (if now - t < PUBLISH_CACHE_TTL then (items, ps)
          else let fresh = published_of E (ps_tenant ps) en in (fresh, ps\<lparr>ps_cache := Some (now, fresh)\<rparr>))
     | None \<Rightarrow> let fresh = published_of E (ps_tenant ps) en in (fresh, ps\<lparr>ps_cache := Some (now, fresh)\<rparr>))"

definition public_cache_header :: "'b response \<Rightarrow> 'b response" where
  "public_cache_header r = r\<lparr>rs_headers := rs_headers r @ [(''cache-control'', ''public, max-age=15'')]\<rparr>"

definition public_memories ::
  "gateway_env \<Rightarrow> int \<Rightarrow> engine \<Rightarrow> publish_state option \<Rightarrow> data_body response \<times> publish_state option" where
  "public_memories E now en publish =
    (case publish of
       None \<Rightarrow> (data_error 404 ''PUBLISH_DISABLED'' ''publishing is disabled'', None)
     | Some ps \<Rightarrow> (case published_items E now en ps of
         (items, ps') \<Rightarrow> (public_cache_header (data_ok (Data_Published items)), Some ps')))"

definition esc :: "string \<Rightarrow> string" where
  "esc s = str_replace CHR ''>'' ''&gt;'' (str_replace CHR ''<'' ''&lt;'' (str_replace CHR ''&'' ''&amp;'' s))"

definition public_card :: "published \<Rightarrow> string" where
  "public_card item = (case item of (subject, content, _) \<Rightarrow>
    ''<article>'' @ (case subject of
        None \<Rightarrow> [] | Some s \<Rightarrow> if s = [] then [] else ''<h3>'' @ esc s @ ''</h3>'') @
    ''<p>'' @ esc content @ ''</p></article>'')"

definition public_html :: "published list \<Rightarrow> string" where
  "public_html items =
    (let cards = concat (map public_card items)
     in ''<!doctype html><html><head><meta charset=utf-8><meta name=viewport content='' @ quote_name ''width=device-width,initial-scale=1'' @ ''>''
        @ ''<title>Published memories</title><style>body{max-width:720px;margin:2rem auto;padding:0 1rem;font:16px/1.6 system-ui,sans-serif;color:#222}''
        @ ''article{border-bottom:1px solid #eee;padding:1rem 0}h3{margin:0 0 .3rem}p{margin:0;white-space:pre-wrap}''
        @ ''footer{color:#888;font-size:13px;margin-top:2rem}</style></head><body>''
        @ ''<h1>Published memories</h1>'' @ (if cards = [] then ''<p>Nothing published yet.</p>'' else cards)
        @ ''<footer>'' @ show_nat (length items) @ '' memories '' @ [CHR 0xC2, CHR 0xB7] @ '' powered by Ecphoria</footer></body></html>'')"

definition public_index ::
  "gateway_env \<Rightarrow> int \<Rightarrow> engine \<Rightarrow> publish_state option \<Rightarrow> data_body response \<times> publish_state option" where
  "public_index E now en publish =
    (case publish of
       None \<Rightarrow> ((status_response 404)\<lparr>rs_body := Some (Data_Html ''publishing is disabled'')\<rparr>, None)
     | Some ps \<Rightarrow> (case published_items E now en ps of
         (items, ps') \<Rightarrow> (public_cache_header ((data_ok (Data_Html (public_html items)))\<lparr>rs_headers :=
           [(''content-type'', ''text/html; charset=utf-8'')]\<rparr>), Some ps')))"

subsection \<open>Templates\<close>

definition template_entry :: "string \<Rightarrow> string \<Rightarrow> string list \<Rightarrow> json" where
  "template_entry name description flds =
    JObj [(''name'', JStr name), (''description'', JStr description), (''fields'', JArr (map JStr flds))]"

definition template_catalog :: "json list" where
  "template_catalog = [template_entry ''preference'' ''A user preference'' [''subject'', ''value''],
     template_entry ''person'' ''A fact about a person'' [''name'', ''detail''],
     template_entry ''decision'' ''A decision made'' [''topic'', ''decision''],
     template_entry ''task'' ''A task / procedure'' [''task'']]"

definition memory_templates :: "data_body response" where
  "memory_templates = data_ok (Data_Json (JObj [(''templates'', JArr template_catalog)]))"

definition render_template :: "string \<Rightarrow> json \<Rightarrow> (string \<times> string \<times> string) option" where
  "render_template name flds =
    (let f = (\<lambda>k. str_trim (text_or_empty (field_text flds k)))
     in if name = ''preference'' then
          (let s = f ''subject''; v = f ''value''
           in if s \<noteq> [] \<and> v \<noteq> [] then Some (s @ '': '' @ v, s, ''semantic'') else None)
        else if name = ''person'' then
          (let n = f ''name''; d = f ''detail''
           in if n \<noteq> [] then Some (if d = [] then n else n @ '' '' @ em_dash @ '' '' @ d, n, ''semantic'') else None)
        else if name = ''decision'' then
          (let t = f ''topic''; d = f ''decision''
           in if t \<noteq> [] \<and> d \<noteq> [] then Some (''Decision on '' @ t @ '': '' @ d, t, ''semantic'') else None)
        else if name = ''task'' then (let t = f ''task'' in if t \<noteq> [] then Some (t, t, ''procedural'') else None)
        else None)"

definition memory_from_template ::
  "gateway_env \<Rightarrow> auth_context option \<Rightarrow> string option \<Rightarrow> string \<Rightarrow> json \<Rightarrow> scope_fields \<Rightarrow> node \<Rightarrow> data_body response \<times> node" where
  "memory_from_template E auth header template flds sf nd =
    (case render_template template flds of
       None \<Rightarrow> (data_error 400 ''TEMPLATE_ERROR'' (''unknown template '' @ quote_name template @ '' or missing required fields''), nd)
     | Some (content, subject, mem_type) \<Rightarrow>
         (case memory_add (ge_ports E) (ge_cognition E) (ge_tick E 0)
             ((memory_input_new (scope_of auth header sf) content)\<lparr>i_subject := Some subject, i_mem_type := Some mem_type\<rparr>) (nd_memory nd) of
            Inl e \<Rightarrow> (data_error 500 ''MEMORY_ERROR'' (ge_error_str E e), nd)
          | Inr (added, en) \<Rightarrow> (data_ok (Data_Added added), nd\<lparr>nd_memory := en\<rparr>)))"

subsection \<open>The knowledge graph\<close>

definition graph_centrality_handler ::
  "gateway_env \<Rightarrow> auth_context option \<Rightarrow> string option \<Rightarrow> nat option \<Rightarrow> node \<Rightarrow> data_body response" where
  "graph_centrality_handler E auth as_of_text limit nd =
    (let nodes = graph_centrality (ge_cognition E) (tenant_or_default_of auth) (parse_as_of E as_of_text) (nd_memory nd)
     in data_ok (Data_Nodes (case limit of Some l \<Rightarrow> take l nodes | None \<Rightarrow> nodes)))"

definition graph_path_handler ::
  "gateway_env \<Rightarrow> auth_context option \<Rightarrow> string \<Rightarrow> string \<Rightarrow> string option \<Rightarrow> node \<Rightarrow> data_body response" where
  "graph_path_handler E auth src dst as_of_text nd =
    data_ok (Data_Path src dst (graph_path (ge_cognition E) (tenant_or_default_of auth) src dst (parse_as_of E as_of_text) (nd_memory nd)))"

definition graph_communities_handler ::
  "gateway_env \<Rightarrow> auth_context option \<Rightarrow> string option \<Rightarrow> node \<Rightarrow> data_body response option" where
  "graph_communities_handler E auth as_of_text nd =
    map_option (\<lambda>c. data_ok (Data_Communities c))
      (graph_communities (ge_cognition E) (tenant_or_default_of auth) (parse_as_of E as_of_text) (nd_memory nd))"

definition memory_graph_handler ::
  "gateway_env \<Rightarrow> auth_context option \<Rightarrow> string \<Rightarrow> nat option \<Rightarrow> nat option \<Rightarrow> node \<Rightarrow> data_body response" where
  "memory_graph_handler E auth entity depth limit0 nd =
    (let tenant = tenant_or_default_of auth; limit = (case limit0 of Some l \<Rightarrow> l | None \<Rightarrow> 50);
         deep = (case depth of Some d \<Rightarrow> d > 1 | None \<Rightarrow> False)
     in data_ok (Data_Edges entity
          (if deep then memory_subgraph (cg_max_rows (ge_cognition E)) tenant entity (the depth) limit (nd_memory nd)
           else memory_neighbors (ge_cognition E) tenant entity limit (nd_memory nd))))"

subsection \<open>Listings\<close>

definition list_sources :: "episodic_store \<Rightarrow> string list" where
  "list_sources ep = sort (remdups (map er_source (ep_events ep)))"

definition list_sources_for_tenant :: "string \<Rightarrow> episodic_store \<Rightarrow> string list" where
  "list_sources_for_tenant tenant ep = sort (remdups (map er_source (filter (\<lambda>r. er_tenant_id r = tenant) (ep_events ep))))"

definition list_agents :: "state_store \<Rightarrow> string list" where
  "list_agents kv = sort (remdups (map sw_agent_id (kv_db kv)))"

text \<open>The pattern of the listing by tenant is not escaped, and has no escape character.\<close>

fun like_match :: "string \<Rightarrow> string \<Rightarrow> bool" where
  "like_match [] s = (s = [])"
| "like_match (p # ps) s =
    (if p = CHR ''%'' then (like_match ps s \<or> (case s of [] \<Rightarrow> False | c # cs \<Rightarrow> like_match (p # ps) cs))
     else if p = CHR ''_'' then (case s of [] \<Rightarrow> False | c # cs \<Rightarrow> like_match ps cs)
     else (case s of [] \<Rightarrow> False | c # cs \<Rightarrow> lower_char p = lower_char c \<and> like_match ps cs))"

definition list_agents_for_tenant :: "string \<Rightarrow> state_store \<Rightarrow> string list" where
  "list_agents_for_tenant tenant kv =
    map (\<lambda>a. case strip_prefix_of (tenant_prefix tenant) a of Some rest \<Rightarrow> rest | None \<Rightarrow> a)
      (sort (remdups (filter (like_match (tenant_prefix tenant @ ''%'')) (map sw_agent_id (kv_db kv)))))"

definition schema_sources :: "auth_context option \<Rightarrow> node \<Rightarrow> data_body response" where
  "schema_sources auth nd = data_ok (Data_Json (JObj [(''sources'', JArr (map JStr (case auth_tenant auth of
     Some t \<Rightarrow> list_sources_for_tenant t (nd_episodic nd) | None \<Rightarrow> list_sources (nd_episodic nd))))]))"

definition schema_agents :: "auth_context option \<Rightarrow> node \<Rightarrow> data_body response" where
  "schema_agents auth nd = data_ok (Data_Json (JObj [(''agents'', JArr (map JStr (case auth_tenant auth of
     Some t \<Rightarrow> list_agents_for_tenant t (nd_state nd) | None \<Rightarrow> list_agents (nd_state nd))))]))"

subsection \<open>Attachments\<close>

record data_node =
  dn_node :: node
  dn_blobs :: blob_store
  dn_modal :: multi_modal_store

definition attachments_of :: "data_node \<Rightarrow> attachments" where
  "attachments_of dn = \<lparr>an_store = en_store (nd_memory (dn_node dn)), an_blobs = dn_blobs dn, an_modal = dn_modal dn\<rparr>"

definition with_attachments :: "data_node \<Rightarrow> attachments \<Rightarrow> data_node" where
  "with_attachments dn an = dn\<lparr>dn_blobs := an_blobs an, dn_modal := an_modal an,
     dn_node := (dn_node dn)\<lparr>nd_memory := (nd_memory (dn_node dn))\<lparr>en_store := an_store an\<rparr>\<rparr>\<rparr>"

record upload_query =
  uq_memory_id :: "string option"
  uq_filename :: "string option"
  uq_caption :: "string option"
  uq_user_id :: "string option"

definition add_caption ::
  "gateway_env \<Rightarrow> attachment_env \<Rightarrow> auth_context option \<Rightarrow> string option \<Rightarrow> upload_query \<Rightarrow> attachment_meta \<Rightarrow> node \<Rightarrow> node" where
  "add_caption E A auth header q meta nd =
    (case uq_caption q of
       None \<Rightarrow> nd
     | Some caption \<Rightarrow>
         (if str_trim caption = [] then nd
          else (case memory_add (ge_ports E) (ge_cognition E) (ge_tick E 0)
              ((memory_input_new (scope_with_header auth header None (uq_user_id q) None None) caption)\<lparr>i_metadata :=
                JObj [(''attachment_id'', JStr (at_uuid_str A (a_id meta))), (''content_type'', JStr (a_content_type meta))]\<rparr>) (nd_memory nd) of
                Inl _ \<Rightarrow> nd | Inr (_, en) \<Rightarrow> nd\<lparr>nd_memory := en\<rparr>)))"

definition attachment_upload ::
  "gateway_env \<Rightarrow> attachment_env \<Rightarrow> auth_context option \<Rightarrow> string option \<Rightarrow> upload_query \<Rightarrow> string option \<Rightarrow> string \<Rightarrow> data_node \<Rightarrow>
   data_body response \<times> data_node" where
  "attachment_upload E A auth header q content_type_header body dn =
    (if body = [] then (data_error 400 ''EMPTY'' ''attachment body is empty'', dn)
     else let content_type = (case Option.bind content_type_header header_str of Some c \<Rightarrow> c | None \<Rightarrow> ''application/octet-stream'')
          in case attachment_put A (ge_fresh E) (ge_now E 0) (tenant_or_default_of auth) (Option.bind (uq_memory_id q) (ge_parse_uuid E))
                content_type (uq_filename q) body (attachments_of dn) of
               (Inl e, an) \<Rightarrow> (data_error 500 ''ATTACHMENT_ERROR'' (ge_error_str E e), with_attachments dn an)
             | (Inr meta, an) \<Rightarrow>
                 (let dn1 = with_attachments dn an
                  in ((status_response 201)\<lparr>rs_body := Some (Data_Attachment meta)\<rparr>,
                      dn1\<lparr>dn_node := add_caption E A auth header q meta (dn_node dn1)\<rparr>)))"

definition attachment_search_image_handler ::
  "gateway_env \<Rightarrow> attachment_env \<Rightarrow> auth_context option \<Rightarrow> nat option \<Rightarrow> string \<Rightarrow> data_node \<Rightarrow> data_body response" where
  "attachment_search_image_handler E A auth limit body dn =
    (if body = [] then data_error 400 ''EMPTY'' ''query image body is empty''
     else (case attachment_search_image A (pt_knn (ge_ports E)) (cg_max_rows (ge_cognition E)) (tenant_or_default_of auth) body
         (case limit of Some l \<Rightarrow> l | None \<Rightarrow> 10) (attachments_of dn) of
            Inr items \<Rightarrow> data_ok (Data_Attachments items)
          | Inl e \<Rightarrow> data_error 500 ''ATTACHMENT_ERROR'' (ge_error_str E e)))"

definition INLINE_SAFE :: "string list" where
  "INLINE_SAFE = [''image/png'', ''image/jpeg'', ''image/jpg'', ''image/gif'', ''image/webp'', ''image/avif'', ''image/bmp'',
     ''image/x-icon'', ''application/pdf'', ''text/plain'']"

definition safe_download_content_type :: "string \<Rightarrow> string \<times> bool" where
  "safe_download_content_type stored =
    (let base = to_lowercase (str_trim (hd (split_on (\<lambda>c. c = CHR '';'') stored)))
     in if base \<in> set INLINE_SAFE then (base, True) else (''application/octet-stream'', False))"

text \<open>Control characters are the ASCII ones and, as two bytes, those from U+0080 to U+009F.\<close>

fun drop_controls :: "string \<Rightarrow> string" where
  "drop_controls (a # b # s) =
    (if (of_char a :: nat) < 32 \<or> of_char a = (127 :: nat) then drop_controls (b # s)
     else if of_char a = (194 :: nat) \<and> (of_char b :: nat) \<ge> 128 \<and> (of_char b :: nat) < 160 then drop_controls s
     else a # drop_controls (b # s))"
| "drop_controls [a] = (if (of_char a :: nat) < 32 \<or> of_char a = (127 :: nat) then [] else [a])"
| "drop_controls [] = []"

definition cd_char :: "char \<Rightarrow> char" where
  "cd_char c = (if c \<in> {CHR 0x22, CHR 0x5C, CHR 0x2F, CHR 0x0D, CHR 0x0A} then CHR ''_'' else c)"

definition cd_filename :: "string \<Rightarrow> string" where
  "cd_filename name =
    (let t = str_trim (take_chars 200 (map cd_char (drop_controls name))) in if t = [] then ''download'' else t)"

text \<open>A header value holds no control characters but the tabulator.\<close>

definition header_value :: "string \<Rightarrow> string option" where
  "header_value s =
    (if list_all (\<lambda>c. of_char c = (9 :: nat) \<or> (of_char c :: nat) \<ge> 32 \<and> of_char c \<noteq> (127 :: nat)) s then Some s else None)"

definition content_disposition :: "bool \<Rightarrow> string option \<Rightarrow> string" where
  "content_disposition is_inline filename =
    (let disposition = (if is_inline then ''inline'' else ''attachment'')
     in case filename of
          Some f \<Rightarrow> disposition @ ''; filename='' @ [CHR 0x22] @ cd_filename f @ [CHR 0x22]
        | None \<Rightarrow> disposition)"

definition download_response :: "attachment_meta \<Rightarrow> string \<Rightarrow> data_body response" where
  "download_response meta data =
    (case safe_download_content_type (a_content_type meta) of (served, is_inline) \<Rightarrow>
       (data_ok (Data_Bytes data))\<lparr>rs_headers :=
         [(''content-type'', case header_value served of Some v \<Rightarrow> v | None \<Rightarrow> ''application/octet-stream''),
          (''x-content-type-options'', ''nosniff''),
          (''content-security-policy'', ''default-src '' @ quote_name ''none'' @ ''; sandbox''),
          (''content-disposition'', case header_value (content_disposition is_inline (a_filename meta)) of
             Some v \<Rightarrow> v | None \<Rightarrow> ''attachment'')]\<rparr>)"

definition attachment_download ::
  "gateway_env \<Rightarrow> attachment_env \<Rightarrow> auth_context option \<Rightarrow> string \<Rightarrow> data_node \<Rightarrow> data_body response" where
  "attachment_download E A auth id0 dn =
    (case ge_parse_uuid E id0 of
       None \<Rightarrow> data_error 400 ''BAD_ID'' ''invalid attachment id''
     | Some uid \<Rightarrow>
         (case attachment_fetch A (tenant_or_default_of auth) uid (attachments_of dn) of
            Inr (Some (meta, data)) \<Rightarrow> download_response meta data
          | Inr None \<Rightarrow> data_error 404 ''NOT_FOUND'' ''attachment not found''
          | Inl e \<Rightarrow> data_error 500 ''ATTACHMENT_ERROR'' (ge_error_str E e)))"

definition attachment_list_handler ::
  "gateway_env \<Rightarrow> auth_context option \<Rightarrow> string option \<Rightarrow> nat option \<Rightarrow> data_node \<Rightarrow> data_body response" where
  "attachment_list_handler E auth memory_id limit dn =
    data_ok (Data_Attachments (attachment_listing (cg_max_rows (ge_cognition E)) (tenant_or_default_of auth)
      (Option.bind memory_id (ge_parse_uuid E)) (case limit of Some l \<Rightarrow> l | None \<Rightarrow> 100) (attachments_of dn)))"

definition attachment_delete_handler ::
  "gateway_env \<Rightarrow> attachment_env \<Rightarrow> auth_context option \<Rightarrow> string \<Rightarrow> data_node \<Rightarrow> data_body response \<times> data_node" where
  "attachment_delete_handler E A auth id0 dn =
    (case ge_parse_uuid E id0 of
       None \<Rightarrow> (data_error 400 ''BAD_ID'' ''invalid attachment id'', dn)
     | Some uid \<Rightarrow>
         (case attachment_remove A (tenant_or_default_of auth) uid (attachments_of dn) of
            (True, an) \<Rightarrow> (data_ok (Data_Json (JObj [(''deleted'', JStr id0)])), with_attachments dn an)
          | (False, an) \<Rightarrow> (data_error 404 ''NOT_FOUND'' ''attachment not found'', with_attachments dn an)))"

subsection \<open>The public view shows published memories and no markup of theirs\<close>

definition markup :: "string \<Rightarrow> string" where
  "markup s = filter (\<lambda>c. c = CHR ''<'' \<or> c = CHR ''>'') s"

text \<open>The same page with every text replaced by a harmless one.\<close>

definition neutral :: "published \<Rightarrow> published" where
  "neutral item = (case item of (subject, content, t) \<Rightarrow> (map_option (\<lambda>s. if s = [] then [] else ''x'') subject, [], t))"

lemma markup_append [simp]: "markup (a @ b) = markup a @ markup b"
  by (simp add: markup_def)

lemma markup_Cons [simp]:
  "markup (c # s) = (if c = CHR ''<'' \<or> c = CHR ''>'' then c # markup s else markup s)" "markup [] = []"
  by (simp_all add: markup_def)

lemma markup_esc [simp]: "markup (esc s) = []"
proof (induction s)
  case (Cons c s)
  have "esc (c # s) = (if c = CHR ''&'' then ''&amp;'' else if c = CHR ''<'' then ''&lt;'' else if c = CHR ''>'' then ''&gt;'' else [c]) @ esc s"
    by (simp add: esc_def str_replace_def)
  then show ?case using Cons by simp
qed (simp add: esc_def str_replace_def)

lemma markup_card: "markup (public_card (neutral item)) = markup (public_card item)"
  by (cases item) (auto simp: public_card_def neutral_def split: option.split)

lemma public_card_nonempty: "public_card item \<noteq> []"
  by (cases item) (simp add: public_card_def)

text \<open>The public page is inert: whatever subjects and contents the published memories have, the angle brackets of the
  page are those of the page with harmless texts in their place, so no text of a memory adds or closes an element.\<close>

theorem public_page_inert:
  "markup (public_html items) = markup (public_html (map neutral items))"
proof -
  have cards: "markup (concat (map public_card (map neutral items))) = markup (concat (map public_card items))"
    by (induction items) (simp_all add: markup_card)
  have none: "concat (map public_card items) = [] \<longleftrightarrow> concat (map public_card (map neutral items)) = []"
    using public_card_nonempty by (cases items) simp_all
  show ?thesis unfolding public_html_def Let_def markup_append length_map using cards none by simp
qed

fun serve_all :: "gateway_env \<Rightarrow> (int \<Rightarrow> engine) \<Rightarrow> int list \<Rightarrow> publish_state \<Rightarrow> published list list" where
  "serve_all E H [] ps = []"
| "serve_all E H (now # visits) ps =
    (case published_items E now (H now) ps of (items, ps') \<Rightarrow> items # serve_all E H visits ps')"

definition cache_ok :: "gateway_env \<Rightarrow> (int \<Rightarrow> engine) \<Rightarrow> int list \<Rightarrow> publish_state \<Rightarrow> bool" where
  "cache_ok E H visits ps \<longleftrightarrow> (case ps_cache ps of
     None \<Rightarrow> True | Some (t, items) \<Rightarrow> items = published_of E (ps_tenant ps) (H t) \<and> list_all (\<lambda>x. t \<le> x) visits)"

lemma serve_all_recent:
  assumes "sorted visits" and "cache_ok E H visits ps" and "i < length visits"
  shows "\<exists>t. visits ! i - PUBLISH_CACHE_TTL < t \<and> t \<le> visits ! i \<and> serve_all E H visits ps ! i = published_of E (ps_tenant ps) (H t)"
  using assms
proof (induction visits arbitrary: ps i)
  case (Cons now visits)
  obtain items ps' where r: "published_items E now (H now) ps = (items, ps')" by fastforce
  have "cache_ok E H visits ps' \<and> ps_tenant ps' = ps_tenant ps \<and>
      (\<exists>t. now - PUBLISH_CACHE_TTL < t \<and> t \<le> now \<and> items = published_of E (ps_tenant ps) (H t))"
  proof (cases "\<exists>t c. ps_cache ps = Some (t, c) \<and> now - t < PUBLISH_CACHE_TTL")
    case True
    then obtain t c where c: "ps_cache ps = Some (t, c)" "now - t < PUBLISH_CACHE_TTL" by (elim exE conjE)
    then have "items = c" "ps' = ps" using r by (simp_all add: published_items_def)
    moreover have "c = published_of E (ps_tenant ps) (H t)" "t \<le> now" "cache_ok E H visits ps"
      using Cons.prems(2) c(1) by (simp_all add: cache_ok_def)
    ultimately show ?thesis using c(2) by (intro conjI exI [of _ t]) simp_all
  next
    case False
    then have "items = published_of E (ps_tenant ps) (H now)" "ps' = ps\<lparr>ps_cache := Some (now, items)\<rparr>"
      using r by (auto simp: published_items_def Let_def split: option.splits prod.splits if_splits)
    moreover have "list_all (\<lambda>x. now \<le> x) visits" using Cons.prems(1) by (simp add: list_all_iff)
    ultimately show ?thesis by (intro conjI exI [of _ now]) (simp_all add: cache_ok_def PUBLISH_CACHE_TTL_def)
  qed
  note ok = this
  show ?case
  proof (cases i)
    case 0 then show ?thesis using ok r by simp
  next
    case (Suc j)
    then show ?thesis using Cons.IH [of ps' j] Cons.prems ok r by simp
  qed
qed simp

text \<open>The public endpoints show, at every visit, what the configured tenant had published at some instant of the last
  fifteen seconds: active memories of that tenant marked as published, with subject, content and time only.\<close>

theorem public_view_fresh:
  assumes "sorted visits" and "i < length visits"
  shows "\<exists>t. visits ! i - 15000 < t \<and> t \<le> visits ! i \<and>
    serve_all E H visits (publish_new tenant) ! i = published_of E tenant (H t) \<and>
    set (published_of E tenant (H t)) \<subseteq> (\<lambda>m. (m_subject m, m_content m, m_updated_at m)) `
      {m \<in> mems (en_store (H t)). sc_tenant_id (m_scope m) = tenant \<and> m_state m = Active \<and>
        ge_json_extract E (m_metadata m) ''$.published'' = Some ''true''}"
proof -
  have "cache_ok E H visits (publish_new tenant)" by (simp add: cache_ok_def publish_new_def)
  from serve_all_recent [OF assms(1) this assms(2)] obtain t where t: "visits ! i - 15000 < t" "t \<le> visits ! i"
    "serve_all E H visits (publish_new tenant) ! i = published_of E tenant (H t)"
    by (auto simp: PUBLISH_CACHE_TTL_def publish_new_def)
  moreover have "set (list_published f tenant n st) \<subseteq> {m \<in> mems st. sc_tenant_id (m_scope m) = tenant \<and> m_state m = Active \<and>
      f (m_metadata m) ''$.published'' = Some ''true''}" for f n st
    by (auto simp: list_published_def ms_select_def mems_def dest!: in_set_takeD)
  ultimately show ?thesis unfolding published_of_def memory_published_def set_map by (intro exI [of _ t]) (simp add: image_mono)
qed

subsection \<open>Downloads are inert\<close>

definition header_char :: "char \<Rightarrow> bool" where
  "header_char c \<longleftrightarrow> 32 \<le> (of_char c :: nat) \<and> of_char c \<noteq> (127 :: nat)"

lemma drop_controls_chars: "c \<in> set (drop_controls s) \<Longrightarrow> header_char c"
  by (induction s rule: drop_controls.induct) (auto simp: header_char_def split: if_splits)

lemma set_take_chars: "set (take_chars n s) \<subseteq> set s"
  by (induction n s rule: take_chars.induct) (auto split: nat.splits if_splits)

lemma set_str_trim: "set (str_trim s) \<subseteq> set s"
  by (auto simp: str_trim_def trim_matches_def trim_end_matches_def trim_start_matches_def dest!: set_dropWhileD)

lemma cd_filename_chars:
  assumes "c \<in> set (cd_filename name)"
  shows "header_char c \<and> c \<notin> {CHR 0x22, CHR 0x5C, CHR 0x2F}"
proof -
  have "header_char (cd_char d) \<and> cd_char d \<notin> {CHR 0x22, CHR 0x5C, CHR 0x2F}" if "d \<in> set (drop_controls name)" for d
    using drop_controls_chars [OF that] by (auto simp: cd_char_def header_char_def)
  moreover have "c \<in> set ''download'' \<or> c \<in> cd_char ` set (drop_controls name)"
    using assms set_str_trim set_take_chars [of 200 "map cd_char (drop_controls name)"] unfolding cd_filename_def Let_def
    by (auto split: if_splits)
  ultimately show ?thesis by (auto simp: header_char_def)
qed

lemma content_disposition_chars:
  "list_all header_char (content_disposition b f) \<and> length (filter (\<lambda>c. c = CHR 0x22) (content_disposition b f)) \<le> 2 \<and>
    (prefix ''inline'' (content_disposition b f) \<longrightarrow> b) \<and> CHR 0x2F \<notin> set (content_disposition b f) \<and> CHR 0x5C \<notin> set (content_disposition b f)"
proof -
  have name: "filter (\<lambda>c. c = CHR 0x22) (cd_filename n) = [] \<and> CHR 0x2F \<notin> set (cd_filename n) \<and> CHR 0x5C \<notin> set (cd_filename n) \<and>
      (\<forall>c \<in> set (cd_filename n). header_char c)" for n
    using cd_filename_chars [of _ n] by (auto simp: filter_empty_conv)
  show ?thesis using name by (auto simp: content_disposition_def Let_def header_char_def list_all_iff split: option.splits)
qed

lemma header_value_chars: "list_all header_char s \<Longrightarrow> header_value s = Some s"
  by (auto simp: header_value_def list_all_iff header_char_def)

text \<open>C28: A downloaded attachment cannot run in the browser or forge a header: its type is one of the inert types or a
  byte stream, only inert types are shown inline, sniffing is off and the security policy locks everything; the
  file name adds no control character, quote or path separator. Only the tenant's own attachments are served.\<close>

theorem attachment_download_inert:
  assumes "rs_status (attachment_download E A auth id0 dn) = 200"
  shows "\<exists>ct cd data. rs_body (attachment_download E A auth id0 dn) = Some (Data_Bytes data) \<and>
    rs_headers (attachment_download E A auth id0 dn) = [(''content-type'', ct), (''x-content-type-options'', ''nosniff''),
      (''content-security-policy'', ''default-src '' @ quote_name ''none'' @ ''; sandbox''), (''content-disposition'', cd)] \<and>
    ct \<in> set (''application/octet-stream'' # INLINE_SAFE) \<and> (prefix ''inline'' cd \<longrightarrow> ct \<in> set INLINE_SAFE) \<and>
    list_all header_char cd \<and> length (filter (\<lambda>c. c = CHR 0x22) cd) \<le> 2 \<and> CHR 0x2F \<notin> set cd \<and> CHR 0x5C \<notin> set cd \<and>
    (\<exists>meta \<in> set (st_attachments (en_store (nd_memory (dn_node dn)))). a_tenant_id meta = tenant_or_default_of auth \<and>
       ge_parse_uuid E id0 = Some (a_id meta) \<and> map_of (dn_blobs dn) (key_path (a_storage_key meta)) = Some data)"
proof -
  obtain uid where uid: "ge_parse_uuid E id0 = Some uid"
    using assms by (cases "ge_parse_uuid E id0") (simp_all add: attachment_download_def data_error_def status_response_def)
  obtain meta data where f: "attachment_fetch A (tenant_or_default_of auth) uid (attachments_of dn) = Inr (Some (meta, data))"
    using assms uid by (auto simp: attachment_download_def data_error_def status_response_def split: sum.splits option.splits)
  then have r: "attachment_download E A auth id0 dn = download_response meta data" using uid by (simp add: attachment_download_def)
  obtain served b where sb: "safe_download_content_type (a_content_type meta) = (served, b)" by fastforce
  have served: "served \<in> set (''application/octet-stream'' # INLINE_SAFE)" "b \<Longrightarrow> served \<in> set INLINE_SAFE"
    using sb by (auto simp: safe_download_content_type_def Let_def split: if_splits)
  have "list_all (list_all header_char) (''application/octet-stream'' # INLINE_SAFE)" by code_simp
  then have sv: "header_value served = Some served" using served(1) by (auto simp: list_all_iff intro!: header_value_chars)
  let ?cd = "content_disposition b (a_filename meta)"
  have cd: "header_value ?cd = Some ?cd" using content_disposition_chars by (intro header_value_chars) blast
  have meta: "meta \<in> set (st_attachments (en_store (nd_memory (dn_node dn))))" "a_tenant_id meta = tenant_or_default_of auth" "a_id meta = uid"
    "map_of (dn_blobs dn) (key_path (a_storage_key meta)) = Some data"
    using f by (auto simp: attachment_fetch_def attachments_of_def attachment_get_def blob_get_def find_Some_iff res_bind_def
        split: option.splits sum.splits)
  have resp: "rs_body (download_response meta data) = Some (Data_Bytes data)"
    "rs_headers (download_response meta data) = [(''content-type'', served), (''x-content-type-options'', ''nosniff''),
      (''content-security-policy'', ''default-src '' @ quote_name ''none'' @ ''; sandbox''), (''content-disposition'', ?cd)]"
    by (simp_all add: download_response_def sb sv cd data_ok_def)
  note cs = content_disposition_chars [of b "a_filename meta"]
  have inl: "prefix ''inline'' ?cd \<longrightarrow> served \<in> set INLINE_SAFE" using cs served(2) by blast
  show ?thesis unfolding r
    by (intro exI [of _ served] exI [of _ ?cd] exI [of _ data] conjI bexI [OF _ meta(1)] resp served(1) inl meta(2,4))
      (use cs uid meta(3) in simp_all)
qed

subsection \<open>Searches and listings by tenant\<close>

lemma event_search_tenant:
  assumes "event_search E (Some t) v k filters nd = Inr results" and "r \<in> set results"
  shows "(case entry_tenant (sr_entry r) of Some x \<Rightarrow> x | None \<Rightarrow> ''default'') = t \<and> length results \<le> k"
  using assms by (auto simp: event_search_def semantic_search_for_tenant_def ss_search_filtered_def Let_def
      split: if_splits dest!: in_set_takeD)

text \<open>The listing of a tenant's agents reads the underscore of the tenant's name as any character, so it shows an agent
  of another tenant, with that tenant's name.\<close>

lemma list_agents_leaks:
  "list_agents_for_tenant ''team_a'' (snd (state_set_for_tenant ''team-a'' ''bot'' ''k'' JNull kv_open)) = [scoped_agent ''team-a'' ''bot'']"
  by code_simp

subsection \<open>A visit and a download\<close>

definition data_demo_env :: gateway_env where
  "data_demo_env = \<lparr>ge_ports = search_demo_ports, ge_search = search_demo, ge_cfg = search_demo_cfg,
     ge_llm = \<lparr>lp_extraction = ''none'', lp_provider = None, lp_parse_array = (\<lambda>_. None)\<rparr>, ge_embeds = True,
     ge_tick = (\<lambda>n. demo_tick (100 + n mod 10000)), ge_now = (\<lambda>_. 500), ge_clock = (\<lambda>_ _. 500), ge_fresh = 7,
     ge_parse_uuid = (\<lambda>s. if s = ''seven'' then Some 7 else None), ge_parse_instant = (\<lambda>_. None),
     ge_error_str = (\<lambda>_. ''error''), ge_json_extract = (\<lambda>_ _. Some ''true''), ge_cluster = None\<rparr>"

definition growing :: "int \<Rightarrow> engine" where
  "growing t = (if t < 5000 then demo_engine else demo_engine1)"

theorem public_view_fresh_witness:
  "serve_all data_demo_env growing [0, 10000, 20000] (publish_new ''acme'') ! 2 = published_of data_demo_env ''acme'' demo_engine1"
  using public_view_fresh [of "[0, 10000, 20000]" 2 data_demo_env growing "''acme''"] by (auto simp: growing_def)

definition plain_storage :: attachment_env where
  "plain_storage = \<lparr>at_io = (\<lambda>_. None), at_uuid_str = (\<lambda>_. ''seven''), at_embed_image = None\<rparr>"

definition uploaded :: data_node where
  "uploaded = snd (attachment_upload data_demo_env plain_storage None None
     \<lparr>uq_memory_id = None, uq_filename = Some ''a/b.html'', uq_caption = None, uq_user_id = None\<rparr> (Some ''text/html'') ''<script>''
     \<lparr>dn_node = node_new 2, dn_blobs = [], dn_modal = []\<rparr>)"

theorem attachment_download_inert_witness:
  "\<exists>cd. list_all header_char cd \<and> \<not> prefix ''inline'' cd \<and>
    rs_headers (attachment_download data_demo_env plain_storage None ''seven'' uploaded) =
      [(''content-type'', ''application/octet-stream''), (''x-content-type-options'', ''nosniff''),
       (''content-security-policy'', ''default-src '' @ quote_name ''none'' @ ''; sandbox''), (''content-disposition'', cd)]"
proof -
  let ?r = "attachment_download data_demo_env plain_storage None ''seven'' uploaded"
  have "rs_status ?r = 200" by code_simp
  from attachment_download_inert [OF this] obtain ct cd where h: "rs_headers ?r = [(''content-type'', ct), (''x-content-type-options'', ''nosniff''),
      (''content-security-policy'', ''default-src '' @ quote_name ''none'' @ ''; sandbox''), (''content-disposition'', cd)]"
    "prefix ''inline'' cd \<longrightarrow> ct \<in> set INLINE_SAFE" "list_all header_char cd" by (elim exE conjE)
  have "snd (rs_headers ?r ! 0) = ''application/octet-stream''" by code_simp
  then have ct: "ct = ''application/octet-stream''" using h(1) by simp
  have "ct \<notin> set INLINE_SAFE" unfolding ct by code_simp
  then show ?thesis using h ct by (intro exI [of _ cd] conjI) blast+
qed

end
