(* ===== verification/Index_Rebuild.thy ===== *)
theory Index_Rebuild
  imports Memory_Review
begin

text \<open>
  Rebuilding the full-text index from the store: \<open>rebuild_lexical_index\<close> and \<open>lexical_reindex\<close> of
  \<open>src/crates/ecphoria-core/src/engine/mod.rs\<close>, which run at startup and on request. The loop reads the active
  memories page by page; it ends because each page moves the offset towards the number of active memories.
\<close>

definition PAGE :: nat where
  "PAGE = 2000"

definition active_by_id :: "memory_store \<Rightarrow> memory list" where
  "active_by_id st = sort_key m_id (ms_select (\<lambda>m. m_state m = Active) st)"

definition index_page_row ::
  "uuid \<times> memory_scope \<times> string option \<times> string option \<times> string \<Rightarrow> lexical_index \<Rightarrow> lexical_index" where
  "index_page_row row ix = (case row of (uid, scope, project, subject, content) \<Rightarrow>
    lx_upsert uid (scope_partition_key scope) project subject content ix)"

lemma lexical_page_active:
  "lexical_page offset limit st = map (\<lambda>m. (m_id m, m_scope m, m_project m, m_subject m, m_content m))
    (take limit (drop offset (active_by_id st)))"
  by (simp add: lexical_page_def active_by_id_def)

function rebuild_pages :: "memory_store \<Rightarrow> nat \<Rightarrow> nat \<Rightarrow> lexical_index \<Rightarrow> nat \<times> lexical_index" where
  "rebuild_pages st offset acc ix =
    (let page = lexical_page offset PAGE st; n = length page; ix' = fold index_page_row page ix
     in if page = [] then (acc, ix)
        else if n < PAGE then (acc + n, ix')
        else rebuild_pages st (offset + n) (acc + n) ix')"
  by pat_completeness auto
termination
proof (relation "measure (\<lambda>(st, offset, _, _). length (active_by_id st) - offset)", goal_cases)
  case (2 st offset acc ix)
  then show ?case by (auto simp: lexical_page_active not_less)
qed simp

declare rebuild_pages.simps [simp del]

definition rebuild_lexical_index :: "memory_store \<Rightarrow> lexical_index \<Rightarrow> nat \<times> lexical_index" where
  "rebuild_lexical_index st ix = rebuild_pages st 0 0 (lx_clear ix)"

definition lexical_reindex :: "engine \<Rightarrow> nat \<times> engine" where
  "lexical_reindex en = (case rebuild_lexical_index (en_store en) (en_lex en) of (n, ix) \<Rightarrow> (n, en\<lparr>en_lex := ix\<rparr>))"

subsection \<open>The rebuilt index is the index of the active memories\<close>

definition index_memory :: "memory \<Rightarrow> lexical_index \<Rightarrow> lexical_index" where
  "index_memory m = lx_upsert (m_id m) (scope_partition_key (m_scope m)) (m_project m) (m_subject m) (m_content m)"

lemma fold_page: "fold index_page_row (map (\<lambda>m. (m_id m, m_scope m, m_project m, m_subject m, m_content m)) ms) ix = fold index_memory ms ix"
  by (induction ms arbitrary: ix) (simp_all add: index_page_row_def index_memory_def)

lemma rebuild_pages_fold:
  "rebuild_pages st offset acc ix =
    (acc + (length (active_by_id st) - offset), fold index_memory (drop offset (active_by_id st)) ix)"
proof (induction st offset acc ix rule: rebuild_pages.induct)
  case (1 st offset acc ix)
  let ?rest = "drop offset (active_by_id st)"
  have page: "lexical_page offset PAGE st = map (\<lambda>m. (m_id m, m_scope m, m_project m, m_subject m, m_content m)) (take PAGE ?rest)"
    by (rule lexical_page_active)
  consider (none) "?rest = []" | (last_page) "?rest \<noteq> []" "length ?rest < PAGE" | (more) "?rest \<noteq> []" "PAGE \<le> length ?rest" by linarith
  then show ?case
  proof cases
    case none
    then show ?thesis by (simp add: rebuild_pages.simps [of st offset] page)
  next
    case last_page
    then have "take PAGE ?rest = ?rest" by simp
    then show ?thesis using last_page by (simp add: rebuild_pages.simps [of st offset] page Let_def fold_page)
  next
    case more
    have pos: "PAGE > 0" by (simp add: PAGE_def)
    have len: "length (lexical_page offset PAGE st) = PAGE" and nonempty: "lexical_page offset PAGE st \<noteq> []"
      using more pos by (simp_all add: page)
    have indexed: "fold index_page_row (lexical_page offset PAGE st) ix = fold index_memory (take PAGE ?rest) ix" by (simp only: page fold_page)
    have "rebuild_pages st offset acc ix = rebuild_pages st (offset + PAGE) (acc + PAGE) (fold index_memory (take PAGE ?rest) ix)"
      by (subst rebuild_pages.simps) (simp add: Let_def len nonempty indexed)
    also have "\<dots> = (acc + PAGE + (length (active_by_id st) - (offset + PAGE)),
        fold index_memory (drop (offset + PAGE) (active_by_id st)) (fold index_memory (take PAGE ?rest) ix))"
      using 1 [OF refl refl refl nonempty] by (simp add: len indexed)
    also have "fold index_memory (drop (offset + PAGE) (active_by_id st)) (fold index_memory (take PAGE ?rest) ix) = fold index_memory ?rest ix"
      by (metis append_take_drop_id fold_append comp_apply drop_drop add.commute)
    also have "acc + PAGE + (length (active_by_id st) - (offset + PAGE)) = acc + (length (active_by_id st) - offset)" using more by simp
    finally show ?thesis .
  qed
qed

lemma fold_index_memory:
  assumes "lx_inv ix" and "distinct (map m_id ms)"
  shows "lx_inv (fold index_memory ms ix) \<and>
    lx_entry (fold index_memory ms ix) uid = (case find (\<lambda>m. m_id m = uid) ms of
      Some m \<Rightarrow> Some (uid, scope_partition_key (m_scope m), m_project m, opt_str (m_subject m), m_content m)
    | None \<Rightarrow> lx_entry ix uid)"
  using assms
proof (induction ms arbitrary: ix)
  case (Cons m ms)
  have inv: "lx_inv (index_memory m ix)" unfolding index_memory_def by (rule lx_inv_upsert [OF Cons.prems(1)])
  have "find (\<lambda>x. m_id x = m_id m) ms = None" using Cons.prems(2) by (simp add: find_None_iff image_iff) metis
  then show ?case using Cons.IH [OF inv] Cons.prems
    by (auto simp: index_memory_def lx_entry_upsert split: option.split)
qed simp

lemma find_by_id:
  "distinct (map m_id ms) \<Longrightarrow> find (\<lambda>m. m_id m = uid) ms = Some m \<longleftrightarrow> m \<in> set ms \<and> m_id m = uid"
  by (induction ms) (auto simp: image_iff)

text \<open>C27: Rebuilding the full-text index ends, and leaves exactly the active memories in it, each with the scope, project,
  subject and content of the store; the count is their number. Whatever was in the index before is gone.\<close>

theorem rebuild_lexical_complete:
  assumes "ms_inv st" and "rebuild_lexical_index st ix = (n, ix')"
  shows "lx_inv ix' \<and> n = card {m \<in> mems st. m_state m = Active} \<and>
    (\<forall>uid. lx_entry ix' uid = (case find (\<lambda>m. m_id m = uid) (ms_select (\<lambda>m. m_state m = Active) st) of
       Some m \<Rightarrow> Some (uid, scope_partition_key (m_scope m), m_project m, opt_str (m_subject m), m_content m)
     | None \<Rightarrow> None))"
proof -
  let ?A = "ms_select (\<lambda>m. m_state m = Active) st"
  have r: "n = length ?A" "ix' = fold index_memory (active_by_id st) (lx_clear ix)"
    using assms(2) by (simp_all add: rebuild_lexical_index_def rebuild_pages_fold active_by_id_def)
  have ids: "distinct (map m_id ?A)" unfolding ms_select_def by (rule distinct_map_filter [OF distinct_mems [OF assms(1)]])
  have sorted_ids: "distinct (map m_id (active_by_id st))" using ids by (simp add: active_by_id_def distinct_map)
  have clear: "lx_inv (lx_clear ix)" "lx_entry (lx_clear ix) uid = None" for uid
    by (simp_all add: lx_clear_def lx_inv_def lx_entry_def)
  have same: "find (\<lambda>m. m_id m = uid) (active_by_id st) = find (\<lambda>m. m_id m = uid) ?A" for uid
  proof -
    have "find (\<lambda>m. m_id m = uid) (active_by_id st) = Some m \<longleftrightarrow> find (\<lambda>m. m_id m = uid) ?A = Some m" for m
      unfolding find_by_id [OF ids] find_by_id [OF sorted_ids] by (simp add: active_by_id_def)
    then show ?thesis by (metis option.exhaust)
  qed
  have "n = card (set ?A)" using r(1) ids by (simp add: distinct_map distinct_card)
  moreover have "set ?A = {m \<in> mems st. m_state m = Active}" by (auto simp: ms_select_def mems_def)
  ultimately show ?thesis using fold_index_memory [OF clear(1) sorted_ids, unfolded clear(2)] by (simp add: r(2) same)
qed

theorem rebuild_lexical_complete_witness:
  "\<exists>ix'. rebuild_lexical_index (en_store demo_engine1) lx_open = (1, ix') \<and>
    map_option (\<lambda>(_, _, _, subject, content). (subject, content)) (lx_entry ix' 1) = Some (''plan'', ''free'')"
proof -
  let ?st = "en_store demo_engine1"
  let ?A = "ms_select (\<lambda>m. m_state m = Active) ?st"
  obtain n ix' where r: "rebuild_lexical_index ?st lx_open = (n, ix')" by fastforce
  have "ms_inv ?st" by code_simp
  note result = rebuild_lexical_complete [OF this r]
  have "map (\<lambda>m. (m_id m, m_subject m, m_content m)) ?A = [(1, Some ''plan'', ''free'')]" by code_simp
  then obtain m where A: "?A = [m]" "m_id m = 1" "m_subject m = Some ''plan''" "m_content m = ''free''" by (auto simp: map_eq_Cons_conv)
  have "{m \<in> mems ?st. m_state m = Active} = set ?A" by (auto simp: ms_select_def mems_def)
  then have "{m \<in> mems ?st. m_state m = Active} = {m}" using A(1) by simp
  then have n: "n = 1" using conjunct1 [OF conjunct2 [OF result]] by simp
  have "lx_entry ix' 1 = Some (1, scope_partition_key (m_scope m), m_project m, opt_str (m_subject m), m_content m)"
    using result A by simp
  then show ?thesis using r n A by (intro exI [of _ ix'] conjI) (simp_all add: opt_str_def)
qed

end
