(* ===== verification/Spec2Isabelle.thy ===== *)
theory Spec2Isabelle
  imports Memory_Review Memory_Batch Memory_Reads State_Store Raft_Apply Raft_Store Shard_Router Knowledge_Graph Snapshot_Codec Agent_Liveness Fact_Validation Memory_Maintenance Gateway_Routing Gateway_Isolation Gateway_Webhook Gateway_Data Index_Rebuild
begin

text \<open>
  Ecphoria is a memory database for agents, written in Rust under \<open>src/\<close>. This development models
  the core of it and proves what the parts promise.

  \<^bold>\<open>The program.\<close> The crate \<open>ecphoria-core\<close> holds the engine (\<open>engine/mod.rs\<close>). A write
  (\<open>memory_add\<close>) validates an input, plans rows against what is believed now (insert, supersede,
  merge, conflict, no change), applies them to the memory store (\<open>memory/cognition.rs\<close>), keeps the
  full-text index (\<open>memory/lexical.rs\<close>) and the vector index (\<open>memory/semantic.rs\<close>) in step,
  extracts graph edges and publishes change events. Searches fuse the two indexes and the graph.
  Beside the memories the engine keeps an event log (\<open>memory/episodic.rs\<close>, filled by
  \<open>ingest/pipeline.rs\<close>), versioned agent state (\<open>memory/state.rs\<close>) and the runs of agents
  (\<open>runtime/store.rs\<close>, driven by \<open>engine/agentic.rs\<close>). The crate \<open>ecphoria-cluster\<close> replicates
  requests through Raft (\<open>raft/types.rs\<close>, \<open>raft/store.rs\<close>, \<open>coordinator.rs\<close>), ships snapshots
  (\<open>replication/snapshot.rs\<close>) and routes tenants to shards (\<open>shard.rs\<close>). The crate
  \<open>ecphoria-gateway\<close> serves the engine over HTTP, gRPC, MCP and the Postgres protocol.

  \<^bold>\<open>Theories, bottom up.\<close>

  \<^item> \<open>Ecphoria_Prelude\<close>: identifiers, instants, JSON, the Rust string functions the sources call,
    association lists and the error values of \<open>error.rs\<close>. \<open>Sql_Table\<close>: tables as lists of rows and the
    statement forms issued on them; the locale \<open>keyed_store\<close> states what a table keyed by its primary
    key promises (lookup after put, delete, distinct keys), interpreted on the generic table, on the
    memory rows (\<open>Memory_Store\<close>) and on the full-text documents (\<open>Lexical_Index\<close>).
  \<^item> \<open>Memory_Model\<close> (records and pure functions of \<open>cognition.rs\<close>, the locale \<open>advisory_index\<close> of an
    index that may name only active memories), \<open>Memory_Store\<close> (\<open>MemoryStore\<close>), \<open>Lexical_Index\<close>
    (\<open>LexicalIndex\<close> and its match expression), \<open>Vector_Index\<close> (\<open>SemanticStore\<close> and the scoped index);
    the last two interpret \<open>advisory_index\<close>.
  \<^item> \<open>Memory_Engine\<close>: the operations of \<open>Engine\<close>. Its lemmas are in \<open>Memory_Cognition\<close> (one active
    memory per scope, project and subject; what is believed after a write), \<open>Memory_Timeline\<close> (a write
    loses nothing and leaves the past as it was), \<open>Memory_Lifecycle\<close> (the engine as a step relation;
    the indexes name stored, active memories in every state its steps lead to, which leave out only bulk
    writes that write one memory twice in a group; re-applying committed rows),
    \<open>Memory_Batch\<close> (the bulk write equals the loop), \<open>Memory_Review\<close> (proposals, contradictions,
    quotas, tenant erasure and isolation), \<open>Memory_Reads\<close> (point-in-time reads, the full-text query)
    and \<open>Memory_Search\<close> (hybrid and shared search). \<open>Memory_Maintenance\<close>: remembering text, re-embedding,
    consolidation, listings and provenance.
  \<^item> \<open>State_Store\<close>: \<open>StateStore\<close> with its cache, as a step relation, and the tenant wrappers of the
    engine. \<open>Episodic_Store\<close>: the event log and the embedding pipeline. \<open>Run_Ledger\<close>: runs and leases.
  \<^item> \<open>Graph_Analytics\<close> and \<open>Graph_Communities\<close>: \<open>graph_analytics.rs\<close>, against path and connectivity
    in the graph. \<open>Knowledge_Graph\<close>: links, functional predicates and the temporal graph.
  \<^item> \<open>Raft_Apply\<close>: the replicated requests and \<open>apply_request\<close> on a node (memories, state, events and
    runs together). \<open>Raft_Store\<close>: log, vote, applied position and snapshots over a disk whose writes
    may fail, as a step relation with crashes; whether an entry survives its encoding is a hypothesis, which
    the encoding of graph edges does not meet. \<open>Shard_Router\<close>: the hash ring, scale plans and moves.
    \<open>Snapshot_Codec\<close>: the byte format of a snapshot.
  \<^item> \<open>Workflow_Order\<close> (topological order), \<open>Agent_Driver\<close> (journal, approvals, triggers, tools),
    \<open>Agent_Loop\<close> (turns, leases, resumption, dispatch, workflows): \<open>agentic.rs\<close>. \<open>Agent_Resume\<close> shows
    that the journal rebuilds the position of the loop, \<open>Agent_Liveness\<close> that every drive settles its run as
    long as the run ledger takes its writes.
  \<^item> \<open>Markdown_Chunker\<close> (\<open>chunk.rs\<close>: no text is lost and no fenced block cut) and \<open>Document_Import\<close>
    (\<open>document_ingest\<close> and \<open>document_prune\<close> of the engine: what an import leaves, and that importing again
    only confirms). \<open>Fact_Schema\<close> (\<open>schema.rs\<close>: the checker against the meaning of the keywords) and
    \<open>Fact_Validation\<close> (\<open>facts.rs\<close>, plugged into the governance of the engine).
  \<^item> \<open>Gateway_Auth\<close>: the authentication middleware of \<open>ecphoria-gateway\<close> (\<open>auth/\<close>), its decisions on every
    branch, the token bucket and the audit log. \<open>Gateway_Routing\<close>: shard routing, leader forwarding and the
    proxy (\<open>cluster/\<close>), and where a fleet of pods handles a request. \<open>Gateway_Memory\<close>: the handlers of
    \<open>rest/handlers/memory.rs\<close> on a node, single or replicated, with the scope resolution of
    \<open>rest/handlers/mod.rs\<close>. \<open>Memory_Tenancy\<close> says which tenant's memories the operations of the engine
    change, \<open>Gateway_Isolation\<close> that a request of one tenant, the decay pass apart, neither changes nor shows
    another's memories.
  \<^item> \<open>Webhook_Events\<close>: \<open>ingest/webhook.rs\<close> and \<open>ingest/promote.rs\<close>, the payloads of the vendors as events and the
    memories promoted from them; a redelivery only confirms. \<open>Gateway_Webhook\<close>: the webhook and event endpoints of
    \<open>rest/handlers/mod.rs\<close>, from the signature to the stores.
  \<^item> \<open>Index_Rebuild\<close>: the rebuild of the full-text index from the store. \<open>Tenant_Data\<close>: the operations of the engine on
    the whole of a tenant (erase, export, import, move), retention of events, session distillation, attachments
    over \<open>storage/local.rs\<close> and the neighbourhood of an entity. \<open>Gateway_Data\<close>: the handlers of
    \<open>rest/handlers/mod.rs\<close> for search, state, sessions, the public page, templates, graph, attachments and listings;
    what a browser gets from the public page and from a download is inert.

  \<^bold>\<open>How the code is represented.\<close> A struct is a \<open>record\<close>, an enum a \<open>datatype\<close>; a method that
  changes state takes and returns it; \<open>Result\<close> is \<open>error + 'a\<close>, and the agent driver uses an outcome
  type with done, raised and panicked. Identifiers are \<open>128 word\<close>; hashes are \<open>64 word\<close>; instants are
  microseconds as \<open>int\<close>; byte strings and text are lists of characters, one character a byte; JSON keeps
  the order of its object entries; floating-point scores are exact rationals, so rounding is not
  modelled. SQL tables are lists of rows in insertion order and each statement is the list function it
  denotes. What the code gets from outside is an argument, grouped in \<open>ports\<close> and \<open>agent_env\<close>: the
  clock, fresh identifiers, the embedding and reranking services, the language model, external tools,
  the nearest-neighbour library, the ranking of the full-text engine, the iteration order of hash maps,
  the outcome of disk writes and of consensus. Laws assumed of them are named hypotheses of the
  theorems, and the witnesses instantiate them.

  \<^bold>\<open>Loops.\<close> Loops over collections are structural recursion. The paged rebuild of the full-text index and the
  queues of the breadth-first search,
  of the topological order and of the snapshot decoder terminate by a measure on what is left, decimal
  printing and the count of matches by the size of the number and of the text. The parent chain of
  union-find is a \<open>partial_function\<close> into \<open>option\<close>, and it is proved to return on every forest the code
  builds. The agent loop is bounded by its number of turns, as in the code; no other fuel is used.

  \<^bold>\<open>Concurrency.\<close> Operations of one store run under its lock in the code and are single steps here;
  histories are sequences of steps. Background tasks appear as the operations they call.

  \<^bold>\<open>Not modelled.\<close> Opening and migrating databases, files and object stores, the approximate
  nearest-neighbour library and SQLite itself, the consensus library, network transport and TLS, the
  clients of embedding and language-model services, configuration files, the protocol servers and
  their serialization, cryptography, the command line, the operator and the language bindings: they are
  I/O or call libraries whose code is not in the repository. Of the modelled tables, the columns written from
  the local clock that no modelled operation reads (\<open>updated_at\<close> of agent state, \<open>created_at\<close> of graph edges)
  are left out; errors of the databases appear where the code reacts to them (the disk of Raft, the run
  ledger), not everywhere; failures of the indexes, which the code logs and ignores, do not occur. Versions
  are unbounded. The SQL surface of the event log is left for
  later work.
\<close>

end
